(* ===== verification/Prelude.thy ===== *)
theory Prelude
  imports Main "HOL-Library.Word" "HOL-Library.Sublist"
begin

text \<open>
  The shared ground of the development: the fault values that stand for the places where the
  C code has undefined behaviour or blocks for ever, the state-and-fault monad in which the
  effectful functions are written, and generic lemmas on lists, options and words.

  A C pointer to characters is a \<open>string option\<close> (\<open>None\<close> is NULL), a C \<open>int\<close> that is
  stored or transported is a \<open>32 word\<close>, and a pointer with its element count is a list.
\<close>

named_theorems io_simps "unfolding rules of the monad and of the primitives written in it"

type_synonym cptr = "string option"
type_synonym c_int = "32 word"
type_synonym byte = "8 word"

section \<open>Faults\<close>

text \<open>
  What ends the run of a function other than its return: a NULL dereference, an access outside
  an array or an allocated block, a formatted write past the end of its buffer, a \<open>%s\<close> whose
  argument is NULL, a lock that is never released, a use of the value of a function that ended
  without a \<open>return\<close>, a read of an uninitialised variable, a call of \<open>exit\<close>,
  a \<open>free\<close> of something that was not allocated or of something that was released before, a read
  of memory that was released, a read of a union through a member other than the stored one, an argument of the wrong type to a
  function of the library. \<open>OutOfFuel\<close> is
  not a fault of the code: it marks a run that was cut off because the fuel given to a model of
  an unbounded loop was used up.
\<close>

datatype fault =
    NullDeref
  | OutOfBounds
  | BufferOverflow
  | NullString
  | Deadlock
  | MissingReturn
  | Uninitialised
  | ProgramExit
  | InvalidFree
  | UseAfterFree
  | WrongMember
  | InvalidArgument
  | OutOfFuel

section \<open>The state-and-fault monad\<close>

type_synonym ('s, 'a) io = "'s \<Rightarrow> (fault + 'a) \<times> 's"

definition io_ret :: "'a \<Rightarrow> ('s, 'a) io" where
  "io_ret x = (\<lambda>s. (Inr x, s))"

definition io_fail :: "fault \<Rightarrow> ('s, 'a) io" where
  "io_fail f = (\<lambda>s. (Inl f, s))"

definition io_bind :: "('s, 'a) io \<Rightarrow> ('a \<Rightarrow> ('s, 'b) io) \<Rightarrow> ('s, 'b) io" where
  "io_bind m k = (\<lambda>s. case m s of (Inl f, s') \<Rightarrow> (Inl f, s') | (Inr x, s') \<Rightarrow> k x s')"

definition io_then :: "('s, 'a) io \<Rightarrow> ('s, 'b) io \<Rightarrow> ('s, 'b) io" where
  "io_then m n = io_bind m (\<lambda>_. n)"

definition io_get :: "('s \<Rightarrow> 'a) \<Rightarrow> ('s, 'a) io" where
  "io_get f = (\<lambda>s. (Inr (f s), s))"

definition io_modify :: "('s \<Rightarrow> 's) \<Rightarrow> ('s, unit) io" where
  "io_modify f = (\<lambda>s. (Inr (), f s))"

text \<open>Straight-line code: the calls of a list, in order, their results dropped.\<close>

primrec io_seq :: "('s, unit) io list \<Rightarrow> ('s, unit) io" where
  "io_seq [] = io_ret ()"
| "io_seq (m # ms) = io_then m (io_seq ms)"

definition io_void :: "('s, 'a) io \<Rightarrow> ('s, unit) io" where
  "io_void m = io_bind m (\<lambda>_. io_ret ())"

text \<open>A counted \<open>for\<close> loop over the elements of an array.\<close>

definition io_for :: "'a list \<Rightarrow> ('a \<Rightarrow> ('s, unit) io) \<Rightarrow> ('s, unit) io" where
  "io_for xs f = io_seq (map f xs)"

text \<open>Dereferencing a pointer.\<close>

definition io_deref :: "'a option \<Rightarrow> ('s, 'a) io" where
  "io_deref p = (case p of None \<Rightarrow> io_fail NullDeref | Some x \<Rightarrow> io_ret x)"

lemma io_ret_app [io_simps]: "io_ret x s = (Inr x, s)"
  by (simp add: io_ret_def)

lemma io_fail_app [io_simps]: "io_fail f s = (Inl f, s)"
  by (simp add: io_fail_def)

lemma io_bind_app [io_simps]:
  "io_bind m k s = (case m s of (Inl f, s') \<Rightarrow> (Inl f, s') | (Inr x, s') \<Rightarrow> k x s')"
  by (simp add: io_bind_def)

lemma io_then_app [io_simps]:
  "io_then m n s = (case m s of (Inl f, s') \<Rightarrow> (Inl f, s') | (Inr x, s') \<Rightarrow> n s')"
  by (simp add: io_then_def io_bind_def)

lemma io_get_app [io_simps]: "io_get f s = (Inr (f s), s)"
  by (simp add: io_get_def)

lemma io_modify_app [io_simps]: "io_modify f s = (Inr (), f s)"
  by (simp add: io_modify_def)

lemma io_void_app [io_simps]:
  "io_void m s = (case m s of (Inl f, s') \<Rightarrow> (Inl f, s') | (Inr x, s') \<Rightarrow> (Inr (), s'))"
  by (simp add: io_void_def io_bind_def io_ret_def)

lemma io_deref_Some [io_simps]: "io_deref (Some x) s = (Inr x, s)"
  by (simp add: io_deref_def io_ret_def)

lemma io_deref_None [io_simps]: "io_deref None s = (Inl NullDeref, s)"
  by (simp add: io_deref_def io_fail_def)

lemma io_for_Nil [io_simps]: "io_for [] f s = (Inr (), s)"
  by (simp add: io_for_def io_ret_def)

lemma io_for_Cons [io_simps]: "io_for (x # xs) f s = io_then (f x) (io_for xs f) s"
  by (simp add: io_for_def)

lemma io_seq_append:
  "io_seq (ms @ ns) s = io_then (io_seq ms) (io_seq ns) s"
  by (induction ms arbitrary: s)
    (auto simp: io_then_app io_ret_app split: prod.splits sum.splits)

text \<open>The two ways a bind can end, as elimination and introduction rules.\<close>

lemma io_bind_Inr:
  assumes "io_bind m k s = (Inr y, t)"
  obtains x s' where "m s = (Inr x, s')" "k x s' = (Inr y, t)"
  using assms by (auto simp: io_bind_app split: prod.splits sum.splits)

lemma io_bind_eqI:
  "m s = (Inr x, s') \<Longrightarrow> io_bind m k s = k x s'"
  by (simp add: io_bind_app)

section \<open>Generic lemmas\<close>

lemma take_drop_update_same:
  assumes "length r = n" "i + n \<le> length xs"
  shows "take n (drop i (take i xs @ r @ drop (i + n) xs)) = r"
  using assms by simp

lemma nth_update_block:
  assumes "length r = n" "i + n \<le> length xs" "k < length xs"
  shows "(take i xs @ r @ drop (i + n) xs) ! k = (if i \<le> k \<and> k < i + n then r ! (k - i) else xs ! k)"
  using assms by (auto simp: nth_append min_def)

lemma length_update_block:
  "length r = n \<Longrightarrow> i + n \<le> length xs \<Longrightarrow> length (take i xs @ r @ drop (i + n) xs) = length xs"
  by simp

lemma mod_Suc_shift: "(n::nat) > 0 \<Longrightarrow> k < n \<Longrightarrow> (k + n - 1) mod n = (if k = 0 then n - 1 else k - 1)"
  by (cases k) auto

section \<open>Loops that carry a value, searches, and deletion by \<open>memmove\<close>\<close>

text \<open>A \<open>for\<close> loop whose body updates a local variable.\<close>

fun io_fold :: "('b \<Rightarrow> 'a \<Rightarrow> ('s, 'b) io) \<Rightarrow> 'b \<Rightarrow> 'a list \<Rightarrow> ('s, 'b) io" where
  "io_fold f b [] = io_ret b"
| "io_fold f b (x # xs) = io_bind (f b x) (\<lambda>b'. io_fold f b' xs)"

text \<open>The index at which a search loop that ends with \<open>break\<close> stops.\<close>

fun first_index :: "('a \<Rightarrow> bool) \<Rightarrow> 'a list \<Rightarrow> nat option" where
  "first_index P [] = None"
| "first_index P (x # xs) = (if P x then Some 0 else map_option Suc (first_index P xs))"

text \<open>
  \<open>memmove\<close> of the elements after index \<open>j\<close> of an array with \<open>n\<close> elements one place down. The
  last element stays where it was, so it is there twice.
\<close>

definition memmove_down :: "nat \<Rightarrow> nat \<Rightarrow> 'a list \<Rightarrow> 'a list" where
  "memmove_down j n xs = take j xs @ take (n - Suc j) (drop (Suc j) xs) @ drop (n - 1) xs"

lemma first_index_None: "first_index P xs = None \<longleftrightarrow> (\<forall>x \<in> set xs. \<not> P x)"
  by (induction xs) auto

lemma first_index_Some:
  "first_index P xs = Some i \<longleftrightarrow> i < length xs \<and> P (xs ! i) \<and> (\<forall>k<i. \<not> P (xs ! k))"
proof (induction xs arbitrary: i)
  case (Cons x xs)
  show ?case
  proof (cases i)
    case 0 then show ?thesis by auto
  next
    case (Suc j)
    then show ?thesis using Cons.IH [of j] by (auto simp: nth_Cons split: nat.splits)
  qed
qed simp

lemma length_memmove_down [simp]:
  "j < n \<Longrightarrow> n \<le> length xs \<Longrightarrow> length (memmove_down j n xs) = length xs"
  by (auto simp: memmove_down_def)

lemma take_memmove_down:
  assumes "j < length xs"
  shows "take (length xs - 1) (memmove_down j (length xs) xs) = take j xs @ drop (Suc j) xs"
  using assms by (simp add: memmove_down_def take_append)

lemma distinct_remove_nth:
  assumes "distinct xs" "j < length xs"
  shows "take j xs @ drop (Suc j) xs = filter (\<lambda>x. x \<noteq> xs ! j) xs"
proof -
  have split: "xs = take j xs @ xs ! j # drop (Suc j) xs" using assms(2) by (rule id_take_nth_drop)
  have d: "distinct (take j xs @ xs ! j # drop (Suc j) xs)" using assms(1) split by metis
  have "filter (\<lambda>x. x \<noteq> xs ! j) (take j xs @ xs ! j # drop (Suc j) xs) = take j xs @ drop (Suc j) xs"
  proof -
    have "filter (\<lambda>x. x \<noteq> xs ! j) (take j xs) = take j xs"
      using d by (intro filter_True) auto
    moreover have "filter (\<lambda>x. x \<noteq> xs ! j) (drop (Suc j) xs) = drop (Suc j) xs"
      using d by (intro filter_True) auto
    ultimately show ?thesis by simp
  qed
  then show ?thesis using split by metis
qed

end
