(* ===== verification/CStrings.thy ===== *)
theory CStrings
  imports Prelude "HOL-Library.Char_ord"
begin

text \<open>
  \<open>src/utils/string\<close>, \<open>src/utils/split\<close> and \<open>src/utils/mem\<close>, on top of the functions of
  \<open>string.h\<close> they call. A pointer into a string is the suffix it points at, so the
  difference of two pointers into one string is a difference of lengths.
\<close>

section \<open>The string functions of the C library\<close>

text \<open>\<open>strstr\<close>: the suffix of the first string that starts at the first occurrence.\<close>

fun strstr :: "string \<Rightarrow> string \<Rightarrow> string option" where
  "strstr [] pat = (if pat = [] then Some [] else None)"
| "strstr (c # cs) pat = (if prefix pat (c # cs) then Some (c # cs) else strstr cs pat)"

text \<open>
  \<open>strtok_r\<close>: skip the delimiters, return the run of other characters, and leave the
  saved pointer behind the delimiter that ended the run.
\<close>

definition strtok_r :: "char list \<Rightarrow> string \<Rightarrow> (string \<times> string) option" where
  "strtok_r delims s =
     (let s' = dropWhile (\<lambda>c. c \<in> set delims) s
      in if s' = [] then None
         else Some (takeWhile (\<lambda>c. c \<notin> set delims) s',
                    drop 1 (dropWhile (\<lambda>c. c \<notin> set delims) s')))"

text \<open>\<open>strncmp (s, t, n)\<close> is 0: the first \<open>n\<close> characters agree, terminator included.\<close>

definition strncmp_eq :: "string \<Rightarrow> string \<Rightarrow> nat \<Rightarrow> bool" where
  "strncmp_eq s t n \<longleftrightarrow> take n s = take n t"

definition is_digit :: "char \<Rightarrow> bool" where
  "is_digit c \<longleftrightarrow> CHR ''0'' \<le> c \<and> c \<le> CHR ''9''"

definition is_space :: "char \<Rightarrow> bool" where
  "is_space c \<longleftrightarrow> c = CHR '' '' \<or> (CHR 0x09 \<le> c \<and> c \<le> CHR 0x0D)"

fun digits_value :: "int \<Rightarrow> string \<Rightarrow> int" where
  "digits_value acc [] = acc"
| "digits_value acc (c # cs) =
     (if is_digit c then digits_value (10 * acc + (of_char c - 48)) cs else acc)"

text \<open>
  \<open>atoi\<close>: leading white space, an optional sign, decimal digits. Values outside the range of
  \<open>int\<close> are undefined in C; here they are reduced as the conversion of a long to an int does.
\<close>

definition atoi :: "string \<Rightarrow> c_int" where
  "atoi s =
     (let s' = dropWhile is_space s
      in case s' of
           [] \<Rightarrow> 0
         | c # cs \<Rightarrow>
             if c = CHR ''-'' then word_of_int (- digits_value 0 cs)
             else if c = CHR ''+'' then word_of_int (digits_value 0 cs)
             else word_of_int (digits_value 0 s'))"

text \<open>\<open>sprintf\<close> with \<open>%d\<close>: the decimal rendering of an int.\<close>

definition digit_char :: "nat \<Rightarrow> char" where
  "digit_char d = char_of (48 + d)"

fun show_nat :: "nat \<Rightarrow> string" where
  "show_nat n = (if n < 10 then [digit_char n] else show_nat (n div 10) @ [digit_char (n mod 10)])"

declare show_nat.simps [simp del]

definition show_int :: "c_int \<Rightarrow> string" where
  "show_int w =
     (if sint w < 0 then ''-'' @ show_nat (nat (- sint w)) else show_nat (nat (sint w)))"

text \<open>\<open>%s\<close> with a NULL argument is undefined.\<close>

definition fmt_s :: "cptr \<Rightarrow> ('s, string) io" where
  "fmt_s p = (case p of None \<Rightarrow> io_fail NullString | Some s \<Rightarrow> io_ret s)"

text \<open>A formatted write into an array of \<open>n\<close> characters, the terminator included.\<close>

definition sprintf_buf :: "nat \<Rightarrow> string \<Rightarrow> ('s, string) io" where
  "sprintf_buf n s = (if length s < n then io_ret s else io_fail BufferOverflow)"

lemma fmt_s_Some [io_simps]: "fmt_s (Some x) s = (Inr x, s)"
  by (simp add: fmt_s_def io_ret_def)

lemma fmt_s_None [io_simps]: "fmt_s None s = (Inl NullString, s)"
  by (simp add: fmt_s_def io_fail_def)

lemma sprintf_buf_app [io_simps]:
  "sprintf_buf n x s = (if length x < n then (Inr x, s) else (Inl BufferOverflow, s))"
  by (simp add: sprintf_buf_def io_ret_def io_fail_def)

section \<open>app_string.c\<close>

definition app_strstr :: "cptr \<Rightarrow> cptr \<Rightarrow> cptr" where
  "app_strstr str1 str2 =
     (case str1 of None \<Rightarrow> None
      | Some s \<Rightarrow> (case str2 of None \<Rightarrow> None | Some p \<Rightarrow> strstr s p))"

definition app_strdup :: "cptr \<Rightarrow> cptr" where
  "app_strdup str = (case str of None \<Rightarrow> None | Some s \<Rightarrow> Some s)"

definition app_strndup :: "cptr \<Rightarrow> nat \<Rightarrow> cptr" where
  "app_strndup str n = (case str of None \<Rightarrow> None | Some s \<Rightarrow> Some (take n s))"

text \<open>One turn of the loop of \<open>upcase_to_lowcase\<close>.\<close>

definition lowcase_char :: "char \<Rightarrow> char" where
  "lowcase_char c =
     (if CHR ''A'' \<le> c \<and> c \<le> CHR ''Z'' then char_of (of_char c + 32 :: nat) else c)"

text \<open>
  \<open>upcase_to_lowcase\<close> allocates \<open>strlen\<close> bytes and copies the string with its terminator, so
  the copy runs one byte past the block. \<open>lowcase_alloc\<close> and \<open>lowcase_written\<close> are the two sizes,
  \<open>upcase_to_lowcase\<close> the string the caller reads back.
\<close>

definition lowcase_alloc :: "string \<Rightarrow> nat" where
  "lowcase_alloc str_in = length str_in"

definition lowcase_written :: "string \<Rightarrow> nat" where
  "lowcase_written str_in = length str_in + 1"

definition upcase_to_lowcase :: "string \<Rightarrow> string" where
  "upcase_to_lowcase str_in = map lowcase_char str_in"

section \<open>mem.c\<close>

fun app_mem_empty :: "byte list \<Rightarrow> bool" where
  "app_mem_empty [] = True"
| "app_mem_empty (i # is) = (if i > 0 then False else app_mem_empty is)"

section \<open>split.c\<close>

function split :: "string \<Rightarrow> char list \<Rightarrow> string list" where
  "split str pattern =
     (case strtok_r pattern str of
        None \<Rightarrow> []
      | Some (token, rest) \<Rightarrow> token # split rest pattern)"
  by pat_completeness auto

lemma strtok_r_shorter:
  assumes "strtok_r d s = Some (t, r)"
  shows "length r < length s"
proof -
  let ?s' = "dropWhile (\<lambda>c. c \<in> set d) s"
  have ne: "?s' \<noteq> []" and r: "r = drop 1 (dropWhile (\<lambda>c. c \<notin> set d) ?s')"
    using assms by (auto simp: strtok_r_def Let_def split: if_splits)
  have "length (dropWhile (\<lambda>c. c \<notin> set d) ?s') \<le> length ?s'"
    by (rule length_dropWhile_le)
  moreover have "length ?s' \<le> length s" by (rule length_dropWhile_le)
  moreover have "0 < length ?s'" using ne by simp
  ultimately show ?thesis unfolding r length_drop by linarith
qed

termination split
  by (relation "measure (\<lambda>(s, _). length s)") (auto dest: strtok_r_shorter)

declare split.simps [simp del]

section \<open>Facts about the searches\<close>

lemma strstr_Some_iff: "(\<exists>r. strstr s p = Some r) \<longleftrightarrow> sublist p s"
proof (induction s)
  case Nil
  then show ?case by auto
next
  case (Cons c cs)
  then show ?case by (auto simp: sublist_Cons_right)
qed

lemma strstr_None_iff: "strstr s p = None \<longleftrightarrow> \<not> sublist p s"
  using strstr_Some_iff [of s p] by (cases "strstr s p") auto

lemma strstr_suffix: "strstr s p = Some r \<Longrightarrow> suffix r s \<and> prefix p r"
  by (induction s) (auto simp: suffix_Cons split: if_splits)

text \<open>No earlier occurrence: a proper prefix of the text before the match holds none.\<close>

lemma strstr_first:
  assumes "strstr s p = Some r" "s = us @ vs" "prefix p vs"
  shows "length vs \<le> length r"
  using assms
proof (induction s arbitrary: us)
  case Nil
  then show ?case by auto
next
  case (Cons c cs)
  show ?case
  proof (cases "prefix p (c # cs)")
    case True
    with Cons.prems(1) have "r = c # cs" by simp
    moreover have "length (c # cs) = length us + length vs"
      unfolding Cons.prems(2) by simp
    ultimately show ?thesis by simp
  next
    case False
    with Cons.prems obtain us' where us': "us = c # us'"
      by (cases us) auto
    with Cons.prems False Cons.IH [of us'] show ?thesis by simp
  qed
qed

lemma strstr_refl [simp]: "strstr s s = Some s"
  by (cases s) auto

lemma strstr_prefix: "prefix p s \<Longrightarrow> strstr s p = Some s"
  by (cases s) auto

lemma app_strstr_iff: "app_strstr (Some s) (Some p) \<noteq> None \<longleftrightarrow> sublist p s"
  using strstr_None_iff by (auto simp: app_strstr_def)

lemma app_strstr_None [simp]: "app_strstr None p = None" "app_strstr s None = None"
  by (auto simp: app_strstr_def split: option.splits)

lemma app_strdup_id [simp]: "app_strdup p = p"
  by (cases p) (auto simp: app_strdup_def)

lemma sublist_length_eq: "sublist p s \<Longrightarrow> length s \<le> length p \<Longrightarrow> s = p"
  by (auto simp: sublist_def)

text \<open>For identifiers of one length, the substring test is equality.\<close>

lemma app_strstr_same_length:
  "length s = length p \<Longrightarrow> app_strstr (Some s) (Some p) \<noteq> None \<longleftrightarrow> s = p"
  using app_strstr_iff [of s p] sublist_length_eq [of p s] by auto

section \<open>Facts about split\<close>

lemma split_Nil [simp]: "split [] d = []"
  by (simp add: split.simps strtok_r_def)

lemma split_skip: "c \<in> set d \<Longrightarrow> split (c # s) d = split s d"
  by (simp add: split.simps [of "c # s"] split.simps [of s] strtok_r_def)

lemma split_token:
  assumes "c \<notin> set d"
  shows "split (c # s) d = (c # takeWhile (\<lambda>x. x \<notin> set d) s) # split (dropWhile (\<lambda>x. x \<notin> set d) s) d"
proof -
  let ?r = "dropWhile (\<lambda>x. x \<notin> set d) s"
  have "split (drop 1 ?r) d = split ?r d"
  proof (cases ?r)
    case (Cons a as)
    then have "a \<in> set d" using hd_dropWhile [of "\<lambda>x. x \<notin> set d" s] by simp
    with Cons show ?thesis by (simp add: split_skip)
  next
    case Nil
    show ?thesis unfolding Nil by simp
  qed
  with assms show ?thesis
    by (subst split.simps) (simp add: strtok_r_def)
qed

lemma split_ne: "t \<in> set (split s d) \<Longrightarrow> t \<noteq> [] \<and> set t \<inter> set d = {}"
proof (induction s d rule: split.induct)
  case (1 str pattern)
  show ?case
  proof (cases "strtok_r pattern str")
    case None
    then have "split str pattern = []" by (subst split.simps) simp
    with 1(2) show ?thesis by simp
  next
    case (Some p)
    obtain tok rest where p: "p = (tok, rest)" by fastforce
    have tok: "tok = takeWhile (\<lambda>c. c \<notin> set pattern) (dropWhile (\<lambda>c. c \<in> set pattern) str)"
      and ne: "dropWhile (\<lambda>c. c \<in> set pattern) str \<noteq> []"
      using Some p by (auto simp: strtok_r_def Let_def split: if_splits)
    have "tok \<noteq> []"
      using ne hd_dropWhile [OF ne] by (simp add: tok takeWhile_eq_Nil_iff)
    moreover have "set tok \<inter> set pattern = {}"
      by (auto simp: tok dest: set_takeWhileD)
    moreover have "t = tok \<or> t \<in> set (split rest pattern)"
      using 1(2) Some p by (subst (asm) split.simps) simp
    ultimately show ?thesis using 1(1) [OF Some] p by blast
  qed
qed

text \<open>Nothing but delimiters is lost.\<close>

lemma concat_split: "concat (split s d) = filter (\<lambda>c. c \<notin> set d) s"
proof (induction s rule: length_induct)
  case (1 s)
  show ?case
  proof (cases s)
    case (Cons c cs)
    show ?thesis
    proof (cases "c \<in> set d")
      case True
      with 1 Cons show ?thesis by (simp add: split_skip)
    next
      case False
      let ?r = "dropWhile (\<lambda>x. x \<notin> set d) cs"
      have "length ?r < length s" using Cons by (simp add: le_imp_less_Suc length_dropWhile_le)
      then have "concat (split ?r d) = filter (\<lambda>c. c \<notin> set d) ?r" using 1 by blast
      moreover have "takeWhile (\<lambda>x. x \<notin> set d) cs @ filter (\<lambda>c. c \<notin> set d) ?r = filter (\<lambda>c. c \<notin> set d) cs"
        by (induction cs) auto
      ultimately show ?thesis using False Cons by (simp add: split_token)
    qed
  qed simp
qed

lemma split_word: "w \<noteq> [] \<Longrightarrow> set w \<inter> set d = {} \<Longrightarrow> split w d = [w]"
proof (cases w)
  case (Cons c cs)
  assume "w \<noteq> []" "set w \<inter> set d = {}"
  with Cons have c: "c \<notin> set d" and cs: "\<forall>x \<in> set cs. x \<notin> set d"
    by auto
  from cs have "takeWhile (\<lambda>x. x \<notin> set d) cs = cs" "dropWhile (\<lambda>x. x \<notin> set d) cs = []"
    by (auto simp: takeWhile_eq_all_conv dropWhile_eq_Nil_conv)
  then show ?thesis unfolding Cons split_token [OF c] by (simp only: split_Nil)
qed simp

lemma split_word_delim:
  "w \<noteq> [] \<Longrightarrow> set w \<inter> set d = {} \<Longrightarrow> c \<in> set d \<Longrightarrow> split (w @ c # s) d = w # split s d"
proof (cases w)
  case (Cons a as)
  assume "w \<noteq> []" "set w \<inter> set d = {}" "c \<in> set d"
  with Cons have a: "a \<notin> set d" and as: "\<forall>x \<in> set as. x \<notin> set d" by auto
  from as \<open>c \<in> set d\<close> have "takeWhile (\<lambda>x. x \<notin> set d) (as @ c # s) = as"
    by (induction as) auto
  moreover from as \<open>c \<in> set d\<close> have "dropWhile (\<lambda>x. x \<notin> set d) (as @ c # s) = c # s"
    by (induction as) auto
  ultimately show ?thesis using \<open>c \<in> set d\<close> a unfolding Cons
    by (simp add: split_token split_skip)
qed simp

text \<open>Splitting on one character: the two parts of the text split on their own.\<close>

lemma split_append_delim:
  assumes c: "c \<in> set d"
  shows "split (s @ c # t) d = split s d @ split t d"
proof (induction s rule: length_induct)
  case (1 s)
  show ?case
  proof (cases s)
    case Nil
    with c show ?thesis by (simp add: split_skip)
  next
    case (Cons a as)
    show ?thesis
    proof (cases "a \<in> set d")
      case True
      moreover have "split (as @ c # t) d = split as d @ split t d"
        using 1 Cons by simp
      ultimately show ?thesis by (simp add: Cons split_skip)
    next
      case False
      show ?thesis
      proof (cases "\<exists>x \<in> set as. x \<in> set d")
        case True
        then obtain us x vs where as: "as = us @ x # vs" "x \<in> set d" "\<forall>y \<in> set us. y \<notin> set d"
          using split_list_first_prop [OF True] by blast
        have w: "a # us \<noteq> []" "set (a # us) \<inter> set d = {}" using False as by auto
        have "length vs < length s" using Cons as by simp
        then have "split (vs @ c # t) d = split vs d @ split t d" using 1 by simp
        then show ?thesis
          using split_word_delim [OF w as(2), of "vs @ c # t"] split_word_delim [OF w as(2), of vs]
          by (simp add: Cons as(1))
      next
        case no: False
        have w: "a # as \<noteq> []" "set (a # as) \<inter> set d = {}" using False no by auto
        show ?thesis
          using split_word_delim [OF w c, of t] split_word [OF w] by (simp add: Cons)
      qed
    qed
  qed
qed

text \<open>A text of lines, each ended by the delimiter, splits into the non-empty lines.\<close>

lemma split_lines:
  assumes "\<forall>w \<in> set ws. c \<notin> set w"
  shows "split (concat (map (\<lambda>w. w @ [c]) ws)) [c] = filter (\<lambda>w. w \<noteq> []) ws"
  using assms
proof (induction ws)
  case (Cons w ws)
  have "split (w @ c # concat (map (\<lambda>w. w @ [c]) ws)) [c] = split w [c] @ split (concat (map (\<lambda>w. w @ [c]) ws)) [c]"
    by (rule split_append_delim) simp
  moreover have "split w [c] = (if w = [] then [] else [w])"
    using Cons.prems by (auto intro: split_word)
  ultimately show ?case using Cons by simp
qed simp

section \<open>Facts about the case conversion\<close>

lemma lowcase_char_idem [simp]: "lowcase_char (lowcase_char c) = lowcase_char c"
proof (cases "CHR ''A'' \<le> c \<and> c \<le> CHR ''Z''")
  case True
  then have "65 \<le> (of_char c :: nat)" "(of_char c :: nat) \<le> 90"
    by (auto simp: less_eq_char_def)
  then have "(of_char (char_of (of_char c + 32 :: nat)) :: nat) = of_char c + 32"
    by (simp add: of_char_of)
  moreover have "\<not> char_of (of_char c + 32 :: nat) \<le> CHR ''Z''"
    unfolding less_eq_char_def calculation using \<open>65 \<le> of_char c\<close> by simp
  ultimately show ?thesis using True by (simp add: lowcase_char_def)
next
  case False
  then show ?thesis by (auto simp: lowcase_char_def)
qed

lemma upcase_to_lowcase_idem: "upcase_to_lowcase (upcase_to_lowcase s) = upcase_to_lowcase s"
  by (simp add: upcase_to_lowcase_def)

lemma length_upcase_to_lowcase [simp]: "length (upcase_to_lowcase s) = length s"
  by (simp add: upcase_to_lowcase_def)

lemma app_mem_empty_iff: "app_mem_empty m \<longleftrightarrow> (\<forall>b \<in> set m. b = 0)"
  by (induction m) (simp_all add: word_gt_0)

end
