(* ===== verification/CJson.thy ===== *)
theory CJson
  imports CStrings
begin

text \<open>
  The cJSON library, which is not part of the repository, is a record of functions that the
  conversions of the program take as their first argument. Its fields carry the names of the
  library's functions, a \<open>cJSON *\<close> is a \<open>'j option\<close>, and the functions that extend an object
  or an array in place return it. \<open>cjson_ok\<close> collects the documented behaviour that the
  properties rely on. The theory also defines the two idioms with which the program reads a
  member (fetch, test against NULL and for its kind, take the value) and the loops over arrays,
  and gives an instance of the laws, a tree with a printer and a parser, for the witnesses.
\<close>

datatype jkind = JInvalid | JFalse | JTrue | JNull | JNumber | JString | JArray | JObject | JRaw

record 'j cjson_lib =
  cJSON_Parse :: "cptr \<Rightarrow> 'j option"
  cJSON_Print :: "'j option \<Rightarrow> cptr"
  cJSON_Minify :: "string \<Rightarrow> string"
  cJSON_kind :: "'j \<Rightarrow> jkind"
  cJSON_GetObjectItemCaseSensitive :: "'j option \<Rightarrow> string \<Rightarrow> 'j option"
  cJSON_GetStringValue :: "'j option \<Rightarrow> cptr"
  cJSON_valueint :: "'j \<Rightarrow> c_int"
  cJSON_GetArraySize :: "'j option \<Rightarrow> nat"
  cJSON_GetArrayItem :: "'j option \<Rightarrow> nat \<Rightarrow> 'j option"
  cJSON_CreateObject :: "'j option"
  cJSON_CreateArray :: "'j option"
  cJSON_CreateString :: "cptr \<Rightarrow> 'j option"
  cJSON_CreateNumber :: "c_int \<Rightarrow> 'j option"
  cJSON_CreateBool :: "bool \<Rightarrow> 'j option"
  cJSON_CreateStringArray :: "cptr list \<Rightarrow> 'j option"
  cJSON_AddItemToObject :: "'j option \<Rightarrow> string \<Rightarrow> 'j option \<Rightarrow> 'j option"
  cJSON_AddItemToArray :: "'j option \<Rightarrow> 'j option \<Rightarrow> 'j option"

text \<open>The type tests look at the kind of an item and are false of NULL.\<close>

definition cJSON_IsString :: "'j cjson_lib \<Rightarrow> 'j option \<Rightarrow> bool" where
  "cJSON_IsString L j \<longleftrightarrow> (case j of None \<Rightarrow> False | Some x \<Rightarrow> cJSON_kind L x = JString)"

definition cJSON_IsNumber :: "'j cjson_lib \<Rightarrow> 'j option \<Rightarrow> bool" where
  "cJSON_IsNumber L j \<longleftrightarrow> (case j of None \<Rightarrow> False | Some x \<Rightarrow> cJSON_kind L x = JNumber)"

definition cJSON_IsTrue :: "'j cjson_lib \<Rightarrow> 'j option \<Rightarrow> bool" where
  "cJSON_IsTrue L j \<longleftrightarrow> (case j of None \<Rightarrow> False | Some x \<Rightarrow> cJSON_kind L x = JTrue)"

definition cJSON_IsBool :: "'j cjson_lib \<Rightarrow> 'j option \<Rightarrow> bool" where
  "cJSON_IsBool L j \<longleftrightarrow>
     (case j of None \<Rightarrow> False | Some x \<Rightarrow> cJSON_kind L x = JTrue \<or> cJSON_kind L x = JFalse)"

definition cJSON_IsObject :: "'j cjson_lib \<Rightarrow> 'j option \<Rightarrow> bool" where
  "cJSON_IsObject L j \<longleftrightarrow> (case j of None \<Rightarrow> False | Some x \<Rightarrow> cJSON_kind L x = JObject)"

definition cJSON_IsArray :: "'j cjson_lib \<Rightarrow> 'j option \<Rightarrow> bool" where
  "cJSON_IsArray L j \<longleftrightarrow> (case j of None \<Rightarrow> False | Some x \<Rightarrow> cJSON_kind L x = JArray)"

text \<open>The shorthands of the library: create an item and add it.\<close>

definition cJSON_AddStringToObject where
  "cJSON_AddStringToObject L j k s = cJSON_AddItemToObject L j k (cJSON_CreateString L s)"

definition cJSON_AddNumberToObject where
  "cJSON_AddNumberToObject L j k n = cJSON_AddItemToObject L j k (cJSON_CreateNumber L n)"

definition cJSON_AddBoolToObject where
  "cJSON_AddBoolToObject L j k b = cJSON_AddItemToObject L j k (cJSON_CreateBool L b)"

section \<open>The documented behaviour\<close>

text \<open>
  Members are found by the first equal key, adding NULL adds nothing, a created item has its
  kind and its value, NULL strings create nothing, arrays grow at the end, reading outside
  an array gives NULL, and a printed document, minified or not, parses to itself.
\<close>

definition cjson_objects :: "'j cjson_lib \<Rightarrow> bool" where
  "cjson_objects L \<longleftrightarrow>
     (\<forall>k. cJSON_GetObjectItemCaseSensitive L None k = None) \<and>
     cJSON_IsObject L (cJSON_CreateObject L) \<and>
     (\<forall>k. cJSON_GetObjectItemCaseSensitive L (cJSON_CreateObject L) k = None) \<and>
     (\<forall>j k v. cJSON_IsObject L j \<longrightarrow> cJSON_IsObject L (cJSON_AddItemToObject L j k v)) \<and>
     (\<forall>j k v k'. cJSON_IsObject L j \<longrightarrow>
        cJSON_GetObjectItemCaseSensitive L (cJSON_AddItemToObject L j k v) k' =
          (if k = k' \<and> cJSON_GetObjectItemCaseSensitive L j k' = None then v
           else cJSON_GetObjectItemCaseSensitive L j k'))"

definition cjson_scalars :: "'j cjson_lib \<Rightarrow> bool" where
  "cjson_scalars L \<longleftrightarrow>
     cJSON_CreateString L None = None \<and>
     (\<forall>s. cJSON_IsString L (cJSON_CreateString L (Some s)) \<and>
          cJSON_GetStringValue L (cJSON_CreateString L (Some s)) = Some s) \<and>
     (\<forall>n. cJSON_IsNumber L (cJSON_CreateNumber L n) \<and>
          cJSON_valueint L (the (cJSON_CreateNumber L n)) = n) \<and>
     (\<forall>b. cJSON_IsBool L (cJSON_CreateBool L b) \<and> cJSON_IsTrue L (cJSON_CreateBool L b) = b)"

definition cjson_arrays :: "'j cjson_lib \<Rightarrow> bool" where
  "cjson_arrays L \<longleftrightarrow>
     cJSON_GetArraySize L None = 0 \<and>
     cJSON_IsArray L (cJSON_CreateArray L) \<and> cJSON_GetArraySize L (cJSON_CreateArray L) = 0 \<and>
     (\<forall>a v. cJSON_IsArray L a \<longrightarrow>
        cJSON_IsArray L (cJSON_AddItemToArray L a v) \<and>
        cJSON_GetArraySize L (cJSON_AddItemToArray L a v) =
          cJSON_GetArraySize L a + (if v = None then 0 else 1)) \<and>
     (\<forall>a v i. cJSON_IsArray L a \<longrightarrow>
        cJSON_GetArrayItem L (cJSON_AddItemToArray L a v) i =
          (if i = cJSON_GetArraySize L a then v else cJSON_GetArrayItem L a i)) \<and>
     (\<forall>a i. cJSON_IsArray L a \<and> cJSON_GetArraySize L a \<le> i \<longrightarrow> cJSON_GetArrayItem L a i = None) \<and>
     (\<forall>ss. None \<in> set ss \<longrightarrow> cJSON_CreateStringArray L ss = None) \<and>
     (\<forall>ss. None \<notin> set ss \<longrightarrow>
        cJSON_IsArray L (cJSON_CreateStringArray L ss) \<and>
        cJSON_GetArraySize L (cJSON_CreateStringArray L ss) = length ss \<and>
        (\<forall>i < length ss. cJSON_GetArrayItem L (cJSON_CreateStringArray L ss) i =
           cJSON_CreateString L (ss ! i)))"

definition cjson_text :: "'j cjson_lib \<Rightarrow> bool" where
  "cjson_text L \<longleftrightarrow>
     cJSON_Parse L None = None \<and> cJSON_Print L None = None \<and>
     (\<forall>j. \<exists>s. cJSON_Print L (Some j) = Some s \<and>
        cJSON_Parse L (Some s) = Some j \<and> cJSON_Parse L (Some (cJSON_Minify L s)) = Some j)"

definition cjson_ok :: "'j cjson_lib \<Rightarrow> bool" where
  "cjson_ok L \<longleftrightarrow> cjson_objects L \<and> cjson_scalars L \<and> cjson_arrays L \<and> cjson_text L"

named_theorems json_simps "rewriting with the laws of the JSON library"

lemma cjson_okD:
  assumes "cjson_ok L"
  shows "cjson_objects L" "cjson_scalars L" "cjson_arrays L" "cjson_text L"
  using assms by (simp_all add: cjson_ok_def)

lemma Is_None [simp]:
  "\<not> cJSON_IsString L None" "\<not> cJSON_IsNumber L None" "\<not> cJSON_IsTrue L None"
  "\<not> cJSON_IsBool L None" "\<not> cJSON_IsObject L None" "\<not> cJSON_IsArray L None"
  by (simp_all add: cJSON_IsString_def cJSON_IsNumber_def cJSON_IsTrue_def cJSON_IsBool_def
      cJSON_IsObject_def cJSON_IsArray_def)

lemma IsObject_Some: "cJSON_IsObject L j \<Longrightarrow> \<exists>y. j = Some y"
  by (cases j) auto

lemma IsArray_Some: "cJSON_IsArray L j \<Longrightarrow> \<exists>y. j = Some y"
  by (cases j) auto

lemma Get_None [json_simps]:
  "cjson_ok L \<Longrightarrow> cJSON_GetObjectItemCaseSensitive L None k = None"
  by (simp add: cjson_ok_def cjson_objects_def)

lemma IsObject_Create [json_simps]: "cjson_ok L \<Longrightarrow> cJSON_IsObject L (cJSON_CreateObject L)"
  by (simp add: cjson_ok_def cjson_objects_def)

lemma Get_Create [json_simps]:
  "cjson_ok L \<Longrightarrow> cJSON_GetObjectItemCaseSensitive L (cJSON_CreateObject L) k = None"
  by (simp add: cjson_ok_def cjson_objects_def)

lemma IsObject_Add [json_simps]:
  "cjson_ok L \<Longrightarrow> cJSON_IsObject L j \<Longrightarrow> cJSON_IsObject L (cJSON_AddItemToObject L j k v)"
  by (simp add: cjson_ok_def cjson_objects_def)

lemma Get_Add [json_simps]:
  "cjson_ok L \<Longrightarrow> cJSON_IsObject L j \<Longrightarrow>
     cJSON_GetObjectItemCaseSensitive L (cJSON_AddItemToObject L j k v) k' =
       (if k = k' \<and> cJSON_GetObjectItemCaseSensitive L j k' = None then v
        else cJSON_GetObjectItemCaseSensitive L j k')"
  unfolding cjson_ok_def cjson_objects_def by blast

lemmas json_adds [json_simps] =
  cJSON_AddStringToObject_def cJSON_AddNumberToObject_def cJSON_AddBoolToObject_def

lemma CreateString_facts [json_simps]:
  assumes "cjson_ok L"
  shows "cJSON_CreateString L None = None"
    "cJSON_IsString L (cJSON_CreateString L (Some s))"
    "cJSON_GetStringValue L (cJSON_CreateString L (Some s)) = Some s"
  using assms by (simp_all add: cjson_ok_def cjson_scalars_def)

lemma IsString_Create [json_simps]:
  "cjson_ok L \<Longrightarrow> cJSON_IsString L (cJSON_CreateString L s) \<longleftrightarrow> s \<noteq> None"
  by (cases s) (simp_all add: json_simps)

lemma CreateNumber_facts [json_simps]:
  assumes "cjson_ok L"
  shows "cJSON_IsNumber L (cJSON_CreateNumber L n)"
    "cJSON_valueint L (the (cJSON_CreateNumber L n)) = n"
  using assms by (simp_all add: cjson_ok_def cjson_scalars_def)

lemma CreateBool_facts [json_simps]:
  assumes "cjson_ok L"
  shows "cJSON_IsBool L (cJSON_CreateBool L b)" "cJSON_IsTrue L (cJSON_CreateBool L b) = b"
  using assms by (simp_all add: cjson_ok_def cjson_scalars_def)

lemma Bool_not_Number [json_simps]:
  "cjson_ok L \<Longrightarrow> \<not> cJSON_IsNumber L (cJSON_CreateBool L b)"
  using CreateBool_facts(1) [of L b]
  by (auto simp: cJSON_IsBool_def cJSON_IsNumber_def split: option.splits)

lemma Create_not_None [json_simps]:
  assumes "cjson_ok L"
  shows "cJSON_CreateString L (Some s) \<noteq> None" "cJSON_CreateNumber L n \<noteq> None"
    "cJSON_CreateBool L b \<noteq> None" "cJSON_CreateObject L \<noteq> None" "cJSON_CreateArray L \<noteq> None"
  using CreateString_facts(2) [OF assms, of s] CreateNumber_facts(1) [OF assms, of n]
    CreateBool_facts(1) [OF assms, of b] IsObject_Create [OF assms]
    cjson_okD(3) [OF assms, unfolded cjson_arrays_def]
  by (metis Is_None)+

lemma Print_Some:
  assumes "cjson_ok L"
  obtains s where "cJSON_Print L (Some j) = Some s" "cJSON_Parse L (Some s) = Some j"
    "cJSON_Parse L (Some (cJSON_Minify L s)) = Some j"
  using assms unfolding cjson_ok_def cjson_text_def by blast

lemma Parse_Print [json_simps]:
  "cjson_ok L \<Longrightarrow> cJSON_Parse L (cJSON_Print L j) = j"
  by (cases j) (auto simp: cjson_ok_def cjson_text_def, metis option.inject)

lemma Parse_None [json_simps]: "cjson_ok L \<Longrightarrow> cJSON_Parse L None = None"
  by (simp add: cjson_ok_def cjson_text_def)

section \<open>Reading members\<close>

text \<open>
  The three ways in which the program reads a member of an object into a field of a structure
  that was allocated with \<open>calloc\<close>: a string, a number, a flag. A member that is missing or of
  another kind leaves the field zero.
\<close>

definition json_str :: "'j cjson_lib \<Rightarrow> 'j option \<Rightarrow> string \<Rightarrow> cptr" where
  "json_str L json key =
     (let item = cJSON_GetObjectItemCaseSensitive L json key
      in if item \<noteq> None \<and> cJSON_IsString L item then app_strdup (cJSON_GetStringValue L item)
         else None)"

definition json_int :: "'j cjson_lib \<Rightarrow> 'j option \<Rightarrow> string \<Rightarrow> c_int" where
  "json_int L json key =
     (let item = cJSON_GetObjectItemCaseSensitive L json key
      in if item \<noteq> None \<and> cJSON_IsNumber L item then cJSON_valueint L (the item) else 0)"

definition json_bool :: "'j cjson_lib \<Rightarrow> 'j option \<Rightarrow> string \<Rightarrow> bool" where
  "json_bool L json key =
     (let item = cJSON_GetObjectItemCaseSensitive L json key
      in if item \<noteq> None \<and> cJSON_IsBool L item then cJSON_IsTrue L item else False)"

text \<open>A member that has to be an object, or an array, is converted by a function of its own.\<close>

definition json_sub :: "'j cjson_lib \<Rightarrow> 'j option \<Rightarrow> string \<Rightarrow> ('j option \<Rightarrow> 'a) \<Rightarrow> 'a option" where
  "json_sub L json key cvt =
     (let item = cJSON_GetObjectItemCaseSensitive L json key
      in if item \<noteq> None \<and> cJSON_IsObject L item then Some (cvt item) else None)"

lemma json_read_alt:
  "json_str L j k =
     (let item = cJSON_GetObjectItemCaseSensitive L j k
      in if cJSON_IsString L item then cJSON_GetStringValue L item else None)"
  "json_int L j k =
     (let item = cJSON_GetObjectItemCaseSensitive L j k
      in if cJSON_IsNumber L item then cJSON_valueint L (the item) else 0)"
  "json_bool L j k =
     (let item = cJSON_GetObjectItemCaseSensitive L j k
      in cJSON_IsBool L item \<and> cJSON_IsTrue L item)"
  by (cases "cJSON_GetObjectItemCaseSensitive L j k";
      simp add: json_str_def json_int_def json_bool_def Let_def)+

lemma json_str_Add [json_simps]:
  assumes "cjson_ok L" "cJSON_GetObjectItemCaseSensitive L j k = cJSON_CreateString L s"
  shows "json_str L j k = s"
  using assms by (cases s) (simp_all add: json_read_alt Let_def json_simps)

lemma json_str_absent:
  "cJSON_GetObjectItemCaseSensitive L j k = None \<Longrightarrow> json_str L j k = None"
  by (simp add: json_str_def)

lemma json_int_Add [json_simps]:
  assumes "cjson_ok L" "cJSON_GetObjectItemCaseSensitive L j k = cJSON_CreateNumber L n"
  shows "json_int L j k = n"
  using assms by (simp add: json_read_alt Let_def json_simps)

lemma json_bool_Add [json_simps]:
  assumes "cjson_ok L" "cJSON_GetObjectItemCaseSensitive L j k = cJSON_CreateBool L b"
  shows "json_bool L j k = b"
  using assms by (simp add: json_read_alt Let_def json_simps)

lemma json_int_Bool [json_simps]:
  assumes "cjson_ok L" "cJSON_GetObjectItemCaseSensitive L j k = cJSON_CreateBool L b"
  shows "json_int L j k = 0"
  using assms by (simp add: json_read_alt Let_def json_simps)

text \<open>Converting a possibly missing structure, and reading it back.\<close>

lemma json_sub_Add:
  assumes "cjson_ok L" "cJSON_GetObjectItemCaseSensitive L j k = enc v"
    "\<And>x. v = Some x \<Longrightarrow> cJSON_IsObject L (enc v) \<and> dec (enc v) = x" "v = None \<Longrightarrow> enc v = None"
  shows "json_sub L j k dec = v"
proof (cases v)
  case None
  then show ?thesis using assms by (simp add: json_sub_def)
next
  case (Some x)
  have "cJSON_IsObject L (enc v)" "dec (enc v) = x" using assms(3) [OF Some] by auto
  moreover from this have "enc v \<noteq> None" using Is_None(5) by metis
  ultimately show ?thesis using assms(2) Some by (simp add: json_sub_def)
qed

section \<open>Arrays\<close>

text \<open>
  The items of an array in the order in which the loops of the program visit them, and the
  loop that fills a new array.
\<close>

definition json_items :: "'j cjson_lib \<Rightarrow> 'j option \<Rightarrow> 'j option list" where
  "json_items L json = map (cJSON_GetArrayItem L json) [0..<cJSON_GetArraySize L json]"

definition json_array :: "'j cjson_lib \<Rightarrow> 'j option list \<Rightarrow> 'j option" where
  "json_array L items = foldl (cJSON_AddItemToArray L) (cJSON_CreateArray L) items"

lemma IsArray_foldl:
  "cjson_ok L \<Longrightarrow> cJSON_IsArray L a \<Longrightarrow> cJSON_IsArray L (foldl (cJSON_AddItemToArray L) a vs)"
  by (induction vs arbitrary: a) (simp_all add: cjson_ok_def cjson_arrays_def)

lemma IsArray_json_array [json_simps]: "cjson_ok L \<Longrightarrow> cJSON_IsArray L (json_array L vs)"
  using IsArray_foldl [of L "cJSON_CreateArray L"]
  by (simp add: json_array_def cjson_ok_def cjson_arrays_def)

lemma json_items_snoc:
  assumes "cjson_ok L" "cJSON_IsArray L a" "v \<noteq> None"
  shows "json_items L (cJSON_AddItemToArray L a v) = json_items L a @ [v]"
proof -
  have "cJSON_GetArraySize L (cJSON_AddItemToArray L a v) = Suc (cJSON_GetArraySize L a)"
    and "\<And>i. cJSON_GetArrayItem L (cJSON_AddItemToArray L a v) i =
      (if i = cJSON_GetArraySize L a then v else cJSON_GetArrayItem L a i)"
    using assms unfolding cjson_ok_def cjson_arrays_def by auto
  then show ?thesis by (simp add: json_items_def)
qed

lemma json_items_foldl:
  "cjson_ok L \<Longrightarrow> cJSON_IsArray L a \<Longrightarrow> \<forall>v \<in> set vs. v \<noteq> None \<Longrightarrow>
     json_items L (foldl (cJSON_AddItemToArray L) a vs) = json_items L a @ vs"
proof (induction vs arbitrary: a)
  case (Cons v vs)
  have "cJSON_IsArray L (cJSON_AddItemToArray L a v)"
    using Cons.prems IsArray_foldl [of L a "[v]"] by simp
  moreover have "json_items L (cJSON_AddItemToArray L a v) = json_items L a @ [v]"
    using Cons.prems by (intro json_items_snoc) simp_all
  ultimately show ?case using Cons by simp
qed simp

lemma json_items_array [json_simps]:
  assumes "cjson_ok L" "None \<notin> set vs"
  shows "json_items L (json_array L vs) = vs"
proof -
  have "\<forall>v \<in> set vs. v \<noteq> None" using assms(2) by metis
  then show ?thesis
    using json_items_foldl [of L "cJSON_CreateArray L" vs] assms(1)
    by (simp add: json_array_def cjson_ok_def cjson_arrays_def json_items_def)
qed

lemma json_items_strings [json_simps]:
  assumes "cjson_ok L" "None \<notin> set ss"
  shows "json_items L (cJSON_CreateStringArray L ss) = map (cJSON_CreateString L) ss"
  using assms by (auto simp: json_items_def cjson_ok_def cjson_arrays_def intro!: nth_equalityI)

lemma IsArray_strings [json_simps]:
  "cjson_ok L \<Longrightarrow> None \<notin> set ss \<Longrightarrow> cJSON_IsArray L (cJSON_CreateStringArray L ss)"
  by (simp add: cjson_ok_def cjson_arrays_def)

lemma length_json_items [simp]: "length (json_items L j) = cJSON_GetArraySize L j"
  by (simp add: json_items_def)

text \<open>Writing a list with one function and reading it with another.\<close>

lemma json_list_roundtrip:
  assumes "cjson_ok L" "\<And>x. x \<in> set xs \<Longrightarrow> enc x \<noteq> None \<and> dec (enc x) = x"
  shows "map dec (json_items L (json_array L (map enc xs))) = xs"
proof -
  have "None \<notin> set (map enc xs)" using assms(2) by (metis (no_types, lifting) imageE list.set_map)
  then have "map dec (json_items L (json_array L (map enc xs))) = map (\<lambda>x. dec (enc x)) xs"
    using assms(1) by (simp add: json_simps comp_def)
  also have "\<dots> = xs" using assms(2) by (simp add: map_idI)
  finally show ?thesis .
qed

section \<open>Objects member by member\<close>

text \<open>
  An object built by a chain of additions, and its members: long conversions are checked by
  collecting the chain first and looking each member up once.
\<close>

definition json_obj :: "'j cjson_lib \<Rightarrow> (string \<times> 'j option) list \<Rightarrow> 'j option" where
  "json_obj L kvs = foldl (\<lambda>j (k, v). cJSON_AddItemToObject L j k v) (cJSON_CreateObject L) kvs"

definition obj_or :: "'j option \<Rightarrow> 'j option \<Rightarrow> 'j option" where
  "obj_or v w = (if v = None then w else v)"

fun obj_get :: "(string \<times> 'j option) list \<Rightarrow> string \<Rightarrow> 'j option" where
  "obj_get [] k = None"
| "obj_get ((k', v) # kvs) k = (if k' = k then obj_or v (obj_get kvs k) else obj_get kvs k)"

named_theorems obj_simps "conversions of structures with many members"

lemma obj_or_None [obj_simps]: "obj_or v None = v" "obj_or None w = w"
  by (simp_all add: obj_or_def)

lemma json_obj_start [obj_simps]: "cJSON_CreateObject L = json_obj L []"
  by (simp add: json_obj_def)

lemma json_obj_add [obj_simps]: "cJSON_AddItemToObject L (json_obj L kvs) k v = json_obj L (kvs @ [(k, v)])"
  by (simp add: json_obj_def)

lemma obj_get_append: "obj_get (kvs @ [(k', v)]) k =
    (if k' = k \<and> obj_get kvs k = None then v else obj_get kvs k)"
proof (induction kvs)
  case (Cons kv kvs)
  obtain a b where "kv = (a, b)" by fastforce
  with Cons show ?case
    by (cases b; cases "a = k"; cases "k' = k"; cases "obj_get kvs k") (simp_all add: obj_or_def)
qed (simp add: obj_or_def)

lemma json_obj_get_aux:
  assumes "cjson_ok L"
  shows "cJSON_IsObject L (json_obj L kvs) \<and>
    (\<forall>k. cJSON_GetObjectItemCaseSensitive L (json_obj L kvs) k = obj_get kvs k)"
proof (induction kvs rule: rev_induct)
  case Nil
  then show ?case using assms by (simp add: json_obj_def json_simps)
next
  case (snoc kv kvs)
  then show ?case using assms
    by (cases kv) (simp add: json_obj_add [symmetric] json_simps obj_get_append)
qed

lemma json_obj_facts [obj_simps]:
  assumes "cjson_ok L"
  shows "cJSON_IsObject L (json_obj L kvs)"
    "cJSON_GetObjectItemCaseSensitive L (json_obj L kvs) k = obj_get kvs k"
  using json_obj_get_aux [OF assms] by blast+

lemma json_obj_not_None [obj_simps]: "cjson_ok L \<Longrightarrow> json_obj L kvs \<noteq> None"
  using json_obj_facts(1) [of L kvs] Is_None(5) by metis

lemma json_obj_reads [obj_simps]:
  assumes "cjson_ok L"
  shows "obj_get kvs k = cJSON_CreateString L x \<Longrightarrow> json_str L (json_obj L kvs) k = x"
    "obj_get kvs k = cJSON_CreateNumber L n \<Longrightarrow> json_int L (json_obj L kvs) k = n"
    "obj_get kvs k = cJSON_CreateBool L b \<Longrightarrow> json_bool L (json_obj L kvs) k = b"
    "obj_get kvs k = None \<Longrightarrow> json_str L (json_obj L kvs) k = None"
    "obj_get kvs k = None \<Longrightarrow> json_int L (json_obj L kvs) k = 0"
    "obj_get kvs k = None \<Longrightarrow> json_bool L (json_obj L kvs) k = False"
  using assms by (simp_all add: json_str_Add json_int_Add json_bool_Add json_obj_facts(2))
    (simp_all add: json_read_alt json_obj_facts(2))

lemma json_obj_sub:
  assumes "cjson_ok L" "obj_get kvs k = enc v"
    "\<And>x. v = Some x \<Longrightarrow> cJSON_IsObject L (enc v) \<and> dec (enc v) = x" "v = None \<Longrightarrow> enc v = None"
  shows "json_sub L (json_obj L kvs) k dec = v"
  by (rule json_sub_Add [where enc = enc]) (use assms in \<open>simp_all add: json_obj_facts(2)\<close>)

lemmas json_obj_adds [obj_simps] = json_adds

end
