(* ===== verification/JsonTree.thy ===== *)
theory JsonTree
  imports CJson
begin

text \<open>
  An instance of the interface of \<open>CJson\<close>: documents as trees, with a printer that writes a
  prefix form and a parser that reads it. It shows that the laws collected in \<open>cjson_ok\<close> can
  hold, and the witnesses of the properties run the conversions of the program on it.
\<close>

datatype jtree =
    TNull
  | TBool bool
  | TNum c_int
  | TStr string
  | TArr "jtree list"
  | TObj "(string \<times> jtree) list"

section \<open>The accessors\<close>

primrec tree_kind :: "jtree \<Rightarrow> jkind" where
  "tree_kind TNull = JNull"
| "tree_kind (TBool b) = (if b then JTrue else JFalse)"
| "tree_kind (TNum n) = JNumber"
| "tree_kind (TStr s) = JString"
| "tree_kind (TArr js) = JArray"
| "tree_kind (TObj kvs) = JObject"

fun tree_get :: "jtree option \<Rightarrow> string \<Rightarrow> jtree option" where
  "tree_get (Some (TObj kvs)) k = map_of kvs k"
| "tree_get _ k = None"

fun tree_string :: "jtree option \<Rightarrow> cptr" where
  "tree_string (Some (TStr s)) = Some s"
| "tree_string _ = None"

fun tree_int :: "jtree \<Rightarrow> c_int" where
  "tree_int (TNum n) = n"
| "tree_int _ = 0"

fun tree_size :: "jtree option \<Rightarrow> nat" where
  "tree_size (Some (TArr js)) = length js"
| "tree_size (Some (TObj kvs)) = length kvs"
| "tree_size _ = 0"

fun tree_item :: "jtree option \<Rightarrow> nat \<Rightarrow> jtree option" where
  "tree_item (Some (TArr js)) i = (if i < length js then Some (js ! i) else None)"
| "tree_item (Some (TObj kvs)) i = (if i < length kvs then Some (snd (kvs ! i)) else None)"
| "tree_item _ i = None"

fun tree_add :: "jtree option \<Rightarrow> string \<Rightarrow> jtree option \<Rightarrow> jtree option" where
  "tree_add (Some (TObj kvs)) k (Some v) = Some (TObj (kvs @ [(k, v)]))"
| "tree_add j k v = j"

fun tree_append :: "jtree option \<Rightarrow> jtree option \<Rightarrow> jtree option" where
  "tree_append (Some (TArr js)) (Some v) = Some (TArr (js @ [v]))"
| "tree_append j v = j"

definition tree_strings :: "cptr list \<Rightarrow> jtree option" where
  "tree_strings ss = (if None \<in> set ss then None else Some (TArr (map (\<lambda>s. TStr (the s)) ss)))"

section \<open>Printing and parsing\<close>

definition put_num :: "c_int \<Rightarrow> string" where
  "put_num n = map (\<lambda>i. if bit n i then CHR ''1'' else CHR ''0'') [0..<32]"

definition get_num :: "string \<Rightarrow> c_int" where
  "get_num s = horner_sum of_bool 2 (map (\<lambda>c. c = CHR ''1'') s)"

fun put_str :: "string \<Rightarrow> string" where
  "put_str [] = '';''"
| "put_str (c # cs) = CHR ''+'' # c # put_str cs"

fun get_str :: "string \<Rightarrow> (string \<times> string) option" where
  "get_str (t # s) =
     (if t = CHR '';'' then Some ([], s)
      else case s of [] \<Rightarrow> None
        | c # s' \<Rightarrow> (case get_str s' of None \<Rightarrow> None | Some (cs, r) \<Rightarrow> Some (c # cs, r)))"
| "get_str [] = None"

fun put_tree :: "jtree \<Rightarrow> string"
  and put_items :: "jtree list \<Rightarrow> string"
  and put_members :: "(string \<times> jtree) list \<Rightarrow> string" where
  "put_tree TNull = ''n''"
| "put_tree (TBool b) = (if b then ''t'' else ''f'')"
| "put_tree (TNum n) = CHR ''#'' # put_num n"
| "put_tree (TStr s) = CHR ''s'' # put_str s"
| "put_tree (TArr js) = CHR ''['' # put_items js"
| "put_tree (TObj kvs) = CHR ''{'' # put_members kvs"
| "put_items [] = '';''"
| "put_items (j # js) = CHR '','' # put_tree j @ put_items js"
| "put_members [] = '';''"
| "put_members (kv # kvs) = CHR '','' # put_str (fst kv) @ put_tree (snd kv) @ put_members kvs"

text \<open>The parser takes fuel: the length of the text is enough, as every call consumes a character.\<close>

fun get_tree :: "nat \<Rightarrow> string \<Rightarrow> (jtree \<times> string) option"
  and get_items :: "nat \<Rightarrow> string \<Rightarrow> (jtree list \<times> string) option"
  and get_members :: "nat \<Rightarrow> string \<Rightarrow> ((string \<times> jtree) list \<times> string) option" where
  "get_tree (Suc n) (c # s) =
     (if c = CHR ''n'' then Some (TNull, s)
      else if c = CHR ''t'' then Some (TBool True, s)
      else if c = CHR ''f'' then Some (TBool False, s)
      else if c = CHR ''#'' then
        (if length s < 32 then None else Some (TNum (get_num (take 32 s)), drop 32 s))
      else if c = CHR ''s'' then
        (case get_str s of None \<Rightarrow> None | Some (x, r) \<Rightarrow> Some (TStr x, r))
      else if c = CHR ''['' then
        (case get_items n s of None \<Rightarrow> None | Some (js, r) \<Rightarrow> Some (TArr js, r))
      else if c = CHR ''{'' then
        (case get_members n s of None \<Rightarrow> None | Some (kvs, r) \<Rightarrow> Some (TObj kvs, r))
      else None)"
| "get_tree _ _ = None"
| "get_items (Suc n) (c # s) =
     (if c = CHR '';'' then Some ([], s)
      else case get_tree n s of None \<Rightarrow> None
        | Some (j, r) \<Rightarrow> (case get_items n r of None \<Rightarrow> None | Some (js, r') \<Rightarrow> Some (j # js, r')))"
| "get_items _ _ = None"
| "get_members (Suc n) (c # s) =
     (if c = CHR '';'' then Some ([], s)
      else case get_str s of None \<Rightarrow> None
        | Some (k, r) \<Rightarrow>
            (case get_tree n r of None \<Rightarrow> None
             | Some (j, r') \<Rightarrow>
                 (case get_members n r' of None \<Rightarrow> None
                  | Some (kvs, r'') \<Rightarrow> Some ((k, j) # kvs, r''))))"
| "get_members _ _ = None"

definition tree_parse :: "cptr \<Rightarrow> jtree option" where
  "tree_parse p = (case p of None \<Rightarrow> None | Some s \<Rightarrow> map_option fst (get_tree (length s) s))"

definition tree_print :: "jtree option \<Rightarrow> cptr" where
  "tree_print j = map_option put_tree j"

definition tree_lib :: "jtree cjson_lib" where
  "tree_lib =
     \<lparr> cJSON_Parse = tree_parse, cJSON_Print = tree_print, cJSON_Minify = (\<lambda>s. s),
       cJSON_kind = tree_kind, cJSON_GetObjectItemCaseSensitive = tree_get,
       cJSON_GetStringValue = tree_string, cJSON_valueint = tree_int,
       cJSON_GetArraySize = tree_size, cJSON_GetArrayItem = tree_item,
       cJSON_CreateObject = Some (TObj []), cJSON_CreateArray = Some (TArr []),
       cJSON_CreateString = map_option TStr, cJSON_CreateNumber = (\<lambda>n. Some (TNum n)),
       cJSON_CreateBool = (\<lambda>b. Some (TBool b)), cJSON_CreateStringArray = tree_strings,
       cJSON_AddItemToObject = tree_add, cJSON_AddItemToArray = tree_append \<rparr>"

section \<open>The laws hold\<close>

lemma length_put_num [simp]: "length (put_num n) = 32"
  by (simp add: put_num_def)

lemma get_put_num [simp]: "get_num (put_num n) = n"
proof -
  have "map (\<lambda>c. c = CHR ''1'') (put_num n) = map (bit n) [0..<32]"
    by (auto simp: put_num_def)
  then have "get_num (put_num n) = take_bit 32 n"
    by (simp add: get_num_def horner_sum_bit_eq_take_bit)
  also have "\<dots> = n" by (intro bit_word_eqI) (simp add: bit_take_bit_iff)
  finally show ?thesis .
qed

lemma get_put_str [simp]: "get_str (put_str s @ r) = Some (s, r)"
  by (induction s) simp_all

lemma put_tree_ne [simp]: "put_tree j \<noteq> []"
  by (cases j) simp_all

lemma get_put:
  "length (put_tree j) \<le> n \<Longrightarrow> get_tree n (put_tree j @ r) = Some (j, r)"
  "length (put_items js) \<le> n \<Longrightarrow> get_items n (put_items js @ r) = Some (js, r)"
  "length (put_members kvs) \<le> n \<Longrightarrow> get_members n (put_members kvs @ r) = Some (kvs, r)"
proof (induction j and js and kvs arbitrary: n r and n r and n r
    rule: put_tree_put_items_put_members.induct)
  case 1 then show ?case by (cases n) auto
next
  case 2 then show ?case by (cases n) (auto split: if_splits)
next
  case 3 then show ?case by (cases n) auto
next
  case 4 then show ?case by (cases n) auto
next
  case 5 then show ?case by (cases n) auto
next
  case 6 then show ?case by (cases n) auto
next
  case 7 then show ?case by (cases n) auto
next
  case 8 then show ?case by (cases n) auto
next
  case 9 then show ?case by (cases n) auto
next
  case 10 then show ?case by (cases n) auto
qed

lemma tree_parse_print: "tree_parse (tree_print (Some j)) = Some j"
  using get_put(1) [of j "length (put_tree j)" "[]"] by (simp add: tree_parse_def tree_print_def)

lemma tree_objects: "cjson_objects tree_lib"
proof -
  have "tree_get (tree_add j k v) k' =
      (if k = k' \<and> tree_get j k' = None then v else tree_get j k')"
    if "cJSON_IsObject tree_lib j" for j k v k'
    using that by (cases "(j, k, v)" rule: tree_add.cases)
      (auto simp: cJSON_IsObject_def tree_lib_def map_add_def split: option.splits if_splits)
  moreover have "cJSON_IsObject tree_lib (tree_add j k v)" if "cJSON_IsObject tree_lib j" for j k v
    using that by (cases "(j, k, v)" rule: tree_add.cases)
      (auto simp: cJSON_IsObject_def tree_lib_def split: option.splits if_splits)
  ultimately show ?thesis
    by (simp add: cjson_objects_def) (simp add: tree_lib_def cJSON_IsObject_def)
qed

lemma tree_scalars: "cjson_scalars tree_lib"
  by (simp add: cjson_scalars_def tree_lib_def cJSON_IsString_def cJSON_IsNumber_def
      cJSON_IsBool_def cJSON_IsTrue_def)

lemma tree_is_array: "cJSON_IsArray tree_lib a \<Longrightarrow> \<exists>js. a = Some (TArr js)"
  by (cases a; cases "the a") (auto simp: cJSON_IsArray_def tree_lib_def split: if_splits)

lemma tree_arrays: "cjson_arrays tree_lib"
proof -
  have "cJSON_IsArray tree_lib (tree_append a v) \<and>
      tree_size (tree_append a v) = tree_size a + (if v = None then 0 else 1) \<and>
      tree_item (tree_append a v) i = (if i = tree_size a then v else tree_item a i) \<and>
      (tree_size a \<le> i \<longrightarrow> tree_item a i = None)"
    if "cJSON_IsArray tree_lib a" for a v i
    using tree_is_array [OF that]
    by (cases v) (auto simp: cJSON_IsArray_def tree_lib_def nth_append)
  moreover have "None \<notin> set ss \<Longrightarrow> i < length ss \<Longrightarrow> tree_item (tree_strings ss) i = map_option TStr (ss ! i)"
    for ss i
    by (cases "ss ! i") (auto simp: tree_strings_def dest: nth_mem)
  ultimately show ?thesis
    unfolding cjson_arrays_def
    by (auto simp: tree_lib_def cJSON_IsArray_def tree_strings_def)
qed

lemma tree_ok: "cjson_ok tree_lib"
  using tree_objects tree_scalars tree_arrays tree_parse_print
  by (simp add: cjson_ok_def cjson_text_def) (simp add: tree_lib_def tree_print_def tree_parse_def)

end
