(* ===== verification/World.thy ===== *)
theory World
  imports JsonTree
begin

text \<open>
  The state that the functions of the program share, what lies outside the program, and the
  utilities through which everything else touches the system: \<open>src/utils/file\<close>,
  \<open>src/utils/cmd\<close>, \<open>src/utils/uci\<close>, \<open>src/utils/uuid\<close> and \<open>src/config/service_controller\<close>.

  The state has the trace of the externally visible actions, the contents of the files, the
  mutex of \<open>file.c\<close>, the identities read from the service description, the error tables,
  the number of identifiers drawn so far, the static flags of the topology parser and the two
  topics of the broker connection. The shell,
  the mesh daemon, the identifier generator and the JSON library are parameters, collected in
  the record \<open>env\<close>.
\<close>

section \<open>State and parameters\<close>

datatype event =
    Exec string
  | ExecT c_int string
  | Sleep nat
  | Usleep nat
  | Remove string
  | Publish string bool string
  | Connect
  | Emt string
  | Authen string cptr cptr

type_synonym filesys = "string \<Rightarrow> string option"

record 'j world =
  w_trace :: "event list"
  w_files :: filesys
  w_lock :: bool
  w_hub_id :: cptr
  w_ezm_id :: cptr
  w_error_tables :: "'j option \<times> 'j option \<times> 'j option"
  w_uuids :: nat
  w_topo_flags :: "bool \<times> bool"
  w_sub_topic :: string
  w_pub_topic :: string

text \<open>
  \<open>Exec\<close> is a command run without a time limit and \<open>ExecT\<close> one with a limit in milliseconds;
  \<open>Sleep\<close> waits for seconds and \<open>Usleep\<close> for microseconds;
  \<open>Publish\<close> has topic, retain flag and payload; \<open>Connect\<close> is a connection attempt to the mesh
  daemon and \<open>Emt\<close> a command sent to it; \<open>Authen\<close> is a request to the authentication service of
  a host, with its kind and its text.
\<close>

text \<open>What is seen of a running command: its bytes, and the moment its timer fires.\<close>

datatype pipe_event = Byte char | TimerFires

text \<open>The configuration, \<open>config_t\<close> of \<open>config.h\<close>.\<close>

record config_t =
  mosquitto_host :: cptr
  mosquitto_port :: c_int
  sub_topic_pattern :: cptr
  pub_topic_pattern :: cptr
  broadcast_request_name :: cptr
  mesh_setting_file :: cptr
  mesh_devices_file :: cptr
  dhcp_setting_file :: cptr
  lan_setting_file :: cptr
  wan_setting_file :: cptr
  route_setting_file :: cptr
  iptables_dnat_forwarding_setting_file :: cptr
  iptables_dnat_dmz_setting_file :: cptr
  iptables_nova_setting_file :: cptr
  general_error_table_file :: cptr
  general_mqtt_error_table_file :: cptr
  ezm_error_table_file :: cptr
  setup_agent_file :: cptr
  setup_controller_file :: cptr
  setup_wps_file :: cptr
  service_info_file :: cptr
  ezm_version :: cptr
  ezm_name :: cptr
  pair_check_polling_time :: c_int
  pair_timeout :: c_int
  uuid_size :: c_int

text \<open>
  The parameters. \<open>sh\<close> says what a shell command prints and what it does to the files, given
  the actions before it; \<open>writable\<close> which paths can be opened for writing; \<open>daemon_up\<close> and
  \<open>emt_recv\<close> are the mesh daemon; \<open>interface_ip\<close> the kernel's answer for an interface;
  \<open>authen\<close> the answer of the authentication service of a host to a request. The
  fields that start with \<open>abi_\<close> stand for values the C standard leaves open: whether a callback
  that is called with one argument less than it takes finds its flag, and what the caller of a
  function without \<open>return\<close> receives.
\<close>

record 'j env =
  cj :: "'j cjson_lib"
  conf :: config_t
  sh :: "event list \<Rightarrow> filesys \<Rightarrow> string \<Rightarrow> pipe_event list \<times> filesys"
  writable :: "string \<Rightarrow> bool"
  uuid_unparse :: "nat \<Rightarrow> string"
  daemon_up :: "event list \<Rightarrow> bool"
  emt_recv :: "event list \<Rightarrow> string \<Rightarrow> string"
  interface_ip :: "event list \<Rightarrow> string \<Rightarrow> string"
  authen :: "event list \<Rightarrow> cptr \<Rightarrow> cptr \<Rightarrow> string"
  abi_timeout_flag :: bool
  abi_respond :: bool
  abi_dns_set :: c_int

type_synonym ('j, 'a) wio = "('j world, 'a) io"

definition get_config :: "'j env \<Rightarrow> config_t" where
  "get_config E = conf E"

definition emit :: "event \<Rightarrow> ('j, unit) wio" where
  "emit e = io_modify (w_trace_update (\<lambda>t. t @ [e]))"

definition sleep_s :: "nat \<Rightarrow> ('j, unit) wio" where
  "sleep_s n = emit (Sleep n)"

definition usleep :: "nat \<Rightarrow> ('j, unit) wio" where
  "usleep n = emit (Usleep n)"

lemma emit_app [io_simps]: "emit e s = (Inr (), s\<lparr>w_trace := w_trace s @ [e]\<rparr>)"
  by (simp add: emit_def io_modify_def)

lemma sleep_s_app [io_simps]: "sleep_s n s = (Inr (), s\<lparr>w_trace := w_trace s @ [Sleep n]\<rparr>)"
  by (simp add: sleep_s_def emit_app)

lemma usleep_app [io_simps]: "usleep n s = (Inr (), s\<lparr>w_trace := w_trace s @ [Usleep n]\<rparr>)"
  by (simp add: usleep_def emit_app)

section \<open>file.c\<close>

datatype write_mode = APPEND | TRUNCATE | OtherMode

definition mutex_lock :: "('j, unit) wio" where
  "mutex_lock = (\<lambda>s. if w_lock s then (Inl Deadlock, s) else (Inr (), s\<lparr>w_lock := True\<rparr>))"

definition mutex_unlock :: "('j, unit) wio" where
  "mutex_unlock = io_modify (w_lock_update (\<lambda>_. False))"

text \<open>
  \<open>fopen\<close> for reading fails on a missing file, for writing on a path that is not writable. The
  early returns leave the mutex locked. The result is the C return code.
\<close>

definition write_data :: "'j env \<Rightarrow> string \<Rightarrow> cptr \<Rightarrow> write_mode \<Rightarrow> ('j, c_int) wio" where
  "write_data E data path mode =
     io_then mutex_lock
     (io_bind (io_deref path) (\<lambda>p.
      case mode of
        OtherMode \<Rightarrow> io_ret (-1)
      | _ \<Rightarrow>
          if \<not> writable E p then io_ret (-1)
          else io_then
            (io_modify (w_files_update (\<lambda>f. f(p := Some
               (if mode = TRUNCATE then data else (case f p of None \<Rightarrow> '''' | Some d \<Rightarrow> d) @ data)))))
            (io_then mutex_unlock (io_ret 0))))"

definition read_data :: "cptr \<Rightarrow> ('j, cptr) wio" where
  "read_data path =
     io_then mutex_lock
     (io_bind (io_deref path) (\<lambda>p.
      io_bind (io_get w_files) (\<lambda>fs.
      case fs p of
        None \<Rightarrow> io_ret None
      | Some data \<Rightarrow> io_then mutex_unlock (io_ret (Some data)))))"

definition load_json_from_file :: "'j env \<Rightarrow> cptr \<Rightarrow> ('j, 'j option) wio" where
  "load_json_from_file E path =
     io_bind (read_data path) (\<lambda>data. io_ret (cJSON_Parse (cj E) data))"

text \<open>
  \<open>read_line\<close> stores the number of lines only when there is one. \<open>None\<close> is the NULL result,
  with the caller's counter untouched.
\<close>

definition read_line :: "cptr \<Rightarrow> ('j, string list option) wio" where
  "read_line path =
     io_bind (read_data path) (\<lambda>file_data.
     case file_data of
       None \<Rightarrow> io_ret None
     | Some d \<Rightarrow> (let lines = split d ''\<newline>''
                  in if lines = [] then io_ret None else io_ret (Some lines)))"

definition check_file_exist :: "cptr \<Rightarrow> ('j, bool) wio" where
  "check_file_exist path =
     io_then mutex_lock
     (io_bind (io_deref path) (\<lambda>p.
      io_bind (io_get w_files) (\<lambda>fs.
      case fs p of
        None \<Rightarrow> io_ret False
      | Some _ \<Rightarrow> io_then mutex_unlock (io_ret True))))"

text \<open>
  The callers that loop over the lines read the counter in any case; after a NULL result it
  is an uninitialised local variable.
\<close>

definition the_lines :: "string list option \<Rightarrow> ('j, string list) wio" where
  "the_lines ls = (case ls of None \<Rightarrow> io_fail Uninitialised | Some xs \<Rightarrow> io_ret xs)"

section \<open>cmd.c\<close>

datatype cmd_err_t = CMD_OK | CMD_TIMEOUT

record cmd_ret_t =
  cmd_err :: cmd_err_t
  cmd_str :: string

text \<open>
  The reading loop of \<open>execl_timeout\<close>. \<open>fcntl\<close> is given the \<open>FILE *\<close> and not its descriptor, so
  the pipe stays blocking: the flag is tested only after a byte has arrived.
\<close>

fun read_pipe :: "bool \<Rightarrow> bool \<Rightarrow> pipe_event list \<Rightarrow> string \<times> bool" where
  "read_pipe abi flag [] = ([], flag)"
| "read_pipe abi flag (TimerFires # es) = read_pipe abi (flag \<or> abi) es"
| "read_pipe abi flag (Byte c # es) =
     (if flag then ([c], flag)
      else (let (out, flag') = read_pipe abi flag es in (c # out, flag')))"

definition execl_timeout :: "'j env \<Rightarrow> c_int \<Rightarrow> string \<Rightarrow> ('j, cmd_ret_t) wio" where
  "execl_timeout E timeout_ms cmd = (\<lambda>s.
     let (es, fs) = sh E (w_trace s) (w_files s) (cmd @ '' 2>&1'');
         (out, timeout_flag) = read_pipe (abi_timeout_flag E) False es
     in (Inr \<lparr>cmd_err = (if timeout_flag then CMD_TIMEOUT else CMD_OK), cmd_str = out\<rparr>,
         s\<lparr>w_trace := w_trace s @ [ExecT timeout_ms cmd], w_files := fs\<rparr>))"

text \<open>The command is run as given: the copy with the redirection is built but not used.\<close>

definition execl_non_timeout :: "'j env \<Rightarrow> string \<Rightarrow> ('j, unit) wio" where
  "execl_non_timeout E cmd = (\<lambda>s.
     (Inr (), s\<lparr>w_trace := w_trace s @ [Exec cmd],
                w_files := snd (sh E (w_trace s) (w_files s) cmd)\<rparr>))"

definition execl_file :: "'j env \<Rightarrow> cptr \<Rightarrow> ('j, unit) wio" where
  "execl_file E path =
     io_bind (read_line path) (\<lambda>ls.
     io_bind (the_lines ls) (\<lambda>lines. io_for lines (execl_non_timeout E)))"

section \<open>app_uci.c\<close>

text \<open>All these functions print into 200 characters and return NULL for an empty output.\<close>

definition uci_run :: "'j env \<Rightarrow> bool \<Rightarrow> string \<Rightarrow> ('j, cptr) wio" where
  "uci_run E null_on_timeout line =
     io_bind (sprintf_buf 200 line) (\<lambda>cmd.
     io_bind (execl_timeout E 2000 cmd) (\<lambda>ret.
     io_ret (if null_on_timeout \<and> cmd_err ret = CMD_TIMEOUT then None
             else if cmd_str ret \<noteq> '''' then Some (cmd_str ret) else None)))"

definition app_uci_add :: "'j env \<Rightarrow> cptr \<Rightarrow> cptr \<Rightarrow> ('j, cptr) wio" where
  "app_uci_add E args sec =
     io_bind (fmt_s args) (\<lambda>a. io_bind (fmt_s sec) (\<lambda>b.
     uci_run E False (''uci add '' @ a @ '' '' @ b)))"

definition app_uci_set :: "'j env \<Rightarrow> cptr \<Rightarrow> cptr \<Rightarrow> ('j, cptr) wio" where
  "app_uci_set E args val =
     io_bind (fmt_s args) (\<lambda>a. io_bind (fmt_s val) (\<lambda>b.
     uci_run E False (''uci set '' @ a @ ''='' @ b)))"

definition app_uci_get :: "'j env \<Rightarrow> cptr \<Rightarrow> ('j, cptr) wio" where
  "app_uci_get E args = io_bind (fmt_s args) (\<lambda>a. uci_run E True (''uci get '' @ a))"

definition app_uci_delete :: "'j env \<Rightarrow> cptr \<Rightarrow> ('j, cptr) wio" where
  "app_uci_delete E args = io_bind (fmt_s args) (\<lambda>a. uci_run E False (''uci delete '' @ a))"

text \<open>Renaming runs the same command as reading; the new name is not used.\<close>

definition app_uci_rename :: "'j env \<Rightarrow> cptr \<Rightarrow> cptr \<Rightarrow> ('j, cptr) wio" where
  "app_uci_rename E args new_name = io_bind (fmt_s args) (\<lambda>a. uci_run E False (''uci get '' @ a))"

definition app_uci_add_list :: "'j env \<Rightarrow> cptr \<Rightarrow> cptr \<Rightarrow> ('j, cptr) wio" where
  "app_uci_add_list E args val =
     io_bind (fmt_s args) (\<lambda>a. io_bind (fmt_s val) (\<lambda>b.
     uci_run E False (''uci add_list '' @ a @ ''='' @ b)))"

definition app_uci_del_list :: "'j env \<Rightarrow> cptr \<Rightarrow> cptr \<Rightarrow> ('j, cptr) wio" where
  "app_uci_del_list E args val =
     io_bind (fmt_s args) (\<lambda>a.
     case val of
       Some b \<Rightarrow> uci_run E False (''uci del_list '' @ a @ ''='' @ b)
     | None \<Rightarrow> uci_run E False (''uci del_list '' @ a))"

definition uci_show :: "'j env \<Rightarrow> cptr \<Rightarrow> ('j, cptr) wio" where
  "uci_show E args = io_bind (fmt_s args) (\<lambda>a. uci_run E True (''uci show '' @ a))"

definition app_uci_commit :: "'j env \<Rightarrow> cptr \<Rightarrow> ('j, cptr) wio" where
  "app_uci_commit E args = io_bind (fmt_s args) (\<lambda>a. uci_run E False (''uci commit '' @ a))"

section \<open>service_controller.c\<close>

definition service_run :: "'j env \<Rightarrow> string \<Rightarrow> cptr \<Rightarrow> ('j, unit) wio" where
  "service_run E verb name =
     io_bind (fmt_s name) (\<lambda>n.
     io_bind (sprintf_buf 200 (''/etc/init.d/'' @ n @ '' '' @ verb)) (\<lambda>cmd.
     io_void (execl_timeout E 120000 cmd)))"

definition start_service where "start_service E name = service_run E ''start'' name"
definition stop_service where "stop_service E name = service_run E ''stop'' name"
definition restart_service where "restart_service E name = service_run E ''restart'' name"
definition disable_service where "disable_service E name = service_run E ''disable'' name"
definition enable_service where "enable_service E name = service_run E ''enable'' name"

section \<open>uuid.c\<close>

text \<open>A fresh identifier behind the caller's prefix, in a block sized for both.\<close>

definition uuid_gen :: "'j env \<Rightarrow> cptr \<Rightarrow> ('j, cptr) wio" where
  "uuid_gen E pre =
     io_bind (io_get w_uuids) (\<lambda>n.
     io_then (io_modify (w_uuids_update Suc))
     (io_bind (sprintf_buf (unat (uuid_size (get_config E))) (uuid_unparse E n)) (\<lambda>uuid.
      io_bind (io_deref pre) (\<lambda>p.
      io_bind (sprintf_buf (unat (uuid_size (get_config E)) + length p + 1) (p @ ''_'' @ uuid))
        (\<lambda>ret_str. io_ret (Some ret_str))))))"

section \<open>Facts about files\<close>

text \<open>Each file operation in each of its cases.\<close>

lemma read_data_found [io_simps]:
  "\<not> w_lock s \<Longrightarrow> w_files s p = Some d \<Longrightarrow> read_data (Some p) s = (Inr (Some d), s)"
  by (simp add: read_data_def mutex_lock_def mutex_unlock_def io_simps)

lemma read_data_missing [io_simps]:
  "\<not> w_lock s \<Longrightarrow> w_files s p = None \<Longrightarrow> read_data (Some p) s = (Inr None, s\<lparr>w_lock := True\<rparr>)"
  by (simp add: read_data_def mutex_lock_def mutex_unlock_def io_simps)

lemma read_data_locked [io_simps]: "w_lock s \<Longrightarrow> read_data p s = (Inl Deadlock, s)"
  by (simp add: read_data_def mutex_lock_def io_simps)

lemma write_data_truncate [io_simps]:
  "\<not> w_lock s \<Longrightarrow> writable E p \<Longrightarrow>
     write_data E d (Some p) TRUNCATE s = (Inr 0, s\<lparr>w_files := (w_files s)(p := Some d)\<rparr>)"
  by (simp add: write_data_def mutex_lock_def mutex_unlock_def io_simps)

lemma write_data_append [io_simps]:
  "\<not> w_lock s \<Longrightarrow> writable E p \<Longrightarrow>
     write_data E d (Some p) APPEND s =
       (Inr 0, s\<lparr>w_files := (w_files s)(p := Some ((case w_files s p of None \<Rightarrow> '''' | Some old \<Rightarrow> old) @ d))\<rparr>)"
  by (simp add: write_data_def mutex_lock_def mutex_unlock_def io_simps)

lemma write_data_refused [io_simps]:
  "\<not> w_lock s \<Longrightarrow> \<not> writable E p \<Longrightarrow>
     write_data E d (Some p) mode s = (Inr (-1), s\<lparr>w_lock := True\<rparr>)"
  by (cases mode) (simp_all add: write_data_def mutex_lock_def mutex_unlock_def io_simps)

lemma write_data_locked [io_simps]: "w_lock s \<Longrightarrow> write_data E d p mode s = (Inl Deadlock, s)"
  by (simp add: write_data_def mutex_lock_def io_simps)

lemma check_file_exist_app [io_simps]:
  "w_lock s \<Longrightarrow> check_file_exist p s = (Inl Deadlock, s)"
  "\<not> w_lock s \<Longrightarrow> w_files s q = Some d \<Longrightarrow> check_file_exist (Some q) s = (Inr True, s)"
  "\<not> w_lock s \<Longrightarrow> w_files s q = None \<Longrightarrow>
     check_file_exist (Some q) s = (Inr False, s\<lparr>w_lock := True\<rparr>)"
  by (simp_all add: check_file_exist_def mutex_lock_def mutex_unlock_def io_simps)

lemma read_line_found [io_simps]:
  "\<not> w_lock s \<Longrightarrow> w_files s p = Some d \<Longrightarrow> split d ''\<newline>'' \<noteq> [] \<Longrightarrow>
     read_line (Some p) s = (Inr (Some (split d ''\<newline>'')), s)"
  by (simp add: read_line_def io_simps Let_def del: split.simps)

lemma read_line_empty [io_simps]:
  "\<not> w_lock s \<Longrightarrow> w_files s p = Some d \<Longrightarrow> split d ''\<newline>'' = [] \<Longrightarrow>
     read_line (Some p) s = (Inr None, s)"
  by (simp add: read_line_def io_simps Let_def del: split.simps)

lemma read_line_missing [io_simps]:
  "\<not> w_lock s \<Longrightarrow> w_files s p = None \<Longrightarrow>
     read_line (Some p) s = (Inr None, s\<lparr>w_lock := True\<rparr>)"
  by (simp add: read_line_def io_simps)

lemma read_line_locked [io_simps]: "w_lock s \<Longrightarrow> read_line p s = (Inl Deadlock, s)"
  by (simp add: read_line_def io_simps)

lemma the_lines_app [io_simps]:
  "the_lines (Some xs) s = (Inr xs, s)" "the_lines None s = (Inl Uninitialised, s)"
  by (simp_all add: the_lines_def io_simps)

lemma load_json_app [io_simps]:
  "\<not> w_lock s \<Longrightarrow> w_files s p = Some d \<Longrightarrow>
     load_json_from_file E (Some p) s = (Inr (cJSON_Parse (cj E) (Some d)), s)"
  "\<not> w_lock s \<Longrightarrow> w_files s p = None \<Longrightarrow>
     load_json_from_file E (Some p) s = (Inr (cJSON_Parse (cj E) None), s\<lparr>w_lock := True\<rparr>)"
  "w_lock s \<Longrightarrow> load_json_from_file E q s = (Inl Deadlock, s)"
  by (simp_all add: load_json_from_file_def io_simps)

section \<open>Facts about commands\<close>

definition pipe_bytes :: "pipe_event list \<Rightarrow> string" where
  "pipe_bytes es = concat (map (\<lambda>e. case e of Byte c \<Rightarrow> [c] | TimerFires \<Rightarrow> []) es)"

lemma pipe_bytes_simps [simp]:
  "pipe_bytes [] = []" "pipe_bytes (Byte c # es) = c # pipe_bytes es"
  "pipe_bytes (TimerFires # es) = pipe_bytes es"
  by (simp_all add: pipe_bytes_def)

lemma read_pipe_prefix: "prefix (fst (read_pipe abi flag es)) (pipe_bytes es)"
  by (induction abi flag es rule: read_pipe.induct) (auto split: prod.splits)

lemma read_pipe_complete:
  "TimerFires \<notin> set es \<Longrightarrow> read_pipe abi False es = (pipe_bytes es, False)"
  by (induction abi False es rule: read_pipe.induct) auto

lemma read_pipe_flag_lost: "read_pipe False False es = (pipe_bytes es, False)"
  by (induction False False es rule: read_pipe.induct) auto

lemma read_pipe_flag_set:
  "length (fst (read_pipe abi True es)) \<le> 1" "snd (read_pipe abi True es)"
  by (induction abi True es rule: read_pipe.induct) auto

text \<open>After the timer has fired at most one more byte is taken.\<close>

lemma read_pipe_timer:
  "TimerFires \<notin> set as \<Longrightarrow>
     \<exists>bs. fst (read_pipe True False (as @ TimerFires # es)) = pipe_bytes as @ bs \<and> length bs \<le> 1 \<and>
       snd (read_pipe True False (as @ TimerFires # es))"
proof (induction as)
  case Nil
  then show ?case using read_pipe_flag_set [of True es] by simp
next
  case (Cons a as)
  then show ?case by (cases a) (auto split: prod.splits)
qed

text \<open>
  \<open>emits m t\<close>: from every state the function returns and appends exactly the actions \<open>t\<close> to
  the trace; the lock, the identities and the tables stay as they are. The commands that are
  run may write files: those that no command touches (\<open>sh_keeps\<close>) stay as they are.
\<close>

definition same_frame :: "'j world \<Rightarrow> 'j world \<Rightarrow> bool" where
  "same_frame s s' \<longleftrightarrow> w_lock s' = w_lock s \<and> w_hub_id s' = w_hub_id s \<and> w_ezm_id s' = w_ezm_id s \<and>
     w_error_tables s' = w_error_tables s \<and> w_uuids s' = w_uuids s \<and>
     w_topo_flags s' = w_topo_flags s \<and> w_sub_topic s' = w_sub_topic s \<and> w_pub_topic s' = w_pub_topic s"

definition sh_keeps :: "'j env \<Rightarrow> string \<Rightarrow> bool" where
  "sh_keeps E p \<longleftrightarrow> (\<forall>h fs c. snd (sh E h fs c) p = fs p)"

definition emits :: "'j env \<Rightarrow> ('j, 'a) wio \<Rightarrow> event list \<Rightarrow> bool" where
  "emits E m t \<longleftrightarrow>
     (\<forall>s. \<exists>x s'. m s = (Inr x, s') \<and> w_trace s' = w_trace s @ t \<and> same_frame s s' \<and>
       (\<forall>p. sh_keeps E p \<longrightarrow> w_files s' p = w_files s p))"

named_theorems emits_intros "how the functions that only run commands extend the trace"

lemma same_frame_refl [simp]: "same_frame s s"
  by (simp add: same_frame_def)

lemma same_frame_trans: "same_frame s t \<Longrightarrow> same_frame t u \<Longrightarrow> same_frame s u"
  by (simp add: same_frame_def)

lemma emitsD:
  assumes "emits E m t"
  obtains x s' where "m s = (Inr x, s')" "w_trace s' = w_trace s @ t" "same_frame s s'"
    "\<forall>p. sh_keeps E p \<longrightarrow> w_files s' p = w_files s p"
proof -
  from assms have "\<exists>x s'. m s = (Inr x, s') \<and> w_trace s' = w_trace s @ t \<and> same_frame s s' \<and>
      (\<forall>p. sh_keeps E p \<longrightarrow> w_files s' p = w_files s p)"
    by (simp add: emits_def)
  then show thesis using that by blast
qed

lemma emits_bind:
  assumes "emits E m t" "\<And>x. emits E (k x) u"
  shows "emits E (io_bind m k) (t @ u)"
  unfolding emits_def
proof
  fix s
  obtain x s1 where 1: "m s = (Inr x, s1)" "w_trace s1 = w_trace s @ t" "same_frame s s1"
    "\<forall>p. sh_keeps E p \<longrightarrow> w_files s1 p = w_files s p" by (rule emitsD [OF assms(1), where s = s])
  obtain y s2 where 2: "k x s1 = (Inr y, s2)" "w_trace s2 = w_trace s1 @ u" "same_frame s1 s2"
    "\<forall>p. sh_keeps E p \<longrightarrow> w_files s2 p = w_files s1 p" by (rule emitsD [OF assms(2), where s = s1])
  have "same_frame s s2" using 1(3) 2(3) by (rule same_frame_trans)
  then show "\<exists>y s2. io_bind m k s = (Inr y, s2) \<and> w_trace s2 = w_trace s @ t @ u \<and> same_frame s s2 \<and>
      (\<forall>p. sh_keeps E p \<longrightarrow> w_files s2 p = w_files s p)"
    using 1 2 by (simp add: io_bind_app)
qed

lemma emits_then [emits_intros]: "emits E m t \<Longrightarrow> emits E n u \<Longrightarrow> emits E (io_then m n) (t @ u)"
  unfolding io_then_def by (rule emits_bind)

lemma emits_ret [emits_intros]: "emits E (io_ret x) []"
  by (simp add: emits_def io_simps)

lemma emits_void [emits_intros]: "emits E m t \<Longrightarrow> emits E (io_void m) t"
  unfolding io_void_def using emits_bind [OF _ emits_ret, of E m t] by simp

lemma emits_seq_Nil [emits_intros]: "emits E (io_seq []) []"
  by (simp add: emits_ret)

lemma emits_seq_Cons [emits_intros]:
  "emits E m t \<Longrightarrow> emits E (io_seq ms) u \<Longrightarrow> emits E (io_seq (m # ms)) (t @ u)"
  by (simp add: emits_then)

lemma emits_for [emits_intros]:
  "(\<And>x. x \<in> set xs \<Longrightarrow> emits E (f x) (t x)) \<Longrightarrow> emits E (io_for xs f) (concat (map t xs))"
proof (induction xs)
  case Nil then show ?case by (simp add: io_for_def emits_ret)
next
  case (Cons x xs)
  then have "emits E (io_then (f x) (io_for xs f)) (t x @ concat (map t xs))"
    by (intro emits_then) auto
  then show ?case by (simp add: io_for_def)
qed

lemma emits_eqI: "emits E m t \<Longrightarrow> t = u \<Longrightarrow> emits E m u"
  by simp

lemma emits_sleep [emits_intros]: "emits E (sleep_s n) [Sleep n]"
  by (simp add: emits_def io_simps same_frame_def)

lemma emits_usleep [emits_intros]: "emits E (usleep n) [Usleep n]"
  by (simp add: emits_def io_simps same_frame_def)

lemma emits_execl_timeout [emits_intros]: "emits E (execl_timeout E t cmd) [ExecT t cmd]"
  by (simp add: emits_def execl_timeout_def same_frame_def sh_keeps_def split: prod.splits)
    (metis snd_conv)

lemma emits_execl_non_timeout [emits_intros]: "emits E (execl_non_timeout E cmd) [Exec cmd]"
  by (simp add: emits_def execl_non_timeout_def same_frame_def sh_keeps_def)

lemma emits_sprintf:
  "length x < n \<Longrightarrow> emits E (k x) t \<Longrightarrow> emits E (io_bind (sprintf_buf n x) k) t"
  by (simp add: emits_def io_simps)

lemma emits_uci_run [emits_intros]: "length line < 200 \<Longrightarrow> emits E (uci_run E b line) [ExecT 2000 line]"
  unfolding uci_run_def
  by (rule emits_sprintf, assumption)
    (rule emits_eqI [OF emits_bind [OF emits_execl_timeout emits_ret]], simp)

lemma fmt_s_bind [simp]: "io_bind (fmt_s (Some a)) k = k a"
  by (rule ext) (simp add: io_simps)

lemma emits_uci_set [emits_intros]:
  "length a + length b < 191 \<Longrightarrow>
     emits E (app_uci_set E (Some a) (Some b)) [ExecT 2000 (''uci set '' @ a @ ''='' @ b)]"
  unfolding app_uci_set_def fmt_s_bind by (rule emits_uci_run) simp

lemma emits_uci_delete [emits_intros]:
  "length a < 188 \<Longrightarrow> emits E (app_uci_delete E (Some a)) [ExecT 2000 (''uci delete '' @ a)]"
  unfolding app_uci_delete_def fmt_s_bind by (rule emits_uci_run) simp

lemma emits_uci_commit [emits_intros]:
  "length a < 188 \<Longrightarrow> emits E (app_uci_commit E (Some a)) [ExecT 2000 (''uci commit '' @ a)]"
  unfolding app_uci_commit_def fmt_s_bind by (rule emits_uci_run) simp

lemma emits_service_run:
  "length n + length verb < 187 \<Longrightarrow>
     emits E (service_run E verb (Some n)) [ExecT 120000 (''/etc/init.d/'' @ n @ '' '' @ verb)]"
  unfolding service_run_def fmt_s_bind
  by (rule emits_sprintf, simp) (intro emits_void emits_execl_timeout)

lemma emits_services [emits_intros]:
  "length n < 180 \<Longrightarrow> emits E (start_service E (Some n)) [ExecT 120000 (''/etc/init.d/'' @ n @ '' start'')]"
  "length n < 180 \<Longrightarrow> emits E (stop_service E (Some n)) [ExecT 120000 (''/etc/init.d/'' @ n @ '' stop'')]"
  "length n < 180 \<Longrightarrow> emits E (restart_service E (Some n)) [ExecT 120000 (''/etc/init.d/'' @ n @ '' restart'')]"
  "length n < 179 \<Longrightarrow> emits E (disable_service E (Some n)) [ExecT 120000 (''/etc/init.d/'' @ n @ '' disable'')]"
  "length n < 180 \<Longrightarrow> emits E (enable_service E (Some n)) [ExecT 120000 (''/etc/init.d/'' @ n @ '' enable'')]"
  unfolding start_service_def stop_service_def restart_service_def disable_service_def
    enable_service_def
  using emits_service_run [of n _ E] by simp_all

text \<open>A command that ends before its timer fires returns everything it printed.\<close>

lemma execl_timeout_quiet:
  assumes "sh E (w_trace s) (w_files s) (cmd @ '' 2>&1'') = (es, fs)" "TimerFires \<notin> set es"
  shows "execl_timeout E t cmd s =
    (Inr \<lparr>cmd_err = CMD_OK, cmd_str = pipe_bytes es\<rparr>,
     s\<lparr>w_trace := w_trace s @ [ExecT t cmd], w_files := fs\<rparr>)"
  using assms read_pipe_complete [of es] by (simp add: execl_timeout_def)

end
