(* ===== verification/Config.thy ===== *)
theory Config
  imports World
begin

text \<open>
  \<open>src/utils/dotenv/dotenv.c\<close> and \<open>src/config.c\<close>: reading a file of assignments into the process
  environment, and filling the configuration from the environment and the defaults of
  \<open>config.h\<close>. The process environment is a map.
\<close>

type_synonym environ = "string \<Rightarrow> string option"

section \<open>dotenv.c\<close>

definition concat_buf :: "cptr \<Rightarrow> cptr \<Rightarrow> cptr" where
  "concat_buf buffer str =
     (case buffer of None \<Rightarrow> str
      | Some b \<Rightarrow> (case str of Some x \<Rightarrow> Some (b @ x) | None \<Rightarrow> Some b))"

definition is_nested :: "string \<Rightarrow> bool" where
  "is_nested val \<longleftrightarrow> strstr val ''${'' \<noteq> None \<and> strstr val ''}'' \<noteq> None"

definition prepare_value :: "string \<Rightarrow> string" where
  "prepare_value val = '' '' @ val"

text \<open>
  \<open>strtok_r\<close> on the saved pointer: the token, if any, and the new saved pointer, which is the
  end of the string when there is none.
\<close>

definition next_token :: "char list \<Rightarrow> string \<Rightarrow> cptr \<times> string" where
  "next_token d s = (case strtok_r d s of None \<Rightarrow> (None, []) | Some (t, r) \<Rightarrow> (Some t, r))"

lemma next_token_shorter:
  "next_token d s = (Some t, r) \<Longrightarrow> length r < length s"
  using strtok_r_shorter [of d s t r]
  by (auto simp: next_token_def split: option.splits prod.splits)

lemma next_token_le: "next_token d s = (t, r) \<Longrightarrow> length r \<le> length s"
  using next_token_shorter [of d s _ r]
  by (cases t) (fastforce simp: next_token_def split: option.splits prod.splits)+

text \<open>The loop of \<open>parse_value\<close>: text up to a dollar or a brace, then a name up to a brace.\<close>

function parse_loop :: "environ \<Rightarrow> string \<Rightarrow> cptr \<Rightarrow> cptr" where
  "parse_loop env search parsed =
     (let (piece, rest) = next_token ''${'' search;
          parsed' = concat_buf parsed piece;
          (name, rest') = next_token ''}'' rest
      in case name of
           None \<Rightarrow> parsed'
         | Some n \<Rightarrow> parse_loop env rest' (concat_buf parsed' (env (drop 1 n))))"
  by pat_completeness auto
termination
proof (relation "measure (\<lambda>(env, search, parsed). length search)", goal_cases)
  case (2 env search parsed x piece rest parsed' y name rest' n)
  from 2 have "next_token ''${'' search = (piece, rest)" "next_token ''}'' rest = (Some n, rest')"
    by simp_all
  then have "length rest \<le> length search" "length rest' < length rest"
    using next_token_le next_token_shorter by blast+
  then show ?case by simp
qed simp

declare parse_loop.simps [simp del]

definition parse_value :: "environ \<Rightarrow> string \<Rightarrow> string" where
  "parse_value env val =
     (let v = prepare_value val
      in if is_nested v
         then (case parse_loop env v None of None \<Rightarrow> '''' | Some p \<Rightarrow> p)
         else v)"

fun is_commented :: "string \<Rightarrow> bool" where
  "is_commented [] = False"
| "is_commented (c # cs) = (if c = CHR ''#'' then True else if c = CHR '' '' then is_commented cs else False)"

definition setenv :: "environ \<Rightarrow> string \<Rightarrow> string \<Rightarrow> bool \<Rightarrow> environ" where
  "setenv env name val overwrite =
     (if overwrite \<or> env name = None then env(name := Some val) else env)"

definition set_variable :: "environ \<Rightarrow> cptr \<Rightarrow> cptr \<Rightarrow> bool \<Rightarrow> environ" where
  "set_variable env name original overwrite =
     (case original of
        None \<Rightarrow> env
      | Some orig \<Rightarrow>
          (case name of
             None \<Rightarrow> env
           | Some n \<Rightarrow> setenv env n (drop 1 (parse_value env orig)) overwrite))"

text \<open>\<open>getline\<close>: the lines of a file, each with its newline.\<close>

function get_lines :: "string \<Rightarrow> string list" where
  "get_lines s =
     (if s = [] then []
      else (let l = takeWhile (\<lambda>c. c \<noteq> CHR ''\<newline>'') s; r = dropWhile (\<lambda>c. c \<noteq> CHR ''\<newline>'') s
            in (l @ take 1 r) # get_lines (drop 1 r)))"
  by pat_completeness auto
termination
proof (relation "measure length", goal_cases)
  case (2 s l r)
  have "length r \<le> length s" using 2(3) by (simp add: length_dropWhile_le)
  then show ?case using 2(1) by (cases r) auto
qed simp

declare get_lines.simps [simp del]

definition parse_line :: "bool \<Rightarrow> environ \<Rightarrow> string \<Rightarrow> environ" where
  "parse_line overwrite env line =
     (if is_commented line then env
      else (let (name, rest) = next_token ''='' line;
                (original, _) = next_token ''\<newline>'' rest
            in set_variable env name original overwrite))"

definition parse_file :: "string \<Rightarrow> bool \<Rightarrow> environ \<Rightarrow> environ" where
  "parse_file data overwrite env = foldl (parse_line overwrite) env (get_lines data)"

text \<open>
  \<open>open_default\<close> sizes its buffer for the path and \<open>.env\<close> and prints a slash between them: with
  the terminator one byte more than the buffer holds.
\<close>

definition open_default_size :: "string \<Rightarrow> nat" where
  "open_default_size base_path = length base_path + length ''.env'' + 1"

definition open_default_path :: "string \<Rightarrow> string" where
  "open_default_path base_path = base_path @ ''/.env''"

definition open_default :: "filesys \<Rightarrow> string \<Rightarrow> cptr" where
  "open_default fs base_path = fs (open_default_path base_path)"

definition env_load :: "filesys \<Rightarrow> string \<Rightarrow> bool \<Rightarrow> environ \<Rightarrow> c_int \<times> environ" where
  "env_load fs path overwrite env =
     (case open_default fs path of
        Some data \<Rightarrow> (0, parse_file data overwrite env)
      | None \<Rightarrow>
          (case fs path of
             None \<Rightarrow> (-1, env)
           | Some data \<Rightarrow> (0, parse_file data overwrite env)))"

definition env_get_force :: "environ \<Rightarrow> string \<Rightarrow> fault + string" where
  "env_get_force env name =
     (case env name of None \<Rightarrow> Inl ProgramExit
      | Some val \<Rightarrow> if val = '''' then Inl ProgramExit else Inr val)"

definition env_get :: "environ \<Rightarrow> string \<Rightarrow> cptr \<Rightarrow> cptr" where
  "env_get env name def =
     (case env name of None \<Rightarrow> def | Some val \<Rightarrow> if val = '''' then def else Some val)"

definition env_get_int :: "environ \<Rightarrow> string \<Rightarrow> c_int \<Rightarrow> c_int" where
  "env_get_int env name def =
     (case env name of None \<Rightarrow> def | Some val \<Rightarrow> if val = '''' then def else atoi val)"

section \<open>config.c\<close>

definition config_from_env :: "environ \<Rightarrow> config_t" where
  "config_from_env env =
     \<lparr> mosquitto_host = env_get env ''mosquitto_host'' (Some ''localhost''),
       mosquitto_port = env_get_int env ''mosquitto_port'' 1883,
       sub_topic_pattern = env_get env ''sub_topic_pattern'' (Some ''hub/event/%s''),
       pub_topic_pattern = env_get env ''pub_topic_pattern'' (Some ''ezm/event/%s''),
       broadcast_request_name =
         env_get env ''broadcast_request_name'' (Some ''broadcast.ezm.device_list.reported''),
       mesh_setting_file =
         env_get env ''mesh_setting_file'' (Some ''/data/config/ezm/mesh_setting.json''),
       mesh_devices_file =
         env_get env ''mesh_devices_file'' (Some ''/data/config/ezm/mesh_devices.json''),
       dhcp_setting_file =
         env_get env ''dhcp_setting_file'' (Some ''/data/config/ezm/dns_dhcp_setting.json''),
       lan_setting_file =
         env_get env ''lan_setting_file'' (Some ''/data/config/ezm/lan_setting.json''),
       wan_setting_file =
         env_get env ''wan_setting_file'' (Some ''/data/config/ezm/wan_setting.json''),
       route_setting_file =
         env_get env ''route_setting_file'' (Some ''/data/config/ezm/route_setting.json''),
       iptables_dnat_forwarding_setting_file =
         env_get env ''iptables_dnat_forwarding_setting_file''
           (Some ''/data/config/ezm/iptable_dnat_forwarding_setting.json''),
       iptables_dnat_dmz_setting_file =
         env_get env ''iptables_dnat_dmz_setting_file''
           (Some ''/data/config/ezm/iptable_dnat_dmz_setting.json''),
       iptables_nova_setting_file =
         env_get env ''iptables_nova_setting_file''
           (Some ''/data/config/ezm/iptable_nova_setting.json''),
       general_error_table_file =
         env_get env ''general_error_table_file'' (Some ''/data/error_tables/100_general.json''),
       general_mqtt_error_table_file =
         env_get env ''general_mqtt_error_table_file''
           (Some ''/data/error_tables/101_general_mqtt.json''),
       ezm_error_table_file =
         env_get env ''ezm_error_table_file'' (Some ''/data/error_tables/240_ezm.json''),
       setup_agent_file =
         env_get env ''setup_agent_file'' (Some ''/data/script/ezm/setup_agent.sh''),
       setup_controller_file =
         env_get env ''setup_controller_file'' (Some ''/data/script/ezm/setup_controller.sh''),
       setup_wps_file = env_get env ''setup_wps_file'' (Some ''/data/script/ezm/setup_wps.sh''),
       service_info_file =
         env_get env ''service_info_file'' (Some ''/data/database/hub/services_info.json''),
       ezm_version = env_get env ''ezm_version'' (Some ''1.0''),
       ezm_name = env_get env ''ezm_name'' (Some ''NovaController''),
       pair_check_polling_time = env_get_int env ''pair_check_polling_time'' 5000,
       pair_timeout = env_get_int env ''pair_timeout'' 60000,
       uuid_size = env_get_int env ''uuid_size'' 37 \<rparr>"

definition load_config :: "filesys \<Rightarrow> environ \<Rightarrow> string \<Rightarrow> config_t" where
  "load_config fs env config_file = config_from_env (snd (env_load fs config_file False env))"

text \<open>The configuration of an empty environment and no file: the defaults.\<close>

definition default_config :: config_t where
  "default_config = load_config (\<lambda>_. None) (\<lambda>_. None) ''/data/config/noc/noc.cnf''"

section \<open>Facts\<close>

text \<open>A variable that is set keeps its value when files are loaded without overwriting.\<close>

lemma setenv_keeps: "env x = Some v \<Longrightarrow> setenv env n val False x = Some v"
  by (auto simp: setenv_def)

lemma parse_line_keeps: "env x = Some v \<Longrightarrow> parse_line False env l x = Some v"
  by (simp add: parse_line_def set_variable_def setenv_keeps split: prod.split option.split)

lemma parse_file_keeps: "env x = Some v \<Longrightarrow> parse_file d False env x = Some v"
proof -
  have "env x = Some v \<Longrightarrow> foldl (parse_line False) env ls x = Some v" for ls
    by (induction ls arbitrary: env) (simp_all add: parse_line_keeps)
  then show "env x = Some v \<Longrightarrow> parse_file d False env x = Some v"
    by (simp add: parse_file_def)
qed

lemma env_load_keeps: "env x = Some v \<Longrightarrow> snd (env_load fs p False env) x = Some v"
  by (simp add: env_load_def parse_file_keeps split: option.split)

text \<open>A comment line changes nothing.\<close>

lemma parse_line_comment: "is_commented l \<Longrightarrow> parse_line ow env l = env"
  by (simp add: parse_line_def)

lemma is_commented_iff: "is_commented l \<longleftrightarrow> (\<exists>n r. l = replicate n (CHR '' '') @ CHR ''#'' # r)"
proof (induction l)
  case (Cons c cs)
  show ?case
  proof
    assume "is_commented (c # cs)"
    then consider "c = CHR ''#''" | "c = CHR '' ''" "is_commented cs" by (auto split: if_splits)
    then show "\<exists>n r. c # cs = replicate n (CHR '' '') @ CHR ''#'' # r"
    proof cases
      case 1 then show ?thesis by (intro exI [of _ 0]) simp
    next
      case 2
      then obtain n r where "cs = replicate n (CHR '' '') @ CHR ''#'' # r" using Cons.IH by blast
      with 2 show ?thesis by (intro exI [of _ "Suc n"]) simp
    qed
  next
    assume "\<exists>n r. c # cs = replicate n (CHR '' '') @ CHR ''#'' # r"
    then obtain n r where nr: "c # cs = replicate n (CHR '' '') @ CHR ''#'' # r" by blast
    then show "is_commented (c # cs)" using Cons.IH by (cases n) auto
  qed
qed simp

text \<open>A line that assigns a plain value to a name.\<close>

lemma strtok_r_run:
  assumes "w \<noteq> []" "set w \<inter> set d = {}" "c \<in> set d"
  shows "strtok_r d (w @ c # s) = Some (w, s)"
proof -
  have w: "\<forall>x \<in> set w. x \<notin> set d" using assms(2) by auto
  obtain x xs where x: "w = x # xs" using assms(1) by (cases w) auto
  have "dropWhile (\<lambda>c. c \<in> set d) (w @ c # s) = w @ c # s" using w x by simp
  moreover have "takeWhile (\<lambda>c. c \<notin> set d) (w @ c # s) = w" using w assms(3) by simp
  moreover have "dropWhile (\<lambda>c. c \<notin> set d) (w @ c # s) = c # s" using w assms(3) by simp
  ultimately show ?thesis using x by (simp add: strtok_r_def)
qed

lemma parse_line_assign:
  assumes "name \<noteq> []" "CHR ''='' \<notin> set name" "\<not> is_commented (name @ ''='' @ val @ ''\<newline>'')"
    "val \<noteq> []" "CHR ''\<newline>'' \<notin> set val" "\<not> is_nested (prepare_value val)"
  shows "parse_line ow env (name @ ''='' @ val @ ''\<newline>'') = setenv env name val ow"
proof -
  have 1: "strtok_r ''='' (name @ CHR ''='' # val @ ''\<newline>'') = Some (name, val @ ''\<newline>'')"
    using assms(1,2) by (intro strtok_r_run) auto
  have 2: "strtok_r ''\<newline>'' (val @ ''\<newline>'') = Some (val, [])"
    using strtok_r_run [of val "''\<newline>''" "CHR ''\<newline>''" "[]"] assms(4,5) by simp
  show ?thesis
    using 1 2 assms(3,6)
    by (simp add: parse_line_def next_token_def set_variable_def parse_value_def prepare_value_def)
qed

text \<open>The default path is one byte too long for its buffer.\<close>

lemma open_default_overflow: "open_default_size p < length (open_default_path p) + 1"
  by (simp add: open_default_size_def open_default_path_def)

lemma env_load_missing:
  "fs p = None \<Longrightarrow> fs (open_default_path p) = None \<Longrightarrow> env_load fs p ow env = (-1, env)"
  by (simp add: env_load_def open_default_def)

lemma default_config_simps [simp]:
  "mesh_setting_file default_config = Some ''/data/config/ezm/mesh_setting.json''"
  "mesh_devices_file default_config = Some ''/data/config/ezm/mesh_devices.json''"
  "dhcp_setting_file default_config = Some ''/data/config/ezm/dns_dhcp_setting.json''"
  "lan_setting_file default_config = Some ''/data/config/ezm/lan_setting.json''"
  "wan_setting_file default_config = Some ''/data/config/ezm/wan_setting.json''"
  "route_setting_file default_config = Some ''/data/config/ezm/route_setting.json''"
  "iptables_dnat_forwarding_setting_file default_config =
     Some ''/data/config/ezm/iptable_dnat_forwarding_setting.json''"
  "iptables_dnat_dmz_setting_file default_config =
     Some ''/data/config/ezm/iptable_dnat_dmz_setting.json''"
  "iptables_nova_setting_file default_config = Some ''/data/config/ezm/iptable_nova_setting.json''"
  "uuid_size default_config = 37"
  "pub_topic_pattern default_config = Some ''ezm/event/%s''"
  "sub_topic_pattern default_config = Some ''hub/event/%s''"
  "service_info_file default_config = Some ''/data/database/hub/services_info.json''"
  by (simp_all add: default_config_def load_config_def env_load_def open_default_def
      config_from_env_def env_get_def env_get_int_def)

text \<open>
  An environment for the witnesses: silent commands that change no file, every path writable,
  the mesh daemon up, the JSON instance of \<open>JsonTree\<close>, the default configuration.
\<close>

definition quiet_env :: "jtree env" where
  "quiet_env =
     \<lparr> cj = tree_lib, conf = default_config, sh = (\<lambda>h fs c. ([], fs)), writable = (\<lambda>p. True),
       uuid_unparse = (\<lambda>n. replicate 36 (CHR ''0'')), daemon_up = (\<lambda>h. True),
       emt_recv = (\<lambda>h c. ''''), interface_ip = (\<lambda>h i. ''10.0.0.1''),
       authen = (\<lambda>h hst req. ''''),
       abi_timeout_flag = True, abi_respond = True, abi_dns_set = 0 \<rparr>"

definition empty_world :: "jtree world" where
  "empty_world =
     \<lparr> w_trace = [], w_files = (\<lambda>p. None), w_lock = False, w_hub_id = Some ''hub-1'',
       w_ezm_id = Some ''ezm-1'', w_error_tables = (None, None, None), w_uuids = 0, w_topo_flags = (False, False),
       w_sub_topic = ''hub/event/ezm-1'', w_pub_topic = ''ezm/event/ezm-1'' \<rparr>"

lemma quiet_env_simps [simp]:
  "cj quiet_env = tree_lib" "get_config quiet_env = default_config" "writable quiet_env p"
  "sh quiet_env h fs c = ([], fs)" "sh_keeps quiet_env p" "abi_respond quiet_env"
  "abi_dns_set quiet_env = 0" "uuid_unparse quiet_env n = replicate 36 (CHR ''0'')"
  "daemon_up quiet_env h" "abi_timeout_flag quiet_env"
  by (simp_all add: quiet_env_def get_config_def sh_keeps_def)

lemma empty_world_simps [simp]:
  "w_trace empty_world = []" "w_files empty_world p = None" "\<not> w_lock empty_world"
 "w_pub_topic empty_world = ''ezm/event/ezm-1''" "w_error_tables empty_world = (None, None, None)"
  "w_hub_id empty_world = Some ''hub-1''" "w_ezm_id empty_world = Some ''ezm-1''"
  by (simp_all add: empty_world_def)

end
