(* ===== verification/MqttBridge.thy ===== *)
theory MqttBridge
  imports Config
begin

text \<open>
  \<open>src/config/mqtt_bridge\<close>: the bridge between the message brokers of the controller and of its
  agents, kept as blocks of lines in the configuration file of the broker.
\<close>

section \<open>Names and texts\<close>

abbreviation DEFAULT_MOSQUITTO_FILE :: string where
  "DEFAULT_MOSQUITTO_FILE \<equiv> ''/etc/mosquitto/mosquitto.conf''"

datatype mqtt_bridge_ret_t =
    MOSQUITTO_FILE_NOT_FOUND
  | MOSQUITTO_SERVER_BRIDGE_NOT_FOUND
  | MOSQUITTO_SERVER_BRIDGE_EXISTED
  | MOSQUITTO_CLIENT_BRIDGE_EXISTED
  | MOSQUITTO_CLIENT_BRIDGE_NOT_FOUND
  | MOSQUITTO_SUCCESS

definition server_lines :: "string list" where
  "server_lines =
     [''listener 1884 192.168.123.1'', ''allow_anonymous false'',
      ''password_file /etc/mosquitto/password.pwd'']"

definition client_lines :: "string list" where
  "client_lines =
     [''connection mqtt-bridge '', ''address 192.168.123.1:1884 '', ''topic ezm/# both 1 '',
      ''topic hub/# both 1 '', ''topic zib/# both 1 '', ''topic zwa/# both 1 '', ''try_private false '',
      ''remote_username mqtt-bridge  '', ''remote_password novaintechs  '']"

text \<open>Both texts start with an empty line; the one of the server ends with a blank.\<close>

definition mqtt_bridge_conf :: string where
  "mqtt_bridge_conf = ''\<newline>'' @ concat (map (\<lambda>l. l @ ''\<newline>'') server_lines) @ '' ''"

definition mosquitto_client_br_conf :: string where
  "mosquitto_client_br_conf = ''\<newline>'' @ concat (map (\<lambda>l. l @ ''\<newline>'') client_lines)"

section \<open>Operations\<close>

text \<open>A line that is not a comment and contains a text.\<close>

definition active_line :: "string \<Rightarrow> string \<Rightarrow> bool" where
  "active_line pat l \<longleftrightarrow> l ! 0 \<noteq> CHR ''#'' \<and> app_strstr (Some l) (Some pat) \<noteq> None"

definition get_listener_ip_default_port :: "('j, cptr) wio" where
  "get_listener_ip_default_port =
     io_bind (read_line (Some DEFAULT_MOSQUITTO_FILE)) (\<lambda>ls.
     io_bind (the_lines ls) (\<lambda>mosquitto_conf.
     case first_index (active_line ''listener 1884'') mosquitto_conf of
       None \<Rightarrow> io_ret None
     | Some i \<Rightarrow> io_ret (app_strdup (Some (last (split (mosquitto_conf ! i) '' ''))))))"

text \<open>The second word of the line is read whenever there is a first one.\<close>

definition get_bridge_client_connection_ip :: "('j, cptr) wio" where
  "get_bridge_client_connection_ip =
     io_bind (read_line (Some DEFAULT_MOSQUITTO_FILE)) (\<lambda>ls.
     io_bind (the_lines ls) (\<lambda>mosquitto_conf.
     case first_index (active_line ''address'') mosquitto_conf of
       None \<Rightarrow> io_ret None
     | Some i \<Rightarrow>
         (let broker_info = split (mosquitto_conf ! i) '' ''
          in if length broker_info < 2 then io_fail OutOfBounds
             else (let ip_port_info = split (broker_info ! 1) '':''
                   in if ip_port_info = [] then io_fail NullDeref
                      else io_ret (app_strdup (Some (ip_port_info ! 0)))))))"

definition request_mqtt_bridge_client :: "('j, cptr) wio" where
  "request_mqtt_bridge_client = get_bridge_client_connection_ip"

definition request_mqtt_bridge_server :: "('j, cptr) wio" where
  "request_mqtt_bridge_server = get_listener_ip_default_port"

definition create_mqtt_bridge_server :: "'j env \<Rightarrow> ('j, mqtt_bridge_ret_t) wio" where
  "create_mqtt_bridge_server E =
     io_bind (check_file_exist (Some DEFAULT_MOSQUITTO_FILE)) (\<lambda>exists.
     if exists then
       io_bind get_listener_ip_default_port (\<lambda>ip.
       if ip \<noteq> None then io_ret MOSQUITTO_SERVER_BRIDGE_EXISTED
       else
         io_then (execl_timeout E 120000 ''touch  /etc/mosquitto/password.pwd '')
         (io_then (execl_timeout E 2000
           ''mosquitto_passwd -b /etc/mosquitto/password.pwd  mqtt-bridge  novaintechs'')
         (io_bind (sprintf_buf 200 mqtt_bridge_conf) (\<lambda>conf.
          io_then (write_data E conf (Some DEFAULT_MOSQUITTO_FILE) APPEND)
          (io_ret MOSQUITTO_SUCCESS)))))
     else io_ret MOSQUITTO_FILE_NOT_FOUND)"

definition create_mqtt_bridge_client :: "'j env \<Rightarrow> ('j, mqtt_bridge_ret_t) wio" where
  "create_mqtt_bridge_client E =
     io_bind get_bridge_client_connection_ip (\<lambda>ip.
     if ip = None then
       io_bind (sprintf_buf 1024 mosquitto_client_br_conf) (\<lambda>conf.
       io_then (write_data E conf (Some DEFAULT_MOSQUITTO_FILE) APPEND)
       (io_ret MOSQUITTO_SUCCESS))
     else io_ret MOSQUITTO_CLIENT_BRIDGE_EXISTED)"

text \<open>
  The lines before the found one, appended to whatever \<open>rm\<close> has left; the file is opened without
  the lock and without a test.
\<close>

definition rewrite_lines :: "'j env \<Rightarrow> string list \<Rightarrow> ('j, unit) wio" where
  "rewrite_lines E ls =
     (if writable E DEFAULT_MOSQUITTO_FILE then
        io_modify (w_files_update (\<lambda>f. f(DEFAULT_MOSQUITTO_FILE := Some
          ((case f DEFAULT_MOSQUITTO_FILE of None \<Rightarrow> [] | Some d \<Rightarrow> d) @ concat (map (\<lambda>l. l @ ''\<newline>'') ls)))))
      else io_fail NullDeref)"

definition delete_from_line :: "'j env \<Rightarrow> string \<Rightarrow> ('j, mqtt_bridge_ret_t) wio" where
  "delete_from_line E pat =
     io_bind (read_line (Some DEFAULT_MOSQUITTO_FILE)) (\<lambda>ls.
     io_bind (the_lines ls) (\<lambda>mosquitto_conf.
     case first_index (active_line pat) mosquitto_conf of
       None \<Rightarrow> io_ret MOSQUITTO_CLIENT_BRIDGE_NOT_FOUND
     | Some i \<Rightarrow>
         io_then (execl_timeout E 120000 (''rm '' @ DEFAULT_MOSQUITTO_FILE))
         (io_then (rewrite_lines E (take i mosquitto_conf)) (io_ret MOSQUITTO_SUCCESS))))"

definition delete_mqtt_bridge_client :: "'j env \<Rightarrow> ('j, mqtt_bridge_ret_t) wio" where
  "delete_mqtt_bridge_client E = delete_from_line E ''connection''"

definition delete_mqtt_bridge_server :: "'j env \<Rightarrow> ('j, mqtt_bridge_ret_t) wio" where
  "delete_mqtt_bridge_server E = delete_from_line E ''listener 1884''"

definition update_mqtt_bridge_client :: "'j env \<Rightarrow> ('j, mqtt_bridge_ret_t) wio" where
  "update_mqtt_bridge_client E = io_then (delete_mqtt_bridge_client E) (create_mqtt_bridge_client E)"

definition update_mqtt_bridge_server :: "'j env \<Rightarrow> ('j, mqtt_bridge_ret_t) wio" where
  "update_mqtt_bridge_server E = io_then (delete_mqtt_bridge_server E) (create_mqtt_bridge_server E)"

definition restart_mqtt_service :: "'j env \<Rightarrow> ('j, unit) wio" where
  "restart_mqtt_service E = restart_service E (Some ''mosquitto'')"

section \<open>The file as a list of lines\<close>

text \<open>The file is there and has the given lines; \<open>rm\<close> removes it and touches nothing else.\<close>

definition conf_lines :: "'j world \<Rightarrow> string list \<Rightarrow> bool" where
  "conf_lines s ls \<longleftrightarrow> \<not> w_lock s \<and> ls \<noteq> [] \<and>
     (\<exists>content. w_files s DEFAULT_MOSQUITTO_FILE = Some content \<and> split content ''\<newline>'' = ls)"

definition rm_removes :: "'j env \<Rightarrow> bool" where
  "rm_removes E \<longleftrightarrow> writable E DEFAULT_MOSQUITTO_FILE \<and>
     (\<forall>h fs. sh E h fs (''rm '' @ DEFAULT_MOSQUITTO_FILE @ '' 2>&1'') = ([], fs(DEFAULT_MOSQUITTO_FILE := None)))"

lemma conf_lines_read:
  "conf_lines s ls \<Longrightarrow> read_line (Some DEFAULT_MOSQUITTO_FILE) s = (Inr (Some ls), s)"
  by (auto simp: conf_lines_def io_simps)

lemma split_member: "l \<in> set (split content ''\<newline>'') \<Longrightarrow> l \<noteq> [] \<and> CHR ''\<newline>'' \<notin> set l"
  using split_ne [of l content "''\<newline>''"] by auto

lemma client_conf_split:
  "split (content @ mosquitto_client_br_conf) ''\<newline>'' = split content ''\<newline>'' @ client_lines"
proof -
  have "\<forall>w \<in> set client_lines. CHR ''\<newline>'' \<notin> set w" "filter (\<lambda>w. w \<noteq> []) client_lines = client_lines"
    by (simp_all add: client_lines_def)
  then have "split (concat (map (\<lambda>l. l @ [CHR ''\<newline>'']) client_lines)) ''\<newline>'' = client_lines"
    using split_lines [of client_lines "CHR ''\<newline>''"] by simp
  then show ?thesis
    using split_append_delim [of "CHR ''\<newline>''" "''\<newline>''" content "concat (map (\<lambda>l. l @ [CHR ''\<newline>'']) client_lines)"]
    by (simp add: mosquitto_client_br_conf_def)
qed

lemma first_index_append:
  "\<forall>x \<in> set xs. \<not> P x \<Longrightarrow> first_index P (xs @ ys) = map_option (\<lambda>i. i + length xs) (first_index P ys)"
proof (induction xs)
  case Nil
  then show ?case by (simp add: option.map_ident)
next
  case (Cons x xs)
  then show ?case by (simp add: option.map_comp comp_def add.commute)
qed

lemma client_lines_first:
  "first_index (active_line ''connection'') client_lines = Some 0"
  "first_index (active_line ''address'') client_lines = Some 1"
  "split (client_lines ! 1) '' '' = [''address'', ''192.168.123.1:1884'']"
  "split ''192.168.123.1:1884'' '':'' = [''192.168.123.1'', ''1884'']"
  by code_simp+

lemma client_conf_length: "length mosquitto_client_br_conf < 1024"
  by (simp add: mosquitto_client_br_conf_def client_lines_def)

lemma bridge_client_created:
  assumes "conf_lines s ls" "\<forall>l \<in> set ls. \<not> active_line ''address'' l" "writable E DEFAULT_MOSQUITTO_FILE"
  shows "\<exists>s'. create_mqtt_bridge_client E s = (Inr MOSQUITTO_SUCCESS, s') \<and>
    conf_lines s' (ls @ client_lines) \<and> w_trace s' = w_trace s"
proof -
  obtain content where content: "\<not> w_lock s" "w_files s DEFAULT_MOSQUITTO_FILE = Some content"
    "split content ''\<newline>'' = ls" using assms(1) by (auto simp: conf_lines_def)
  have none: "first_index (active_line ''address'') ls = None"
    using assms(2) by (simp add: first_index_None)
  let ?s = "s\<lparr>w_files := (w_files s)(DEFAULT_MOSQUITTO_FILE := Some (content @ mosquitto_client_br_conf))\<rparr>"
  have "get_bridge_client_connection_ip s = (Inr None, s)"
    by (simp add: get_bridge_client_connection_ip_def io_bind_app conf_lines_read [OF assms(1)] none io_simps)
  then have "create_mqtt_bridge_client E s = (Inr MOSQUITTO_SUCCESS, ?s)"
    using content assms(3) client_conf_length
    by (simp add: create_mqtt_bridge_client_def io_simps)
  moreover have "conf_lines ?s (ls @ client_lines)"
    using content client_conf_split [of content] by (simp add: conf_lines_def client_lines_def)
  ultimately show ?thesis by auto
qed

lemma bridge_client_requested:
  assumes "conf_lines s (ls @ client_lines)" "\<forall>l \<in> set ls. \<not> active_line ''address'' l"
  shows "request_mqtt_bridge_client s = (Inr (Some ''192.168.123.1''), s)"
proof -
  have i: "first_index (active_line ''address'') (ls @ client_lines) = Some (Suc (length ls))"
    using first_index_append [OF assms(2), of client_lines] client_lines_first(2) by simp
  have "(ls @ client_lines) ! Suc (length ls) = client_lines ! 1" by (simp add: nth_append)
  then show ?thesis
    unfolding request_mqtt_bridge_client_def get_bridge_client_connection_ip_def
    by (simp add: io_bind_app conf_lines_read [OF assms(1)] i io_simps Let_def
        client_lines_first [unfolded One_nat_def])
qed

text \<open>Deleting from the first active line on: everything behind it goes, too.\<close>

lemma delete_from_line_found:
  assumes "conf_lines s (ls @ l # rest)" "ls \<noteq> []" "\<forall>l \<in> set ls. \<not> active_line pat l"
    "active_line pat l" "rm_removes E"
  shows "\<exists>s'. delete_from_line E pat s = (Inr MOSQUITTO_SUCCESS, s') \<and> conf_lines s' ls \<and>
    w_trace s' = w_trace s @ [ExecT 120000 (''rm '' @ DEFAULT_MOSQUITTO_FILE)]"
proof -
  have lock: "\<not> w_lock s" using assms(1) by (simp add: conf_lines_def)
  have i: "first_index (active_line pat) (ls @ l # rest) = Some (length ls)"
    using first_index_append [OF assms(3), of "l # rest"] assms(4) by simp
  have member: "\<forall>l \<in> set ls. CHR ''\<newline>'' \<notin> set l" "\<forall>l \<in> set ls. l \<noteq> []"
  proof -
    obtain content where "split content ''\<newline>'' = ls @ l # rest" using assms(1) by (auto simp: conf_lines_def)
    then have "set ls \<subseteq> set (split content ''\<newline>'')" by auto
    then show "\<forall>l \<in> set ls. CHR ''\<newline>'' \<notin> set l" "\<forall>l \<in> set ls. l \<noteq> []" using split_member by blast+
  qed
  let ?rm = "''rm '' @ DEFAULT_MOSQUITTO_FILE"
  let ?content = "concat (map (\<lambda>l. l @ ''\<newline>'') ls)"
  let ?s = "s\<lparr>w_trace := w_trace s @ [ExecT 120000 ?rm],
      w_files := (w_files s)(DEFAULT_MOSQUITTO_FILE := Some ?content)\<rparr>"
  have "sh E (w_trace s) (w_files s) (?rm @ '' 2>&1'') = ([], (w_files s)(DEFAULT_MOSQUITTO_FILE := None))"
    using assms(5) by (simp add: rm_removes_def)
  then have "execl_timeout E 120000 ?rm s = (Inr \<lparr>cmd_err = CMD_OK, cmd_str = []\<rparr>,
      s\<lparr>w_trace := w_trace s @ [ExecT 120000 ?rm], w_files := (w_files s)(DEFAULT_MOSQUITTO_FILE := None)\<rparr>)"
    using execl_timeout_quiet by fastforce
  then have "delete_from_line E pat s = (Inr MOSQUITTO_SUCCESS, ?s)"
    unfolding delete_from_line_def io_bind_app conf_lines_read [OF assms(1)]
    using assms(5) i by (simp add: io_simps rewrite_lines_def rm_removes_def)
  moreover have "split ?content ''\<newline>'' = ls"
    using split_lines [OF member(1)] member(2) by (simp add: filter_id_conv)
  then have "conf_lines ?s ls" using lock assms(2) by (simp add: conf_lines_def)
  ultimately show ?thesis by auto
qed

lemma delete_from_line_missing:
  assumes "conf_lines s ls" "\<forall>l \<in> set ls. \<not> active_line pat l"
  shows "delete_from_line E pat s = (Inr MOSQUITTO_CLIENT_BRIDGE_NOT_FOUND, s)"
proof -
  have "first_index (active_line pat) ls = None" using assms(2) by (simp add: first_index_None)
  then show ?thesis
    by (simp add: delete_from_line_def io_bind_app conf_lines_read [OF assms(1)] io_simps)
qed

lemma bridge_client_absent:
  assumes "conf_lines s ls" "\<forall>l \<in> set ls. \<not> active_line ''address'' l"
  shows "request_mqtt_bridge_client s = (Inr None, s)"
proof -
  have "first_index (active_line ''address'') ls = None" using assms(2) by (simp add: first_index_None)
  then show ?thesis
    by (simp add: request_mqtt_bridge_client_def get_bridge_client_connection_ip_def io_bind_app
        conf_lines_read [OF assms(1)] io_simps)
qed

section \<open>Properties\<close>

text \<open>The shell of the witnesses: \<open>rm\<close> of the configuration file removes it.\<close>

definition rm_env :: "jtree env" where
  "rm_env = quiet_env\<lparr>sh := (\<lambda>h fs c. ([],
     if c = ''rm '' @ DEFAULT_MOSQUITTO_FILE @ '' 2>&1'' then fs(DEFAULT_MOSQUITTO_FILE := None) else fs))\<rparr>"

lemma rm_env_removes: "rm_removes rm_env" "writable rm_env DEFAULT_MOSQUITTO_FILE"
  by (simp_all add: rm_removes_def rm_env_def)

definition conf_world :: "string \<Rightarrow> jtree world" where
  "conf_world content = empty_world\<lparr>w_files := (\<lambda>p. None)(DEFAULT_MOSQUITTO_FILE := Some content)\<rparr>"

lemma conf_world_lines:
  "split content ''\<newline>'' = ls \<Longrightarrow> ls \<noteq> [] \<Longrightarrow> conf_lines (conf_world content) ls"
  by (simp add: conf_lines_def conf_world_def)

text \<open>
  The life of the client bridge. In a configuration with lines of which none is an active
  address or connection, the client block can be created, is found with the address of the
  controller, is not created a second time, and can be deleted; afterwards the file has the
  original lines and no bridge is found. The only command that runs is the removal of the file.
\<close>

theorem bridge_client_life:
  assumes "conf_lines s ls" "\<forall>l \<in> set ls. \<not> active_line ''address'' l"
    "\<forall>l \<in> set ls. \<not> active_line ''connection'' l" "rm_removes E"
  shows "\<exists>s1 s2. create_mqtt_bridge_client E s = (Inr MOSQUITTO_SUCCESS, s1) \<and>
    request_mqtt_bridge_client s1 = (Inr (Some ''192.168.123.1''), s1) \<and>
    create_mqtt_bridge_client E s1 = (Inr MOSQUITTO_CLIENT_BRIDGE_EXISTED, s1) \<and>
    delete_mqtt_bridge_client E s1 = (Inr MOSQUITTO_SUCCESS, s2) \<and> conf_lines s2 ls \<and>
    request_mqtt_bridge_client s2 = (Inr None, s2) \<and>
    w_trace s2 = w_trace s @ [ExecT 120000 (''rm '' @ DEFAULT_MOSQUITTO_FILE)]"
proof -
  have "writable E DEFAULT_MOSQUITTO_FILE" using assms(4) by (simp add: rm_removes_def)
  then obtain s1 where s1: "create_mqtt_bridge_client E s = (Inr MOSQUITTO_SUCCESS, s1)"
    "conf_lines s1 (ls @ client_lines)" "w_trace s1 = w_trace s"
    using bridge_client_created [OF assms(1,2)] by blast
  have req: "request_mqtt_bridge_client s1 = (Inr (Some ''192.168.123.1''), s1)"
    by (rule bridge_client_requested [OF s1(2) assms(2)])
  then have again: "create_mqtt_bridge_client E s1 = (Inr MOSQUITTO_CLIENT_BRIDGE_EXISTED, s1)"
    by (simp add: create_mqtt_bridge_client_def request_mqtt_bridge_client_def io_bind_app io_ret_app)
  have "ls \<noteq> []" using assms(1) by (simp add: conf_lines_def)
  moreover obtain l rest where c: "client_lines = l # rest" "active_line ''connection'' l"
  proof -
    have "client_lines \<noteq> []" "active_line ''connection'' (client_lines ! 0)"
      using client_lines_first(1) by (simp_all add: first_index_Some)
    then show ?thesis by (metis that list.exhaust nth_Cons_0)
  qed
  ultimately obtain s2 where s2: "delete_mqtt_bridge_client E s1 = (Inr MOSQUITTO_SUCCESS, s2)"
    "conf_lines s2 ls" "w_trace s2 = w_trace s1 @ [ExecT 120000 (''rm '' @ DEFAULT_MOSQUITTO_FILE)]"
    using delete_from_line_found [OF s1(2) [unfolded c(1)] _ assms(3) c(2) assms(4)]
    unfolding delete_mqtt_bridge_client_def by blast
  show ?thesis
    using s1(1) req again s2(1,2) bridge_client_absent [OF s2(2) assms(2)] s2(3) [unfolded s1(3)]
    by (intro exI conjI)
qed

theorem bridge_client_life_witness:
  "\<exists>s1. create_mqtt_bridge_client rm_env (conf_world ''user mosquitto\<newline>port 1883'') = (Inr MOSQUITTO_SUCCESS, s1) \<and>
    request_mqtt_bridge_client s1 = (Inr (Some ''192.168.123.1''), s1)"
proof -
  have l: "split ''user mosquitto\<newline>port 1883'' ''\<newline>'' = [''user mosquitto'', ''port 1883'']"
    "\<not> active_line ''address'' ''user mosquitto''" "\<not> active_line ''address'' ''port 1883''"
    "\<not> active_line ''connection'' ''user mosquitto''" "\<not> active_line ''connection'' ''port 1883''"
    by code_simp+
  show ?thesis
    using bridge_client_life [OF conf_world_lines [OF l(1)] _ _ rm_env_removes(1)] l(2-5) by auto
qed

text \<open>
  Deleting the server bridge cuts the file off at the listener: whatever follows it, a client
  bridge for instance, is lost. Without a listener nothing changes, and the result is the code
  of the client.
\<close>

theorem bridge_server_delete:
  assumes "conf_lines s (ls @ l # rest)" "ls \<noteq> []" "\<forall>x \<in> set ls. \<not> active_line ''listener 1884'' x" "rm_removes E"
  shows "(active_line ''listener 1884'' l \<longrightarrow>
      (\<exists>s'. delete_mqtt_bridge_server E s = (Inr MOSQUITTO_SUCCESS, s') \<and> conf_lines s' ls)) \<and>
    (\<not> (\<exists>x \<in> set (l # rest). active_line ''listener 1884'' x) \<longrightarrow>
      delete_mqtt_bridge_server E s = (Inr MOSQUITTO_CLIENT_BRIDGE_NOT_FOUND, s))"
proof (intro conjI impI)
  assume "active_line ''listener 1884'' l"
  then show "\<exists>s'. delete_mqtt_bridge_server E s = (Inr MOSQUITTO_SUCCESS, s') \<and> conf_lines s' ls"
    using delete_from_line_found [OF assms(1-3) _ assms(4)] unfolding delete_mqtt_bridge_server_def by blast
next
  assume "\<not> (\<exists>x \<in> set (l # rest). active_line ''listener 1884'' x)"
  then show "delete_mqtt_bridge_server E s = (Inr MOSQUITTO_CLIENT_BRIDGE_NOT_FOUND, s)"
    unfolding delete_mqtt_bridge_server_def
    by (intro delete_from_line_missing [OF assms(1)]) (use assms(3) in auto)
qed

theorem bridge_server_delete_witness:
  "\<exists>s'. delete_mqtt_bridge_server rm_env (conf_world ''user mosquitto\<newline>listener 1884 x\<newline>connection y'') =
      (Inr MOSQUITTO_SUCCESS, s') \<and> conf_lines s' [''user mosquitto'']"
proof -
  have l: "split ''user mosquitto\<newline>listener 1884 x\<newline>connection y'' ''\<newline>'' =
      [''user mosquitto''] @ ''listener 1884 x'' # [''connection y'']"
    "\<not> active_line ''listener 1884'' ''user mosquitto''" "active_line ''listener 1884'' ''listener 1884 x''"
    by code_simp+
  show ?thesis
    using bridge_server_delete [OF conf_world_lines [OF l(1)] _ _ rm_env_removes(1)] l(2,3) by auto
qed

end
