(* ===== verification/ErrorCode.thy ===== *)
theory ErrorCode
  imports World
begin

text \<open>
  \<open>src/api/error_code\<close>: the error codes, the lookup of a code in the three tables, and the
  interface that the setting files of the other components share.
\<close>

text \<open>The codes of \<open>error_code_t\<close> that the program returns.\<close>

abbreviation ERR_SUCCESS :: c_int where "ERR_SUCCESS \<equiv> 0"
abbreviation ERR_UNKNOWN :: c_int where "ERR_UNKNOWN \<equiv> 100001"
abbreviation ERR_SETTING_FAILED :: c_int where "ERR_SETTING_FAILED \<equiv> 100002"
abbreviation ERR_INTERNAL_SERVER :: c_int where "ERR_INTERNAL_SERVER \<equiv> 100004"
abbreviation ERR_ID_MISMATCHED :: c_int where "ERR_ID_MISMATCHED \<equiv> 100006"
abbreviation ERR_WRONG_FORMAT_MESSAGE :: c_int where "ERR_WRONG_FORMAT_MESSAGE \<equiv> 240001"
abbreviation ERR_TIMEOUT :: c_int where "ERR_TIMEOUT \<equiv> 240002"
abbreviation ERR_DEVICE_NOT_FOUND :: c_int where "ERR_DEVICE_NOT_FOUND \<equiv> 240003"
abbreviation ERR_MESH_SETUPED_BEFORE :: c_int where "ERR_MESH_SETUPED_BEFORE \<equiv> 240004"
abbreviation ERR_MESH_NOT_FOUND :: c_int where "ERR_MESH_NOT_FOUND \<equiv> 240005"
abbreviation ERR_REQUEST_INVALID :: c_int where "ERR_REQUEST_INVALID \<equiv> 240006"
abbreviation ERR_EZMESH_DEAMON_CONNECT_FAIL :: c_int where
  "ERR_EZMESH_DEAMON_CONNECT_FAIL \<equiv> 240007"

record error_t =
  err_code :: c_int
  err_message :: cptr

section \<open>The tables\<close>

text \<open>The loop over a table: the first entry whose code is a number equal to the one wanted.\<close>

fun find_error :: "'j cjson_lib \<Rightarrow> c_int \<Rightarrow> 'j option list \<Rightarrow> 'j option" where
  "find_error L code [] = None"
| "find_error L code (error_index_json # rest) =
     (let code_json = cJSON_GetObjectItemCaseSensitive L error_index_json ''code''
      in if cJSON_IsNumber L code_json \<and> code = cJSON_valueint L (the code_json)
         then error_index_json else find_error L code rest)"

definition get_error_json_from_error_table_json ::
  "'j cjson_lib \<Rightarrow> 'j option \<Rightarrow> c_int \<Rightarrow> 'j option" where
  "get_error_json_from_error_table_json L error_tables code =
     (if cJSON_IsArray L error_tables then find_error L code (json_items L error_tables) else None)"

definition cvt_error_to_json :: "'j cjson_lib \<Rightarrow> error_t option \<Rightarrow> 'j option" where
  "cvt_error_to_json L ezm_error =
     (case ezm_error of
        None \<Rightarrow> None
      | Some e \<Rightarrow>
          (let json = cJSON_CreateObject L;
               json = cJSON_AddNumberToObject L json ''code'' (err_code e)
           in cJSON_AddStringToObject L json ''message'' (err_message e)))"

definition cvt_json_to_error :: "'j cjson_lib \<Rightarrow> 'j option \<Rightarrow> error_t" where
  "cvt_json_to_error L json =
     \<lparr>err_code = json_int L json ''code'', err_message = json_str L json ''message''\<rparr>"

definition init_error_table :: "'j env \<Rightarrow> ('j, unit) wio" where
  "init_error_table E =
     io_bind (load_json_from_file E (general_error_table_file (get_config E))) (\<lambda>general.
     io_then (io_modify (\<lambda>s. s\<lparr>w_error_tables := (general, snd (w_error_tables s))\<rparr>))
     (io_bind (load_json_from_file E (general_mqtt_error_table_file (get_config E))) (\<lambda>mqtt.
      io_then (io_modify (\<lambda>s. s\<lparr>w_error_tables :=
                 (fst (w_error_tables s), mqtt, snd (snd (w_error_tables s)))\<rparr>))
      (io_bind (load_json_from_file E (ezm_error_table_file (get_config E))) (\<lambda>ezm.
       io_modify (\<lambda>s. s\<lparr>w_error_tables :=
         (fst (w_error_tables s), fst (snd (w_error_tables s)), ezm)\<rparr>))))))"

text \<open>A code that is in none of the tables makes the function end without a \<open>return\<close>.\<close>

definition error_table_lookup :: "'j env \<Rightarrow> c_int \<Rightarrow> ('j, error_t) wio" where
  "error_table_lookup E error_code =
     io_bind (io_get w_error_tables) (\<lambda>(general, mqtt, ezm).
     case get_error_json_from_error_table_json (cj E) general error_code of
       Some j \<Rightarrow> io_ret (cvt_json_to_error (cj E) (Some j))
     | None \<Rightarrow>
    (case get_error_json_from_error_table_json (cj E) mqtt error_code of
       Some j \<Rightarrow> io_ret (cvt_json_to_error (cj E) (Some j))
     | None \<Rightarrow>
    (case get_error_json_from_error_table_json (cj E) ezm error_code of
       Some j \<Rightarrow> io_ret (cvt_json_to_error (cj E) (Some j))
     | None \<Rightarrow> io_fail MissingReturn)))"

section \<open>Facts about the tables\<close>

text \<open>The codes a table answers, in order, and what the lookup finds in it.\<close>

definition entry_code :: "'j cjson_lib \<Rightarrow> 'j option \<Rightarrow> c_int option" where
  "entry_code L e =
     (let c = cJSON_GetObjectItemCaseSensitive L e ''code''
      in if cJSON_IsNumber L c then Some (cJSON_valueint L (the c)) else None)"

lemma find_error_alt:
  "find_error L code es = (case List.find (\<lambda>e. entry_code L e = Some code) es of None \<Rightarrow> None | Some e \<Rightarrow> e)"
  by (induction es) (auto simp: entry_code_def Let_def)

lemma entry_code_None: "cjson_ok L \<Longrightarrow> entry_code L None = None"
  by (simp add: entry_code_def json_simps)

lemma find_error_Some:
  assumes "cjson_ok L" "find_error L code es = Some j"
  shows "Some j \<in> set es \<and> entry_code L (Some j) = Some code \<and>
    (\<exists>as bs. es = as @ Some j # bs \<and> (\<forall>e \<in> set as. entry_code L e \<noteq> Some code))"
proof -
  have f: "List.find (\<lambda>e. entry_code L e = Some code) es = Some (Some j)"
    using assms(2) by (auto simp: find_error_alt split: option.splits)
  then obtain i where i: "i < length es" "entry_code L (es ! i) = Some code" "es ! i = Some j"
    "\<forall>k<i. entry_code L (es ! k) \<noteq> Some code"
    unfolding find_Some_iff by auto
  have "es = take i es @ Some j # drop (Suc i) es" using i(1,3) by (metis id_take_nth_drop)
  moreover have "\<forall>e \<in> set (take i es). entry_code L e \<noteq> Some code"
    using i(1,4) by (auto simp: in_set_conv_nth)
  ultimately show ?thesis using i by (metis nth_mem)
qed

lemma find_error_None:
  assumes "cjson_ok L"
  shows "find_error L code es = None \<longleftrightarrow> (\<forall>e \<in> set es. entry_code L e \<noteq> Some code)"
proof (induction es)
  case (Cons e es)
  then show ?case using assms by (cases e) (auto simp: entry_code_None entry_code_def Let_def json_simps)
qed simp

lemma error_json_roundtrip:
  assumes "cjson_ok L"
  shows "cvt_json_to_error L (cvt_error_to_json L (Some e)) = e"
  using assms by (simp add: cvt_json_to_error_def cvt_error_to_json_def Let_def json_simps)

text \<open>The found entry carries the code that was asked for.\<close>

lemma cvt_json_to_error_code:
  "entry_code L (Some j) = Some c \<Longrightarrow> err_code (cvt_json_to_error L (Some j)) = c"
  by (auto simp: entry_code_def cvt_json_to_error_def json_read_alt Let_def split: if_splits)

text \<open>The table entries in the order in which the lookup goes through them.\<close>

definition table_entries :: "'j cjson_lib \<Rightarrow> 'j option \<Rightarrow> 'j option list" where
  "table_entries L t = (if cJSON_IsArray L t then json_items L t else [])"

definition all_entries :: "'j env \<Rightarrow> 'j world \<Rightarrow> 'j option list" where
  "all_entries E s =
     (case w_error_tables s of (a, b, c) \<Rightarrow>
        table_entries (cj E) a @ table_entries (cj E) b @ table_entries (cj E) c)"

lemma get_error_json_alt:
  "get_error_json_from_error_table_json L t c = find_error L c (table_entries L t)"
  by (simp add: get_error_json_from_error_table_json_def table_entries_def)

lemma find_error_append:
  assumes "cjson_ok L"
  shows "find_error L c (xs @ ys) =
    (case find_error L c xs of None \<Rightarrow> find_error L c ys | Some j \<Rightarrow> Some j)"
proof (induction xs)
  case (Cons e es)
  then show ?case using assms by (cases e) (auto simp: Let_def json_simps)
qed simp

lemma error_table_lookup_alt:
  assumes "cjson_ok (cj E)"
  shows "error_table_lookup E c s =
    (case find_error (cj E) c (all_entries E s) of
       None \<Rightarrow> (Inl MissingReturn, s)
     | Some j \<Rightarrow> (Inr (cvt_json_to_error (cj E) (Some j)), s))"
  by (cases "w_error_tables s")
    (auto simp: error_table_lookup_def get_error_json_alt all_entries_def find_error_append [OF assms]
      io_simps split: option.splits prod.splits)

section \<open>Setting files\<close>

text \<open>
  Every component that keeps its settings in a file writes them with one function and reads
  them with another, over a pair of conversions. This is the interface they share: \<open>save\<close>
  prints the converted value over the file and maps a refused write to an error, \<open>request\<close>
  parses the file, and the conversions are inverse on the values that satisfy \<open>ok\<close>.
\<close>

locale setting_file =
  fixes enc :: "'j cjson_lib \<Rightarrow> 'x \<Rightarrow> 'j option"
    and dec :: "'j cjson_lib \<Rightarrow> 'j option \<Rightarrow> 'x"
    and ok :: "'x \<Rightarrow> bool"
    and path :: "config_t \<Rightarrow> cptr"
    and save :: "'j env \<Rightarrow> 'x \<Rightarrow> ('j, c_int) wio"
    and request :: "'j env \<Rightarrow> ('j, c_int \<times> 'x) wio"
  assumes save_law: "save E x =
      io_bind (io_deref (cJSON_Print (cj E) (enc (cj E) x))) (\<lambda>str.
      io_bind (write_data E str (path (get_config E)) TRUNCATE) (\<lambda>ret.
      io_ret (if ret = -1 then ERR_INTERNAL_SERVER else ERR_SUCCESS)))"
    and request_law: "request E =
      io_bind (read_data (path (get_config E))) (\<lambda>str.
      io_ret (ERR_SUCCESS, dec (cj E) (cJSON_Parse (cj E) str)))"
    and enc_some: "cjson_ok L \<Longrightarrow> enc L x \<noteq> None"
    and roundtrip: "cjson_ok L \<Longrightarrow> ok x \<Longrightarrow> dec L (enc L x) = x"
begin

text \<open>The text of a saved value, and the state after it was saved.\<close>

lemma save_ok:
  assumes "cjson_ok (cj E)" "\<not> w_lock s" "path (get_config E) = Some p" "writable E p"
  shows "\<exists>str. cJSON_Print (cj E) (enc (cj E) x) = Some str \<and>
    cJSON_Parse (cj E) (Some str) = enc (cj E) x \<and>
    save E x s = (Inr ERR_SUCCESS, s\<lparr>w_files := (w_files s)(p := Some str)\<rparr>)"
proof -
  obtain j where j: "enc (cj E) x = Some j" using enc_some [OF assms(1)] by blast
  obtain str where "cJSON_Print (cj E) (Some j) = Some str" "cJSON_Parse (cj E) (Some str) = Some j"
    by (rule Print_Some [OF assms(1)])
  with j show ?thesis using assms(2-4) by (simp add: save_law io_simps)
qed

text \<open>A request after a save gives the value back and changes nothing.\<close>

lemma request_after_save:
  assumes "cjson_ok (cj E)" "\<not> w_lock s" "path (get_config E) = Some p" "writable E p" "ok x"
  shows "\<exists>s'. save E x s = (Inr ERR_SUCCESS, s') \<and> request E s' = (Inr (ERR_SUCCESS, x), s') \<and>
    w_trace s' = w_trace s \<and> (\<forall>q. q \<noteq> p \<longrightarrow> w_files s' q = w_files s q)"
proof -
  obtain str where str: "cJSON_Parse (cj E) (Some str) = enc (cj E) x"
    "save E x s = (Inr ERR_SUCCESS, s\<lparr>w_files := (w_files s)(p := Some str)\<rparr>)"
    using save_ok [OF assms(1-4)] by blast
  let ?s = "s\<lparr>w_files := (w_files s)(p := Some str)\<rparr>"
  have "request E ?s = (Inr (ERR_SUCCESS, x), ?s)"
    using str(1) assms roundtrip [OF assms(1,5)] by (simp add: request_law io_simps)
  then show ?thesis using str(2) by auto
qed

text \<open>A refused write is reported, and leaves the mutex locked: the next request blocks.\<close>

lemma save_refused:
  assumes "cjson_ok (cj E)" "\<not> w_lock s" "path (get_config E) = Some p" "\<not> writable E p"
  shows "save E x s = (Inr ERR_INTERNAL_SERVER, s\<lparr>w_lock := True\<rparr>) \<and>
    request E (s\<lparr>w_lock := True\<rparr>) = (Inl Deadlock, s\<lparr>w_lock := True\<rparr>)"
proof -
  obtain j where j: "enc (cj E) x = Some j" using enc_some [OF assms(1)] by blast
  obtain str where "cJSON_Print (cj E) (Some j) = Some str"
    by (rule Print_Some [OF assms(1)])
  with j show ?thesis using assms(2-4) by (simp add: save_law request_law io_simps)
qed

text \<open>
  Without the file a request answers with the conversion of NULL and reports success, and the
  save that follows blocks.
\<close>

lemma request_missing:
  assumes "cjson_ok (cj E)" "\<not> w_lock s" "path (get_config E) = Some p" "w_files s p = None"
  shows "request E s = (Inr (ERR_SUCCESS, dec (cj E) None), s\<lparr>w_lock := True\<rparr>) \<and>
    save E x (s\<lparr>w_lock := True\<rparr>) = (Inl Deadlock, s\<lparr>w_lock := True\<rparr>)"
proof -
  obtain j where j: "enc (cj E) x = Some j" using enc_some [OF assms(1)] by blast
  obtain str where "cJSON_Print (cj E) (Some j) = Some str"
    by (rule Print_Some [OF assms(1)])
  with j show ?thesis using assms by (simp add: save_law request_law io_simps json_simps)
qed

end

end
