(* ===== verification/Wlan.thy ===== *)
theory Wlan
  imports ErrorCode Config
begin

text \<open>
  \<open>src/core/network/wlan\<close>: the wireless settings, their JSON form and the commands that apply
  them, and \<open>src/config/service_info\<close>: the identities of the hub and of this device, and the
  address of an interface.
\<close>

section \<open>wifi_iface.c\<close>

record wifi_iface_t =
  wifi_ssid :: cptr
  wifi_key :: cptr

definition cvt_wifi_iface_to_json :: "'j cjson_lib \<Rightarrow> wifi_iface_t option \<Rightarrow> 'j option" where
  "cvt_wifi_iface_to_json L wifi_iface =
     (case wifi_iface of
        None \<Rightarrow> None
      | Some w \<Rightarrow>
          (let json = cJSON_CreateObject L;
               json = cJSON_AddStringToObject L json ''ssid'' (wifi_ssid w)
           in cJSON_AddStringToObject L json ''key'' (wifi_key w)))"

definition cvt_json_to_wifi_iface :: "'j cjson_lib \<Rightarrow> 'j option \<Rightarrow> wifi_iface_t" where
  "cvt_json_to_wifi_iface L json =
     \<lparr>wifi_ssid = json_str L json ''ssid'', wifi_key = json_str L json ''key''\<rparr>"

definition change_wifi_iface :: "'j env \<Rightarrow> wifi_iface_t \<Rightarrow> ('j, unit) wio" where
  "change_wifi_iface E w =
     (if wifi_ssid w = None \<or> wifi_key w = None then io_ret ()
      else io_seq
        [io_bind (fmt_s (wifi_ssid w)) (\<lambda>ssid.
         io_bind (sprintf_buf 200 (''uci set repacd.MAPConfig.FronthaulSSID='' @ [CHR 0x27] @ ssid @ [CHR 0x27]))
           (\<lambda>cmd. io_void (execl_timeout E 1000 cmd))),
         io_bind (fmt_s (wifi_key w)) (\<lambda>key.
         io_bind (sprintf_buf 200 (''uci set repacd.MAPConfig.FronthaulKey='' @ [CHR 0x27] @ key @ [CHR 0x27]))
           (\<lambda>cmd. io_void (execl_timeout E 1000 cmd))),
         io_void (execl_timeout E 1000
           (''uci set repacd.MAPConfig.FirstConfigRequired='' @ [CHR 0x27] @ ''1'' @ [CHR 0x27])),
         io_void (execl_timeout E 1000 ''uci commit repacd''),
         io_void (execl_timeout E 1000 ''/etc/init.d/repacd restart'')])"

text \<open>The structure itself must be there: its members are released through the pointer.\<close>

definition wifi_iface_free :: "wifi_iface_t option \<Rightarrow> ('s, unit) io" where
  "wifi_iface_free wifi_iface = io_void (io_deref wifi_iface)"

section \<open>wifi_setting.c\<close>

record wifi_setting_t =
  wifi_country :: cptr
  wifi_channel :: c_int
  wifi_txpower :: c_int

definition cvt_wifi_setting_to_json :: "'j cjson_lib \<Rightarrow> wifi_setting_t option \<Rightarrow> 'j option" where
  "cvt_wifi_setting_to_json L wifi_setting =
     (case wifi_setting of
        None \<Rightarrow> None
      | Some w \<Rightarrow>
          (let json = cJSON_CreateObject L;
               json = cJSON_AddStringToObject L json ''country'' (wifi_country w);
               json = cJSON_AddNumberToObject L json ''channel'' (wifi_channel w)
           in cJSON_AddNumberToObject L json ''txpower'' (wifi_txpower w)))"

definition cvt_json_to_wifi_setting :: "'j cjson_lib \<Rightarrow> 'j option \<Rightarrow> wifi_setting_t" where
  "cvt_json_to_wifi_setting L json =
     \<lparr>wifi_country = json_str L json ''country'', wifi_channel = json_int L json ''channel'',
      wifi_txpower = json_int L json ''txpower''\<rparr>"

section \<open>wireless.c\<close>

record wireless_t =
  wireless_iface :: "wifi_iface_t option"

definition cvt_wireless_to_json :: "'j cjson_lib \<Rightarrow> wireless_t option \<Rightarrow> 'j option" where
  "cvt_wireless_to_json L wireless =
     (case wireless of
        None \<Rightarrow> None
      | Some w \<Rightarrow>
          cJSON_AddItemToObject L (cJSON_CreateObject L) ''wifi_iface''
            (cvt_wifi_iface_to_json L (wireless_iface w)))"

definition cvt_json_to_wireless :: "'j cjson_lib \<Rightarrow> 'j option \<Rightarrow> wireless_t" where
  "cvt_json_to_wireless L json =
     \<lparr>wireless_iface = json_sub L json ''wifi_iface'' (cvt_json_to_wifi_iface L)\<rparr>"

definition wireless_free :: "wireless_t option \<Rightarrow> ('s, unit) io" where
  "wireless_free wireless =
     (case wireless of None \<Rightarrow> io_ret () | Some w \<Rightarrow> wifi_iface_free (wireless_iface w))"

lemma wifi_iface_json:
  assumes "cjson_ok L"
  shows "cJSON_IsObject L (cvt_wifi_iface_to_json L (Some w))"
    "cvt_json_to_wifi_iface L (cvt_wifi_iface_to_json L (Some w)) = w"
    "cvt_wifi_iface_to_json L None = None"
  using assms by (simp_all add: cvt_wifi_iface_to_json_def cvt_json_to_wifi_iface_def Let_def json_simps)

lemma wifi_setting_json:
  assumes "cjson_ok L"
  shows "cJSON_IsObject L (cvt_wifi_setting_to_json L (Some w))"
    "cvt_json_to_wifi_setting L (cvt_wifi_setting_to_json L (Some w)) = w"
  using assms
  by (simp_all add: cvt_wifi_setting_to_json_def cvt_json_to_wifi_setting_def Let_def json_simps)

lemma wireless_json:
  assumes "cjson_ok L"
  shows "cJSON_IsObject L (cvt_wireless_to_json L (Some w))"
    "cvt_json_to_wireless L (cvt_wireless_to_json L (Some w)) = w"
    "cvt_wireless_to_json L None = None"
proof -
  show "cJSON_IsObject L (cvt_wireless_to_json L (Some w))" "cvt_wireless_to_json L None = None"
    using assms by (simp_all add: cvt_wireless_to_json_def json_simps)
  have "json_sub L (cvt_wireless_to_json L (Some w)) ''wifi_iface'' (cvt_json_to_wifi_iface L) =
      wireless_iface w"
    by (rule json_sub_Add [OF assms, where enc = "cvt_wifi_iface_to_json L"])
      (use assms in \<open>simp_all add: cvt_wireless_to_json_def json_simps wifi_iface_json\<close>)
  then show "cvt_json_to_wireless L (cvt_wireless_to_json L (Some w)) = w"
    by (simp add: cvt_json_to_wireless_def)
qed

lemma wireless_free_app [io_simps]:
  "wireless_free None s = (Inr (), s)"
  "wireless_free (Some \<lparr>wireless_iface = Some i\<rparr>) s = (Inr (), s)"
  "wireless_free (Some \<lparr>wireless_iface = None\<rparr>) s = (Inl NullDeref, s)"
  by (simp_all add: wireless_free_def wifi_iface_free_def io_simps)

section \<open>service_info.c\<close>

text \<open>One turn of the loop over the services: the members \<open>name\<close> and \<open>id\<close> of an entry.\<close>

definition service_entry :: "'j env \<Rightarrow> 'j option \<Rightarrow> ('j, unit) wio" where
  "service_entry E service =
     (if service = None then io_ret ()
      else
       (let name = cJSON_GetObjectItemCaseSensitive (cj E) service ''name'';
            ident = cJSON_GetObjectItemCaseSensitive (cj E) service ''id''
        in if name \<noteq> None \<and> cJSON_IsString (cj E) name then
             (if cJSON_GetStringValue (cj E) name = Some ''hub'' then
                (if ident \<noteq> None \<and> cJSON_IsString (cj E) ident
                 then io_modify (w_hub_id_update (\<lambda>_. cJSON_GetStringValue (cj E) ident))
                 else io_ret ())
              else if cJSON_GetStringValue (cj E) name = Some ''ezm'' then
                (if ident \<noteq> None \<and> cJSON_IsString (cj E) ident
                 then io_modify (w_ezm_id_update (\<lambda>_. cJSON_GetStringValue (cj E) ident))
                 else io_ret ())
              else io_ret ())
           else io_ret ()))"

definition init_service_info :: "'j env \<Rightarrow> ('j, unit) wio" where
  "init_service_info E =
     io_bind (read_data (service_info_file (get_config E))) (\<lambda>service_info_char.
     if service_info_char = None then io_fail ProgramExit
     else
      (let service_info_json = cJSON_Parse (cj E) service_info_char
       in if \<not> cJSON_IsArray (cj E) service_info_json then io_fail ProgramExit
          else io_for (json_items (cj E) service_info_json) (service_entry E)))"

definition get_hub_id :: "('j, cptr) wio" where
  "get_hub_id = io_get w_hub_id"

definition get_ezm_id :: "('j, cptr) wio" where
  "get_ezm_id = io_get w_ezm_id"

text \<open>The answer of the kernel, as text.\<close>

definition get_interface_ip :: "'j env \<Rightarrow> string \<Rightarrow> ('j, cptr) wio" where
  "get_interface_ip E wan_interface =
     io_bind (io_get w_trace) (\<lambda>h. io_ret (Some (interface_ip E h wan_interface)))"

definition get_interface_mac :: "string \<Rightarrow> ('j, cptr) wio" where
  "get_interface_mac wan_interface =
     io_bind (sprintf_buf 200 (''/sys/class/net/'' @ wan_interface @ ''/address'')) (\<lambda>mac_path.
     io_bind (read_line (Some mac_path)) (\<lambda>mac.
     io_bind (io_deref mac) (\<lambda>lines. io_ret (Some (hd lines)))))"

text \<open>What a service says about the identity with the given name: its \<open>id\<close>, when it is a string.\<close>

definition service_says :: "'j cjson_lib \<Rightarrow> string \<Rightarrow> 'j option \<Rightarrow> cptr option" where
  "service_says L who service =
     (let name = cJSON_GetObjectItemCaseSensitive L service ''name'';
          ident = cJSON_GetObjectItemCaseSensitive L service ''id''
      in if cJSON_IsString L name \<and> cJSON_GetStringValue L name = Some who \<and> cJSON_IsString L ident
         then Some (cJSON_GetStringValue L ident) else None)"

text \<open>The last of several statements wins; without any the old value stays.\<close>

definition last_said :: "cptr \<Rightarrow> cptr option list \<Rightarrow> cptr" where
  "last_said old vs = foldl (\<lambda>x v. case v of None \<Rightarrow> x | Some y \<Rightarrow> y) old vs"

lemma IsString_not_None: "cJSON_IsString L x \<Longrightarrow> x \<noteq> None"
  by (metis Is_None(1))

lemma service_entry_app:
  assumes "cjson_ok (cj E)"
  shows "service_entry E j s = (Inr (), s
    \<lparr>w_hub_id := last_said (w_hub_id s) [service_says (cj E) ''hub'' j],
     w_ezm_id := last_said (w_ezm_id s) [service_says (cj E) ''ezm'' j]\<rparr>)"
proof (cases j)
  case None
  then show ?thesis
    using assms by (simp add: service_entry_def service_says_def last_said_def json_simps io_simps)
next
  case (Some x)
  let ?n = "cJSON_GetObjectItemCaseSensitive (cj E) j ''name''"
  let ?i = "cJSON_GetObjectItemCaseSensitive (cj E) j ''id''"
  show ?thesis
    unfolding service_entry_def service_says_def last_said_def Let_def
    by (cases "cJSON_IsString (cj E) ?n"; cases "cJSON_IsString (cj E) ?i";
        cases "cJSON_GetStringValue (cj E) ?n = Some ''hub''";
        cases "cJSON_GetStringValue (cj E) ?n = Some ''ezm''")
      (simp_all add: Some IsString_not_None io_simps del: not_None_eq)
qed

lemma service_loop:
  assumes "cjson_ok (cj E)"
  shows "io_for js (service_entry E) s = (Inr (), s
    \<lparr>w_hub_id := last_said (w_hub_id s) (map (service_says (cj E) ''hub'') js),
     w_ezm_id := last_said (w_ezm_id s) (map (service_says (cj E) ''ezm'') js)\<rparr>)"
  by (induction js arbitrary: s)
    (simp_all add: io_simps last_said_def service_entry_app [OF assms])

section \<open>Properties\<close>

text \<open>A state with one readable file that holds a document, for the witnesses.\<close>

definition file_world :: "string \<Rightarrow> jtree option \<Rightarrow> jtree world" where
  "file_world p j = empty_world\<lparr>w_files := (\<lambda>p. None)(p := cJSON_Print tree_lib j)\<rparr>"

lemma file_world_file:
  assumes "j \<noteq> None"
  obtains str where "w_files (file_world p j) p = Some str" "cJSON_Parse tree_lib (Some str) = j"
proof -
  obtain t where t: "j = Some t" using assms by auto
  obtain str where "cJSON_Print tree_lib (Some t) = Some str" "cJSON_Parse tree_lib (Some str) = Some t"
    by (rule Print_Some [OF tree_ok])
  with t that show thesis by (simp add: file_world_def)
qed

lemma file_world_simps [simp]:
  "\<not> w_lock (file_world p j)" "w_trace (file_world p j) = []"
  "w_hub_id (file_world p j) = Some ''hub-1''" "w_ezm_id (file_world p j) = Some ''ezm-1''"
  by (simp_all add: file_world_def)

text \<open>
  Reading the service description. Without the file, or with a document that is not an
  array, the program ends; otherwise the identity of the hub is the \<open>id\<close> of the last service
  named hub that has one, the identity of this device that of the last one named ezm, both are
  what the readers return afterwards, and nothing else of the state changes.
\<close>

theorem service_info_spec:
  assumes "cjson_ok (cj E)" "\<not> w_lock s" "service_info_file (get_config E) = Some p"
  shows "init_service_info E s =
    (case w_files s p of
       None \<Rightarrow> (Inl ProgramExit, s\<lparr>w_lock := True\<rparr>)
     | Some str \<Rightarrow>
         (let services = cJSON_Parse (cj E) (Some str);
              said = \<lambda>who old. last_said old (map (service_says (cj E) who) (json_items (cj E) services))
          in if cJSON_IsArray (cj E) services
             then (Inr (), s\<lparr>w_hub_id := said ''hub'' (w_hub_id s), w_ezm_id := said ''ezm'' (w_ezm_id s)\<rparr>)
             else (Inl ProgramExit, s))) \<and>
    get_hub_id s = (Inr (w_hub_id s), s) \<and> get_ezm_id s = (Inr (w_ezm_id s), s)"
  using assms
  by (simp add: init_service_info_def get_hub_id_def get_ezm_id_def Let_def io_simps
      service_loop split: option.splits)

text \<open>Two services, the hub named twice.\<close>

definition demo_services :: jtree where
  "demo_services = TArr
     [TObj [(''name'', TStr ''hub''), (''id'', TStr ''h1'')],
      TObj [(''name'', TStr ''ezm''), (''id'', TStr ''e1'')],
      TObj [(''name'', TStr ''hub''), (''id'', TStr ''h2'')]]"

theorem service_info_spec_witness:
  "\<exists>s'. init_service_info quiet_env (file_world ''/data/database/hub/services_info.json'' (Some demo_services))
      = (Inr (), s') \<and> w_hub_id s' = Some ''h2'' \<and> w_ezm_id s' = Some ''e1''"
proof -
  let ?p = "''/data/database/hub/services_info.json''"
  let ?s = "file_world ?p (Some demo_services)"
  obtain str where str: "w_files ?s ?p = Some str" "cJSON_Parse tree_lib (Some str) = Some demo_services"
    by (rule file_world_file [of "Some demo_services"]) simp
  have says: "map (service_says tree_lib ''hub'') (json_items tree_lib (Some demo_services)) =
      [Some (Some ''h1''), None, Some (Some ''h2'')]"
    "map (service_says tree_lib ''ezm'') (json_items tree_lib (Some demo_services)) =
      [None, Some (Some ''e1''), None]"
    "cJSON_IsArray tree_lib (Some demo_services)"
    by code_simp+
  show ?thesis
    using service_info_spec [of quiet_env ?s ?p] str tree_ok
    by (simp add: says Let_def) (simp add: last_said_def)
qed

end
