(* ===== verification/Device.thy ===== *)
theory Device
  imports Wlan
begin

text \<open>
  \<open>src/core/mesh/topology/device.c\<close> and the device database of \<open>topology.c\<close>: the record of a mesh
  device, its JSON form, and the operations that read the list of known devices from its file,
  change it and write it back.
\<close>

section \<open>device.c\<close>

abbreviation DEVICE_OFF :: c_int where "DEVICE_OFF \<equiv> 0"
abbreviation DEVICE_ON :: c_int where "DEVICE_ON \<equiv> 1"
abbreviation DEVICE_PAIRING :: c_int where "DEVICE_PAIRING \<equiv> 2"
abbreviation DEVICE_DELETED :: c_int where "DEVICE_DELETED \<equiv> 3"

record device_info_t =
  dev_hub_id :: cptr
  dev_ezm_id :: cptr
  dev_ezm_version :: cptr
  dev_ezm_name :: cptr
  dev_role :: cptr
  dev_mac :: cptr
  dev_ip :: cptr
  dev_parent_mac :: cptr
  dev_channel_5g :: cptr
  dev_channel_2g :: cptr
  dev_status :: c_int

text \<open>A block from \<open>calloc\<close>.\<close>

definition device_zero :: device_info_t where
  "device_zero =
     \<lparr>dev_hub_id = None, dev_ezm_id = None, dev_ezm_version = None, dev_ezm_name = None,
      dev_role = None, dev_mac = None, dev_ip = None, dev_parent_mac = None,
      dev_channel_5g = None, dev_channel_2g = None, dev_status = 0\<rparr>"

definition cvt_device_info_to_json :: "'j cjson_lib \<Rightarrow> device_info_t \<Rightarrow> 'j option" where
  "cvt_device_info_to_json L d =
     (let json = cJSON_CreateObject L;
          json = cJSON_AddStringToObject L json ''hub_id'' (dev_hub_id d);
          json = cJSON_AddStringToObject L json ''ezm_id'' (dev_ezm_id d);
          json = cJSON_AddStringToObject L json ''ezm_version'' (dev_ezm_version d);
          json = cJSON_AddStringToObject L json ''ezm_name'' (dev_ezm_name d);
          json = cJSON_AddStringToObject L json ''role'' (dev_role d);
          json = cJSON_AddStringToObject L json ''mac'' (dev_mac d);
          json = cJSON_AddStringToObject L json ''ip'' (dev_ip d);
          json = cJSON_AddStringToObject L json ''parent_mac'' (dev_parent_mac d);
          channel = cJSON_CreateObject L;
          channel = cJSON_AddStringToObject L channel ''5g'' (dev_channel_5g d);
          channel = cJSON_AddStringToObject L channel ''2g'' (dev_channel_2g d);
          json = cJSON_AddItemToObject L json ''channel_selection'' channel
      in cJSON_AddNumberToObject L json ''status'' (dev_status d))"

definition cvt_json_to_device_info :: "'j cjson_lib \<Rightarrow> 'j option \<Rightarrow> device_info_t" where
  "cvt_json_to_device_info L json =
     (let channel = cJSON_GetObjectItemCaseSensitive L json ''channel_selection'';
          has_channel = (channel \<noteq> None \<and> cJSON_IsObject L channel)
      in \<lparr>dev_hub_id = json_str L json ''hub_id'',
          dev_ezm_id = json_str L json ''ezm_id'',
          dev_ezm_version = json_str L json ''ezm_version'',
          dev_ezm_name = json_str L json ''ezm_name'',
          dev_role = json_str L json ''role'',
          dev_mac = json_str L json ''mac'',
          dev_ip = json_str L json ''ip'',
          dev_parent_mac = json_str L json ''parent_mac'',
          dev_channel_5g = (if has_channel then json_str L channel ''5g'' else None),
          dev_channel_2g = (if has_channel then json_str L channel ''2g'' else None),
          dev_status = json_int L json ''status''\<rparr>)"

definition cvt_device_list_to_json :: "'j cjson_lib \<Rightarrow> device_info_t list \<Rightarrow> 'j option" where
  "cvt_device_list_to_json L ds = json_array L (map (cvt_device_info_to_json L) ds)"

definition cvt_json_to_device_list :: "'j cjson_lib \<Rightarrow> 'j option \<Rightarrow> device_info_t list" where
  "cvt_json_to_device_list L json = map (cvt_json_to_device_info L) (json_items L json)"

section \<open>The device database\<close>

definition device_info_copy :: "device_info_t \<Rightarrow> device_info_t" where
  "device_info_copy src =
     \<lparr>dev_hub_id = app_strdup (dev_hub_id src), dev_ezm_id = app_strdup (dev_ezm_id src),
      dev_ezm_version = app_strdup (dev_ezm_version src),
      dev_ezm_name = app_strdup (dev_ezm_name src), dev_role = app_strdup (dev_role src),
      dev_mac = app_strdup (dev_mac src), dev_ip = app_strdup (dev_ip src),
      dev_parent_mac = app_strdup (dev_parent_mac src),
      dev_channel_5g = app_strdup (dev_channel_5g src),
      dev_channel_2g = app_strdup (dev_channel_2g src), dev_status = dev_status src\<rparr>"

definition request_device_list_from_file :: "'j env \<Rightarrow> ('j, device_info_t list) wio" where
  "request_device_list_from_file E =
     io_bind (read_data (mesh_devices_file (get_config E))) (\<lambda>device_list_str.
     io_ret (cvt_json_to_device_list (cj E) (cJSON_Parse (cj E) device_list_str)))"

definition request_device_list_from_file_by_status ::
  "'j env \<Rightarrow> c_int \<Rightarrow> ('j, device_info_t list) wio" where
  "request_device_list_from_file_by_status E status =
     io_bind (read_data (mesh_devices_file (get_config E))) (\<lambda>device_list_str.
     io_ret (map device_info_copy (filter (\<lambda>d. dev_status d = status)
       (cvt_json_to_device_list (cj E) (cJSON_Parse (cj E) device_list_str)))))"

text \<open>The end of every operation that changes the list. The result of the write is dropped.\<close>

definition write_device_list :: "'j env \<Rightarrow> device_info_t list \<Rightarrow> ('j, unit) wio" where
  "write_device_list E ds =
     io_bind (io_deref (cJSON_Print (cj E) (cvt_device_list_to_json (cj E) ds))) (\<lambda>str.
     io_void (write_data E str (mesh_devices_file (get_config E)) TRUNCATE))"

text \<open>
  Devices are matched by substring: the text searched for is the one of the known device, except
  in the last pass of the update from the mesh daemon.
\<close>

definition mac_match :: "device_info_t \<Rightarrow> device_info_t \<Rightarrow> bool" where
  "mac_match given known \<longleftrightarrow> app_strstr (dev_mac given) (dev_mac known) \<noteq> None"

definition set_match :: "device_info_t \<Rightarrow> device_info_t \<Rightarrow> bool" where
  "set_match given known \<longleftrightarrow>
     mac_match given known \<or> app_strstr (dev_ezm_id given) (dev_ezm_id known) \<noteq> None"

definition is_controller :: "device_info_t \<Rightarrow> bool" where
  "is_controller d \<longleftrightarrow> app_strstr (dev_role d) (Some ''controller'') \<noteq> None"

definition set_device :: "device_info_t list \<Rightarrow> device_info_t \<Rightarrow> device_info_t list" where
  "set_device current d =
     (case first_index (set_match d) current of
        Some j \<Rightarrow> current[j := d]
      | None \<Rightarrow> current @ [d])"

definition set_device_list_to_file :: "'j env \<Rightarrow> device_info_t list \<Rightarrow> ('j, unit) wio" where
  "set_device_list_to_file E device_list_set =
     io_bind (request_device_list_from_file E) (\<lambda>current.
     write_device_list E (foldl set_device current device_list_set))"

definition delete_device ::
  "device_info_t list \<times> bool \<Rightarrow> device_info_t \<Rightarrow> device_info_t list \<times> bool" where
  "delete_device acc d =
     (case acc of (current, found_any_device) \<Rightarrow>
        (case first_index (mac_match d) current of
           Some j \<Rightarrow> (current[j := (current ! j)\<lparr>dev_status := DEVICE_DELETED\<rparr>], True)
         | None \<Rightarrow> (current, found_any_device)))"

definition delete_device_list_from_file :: "'j env \<Rightarrow> device_info_t list \<Rightarrow> ('j, bool) wio" where
  "delete_device_list_from_file E device_list_delete =
     io_bind (request_device_list_from_file E) (\<lambda>current.
     (let (current', found_any_device) = foldl delete_device (current, False) device_list_delete
      in io_then (write_device_list E current') (io_ret found_any_device)))"

text \<open>One device reported by the mesh daemon: an agent, then the controller.\<close>

definition merge_agent :: "device_info_t \<Rightarrow> device_info_t \<Rightarrow> device_info_t" where
  "merge_agent d known =
     known\<lparr>dev_role := app_strdup (dev_role d), dev_mac := app_strdup (dev_mac d),
           dev_ip := app_strdup (dev_ip d), dev_parent_mac := app_strdup (dev_parent_mac d),
           dev_channel_5g := app_strdup (dev_channel_5g d),
           dev_channel_2g := app_strdup (dev_channel_2g d),
           dev_status := (if dev_status known \<noteq> DEVICE_DELETED then DEVICE_ON else dev_status known)\<rparr>"

definition merge_controller :: "device_info_t \<Rightarrow> device_info_t \<Rightarrow> device_info_t" where
  "merge_controller d known =
     known\<lparr>dev_mac := app_strdup (dev_mac d), dev_ip := app_strdup (dev_ip d),
           dev_parent_mac := app_strdup (dev_parent_mac d),
           dev_channel_5g := app_strdup (dev_channel_5g d),
           dev_channel_2g := app_strdup (dev_channel_2g d), dev_status := DEVICE_ON\<rparr>"

definition emt_device :: "device_info_t list \<Rightarrow> device_info_t \<Rightarrow> device_info_t list" where
  "emt_device current d =
     (if \<not> is_controller d then
        (if \<exists>k \<in> set current. mac_match d k
         then map (\<lambda>k. if mac_match d k then merge_agent d k else k) current
         else current @ [(device_info_copy d)\<lparr>dev_status := DEVICE_ON\<rparr>])
      else map (\<lambda>k. if is_controller k then merge_controller d k else k) current)"

text \<open>The last pass: an agent that the mesh daemon does not report is off.\<close>

definition turn_off :: "device_info_t list \<Rightarrow> device_info_t \<Rightarrow> device_info_t" where
  "turn_off reported k =
     (if \<not> is_controller k \<and> \<not> (\<exists>d \<in> set reported. mac_match k d)
      then k\<lparr>dev_status := DEVICE_OFF\<rparr> else k)"

definition update_device_list_to_file_from_emt_device ::
  "'j env \<Rightarrow> device_info_t list \<Rightarrow> ('j, unit) wio" where
  "update_device_list_to_file_from_emt_device E device_list_set =
     io_bind (request_device_list_from_file E) (\<lambda>current.
     write_device_list E (map (turn_off device_list_set) (foldl emt_device current device_list_set)))"

definition rename_device ::
  "device_info_t list \<times> bool \<Rightarrow> device_info_t \<Rightarrow> device_info_t list \<times> bool" where
  "rename_device acc d =
     (case acc of (current, found_any_device) \<Rightarrow>
        (case first_index (mac_match d) current of
           Some j \<Rightarrow> (current[j := (current ! j)\<lparr>dev_ezm_name := app_strdup (dev_ezm_name d)\<rparr>], True)
         | None \<Rightarrow> (current, found_any_device)))"

definition update_device_list_to_file_from_web :: "'j env \<Rightarrow> device_info_t list \<Rightarrow> ('j, bool) wio" where
  "update_device_list_to_file_from_web E device_list_set =
     io_bind (request_device_list_from_file E) (\<lambda>current.
     (let (current', found_any_device) = foldl rename_device (current, False) device_list_set
      in io_then (write_device_list E current') (io_ret found_any_device)))"

definition get_device_from_file_by_mac :: "'j env \<Rightarrow> cptr \<Rightarrow> ('j, device_info_t option) wio" where
  "get_device_from_file_by_mac E mac =
     io_bind (request_device_list_from_file E) (\<lambda>current.
     io_ret (case first_index (\<lambda>k. app_strstr mac (dev_mac k) \<noteq> None) current of
               Some j \<Rightarrow> Some (current ! j)
             | None \<Rightarrow> None))"

section \<open>The list survives the file\<close>

lemma device_info_copy_id [simp]: "device_info_copy d = d"
  by (simp add: device_info_copy_def)

lemma device_json_object: "cjson_ok L \<Longrightarrow> cJSON_IsObject L (cvt_device_info_to_json L d)"
  by (simp add: cvt_device_info_to_json_def Let_def obj_simps)

lemma device_json_roundtrip:
  "cjson_ok L \<Longrightarrow> cvt_json_to_device_info L (cvt_device_info_to_json L d) = d"
  by (simp add: cvt_device_info_to_json_def cvt_json_to_device_info_def Let_def obj_simps)

lemma device_list_json_roundtrip:
  assumes "cjson_ok L"
  shows "cvt_json_to_device_list L (cvt_device_list_to_json L ds) = ds"
  unfolding cvt_json_to_device_list_def cvt_device_list_to_json_def
  using assms IsObject_Some [OF device_json_object [OF assms]]
  by (intro json_list_roundtrip) (auto simp: device_json_roundtrip)

lemma device_list_json_array: "cjson_ok L \<Longrightarrow> cJSON_IsArray L (cvt_device_list_to_json L ds)"
  by (simp add: cvt_device_list_to_json_def json_simps)

section \<open>Reading, changing and writing back\<close>

text \<open>
  What a client of a stored list relies on: loading gives the list that is held and changes
  nothing, storing replaces it and runs no command.
\<close>

locale stored_list =
  fixes load :: "'j env \<Rightarrow> ('j, 'x list) wio"
    and store :: "'j env \<Rightarrow> 'x list \<Rightarrow> ('j, unit) wio"
    and holds :: "'j env \<Rightarrow> 'j world \<Rightarrow> 'x list \<Rightarrow> bool"
  assumes load_law: "holds E s xs \<Longrightarrow> load E s = (Inr xs, s)"
    and store_law: "holds E s xs \<Longrightarrow>
      \<exists>s'. store E ys s = (Inr (), s') \<and> holds E s' ys \<and> w_trace s' = w_trace s"
begin

lemma change:
  assumes "holds E s xs"
  shows "\<exists>s'. io_bind (load E) (\<lambda>cur. store E (f cur)) s = (Inr (), s') \<and>
    holds E s' (f xs) \<and> w_trace s' = w_trace s"
  using store_law [OF assms, of "f xs"] by (simp add: io_bind_app load_law [OF assms])

lemma change_flag:
  assumes "holds E s xs" "f xs = (ys, b)"
  shows "\<exists>s'. io_bind (load E) (\<lambda>cur. let (c, b) = f cur in io_then (store E c) (io_ret b)) s =
      (Inr b, s') \<and> holds E s' ys \<and> w_trace s' = w_trace s"
proof -
  obtain s' where "store E ys s = (Inr (), s')" "holds E s' ys" "w_trace s' = w_trace s"
    using store_law [OF assms(1)] by blast
  then show ?thesis by (simp add: io_bind_app load_law [OF assms(1)] assms(2) io_simps)
qed

lemma query:
  assumes "holds E s xs"
  shows "io_bind (load E) (\<lambda>cur. io_ret (f cur)) s = (Inr (f xs), s)"
  by (simp add: io_bind_app load_law [OF assms] io_simps)

end

text \<open>The file of the device database holds a list.\<close>

definition known_devices :: "'j env \<Rightarrow> 'j world \<Rightarrow> device_info_t list \<Rightarrow> bool" where
  "known_devices E s ds \<longleftrightarrow>
     cjson_ok (cj E) \<and> \<not> w_lock s \<and>
     (\<exists>p str. mesh_devices_file (get_config E) = Some p \<and> writable E p \<and> w_files s p = Some str \<and>
        cvt_json_to_device_list (cj E) (cJSON_Parse (cj E) (Some str)) = ds)"

interpretation device_db: stored_list request_device_list_from_file write_device_list known_devices
proof unfold_locales
  fix E :: "'a env" and s xs
  assume h: "known_devices E s xs"
  then show "request_device_list_from_file E s = (Inr xs, s)"
    by (auto simp: known_devices_def request_device_list_from_file_def io_simps)
  fix ys
  from h obtain p where ok: "cjson_ok (cj E)" "\<not> w_lock s"
    and p: "mesh_devices_file (get_config E) = Some p" "writable E p"
    by (auto simp: known_devices_def)
  obtain j where j: "cvt_device_list_to_json (cj E) ys = Some j"
    using IsArray_Some [OF device_list_json_array [OF ok(1)]] by blast
  obtain str where str: "cJSON_Print (cj E) (Some j) = Some str" "cJSON_Parse (cj E) (Some str) = Some j"
    by (rule Print_Some [OF ok(1)])
  have "write_device_list E ys s = (Inr (), s\<lparr>w_files := (w_files s)(p := Some str)\<rparr>)"
    using ok p by (simp add: write_device_list_def j str io_simps)
  moreover have "known_devices E (s\<lparr>w_files := (w_files s)(p := Some str)\<rparr>) ys"
    using ok p str device_list_json_roundtrip [OF ok(1), of ys] by (simp add: known_devices_def j)
  ultimately show "\<exists>s'. write_device_list E ys s = (Inr (), s') \<and> known_devices E s' ys \<and>
      w_trace s' = w_trace s" by auto
qed

section \<open>Devices with addresses of one length\<close>

text \<open>All MAC addresses are there and have the same length, so matching is equality.\<close>

definition macs :: "nat \<Rightarrow> device_info_t list \<Rightarrow> bool" where
  "macs n ds \<longleftrightarrow> (\<forall>d \<in> set ds. \<exists>m. dev_mac d = Some m \<and> length m = n)"

lemma macs_simps [simp]:
  "macs n []" "macs n (d # ds) \<longleftrightarrow> (\<exists>m. dev_mac d = Some m \<and> length m = n) \<and> macs n ds"
  "macs n (ds @ es) \<longleftrightarrow> macs n ds \<and> macs n es"
  by (auto simp: macs_def)

lemma mac_match_iff:
  assumes "macs n ds" "d \<in> set ds" "k \<in> set ds"
  shows "mac_match d k \<longleftrightarrow> dev_mac d = dev_mac k"
proof -
  obtain a b where "dev_mac d = Some a" "dev_mac k = Some b" "length a = length b"
    using assms unfolding macs_def by metis
  then show ?thesis using app_strstr_same_length [of a b] by (simp add: mac_match_def del: not_None_eq)
qed

text \<open>
  Changing the first match in a list without duplicate addresses: only the device with the
  address changes, and the search fails when there is none.
\<close>

lemma update_first_match:
  assumes "macs n (d # ks)" "distinct (map dev_mac ks)"
  shows "(case first_index (mac_match d) ks of Some j \<Rightarrow> (ks[j := g (ks ! j)], True) | None \<Rightarrow> (ks, b)) =
    (map (\<lambda>k. if dev_mac k = dev_mac d then g k else k) ks, b \<or> dev_mac d \<in> dev_mac ` set ks)"
proof -
  have m: "mac_match d k \<longleftrightarrow> dev_mac k = dev_mac d" if "k \<in> set ks" for k
    using mac_match_iff [OF assms(1), of d k] that by auto
  show ?thesis
  proof (cases "first_index (mac_match d) ks")
    case None
    then have "\<forall>k \<in> set ks. dev_mac k \<noteq> dev_mac d" using m by (simp add: first_index_None)
    then show ?thesis using None by (auto simp: map_idI)
  next
    case (Some j)
    then have j: "j < length ks" "mac_match d (ks ! j)" by (simp_all add: first_index_Some)
    then have e: "dev_mac (ks ! j) = dev_mac d" using m by simp
    have "dev_mac (ks ! i) = dev_mac d \<longleftrightarrow> i = j" if "i < length ks" for i
      using e j(1) that nth_eq_iff_index_eq [OF assms(2), of i j] by simp
    then have "ks[j := g (ks ! j)] = map (\<lambda>k. if dev_mac k = dev_mac d then g k else k) ks"
      by (intro nth_equalityI) (auto simp: nth_list_update)
    moreover have "dev_mac d \<in> dev_mac ` set ks" using e j(1) by (metis image_eqI nth_mem)
    ultimately show ?thesis using Some by simp
  qed
qed

lemma macs_map: "(\<And>k. dev_mac (g k) = dev_mac k) \<Longrightarrow> macs n (map g ks) = macs n ks"
  by (simp add: macs_def)

lemma map_mac_map: "(\<And>k. dev_mac (g k) = dev_mac k) \<Longrightarrow> map dev_mac (map g ks) = map dev_mac ks"
  by simp

lemma delete_devices:
  assumes "macs n (ds @ ks)" "distinct (map dev_mac ks)"
  shows "foldl delete_device (ks, b) ds =
    (map (\<lambda>k. if dev_mac k \<in> dev_mac ` set ds then k\<lparr>dev_status := DEVICE_DELETED\<rparr> else k) ks,
     b \<or> dev_mac ` set ds \<inter> dev_mac ` set ks \<noteq> {})"
  using assms
proof (induction ds arbitrary: ks b)
  case (Cons d ds)
  let ?g = "\<lambda>k. if dev_mac k = dev_mac d then k\<lparr>dev_status := DEVICE_DELETED\<rparr> else k"
  let ?b = "b \<or> dev_mac d \<in> dev_mac ` set ks"
  have keep: "dev_mac (?g k) = dev_mac k" for k by simp
  have "macs n (d # ks)" using Cons.prems(1) by simp
  then have step: "delete_device (ks, b) d = (map ?g ks, ?b)"
    unfolding delete_device_def prod.case
    by (rule update_first_match [OF _ Cons.prems(2), where g = "\<lambda>k. k\<lparr>dev_status := DEVICE_DELETED\<rparr>"])
  have "macs n (ds @ map ?g ks)" using Cons.prems(1) by (simp add: macs_map [of ?g, OF keep])
  moreover have "distinct (map dev_mac (map ?g ks))"
    unfolding map_mac_map [of ?g, OF keep] by (rule Cons.prems(2))
  ultimately have "foldl delete_device (map ?g ks, ?b) ds =
      (map (\<lambda>k. if dev_mac k \<in> dev_mac ` set ds then k\<lparr>dev_status := DEVICE_DELETED\<rparr> else k) (map ?g ks),
       ?b \<or> dev_mac ` set ds \<inter> dev_mac ` set (map ?g ks) \<noteq> {})" by (rule Cons.IH)
  moreover have "dev_mac ` set (map ?g ks) = dev_mac ` set ks"
    using arg_cong [OF map_mac_map [of ?g ks, OF keep], of set] by (simp only: set_map)
  ultimately show ?case using step by auto
qed simp

text \<open>Renaming: the last name given for an address stays.\<close>

fun new_name :: "device_info_t list \<Rightarrow> device_info_t \<Rightarrow> cptr" where
  "new_name [] k = dev_ezm_name k"
| "new_name (d # ds) k =
     new_name ds (if dev_mac k = dev_mac d then k\<lparr>dev_ezm_name := dev_ezm_name d\<rparr> else k)"

lemma rename_devices:
  assumes "macs n (ds @ ks)" "distinct (map dev_mac ks)"
  shows "foldl rename_device (ks, b) ds =
    (map (\<lambda>k. k\<lparr>dev_ezm_name := new_name ds k\<rparr>) ks,
     b \<or> dev_mac ` set ds \<inter> dev_mac ` set ks \<noteq> {})"
  using assms
proof (induction ds arbitrary: ks b)
  case (Cons d ds)
  let ?g = "\<lambda>k. if dev_mac k = dev_mac d then k\<lparr>dev_ezm_name := dev_ezm_name d\<rparr> else k"
  let ?b = "b \<or> dev_mac d \<in> dev_mac ` set ks"
  have keep: "dev_mac (?g k) = dev_mac k" for k by simp
  have "macs n (d # ks)" using Cons.prems(1) by simp
  then have step: "rename_device (ks, b) d = (map ?g ks, ?b)"
    unfolding rename_device_def prod.case app_strdup_id
    by (rule update_first_match [OF _ Cons.prems(2), where g = "\<lambda>k. k\<lparr>dev_ezm_name := dev_ezm_name d\<rparr>"])
  have "macs n (ds @ map ?g ks)" using Cons.prems(1) by (simp add: macs_map [of ?g, OF keep])
  moreover have "distinct (map dev_mac (map ?g ks))"
    unfolding map_mac_map [of ?g, OF keep] by (rule Cons.prems(2))
  ultimately have "foldl rename_device (map ?g ks, ?b) ds =
      (map (\<lambda>k. k\<lparr>dev_ezm_name := new_name ds k\<rparr>) (map ?g ks),
       ?b \<or> dev_mac ` set ds \<inter> dev_mac ` set (map ?g ks) \<noteq> {})" by (rule Cons.IH)
  moreover have "dev_mac ` set (map ?g ks) = dev_mac ` set ks"
    using arg_cong [OF map_mac_map [of ?g ks, OF keep], of set] by (simp only: set_map)
  ultimately show ?case using step by auto
qed simp

text \<open>
  Setting one device: it replaces the first device it matches, or is appended, and is then the
  one found under its address.
\<close>

lemma set_device_lookup:
  assumes "dev_mac d = Some m"
  shows "first_index (\<lambda>k. app_strstr (dev_mac d) (dev_mac k) \<noteq> None) (set_device ks d) =
      Some (case first_index (set_match d) ks of Some j \<Rightarrow> j | None \<Rightarrow> length ks) \<and>
    (\<forall>i < length ks. \<not> set_match d (ks ! i) \<longrightarrow> set_device ks d ! i = ks ! i)"
proof (cases "first_index (set_match d) ks")
  case None
  then have no: "\<not> set_match d (ks ! i)" if "i < length ks" for i
    using that by (simp add: first_index_None)
  then have "app_strstr (dev_mac d) (dev_mac (ks ! i)) = None" if "i < length ks" for i
    using that by (auto simp: set_match_def mac_match_def)
  moreover have "app_strstr (dev_mac d) (dev_mac d) \<noteq> None"
    using assms by (auto simp: app_strstr_def)
  ultimately have "first_index (\<lambda>k. app_strstr (dev_mac d) (dev_mac k) \<noteq> None) (ks @ [d]) = Some (length ks)"
    by (auto simp: first_index_Some nth_append simp del: not_None_eq)
  then show ?thesis using None by (simp add: set_device_def nth_append)
next
  case (Some j)
  then have j: "j < length ks" "set_match d (ks ! j)" and no: "\<And>i. i < j \<Longrightarrow> \<not> set_match d (ks ! i)"
    by (simp_all add: first_index_Some)
  have "app_strstr (dev_mac d) (dev_mac d) \<noteq> None"
    using assms by (auto simp: app_strstr_def)
  moreover have "app_strstr (dev_mac d) (dev_mac (ks ! i)) = None" if "i < j" for i
    using no [OF that] by (auto simp: set_match_def mac_match_def)
  ultimately have "first_index (\<lambda>k. app_strstr (dev_mac d) (dev_mac k) \<noteq> None) (ks[j := d]) = Some j"
    using j by (auto simp: first_index_Some nth_list_update simp del: not_None_eq)
  then show ?thesis using Some j by (auto simp: set_device_def nth_list_update)
qed

text \<open>The devices reported by the mesh daemon: agents first, then the whole report.\<close>

definition reported_agent :: "device_info_t list \<Rightarrow> device_info_t \<Rightarrow> device_info_t" where
  "reported_agent as k =
     (case find (\<lambda>d. dev_mac d = dev_mac k) as of Some d \<Rightarrow> merge_agent d k | None \<Rightarrow> k)"

definition switched_on :: "device_info_t \<Rightarrow> device_info_t" where
  "switched_on d = d\<lparr>dev_status := DEVICE_ON\<rparr>"

lemma switched_on_simps [simp]:
  "dev_mac (switched_on d) = dev_mac d" "is_controller (switched_on d) = is_controller d"
  by (simp_all add: switched_on_def is_controller_def)

lemma find_mac_None: "find (\<lambda>d. dev_mac d = m) as = None \<longleftrightarrow> m \<notin> dev_mac ` set as"
  by (auto simp: find_None_iff)

lemma merge_agent_mac [simp]: "dev_mac (merge_agent d k) = dev_mac d"
  by (simp add: merge_agent_def)

lemma emt_agents:
  assumes "macs n (as @ ks)" "distinct (map dev_mac as)" "\<forall>a \<in> set as. \<not> is_controller a"
  shows "foldl emt_device ks as =
    map (reported_agent as) ks @
    map switched_on (filter (\<lambda>d. dev_mac d \<notin> dev_mac ` set ks) as)"
  using assms
proof (induction as arbitrary: ks)
  case Nil
  have "reported_agent [] = (\<lambda>k. k)" by (simp add: reported_agent_def fun_eq_iff)
  then show ?case by simp
next
  case (Cons d as)
  have d: "\<not> is_controller d" "dev_mac d \<notin> dev_mac ` set as" using Cons.prems by auto
  have m: "mac_match d k \<longleftrightarrow> dev_mac k = dev_mac d" if "k \<in> set ks" for k
    using mac_match_iff [OF Cons.prems(1), of d k] that by auto
  have hd: "reported_agent (d # as) k = (if dev_mac k = dev_mac d then merge_agent d k else reported_agent as k)"
    for k by (simp add: reported_agent_def eq_commute)
  have skip: "reported_agent as k = k" if "dev_mac k = dev_mac d" for k
    using d(2) that find_mac_None [of "dev_mac k" as] by (simp add: reported_agent_def)
  show ?case
  proof (cases "dev_mac d \<in> dev_mac ` set ks")
    case True
    let ?g = "\<lambda>k. if dev_mac k = dev_mac d then merge_agent d k else k"
    have keep: "dev_mac (?g k) = dev_mac k" for k by simp
    have "emt_device ks d = map ?g ks"
      using True d(1) m by (auto simp: emt_device_def)
    moreover have "foldl emt_device (map ?g ks) as = map (reported_agent as) (map ?g ks) @
        map switched_on (filter (\<lambda>d. dev_mac d \<notin> dev_mac ` set (map ?g ks)) as)"
      using Cons.prems by (intro Cons.IH) (simp_all add: macs_map [of ?g, OF keep])
    moreover have "dev_mac ` set (map ?g ks) = dev_mac ` set ks"
      using arg_cong [OF map_mac_map [of ?g ks, OF keep], of set] by (simp only: set_map)
    moreover have "map (reported_agent as) (map ?g ks) = map (reported_agent (d # as)) ks"
      using skip by (auto simp: hd)
    ultimately show ?thesis using True by simp
  next
    case False
    have "\<not> (\<exists>k \<in> set ks. mac_match d k)" using False m by (metis image_eqI)
    then have "emt_device ks d = ks @ [switched_on d]"
      using d(1) by (simp add: emt_device_def switched_on_def)
    moreover have "foldl emt_device (ks @ [switched_on d]) as =
        map (reported_agent as) (ks @ [switched_on d]) @
        map switched_on (filter (\<lambda>e. dev_mac e \<notin> dev_mac ` set (ks @ [switched_on d])) as)"
      using Cons.prems by (intro Cons.IH) simp_all
    moreover have "filter (\<lambda>e. dev_mac e \<notin> dev_mac ` set (ks @ [switched_on d])) as =
        filter (\<lambda>e. dev_mac e \<notin> dev_mac ` set ks) as"
      using d(2) by (intro filter_cong [OF refl]) (simp add: image_iff, metis)
    moreover have "map (reported_agent (d # as)) ks = map (reported_agent as) ks"
      using False by (simp add: hd image_iff) metis
    ultimately show ?thesis using False skip [of "switched_on d"] by simp
  qed
qed

text \<open>
  What becomes of one known device, when the controller reports itself first and then the agents.
\<close>

definition after_report :: "device_info_t \<Rightarrow> device_info_t list \<Rightarrow> device_info_t \<Rightarrow> device_info_t" where
  "after_report c as k =
     (if is_controller k then merge_controller c k
      else if dev_mac k \<in> dev_mac ` set as then reported_agent as k
      else if dev_mac k = dev_mac c then k
      else k\<lparr>dev_status := DEVICE_OFF\<rparr>)"

lemma merge_controller_simps [simp]:
  "dev_mac (merge_controller c k) = dev_mac c" "is_controller (merge_controller c k) = is_controller k"
  by (simp_all add: merge_controller_def is_controller_def)

lemma reported_agent_mac: "dev_mac (reported_agent as k) = dev_mac k"
  by (auto simp: reported_agent_def find_Some_iff split: option.splits)

lemma reported_agent_role:
  assumes "\<forall>a \<in> set as. \<not> is_controller a"
  shows "is_controller (reported_agent as k) \<longleftrightarrow> is_controller k \<and> dev_mac k \<notin> dev_mac ` set as"
proof (cases "find (\<lambda>d. dev_mac d = dev_mac k) as")
  case None
  then show ?thesis using find_mac_None [of "dev_mac k" as] by (simp add: reported_agent_def)
next
  case (Some d)
  then have d: "d \<in> set as" "dev_mac d = dev_mac k" by (auto simp: find_Some_iff)
  then have "\<not> is_controller (merge_agent d k)" using assms by (simp add: merge_agent_def is_controller_def)
  moreover have "dev_mac k \<in> dev_mac ` set as" using d by (metis image_eqI)
  ultimately show ?thesis using Some by (simp add: reported_agent_def)
qed

lemma emt_report:
  assumes "macs n (c # as @ ks)" "distinct (map dev_mac (c # as))"
    "is_controller c" "\<forall>a \<in> set as. \<not> is_controller a"
  shows "map (turn_off (c # as)) (foldl emt_device ks (c # as)) =
    map (after_report c as) ks @
    map switched_on (filter (\<lambda>d. dev_mac d \<notin> dev_mac ` {k \<in> set ks. \<not> is_controller k}) as)"
proof -
  let ?c = "\<lambda>k. if is_controller k then merge_controller c k else k"
  have c: "dev_mac c \<notin> dev_mac ` set as" using assms(2) by simp
  have ks1: "emt_device ks c = map ?c ks" using assms(3) by (simp add: emt_device_def)
  have m1: "macs n (as @ map ?c ks)" using assms(1) by (auto simp: macs_def)
  have fold: "foldl emt_device (map ?c ks) as = map (reported_agent as) (map ?c ks) @
      map switched_on (filter (\<lambda>d. dev_mac d \<notin> dev_mac ` set (map ?c ks)) as)"
    using assms by (intro emt_agents [OF m1]) simp_all
  have new: "filter (\<lambda>d. dev_mac d \<notin> dev_mac ` set (map ?c ks)) as =
      filter (\<lambda>d. dev_mac d \<notin> dev_mac ` {k \<in> set ks. \<not> is_controller k}) as"
  proof (rule filter_cong [OF refl])
    fix d assume "d \<in> set as"
    then have "dev_mac d \<noteq> dev_mac c" using c by (metis image_eqI)
    then show "dev_mac d \<notin> dev_mac ` set (map ?c ks) \<longleftrightarrow>
        dev_mac d \<notin> dev_mac ` {k \<in> set ks. \<not> is_controller k}"
      by (auto split: if_splits)
  qed
  have off: "turn_off (c # as) k = (if \<not> is_controller k \<and> dev_mac k \<notin> dev_mac ` set (c # as)
      then k\<lparr>dev_status := DEVICE_OFF\<rparr> else k)" if "\<exists>m. dev_mac k = Some m \<and> length m = n" for k
  proof -
    have "macs n (k # c # as)" using assms(1) that by simp
    then have "mac_match k d \<longleftrightarrow> dev_mac k = dev_mac d" if "d \<in> set (c # as)" for d
      using mac_match_iff [of n "k # c # as" k d] that by auto
    then have "(\<exists>d \<in> set (c # as). mac_match k d) \<longleftrightarrow> dev_mac k \<in> dev_mac ` set (c # as)"
      unfolding image_iff by (meson)
    then show ?thesis unfolding turn_off_def by simp
  qed
  have known: "turn_off (c # as) (reported_agent as (?c k)) = after_report c as k" if "k \<in> set ks" for k
  proof -
    have "\<exists>m. dev_mac (?c k) = Some m \<and> length m = n" using assms(1) that by (auto simp: macs_def)
    then have t: "turn_off (c # as) (reported_agent as (?c k)) =
        (if \<not> is_controller (reported_agent as (?c k)) \<and> dev_mac (?c k) \<notin> dev_mac ` set (c # as)
         then (reported_agent as (?c k))\<lparr>dev_status := DEVICE_OFF\<rparr> else reported_agent as (?c k))"
      using off [of "reported_agent as (?c k)"] by (simp only: reported_agent_mac)
    have same: "reported_agent as x = x" if "dev_mac x \<notin> dev_mac ` set as" for x
      using that find_mac_None [of "dev_mac x" as] by (simp add: reported_agent_def)
    show ?thesis
      unfolding t reported_agent_role [OF assms(4)] after_report_def
      using c same [of "merge_controller c k"] same [of k] by auto
  qed
  have added: "turn_off (c # as) (switched_on d) = switched_on d" if "d \<in> set as" for d
  proof -
    have "\<exists>m. dev_mac (switched_on d) = Some m \<and> length m = n" using assms(1) that by (auto simp: macs_def)
    from off [OF this] that show ?thesis by simp
  qed
  have "map (turn_off (c # as)) (foldl emt_device ks (c # as)) =
      map (\<lambda>k. turn_off (c # as) (reported_agent as (?c k))) ks @
      map (\<lambda>d. turn_off (c # as) (switched_on d))
        (filter (\<lambda>d. dev_mac d \<notin> dev_mac ` {k \<in> set ks. \<not> is_controller k}) as)"
    by (simp only: foldl.simps ks1 fold new map_append map_map comp_def)
  then show ?thesis using known added by (simp cong: map_cong)
qed

section \<open>Properties\<close>

text \<open>A state whose device file holds a list, for the witnesses.\<close>

definition device_world :: "device_info_t list \<Rightarrow> jtree world" where
  "device_world ds =
     file_world ''/data/config/ezm/mesh_devices.json'' (cvt_device_list_to_json tree_lib ds)"

lemma device_world_known: "known_devices quiet_env (device_world ds) ds"
proof -
  have "cvt_device_list_to_json tree_lib ds \<noteq> None"
    using IsArray_Some [OF device_list_json_array [OF tree_ok, of ds]] by auto
  then obtain str where "w_files (device_world ds) ''/data/config/ezm/mesh_devices.json'' = Some str"
    "cJSON_Parse tree_lib (Some str) = cvt_device_list_to_json tree_lib ds"
    unfolding device_world_def by (rule file_world_file)
  then show ?thesis using device_list_json_roundtrip [OF tree_ok, of ds] tree_ok
    by (simp add: known_devices_def) (simp add: device_world_def)
qed

definition demo_device :: "string \<Rightarrow> string \<Rightarrow> c_int \<Rightarrow> device_info_t" where
  "demo_device role mac status =
     device_zero\<lparr>dev_role := Some role, dev_mac := Some mac, dev_status := status\<rparr>"

lemma demo_device_simps [simp]:
  "dev_mac (demo_device r m st) = Some m" "dev_role (demo_device r m st) = Some r"
  "dev_status (demo_device r m st) = st" "is_controller (demo_device ''controller'' m st)"
  "\<not> is_controller (demo_device ''agent'' m st)"
  by (simp_all add: demo_device_def is_controller_def app_strstr_def)

text \<open>
  Setting a device. The database then finds the new device under its address; it took the
  place of the first known device with a matching address or identifier, or came last when there
  was none, and every device that does not match it keeps its place.
\<close>

theorem device_set_then_get:
  assumes "known_devices E s ks" "dev_mac d = Some m"
  shows "\<exists>s'. set_device_list_to_file E [d] s = (Inr (), s') \<and>
    get_device_from_file_by_mac E (dev_mac d) s' = (Inr (Some d), s') \<and>
    (\<exists>ks'. known_devices E s' ks' \<and>
       ks' = (case first_index (set_match d) ks of Some j \<Rightarrow> ks[j := d] | None \<Rightarrow> ks @ [d]) \<and>
       (\<forall>i < length ks. \<not> set_match d (ks ! i) \<longrightarrow> ks' ! i = ks ! i))"
proof -
  let ?ks = "set_device ks d"
  obtain s' where s': "set_device_list_to_file E [d] s = (Inr (), s')" "known_devices E s' ?ks"
    using device_db.change [OF assms(1), of "\<lambda>cur. foldl set_device cur [d]"]
    by (auto simp: set_device_list_to_file_def)
  let ?j = "case first_index (set_match d) ks of Some j \<Rightarrow> j | None \<Rightarrow> length ks"
  have "?ks ! ?j = d"
  proof (cases "first_index (set_match d) ks")
    case (Some j)
    then have "j < length ks" by (simp add: first_index_Some)
    then show ?thesis using Some by (simp add: set_device_def)
  qed (simp add: set_device_def)
  then have "get_device_from_file_by_mac E (dev_mac d) s' = (Inr (Some d), s')"
    unfolding get_device_from_file_by_mac_def device_db.query [OF s'(2)]
    using set_device_lookup [OF assms(2), of ks] by simp
  moreover have "?ks = (case first_index (set_match d) ks of Some j \<Rightarrow> ks[j := d] | None \<Rightarrow> ks @ [d])"
    by (auto simp: set_device_def split: option.splits)
  ultimately show ?thesis
    using s' set_device_lookup [OF assms(2), of ks] by blast
qed

theorem device_set_then_get_witness:
  "\<exists>s'. set_device_list_to_file quiet_env [demo_device ''agent'' ''02'' 1]
      (device_world [demo_device ''controller'' ''01'' 1, demo_device ''agent'' ''02'' 0]) = (Inr (), s') \<and>
    known_devices quiet_env s' [demo_device ''controller'' ''01'' 1, demo_device ''agent'' ''02'' 1]"
proof -
  let ?d = "demo_device ''agent'' ''02'' 1"
  have "first_index (set_match ?d) [demo_device ''controller'' ''01'' 1, demo_device ''agent'' ''02'' 0] = Some 1"
    by code_simp
  then show ?thesis
    using device_set_then_get [OF device_world_known, of ?d "''02''"
        "[demo_device ''controller'' ''01'' 1, demo_device ''agent'' ''02'' 0]"]
    by simp blast
qed

text \<open>
  Deleting devices. With distinct addresses of one length, exactly the devices whose address
  is among the given ones are marked as deleted, none is removed or moved, and the result says
  whether there was one.
\<close>

theorem device_delete_spec:
  assumes "known_devices E s ks" "macs n (ds @ ks)" "distinct (map dev_mac ks)"
  shows "\<exists>s'. delete_device_list_from_file E ds s =
      (Inr (dev_mac ` set ds \<inter> dev_mac ` set ks \<noteq> {}), s') \<and>
    known_devices E s' (map (\<lambda>k. if dev_mac k \<in> dev_mac ` set ds
        then k\<lparr>dev_status := DEVICE_DELETED\<rparr> else k) ks)"
  using device_db.change_flag [OF assms(1), where f = "\<lambda>cur. foldl delete_device (cur, False) ds",
      OF delete_devices [OF assms(2,3)]]
  unfolding delete_device_list_from_file_def by simp blast

theorem device_delete_spec_witness:
  "\<exists>s'. delete_device_list_from_file quiet_env [demo_device ''agent'' ''02'' 0]
      (device_world [demo_device ''controller'' ''01'' 1, demo_device ''agent'' ''02'' 1]) = (Inr True, s') \<and>
    known_devices quiet_env s'
      [demo_device ''controller'' ''01'' 1, (demo_device ''agent'' ''02'' 1)\<lparr>dev_status := DEVICE_DELETED\<rparr>]"
  using device_delete_spec [OF device_world_known, of 2 "[demo_device ''agent'' ''02'' 0]"
      "[demo_device ''controller'' ''01'' 1, demo_device ''agent'' ''02'' 1]"]
  by simp

text \<open>
  Renaming devices from the web page. With distinct addresses of one length only names
  change: a known device takes the last name given for its address, and the result says whether
  some address was known.
\<close>

theorem device_rename_spec:
  assumes "known_devices E s ks" "macs n (ds @ ks)" "distinct (map dev_mac ks)"
  shows "\<exists>s'. update_device_list_to_file_from_web E ds s =
      (Inr (dev_mac ` set ds \<inter> dev_mac ` set ks \<noteq> {}), s') \<and>
    known_devices E s' (map (\<lambda>k. k\<lparr>dev_ezm_name := new_name ds k\<rparr>) ks)"
  using device_db.change_flag [OF assms(1), where f = "\<lambda>cur. foldl rename_device (cur, False) ds",
      OF rename_devices [OF assms(2,3)]]
  unfolding update_device_list_to_file_from_web_def by simp blast

theorem device_rename_spec_witness:
  "\<exists>s'. update_device_list_to_file_from_web quiet_env
        [(demo_device ''agent'' ''02'' 0)\<lparr>dev_ezm_name := Some ''attic''\<rparr>]
      (device_world [demo_device ''agent'' ''01'' 1, demo_device ''agent'' ''02'' 1]) = (Inr True, s') \<and>
    known_devices quiet_env s' [demo_device ''agent'' ''01'' 1,
      (demo_device ''agent'' ''02'' 1)\<lparr>dev_ezm_name := Some ''attic''\<rparr>]"
proof -
  have "(demo_device ''agent'' ''01'' 1)\<lparr>dev_ezm_name := dev_ezm_name (demo_device ''agent'' ''01'' 1)\<rparr> =
      demo_device ''agent'' ''01'' 1" by simp
  then show ?thesis
    using device_rename_spec [OF device_world_known, of 2
        "[(demo_device ''agent'' ''02'' 0)\<lparr>dev_ezm_name := Some ''attic''\<rparr>]"
        "[demo_device ''agent'' ''01'' 1, demo_device ''agent'' ''02'' 1]"]
    by simp
qed

text \<open>
  C8: taking over the report of the mesh daemon, the controller first and then the agents, with
  distinct addresses of one length. A known controller takes the reported data and is on; a
  known agent that is reported takes the reported data and is on, unless it is marked as
  deleted; an agent that is not reported is off, even when it was marked as deleted; the agents
  not known before are appended and on. No device is lost and none changes its place.
\<close>

theorem device_report_spec:
  assumes "known_devices E s ks" "macs n (c # as @ ks)" "distinct (map dev_mac (c # as))"
    "is_controller c" "\<forall>a \<in> set as. \<not> is_controller a"
  shows "\<exists>s'. update_device_list_to_file_from_emt_device E (c # as) s = (Inr (), s') \<and>
    known_devices E s'
      (map (after_report c as) ks @
       map switched_on (filter (\<lambda>d. dev_mac d \<notin> dev_mac ` {k \<in> set ks. \<not> is_controller k}) as))"
  using device_db.change [OF assms(1), where f = "\<lambda>cur. map (turn_off (c # as)) (foldl emt_device cur (c # as))"]
  unfolding update_device_list_to_file_from_emt_device_def emt_report [OF assms(2-5)] by blast

text \<open>A reported agent, one that is not reported any more and was deleted, and a new one.\<close>

theorem device_report_spec_witness:
  "\<exists>s' ks'. update_device_list_to_file_from_emt_device quiet_env
        [demo_device ''controller'' ''01'' 0, demo_device ''agent'' ''02'' 0, demo_device ''agent'' ''04'' 0]
      (device_world [demo_device ''controller'' ''01'' 1, demo_device ''agent'' ''02'' 0,
         demo_device ''agent'' ''03'' DEVICE_DELETED]) = (Inr (), s') \<and>
    known_devices quiet_env s' ks' \<and>
    map (\<lambda>k. (dev_mac k, dev_status k)) ks' =
      [(Some ''01'', 1), (Some ''02'', 1), (Some ''03'', DEVICE_OFF), (Some ''04'', 1)]"
proof -
  let ?c = "demo_device ''controller'' ''01'' 0"
  let ?as = "[demo_device ''agent'' ''02'' 0, demo_device ''agent'' ''04'' 0]"
  let ?ks = "[demo_device ''controller'' ''01'' 1, demo_device ''agent'' ''02'' 0,
      demo_device ''agent'' ''03'' DEVICE_DELETED]"
  obtain s' where "update_device_list_to_file_from_emt_device quiet_env (?c # ?as) (device_world ?ks) = (Inr (), s')"
    "known_devices quiet_env s' (map (after_report ?c ?as) ?ks @
       map switched_on (filter (\<lambda>d. dev_mac d \<notin> dev_mac ` {k \<in> set ?ks. \<not> is_controller k}) ?as))"
    using device_report_spec [OF device_world_known, of 2 ?c ?as ?ks] by auto
  moreover have "{k \<in> set ?ks. \<not> is_controller k} =
      {demo_device ''agent'' ''02'' 0, demo_device ''agent'' ''03'' DEVICE_DELETED}" by auto
  then have "map (\<lambda>k. (dev_mac k, dev_status k)) (map (after_report ?c ?as) ?ks @
       map switched_on (filter (\<lambda>d. dev_mac d \<notin> dev_mac ` {k \<in> set ?ks. \<not> is_controller k}) ?as)) =
      [(Some ''01'', 1), (Some ''02'', 1), (Some ''03'', DEVICE_OFF), (Some ''04'', 1)]"
    by (simp add: after_report_def reported_agent_def merge_agent_def merge_controller_def
        switched_on_def)
  ultimately show ?thesis by (intro exI conjI) assumption+
qed

end
