(* ===== verification/Topology.thy ===== *)
theory Topology
  imports Device
begin

text \<open>
  \<open>src/core/mesh/topology/topology.c\<close>: the parser that reads the devices of the mesh out of the text
  the mesh daemon prints. A pointer into the text is the suffix it points at. The parser goes
  through five fields for each device and starts over after the fifth; it ends when a pattern is
  not found. The two channel fields keep a flag in a static variable each, which is the state
  here, together with the devices read so far.
\<close>

section \<open>The parser\<close>

datatype device_field_t = MAC | IP | PARENT_MAC | CHANNEL_SELECTION_5G | CHANNEL_SELECTION_2G

fun device_pattern_entry :: "device_field_t \<Rightarrow> string \<times> string \<times> string" where
  "device_pattern_entry MAC = (''QCA IEEE 1905.1 device:'', '' '', '','')"
| "device_pattern_entry IP = (''IPv4 address:'', '' '', '' '')"
| "device_pattern_entry PARENT_MAC = (''Upstream Device:'', '' '', ''\<newline>'')"
| "device_pattern_entry CHANNEL_SELECTION_5G = (''Radios:'', ''WLAN'', ''\<newline>'')"
| "device_pattern_entry CHANNEL_SELECTION_2G = (''WLAN'', '' '', ''\<newline>'')"

fun next_field :: "device_field_t \<Rightarrow> device_field_t" where
  "next_field MAC = IP"
| "next_field IP = PARENT_MAC"
| "next_field PARENT_MAC = CHANNEL_SELECTION_5G"
| "next_field CHANNEL_SELECTION_5G = CHANNEL_SELECTION_2G"
| "next_field CHANNEL_SELECTION_2G = MAC"

text \<open>
  The search for a run of digits in the region between two markers. The positions are 16 bits
  wide. A run that reaches the end of the region leaves the flag set and the end position 0.
\<close>

fun scan_channel :: "bool \<Rightarrow> 16 word \<Rightarrow> nat \<Rightarrow> string \<Rightarrow> bool \<times> 16 word \<times> 16 word" where
  "scan_channel start_record start_index i [] = (start_record, start_index, 0)"
| "scan_channel start_record start_index i (c # cs) =
     (if start_record then
        (if \<not> is_digit c then (False, start_index, of_nat i)
         else scan_channel start_record start_index (Suc i) cs)
      else if is_digit c then scan_channel True (of_nat i) (Suc i) cs
      else scan_channel start_record start_index (Suc i) cs)"

text \<open>
  The copy out of the region. A negative size is a huge one for the allocator and for \<open>memcpy\<close>;
  with size 0 the terminator is written before the block.
\<close>

definition read_channel :: "bool \<Rightarrow> string \<Rightarrow> bool \<times> (fault + string)" where
  "read_channel start_record region =
     (let (rec', start_index, stop_index) = scan_channel start_record 0 0 region
      in (rec', if stop_index < start_index then Inl OutOfBounds
                else Inr (take (unat stop_index - unat start_index) (drop (unat start_index) region))))"

text \<open>The region from \<open>start_pointer\<close> to \<open>end_pointer\<close>, and the text from \<open>end_pointer\<close> on.\<close>

definition region_of :: "string \<Rightarrow> string \<Rightarrow> string" where
  "region_of start_pointer end_pointer = take (length start_pointer - length end_pointer) start_pointer"

record topo_state =
  topo_rec_5g :: bool
  topo_rec_2g :: bool
  topo_devices :: "device_info_t list"

datatype topo_step =
    TopoFault fault
  | TopoReturn topo_state
  | TopoNext topo_state string

definition update_last :: "(device_info_t \<Rightarrow> device_info_t) \<Rightarrow> topo_state \<Rightarrow> topo_state" where
  "update_last f st =
     (let ds = topo_devices st; i = length ds - 1 in st\<lparr>topo_devices := ds[i := f (ds ! i)]\<rparr>)"

text \<open>
  One field: \<open>str_pointer\<close> is the text behind the pattern. In the first field a missing start
  marker is not noticed: its length is added to the NULL result of the search.
\<close>

definition topology_field ::
  "device_field_t \<Rightarrow> string \<Rightarrow> string \<Rightarrow> string \<Rightarrow> topo_state \<Rightarrow> topo_step" where
  "topology_field field start end str_pointer st =
     (if field = MAC then
       (let st = st\<lparr>topo_devices := topo_devices st @
               [device_zero\<lparr>dev_role := (if topo_devices st = [] then Some ''controller'' else Some ''agent'')\<rparr>]\<rparr>
        in case strstr str_pointer start of
             None \<Rightarrow> TopoFault NullDeref
           | Some sp \<Rightarrow>
              (let start_pointer = drop (length start) sp
               in case strstr start_pointer end of
                    None \<Rightarrow> TopoReturn st
                  | Some end_pointer \<Rightarrow>
                      TopoNext (update_last (dev_mac_update
                        (\<lambda>_. Some (upcase_to_lowcase (region_of start_pointer end_pointer)))) st) end_pointer))
      else
       (case strstr str_pointer start of
          None \<Rightarrow> TopoReturn st
        | Some sp \<Rightarrow>
           (let start_pointer = drop (length start) sp
            in case strstr start_pointer end of
                 None \<Rightarrow> TopoReturn st
               | Some end_pointer \<Rightarrow>
                  (let region = region_of start_pointer end_pointer
                   in case field of
                        IP \<Rightarrow> TopoNext (update_last (dev_ip_update (\<lambda>_. Some region)) st) end_pointer
                      | PARENT_MAC \<Rightarrow> TopoNext (update_last (dev_parent_mac_update
                            (\<lambda>_. Some (upcase_to_lowcase region))) st) end_pointer
                      | CHANNEL_SELECTION_5G \<Rightarrow>
                          (case read_channel (topo_rec_5g st) region of
                             (rec', Inl f) \<Rightarrow> TopoFault f
                           | (rec', Inr ch) \<Rightarrow> TopoNext (update_last (dev_channel_5g_update (\<lambda>_. Some ch))
                               (st\<lparr>topo_rec_5g := rec'\<rparr>)) end_pointer)
                      | CHANNEL_SELECTION_2G \<Rightarrow>
                          (case read_channel (topo_rec_2g st) region of
                             (rec', Inl f) \<Rightarrow> TopoFault f
                           | (rec', Inr ch) \<Rightarrow> TopoNext (update_last (dev_channel_2g_update (\<lambda>_. Some ch))
                               (st\<lparr>topo_rec_2g := rec'\<rparr>)) end_pointer)
                      | MAC \<Rightarrow> TopoReturn st))))"

text \<open>The next pattern is searched from \<open>check_pointer\<close> on.\<close>

definition topology_step :: "device_field_t \<Rightarrow> string \<Rightarrow> topo_state \<Rightarrow> topo_step" where
  "topology_step field check_pointer st =
     (case device_pattern_entry field of (pattern, start, end) \<Rightarrow>
        (case strstr check_pointer pattern of
           None \<Rightarrow> TopoReturn st
         | Some found \<Rightarrow> topology_field field start end (drop (length pattern) found) st))"

lemma strstr_length: "strstr s p = Some r \<Longrightarrow> length r \<le> length s \<and> length p \<le> length r"
  using strstr_suffix [of s p r] by (auto simp: suffix_length_le prefix_length_le)

text \<open>Every field makes the rest of the text shorter.\<close>

lemma topology_step_shorter:
  assumes "topology_step field check st = TopoNext st' check'"
  shows "length check' < length check"
proof -
  obtain p b e where pat: "device_pattern_entry field = (p, b, e)" "0 < length p"
    by (cases field) auto
  then obtain found where found: "strstr check p = Some found"
    "topology_field field b e (drop (length p) found) st = TopoNext st' check'"
    using assms by (auto simp: topology_step_def split: option.splits)
  then obtain sp where sp: "strstr (drop (length p) found) b = Some sp"
    by (auto simp: topology_field_def Let_def split: option.splits if_splits)
  have "strstr (drop (length b) sp) e = Some check'"
    using found(2) sp
    by (auto simp: topology_field_def Let_def
        split: option.splits if_splits device_field_t.splits prod.splits sum.splits)
  then show ?thesis
    using strstr_length [OF found(1)] strstr_length [OF sp] strstr_length [of "drop (length b) sp" e check'] pat(2)
    unfolding length_drop by linarith
qed

function topology_loop ::
  "device_field_t \<Rightarrow> string \<Rightarrow> topo_state \<Rightarrow> fault + topo_state" where
  "topology_loop field check_pointer st =
     (case topology_step field check_pointer st of
        TopoFault f \<Rightarrow> Inl f
      | TopoReturn st' \<Rightarrow> Inr st'
      | TopoNext st' check' \<Rightarrow> topology_loop (next_field field) check' st')"
  by pat_completeness auto

termination topology_loop
  by (relation "measure (\<lambda>(_, check, _). length check)") (auto dest: topology_step_shorter)

declare topology_loop.simps [simp del]

text \<open>The entry: the static flags come from the calls before.\<close>

definition topology_handler :: "bool \<times> bool \<Rightarrow> string \<Rightarrow> fault + (bool \<times> bool) \<times> device_info_t list" where
  "topology_handler flags topology_str =
     (case topology_loop MAC topology_str
        \<lparr>topo_rec_5g = fst flags, topo_rec_2g = snd flags, topo_devices = []\<rparr> of
        Inl f \<Rightarrow> Inl f
      | Inr st \<Rightarrow> Inr ((topo_rec_5g st, topo_rec_2g st), topo_devices st))"

section \<open>What the parser reads\<close>

lemma strstr_gap:
  assumes "p \<noteq> []" "hd p \<notin> set g"
  shows "strstr (g @ p @ r) p = Some (p @ r)"
  using assms
proof (induction g)
  case Nil
  then show ?case by (simp add: strstr_prefix)
next
  case (Cons c g)
  then have "\<not> prefix p (c # g @ p @ r)" by (cases p) auto
  with Cons show ?case by simp
qed

lemma region_of_append [simp]: "region_of (w @ r) r = w"
  by (simp add: region_of_def)

lemma update_last_snoc [simp]:
  "update_last f (st\<lparr>topo_devices := ds @ [d]\<rparr>) = st\<lparr>topo_devices := ds @ [f d]\<rparr>"
  by (simp add: update_last_def Let_def)

lemma scan_before:
  "\<forall>c \<in> set pre. \<not> is_digit c \<Longrightarrow> scan_channel False b i (pre @ cs) = scan_channel False b (i + length pre) cs"
  by (induction pre arbitrary: i) auto

lemma scan_digits:
  "\<forall>c \<in> set ch. is_digit c \<Longrightarrow> scan_channel True b i (ch @ cs) = scan_channel True b (i + length ch) cs"
  by (induction ch arbitrary: i) auto

text \<open>The first run of digits is read when a character follows it.\<close>

definition channel_text :: "string \<Rightarrow> string \<Rightarrow> bool" where
  "channel_text pre ch \<longleftrightarrow> (\<forall>c \<in> set pre. \<not> is_digit c) \<and> (\<forall>c \<in> set ch. is_digit c) \<and> ch \<noteq> [] \<and>
     length pre + length ch < 2 ^ 16"

lemma scan_run:
  assumes "channel_text pre ch"
  shows "scan_channel False b 0 (pre @ ch @ cs) =
    scan_channel True (of_nat (length pre)) (length pre + length ch) cs"
proof -
  obtain d ds where ch: "ch = d # ds" using assms by (cases ch) (auto simp: channel_text_def)
  then show ?thesis using assms
    by (simp add: channel_text_def scan_before scan_digits)
qed

lemma unat_of_nat_16: "n < 2 ^ 16 \<Longrightarrow> unat (of_nat n :: 16 word) = n"
  by (simp add: unat_of_nat take_bit_nat_eq_self)

lemma read_channel_run:
  assumes "channel_text pre ch" "\<not> is_digit t"
  shows "read_channel False (pre @ ch @ t # post) = (False, Inr ch)"
proof -
  have b: "length pre + length ch < 2 ^ 16" using assms(1) by (simp add: channel_text_def)
  have u: "unat (of_nat (length pre) :: 16 word) = length pre"
    by (rule unat_of_nat_16) (use b in linarith)
  have v: "unat (of_nat (length pre + length ch) :: 16 word) = length pre + length ch"
    by (rule unat_of_nat_16) (use b in linarith)
  then have le: "\<not> (of_nat (length pre + length ch) :: 16 word) < of_nat (length pre)"
    by (simp only: word_less_nat_alt u)
  show ?thesis
    using assms le u v
    by (simp add: read_channel_def scan_run Let_def del: of_nat_add)
qed

text \<open>A run that ends the region, and what the flag it leaves does to the next region.\<close>

lemma read_channel_cut:
  assumes "channel_text pre ch"
  shows "read_channel False (pre @ ch) = (True, if pre = [] then Inr [] else Inl OutOfBounds)"
proof -
  have b: "length pre < 2 ^ 16" using assms by (simp add: channel_text_def)
  have "(0 :: 16 word) < of_nat (length pre) \<longleftrightarrow> pre \<noteq> []"
    unfolding word_less_nat_alt unat_of_nat_16 [OF b] by simp
  then show ?thesis
    using scan_run [OF assms, of 0 "[]"] by (auto simp: read_channel_def Let_def)
qed

lemma read_channel_stuck: "\<not> is_digit c \<Longrightarrow> read_channel True (c # cs) = (False, Inr [])"
  by (simp add: read_channel_def)

text \<open>
  One device in the text of the mesh daemon: the five values, and the text between them, which
  is arbitrary as long as it does not hold the first character of what is searched for next.
\<close>

record reported =
  rp_mac :: string
  rp_ip :: string
  rp_parent :: string
  rp_5g :: string
  rp_2g :: string
  rp_gap_mac :: string
  rp_gap_ip :: string
  rp_gap_parent :: string
  rp_gap_radios :: string
  rp_gap_5g :: string
  rp_pre_5g :: string
  rp_post_5g :: string
  rp_gap_2g :: string
  rp_name_2g :: string
  rp_pre_2g :: string
  rp_post_2g :: string

definition reported_ok :: "reported \<Rightarrow> bool" where
  "reported_ok r \<longleftrightarrow>
     CHR ''Q'' \<notin> set (rp_gap_mac r) \<and> CHR '','' \<notin> set (rp_mac r) \<and>
     CHR ''I'' \<notin> set (rp_gap_ip r) \<and> CHR '' '' \<notin> set (rp_ip r) \<and>
     CHR ''U'' \<notin> set (rp_gap_parent r) \<and> CHR ''\<newline>'' \<notin> set (rp_parent r) \<and>
     CHR ''R'' \<notin> set (rp_gap_radios r) \<and> CHR ''W'' \<notin> set (rp_gap_5g r) \<and>
     channel_text (rp_pre_5g r) (rp_5g r) \<and>
     CHR ''\<newline>'' \<notin> set (rp_pre_5g r @ rp_5g r @ rp_post_5g r) \<and>
     rp_post_5g r \<noteq> [] \<and> \<not> is_digit (hd (rp_post_5g r)) \<and>
     CHR ''W'' \<notin> set (rp_gap_2g r) \<and> CHR '' '' \<notin> set (rp_name_2g r) \<and>
     channel_text (rp_pre_2g r) (rp_2g r) \<and>
     CHR ''\<newline>'' \<notin> set (rp_pre_2g r @ rp_2g r @ rp_post_2g r) \<and>
     rp_post_2g r \<noteq> [] \<and> \<not> is_digit (hd (rp_post_2g r))"

definition text_mac where
  "text_mac r rest = rp_gap_mac r @ ''QCA IEEE 1905.1 device:'' @ '' '' @ rp_mac r @ '','' @ rest"

definition text_ip where
  "text_ip r rest = rp_gap_ip r @ ''IPv4 address:'' @ '' '' @ rp_ip r @ '' '' @ rest"

definition text_parent where
  "text_parent r rest = rp_gap_parent r @ ''Upstream Device:'' @ '' '' @ rp_parent r @ ''\<newline>'' @ rest"

definition text_5g where
  "text_5g r rest = rp_gap_radios r @ ''Radios:'' @ rp_gap_5g r @ ''WLAN'' @
     rp_pre_5g r @ rp_5g r @ rp_post_5g r @ ''\<newline>'' @ rest"

definition text_2g where
  "text_2g r rest = rp_gap_2g r @ ''WLAN'' @ rp_name_2g r @ '' '' @
     rp_pre_2g r @ rp_2g r @ rp_post_2g r @ ''\<newline>'' @ rest"

definition device_text :: "reported \<Rightarrow> string \<Rightarrow> string" where
  "device_text r rest = text_mac r (text_ip r (text_parent r (text_5g r (text_2g r rest))))"

definition reported_device :: "string \<Rightarrow> reported \<Rightarrow> device_info_t" where
  "reported_device role r = device_zero
     \<lparr>dev_role := Some role, dev_mac := Some (upcase_to_lowcase (rp_mac r)), dev_ip := Some (rp_ip r),
      dev_parent_mac := Some (upcase_to_lowcase (rp_parent r)),
      dev_channel_5g := Some (rp_5g r), dev_channel_2g := Some (rp_2g r)\<rparr>"

text \<open>What a field does with the region it found.\<close>

definition field_result :: "device_field_t \<Rightarrow> string \<Rightarrow> string \<Rightarrow> topo_state \<Rightarrow> topo_step" where
  "field_result field w end_pointer st =
     (case field of
        MAC \<Rightarrow> TopoNext (st\<lparr>topo_devices := topo_devices st @
            [device_zero\<lparr>dev_role := (if topo_devices st = [] then Some ''controller'' else Some ''agent''),
               dev_mac := Some (upcase_to_lowcase w)\<rparr>]\<rparr>) end_pointer
      | IP \<Rightarrow> TopoNext (update_last (dev_ip_update (\<lambda>_. Some w)) st) end_pointer
      | PARENT_MAC \<Rightarrow> TopoNext (update_last (dev_parent_mac_update
            (\<lambda>_. Some (upcase_to_lowcase w))) st) end_pointer
      | CHANNEL_SELECTION_5G \<Rightarrow>
          (case read_channel (topo_rec_5g st) w of
             (rec', Inl f) \<Rightarrow> TopoFault f
           | (rec', Inr ch) \<Rightarrow> TopoNext (update_last (dev_channel_5g_update (\<lambda>_. Some ch))
               (st\<lparr>topo_rec_5g := rec'\<rparr>)) end_pointer)
      | CHANNEL_SELECTION_2G \<Rightarrow>
          (case read_channel (topo_rec_2g st) w of
             (rec', Inl f) \<Rightarrow> TopoFault f
           | (rec', Inr ch) \<Rightarrow> TopoNext (update_last (dev_channel_2g_update (\<lambda>_. Some ch))
               (st\<lparr>topo_rec_2g := rec'\<rparr>)) end_pointer))"

lemma topology_step_found:
  assumes "device_pattern_entry f = (p, b, [c])" "hd p \<notin> set g" "hd b \<notin> set h" "c \<notin> set w"
  shows "topology_step f (g @ p @ h @ b @ w @ [c] @ r) st = field_result f w ([c] @ r) st"
proof -
  have ne: "p \<noteq> []" "b \<noteq> []" using assms(1) by (cases f; auto)+
  have s1: "strstr (g @ p @ (h @ b @ w @ [c] @ r)) p = Some (p @ (h @ b @ w @ [c] @ r))"
    by (rule strstr_gap [OF ne(1) assms(2)])
  have s2: "strstr (h @ b @ (w @ [c] @ r)) b = Some (b @ (w @ [c] @ r))"
    by (rule strstr_gap [OF ne(2) assms(3)])
  have s3: "strstr (w @ [c] @ r) [c] = Some ([c] @ r)"
    by (rule strstr_gap) (use assms(4) in simp_all)
  have d: "drop (length p) (p @ x) = x" "drop (length b) (b @ x) = x" for x by simp_all
  show ?thesis
    unfolding topology_step_def assms(1) prod.case s1 option.case d topology_field_def s2 Let_def s3
      region_of_append field_result_def
    by (cases f) simp_all
qed

lemma pattern_hds [simp]:
  "hd ''QCA IEEE 1905.1 device:'' = CHR ''Q''" "hd ''IPv4 address:'' = CHR ''I''"
  "hd ''Upstream Device:'' = CHR ''U''" "hd ''Radios:'' = CHR ''R''" "hd ''WLAN'' = CHR ''W''"
  "hd '' '' = CHR '' ''"
  by simp_all

lemma read_channel_reported:
  assumes "channel_text pre ch" "post \<noteq> []" "\<not> is_digit (hd post)"
  shows "read_channel False (pre @ ch @ post) = (False, Inr ch)"
  using assms(2,3) read_channel_run [OF assms(1)] by (cases post) auto

text \<open>A whole device, the two flags being clear.\<close>

lemma topology_device:
  assumes "reported_ok r" "CHR ''Q'' \<notin> set g" "\<not> topo_rec_5g st" "\<not> topo_rec_2g st"
  shows "topology_loop MAC (g @ device_text r rest) st =
    topology_loop MAC (''\<newline>'' @ rest) (st\<lparr>topo_devices := topo_devices st @
      [reported_device (if topo_devices st = [] then ''controller'' else ''agent'') r]\<rparr>)"
proof -
  let ?role = "if topo_devices st = [] then Some ''controller'' else Some ''agent''"
  let ?d1 = "device_zero\<lparr>dev_role := ?role, dev_mac := Some (upcase_to_lowcase (rp_mac r))\<rparr>"
  let ?d2 = "?d1\<lparr>dev_ip := Some (rp_ip r)\<rparr>"
  let ?d3 = "?d2\<lparr>dev_parent_mac := Some (upcase_to_lowcase (rp_parent r))\<rparr>"
  let ?d4 = "?d3\<lparr>dev_channel_5g := Some (rp_5g r)\<rparr>"
  let ?d5 = "?d4\<lparr>dev_channel_2g := Some (rp_2g r)\<rparr>"
  let ?st = "\<lambda>d. st\<lparr>topo_devices := topo_devices st @ [d]\<rparr>"
  let ?t5 = "text_2g r rest"
  let ?t4 = "text_5g r ?t5"
  let ?t3 = "text_parent r ?t4"
  let ?t2 = "text_ip r ?t3"
  note ok = assms(1) [unfolded reported_ok_def]
  have flags: "st\<lparr>topo_rec_5g := False\<rparr> = st" "st\<lparr>topo_rec_2g := False\<rparr> = st"
    using assms(3,4) by (cases st; simp)+
  have set_flags: "?st d\<lparr>topo_rec_5g := False\<rparr> = ?st d" "?st d\<lparr>topo_rec_2g := False\<rparr> = ?st d" for d
    using flags by (cases st; simp)+
  have "topology_step MAC ((g @ rp_gap_mac r) @ ''QCA IEEE 1905.1 device:'' @ [] @ '' '' @ rp_mac r @ '','' @ ?t2) st =
      field_result MAC (rp_mac r) ('','' @ ?t2) st"
    by (rule topology_step_found) (use ok assms(2) in simp_all)
  then have 1: "topology_step MAC (g @ device_text r rest) st = TopoNext (?st ?d1) ('','' @ ?t2)"
    by (simp only: device_text_def text_mac_def append_assoc append_Nil) (simp add: field_result_def)
  have "topology_step IP (('','' @ rp_gap_ip r) @ ''IPv4 address:'' @ [] @ '' '' @ rp_ip r @ '' '' @ ?t3) (?st ?d1) =
      field_result IP (rp_ip r) ('' '' @ ?t3) (?st ?d1)"
    by (rule topology_step_found) (use ok in simp_all)
  then have 2: "topology_step IP ('','' @ ?t2) (?st ?d1) = TopoNext (?st ?d2) ('' '' @ ?t3)"
    by (simp only: text_ip_def append_assoc append_Nil) (simp add: field_result_def)
  have "topology_step PARENT_MAC (('' '' @ rp_gap_parent r) @ ''Upstream Device:'' @ [] @ '' '' @ rp_parent r @
        ''\<newline>'' @ ?t4) (?st ?d2) = field_result PARENT_MAC (rp_parent r) (''\<newline>'' @ ?t4) (?st ?d2)"
    by (rule topology_step_found) (use ok in simp_all)
  then have 3: "topology_step PARENT_MAC ('' '' @ ?t3) (?st ?d2) = TopoNext (?st ?d3) (''\<newline>'' @ ?t4)"
    by (simp only: text_parent_def append_assoc append_Nil) (simp add: field_result_def)
  have "topology_step CHANNEL_SELECTION_5G ((''\<newline>'' @ rp_gap_radios r) @ ''Radios:'' @ rp_gap_5g r @ ''WLAN'' @
        (rp_pre_5g r @ rp_5g r @ rp_post_5g r) @ ''\<newline>'' @ ?t5) (?st ?d3) =
      field_result CHANNEL_SELECTION_5G (rp_pre_5g r @ rp_5g r @ rp_post_5g r) (''\<newline>'' @ ?t5) (?st ?d3)"
    by (rule topology_step_found) (use ok in simp_all)
  moreover have "read_channel False (rp_pre_5g r @ rp_5g r @ rp_post_5g r) = (False, Inr (rp_5g r))"
    by (rule read_channel_reported) (use ok in simp_all)
  ultimately have 4: "topology_step CHANNEL_SELECTION_5G (''\<newline>'' @ ?t4) (?st ?d3) = TopoNext (?st ?d4) (''\<newline>'' @ ?t5)"
    using assms(3) by (simp only: text_5g_def append_assoc append_Nil)
      (simp add: field_result_def set_flags)
  have "topology_step CHANNEL_SELECTION_2G ((''\<newline>'' @ rp_gap_2g r) @ ''WLAN'' @ rp_name_2g r @ '' '' @
        (rp_pre_2g r @ rp_2g r @ rp_post_2g r) @ ''\<newline>'' @ rest) (?st ?d4) =
      field_result CHANNEL_SELECTION_2G (rp_pre_2g r @ rp_2g r @ rp_post_2g r) (''\<newline>'' @ rest) (?st ?d4)"
    by (rule topology_step_found) (use ok in simp_all)
  moreover have "read_channel False (rp_pre_2g r @ rp_2g r @ rp_post_2g r) = (False, Inr (rp_2g r))"
    by (rule read_channel_reported) (use ok in simp_all)
  ultimately have 5: "topology_step CHANNEL_SELECTION_2G (''\<newline>'' @ ?t5) (?st ?d4) = TopoNext (?st ?d5) (''\<newline>'' @ rest)"
    using assms(4) by (simp only: text_2g_def append_assoc append_Nil)
      (simp add: field_result_def set_flags)
  have d5: "?d5 = reported_device (if topo_devices st = [] then ''controller'' else ''agent'') r"
    by (simp add: reported_device_def)
  show ?thesis
    unfolding topology_loop.simps [of MAC "g @ device_text r rest"] 1 topo_step.case next_field.simps
      topology_loop.simps [of IP] 2 topology_loop.simps [of PARENT_MAC] 3
      topology_loop.simps [of CHANNEL_SELECTION_5G] 4 topology_loop.simps [of CHANNEL_SELECTION_2G] 5 d5
    by (rule refl)
qed

section \<open>Properties\<close>

text \<open>The text for a list of devices, and what is to be read from it.\<close>

fun mesh_text :: "reported list \<Rightarrow> string \<Rightarrow> string" where
  "mesh_text [] trailer = trailer"
| "mesh_text (r # rs) trailer = device_text r (mesh_text rs trailer)"

definition mesh_devices :: "reported list \<Rightarrow> device_info_t list" where
  "mesh_devices rs =
     (case rs of [] \<Rightarrow> []
      | r # rs' \<Rightarrow> reported_device ''controller'' r # map (reported_device ''agent'') rs')"

lemma topology_agents:
  assumes "\<forall>r \<in> set rs. reported_ok r" "CHR ''Q'' \<notin> set trailer" "CHR ''Q'' \<notin> set g"
    "\<not> topo_rec_5g st" "\<not> topo_rec_2g st" "topo_devices st \<noteq> []"
  shows "topology_loop MAC (g @ mesh_text rs trailer) st =
    Inr (st\<lparr>topo_devices := topo_devices st @ map (reported_device ''agent'') rs\<rparr>)"
  using assms
proof (induction rs arbitrary: g st)
  case Nil
  have "\<not> sublist ''QCA IEEE 1905.1 device:'' (g @ trailer)"
    using Nil.prems(2,3) set_mono_sublist [of "''QCA IEEE 1905.1 device:''" "g @ trailer"] by auto
  then have "topology_step MAC (g @ trailer) st = TopoReturn st"
    by (simp add: topology_step_def strstr_None_iff [symmetric])
  then show ?case by (simp add: topology_loop.simps [of MAC "g @ trailer"])
next
  case (Cons r rs)
  let ?st = "st\<lparr>topo_devices := topo_devices st @ [reported_device ''agent'' r]\<rparr>"
  have "topology_loop MAC (g @ mesh_text (r # rs) trailer) st =
      topology_loop MAC (''\<newline>'' @ mesh_text rs trailer) ?st"
    using topology_device [of r g st "mesh_text rs trailer"] Cons.prems by simp
  also have "\<dots> = Inr (?st\<lparr>topo_devices := topo_devices ?st @ map (reported_device ''agent'') rs\<rparr>)"
    by (rule Cons.IH) (use Cons.prems in simp_all)
  finally show ?case by simp
qed

lemma digit_facts:
  "is_digit (CHR ''1'')" "is_digit (CHR ''4'')" "is_digit (CHR ''9'')" "is_digit (CHR ''6'')"
  "is_digit (CHR ''3'')" "\<not> is_digit (CHR '' '')" "\<not> is_digit (CHR ''c'')" "\<not> is_digit (CHR ''h'')"
  by code_simp+

lemma mesh_text_read:
  assumes "\<forall>r \<in> set rs. reported_ok r" "CHR ''Q'' \<notin> set trailer"
  shows "topology_handler (False, False) (mesh_text rs trailer) = Inr ((False, False), mesh_devices rs)"
proof (cases rs)
  case Nil
  then have "\<not> sublist ''QCA IEEE 1905.1 device:'' trailer"
    using assms(2) set_mono_sublist [of "''QCA IEEE 1905.1 device:''" trailer] by auto
  then show ?thesis using Nil
    by (simp add: topology_handler_def topology_loop.simps [of MAC trailer] topology_step_def
        strstr_None_iff [symmetric] mesh_devices_def)
next
  case (Cons r rs')
  let ?st = "\<lparr>topo_rec_5g = False, topo_rec_2g = False, topo_devices = []\<rparr>"
  have "topology_loop MAC (mesh_text rs trailer) ?st =
      topology_loop MAC (''\<newline>'' @ mesh_text rs' trailer)
        (?st\<lparr>topo_devices := [reported_device ''controller'' r]\<rparr>)"
    using topology_device [of r "[]" ?st "mesh_text rs' trailer"] assms(1) Cons by simp
  also have "\<dots> = Inr (?st\<lparr>topo_devices := [reported_device ''controller'' r] @ map (reported_device ''agent'') rs'\<rparr>)"
    using topology_agents [of rs' trailer "''\<newline>''" "?st\<lparr>topo_devices := [reported_device ''controller'' r]\<rparr>"]
      assms Cons by simp
  finally show ?thesis using Cons by (simp add: topology_handler_def mesh_devices_def)
qed


definition demo_reported :: "string \<Rightarrow> reported" where
  "demo_reported mac =
     \<lparr>rp_mac = mac, rp_ip = ''192.168.123.1'', rp_parent = ''AA:01'', rp_5g = ''149'', rp_2g = ''6'',
      rp_gap_mac = ''# '', rp_gap_ip = '' flags 3\<newline>'', rp_gap_parent = ''\<newline>  '', rp_gap_radios = '' '',
      rp_gap_5g = '' '', rp_pre_5g = '' '', rp_post_5g = '' up'', rp_gap_2g = '' '',
      rp_name_2g = ''1'', rp_pre_2g = ''ch '', rp_post_2g = '' up''\<rparr>"


text \<open>
  A channel number that ends its line is lost. When nothing stands before it, the channel is
  empty and the static flag stays set, so that the next number of that band is read as empty as
  well, in whichever call that happens; when something stands before it, the size of the copy is
  negative and the copy faults.
\<close>

theorem topology_channel_at_line_end:
  assumes "channel_text pre ch" "CHR ''\<newline>'' \<notin> set (pre @ ch)"
  shows "topology_step CHANNEL_SELECTION_5G (''Radios:WLAN'' @ pre @ ch @ ''\<newline>'' @ rest)
      \<lparr>topo_rec_5g = False, topo_rec_2g = b, topo_devices = ds @ [d]\<rparr> =
    (if pre = []
     then TopoNext \<lparr>topo_rec_5g = True, topo_rec_2g = b, topo_devices = ds @ [d\<lparr>dev_channel_5g := Some []\<rparr>]\<rparr>
            (''\<newline>'' @ rest)
     else TopoFault OutOfBounds) \<and>
    read_channel True ('' '' @ ch @ '' '') = (False, Inr [])"
proof -
  let ?st = "\<lparr>topo_rec_5g = False, topo_rec_2g = b, topo_devices = ds @ [d]\<rparr>"
  have "topology_step CHANNEL_SELECTION_5G ([] @ ''Radios:'' @ [] @ ''WLAN'' @ (pre @ ch) @ ''\<newline>'' @ rest) ?st =
      field_result CHANNEL_SELECTION_5G (pre @ ch) (''\<newline>'' @ rest) ?st"
    by (rule topology_step_found) (use assms(2) in simp_all)
  moreover have "?st\<lparr>topo_rec_5g := True\<rparr> = ?st\<lparr>topo_rec_5g := True, topo_devices := ds @ [d]\<rparr>" by simp
  moreover have "\<not> is_digit (CHR '' '')" by (rule digit_facts)
  ultimately show ?thesis
    using read_channel_cut [OF assms(1)] read_channel_stuck [of "CHR '' ''" "ch @ '' ''"]
    by (simp add: field_result_def update_last_def Let_def)
qed

theorem topology_channel_at_line_end_witness:
  "topology_step CHANNEL_SELECTION_5G ''Radios:WLAN ch 36\<newline>''
      \<lparr>topo_rec_5g = False, topo_rec_2g = False, topo_devices = [device_zero]\<rparr> = TopoFault OutOfBounds"
proof -
  have "channel_text '' ch '' ''36''" by (simp add: channel_text_def digit_facts)
  from topology_channel_at_line_end [OF this, of "''''" False "[]" device_zero] show ?thesis by simp
qed

end
