(* ===== verification/Emt.thy ===== *)
theory Emt
  imports Topology
begin

text \<open>
  \<open>src/core/mesh/core\<close>: the commands of the mesh daemon's shell, as tables of names for sections and
  actions, their assembly into one line, the exchange with the daemon, and \<open>topology/wps.c\<close>, the
  checks that run while a device is paired. The daemon and the transport library are parameters:
  \<open>emt_recv\<close> is the text the caller finds at the address that \<open>emt_send_cmd\<close> returns.
\<close>

section \<open>emt_cmd.c\<close>

text \<open>
  The tables are in the order of the enumerations, so an enumerator is an index. The entry
  \<open>dicovery\<close> and the double entry for \<open>DEBUG_LEVEL\<close> are as in the source.
\<close>

definition section_mapping_cmd :: "string list" where
  "section_mapping_cmd =
    [''dbg'', ''md'', ''evloop'', ''ieee1905'', ''hy'', ''wlan'', ''mc'', ''map'', ''sp'', ''td'',
     ''dispatchService'', ''dbgService'', ''stadb'', ''mapctrl'', ''pc'', ''steerexec'', ''bandmon'',
     ''estimator'', ''steeralg'']"

definition debug_action_cmd :: "string list" where
  "debug_action_cmd = [''level'', ''here'']"

definition md_action_cmd :: "string list" where
  "md_action_cmd = [''p'', ''s'']"

definition evloop_action_cmd :: "string list" where
  "evloop_action_cmd = [''s'']"

definition ieee1905_action_cmd :: "string list" where
  "ieee1905_action_cmd = [''p'', ''s'']"

definition hy_manager_action_cmd :: "string list" where
  "hy_manager_action_cmd = [''hd'', ''ha'', ''fa'', ''fd'']"

definition wlan_manager_action_cmd :: "string list" where
  "wlan_manager_action_cmd = [''freq'', ''p'']"

definition mc_manager_action_cmd :: "string list" where
  "mc_manager_action_cmd = [''encap'', ''flood'', ''iffwd'']"

definition multi_ap_action_cmd :: "string list" where
  "multi_ap_action_cmd =
    [''s'', ''unassocmetquery'', ''bkscan'', ''scanreport'', ''homechanrank'',
     ''chanprefquery'', ''chanprefdump'', ''triggerchansel'', ''bstamet'', ''bhs'',
     ''scanReq'', ''neighReport'', ''cacreq'', ''cacterminate'']"

definition service_priority_action_cmd :: "string list" where
  "service_priority_action_cmd = [''s'', ''bsp'', ''esp'', ''qsp'', ''rmsprule'', ''pusall'']"

definition topology_action_cmd :: "string list" where
  "topology_action_cmd =
    [''s'', ''s1'', ''s2'', ''p'', ''a'', ''ab'', ''ai'', ''f'', ''t1'', ''t2'', ''d'', ''g'',
     ''me'', ''dis'', ''dicovery'', ''notify'', ''radiocap'', ''rmid'', ''smid'']"

definition dispatch_service_action_cmd :: "string list" where
  "dispatch_service_action_cmd = [''s'']"

definition dbg_service_action_cmd :: "string list" where
  "dbg_service_action_cmd = [''s'', ''c'']"

definition stadb_action_cmd :: "string list" where
  "stadb_action_cmd =
    [''s'', ''d'', ''rssi'', ''act'', ''nosteer'', ''nosteerlistreload'', ''nosteerlistshow'',
     ''diaglog'']"

definition mapctrl_action_cmd :: "string list" where
  "mapctrl_action_cmd = [''s'', ''d'']"

definition pc_service_action_cmd :: "string list" where
  "pc_service_action_cmd = [''s'', ''p'', ''t'', ''d'', ''m'', ''lc'', ''pm'']"

definition steer_exec_action_cmd :: "string list" where
  "steer_exec_action_cmd = [''s'', ''steer'', ''allow_assoc'', ''abort'', ''diaglog'']"

definition band_mon_action_cmd :: "string list" where
  "band_mon_action_cmd = [''s'', ''d'', ''util'']"

definition estimator_action_cmd :: "string list" where
  "estimator_action_cmd =
    [''s'', ''rate'', ''airtime'', ''d'', ''detect'', ''stats'', ''diaglog'']"

definition steeralg_action_cmd :: "string list" where
  "steeralg_action_cmd = [''s'', ''pc'']"

abbreviation SECTION_SERVICE_PRIORITY :: nat where "SECTION_SERVICE_PRIORITY \<equiv> 8"
abbreviation SECTION_TOPOLOGY :: nat where "SECTION_TOPOLOGY \<equiv> 9"
abbreviation SECTION_MAX :: nat where "SECTION_MAX \<equiv> 19"
abbreviation TOPOLOGY_S2 :: c_int where "TOPOLOGY_S2 \<equiv> 2"

text \<open>
  The branches of the switch: for each section its table of actions and the bound the action is
  compared with. The bound of the service priorities is the number of sections.
\<close>

definition section_actions :: "(string list \<times> int) list" where
  "section_actions =
    [(debug_action_cmd, 2), (md_action_cmd, 2), (evloop_action_cmd, 1), (ieee1905_action_cmd, 2),
     (hy_manager_action_cmd, 4), (wlan_manager_action_cmd, 2), (mc_manager_action_cmd, 3),
     (multi_ap_action_cmd, 14), (service_priority_action_cmd, 19),
     (topology_action_cmd, 19), (dispatch_service_action_cmd, 1), (dbg_service_action_cmd, 2),
     (stadb_action_cmd, 8), (mapctrl_action_cmd, 2), (pc_service_action_cmd, 7),
     (steer_exec_action_cmd, 5), (band_mon_action_cmd, 3), (estimator_action_cmd, 7),
     (steeralg_action_cmd, 2)]"

text \<open>The section is an unsigned enumeration, the action a signed int; the buffer has 200 bytes.\<close>

definition create_cmd :: "nat \<Rightarrow> c_int \<Rightarrow> cptr \<Rightarrow> ('s, cptr) io" where
  "create_cmd sec action args =
     (if sec \<ge> SECTION_MAX then io_ret None
      else
       (let section_cmd = section_mapping_cmd ! sec; (table, action_max) = section_actions ! sec
        in if sint action \<ge> action_max then io_ret None
           else if sint action < 0 \<or> int (length table) \<le> sint action then io_fail OutOfBounds
           else io_bind (sprintf_buf 200
             (section_cmd @ '' '' @ table ! nat (sint action) @
              (case args of None \<Rightarrow> [] | Some a \<Rightarrow> '' '' @ a) @ ''\<newline>''))
             (\<lambda>cmd. io_ret (Some cmd))))"

section \<open>emt.c\<close>

text \<open>The entries for most sections do nothing and return NULL.\<close>

definition emt_debug :: "c_int \<Rightarrow> cptr \<Rightarrow> cptr" where "emt_debug action args = None"
definition emt_md :: "c_int \<Rightarrow> cptr \<Rightarrow> cptr" where "emt_md action args = None"
definition emt_ieee1905 :: "c_int \<Rightarrow> cptr \<Rightarrow> cptr" where "emt_ieee1905 action args = None"
definition emt_hy_manager :: "c_int \<Rightarrow> cptr \<Rightarrow> cptr" where "emt_hy_manager action args = None"
definition emt_wlan_manager :: "c_int \<Rightarrow> cptr \<Rightarrow> cptr" where "emt_wlan_manager action args = None"
definition emt_mc_manager :: "c_int \<Rightarrow> cptr \<Rightarrow> cptr" where "emt_mc_manager action args = None"
definition emt_service_priority :: "c_int \<Rightarrow> cptr \<Rightarrow> cptr" where "emt_service_priority action args = None"
definition emt_dispatch_service :: "c_int \<Rightarrow> cptr \<Rightarrow> cptr" where "emt_dispatch_service action args = None"
definition emt_dbg_service :: "c_int \<Rightarrow> cptr \<Rightarrow> cptr" where "emt_dbg_service action args = None"
definition emt_stadb :: "c_int \<Rightarrow> cptr \<Rightarrow> cptr" where "emt_stadb action args = None"
definition emt_map_ctrl :: "c_int \<Rightarrow> cptr \<Rightarrow> cptr" where "emt_map_ctrl action args = None"
definition emt_pc_service :: "c_int \<Rightarrow> cptr \<Rightarrow> cptr" where "emt_pc_service action args = None"
definition emt_steer_exec :: "c_int \<Rightarrow> cptr \<Rightarrow> cptr" where "emt_steer_exec action args = None"
definition emt_band_mon :: "c_int \<Rightarrow> cptr \<Rightarrow> cptr" where "emt_band_mon action args = None"
definition emt_estimator :: "c_int \<Rightarrow> cptr \<Rightarrow> cptr" where "emt_estimator action args = None"
definition emt_steer_alg :: "c_int \<Rightarrow> cptr \<Rightarrow> cptr" where "emt_steer_alg action args = None"

definition emt_send_cmd :: "'j env \<Rightarrow> cptr \<Rightarrow> ('j, string) wio" where
  "emt_send_cmd E cmd =
     io_bind (io_deref cmd) (\<lambda>c.
     io_bind (io_get w_trace) (\<lambda>h.
     io_then (emit (Emt c)) (io_ret (emt_recv E h c))))"

definition emt_topology :: "'j env \<Rightarrow> c_int \<Rightarrow> cptr \<Rightarrow> ('j, device_info_t list) wio" where
  "emt_topology E topology_action args =
     io_bind (create_cmd SECTION_TOPOLOGY topology_action args) (\<lambda>cmd.
     io_bind (emt_send_cmd E cmd) (\<lambda>response.
     io_bind (io_get w_topo_flags) (\<lambda>flags.
     case topology_handler flags response of
       Inl f \<Rightarrow> io_fail f
     | Inr (flags', device_list) \<Rightarrow>
         io_then (io_modify (w_topo_flags_update (\<lambda>_. flags'))) (io_ret device_list))))"

definition ezm_deamon_is_running :: "'j env \<Rightarrow> ('j, c_int) wio" where
  "ezm_deamon_is_running E =
     io_bind (io_get w_trace) (\<lambda>h.
     io_then (emit Connect) (io_ret (if daemon_up E h then 0 else -1)))"

section \<open>wps.c\<close>

text \<open>The checks get the number of devices there were and set the flag behind it.\<close>

definition add_device_check :: "'j env \<Rightarrow> nat \<Rightarrow> ('j, c_int) wio" where
  "add_device_check E prev_nb_device =
     io_bind (emt_topology E TOPOLOGY_S2 None) (\<lambda>device_list.
     io_ret (if length device_list > prev_nb_device then 1 else 0))"

definition remove_device_check :: "'j env \<Rightarrow> nat \<Rightarrow> ('j, c_int) wio" where
  "remove_device_check E prev_nb_device =
     io_bind (emt_topology E TOPOLOGY_S2 None) (\<lambda>device_list.
     io_ret (if length device_list < prev_nb_device then 1 else 0))"

definition timeout_check :: "bool \<Rightarrow> bool" where
  "timeout_check timeout_flag = True"

definition polling_wps :: "'j env \<Rightarrow> ('j, unit) wio" where
  "polling_wps E =
     io_bind (io_deref (setup_wps_file (get_config E))) (\<lambda>cmd. execl_non_timeout E cmd)"

section \<open>Waiting for the daemon\<close>

text \<open>\<open>while (ezm_deamon_is_running () == -1) sleep (1)\<close>, with fuel for the number of turns.\<close>

fun wait_daemon :: "nat \<Rightarrow> 'j env \<Rightarrow> ('j, unit) wio" where
  "wait_daemon 0 E = io_fail OutOfFuel"
| "wait_daemon (Suc n) E =
     io_bind (ezm_deamon_is_running E) (\<lambda>r.
     if r = -1 then io_then (sleep_s 1) (wait_daemon n E) else io_ret ())"

text \<open>
  The daemon answers at the \<open>k\<close>-th attempt after the given history: then more than \<open>k\<close> turns are
  enough, and the run is \<open>k\<close> failed attempts with a second of sleep each, and a last one.
\<close>

definition attempts :: "nat \<Rightarrow> event list" where
  "attempts k = concat (replicate k [Connect, Sleep 1])"

definition daemon_up_at :: "'j env \<Rightarrow> event list \<Rightarrow> nat \<Rightarrow> bool" where
  "daemon_up_at E h k \<longleftrightarrow>
     daemon_up E (h @ attempts k) \<and> (\<forall>i < k. \<not> daemon_up E (h @ attempts i))"

lemma attempts_simps [simp]:
  "attempts 0 = []" "attempts (Suc k) = [Connect, Sleep 1] @ attempts k"
  by (simp_all add: attempts_def)

lemma daemon_up_at_Suc:
  "daemon_up_at E h (Suc k) \<longleftrightarrow> \<not> daemon_up E h \<and> daemon_up_at E (h @ [Connect, Sleep 1]) k"
  by (auto simp: daemon_up_at_def less_Suc_eq_0_disj)

lemma wait_daemon_up:
  assumes "daemon_up_at E (w_trace s) k" "k < n"
  shows "wait_daemon n E s = (Inr (), s\<lparr>w_trace := w_trace s @ attempts k @ [Connect]\<rparr>)"
  using assms
proof (induction k arbitrary: s n)
  case 0
  then obtain n' where "n = Suc n'" by (cases n) auto
  with 0 show ?case by (simp add: daemon_up_at_def ezm_deamon_is_running_def io_simps)
next
  case (Suc k)
  then obtain n' where n: "n = Suc n'" "k < n'" by (cases n) auto
  let ?s = "s\<lparr>w_trace := w_trace s @ [Connect, Sleep 1]\<rparr>"
  have "daemon_up_at E (w_trace ?s) k" and no: "\<not> daemon_up E (w_trace s)"
    using Suc.prems(1) by (simp_all add: daemon_up_at_Suc)
  from Suc.IH [OF this(1) n(2)] no show ?case
    by (simp add: n(1) ezm_deamon_is_running_def io_simps)
qed

section \<open>Commands\<close>

lemma tables_complete:
  "length section_mapping_cmd = SECTION_MAX" "length section_actions = SECTION_MAX"
  "\<forall>i < SECTION_MAX. i \<noteq> SECTION_SERVICE_PRIORITY \<longrightarrow>
     snd (section_actions ! i) = int (length (fst (section_actions ! i)))"
  "snd (section_actions ! SECTION_SERVICE_PRIORITY) = 19"
  "length (fst (section_actions ! SECTION_SERVICE_PRIORITY)) = 6"
  by code_simp+

lemma names_short:
  "\<forall>i < SECTION_MAX. length (section_mapping_cmd ! i) \<le> 15"
  "\<forall>i < SECTION_MAX. \<forall>a \<in> set (fst (section_actions ! i)). length a \<le> 17"
  by code_simp+

lemma wait_daemon_down:
  assumes "\<forall>k. \<not> daemon_up E (w_trace s @ attempts k)"
  shows "\<exists>s'. wait_daemon n E s = (Inl OutOfFuel, s')"
  using assms
proof (induction n arbitrary: s)
  case 0
  then show ?case by (simp add: io_simps)
next
  case (Suc n)
  let ?s = "s\<lparr>w_trace := w_trace s @ [Connect, Sleep 1]\<rparr>"
  have "\<not> daemon_up E (w_trace ?s @ attempts k)" for k
    using Suc.prems [rule_format, of "Suc k"] by simp
  then obtain s' where "wait_daemon n E ?s = (Inl OutOfFuel, s')" using Suc.IH by blast
  moreover have "\<not> daemon_up E (w_trace s)" using Suc.prems [rule_format, of 0] by simp
  ultimately show ?case by (simp add: ezm_deamon_is_running_def io_simps)
qed

lemma topology_command: "create_cmd SECTION_TOPOLOGY TOPOLOGY_S2 None s = (Inr (Some ''td s2\<newline>''), s)"
proof -
  have "section_actions ! 9 = (topology_action_cmd, 19)" "section_mapping_cmd ! 9 = ''td''"
    "topology_action_cmd ! 2 = ''s2''" "length topology_action_cmd = 19"
    by code_simp+
  then show ?thesis by (simp add: create_cmd_def io_simps)
qed

lemma emt_topology_reads:
  assumes "\<forall>r \<in> set rs. reported_ok r" "CHR ''Q'' \<notin> set trailer"
    "emt_recv E (w_trace s) ''td s2\<newline>'' = mesh_text rs trailer" "w_topo_flags s = (False, False)"
    "topology_handler (False, False) (mesh_text rs trailer) = Inr ((False, False), ds)"
  shows "emt_topology E TOPOLOGY_S2 None s = (Inr ds, s\<lparr>w_trace := w_trace s @ [Emt ''td s2\<newline>'']\<rparr>)"
proof -
  have "s\<lparr>w_trace := t, w_topo_flags := (False, False)\<rparr> = s\<lparr>w_trace := t\<rparr>" for t
    using assms(4) by (cases s) simp
  then show ?thesis
    using assms(3-5)
    by (simp add: emt_topology_def emt_send_cmd_def topology_command io_simps)
qed

section \<open>Properties\<close>

text \<open>
  A command for the mesh daemon. For every section, an action at or above the bound gives
  NULL; an action of its enumeration gives the line made of the two names and the arguments; and
  the tables are read outside their ends exactly for negative actions and, as the service
  priorities are checked against the number of sections, for their actions 6 to 18.
\<close>

theorem create_cmd_spec:
  assumes "sec < SECTION_MAX" "case args of None \<Rightarrow> True | Some a \<Rightarrow> length a \<le> 160"
  shows "create_cmd sec action args s =
    (if snd (section_actions ! sec) \<le> sint action then (Inr None, s)
     else if sint action < 0 \<or> (sec = SECTION_SERVICE_PRIORITY \<and> 6 \<le> sint action) then (Inl OutOfBounds, s)
     else (Inr (Some (section_mapping_cmd ! sec @ '' '' @ fst (section_actions ! sec) ! nat (sint action) @
       (case args of None \<Rightarrow> [] | Some a \<Rightarrow> '' '' @ a) @ ''\<newline>'')), s))"
proof (cases "snd (section_actions ! sec) \<le> sint action \<or> sint action < 0 \<or>
    int (length (fst (section_actions ! sec))) \<le> sint action")
  case True
  then show ?thesis using assms(1) tables_complete
    by (cases "sec = SECTION_SERVICE_PRIORITY") (auto simp: create_cmd_def Let_def io_simps split: prod.split)
next
  case False
  then have i: "nat (sint action) < length (fst (section_actions ! sec))" by auto
  then have "length (fst (section_actions ! sec) ! nat (sint action)) \<le> 17"
    using names_short(2) assms(1) by (meson nth_mem)
  moreover have "length (section_mapping_cmd ! sec) \<le> 15" using names_short(1) assms(1) by blast
  ultimately show ?thesis using False assms tables_complete(4,5)
    by (cases args) (auto simp: create_cmd_def Let_def io_simps split: prod.split)
qed

theorem create_cmd_spec_witness:
  "create_cmd SECTION_SERVICE_PRIORITY 6 None () = (Inl OutOfBounds, ()) \<and>
   create_cmd SECTION_SERVICE_PRIORITY 1 (Some ''x'') () = (Inr (Some ''sp bsp x\<newline>''), ())"
proof -
  have t: "snd (section_actions ! 8) = 19" "section_mapping_cmd ! 8 = ''sp''"
    "fst (section_actions ! 8) ! 1 = ''bsp''" by code_simp+
  show ?thesis
    using create_cmd_spec [of 8 None 6 "()"] create_cmd_spec [of 8 "Some ''x''" 1 "()"] t by simp
qed

text \<open>
  C11: waiting for the mesh daemon. If the daemon answers at the k-th attempt for the first time,
  every fuel above k gives the same run, which tries and sleeps k times and then returns; and
  the loop returns for some fuel exactly if the daemon answers at some attempt.
\<close>

theorem wait_daemon_returns:
  assumes "daemon_up_at E (w_trace s) k"
  shows "(\<forall>n. k < n \<longrightarrow>
      wait_daemon n E s = (Inr (), s\<lparr>w_trace := w_trace s @ attempts k @ [Connect]\<rparr>)) \<and>
    (\<forall>t. (\<exists>n t'. wait_daemon n E t = (Inr (), t')) \<longleftrightarrow> (\<exists>i. daemon_up E (w_trace t @ attempts i)))"
proof (intro conjI allI impI)
  fix n assume "k < n"
  then show "wait_daemon n E s = (Inr (), s\<lparr>w_trace := w_trace s @ attempts k @ [Connect]\<rparr>)"
    by (rule wait_daemon_up [OF assms])
next
  fix t
  show "(\<exists>n t'. wait_daemon n E t = (Inr (), t')) \<longleftrightarrow> (\<exists>i. daemon_up E (w_trace t @ attempts i))"
  proof
    assume "\<exists>n t'. wait_daemon n E t = (Inr (), t')"
    then obtain n t' where run: "wait_daemon n E t = (Inr (), t')" by blast
    show "\<exists>i. daemon_up E (w_trace t @ attempts i)"
    proof (rule ccontr)
      assume "\<not> (\<exists>i. daemon_up E (w_trace t @ attempts i))"
      then obtain t'' where "wait_daemon n E t = (Inl OutOfFuel, t'')"
        using wait_daemon_down [of E t n] by blast
      then show False using run by simp
    qed
  next
    assume "\<exists>i. daemon_up E (w_trace t @ attempts i)"
    then have "daemon_up_at E (w_trace t) (LEAST i. daemon_up E (w_trace t @ attempts i))"
      unfolding daemon_up_at_def by (metis (mono_tags, lifting) LeastI not_less_Least)
    then show "\<exists>n t'. wait_daemon n E t = (Inr (), t')"
      using wait_daemon_up [OF _ lessI] by blast
  qed
qed

text \<open>A daemon that comes up after four actions.\<close>

theorem wait_daemon_returns_witness:
  "wait_daemon 10 (quiet_env\<lparr>daemon_up := (\<lambda>h. length h \<ge> 4)\<rparr>) empty_world =
    (Inr (), empty_world\<lparr>w_trace := [Connect, Sleep 1, Connect, Sleep 1, Connect]\<rparr>)"
proof -
  have "daemon_up_at (quiet_env\<lparr>daemon_up := (\<lambda>h. length h \<ge> 4)\<rparr>) (w_trace empty_world) 2"
    by (auto simp: daemon_up_at_def numeral_2_eq_2 less_Suc_eq_0_disj)
  from wait_daemon_returns [OF this] show ?thesis by (simp add: numeral_2_eq_2)
qed

text \<open>
  The pairing checks. When the daemon's answer to the topology command is the text of a list
  of devices, the check for a new device is true exactly if there are more than before, the
  check for a removed one exactly if there are fewer, and both send that one command.
\<close>

theorem pairing_checks:
  assumes "\<forall>r \<in> set rs. reported_ok r" "CHR ''Q'' \<notin> set trailer"
    "emt_recv E (w_trace s) ''td s2\<newline>'' = mesh_text rs trailer" "w_topo_flags s = (False, False)"
  shows "add_device_check E prev s =
      (Inr (if length rs > prev then 1 else 0), s\<lparr>w_trace := w_trace s @ [Emt ''td s2\<newline>'']\<rparr>) \<and>
    remove_device_check E prev s =
      (Inr (if length rs < prev then 1 else 0), s\<lparr>w_trace := w_trace s @ [Emt ''td s2\<newline>'']\<rparr>)"
proof -
  have l: "length (mesh_devices rs) = length rs" by (cases rs) (simp_all add: mesh_devices_def)
  have "emt_topology E TOPOLOGY_S2 None s =
      (Inr (mesh_devices rs), s\<lparr>w_trace := w_trace s @ [Emt ''td s2\<newline>'']\<rparr>)"
    by (rule emt_topology_reads [OF assms mesh_text_read [OF assms(1,2)]])
  then show ?thesis
    unfolding add_device_check_def remove_device_check_def by (simp add: io_simps l)
qed

theorem pairing_checks_witness:
  "add_device_check (quiet_env\<lparr>emt_recv := (\<lambda>h c. mesh_text [demo_reported ''AA''] ''end'')\<rparr>) 0 empty_world =
    (Inr 1, empty_world\<lparr>w_trace := [Emt ''td s2\<newline>'']\<rparr>)"
proof -
  let ?E = "quiet_env\<lparr>emt_recv := (\<lambda>h c. mesh_text [demo_reported ''AA''] ''end'')\<rparr>"
  have "\<forall>r \<in> set [demo_reported ''AA'']. reported_ok r"
    by (simp add: reported_ok_def demo_reported_def channel_text_def digit_facts)
  moreover have "CHR ''Q'' \<notin> set ''end''" "w_topo_flags empty_world = (False, False)"
    by (simp_all add: empty_world_def)
  ultimately show ?thesis
    using pairing_checks [of "[demo_reported ''AA'']" "''end''" ?E empty_world 0] by simp
qed

end
