(* ===== verification/Lan.thy ===== *)
theory Lan
  imports ErrorCode
begin

text \<open>
  \<open>src/core/network/lan/lan.c\<close> and \<open>src/core/network/wan/wan.c\<close>: the two interface settings,
  their JSON form, the setting files and the commands that apply them.
\<close>

section \<open>LAN\<close>

record lan_t =
  lan_bridge_ap_mode :: bool
  lan_proto :: cptr
  lan_ipaddr :: cptr
  lan_netmask :: cptr

definition cvt_lan_to_json :: "'j cjson_lib \<Rightarrow> lan_t \<Rightarrow> 'j option" where
  "cvt_lan_to_json L lan =
     (let json = cJSON_CreateObject L;
          json = cJSON_AddBoolToObject L json ''bridge_ap_mode'' (lan_bridge_ap_mode lan);
          json = cJSON_AddStringToObject L json ''proto'' (lan_proto lan);
          json = cJSON_AddStringToObject L json ''ipaddr'' (lan_ipaddr lan)
      in cJSON_AddStringToObject L json ''netmask'' (lan_netmask lan))"

definition cvt_json_to_lan :: "'j cjson_lib \<Rightarrow> 'j option \<Rightarrow> lan_t" where
  "cvt_json_to_lan L json =
     \<lparr>lan_bridge_ap_mode = cJSON_IsTrue L (cJSON_GetObjectItemCaseSensitive L json ''bridge_ap_mode''),
      lan_proto = json_str L json ''proto'',
      lan_ipaddr = json_str L json ''ipaddr'',
      lan_netmask = json_str L json ''netmask''\<rparr>"

definition lan_save_to_setting_file :: "'j env \<Rightarrow> lan_t \<Rightarrow> ('j, c_int) wio" where
  "lan_save_to_setting_file E lan =
     io_bind (io_deref (cJSON_Print (cj E) (cvt_lan_to_json (cj E) lan))) (\<lambda>lan_str.
     io_bind (write_data E lan_str (lan_setting_file (get_config E)) TRUNCATE) (\<lambda>ret.
     io_ret (if ret = -1 then ERR_INTERNAL_SERVER else ERR_SUCCESS)))"

definition lan_get_from_lan_setting_file :: "'j env \<Rightarrow> ('j, c_int \<times> lan_t) wio" where
  "lan_get_from_lan_setting_file E =
     io_bind (read_data (lan_setting_file (get_config E))) (\<lambda>lan_str.
     io_ret (ERR_SUCCESS, cvt_json_to_lan (cj E) (cJSON_Parse (cj E) lan_str)))"

definition lan_set :: "'j env \<Rightarrow> lan_t \<Rightarrow> ('j, c_int) wio" where
  "lan_set E lan =
     io_then
       (if lan_bridge_ap_mode lan then
          (if app_strstr (lan_proto lan) (Some ''dhcp'') \<noteq> None
           then io_void (app_uci_set E (Some ''network.lan.proto'') (Some ''dhcp''))
           else io_seq
             [io_void (app_uci_set E (Some ''network.lan.ipaddr'') (lan_ipaddr lan)),
              io_void (app_uci_set E (Some ''network.lan.netmask'') (lan_netmask lan)),
              io_void (app_uci_set E (Some ''network.lan.proto'') (lan_proto lan))])
        else io_seq
          [io_void (app_uci_set E (Some ''network.lan.ipaddr'') (lan_ipaddr lan)),
           io_void (app_uci_set E (Some ''network.lan.netmask'') (lan_netmask lan)),
           io_void (app_uci_set E (Some ''network.lan.proto'') (lan_proto lan))])
     (io_bind (lan_save_to_setting_file E lan) (\<lambda>err.
      if err \<noteq> ERR_SUCCESS then io_ret err
      else io_then (app_uci_commit E (Some ''network'')) (io_ret ERR_SUCCESS)))"

definition lan_get :: "'j env \<Rightarrow> ('j, c_int \<times> lan_t) wio" where
  "lan_get E = lan_get_from_lan_setting_file E"

definition lan_reload_from_setting_file :: "'j env \<Rightarrow> ('j, c_int) wio" where
  "lan_reload_from_setting_file E =
     io_bind (lan_get_from_lan_setting_file E) (\<lambda>(err, lan).
     if err \<noteq> ERR_SUCCESS then io_ret err else lan_set E lan)"

section \<open>WAN\<close>

record wan_t =
  wan_proto :: cptr
  wan_ipaddr :: cptr

definition cvt_wan_to_json :: "'j cjson_lib \<Rightarrow> wan_t \<Rightarrow> 'j option" where
  "cvt_wan_to_json L wan =
     (let json = cJSON_CreateObject L;
          json = cJSON_AddStringToObject L json ''proto'' (wan_proto wan)
      in cJSON_AddStringToObject L json ''ipaddr'' (wan_ipaddr wan))"

definition cvt_json_to_wan :: "'j cjson_lib \<Rightarrow> 'j option \<Rightarrow> wan_t" where
  "cvt_json_to_wan L json =
     \<lparr>wan_proto = json_str L json ''proto'', wan_ipaddr = json_str L json ''ipaddr''\<rparr>"

definition wan_save_to_setting_file :: "'j env \<Rightarrow> wan_t \<Rightarrow> ('j, c_int) wio" where
  "wan_save_to_setting_file E wan =
     io_bind (io_deref (cJSON_Print (cj E) (cvt_wan_to_json (cj E) wan))) (\<lambda>wan_str.
     io_bind (write_data E wan_str (wan_setting_file (get_config E)) TRUNCATE) (\<lambda>ret.
     io_ret (if ret = -1 then ERR_INTERNAL_SERVER else ERR_SUCCESS)))"

definition wan_get_from_setting_file :: "'j env \<Rightarrow> ('j, c_int \<times> wan_t) wio" where
  "wan_get_from_setting_file E =
     io_bind (read_data (wan_setting_file (get_config E))) (\<lambda>wan_str.
     io_ret (ERR_SUCCESS, cvt_json_to_wan (cj E) (cJSON_Parse (cj E) wan_str)))"

definition wan_set :: "'j env \<Rightarrow> wan_t \<Rightarrow> ('j, c_int) wio" where
  "wan_set E wan =
     io_then (app_uci_set E (Some ''network.wan.proto'') (wan_proto wan))
     (io_then (app_uci_set E (Some ''network.wan.ipaddr'') (wan_ipaddr wan))
     (io_bind (wan_save_to_setting_file E wan) (\<lambda>err.
      if err \<noteq> ERR_SUCCESS then io_ret err
      else io_then (app_uci_commit E (Some ''network'')) (io_ret ERR_SUCCESS))))"

definition wan_get :: "'j env \<Rightarrow> ('j, c_int \<times> wan_t) wio" where
  "wan_get E = wan_get_from_setting_file E"

definition wan_reload_from_setting_file :: "'j env \<Rightarrow> ('j, c_int) wio" where
  "wan_reload_from_setting_file E =
     io_bind (wan_get_from_setting_file E) (\<lambda>(err, wan).
     if err \<noteq> ERR_SUCCESS then io_ret err else wan_set E wan)"

section \<open>The setting files\<close>

lemma json_true_Add [json_simps]:
  assumes "cjson_ok L" "cJSON_GetObjectItemCaseSensitive L j k = cJSON_CreateBool L b"
  shows "cJSON_IsTrue L (cJSON_GetObjectItemCaseSensitive L j k) = b"
  using assms by (simp add: json_simps)

lemma lan_json_roundtrip:
  assumes "cjson_ok L"
  shows "cvt_json_to_lan L (cvt_lan_to_json L lan) = lan"
  using assms by (simp add: cvt_json_to_lan_def cvt_lan_to_json_def Let_def json_simps)

lemma wan_json_roundtrip:
  assumes "cjson_ok L"
  shows "cvt_json_to_wan L (cvt_wan_to_json L wan) = wan"
  using assms by (simp add: cvt_json_to_wan_def cvt_wan_to_json_def Let_def json_simps)

lemma lan_json_object: "cjson_ok L \<Longrightarrow> cJSON_IsObject L (cvt_lan_to_json L lan)"
  by (simp add: cvt_lan_to_json_def Let_def json_simps)

lemma wan_json_object: "cjson_ok L \<Longrightarrow> cJSON_IsObject L (cvt_wan_to_json L wan)"
  by (simp add: cvt_wan_to_json_def Let_def json_simps)

interpretation lan_file: setting_file cvt_lan_to_json cvt_json_to_lan "\<lambda>_. True" lan_setting_file
  lan_save_to_setting_file lan_get_from_lan_setting_file
  by unfold_locales
    (auto simp: lan_save_to_setting_file_def lan_get_from_lan_setting_file_def lan_json_roundtrip
      intro: IsObject_Some lan_json_object)

interpretation wan_file: setting_file cvt_wan_to_json cvt_json_to_wan "\<lambda>_. True" wan_setting_file
  wan_save_to_setting_file wan_get_from_setting_file
  by unfold_locales
    (auto simp: wan_save_to_setting_file_def wan_get_from_setting_file_def wan_json_roundtrip
      intro: IsObject_Some wan_json_object)

section \<open>Applying a setting\<close>

text \<open>
  The shape that applying a setting has in both components: run the commands \<open>t\<close>, save, and
  commit only what was saved.
\<close>

lemma apply_save_commit:
  assumes cmds: "emits E m t" and commit: "emits E c u"
    and io: "\<not> w_lock s" "path (get_config E) = Some p" "writable E p" "sh_keeps E p"
    and save: "\<And>s. \<not> w_lock s \<Longrightarrow>
      \<exists>str. save s = (Inr ERR_SUCCESS, s\<lparr>w_files := (w_files s)(p := Some str)\<rparr>) \<and> good str"
  shows "\<exists>s' str. io_then m (io_bind save (\<lambda>err. if err \<noteq> ERR_SUCCESS then io_ret err
      else io_then c (io_ret ERR_SUCCESS))) s = (Inr ERR_SUCCESS, s') \<and>
    w_trace s' = w_trace s @ t @ u \<and> \<not> w_lock s' \<and> w_files s' p = Some str \<and> good str"
proof -
  obtain x s1 where 1: "m s = (Inr x, s1)" "w_trace s1 = w_trace s @ t" "same_frame s s1"
    by (rule emitsD [OF cmds, where s = s])
  then have nl: "\<not> w_lock s1" using io(1) by (simp add: same_frame_def)
  obtain str where str: "save s1 = (Inr ERR_SUCCESS, s1\<lparr>w_files := (w_files s1)(p := Some str)\<rparr>)"
    "good str"
    using save [OF nl] by blast
  let ?s2 = "s1\<lparr>w_files := (w_files s1)(p := Some str)\<rparr>"
  obtain y s3 where 3: "c ?s2 = (Inr y, s3)" "w_trace s3 = w_trace ?s2 @ u" "same_frame ?s2 s3"
    "\<forall>q. sh_keeps E q \<longrightarrow> w_files s3 q = w_files ?s2 q"
    by (rule emitsD [OF commit, where s = ?s2])
  have "w_files s3 p = Some str" using 3(4) io(4) by simp
  with 1 str 3 nl show ?thesis by (simp add: io_simps same_frame_def)
qed

text \<open>The commands that apply a LAN setting.\<close>

definition lan_commands :: "lan_t \<Rightarrow> event list" where
  "lan_commands lan =
     (if lan_bridge_ap_mode lan \<and> app_strstr (lan_proto lan) (Some ''dhcp'') \<noteq> None
      then [ExecT 2000 ''uci set network.lan.proto=dhcp'']
      else [ExecT 2000 (''uci set network.lan.ipaddr='' @ the (lan_ipaddr lan)),
            ExecT 2000 (''uci set network.lan.netmask='' @ the (lan_netmask lan)),
            ExecT 2000 (''uci set network.lan.proto='' @ the (lan_proto lan))])"

definition short_string :: "cptr \<Rightarrow> bool" where
  "short_string p \<longleftrightarrow> (\<exists>x. p = Some x \<and> length x < 120)"

definition lan_complete :: "lan_t \<Rightarrow> bool" where
  "lan_complete lan \<longleftrightarrow>
     short_string (lan_ipaddr lan) \<and> short_string (lan_netmask lan) \<and> short_string (lan_proto lan)"

lemma emits_uci_set_short:
  assumes "short_string v" "length a < 60"
  shows "emits E (app_uci_set E (Some a) v) [ExecT 2000 (''uci set '' @ a @ ''='' @ the v)]"
proof -
  obtain x where x: "v = Some x" "length x < 120" using assms(1) by (auto simp: short_string_def)
  then show ?thesis using emits_uci_set [of a x E] assms(2) by simp
qed

lemma lan_set_ok:
  assumes "cjson_ok (cj E)" "lan_complete lan" "\<not> w_lock s" "lan_setting_file (get_config E) = Some p"
    "writable E p" "sh_keeps E p"
  shows "\<exists>s'. lan_set E lan s = (Inr ERR_SUCCESS, s') \<and>
    w_trace s' = w_trace s @ lan_commands lan @ [ExecT 2000 ''uci commit network''] \<and>
    lan_get E s' = (Inr (ERR_SUCCESS, lan), s')"
proof -
  let ?set = "\<lambda>a v. io_void (app_uci_set E (Some a) v)"
  let ?m = "if lan_bridge_ap_mode lan then
          (if app_strstr (lan_proto lan) (Some ''dhcp'') \<noteq> None
           then ?set ''network.lan.proto'' (Some ''dhcp'')
           else io_seq [?set ''network.lan.ipaddr'' (lan_ipaddr lan),
              ?set ''network.lan.netmask'' (lan_netmask lan), ?set ''network.lan.proto'' (lan_proto lan)])
        else io_seq [?set ''network.lan.ipaddr'' (lan_ipaddr lan),
           ?set ''network.lan.netmask'' (lan_netmask lan), ?set ''network.lan.proto'' (lan_proto lan)]"
  have sets: "emits E (io_seq [?set ''network.lan.ipaddr'' (lan_ipaddr lan),
      ?set ''network.lan.netmask'' (lan_netmask lan), ?set ''network.lan.proto'' (lan_proto lan)])
    [ExecT 2000 (''uci set network.lan.ipaddr='' @ the (lan_ipaddr lan)),
     ExecT 2000 (''uci set network.lan.netmask='' @ the (lan_netmask lan)),
     ExecT 2000 (''uci set network.lan.proto='' @ the (lan_proto lan))]"
    using assms(2) unfolding lan_complete_def
    by (intro emits_eqI [OF emits_seq_Cons [OF emits_void [OF emits_uci_set_short]
          emits_seq_Cons [OF emits_void [OF emits_uci_set_short]
            emits_seq_Cons [OF emits_void [OF emits_uci_set_short] emits_seq_Nil]]]]) simp_all
  have dhcp: "emits E (?set ''network.lan.proto'' (Some ''dhcp''))
    [ExecT 2000 ''uci set network.lan.proto=dhcp'']"
    by (intro emits_eqI [OF emits_void [OF emits_uci_set]]) simp_all
  have cmds: "emits E ?m (lan_commands lan)"
    using sets dhcp by (simp add: lan_commands_def)
  have commit: "emits E (app_uci_commit E (Some ''network'')) [ExecT 2000 ''uci commit network'']"
    by (intro emits_eqI [OF emits_uci_commit]) simp_all
  have save: "\<exists>str. lan_save_to_setting_file E lan t =
      (Inr ERR_SUCCESS, t\<lparr>w_files := (w_files t)(p := Some str)\<rparr>) \<and>
      cJSON_Parse (cj E) (Some str) = cvt_lan_to_json (cj E) lan" if "\<not> w_lock t" for t
    using lan_file.save_ok [OF assms(1) that assms(4,5)] by blast
  obtain s' str where s': "lan_set E lan s = (Inr ERR_SUCCESS, s')"
    "w_trace s' = w_trace s @ lan_commands lan @ [ExecT 2000 ''uci commit network'']"
    "\<not> w_lock s'" "w_files s' p = Some str" "cJSON_Parse (cj E) (Some str) = cvt_lan_to_json (cj E) lan"
    using apply_save_commit [where path = lan_setting_file and
        good = "\<lambda>str. cJSON_Parse (cj E) (Some str) = cvt_lan_to_json (cj E) lan",
        OF cmds commit assms(3-6) save] unfolding lan_set_def by blast
  have "lan_get E s' = (Inr (ERR_SUCCESS, lan), s')"
    using s' assms(4) lan_json_roundtrip [OF assms(1)]
    by (simp add: lan_get_def lan_get_from_lan_setting_file_def io_simps)
  with s' show ?thesis by blast
qed

end
