(* ===== verification/Route.thy ===== *)
theory Route
  imports Lan Config
begin

text \<open>
  \<open>src/core/network/route/route.c\<close>: the static routes, their setting file, and the commands that
  bring the kernel's table in line with it. A \<open>route_list_t\<close> is a list; the deletion, which moves
  elements inside the array and keeps the count apart, is written over the array and the count.
\<close>

record route_t =
  route_id :: cptr
  route_interface :: cptr
  route_ip_mask :: cptr
  route_target_ip :: cptr
  route_name :: cptr

section \<open>JSON\<close>

definition cvt_route_to_json :: "'j cjson_lib \<Rightarrow> route_t \<Rightarrow> 'j option" where
  "cvt_route_to_json L route =
     (let json = cJSON_CreateObject L;
          json = cJSON_AddStringToObject L json ''id'' (route_id route);
          json = cJSON_AddStringToObject L json ''interface'' (route_interface route);
          json = cJSON_AddStringToObject L json ''ip_mask'' (route_ip_mask route);
          json = cJSON_AddStringToObject L json ''target_ip'' (route_target_ip route)
      in cJSON_AddStringToObject L json ''name'' (route_name route))"

definition cvt_json_to_route :: "'j cjson_lib \<Rightarrow> 'j option \<Rightarrow> route_t" where
  "cvt_json_to_route L json =
     \<lparr>route_id = json_str L json ''id'',
      route_interface = json_str L json ''interface'',
      route_ip_mask = json_str L json ''ip_mask'',
      route_target_ip = json_str L json ''target_ip'',
      route_name = json_str L json ''name''\<rparr>"

definition cvt_route_list_to_json :: "'j cjson_lib \<Rightarrow> route_t list \<Rightarrow> 'j option" where
  "cvt_route_list_to_json L route_list = json_array L (map (cvt_route_to_json L) route_list)"

definition cvt_json_to_route_list :: "'j cjson_lib \<Rightarrow> 'j option \<Rightarrow> route_t list" where
  "cvt_json_to_route_list L json = map (cvt_json_to_route L) (json_items L json)"

section \<open>Setting file\<close>

definition route_save_to_setting_file :: "'j env \<Rightarrow> route_t list \<Rightarrow> ('j, c_int) wio" where
  "route_save_to_setting_file E route_list =
     io_bind (io_deref (cJSON_Print (cj E) (cvt_route_list_to_json (cj E) route_list))) (\<lambda>str.
     io_bind (write_data E str (route_setting_file (get_config E)) TRUNCATE) (\<lambda>ret.
     io_ret (if ret = -1 then ERR_INTERNAL_SERVER else ERR_SUCCESS)))"

definition route_request_from_setting_file :: "'j env \<Rightarrow> ('j, c_int \<times> route_t list) wio" where
  "route_request_from_setting_file E =
     io_bind (read_data (route_setting_file (get_config E))) (\<lambda>str.
     io_ret (ERR_SUCCESS, cvt_json_to_route_list (cj E) (cJSON_Parse (cj E) str)))"

definition route_request :: "'j env \<Rightarrow> ('j, c_int \<times> route_t list) wio" where
  "route_request E = route_request_from_setting_file E"

section \<open>Operations\<close>

text \<open>\<open>sprintf (cmd, "ip route add|del ...")\<close> for one route.\<close>

definition ip_route_cmd :: "string \<Rightarrow> route_t \<Rightarrow> ('j, string) wio" where
  "ip_route_cmd verb r =
     io_bind (fmt_s (route_ip_mask r)) (\<lambda>m.
     io_bind (fmt_s (route_target_ip r)) (\<lambda>t.
     io_bind (fmt_s (route_interface r)) (\<lambda>i.
     sprintf_buf 200 (''ip route '' @ verb @ '' '' @ m @ '' via '' @ t @ '' dev '' @ i))))"

definition route_create_one :: "'j env \<Rightarrow> route_t list \<Rightarrow> route_t \<Rightarrow> ('j, route_t list) wio" where
  "route_create_one E acc r =
     io_bind (uuid_gen E (Some ''route'')) (\<lambda>new_id.
     io_bind (ip_route_cmd ''add'' (r\<lparr>route_id := new_id\<rparr>)) (\<lambda>cmd.
     io_then (execl_non_timeout E cmd) (io_ret (acc @ [r\<lparr>route_id := new_id\<rparr>]))))"

definition route_create :: "'j env \<Rightarrow> route_t list \<Rightarrow> ('j, c_int \<times> route_t list) wio" where
  "route_create E route_list_create =
     io_bind (route_request_from_setting_file E) (\<lambda>(err, setting).
     if err \<noteq> ERR_SUCCESS then io_ret (err, setting)
     else io_bind
       (io_fold (route_create_one E) setting route_list_create) (\<lambda>setting'.
     io_bind (route_save_to_setting_file E setting') (\<lambda>err. io_ret (err, setting'))))"

text \<open>Identifiers match when the stored one occurs in the given one.\<close>

definition route_match :: "route_t \<Rightarrow> route_t \<Rightarrow> bool" where
  "route_match given stored \<longleftrightarrow> app_strstr (route_id given) (route_id stored) \<noteq> None"

definition route_update_one ::
  "'j env \<Rightarrow> route_t list \<times> bool \<Rightarrow> route_t \<Rightarrow> ('j, route_t list \<times> bool) wio" where
  "route_update_one E acc upd =
     (case acc of (routes, found) \<Rightarrow>
        (case first_index (route_match upd) routes of
           None \<Rightarrow> io_ret (routes, found)
         | Some j \<Rightarrow>
             io_bind (ip_route_cmd ''del'' (routes ! j)) (\<lambda>del.
             io_then (execl_timeout E 2000 del)
             (io_bind (ip_route_cmd ''add'' upd) (\<lambda>add.
              io_then (execl_non_timeout E add)
              (io_ret (routes[j := upd], True)))))))"

definition route_update :: "'j env \<Rightarrow> route_t list \<Rightarrow> ('j, c_int \<times> route_t list) wio" where
  "route_update E route_list_update =
     io_bind (route_request_from_setting_file E) (\<lambda>(err, setting).
     if err \<noteq> ERR_SUCCESS then io_ret (err, setting)
     else io_bind
       (io_fold (route_update_one E)
        (setting, False) route_list_update) (\<lambda>(routes, found_id).
     if \<not> found_id then io_ret (ERR_ID_MISMATCHED, routes)
     else io_bind (route_save_to_setting_file E routes) (\<lambda>err. io_ret (err, routes))))"

text \<open>
  Deletion runs \<open>ip route del\<close> with the fields of the request. The search and the \<open>memmove\<close> go over
  the number of routes there were at the start, and the count is set to one less than that,
  however many routes are deleted.
\<close>

definition route_delete_match :: "route_t \<Rightarrow> route_t \<Rightarrow> bool" where
  "route_delete_match given stored \<longleftrightarrow>
     route_id stored \<noteq> None \<and> route_id given \<noteq> None \<and>
     app_strstr (route_id given) (route_id stored) \<noteq> None"

definition route_delete_one ::
  "'j env \<Rightarrow> nat \<Rightarrow> route_t list \<times> nat \<times> bool \<Rightarrow> route_t \<Rightarrow> ('j, route_t list \<times> nat \<times> bool) wio" where
  "route_delete_one E nb_routes_setting acc del =
     (case acc of (routes, nb, found) \<Rightarrow>
        (case first_index (route_delete_match del) (take nb_routes_setting routes) of
           None \<Rightarrow> io_ret (routes, nb, found)
         | Some j \<Rightarrow>
             io_bind (ip_route_cmd ''del'' del) (\<lambda>cmd.
             io_then (execl_non_timeout E cmd)
             (io_ret (memmove_down j nb_routes_setting routes, nb_routes_setting - 1, True)))))"

definition route_delete :: "'j env \<Rightarrow> route_t list \<Rightarrow> ('j, c_int \<times> route_t list) wio" where
  "route_delete E route_list_delete =
     io_bind (route_request_from_setting_file E) (\<lambda>(err, setting).
     if err \<noteq> ERR_SUCCESS then io_ret (err, setting)
     else (let nb_routes_setting = length setting in
     io_bind
       (io_fold (route_delete_one E nb_routes_setting)
        (setting, nb_routes_setting, False) route_list_delete) (\<lambda>(routes, nb, found_id).
     io_bind (route_save_to_setting_file E (take nb routes)) (\<lambda>err.
     io_ret (if err \<noteq> ERR_SUCCESS then err
             else if \<not> found_id then ERR_ID_MISMATCHED else ERR_SUCCESS, take nb routes)))))"

section \<open>The setting file holds what was saved\<close>

lemma route_json_roundtrip:
  assumes "cjson_ok L"
  shows "cvt_json_to_route L (cvt_route_to_json L r) = r"
  using assms by (simp add: cvt_json_to_route_def cvt_route_to_json_def Let_def json_simps)

lemma route_json_object: "cjson_ok L \<Longrightarrow> cJSON_IsObject L (cvt_route_to_json L r)"
  by (simp add: cvt_route_to_json_def Let_def json_simps)

lemma route_list_json_roundtrip:
  assumes "cjson_ok L"
  shows "cvt_json_to_route_list L (cvt_route_list_to_json L rs) = rs"
  unfolding cvt_json_to_route_list_def cvt_route_list_to_json_def
  using assms IsObject_Some [OF route_json_object [OF assms]]
  by (intro json_list_roundtrip) (auto simp: route_json_roundtrip)

lemma route_list_json_array: "cjson_ok L \<Longrightarrow> cJSON_IsArray L (cvt_route_list_to_json L rs)"
  by (simp add: cvt_route_list_to_json_def json_simps)

interpretation route_file: setting_file cvt_route_list_to_json cvt_json_to_route_list "\<lambda>_. True"
  route_setting_file route_save_to_setting_file route_request_from_setting_file
  by unfold_locales
    (auto simp: route_save_to_setting_file_def route_request_from_setting_file_def
      route_list_json_roundtrip intro: IsArray_Some route_list_json_array)

section \<open>What the operations do\<close>

text \<open>The routes that are in the setting file.\<close>

definition stored_routes :: "'j env \<Rightarrow> 'j world \<Rightarrow> route_t list \<Rightarrow> bool" where
  "stored_routes E s rs \<longleftrightarrow>
     \<not> w_lock s \<and>
     (\<exists>p str. route_setting_file (get_config E) = Some p \<and> w_files s p = Some str \<and>
        writable E p \<and> sh_keeps E p \<and>
        cvt_json_to_route_list (cj E) (cJSON_Parse (cj E) (Some str)) = rs)"

lemma stored_routes_request:
  "stored_routes E s rs \<Longrightarrow> route_request_from_setting_file E s = (Inr (ERR_SUCCESS, rs), s)"
  by (auto simp: stored_routes_def route_request_from_setting_file_def io_simps)

lemma stored_routes_save:
  assumes "cjson_ok (cj E)" "stored_routes E s rs"
  shows "\<exists>s'. route_save_to_setting_file E rs' s = (Inr ERR_SUCCESS, s') \<and>
    stored_routes E s' rs' \<and> w_trace s' = w_trace s \<and> w_uuids s' = w_uuids s"
proof -
  obtain p str where p: "\<not> w_lock s" "route_setting_file (get_config E) = Some p" "writable E p"
    "sh_keeps E p"
    using assms(2) by (auto simp: stored_routes_def)
  obtain str' where str': "cJSON_Parse (cj E) (Some str') = cvt_route_list_to_json (cj E) rs'"
    "route_save_to_setting_file E rs' s = (Inr ERR_SUCCESS, s\<lparr>w_files := (w_files s)(p := Some str')\<rparr>)"
    using route_file.save_ok [OF assms(1) p(1,2,3)] by blast
  then show ?thesis
    using p route_list_json_roundtrip [OF assms(1)] by (auto simp: stored_routes_def)
qed

lemma stored_routes_cong:
  assumes "stored_routes E s rs" "same_frame s t" "\<forall>p. sh_keeps E p \<longrightarrow> w_files t p = w_files s p"
  shows "stored_routes E t rs"
  using assms by (auto simp: stored_routes_def same_frame_def)

definition route_text :: "string \<Rightarrow> route_t \<Rightarrow> string" where
  "route_text verb r = ''ip route '' @ verb @ '' '' @ the (route_ip_mask r) @ '' via '' @
     the (route_target_ip r) @ '' dev '' @ the (route_interface r)"

definition route_complete :: "route_t \<Rightarrow> bool" where
  "route_complete r \<longleftrightarrow>
     route_ip_mask r \<noteq> None \<and> route_target_ip r \<noteq> None \<and> route_interface r \<noteq> None \<and>
     length (route_text ''add'' r) < 200"

lemma ip_route_cmd_complete:
  "route_complete r \<Longrightarrow> length verb = 3 \<Longrightarrow> ip_route_cmd verb r s = (Inr (route_text verb r), s)"
  by (auto simp: route_complete_def ip_route_cmd_def route_text_def io_simps)

lemma route_complete_id [simp]: "route_complete (r\<lparr>route_id := i\<rparr>) = route_complete r"
  "route_text verb (r\<lparr>route_id := i\<rparr>) = route_text verb r"
  by (simp_all add: route_complete_def route_text_def)

text \<open>Fresh identifiers, in order, for the routes of a request.\<close>

definition with_ids :: "'j env \<Rightarrow> nat \<Rightarrow> route_t list \<Rightarrow> route_t list" where
  "with_ids E n rs =
     map2 (\<lambda>i r. r\<lparr>route_id := Some (''route_'' @ uuid_unparse E i)\<rparr>) [n..<n + length rs] rs"

lemma with_ids_Nil [simp]: "with_ids E n [] = []"
  by (simp add: with_ids_def)

lemma with_ids_Cons [simp]:
  "with_ids E n (r # rs) = r\<lparr>route_id := Some (''route_'' @ uuid_unparse E n)\<rparr> # with_ids E (Suc n) rs"
  by (simp add: with_ids_def upt_conv_Cons del: upt_Suc)

definition uuids_fit :: "'j env \<Rightarrow> bool" where
  "uuids_fit E \<longleftrightarrow> (\<forall>n. length (uuid_unparse E n) < unat (uuid_size (get_config E)))"

lemma uuid_gen_fit:
  "uuids_fit E \<Longrightarrow>
     uuid_gen E (Some p) s = (Inr (Some (p @ ''_'' @ uuid_unparse E (w_uuids s))), s\<lparr>w_uuids := Suc (w_uuids s)\<rparr>)"
  by (simp add: uuids_fit_def uuid_gen_def io_simps)

lemma create_loop:
  assumes "uuids_fit E" "\<forall>r \<in> set rs. route_complete r"
  shows "\<exists>t. io_fold (route_create_one E) acc rs s =
    (Inr (acc @ with_ids E (w_uuids s) rs), t) \<and>
    w_trace t = w_trace s @ map (\<lambda>r. Exec (route_text ''add'' r)) rs \<and> w_lock t = w_lock s \<and>
    w_uuids t = w_uuids s + length rs \<and> (\<forall>p. sh_keeps E p \<longrightarrow> w_files t p = w_files s p)"
  using assms(2)
proof (induction rs arbitrary: acc s)
  case Nil
  then show ?case by (simp add: io_simps)
next
  case (Cons r rs)
  let ?s = "s\<lparr>w_uuids := Suc (w_uuids s)\<rparr>"
  have r: "route_complete r" using Cons.prems by simp
  obtain x u where u: "execl_non_timeout E (route_text ''add'' r) ?s = (Inr x, u)"
    "w_trace u = w_trace ?s @ [Exec (route_text ''add'' r)]" "same_frame ?s u"
    "\<forall>p. sh_keeps E p \<longrightarrow> w_files u p = w_files ?s p"
    by (rule emitsD [OF emits_execl_non_timeout, where s = ?s])
  let ?acc = "acc @ [r\<lparr>route_id := Some (''route_'' @ uuid_unparse E (w_uuids s))\<rparr>]"
  have w: "w_uuids u = Suc (w_uuids s)" "w_lock u = w_lock s" using u(3) by (simp_all add: same_frame_def)
  have "\<forall>r \<in> set rs. route_complete r" using Cons.prems by simp
  from Cons.IH [OF this, of ?acc u] w u show ?case
    by (auto simp: route_create_one_def io_simps uuid_gen_fit [OF assms(1)] ip_route_cmd_complete r)
qed

lemma route_create_ok:
  assumes "cjson_ok (cj E)" "uuids_fit E" "stored_routes E s old" "\<forall>r \<in> set new. route_complete r"
  shows "\<exists>s'. route_create E new s = (Inr (ERR_SUCCESS, old @ with_ids E (w_uuids s) new), s') \<and>
    stored_routes E s' (old @ with_ids E (w_uuids s) new) \<and>
    w_trace s' = w_trace s @ map (\<lambda>r. Exec (route_text ''add'' r)) new \<and>
    w_uuids s' = w_uuids s + length new"
proof -
  obtain t where t: "io_fold (route_create_one E) old new s =
    (Inr (old @ with_ids E (w_uuids s) new), t)"
    "w_trace t = w_trace s @ map (\<lambda>r. Exec (route_text ''add'' r)) new" "w_lock t = w_lock s"
    "w_uuids t = w_uuids s + length new" "\<forall>p. sh_keeps E p \<longrightarrow> w_files t p = w_files s p"
    using create_loop [OF assms(2,4)] by blast
  have "stored_routes E t old" using assms(3) t(3,5) by (auto simp: stored_routes_def)
  then obtain s' where "route_save_to_setting_file E (old @ with_ids E (w_uuids s) new) t = (Inr ERR_SUCCESS, s')"
    "stored_routes E s' (old @ with_ids E (w_uuids s) new)" "w_trace s' = w_trace t" "w_uuids s' = w_uuids t"
    using stored_routes_save [OF assms(1)] by blast
  with t show ?thesis
    by (simp add: route_create_def io_bind_app [of "route_request_from_setting_file E"]
        stored_routes_request [OF assms(3)] io_simps)
qed

section \<open>Update\<close>

text \<open>The effect of one requested update on the list, and its commands.\<close>

definition updated :: "route_t list \<Rightarrow> route_t \<Rightarrow> route_t list" where
  "updated rs u = (case first_index (route_match u) rs of None \<Rightarrow> rs | Some j \<Rightarrow> rs[j := u])"

definition update_events :: "route_t list \<Rightarrow> route_t \<Rightarrow> event list" where
  "update_events rs u =
     (case first_index (route_match u) rs of None \<Rightarrow> []
      | Some j \<Rightarrow> [ExecT 2000 (route_text ''del'' (rs ! j)), Exec (route_text ''add'' u)])"

definition hits :: "route_t list \<Rightarrow> route_t \<Rightarrow> bool" where
  "hits rs u \<longleftrightarrow> first_index (route_match u) rs \<noteq> None"

text \<open>Whether some update of a request finds a route, in a list that the earlier ones changed.\<close>

fun any_hit :: "route_t list \<Rightarrow> route_t list \<Rightarrow> bool" where
  "any_hit rs [] = False"
| "any_hit rs (u # us) = (hits rs u \<or> any_hit (updated rs u) us)"

fun update_trace :: "route_t list \<Rightarrow> route_t list \<Rightarrow> event list" where
  "update_trace rs [] = []"
| "update_trace rs (u # us) = update_events rs u @ update_trace (updated rs u) us"

lemma updated_complete:
  "\<forall>r \<in> set rs. route_complete r \<Longrightarrow> route_complete u \<Longrightarrow> \<forall>r \<in> set (updated rs u). route_complete r"
  by (auto simp: updated_def split: option.split dest: set_update_subset_insert [THEN subsetD])

lemma route_match_same_id:
  "route_id u = Some x \<Longrightarrow> route_id r = Some y \<Longrightarrow> length x = length y \<Longrightarrow> route_match u r \<longleftrightarrow> x = y"
  using app_strstr_same_length [of x y] by (simp add: route_match_def)

lemma update_step:
  assumes "\<forall>r \<in> set rs. route_complete r" "route_complete u"
  shows "\<exists>t. route_update_one E (rs, found) u s =
      (Inr (updated rs u, found \<or> hits rs u), t) \<and>
    w_trace t = w_trace s @ update_events rs u \<and> same_frame s t \<and>
    (\<forall>p. sh_keeps E p \<longrightarrow> w_files t p = w_files s p)"
proof (cases "first_index (route_match u) rs")
  case None
  then show ?thesis by (simp add: route_update_one_def updated_def hits_def update_events_def io_simps)
next
  case (Some j)
  then have j: "route_complete (rs ! j)" using assms(1) by (auto simp: first_index_Some)
  let ?del = "route_text ''del'' (rs ! j)" and ?add = "route_text ''add'' u"
  have "emits E (io_then (execl_timeout E 2000 ?del) (execl_non_timeout E ?add))
      ([ExecT 2000 ?del] @ [Exec ?add])"
    by (intro emits_then emits_execl_timeout emits_execl_non_timeout)
  then obtain x t where t: "io_then (execl_timeout E 2000 ?del) (execl_non_timeout E ?add) s = (Inr x, t)"
    "w_trace t = w_trace s @ ([ExecT 2000 ?del] @ [Exec ?add])" "same_frame s t"
    "\<forall>p. sh_keeps E p \<longrightarrow> w_files t p = w_files s p"
    by (rule emitsD [where s = s])
  then show ?thesis using Some j assms(2)
    by (auto simp: route_update_one_def updated_def hits_def update_events_def io_simps ip_route_cmd_complete
        split: prod.splits sum.splits)
qed

lemma update_loop:
  assumes "\<forall>r \<in> set rs. route_complete r" "\<forall>u \<in> set us. route_complete u"
  shows "\<exists>t found'. io_fold (route_update_one E) (rs, found) us s =
      (Inr (foldl updated rs us, found'), t) \<and>
    (found' \<longleftrightarrow> found \<or> any_hit rs us) \<and>
    w_trace t = w_trace s @ update_trace rs us \<and> same_frame s t \<and>
    (\<forall>p. sh_keeps E p \<longrightarrow> w_files t p = w_files s p)"
  using assms
proof (induction us arbitrary: rs found s)
  case Nil
  then show ?case by (simp add: io_simps)
next
  case (Cons u us)
  have u: "route_complete u" and us: "\<forall>u \<in> set us. route_complete u" using Cons.prems(2) by simp_all
  obtain t where t: "route_update_one E (rs, found) u s = (Inr (updated rs u, found \<or> hits rs u), t)"
    "w_trace t = w_trace s @ update_events rs u" "same_frame s t"
    "\<forall>p. sh_keeps E p \<longrightarrow> w_files t p = w_files s p"
    using update_step [OF Cons.prems(1) u, of E found s] by blast
  obtain t' found' where t': "io_fold (route_update_one E)
        (updated rs u, found \<or> hits rs u) us t = (Inr (foldl updated (updated rs u) us, found'), t')"
    "found' \<longleftrightarrow> (found \<or> hits rs u) \<or> any_hit (updated rs u) us"
    "w_trace t' = w_trace t @ update_trace (updated rs u) us" "same_frame t t'"
    "\<forall>p. sh_keeps E p \<longrightarrow> w_files t' p = w_files t p"
    using Cons.IH [OF updated_complete [OF Cons.prems(1) u] us, of "found \<or> hits rs u" t] by blast
  have "same_frame s t'" using t(3) t'(4) by (rule same_frame_trans)
  then show ?case using t t' by (simp add: io_bind_app)
qed

lemma route_update_cases:
  assumes "cjson_ok (cj E)" "stored_routes E s rs" "\<forall>r \<in> set rs. route_complete r"
    "\<forall>u \<in> set us. route_complete u"
  shows "\<exists>s'. route_update E us s =
      (Inr (if any_hit rs us then ERR_SUCCESS else ERR_ID_MISMATCHED, foldl updated rs us), s') \<and>
    stored_routes E s' (if any_hit rs us then foldl updated rs us else rs) \<and>
    w_trace s' = w_trace s @ update_trace rs us"
proof -
  obtain t found where t: "io_fold (route_update_one E) (rs, False) us s =
      (Inr (foldl updated rs us, found), t)" "found \<longleftrightarrow> any_hit rs us"
    "w_trace t = w_trace s @ update_trace rs us" "same_frame s t"
    "\<forall>p. sh_keeps E p \<longrightarrow> w_files t p = w_files s p"
    using update_loop [OF assms(3,4), of E False s] by auto
  have st: "stored_routes E t rs" using stored_routes_cong [OF assms(2) t(4,5)] .
  obtain s' where s': "route_save_to_setting_file E (foldl updated rs us) t = (Inr ERR_SUCCESS, s')"
    "stored_routes E s' (foldl updated rs us)" "w_trace s' = w_trace t"
    using stored_routes_save [OF assms(1) st] by blast
  show ?thesis
    using t s' st
    by (simp add: route_update_def io_bind_app [of "route_request_from_setting_file E"]
        stored_routes_request [OF assms(2)] io_simps)
qed

text \<open>With identifiers of one length the route that is replaced is the one with the same identifier.\<close>

definition same_length_ids :: "route_t list \<Rightarrow> bool" where
  "same_length_ids rs \<longleftrightarrow> (\<exists>n. \<forall>r \<in> set rs. \<exists>x. route_id r = Some x \<and> length x = n)"

lemma updated_replaces:
  assumes "same_length_ids (u # rs)" "distinct (map route_id rs)"
  shows "updated rs u = map (\<lambda>r. if route_id r = route_id u then u else r) rs"
proof -
  have m: "route_match u r \<longleftrightarrow> route_id r = route_id u" if "r \<in> set rs" for r
    using assms(1) that route_match_same_id [of u _ r] by (fastforce simp: same_length_ids_def)
  show ?thesis
  proof (cases "first_index (route_match u) rs")
    case None
    then have "\<forall>r \<in> set rs. route_id r \<noteq> route_id u" using m by (simp add: first_index_None)
    then show ?thesis using None by (simp add: updated_def map_idI)
  next
    case (Some j)
    then have j: "j < length rs" "route_id (rs ! j) = route_id u"
      using m by (auto simp: first_index_Some)
    have "route_id (rs ! k) = route_id u \<longleftrightarrow> k = j" if "k < length rs" for k
      using assms(2) j that by (metis distinct_conv_nth length_map nth_map)
    then show ?thesis using Some j(1)
      by (auto simp: updated_def nth_list_update intro!: nth_equalityI)
  qed
qed

section \<open>Deletion\<close>

lemma route_delete_match_same_id:
  "route_id d = Some x \<Longrightarrow> route_id r = Some y \<Longrightarrow> length x = length y \<Longrightarrow>
     route_delete_match d r \<longleftrightarrow> x = y"
  using app_strstr_same_length [of x y] by (simp add: route_delete_match_def)

text \<open>The effect of one requested deletion on the array; \<open>n\<close> is the initial number of routes.\<close>

definition removed_at :: "nat \<Rightarrow> route_t list \<Rightarrow> route_t \<Rightarrow> route_t list" where
  "removed_at n rs d =
     (case first_index (route_delete_match d) (take n rs) of None \<Rightarrow> rs | Some j \<Rightarrow> memmove_down j n rs)"

definition delete_hits :: "nat \<Rightarrow> route_t list \<Rightarrow> route_t \<Rightarrow> bool" where
  "delete_hits n rs d \<longleftrightarrow> first_index (route_delete_match d) (take n rs) \<noteq> None"

fun any_delete_hit :: "nat \<Rightarrow> route_t list \<Rightarrow> route_t list \<Rightarrow> bool" where
  "any_delete_hit n rs [] = False"
| "any_delete_hit n rs (d # ds) = (delete_hits n rs d \<or> any_delete_hit n (removed_at n rs d) ds)"

fun delete_trace :: "nat \<Rightarrow> route_t list \<Rightarrow> route_t list \<Rightarrow> event list" where
  "delete_trace n rs [] = []"
| "delete_trace n rs (d # ds) =
     (if delete_hits n rs d then [Exec (route_text ''del'' d)] else []) @
     delete_trace n (removed_at n rs d) ds"

lemma length_removed_at [simp]: "length rs = n \<Longrightarrow> length (removed_at n rs d) = n"
  by (auto simp: removed_at_def first_index_Some split: option.split)

lemma delete_loop:
  assumes "\<forall>d \<in> set ds. route_complete d" "length rs = n"
  shows "\<exists>t. io_fold (route_delete_one E n) (rs, nb, found) ds s =
      (Inr (foldl (removed_at n) rs ds, if any_delete_hit n rs ds then n - 1 else nb,
            found \<or> any_delete_hit n rs ds), t) \<and>
    w_trace t = w_trace s @ delete_trace n rs ds \<and> same_frame s t \<and>
    (\<forall>p. sh_keeps E p \<longrightarrow> w_files t p = w_files s p)"
  using assms
proof (induction ds arbitrary: rs nb found s)
  case Nil
  then show ?case by (simp add: io_simps)
next
  case (Cons d ds)
  have d: "route_complete d" and ds: "\<forall>d \<in> set ds. route_complete d" using Cons.prems(1) by simp_all
  show ?case
  proof (cases "first_index (route_delete_match d) (take n rs)")
    case None
    then have "route_delete_one E n (rs, nb, found) d s = (Inr (rs, nb, found), s)"
      by (simp add: route_delete_one_def io_simps)
    moreover have "removed_at n rs d = rs" "\<not> delete_hits n rs d"
      using None by (simp_all add: removed_at_def delete_hits_def)
    ultimately show ?thesis using Cons.IH [OF ds Cons.prems(2)] by (simp add: io_bind_app)
  next
    case (Some j)
    let ?rs = "memmove_down j n rs"
    have r: "removed_at n rs d = ?rs" "delete_hits n rs d"
      using Some by (simp_all add: removed_at_def delete_hits_def)
    obtain x t where t: "execl_non_timeout E (route_text ''del'' d) s = (Inr x, t)"
      "w_trace t = w_trace s @ [Exec (route_text ''del'' d)]" "same_frame s t"
      "\<forall>p. sh_keeps E p \<longrightarrow> w_files t p = w_files s p"
      by (rule emitsD [OF emits_execl_non_timeout, where s = s])
    have step: "route_delete_one E n (rs, nb, found) d s = (Inr (?rs, n - 1, True), t)"
      using Some t(1) by (simp add: route_delete_one_def io_simps ip_route_cmd_complete [OF d])
    have "length ?rs = n" using length_removed_at [OF Cons.prems(2), of d] r(1) by simp
    from Cons.IH [OF ds this, of "n - 1" True t] obtain u where
      "io_fold (route_delete_one E n) (?rs, n - 1, True) ds t =
         (Inr (foldl (removed_at n) ?rs ds, n - 1, True), u)"
      "w_trace u = w_trace t @ delete_trace n ?rs ds" "same_frame t u"
      "\<forall>p. sh_keeps E p \<longrightarrow> w_files u p = w_files t p"
      by auto
    then show ?thesis using step t(2-4) r same_frame_trans by (fastforce simp: io_bind_app)
  qed
qed

text \<open>
  What is left after a deletion: one route less than before when anything was found, however
  many routes the request named.
\<close>

definition left_after :: "route_t list \<Rightarrow> route_t list \<Rightarrow> route_t list" where
  "left_after rs ds =
     (let n = length rs
      in take (if any_delete_hit n rs ds then n - 1 else n) (foldl (removed_at n) rs ds))"

lemma route_delete_cases:
  assumes "cjson_ok (cj E)" "stored_routes E s rs" "\<forall>d \<in> set ds. route_complete d"
  shows "\<exists>s'. route_delete E ds s =
      (Inr (if any_delete_hit (length rs) rs ds then ERR_SUCCESS else ERR_ID_MISMATCHED,
            left_after rs ds), s') \<and>
    stored_routes E s' (left_after rs ds) \<and>
    w_trace s' = w_trace s @ delete_trace (length rs) rs ds"
proof -
  let ?n = "length rs"
  obtain t where t: "io_fold (route_delete_one E ?n) (rs, ?n, False) ds s =
      (Inr (foldl (removed_at ?n) rs ds, if any_delete_hit ?n rs ds then ?n - 1 else ?n,
            any_delete_hit ?n rs ds), t)"
    "w_trace t = w_trace s @ delete_trace ?n rs ds" "same_frame s t"
    "\<forall>p. sh_keeps E p \<longrightarrow> w_files t p = w_files s p"
    using delete_loop [OF assms(3), of rs ?n E ?n False s] by auto
  have st: "stored_routes E t rs" using stored_routes_cong [OF assms(2) t(3,4)] .
  obtain s' where "route_save_to_setting_file E (left_after rs ds) t = (Inr ERR_SUCCESS, s')"
    "stored_routes E s' (left_after rs ds)" "w_trace s' = w_trace t"
    using stored_routes_save [OF assms(1) st] by blast
  then show ?thesis
    using t by (simp add: route_delete_def io_bind_app [of "route_request_from_setting_file E"]
        stored_routes_request [OF assms(2)] io_simps left_after_def Let_def)
qed

lemma length_left_after:
  "length (left_after rs ds) =
     (if any_delete_hit (length rs) rs ds then length rs - 1 else length rs)"
proof -
  have "length xs = n \<Longrightarrow> length (foldl (removed_at n) xs ds) = n" for xs n
    by (induction ds arbitrary: xs) simp_all
  then show ?thesis by (simp add: left_after_def Let_def)
qed

text \<open>A request that names one route removes that route and no other.\<close>

lemma left_after_one:
  assumes "same_length_ids (d # rs)" "distinct (map route_id rs)"
  shows "left_after rs [d] = filter (\<lambda>r. route_id r \<noteq> route_id d) rs"
proof -
  let ?n = "length rs"
  have m: "route_delete_match d r \<longleftrightarrow> route_id r = route_id d" if "r \<in> set rs" for r
    using assms(1) that route_delete_match_same_id [of d _ r] by (fastforce simp: same_length_ids_def)
  show ?thesis
  proof (cases "first_index (route_delete_match d) rs")
    case None
    then have "\<forall>r \<in> set rs. route_id r \<noteq> route_id d" using m by (simp add: first_index_None)
    then show ?thesis using None
      by (simp add: left_after_def removed_at_def delete_hits_def filter_id_conv)
  next
    case (Some j)
    then have j: "j < length rs" "route_id (rs ! j) = route_id d"
      using m by (auto simp: first_index_Some)
    have "distinct rs" using assms(2) by (simp add: distinct_map)
    then have "take j rs @ drop (Suc j) rs = filter (\<lambda>r. r \<noteq> rs ! j) rs"
      using j(1) by (rule distinct_remove_nth)
    also have "r = rs ! j \<longleftrightarrow> route_id r = route_id d" if "r \<in> set rs" for r
      using assms(2) j that by (metis distinct_map inj_onD nth_mem)
    then have "filter (\<lambda>r. r \<noteq> rs ! j) rs = filter (\<lambda>r. route_id r \<noteq> route_id d) rs"
      by (intro filter_cong) auto
    finally show ?thesis
      using Some j take_memmove_down [OF j(1)]
      by (simp add: left_after_def removed_at_def delete_hits_def)
  qed
qed

lemma update_events_one:
  assumes "distinct (map route_id rs)" "\<And>r. r \<in> set rs \<Longrightarrow> route_match u r \<longleftrightarrow> route_id r = route_id u"
  shows "update_events rs u = concat (map (\<lambda>r. if route_id r = route_id u
    then [ExecT 2000 (route_text ''del'' r), Exec (route_text ''add'' u)] else []) rs)"
  using assms
proof (induction rs)
  case Nil
  then show ?case by (simp add: update_events_def)
next
  case (Cons r rs)
  show ?case
  proof (cases "route_id r = route_id u")
    case True
    then have "\<forall>x \<in> set rs. route_id x \<noteq> route_id u"
      using Cons.prems(1) by simp (metis imageI)
    then have "concat (map (\<lambda>r. if route_id r = route_id u
      then [ExecT 2000 (route_text ''del'' r), Exec (route_text ''add'' u)] else []) rs) = []"
      by simp
    then show ?thesis using True Cons.prems(2) [of r] by (simp add: update_events_def)
  next
    case False
    moreover have "update_events (r # rs) u = update_events rs u"
      using False Cons.prems(2) [of r] by (auto simp: update_events_def split: option.split)
    ultimately show ?thesis using Cons by simp
  qed
qed

section \<open>Properties\<close>

text \<open>A state whose setting file holds a given list, for the witnesses.\<close>

definition route_world :: "route_t list \<Rightarrow> jtree world" where
  "route_world rs = empty_world\<lparr>w_files := (\<lambda>p. None)(''/data/config/ezm/route_setting.json'' :=
     cJSON_Print tree_lib (cvt_route_list_to_json tree_lib rs))\<rparr>"

definition demo_route :: "string \<Rightarrow> string \<Rightarrow> route_t" where
  "demo_route i m =
     \<lparr>route_id = Some i, route_interface = Some ''eth0'', route_ip_mask = Some m,
      route_target_ip = Some ''10.0.0.1'', route_name = None\<rparr>"

lemma route_world_stored: "stored_routes quiet_env (route_world rs) rs"
proof -
  obtain j where j: "cvt_route_list_to_json tree_lib rs = Some j"
    using IsArray_Some [OF route_list_json_array [OF tree_ok]] by blast
  obtain str where str: "cJSON_Print tree_lib (Some j) = Some str"
    "cJSON_Parse tree_lib (Some str) = Some j"
    by (rule Print_Some [OF tree_ok])
  show ?thesis
    using str j route_list_json_roundtrip [OF tree_ok, of rs]
    by (simp add: stored_routes_def route_world_def)
qed

lemma quiet_env_ok: "cjson_ok (cj quiet_env)" "uuids_fit quiet_env"
  by (simp_all add: tree_ok uuids_fit_def)

lemma demo_route_complete: "length m < 30 \<Longrightarrow> route_complete (demo_route i m)"
  by (simp add: route_complete_def demo_route_def route_text_def)

lemma demo_route_id [simp]: "route_id (demo_route i m) = Some i"
  by (simp add: demo_route_def)

lemma demo_route_text:
  "route_text verb (demo_route i m) = ''ip route '' @ verb @ '' '' @ m @ '' via 10.0.0.1 dev eth0''"
  by (simp add: demo_route_def route_text_def)

text \<open>
  C2: creating routes. With the setting file readable and every requested route complete,
  \<open>route_create\<close> gives each requested route a fresh identifier, adds it to the kernel's table in
  the order of the request, and stores the old routes followed by the new ones; a later
  request reads exactly that list.
\<close>

theorem route_create_spec:
  assumes "cjson_ok (cj E)" "uuids_fit E" "stored_routes E s old" "\<forall>r \<in> set new. route_complete r"
  shows "\<exists>s'. route_create E new s = (Inr (ERR_SUCCESS, old @ with_ids E (w_uuids s) new), s') \<and>
    w_trace s' = w_trace s @ map (\<lambda>r. Exec (route_text ''add'' r)) new \<and>
    w_uuids s' = w_uuids s + length new \<and>
    route_request E s' = (Inr (ERR_SUCCESS, old @ with_ids E (w_uuids s) new), s')"
  using route_create_ok [OF assms] stored_routes_request by (fastforce simp: route_request_def)

theorem route_create_spec_witness:
  "\<exists>s'. route_create quiet_env [demo_route ''x'' ''10.1.0.0/16''] (route_world []) =
      (Inr (ERR_SUCCESS, with_ids quiet_env 0 [demo_route ''x'' ''10.1.0.0/16'']), s') \<and>
    w_trace s' = [Exec ''ip route add 10.1.0.0/16 via 10.0.0.1 dev eth0'']"
proof -
  have "w_uuids (route_world []) = 0" "w_trace (route_world []) = []"
    by (simp_all add: route_world_def empty_world_def)
  then show ?thesis
    using route_create_spec [OF quiet_env_ok route_world_stored [of "[]"],
        of "[demo_route ''x'' ''10.1.0.0/16'']"]
    by (auto simp: demo_route_complete demo_route_text)
qed

text \<open>
  C3: updating routes. Over a list of complete routes whose distinct identifiers have one
  length, as the generated ones do, an update that names one stored route deletes the kernel
  route with the stored fields, adds the new one, and replaces exactly the stored route with
  that identifier; an update that names none changes neither the file nor the kernel's table
  and answers \<open>ERR_ID_MISMATCHED\<close>.
\<close>

theorem route_update_spec:
  assumes "cjson_ok (cj E)" "stored_routes E s rs" "\<forall>r \<in> set (u # rs). route_complete r"
    "same_length_ids (u # rs)" "distinct (map route_id rs)"
  shows "\<exists>s' err. route_update E [u] s =
      (Inr (err, map (\<lambda>r. if route_id r = route_id u then u else r) rs), s') \<and>
    err = (if route_id u \<in> route_id ` set rs then ERR_SUCCESS else ERR_ID_MISMATCHED) \<and>
    route_request E s' = (Inr (ERR_SUCCESS, map (\<lambda>r. if route_id r = route_id u then u else r) rs), s') \<and>
    w_trace s' = w_trace s @ concat (map (\<lambda>r. if route_id r = route_id u
      then [ExecT 2000 (route_text ''del'' r), Exec (route_text ''add'' u)] else []) rs)"
proof -
  let ?rs = "map (\<lambda>r. if route_id r = route_id u then u else r) rs"
  have up: "updated rs u = ?rs" using assms(4,5) by (rule updated_replaces)
  have m: "route_match u r \<longleftrightarrow> route_id r = route_id u" if "r \<in> set rs" for r
    using assms(4) that route_match_same_id [of u _ r] by (fastforce simp: same_length_ids_def)
  have hit: "any_hit rs [u] \<longleftrightarrow> route_id u \<in> route_id ` set rs"
    using m unfolding any_hit.simps hits_def first_index_None by (auto simp: image_iff) metis
  have same: "?rs = rs" if "\<not> any_hit rs [u]"
    using that hit by (intro map_idI) (metis image_eqI)
  have ev: "update_trace rs [u] = concat (map (\<lambda>r. if route_id r = route_id u
      then [ExecT 2000 (route_text ''del'' r), Exec (route_text ''add'' u)] else []) rs)"
    using assms(5) m by (simp add: update_events_one)
  obtain s' where "route_update E [u] s =
      (Inr (if any_hit rs [u] then ERR_SUCCESS else ERR_ID_MISMATCHED, ?rs), s')"
    "stored_routes E s' (if any_hit rs [u] then ?rs else rs)"
    "w_trace s' = w_trace s @ update_trace rs [u]"
    using route_update_cases [OF assms(1,2), of "[u]"] assms(3) up
    unfolding foldl_Cons foldl_Nil up by auto
  then show ?thesis
    using hit same ev stored_routes_request [of E s' ?rs] by (auto simp: route_request_def split: if_splits)
qed

theorem route_update_spec_witness:
  "\<exists>s' err. route_update quiet_env [demo_route ''b'' ''10.2.0.0/16'']
        (route_world [demo_route ''a'' ''10.0.0.0/16'', demo_route ''b'' ''10.1.0.0/16'']) =
      (Inr (err, [demo_route ''a'' ''10.0.0.0/16'', demo_route ''b'' ''10.2.0.0/16'']), s') \<and>
    err = ERR_SUCCESS"
  using route_update_spec [OF quiet_env_ok(1)
      route_world_stored [of "[demo_route ''a'' ''10.0.0.0/16'', demo_route ''b'' ''10.1.0.0/16'']"],
      of "demo_route ''b'' ''10.2.0.0/16''"]
  by (auto simp: demo_route_complete same_length_ids_def)

text \<open>
  C4: deleting one route. Over a list whose distinct identifiers have one length, a request
  that names one route leaves every other stored route, in order, and answers
  \<open>ERR_ID_MISMATCHED\<close> when the identifier is not stored.
\<close>

theorem route_delete_spec:
  assumes "cjson_ok (cj E)" "stored_routes E s rs" "route_complete d"
    "same_length_ids (d # rs)" "distinct (map route_id rs)"
  shows "\<exists>s' err. route_delete E [d] s = (Inr (err, filter (\<lambda>r. route_id r \<noteq> route_id d) rs), s') \<and>
    err = (if route_id d \<in> route_id ` set rs then ERR_SUCCESS else ERR_ID_MISMATCHED) \<and>
    route_request E s' = (Inr (ERR_SUCCESS, filter (\<lambda>r. route_id r \<noteq> route_id d) rs), s')"
proof -
  have m: "route_delete_match d r \<longleftrightarrow> route_id r = route_id d" if "r \<in> set rs" for r
    using assms(4) that route_delete_match_same_id [of d _ r] by (fastforce simp: same_length_ids_def)
  have "any_delete_hit (length rs) rs [d] \<longleftrightarrow> route_id d \<in> route_id ` set rs"
    using m unfolding any_delete_hit.simps delete_hits_def first_index_None
    by (auto simp: image_iff) metis
  then show ?thesis
    using route_delete_cases [OF assms(1,2), of "[d]"] assms(3) left_after_one [OF assms(4,5)]
      stored_routes_request
    by (fastforce simp: route_request_def)
qed

theorem route_delete_spec_witness:
  "\<exists>s' err. route_delete quiet_env [demo_route ''a'' ''10.0.0.0/16'']
        (route_world [demo_route ''a'' ''10.0.0.0/16'', demo_route ''b'' ''10.1.0.0/16'']) =
      (Inr (err, [demo_route ''b'' ''10.1.0.0/16'']), s') \<and> err = ERR_SUCCESS"
  using route_delete_spec [OF quiet_env_ok(1)
      route_world_stored [of "[demo_route ''a'' ''10.0.0.0/16'', demo_route ''b'' ''10.1.0.0/16'']"],
      of "demo_route ''a'' ''10.0.0.0/16''"]
  by (auto simp: demo_route_complete same_length_ids_def)

text \<open>
  Deleting several routes in one request. Whatever the request names, at most one entry
  disappears from the stored list: as soon as one identifier is found the list that is saved
  and returned has one entry less than before, so a request that names two stored routes
  leaves a list that is one too long.
\<close>

theorem route_delete_count:
  assumes "cjson_ok (cj E)" "stored_routes E s rs" "\<forall>d \<in> set ds. route_complete d"
  shows "\<exists>s' err rs'. route_delete E ds s = (Inr (err, rs'), s') \<and>
    route_request E s' = (Inr (ERR_SUCCESS, rs'), s') \<and>
    (err = ERR_SUCCESS \<longrightarrow> length rs' = length rs - 1) \<and>
    (err \<noteq> ERR_SUCCESS \<longrightarrow> err = ERR_ID_MISMATCHED \<and> length rs' = length rs)"
  using route_delete_cases [OF assms] stored_routes_request
  by (fastforce simp: route_request_def length_left_after)

theorem route_delete_count_witness:
  "\<exists>s' err rs'. route_delete quiet_env [demo_route ''a'' ''10.0.0.0/16'', demo_route ''b'' ''10.1.0.0/16'']
        (route_world [demo_route ''a'' ''10.0.0.0/16'', demo_route ''b'' ''10.1.0.0/16'']) =
      (Inr (err, rs'), s') \<and> (err = ERR_SUCCESS \<longrightarrow> length rs' = 1)"
  using route_delete_count [OF quiet_env_ok(1)
      route_world_stored [of "[demo_route ''a'' ''10.0.0.0/16'', demo_route ''b'' ''10.1.0.0/16'']"],
      of "[demo_route ''a'' ''10.0.0.0/16'', demo_route ''b'' ''10.1.0.0/16'']"]
  by (auto simp: demo_route_complete)

end
