(* ===== verification/Dhcp.thy ===== *)
theory Dhcp
  imports Route
begin

text \<open>
  \<open>src/core/network/dhcp/dhcp.c\<close>: the settings of the name and address service, their JSON form, the
  commands that apply them and the lease file. A pointer with a count is a list; the pointer to
  the forwarding servers can also be overwritten by a number, which \<open>dns_forwarding_raw\<close> records.
\<close>

section \<open>Data\<close>

record dhcp_info_t =
  dhcp_timestamp :: c_int
  dhcp_mac :: cptr
  dhcp_ip :: cptr
  dhcp_host_name :: cptr

record custom_hostname_t =
  host_name :: cptr
  host_domain :: cptr
  host_ip :: cptr

record dns_t =
  dns_hosts :: "custom_hostname_t list"
  dns_additional :: "cptr list"
  dns_forwarding :: "cptr list"
  dns_forwarding_raw :: "c_int option"
  dns_forwarding_enabled :: bool

record dhcp4_t =
  dhcp4_start_ip :: cptr
  dhcp4_pools :: c_int
  dhcp4_relay_enabled :: bool
  dhcp4_relay_server :: cptr
  dhcp4_relay_local :: cptr
  dhcp4_clients :: "dhcp_info_t list"

record dns_dhcp_t =
  dd_dns :: "dns_t option"
  dd_dhcp4 :: "dhcp4_t option"

definition dhcp_info_zero :: dhcp_info_t where
  "dhcp_info_zero = \<lparr>dhcp_timestamp = 0, dhcp_mac = None, dhcp_ip = None, dhcp_host_name = None\<rparr>"

section \<open>Conversions\<close>

definition cvt_dhcp_info_to_json :: "'j cjson_lib \<Rightarrow> dhcp_info_t \<Rightarrow> 'j option" where
  "cvt_dhcp_info_to_json L d =
     (let json = cJSON_CreateObject L;
          json = cJSON_AddNumberToObject L json ''timestamp'' (dhcp_timestamp d);
          json = cJSON_AddStringToObject L json ''mac'' (dhcp_mac d);
          json = cJSON_AddStringToObject L json ''ip'' (dhcp_ip d)
      in cJSON_AddStringToObject L json ''host_name'' (dhcp_host_name d))"

definition cvt_json_to_dhcp_info :: "'j cjson_lib \<Rightarrow> 'j option \<Rightarrow> dhcp_info_t" where
  "cvt_json_to_dhcp_info L json =
     \<lparr>dhcp_timestamp = json_int L json ''timestamp'', dhcp_mac = json_str L json ''mac'',
      dhcp_ip = json_str L json ''ip'', dhcp_host_name = json_str L json ''host_name''\<rparr>"

definition cvt_custom_hostname_to_json :: "'j cjson_lib \<Rightarrow> custom_hostname_t \<Rightarrow> 'j option" where
  "cvt_custom_hostname_to_json L h =
     (let json = cJSON_CreateObject L;
          json = cJSON_AddStringToObject L json ''name'' (host_name h);
          json = cJSON_AddStringToObject L json ''domain'' (host_domain h)
      in cJSON_AddStringToObject L json ''ip'' (host_ip h))"

definition cvt_json_to_custom_hostname :: "'j cjson_lib \<Rightarrow> 'j option \<Rightarrow> custom_hostname_t" where
  "cvt_json_to_custom_hostname L json =
     \<lparr>host_name = json_str L json ''name'', host_domain = json_str L json ''domain'',
      host_ip = json_str L json ''ip''\<rparr>"

text \<open>
  The library makes no array from a NULL pointer, which is what an empty list is here. An
  overwritten pointer is not NULL unless the number is 0, and is only read when the count
  says that there are elements.
\<close>

definition string_array :: "'j cjson_lib \<Rightarrow> cptr list \<Rightarrow> 'j option" where
  "string_array L ss = (if ss = [] then None else cJSON_CreateStringArray L ss)"

definition forwarding_array :: "'j cjson_lib \<Rightarrow> dns_t \<Rightarrow> ('s, 'j option) io" where
  "forwarding_array L dns =
     (case dns_forwarding_raw dns of
        None \<Rightarrow> io_ret (string_array L (dns_forwarding dns))
      | Some n \<Rightarrow>
          if n = 0 then io_ret None
          else if dns_forwarding dns = [] then io_ret (cJSON_CreateStringArray L [])
          else io_fail OutOfBounds)"

definition cvt_dns_to_json :: "'j cjson_lib \<Rightarrow> dns_t option \<Rightarrow> ('s, 'j option) io" where
  "cvt_dns_to_json L dns =
     (case dns of
        None \<Rightarrow> io_ret None
      | Some d \<Rightarrow>
         (let json = cJSON_CreateObject L;
              json = cJSON_AddItemToObject L json ''custom_hostname''
                       (json_array L (map (cvt_custom_hostname_to_json L) (dns_hosts d)));
              json = cJSON_AddItemToObject L json ''additional_dns'' (string_array L (dns_additional d))
          in io_bind (forwarding_array L d) (\<lambda>forwarding.
             (let json = cJSON_AddItemToObject L json ''forwarding_dns'' forwarding
              in io_ret (cJSON_AddBoolToObject L json ''forwarding_dns_enabled''
                   (dns_forwarding_enabled d))))))"

text \<open>
  The list of host names must not be empty when it is there. The flag \<open>forwarding_dns_enabled\<close> is
  looked for as a number, and that number goes into the pointer to the servers.
\<close>

definition json_strings :: "'j cjson_lib \<Rightarrow> 'j option \<Rightarrow> cptr list" where
  "json_strings L json =
     map (\<lambda>item. if item \<noteq> None then app_strdup (cJSON_GetStringValue L item) else None) (json_items L json)"

definition cvt_json_to_dns :: "'j cjson_lib \<Rightarrow> 'j option \<Rightarrow> dns_t option" where
  "cvt_json_to_dns L json =
     (let hosts = cJSON_GetObjectItemCaseSensitive L json ''custom_hostname'';
          additional = cJSON_GetObjectItemCaseSensitive L json ''additional_dns'';
          forwarding = cJSON_GetObjectItemCaseSensitive L json ''forwarding_dns'';
          enabled = cJSON_GetObjectItemCaseSensitive L json ''forwarding_dns_enabled''
      in if hosts \<noteq> None \<and> \<not> cJSON_GetArraySize L hosts > 0 then None
         else Some
           \<lparr>dns_hosts = (if hosts \<noteq> None
              then map (cvt_json_to_custom_hostname L) (json_items L hosts) else []),
            dns_additional = (if additional \<noteq> None then json_strings L additional else []),
            dns_forwarding = (if forwarding \<noteq> None then json_strings L forwarding else []),
            dns_forwarding_raw = (if enabled \<noteq> None \<and> cJSON_IsNumber L enabled
              then Some (cJSON_valueint L (the enabled)) else None),
            dns_forwarding_enabled = False\<rparr>)"

definition cvt_dhcp4_to_json :: "'j cjson_lib \<Rightarrow> dhcp4_t option \<Rightarrow> 'j option" where
  "cvt_dhcp4_to_json L dhcp4 =
     (case dhcp4 of
        None \<Rightarrow> None
      | Some d \<Rightarrow>
         (let json = cJSON_CreateObject L;
              json = cJSON_AddStringToObject L json ''start_ip'' (dhcp4_start_ip d);
              json = cJSON_AddNumberToObject L json ''pools'' (dhcp4_pools d);
              json = cJSON_AddBoolToObject L json ''relay_enabled'' (dhcp4_relay_enabled d);
              json = cJSON_AddStringToObject L json ''relay_server_address'' (dhcp4_relay_server d);
              json = cJSON_AddStringToObject L json ''relay_local_address'' (dhcp4_relay_local d)
          in cJSON_AddItemToObject L json ''static_dhcp4_clients''
               (json_array L (map (cvt_dhcp_info_to_json L) (dhcp4_clients d)))))"

definition cvt_json_to_dhcp4 :: "'j cjson_lib \<Rightarrow> 'j option \<Rightarrow> dhcp4_t" where
  "cvt_json_to_dhcp4 L json =
     (let relay = cJSON_GetObjectItemCaseSensitive L json ''relay_enabled'';
          clients = cJSON_GetObjectItemCaseSensitive L json ''static_dhcp4_clients''
      in \<lparr>dhcp4_start_ip = json_str L json ''start_ip'',
          dhcp4_pools = json_int L json ''pools'',
          dhcp4_relay_enabled =
            (if relay \<noteq> None \<and> cJSON_IsNumber L relay then cJSON_valueint L (the relay) \<noteq> 0 else False),
          dhcp4_relay_server = json_str L json ''relay_server_address'',
          dhcp4_relay_local = json_str L json ''relay_local_address'',
          dhcp4_clients = (if clients \<noteq> None
            then map (\<lambda>c. if c \<noteq> None then cvt_json_to_dhcp_info L c else dhcp_info_zero)
                   (json_items L clients)
            else [])\<rparr>)"

definition cvt_dns_dhcp_to_json :: "'j cjson_lib \<Rightarrow> dns_dhcp_t \<Rightarrow> ('s, 'j option) io" where
  "cvt_dns_dhcp_to_json L x =
     (let json = cJSON_CreateObject L
      in io_bind (cvt_dns_to_json L (dd_dns x)) (\<lambda>dns_json.
         (let dhcp4_json = cvt_dhcp4_to_json L (dd_dhcp4 x);
              json = cJSON_AddItemToObject L json ''dns'' dns_json
          in io_ret (cJSON_AddItemToObject L json ''dhcp4'' dhcp4_json))))"

definition cvt_json_to_dns_dhcp :: "'j cjson_lib \<Rightarrow> 'j option \<Rightarrow> dns_dhcp_t" where
  "cvt_json_to_dns_dhcp L json =
     (let dns_json = cJSON_GetObjectItemCaseSensitive L json ''dns'';
          dhcp4_json = cJSON_GetObjectItemCaseSensitive L json ''dhcp4''
      in \<lparr>dd_dns = (if dns_json \<noteq> None then cvt_json_to_dns L dns_json else None),
          dd_dhcp4 = (if dhcp4_json \<noteq> None then Some (cvt_json_to_dhcp4 L dhcp4_json) else None)\<rparr>)"

definition cvt_dhcp4_lease_to_json :: "'j cjson_lib \<Rightarrow> dhcp_info_t list \<Rightarrow> 'j option" where
  "cvt_dhcp4_lease_to_json L ds = json_array L (map (cvt_dhcp_info_to_json L) ds)"

definition cvt_json_to_dhcp4_lease :: "'j cjson_lib \<Rightarrow> 'j option \<Rightarrow> dhcp_info_t list" where
  "cvt_json_to_dhcp4_lease L json = map (cvt_json_to_dhcp_info L) (json_items L json)"

section \<open>Applying the settings\<close>

text \<open>
  \<open>dns_set\<close> ends without a \<open>return\<close>: what its caller tests is the parameter \<open>abi_dns_set\<close>. The list
  of additional servers is put together in a buffer of 200 bytes.
\<close>

definition dns_host_entry :: "'j env \<Rightarrow> custom_hostname_t \<Rightarrow> ('j, unit) wio" where
  "dns_host_entry E h =
     io_bind (fmt_s (host_domain h)) (\<lambda>dom.
     io_bind (fmt_s (host_ip h)) (\<lambda>ip.
     io_bind (sprintf_buf 200 (''/'' @ dom @ ''/'' @ ip)) (\<lambda>cmd.
     io_void (app_uci_add_list E (Some ''dhcp.@dnsmasq[0].address'') (Some cmd)))))"

definition append_dns :: "string \<Rightarrow> cptr \<Rightarrow> ('s, string) io" where
  "append_dns cmd server =
     io_bind (io_deref server) (\<lambda>a. sprintf_buf 200 (cmd @ '','' @ a))"

definition dns_set :: "'j env \<Rightarrow> dns_t option \<Rightarrow> ('j, c_int) wio" where
  "dns_set E dns =
     io_then (app_uci_delete E (Some ''dhcp.@dnsmasq[0].address''))
     (io_bind (io_deref dns) (\<lambda>d.
      io_then (io_for (dns_hosts d) (dns_host_entry E))
      (io_then (app_uci_delete E (Some ''dhcp.lan.dhcp_option''))
      (io_then
        (if dns_additional d \<noteq> [] then
           io_bind (io_fold append_dns ''6'' (dns_additional d)) (\<lambda>cmd.
           io_void (app_uci_add_list E (Some ''dhcp.lan.dhcp_option'') (Some cmd)))
         else io_ret ())
      (io_then (app_uci_delete E (Some ''dhcp.@dnsmasq[0].server''))
      (io_then
        (if dns_forwarding_enabled d \<and> dns_forwarding d \<noteq> [] then
           (if dns_forwarding_raw d \<noteq> None then io_fail OutOfBounds
            else io_for (dns_forwarding d)
              (\<lambda>s. io_void (app_uci_add_list E (Some ''dhcp.@dnsmasq[0].server'') s)))
         else io_ret ())
      (io_ret (abi_dns_set E))))))))"

text \<open>
  \<open>do str = app_uci_delete (...); while (str == NULL)\<close>: as long as the command prints nothing,
  there was one more entry to delete. The fuel bounds the number of turns.
\<close>

fun delete_hosts :: "nat \<Rightarrow> 'j env \<Rightarrow> ('j, unit) wio" where
  "delete_hosts 0 E = io_fail OutOfFuel"
| "delete_hosts (Suc n) E =
     io_bind (app_uci_delete E (Some ''dhcp.@host[-1]'')) (\<lambda>str.
     if str = None then delete_hosts n E else io_ret ())"

definition dhcp4_client_entry :: "'j env \<Rightarrow> dhcp_info_t \<Rightarrow> ('j, unit) wio" where
  "dhcp4_client_entry E c =
     io_seq
       [io_void (app_uci_add E (Some ''dhcp'') (Some ''host'')),
        io_void (app_uci_set E (Some ''dhcp.@host[-1].name'') (dhcp_host_name c)),
        io_void (app_uci_set E (Some ''dhcp.@host[-1].mac'') (dhcp_mac c)),
        io_void (app_uci_set E (Some ''dhcp.@host[-1].ip'') (dhcp_ip c)),
        io_void (app_uci_set E (Some ''dhcp.@host[-1].dns'') (Some ''1''))]"

text \<open>
  The start address is split in place: what is left of it is its first part. A missing address is
  a fault here; in C the split continues the one before.
\<close>

definition split_cut :: "string \<Rightarrow> char list \<Rightarrow> string" where
  "split_cut str pattern =
     takeWhile (\<lambda>c. c \<in> set pattern) str @
     takeWhile (\<lambda>c. c \<notin> set pattern) (dropWhile (\<lambda>c. c \<in> set pattern) str)"

definition cut_start_ip :: "dhcp4_t \<Rightarrow> dhcp4_t" where
  "cut_start_ip d = d\<lparr>dhcp4_start_ip := map_option (\<lambda>ip. split_cut ip ''.'') (dhcp4_start_ip d)\<rparr>"

definition dhcp4_pool_entry :: "'j env \<Rightarrow> dhcp4_t \<Rightarrow> ('j, unit) wio" where
  "dhcp4_pool_entry E d =
     io_bind (io_deref (dhcp4_start_ip d)) (\<lambda>start_ip.
     (let lanIP = split start_ip ''.''
      in if length lanIP = 4 then
           io_seq
             [io_void (app_uci_set E (Some ''dhcp.lan.start'') (Some (lanIP ! 3))),
              io_void (app_uci_set E (Some ''dhcp.lan.limit'')
                (Some (show_int (atoi (lanIP ! 3) + dhcp4_pools d))))]
         else io_ret ()))"

definition dhcp4_set :: "nat \<Rightarrow> 'j env \<Rightarrow> dhcp4_t option \<Rightarrow> ('j, c_int \<times> dhcp4_t) wio" where
  "dhcp4_set n E dhcp4 =
     io_bind (io_deref dhcp4) (\<lambda>d.
     io_then
       (if dhcp4_relay_enabled d then
          io_seq
            [io_void (app_uci_delete E (Some ''dhcp.@relay[0]'')),
             io_void (app_uci_add E (Some ''dhcp'') (Some ''relay'')),
             io_void (app_uci_set E (Some ''dhcp.@relay[-1].interface'') (Some ''lan'')),
             io_void (app_uci_set E (Some ''dhcp.@relay[-1].local_addr'') (dhcp4_relay_local d)),
             io_void (app_uci_set E (Some ''dhcp.@relay[-1].server_addr'') (dhcp4_relay_server d))]
        else io_ret ())
     (io_then (delete_hosts n E)
     (io_then (io_for (dhcp4_clients d) (dhcp4_client_entry E))
     (io_then (dhcp4_pool_entry E d) (io_ret (ERR_SUCCESS, cut_start_ip d))))))"

definition dns_dhcp_save_to_setting_file :: "'j env \<Rightarrow> dns_dhcp_t \<Rightarrow> ('j, unit) wio" where
  "dns_dhcp_save_to_setting_file E x =
     io_bind (cvt_dns_dhcp_to_json (cj E) x) (\<lambda>json.
     io_bind (io_deref (cJSON_Print (cj E) json)) (\<lambda>str.
     io_void (write_data E str (dhcp_setting_file (get_config E)) TRUNCATE)))"

definition dns_dhcp_get_from_setting_file :: "'j env \<Rightarrow> ('j, dns_dhcp_t) wio" where
  "dns_dhcp_get_from_setting_file E =
     io_bind (read_data (dhcp_setting_file (get_config E))) (\<lambda>str.
     io_ret (cvt_json_to_dns_dhcp (cj E) (cJSON_Parse (cj E) str)))"

definition dns_dhcp_get_from_uci :: "dns_dhcp_t option" where
  "dns_dhcp_get_from_uci = None"

definition dns_dhcp_get :: "'j env \<Rightarrow> ('j, c_int \<times> dns_dhcp_t) wio" where
  "dns_dhcp_get E = io_bind (dns_dhcp_get_from_setting_file E) (\<lambda>x. io_ret (ERR_SUCCESS, x))"

text \<open>The result has the settings as they are afterwards, for the callers that go on using them.\<close>

definition dns_dhcp_set :: "nat \<Rightarrow> 'j env \<Rightarrow> dns_dhcp_t \<Rightarrow> ('j, c_int \<times> dns_dhcp_t) wio" where
  "dns_dhcp_set n E x =
     io_then (dns_dhcp_save_to_setting_file E x)
     (io_bind (dns_set E (dd_dns x)) (\<lambda>err.
      if err \<noteq> ERR_SUCCESS then io_ret (err, x)
      else io_bind (dhcp4_set n E (dd_dhcp4 x)) (\<lambda>(err, d4).
        (let x' = x\<lparr>dd_dhcp4 := Some d4\<rparr>
         in if err \<noteq> ERR_SUCCESS then io_ret (err, x')
            else io_then (app_uci_commit E (Some ''dhcp'')) (io_ret (ERR_SUCCESS, x'))))))"

text \<open>
  Of the functions that release memory, \<open>dns_free\<close> reads the servers through the pointer and then
  releases their number instead of it.
\<close>

definition dns_free :: "dns_t option \<Rightarrow> ('s, unit) io" where
  "dns_free dns =
     (case dns of
        None \<Rightarrow> io_ret ()
      | Some d \<Rightarrow>
          if dns_forwarding d = [] then io_ret ()
          else if dns_forwarding_raw d \<noteq> None then io_fail OutOfBounds
          else io_fail InvalidFree)"

definition dns_dhcp_free :: "dns_dhcp_t \<Rightarrow> ('s, unit) io" where
  "dns_dhcp_free x = dns_free (dd_dns x)"

definition dns_dhcp_reload_from_setting_file :: "nat \<Rightarrow> 'j env \<Rightarrow> ('j, unit) wio" where
  "dns_dhcp_reload_from_setting_file n E =
     io_bind (dns_dhcp_get_from_setting_file E) (\<lambda>x.
     io_bind (dns_dhcp_set n E x) (\<lambda>(err, x'). dns_dhcp_free x'))"

section \<open>Leases\<close>

abbreviation DHCP_LEASE_FILE :: string where "DHCP_LEASE_FILE \<equiv> ''/tmp/dhcp.leases''"

definition lease_of_line :: "string \<Rightarrow> dhcp_info_t option" where
  "lease_of_line line =
     (let fields = split line '' ''
      in if length fields \<ge> 4 \<and> fields ! 0 \<noteq> ''duid''
         then Some \<lparr>dhcp_timestamp = atoi (fields ! 0), dhcp_mac = app_strdup (Some (fields ! 1)),
                    dhcp_ip = app_strdup (Some (fields ! 2)), dhcp_host_name = app_strdup (Some (fields ! 3))\<rparr>
         else None)"

text \<open>
  The array has one zeroed entry for each line, the leases fill it from the start, and the
  count is one less than the number of lines.
\<close>

definition dhcp_lease_get :: "('j, c_int \<times> dhcp_info_t list) wio" where
  "dhcp_lease_get =
     io_bind (read_line (Some DHCP_LEASE_FILE)) (\<lambda>dhcp_lease_data.
     case dhcp_lease_data of
       None \<Rightarrow> io_ret (ERR_SUCCESS, [])
     | Some lines \<Rightarrow>
        (let leases = List.map_filter lease_of_line lines;
             n = length lines
         in io_ret (ERR_SUCCESS,
              take (n - 1) (leases @ replicate (n - length leases) dhcp_info_zero))))"

section \<open>What survives the setting file\<close>

lemma dhcp_info_json:
  assumes "cjson_ok L"
  shows "cJSON_IsObject L (cvt_dhcp_info_to_json L d)"
    "cvt_json_to_dhcp_info L (cvt_dhcp_info_to_json L d) = d"
  using assms by (simp_all add: cvt_dhcp_info_to_json_def cvt_json_to_dhcp_info_def Let_def obj_simps)

lemma custom_hostname_json:
  assumes "cjson_ok L"
  shows "cJSON_IsObject L (cvt_custom_hostname_to_json L h)"
    "cvt_json_to_custom_hostname L (cvt_custom_hostname_to_json L h) = h"
  using assms
  by (simp_all add: cvt_custom_hostname_to_json_def cvt_json_to_custom_hostname_def Let_def obj_simps)

lemma lease_json_roundtrip:
  assumes "cjson_ok L"
  shows "cvt_json_to_dhcp4_lease L (cvt_dhcp4_lease_to_json L ds) = ds"
  unfolding cvt_json_to_dhcp4_lease_def cvt_dhcp4_lease_to_json_def
  using assms IsObject_Some [OF dhcp_info_json(1) [OF assms]]
  by (intro json_list_roundtrip) (auto simp: dhcp_info_json)

lemma json_array_some: "cjson_ok L \<Longrightarrow> json_array L vs \<noteq> None"
  using IsArray_Some [OF IsArray_json_array] by auto

lemma objects_not_None:
  assumes "cjson_ok L"
  shows "None \<notin> set (map (cvt_dhcp_info_to_json L) ds)"
    "None \<notin> set (map (cvt_custom_hostname_to_json L) hs)"
  using dhcp_info_json(1) [OF assms] custom_hostname_json(1) [OF assms]
  by (auto simp: image_iff) (metis Is_None(5))+

lemma json_array_size:
  "cjson_ok L \<Longrightarrow> None \<notin> set vs \<Longrightarrow> cJSON_GetArraySize L (json_array L vs) = length vs"
  using length_json_items [of L "json_array L vs"] by (simp add: json_items_array)

lemma json_strings_array:
  assumes "cjson_ok L" "None \<notin> set ss"
  shows "(if string_array L ss \<noteq> None then json_strings L (string_array L ss) else []) = ss"
proof (cases "ss = []")
  case False
  have "cJSON_CreateStringArray L ss \<noteq> None"
    using IsArray_Some [OF IsArray_strings [OF assms]] by auto
  moreover have "json_strings L (cJSON_CreateStringArray L ss) = ss"
  proof -
    have "(if cJSON_CreateString L s \<noteq> None then app_strdup (cJSON_GetStringValue L (cJSON_CreateString L s))
        else None) = s" for s
      using assms(1) by (cases s) (simp_all add: CreateString_facts Create_not_None)
    then show ?thesis
      using assms by (simp add: json_strings_def json_items_strings comp_def del: not_None_eq)
  qed
  ultimately show ?thesis using False by (simp add: string_array_def)
qed (simp add: string_array_def)

text \<open>No overwritten pointer, and no NULL among the servers.\<close>

definition dns_plain :: "dns_t \<Rightarrow> bool" where
  "dns_plain d \<longleftrightarrow> dns_forwarding_raw d = None \<and> None \<notin> set (dns_additional d) \<and>
     None \<notin> set (dns_forwarding d)"

definition dns_survives :: "dns_t \<Rightarrow> dns_t option" where
  "dns_survives d =
     (if dns_hosts d = [] then None else Some (d\<lparr>dns_forwarding_enabled := False\<rparr>))"

lemma dns_json:
  assumes "cjson_ok L" "dns_plain d"
  shows "\<exists>j. cvt_dns_to_json L (Some d) s = (Inr j, s) \<and> cJSON_IsObject L j \<and>
    cvt_json_to_dns L j = dns_survives d"
proof -
  let ?hosts = "json_array L (map (cvt_custom_hostname_to_json L) (dns_hosts d))"
  let ?j = "json_obj L [(''custom_hostname'', ?hosts),
      (''additional_dns'', string_array L (dns_additional d)),
      (''forwarding_dns'', string_array L (dns_forwarding d)),
      (''forwarding_dns_enabled'', cJSON_CreateBool L (dns_forwarding_enabled d))]"
  have run: "cvt_dns_to_json L (Some d) s = (Inr ?j, s)"
    using assms(2)
    by (simp add: cvt_dns_to_json_def forwarding_array_def dns_plain_def Let_def obj_simps io_simps)
  note no = objects_not_None(2) [OF assms(1), of "dns_hosts d"]
  have hosts: "?hosts \<noteq> None" "cJSON_GetArraySize L ?hosts = length (dns_hosts d)"
    "map (cvt_json_to_custom_hostname L) (json_items L ?hosts) = dns_hosts d"
    unfolding json_array_size [OF assms(1) no] json_items_array [OF assms(1) no]
    by (rule json_array_some [OF assms(1)]) (simp_all add: custom_hostname_json [OF assms(1)] comp_def)
  have plain: "dns_forwarding_raw d = None" "None \<notin> set (dns_additional d)" "None \<notin> set (dns_forwarding d)"
    using assms(2) by (simp_all add: dns_plain_def)
  note servers = json_strings_array [OF assms(1) plain(2)] json_strings_array [OF assms(1) plain(3)]
  have "cvt_json_to_dns L ?j = dns_survives d"
  proof -
    have g: "cJSON_GetObjectItemCaseSensitive L ?j ''custom_hostname'' = ?hosts"
      "cJSON_GetObjectItemCaseSensitive L ?j ''additional_dns'' = string_array L (dns_additional d)"
      "cJSON_GetObjectItemCaseSensitive L ?j ''forwarding_dns'' = string_array L (dns_forwarding d)"
      "cJSON_GetObjectItemCaseSensitive L ?j ''forwarding_dns_enabled'' =
         cJSON_CreateBool L (dns_forwarding_enabled d)"
      using assms(1) by (simp_all add: obj_simps)
    have "cvt_json_to_dns L ?j = (if dns_hosts d = [] then None else Some
        \<lparr>dns_hosts = dns_hosts d, dns_additional = dns_additional d, dns_forwarding = dns_forwarding d,
         dns_forwarding_raw = None, dns_forwarding_enabled = False\<rparr>)"
      unfolding cvt_json_to_dns_def Let_def g servers hosts
      using hosts(1) Bool_not_Number [OF assms(1)] by simp
    then show ?thesis using plain(1) by (cases d) (simp add: dns_survives_def)
  qed
  then show ?thesis using run json_obj_facts(1) [OF assms(1)] by blast
qed

lemma dhcp4_json:
  assumes "cjson_ok L"
  shows "cJSON_IsObject L (cvt_dhcp4_to_json L (Some d))"
    "cvt_json_to_dhcp4 L (cvt_dhcp4_to_json L (Some d)) = d\<lparr>dhcp4_relay_enabled := False\<rparr>"
proof -
  let ?clients = "json_array L (map (cvt_dhcp_info_to_json L) (dhcp4_clients d))"
  have c: "?clients \<noteq> None"
    "map (\<lambda>c. if c \<noteq> None then cvt_json_to_dhcp_info L c else dhcp_info_zero) (json_items L ?clients) =
      dhcp4_clients d"
  proof -
    have "cvt_dhcp_info_to_json L x \<noteq> None" for x
      using dhcp_info_json(1) [OF assms, of x] by (metis Is_None(5))
    then show "map (\<lambda>c. if c \<noteq> None then cvt_json_to_dhcp_info L c else dhcp_info_zero)
        (json_items L ?clients) = dhcp4_clients d"
      unfolding json_items_array [OF assms objects_not_None(1) [OF assms]]
      by (simp add: dhcp_info_json [OF assms] comp_def del: not_None_eq)
  qed (rule json_array_some [OF assms])
  show "cJSON_IsObject L (cvt_dhcp4_to_json L (Some d))"
    using assms by (simp add: cvt_dhcp4_to_json_def Let_def obj_simps)
  show "cvt_json_to_dhcp4 L (cvt_dhcp4_to_json L (Some d)) = d\<lparr>dhcp4_relay_enabled := False\<rparr>"
    using assms c
    by (simp add: cvt_dhcp4_to_json_def cvt_json_to_dhcp4_def Let_def obj_simps Bool_not_Number
        del: not_None_eq)
qed

definition survives :: "dns_dhcp_t \<Rightarrow> dns_dhcp_t" where
  "survives x =
     \<lparr>dd_dns = (case dd_dns x of None \<Rightarrow> None | Some d \<Rightarrow> dns_survives d),
      dd_dhcp4 = map_option (\<lambda>d. d\<lparr>dhcp4_relay_enabled := False\<rparr>) (dd_dhcp4 x)\<rparr>"

definition settings_plain :: "dns_dhcp_t \<Rightarrow> bool" where
  "settings_plain x \<longleftrightarrow> (case dd_dns x of None \<Rightarrow> True | Some d \<Rightarrow> dns_plain d)"

lemma dns_dhcp_json:
  assumes "cjson_ok L" "settings_plain x"
  shows "\<exists>j. cvt_dns_dhcp_to_json L x s = (Inr (Some j), s) \<and> cvt_json_to_dns_dhcp L (Some j) = survives x"
proof -
  obtain d where d: "cvt_dns_to_json L (dd_dns x) s = (Inr d, s)"
    "(if d \<noteq> None then cvt_json_to_dns L d else None) =
       (case dd_dns x of None \<Rightarrow> None | Some y \<Rightarrow> dns_survives y)"
  proof (cases "dd_dns x")
    case None
    then show ?thesis using that by (simp add: cvt_dns_to_json_def io_simps)
  next
    case (Some y)
    then have "dns_plain y" using assms(2) by (simp add: settings_plain_def)
    from dns_json [OF assms(1) this, of s]
    obtain j where j: "cvt_dns_to_json L (Some y) s = (Inr j, s)" "cJSON_IsObject L j"
      "cvt_json_to_dns L j = dns_survives y" by (elim exE conjE)
    from j(2) have "j \<noteq> None" by (metis Is_None(5))
    show ?thesis by (rule that [of j]) (use j Some \<open>j \<noteq> None\<close> in \<open>simp_all del: not_None_eq\<close>)
  qed
  let ?d4 = "cvt_dhcp4_to_json L (dd_dhcp4 x)"
  have d4: "(if ?d4 \<noteq> None then Some (cvt_json_to_dhcp4 L ?d4) else None) =
      map_option (\<lambda>d. d\<lparr>dhcp4_relay_enabled := False\<rparr>) (dd_dhcp4 x)"
  proof (cases "dd_dhcp4 x")
    case (Some y)
    then have "?d4 \<noteq> None" using dhcp4_json(1) [OF assms(1), of y] by (metis Is_None(5))
    then show ?thesis using Some dhcp4_json(2) [OF assms(1), of y] by simp
  qed (simp add: cvt_dhcp4_to_json_def)
  let ?j = "json_obj L [(''dns'', d), (''dhcp4'', ?d4)]"
  have "cvt_dns_dhcp_to_json L x s = (Inr ?j, s)"
    using d(1) by (simp add: cvt_dns_dhcp_to_json_def Let_def obj_simps io_simps)
  moreover have "cvt_json_to_dns_dhcp L ?j = survives x"
  proof -
    have g: "cJSON_GetObjectItemCaseSensitive L ?j ''dns'' = d"
      "cJSON_GetObjectItemCaseSensitive L ?j ''dhcp4'' = ?d4"
      using assms(1) by (simp_all add: obj_simps)
    show ?thesis unfolding cvt_json_to_dns_dhcp_def Let_def g d(2) d4 survives_def by (rule refl)
  qed
  moreover obtain j where "?j = Some j" using json_obj_not_None [OF assms(1)] by blast
  ultimately show ?thesis by auto
qed

section \<open>The commands\<close>

lemma emits_uci_add [emits_intros]:
  "length a + length b < 190 \<Longrightarrow>
     emits E (app_uci_add E (Some a) (Some b)) [ExecT 2000 (''uci add '' @ a @ '' '' @ b)]"
  unfolding app_uci_add_def fmt_s_bind by (rule emits_uci_run) simp

lemma emits_uci_add_list [emits_intros]:
  "length a + length b < 186 \<Longrightarrow>
     emits E (app_uci_add_list E (Some a) (Some b)) [ExecT 2000 (''uci add_list '' @ a @ ''='' @ b)]"
  unfolding app_uci_add_list_def fmt_s_bind by (rule emits_uci_run) simp

lemma show_nat_length: "n < 10 ^ Suc k \<Longrightarrow> length (show_nat n) \<le> Suc k"
proof (induction k arbitrary: n)
  case 0
  then show ?case by (simp add: show_nat.simps)
next
  case (Suc k)
  then have "n div 10 < 10 ^ Suc k" by simp
  then have "length (show_nat (n div 10)) \<le> Suc k" by (rule Suc.IH)
  then show ?case by (subst show_nat.simps) simp
qed

lemma show_int_length: "length (show_int w) \<le> 11"
proof -
  have "sint w < 2 ^ 31" "- (2 ^ 31) \<le> sint w" using sint_range_size [of w] by (simp_all add: word_size)
  then have n: "nat (sint w) < 10 ^ Suc 9" "nat (- sint w) < 10 ^ Suc 9" by simp_all
  have "length (show_nat (nat (sint w))) \<le> Suc 9" "length (show_nat (nat (- sint w))) \<le> Suc 9"
    by (rule show_nat_length [OF n(1)], rule show_nat_length [OF n(2)])
  then show ?thesis by (simp add: show_int_def)
qed

definition dns_cmd :: "cptr list \<Rightarrow> string" where
  "dns_cmd ss = ''6'' @ concat (map (\<lambda>s. '','' @ the s) ss)"

definition dns_fits :: "dns_t \<Rightarrow> bool" where
  "dns_fits d \<longleftrightarrow> dns_plain d \<and> length (dns_cmd (dns_additional d)) < 160 \<and>
     (\<forall>h \<in> set (dns_hosts d). \<exists>dom ip. host_domain h = Some dom \<and> host_ip h = Some ip \<and>
        length dom + length ip < 150) \<and>
     (\<forall>s \<in> set (dns_forwarding d). length (the s) < 150)"

definition host_event :: "custom_hostname_t \<Rightarrow> event list" where
  "host_event h = [ExecT 2000 (''uci add_list dhcp.@dnsmasq[0].address=/'' @ the (host_domain h) @ ''/'' @
     the (host_ip h))]"

definition dns_events :: "dns_t \<Rightarrow> event list" where
  "dns_events d =
     [ExecT 2000 ''uci delete dhcp.@dnsmasq[0].address''] @
     concat (map host_event (dns_hosts d)) @
     [ExecT 2000 ''uci delete dhcp.lan.dhcp_option''] @
     (if dns_additional d \<noteq> []
      then [ExecT 2000 (''uci add_list dhcp.lan.dhcp_option='' @ dns_cmd (dns_additional d))] else []) @
     [ExecT 2000 ''uci delete dhcp.@dnsmasq[0].server''] @
     (if dns_forwarding_enabled d
      then map (\<lambda>s. ExecT 2000 (''uci add_list dhcp.@dnsmasq[0].server='' @ the s)) (dns_forwarding d)
      else [])"

lemma append_dns_fold:
  "None \<notin> set ss \<Longrightarrow> length (acc @ concat (map (\<lambda>s. '','' @ the s) ss)) < 200 \<Longrightarrow>
     io_fold append_dns acc ss s = (Inr (acc @ concat (map (\<lambda>s. '','' @ the s) ss)), s)"
proof (induction ss arbitrary: acc)
  case (Cons x ss)
  then obtain a where a: "x = Some a" by (cases x) auto
  have "io_fold append_dns (acc @ '','' @ a) ss s =
      (Inr ((acc @ '','' @ a) @ concat (map (\<lambda>s. '','' @ the s) ss)), s)"
    by (rule Cons.IH) (use Cons.prems a in simp_all)
  moreover have "append_dns acc x s = (Inr (acc @ '','' @ a), s)"
    using Cons.prems a by (simp add: append_dns_def io_simps)
  ultimately show ?case using a by (simp add: io_bind_app)
qed (simp add: io_simps)

lemma emits_host:
  assumes "host_domain h = Some nm" "host_ip h = Some ip" "length nm + length ip < 150"
  shows "emits E (dns_host_entry E h) (host_event h)"
proof -
  have "emits E (app_uci_add_list E (Some ''dhcp.@dnsmasq[0].address'') (Some (''/'' @ nm @ ''/'' @ ip)))
      [ExecT 2000 (''uci add_list '' @ ''dhcp.@dnsmasq[0].address'' @ ''='' @ (''/'' @ nm @ ''/'' @ ip))]"
    by (rule emits_uci_add_list) (use assms(3) in simp)
  then show ?thesis
    unfolding dns_host_entry_def assms fmt_s_bind host_event_def
    by (intro emits_sprintf emits_void) (use assms(3) in simp_all)
qed

lemma emits_pure_bind:
  "(\<And>s. m s = (Inr x, s)) \<Longrightarrow> emits E (k x) t \<Longrightarrow> emits E (io_bind m k) t"
  by (simp add: emits_def io_bind_app)

lemma emits_io_ret_then: "emits E m t \<Longrightarrow> emits E (io_bind (io_deref (Some d)) (\<lambda>_. m)) t"
  by (rule emits_pure_bind) (simp_all add: io_simps)

lemma dns_set_emits:
  assumes "dns_fits d"
  shows "emits E (dns_set E (Some d)) (dns_events d)"
proof -
  have plain: "dns_forwarding_raw d = None" "None \<notin> set (dns_additional d)" "None \<notin> set (dns_forwarding d)"
    using assms by (simp_all add: dns_fits_def dns_plain_def)
  have hosts: "emits E (io_for (dns_hosts d) (dns_host_entry E)) (concat (map host_event (dns_hosts d)))"
  proof (rule emits_for)
    fix h assume "h \<in> set (dns_hosts d)"
    then obtain nm ip where "host_domain h = Some nm" "host_ip h = Some ip" "length nm + length ip < 150"
      using assms unfolding dns_fits_def by metis
    then show "emits E (dns_host_entry E h) (host_event h)" by (rule emits_host)
  qed
  have add: "emits E (if dns_additional d \<noteq> [] then
           io_bind (io_fold append_dns ''6'' (dns_additional d)) (\<lambda>cmd.
           io_void (app_uci_add_list E (Some ''dhcp.lan.dhcp_option'') (Some cmd)))
         else io_ret ()) (if dns_additional d \<noteq> []
      then [ExecT 2000 (''uci add_list dhcp.lan.dhcp_option='' @ dns_cmd (dns_additional d))] else [])"
  proof (cases "dns_additional d = []")
    case False
    have "emits E (app_uci_add_list E (Some ''dhcp.lan.dhcp_option'') (Some (dns_cmd (dns_additional d))))
        [ExecT 2000 (''uci add_list '' @ ''dhcp.lan.dhcp_option'' @ ''='' @ dns_cmd (dns_additional d))]"
      by (rule emits_uci_add_list) (use assms in \<open>simp add: dns_fits_def\<close>)
    moreover have "io_fold append_dns ''6'' (dns_additional d) s = (Inr (dns_cmd (dns_additional d)), s)" for s
      unfolding dns_cmd_def
      by (rule append_dns_fold) (use assms plain in \<open>simp_all add: dns_fits_def dns_cmd_def\<close>)
    ultimately show ?thesis using False by (auto intro!: emits_pure_bind emits_void)
  qed (simp add: emits_ret)
  have fwd: "emits E (if dns_forwarding_enabled d \<and> dns_forwarding d \<noteq> [] then
           (if dns_forwarding_raw d \<noteq> None then io_fail OutOfBounds
            else io_for (dns_forwarding d)
              (\<lambda>s. io_void (app_uci_add_list E (Some ''dhcp.@dnsmasq[0].server'') s)))
         else io_ret ()) (if dns_forwarding_enabled d
      then map (\<lambda>s. ExecT 2000 (''uci add_list dhcp.@dnsmasq[0].server='' @ the s)) (dns_forwarding d) else [])"
  proof (cases "dns_forwarding_enabled d \<and> dns_forwarding d \<noteq> []")
    case True
    have "emits E (io_for (dns_forwarding d) (\<lambda>s. io_void (app_uci_add_list E (Some ''dhcp.@dnsmasq[0].server'') s)))
        (concat (map (\<lambda>s. [ExecT 2000 (''uci add_list dhcp.@dnsmasq[0].server='' @ the s)]) (dns_forwarding d)))"
    proof (rule emits_for)
      fix x assume x: "x \<in> set (dns_forwarding d)"
      then have "x \<noteq> None" using plain(3) by metis
      then obtain a where a: "x = Some a" by auto
      have "emits E (app_uci_add_list E (Some ''dhcp.@dnsmasq[0].server'') (Some a))
          [ExecT 2000 (''uci add_list '' @ ''dhcp.@dnsmasq[0].server'' @ ''='' @ a)]"
        by (rule emits_uci_add_list) (use assms x a in \<open>auto simp: dns_fits_def\<close>)
      then show "emits E (io_void (app_uci_add_list E (Some ''dhcp.@dnsmasq[0].server'') x))
          [ExecT 2000 (''uci add_list dhcp.@dnsmasq[0].server='' @ the x)]"
        using a by (simp add: emits_void)
    qed
    then show ?thesis using True plain(1) by (simp add: concat_map_singleton)
  next
    case False
    then show ?thesis by (auto simp: emits_ret)
  qed
  have del: "emits E (app_uci_delete E (Some a)) [ExecT 2000 (''uci delete '' @ a)]" if "length a < 100" for a
    by (rule emits_uci_delete) (use that in simp)
  have "emits E (dns_set E (Some d))
      ([ExecT 2000 (''uci delete '' @ ''dhcp.@dnsmasq[0].address'')] @ concat (map host_event (dns_hosts d)) @
       [ExecT 2000 (''uci delete '' @ ''dhcp.lan.dhcp_option'')] @
       (if dns_additional d \<noteq> []
        then [ExecT 2000 (''uci add_list dhcp.lan.dhcp_option='' @ dns_cmd (dns_additional d))] else []) @
       [ExecT 2000 (''uci delete '' @ ''dhcp.@dnsmasq[0].server'')] @
       (if dns_forwarding_enabled d
        then map (\<lambda>s. ExecT 2000 (''uci add_list dhcp.@dnsmasq[0].server='' @ the s)) (dns_forwarding d) else []) @ [])"
    unfolding dns_set_def
    by (intro emits_then del emits_pure_bind [where x = d] hosts add fwd emits_ret) (simp_all add: io_simps)
  then show ?thesis by (simp add: dns_events_def)
qed

lemma dns_set_result: "dns_set E d s = (Inr x, s') \<Longrightarrow> x = abi_dns_set E"
  by (auto simp: dns_set_def io_then_def io_ret_app elim!: io_bind_Inr)

text \<open>
  The documented behaviour of the deletion of the last host: silent while there is a host left,
  and an error message after that. \<open>N\<close> hosts can be deleted in all.
\<close>

abbreviation del_host :: event where "del_host \<equiv> ExecT 2000 ''uci delete dhcp.@host[-1]''"

definition uci_hosts :: "'j env \<Rightarrow> nat \<Rightarrow> bool" where
  "uci_hosts E N \<longleftrightarrow> (\<forall>h fs. fst (sh E h fs (''uci delete dhcp.@host[-1]'' @ '' 2>&1'')) =
     (if count_list h del_host < N then [] else map Byte ''uci: Entry not found''))"

lemma delete_host_turn:
  assumes "uci_hosts E N"
  shows "\<exists>s'. app_uci_delete E (Some ''dhcp.@host[-1]'') s =
      (Inr (if count_list (w_trace s) del_host < N then None else Some ''uci: Entry not found''), s') \<and>
    w_trace s' = w_trace s @ [del_host] \<and> same_frame s s' \<and>
    (\<forall>p. sh_keeps E p \<longrightarrow> w_files s' p = w_files s p)"
proof -
  obtain es fs where sh: "sh E (w_trace s) (w_files s) (''uci delete dhcp.@host[-1]'' @ '' 2>&1'') = (es, fs)"
    by fastforce
  have es: "es = (if count_list (w_trace s) del_host < N then [] else map Byte ''uci: Entry not found'')"
    using assms [unfolded uci_hosts_def, rule_format, of "w_trace s" "w_files s"] sh by simp
  have "TimerFires \<notin> set es" unfolding es by simp
  from execl_timeout_quiet [of E s "''uci delete dhcp.@host[-1]''", OF sh this, of 2000]
  have run: "execl_timeout E 2000 ''uci delete dhcp.@host[-1]'' s =
      (Inr \<lparr>cmd_err = CMD_OK, cmd_str = pipe_bytes es\<rparr>,
       s\<lparr>w_trace := w_trace s @ [del_host], w_files := fs\<rparr>)" .
  have "pipe_bytes es = (if count_list (w_trace s) del_host < N then [] else ''uci: Entry not found'')"
    unfolding es by simp
  then have "app_uci_delete E (Some ''dhcp.@host[-1]'') s =
      (Inr (if count_list (w_trace s) del_host < N then None else Some ''uci: Entry not found''),
       s\<lparr>w_trace := w_trace s @ [del_host], w_files := fs\<rparr>)"
    using run by (simp add: app_uci_delete_def uci_run_def io_simps)
  moreover have "\<forall>p. sh_keeps E p \<longrightarrow> fs p = w_files s p"
    using sh by (auto simp: sh_keeps_def) (metis snd_conv)
  ultimately show ?thesis by (simp add: same_frame_def)
qed

lemma delete_hosts_run:
  assumes "uci_hosts E N" "N - count_list (w_trace s) del_host < n"
  shows "\<exists>s'. delete_hosts n E s = (Inr (), s') \<and>
    w_trace s' = w_trace s @ replicate (Suc (N - count_list (w_trace s) del_host)) del_host \<and>
    same_frame s s' \<and> (\<forall>p. sh_keeps E p \<longrightarrow> w_files s' p = w_files s p)"
  using assms(2)
proof (induction n arbitrary: s)
  case (Suc n)
  obtain s1 where s1: "app_uci_delete E (Some ''dhcp.@host[-1]'') s =
      (Inr (if count_list (w_trace s) del_host < N then None else Some ''uci: Entry not found''), s1)"
    "w_trace s1 = w_trace s @ [del_host]" "same_frame s s1"
    "\<forall>p. sh_keeps E p \<longrightarrow> w_files s1 p = w_files s p"
    using delete_host_turn [OF assms(1), of s] by (elim exE conjE)
  show ?case
  proof (cases "count_list (w_trace s) del_host < N")
    case True
    then have c: "N - count_list (w_trace s1) del_host < n"
      "Suc (N - count_list (w_trace s1) del_host) = N - count_list (w_trace s) del_host"
      using Suc.prems s1(2) by simp_all
    obtain s' where s': "delete_hosts n E s1 = (Inr (), s')"
      "w_trace s' = w_trace s1 @ replicate (Suc (N - count_list (w_trace s1) del_host)) del_host"
      "same_frame s1 s'" "\<forall>p. sh_keeps E p \<longrightarrow> w_files s' p = w_files s1 p"
      using Suc.IH [OF c(1)] by (elim exE conjE)
    have run: "delete_hosts (Suc n) E s = (Inr (), s')" using s1(1) s'(1) True by (simp add: io_bind_app)
    have "w_trace s' = w_trace s @ replicate (Suc (N - count_list (w_trace s) del_host)) del_host"
      unfolding s'(2) s1(2) c(2) [symmetric] by (simp add: c(2))
    moreover have "\<forall>p. sh_keeps E p \<longrightarrow> w_files s' p = w_files s p"
      using s1(4) s'(4) by simp
    ultimately show ?thesis using run same_frame_trans [OF s1(3) s'(3)] by (intro exI conjI)
  next
    case False
    then have "delete_hosts (Suc n) E s = (Inr (), s1)" using s1(1) by (simp add: io_simps)
    then show ?thesis using False s1 by (intro exI conjI) simp_all
  qed
qed simp

definition client_fits :: "dhcp_info_t \<Rightarrow> bool" where
  "client_fits c \<longleftrightarrow> (\<exists>h m i. dhcp_host_name c = Some h \<and> dhcp_mac c = Some m \<and> dhcp_ip c = Some i \<and>
     length h < 150 \<and> length m < 150 \<and> length i < 150)"

definition client_events :: "dhcp_info_t \<Rightarrow> event list" where
  "client_events c =
     [ExecT 2000 ''uci add dhcp host'',
      ExecT 2000 (''uci set dhcp.@host[-1].name='' @ the (dhcp_host_name c)),
      ExecT 2000 (''uci set dhcp.@host[-1].mac='' @ the (dhcp_mac c)),
      ExecT 2000 (''uci set dhcp.@host[-1].ip='' @ the (dhcp_ip c)),
      ExecT 2000 ''uci set dhcp.@host[-1].dns=1'']"

definition dhcp4_fits :: "dhcp4_t \<Rightarrow> bool" where
  "dhcp4_fits d \<longleftrightarrow>
     (\<exists>ip. dhcp4_start_ip d = Some ip \<and> length ip < 150) \<and>
     (dhcp4_relay_enabled d \<longrightarrow> (\<exists>l r. dhcp4_relay_local d = Some l \<and> dhcp4_relay_server d = Some r \<and>
        length l < 150 \<and> length r < 150)) \<and>
     (\<forall>c \<in> set (dhcp4_clients d). client_fits c)"

definition relay_events :: "dhcp4_t \<Rightarrow> event list" where
  "relay_events d =
     (if dhcp4_relay_enabled d then
        [ExecT 2000 ''uci delete dhcp.@relay[0]'', ExecT 2000 ''uci add dhcp relay'',
         ExecT 2000 ''uci set dhcp.@relay[-1].interface=lan'',
         ExecT 2000 (''uci set dhcp.@relay[-1].local_addr='' @ the (dhcp4_relay_local d)),
         ExecT 2000 (''uci set dhcp.@relay[-1].server_addr='' @ the (dhcp4_relay_server d))]
      else [])"

definition pool_events :: "dhcp4_t \<Rightarrow> event list" where
  "pool_events d =
     (let parts = split (the (dhcp4_start_ip d)) ''.''
      in if length parts = 4 then
           [ExecT 2000 (''uci set dhcp.lan.start='' @ parts ! 3),
            ExecT 2000 (''uci set dhcp.lan.limit='' @ show_int (atoi (parts ! 3) + dhcp4_pools d))]
         else [])"

lemma emits_set_short:
  "x = Some b \<Longrightarrow> length a < 40 \<Longrightarrow> length b < 150 \<Longrightarrow>
     emits E (io_void (app_uci_set E (Some a) x)) [ExecT 2000 (''uci set '' @ a @ ''='' @ b)]"
  by (simp only:) (intro emits_void emits_uci_set, simp)

lemma client_emits:
  assumes "client_fits c"
  shows "emits E (dhcp4_client_entry E c) (client_events c)"
proof -
  obtain h m i where c: "dhcp_host_name c = Some h" "dhcp_mac c = Some m" "dhcp_ip c = Some i"
    "length h < 150" "length m < 150" "length i < 150"
    using assms by (auto simp: client_fits_def)
  have "emits E (dhcp4_client_entry E c)
      ([ExecT 2000 (''uci add '' @ ''dhcp'' @ '' '' @ ''host'')] @
       [ExecT 2000 (''uci set '' @ ''dhcp.@host[-1].name'' @ ''='' @ h)] @
       [ExecT 2000 (''uci set '' @ ''dhcp.@host[-1].mac'' @ ''='' @ m)] @
       [ExecT 2000 (''uci set '' @ ''dhcp.@host[-1].ip'' @ ''='' @ i)] @
       [ExecT 2000 (''uci set '' @ ''dhcp.@host[-1].dns'' @ ''='' @ ''1'')] @ [])"
    unfolding dhcp4_client_entry_def
    by (intro emits_seq_Cons emits_seq_Nil emits_set_short emits_void emits_uci_add c) (use c in simp_all)
  then show ?thesis by (simp add: client_events_def c)
qed

lemma pool_emits:
  assumes "dhcp4_fits d"
  shows "emits E (dhcp4_pool_entry E d) (pool_events d)"
proof -
  obtain ip where ip: "dhcp4_start_ip d = Some ip" "length ip < 150"
    using assms by (auto simp: dhcp4_fits_def)
  let ?p = "split ip ''.''"
  have body: "emits E (let lanIP = ?p
      in if length lanIP = 4 then
           io_seq
             [io_void (app_uci_set E (Some ''dhcp.lan.start'') (Some (lanIP ! 3))),
              io_void (app_uci_set E (Some ''dhcp.lan.limit'')
                (Some (show_int (atoi (lanIP ! 3) + dhcp4_pools d))))]
         else io_ret ()) (pool_events d)"
  proof (cases "length ?p = 4")
    case True
    then have "?p ! 3 \<in> set ?p" by simp
    then have "length (?p ! 3) \<le> length (concat ?p)"
      by (simp add: length_concat member_le_sum_list)
    also have "\<dots> \<le> length ip" by (simp add: concat_split)
    finally have l: "length (?p ! 3) < 150" using ip(2) by linarith
    have "emits E (io_seq
             [io_void (app_uci_set E (Some ''dhcp.lan.start'') (Some (?p ! 3))),
              io_void (app_uci_set E (Some ''dhcp.lan.limit'')
                (Some (show_int (atoi (?p ! 3) + dhcp4_pools d))))])
      ([ExecT 2000 (''uci set '' @ ''dhcp.lan.start'' @ ''='' @ ?p ! 3)] @
       [ExecT 2000 (''uci set '' @ ''dhcp.lan.limit'' @ ''='' @ show_int (atoi (?p ! 3) + dhcp4_pools d))] @ [])"
      by (intro emits_seq_Cons emits_seq_Nil emits_set_short refl)
        (use l show_int_length [of "atoi (?p ! 3) + dhcp4_pools d"] in simp_all)
    then show ?thesis using True ip by (simp add: pool_events_def Let_def)
  next
    case False
    then show ?thesis using ip by (simp add: pool_events_def Let_def emits_ret)
  qed
  show ?thesis unfolding dhcp4_pool_entry_def
    by (rule emits_pure_bind [where x = ip]) (use ip body in \<open>simp_all add: io_simps\<close>)
qed

lemma relay_emits:
  assumes "dhcp4_fits d"
  shows "emits E (if dhcp4_relay_enabled d then
          io_seq
            [io_void (app_uci_delete E (Some ''dhcp.@relay[0]'')),
             io_void (app_uci_add E (Some ''dhcp'') (Some ''relay'')),
             io_void (app_uci_set E (Some ''dhcp.@relay[-1].interface'') (Some ''lan'')),
             io_void (app_uci_set E (Some ''dhcp.@relay[-1].local_addr'') (dhcp4_relay_local d)),
             io_void (app_uci_set E (Some ''dhcp.@relay[-1].server_addr'') (dhcp4_relay_server d))]
        else io_ret ()) (relay_events d)"
proof (cases "dhcp4_relay_enabled d")
  case True
  then obtain l r where lr: "dhcp4_relay_local d = Some l" "dhcp4_relay_server d = Some r"
    "length l < 150" "length r < 150" using assms by (auto simp: dhcp4_fits_def)
  have "emits E (io_seq
            [io_void (app_uci_delete E (Some ''dhcp.@relay[0]'')),
             io_void (app_uci_add E (Some ''dhcp'') (Some ''relay'')),
             io_void (app_uci_set E (Some ''dhcp.@relay[-1].interface'') (Some ''lan'')),
             io_void (app_uci_set E (Some ''dhcp.@relay[-1].local_addr'') (dhcp4_relay_local d)),
             io_void (app_uci_set E (Some ''dhcp.@relay[-1].server_addr'') (dhcp4_relay_server d))])
      ([ExecT 2000 (''uci delete '' @ ''dhcp.@relay[0]'')] @
       [ExecT 2000 (''uci add '' @ ''dhcp'' @ '' '' @ ''relay'')] @
       [ExecT 2000 (''uci set '' @ ''dhcp.@relay[-1].interface'' @ ''='' @ ''lan'')] @
       [ExecT 2000 (''uci set '' @ ''dhcp.@relay[-1].local_addr'' @ ''='' @ l)] @
       [ExecT 2000 (''uci set '' @ ''dhcp.@relay[-1].server_addr'' @ ''='' @ r)] @ [])"
    by (intro emits_seq_Cons emits_seq_Nil emits_set_short emits_void emits_uci_add emits_uci_delete lr)
      (use lr in simp_all)
  then show ?thesis using True by (simp add: relay_events_def lr)
qed (simp add: relay_events_def emits_ret)

text \<open>The address part: the number of hosts left to delete decides the number of deletions.\<close>

definition dhcp4_events :: "nat \<Rightarrow> dhcp4_t \<Rightarrow> event list" where
  "dhcp4_events k d = relay_events d @ replicate (Suc k) del_host @
     concat (map client_events (dhcp4_clients d)) @ pool_events d"

lemma no_del_host_pool: "count_list (pool_events d) del_host = 0"
  by (simp add: pool_events_def Let_def)

lemma no_del_host_relay: "count_list (relay_events d) del_host = 0"
  by (simp add: relay_events_def)

lemma dhcp4_set_run:
  assumes "dhcp4_fits d" "uci_hosts E N" "k = N - count_list (w_trace s) del_host" "k < n"
  shows "\<exists>s'. dhcp4_set n E (Some d) s = (Inr (ERR_SUCCESS, cut_start_ip d), s') \<and>
    w_trace s' = w_trace s @ dhcp4_events k d \<and> same_frame s s' \<and>
    (\<forall>p. sh_keeps E p \<longrightarrow> w_files s' p = w_files s p)"
proof -
  obtain x1 s1 where 1: "(if dhcp4_relay_enabled d then
          io_seq
            [io_void (app_uci_delete E (Some ''dhcp.@relay[0]'')),
             io_void (app_uci_add E (Some ''dhcp'') (Some ''relay'')),
             io_void (app_uci_set E (Some ''dhcp.@relay[-1].interface'') (Some ''lan'')),
             io_void (app_uci_set E (Some ''dhcp.@relay[-1].local_addr'') (dhcp4_relay_local d)),
             io_void (app_uci_set E (Some ''dhcp.@relay[-1].server_addr'') (dhcp4_relay_server d))]
        else io_ret ()) s = (Inr x1, s1)"
    "w_trace s1 = w_trace s @ relay_events d" "same_frame s s1"
    "\<forall>p. sh_keeps E p \<longrightarrow> w_files s1 p = w_files s p"
    by (rule emitsD [OF relay_emits [OF assms(1)], where s = s])
  have k: "N - count_list (w_trace s1) del_host = k"
    using 1(2) assms(3) by (simp add: no_del_host_relay)
  obtain s2 where 2: "delete_hosts n E s1 = (Inr (), s2)"
    "w_trace s2 = w_trace s1 @ replicate (Suc k) del_host" "same_frame s1 s2"
    "\<forall>p. sh_keeps E p \<longrightarrow> w_files s2 p = w_files s1 p"
    using delete_hosts_run [OF assms(2), of s1 n, unfolded k, OF assms(4)] by (elim exE conjE)
  have "emits E (io_for (dhcp4_clients d) (dhcp4_client_entry E))
      (concat (map client_events (dhcp4_clients d)))"
    by (rule emits_for, rule client_emits) (use assms(1) in \<open>simp add: dhcp4_fits_def\<close>)
  then obtain x3 s3 where 3: "io_for (dhcp4_clients d) (dhcp4_client_entry E) s2 = (Inr x3, s3)"
    "w_trace s3 = w_trace s2 @ concat (map client_events (dhcp4_clients d))" "same_frame s2 s3"
    "\<forall>p. sh_keeps E p \<longrightarrow> w_files s3 p = w_files s2 p"
    by (rule emitsD [where s = s2])
  obtain x4 s4 where 4: "dhcp4_pool_entry E d s3 = (Inr x4, s4)"
    "w_trace s4 = w_trace s3 @ pool_events d" "same_frame s3 s4"
    "\<forall>p. sh_keeps E p \<longrightarrow> w_files s4 p = w_files s3 p"
    by (rule emitsD [OF pool_emits [OF assms(1)], where s = s3])
  have "dhcp4_set n E (Some d) s = (Inr (ERR_SUCCESS, cut_start_ip d), s4)"
    using 1(1) 2(1) 3(1) 4(1) by (simp add: dhcp4_set_def io_bind_app io_then_app io_deref_Some io_ret_app)
  moreover have "w_trace s4 = w_trace s @ dhcp4_events k d"
    by (simp add: 1(2) 2(2) 3(2) 4(2) dhcp4_events_def)
  moreover have "same_frame s s4"
    by (rule same_frame_trans [OF same_frame_trans [OF 1(3) 2(3)] same_frame_trans [OF 3(3) 4(3)]])
  moreover have "\<forall>p. sh_keeps E p \<longrightarrow> w_files s4 p = w_files s p"
    using 1(4) 2(4) 3(4) 4(4) by simp
  ultimately show ?thesis by (intro exI conjI)
qed

lemma dns_dhcp_set_keeps_dns:
  "dns_dhcp_set n E x s = (Inr (e, y), s') \<Longrightarrow> dd_dns y = dd_dns x"
  by (auto simp: dns_dhcp_set_def io_then_def io_ret_app Let_def elim!: io_bind_Inr split: if_splits prod.splits)

text \<open>The setting file holds settings.\<close>

definition dhcp_file :: "'j env \<Rightarrow> 'j world \<Rightarrow> dns_dhcp_t \<Rightarrow> bool" where
  "dhcp_file E s x \<longleftrightarrow> \<not> w_lock s \<and>
     (\<exists>p str. dhcp_setting_file (get_config E) = Some p \<and> w_files s p = Some str \<and>
        cvt_json_to_dns_dhcp (cj E) (cJSON_Parse (cj E) (Some str)) = x)"

definition dhcp_path_ok :: "'j env \<Rightarrow> bool" where
  "dhcp_path_ok E \<longleftrightarrow> (\<exists>p. dhcp_setting_file (get_config E) = Some p \<and> writable E p \<and> sh_keeps E p)"

lemma dhcp_file_get:
  "dhcp_file E s x \<Longrightarrow> dns_dhcp_get_from_setting_file E s = (Inr x, s)"
  by (auto simp: dhcp_file_def dns_dhcp_get_from_setting_file_def io_simps)

lemma dhcp_save:
  assumes "cjson_ok (cj E)" "settings_plain x" "\<not> w_lock s" "dhcp_path_ok E"
  shows "\<exists>s'. dns_dhcp_save_to_setting_file E x s = (Inr (), s') \<and> dhcp_file E s' (survives x) \<and>
    w_trace s' = w_trace s \<and> w_uuids s' = w_uuids s"
proof -
  obtain p where p: "dhcp_setting_file (get_config E) = Some p" "writable E p"
    using assms(4) by (auto simp: dhcp_path_ok_def)
  from dns_dhcp_json [OF assms(1,2), of s] obtain j where
    j: "cvt_dns_dhcp_to_json (cj E) x s = (Inr (Some j), s)"
       "cvt_json_to_dns_dhcp (cj E) (Some j) = survives x" by (elim exE conjE)
  obtain str where str: "cJSON_Print (cj E) (Some j) = Some str" "cJSON_Parse (cj E) (Some str) = Some j"
    by (rule Print_Some [OF assms(1)])
  let ?s = "s\<lparr>w_files := (w_files s)(p := Some str)\<rparr>"
  have "dns_dhcp_save_to_setting_file E x s = (Inr (), ?s)"
    using p assms(3) str(1) by (simp add: dns_dhcp_save_to_setting_file_def j io_simps)
  moreover have "dhcp_file E ?s (survives x)"
    using p assms(3) str(2) j(2) by (simp add: dhcp_file_def)
  ultimately show ?thesis by auto
qed

lemma dhcp_file_keeps:
  "dhcp_file E s x \<Longrightarrow> dhcp_path_ok E \<Longrightarrow> same_frame s s' \<Longrightarrow>
     \<forall>p. sh_keeps E p \<longrightarrow> w_files s' p = w_files s p \<Longrightarrow> dhcp_file E s' x"
  by (auto simp: dhcp_file_def dhcp_path_ok_def same_frame_def)

lemma no_del_host_dns: "count_list (dns_events d) del_host = 0"
proof -
  have "del_host \<notin> set (dns_events d)"
    by (auto simp: dns_events_def host_event_def)
  then show ?thesis by simp
qed

text \<open>All of it: save, name service, address service, commit.\<close>

lemma dns_dhcp_set_run:
  assumes "cjson_ok (cj E)" "dhcp_path_ok E" "\<not> w_lock s" "abi_dns_set E = ERR_SUCCESS"
    "dd_dns x = Some d" "dns_fits d" "dd_dhcp4 x = Some d4" "dhcp4_fits d4"
    "uci_hosts E N" "k = N - count_list (w_trace s) del_host" "k < n"
  shows "\<exists>s'. dns_dhcp_set n E x s = (Inr (ERR_SUCCESS, x\<lparr>dd_dhcp4 := Some (cut_start_ip d4)\<rparr>), s') \<and>
    dhcp_file E s' (survives x) \<and>
    w_trace s' = w_trace s @ dns_events d @ dhcp4_events k d4 @ [ExecT 2000 ''uci commit dhcp'']"
proof -
  have "settings_plain x" using assms(5,6) by (simp add: settings_plain_def dns_fits_def)
  then obtain s1 where 1: "dns_dhcp_save_to_setting_file E x s = (Inr (), s1)"
    "dhcp_file E s1 (survives x)" "w_trace s1 = w_trace s"
    using dhcp_save [OF assms(1) _ assms(3,2)] by blast
  obtain x2 s2 where 2: "dns_set E (Some d) s1 = (Inr x2, s2)" "w_trace s2 = w_trace s1 @ dns_events d"
    "same_frame s1 s2" "\<forall>p. sh_keeps E p \<longrightarrow> w_files s2 p = w_files s1 p"
    by (rule emitsD [OF dns_set_emits [OF assms(6)], where s = s1])
  have x2: "x2 = ERR_SUCCESS" using dns_set_result [OF 2(1)] assms(4) by simp
  have "k = N - count_list (w_trace s2) del_host"
    using assms(10) by (simp add: 2(2) 1(3) no_del_host_dns)
  from dhcp4_set_run [OF assms(8,9) this assms(11)]
  obtain s3 where 3: "dhcp4_set n E (Some d4) s2 = (Inr (ERR_SUCCESS, cut_start_ip d4), s3)"
    "w_trace s3 = w_trace s2 @ dhcp4_events k d4" "same_frame s2 s3"
    "\<forall>p. sh_keeps E p \<longrightarrow> w_files s3 p = w_files s2 p" by (elim exE conjE)
  have "emits E (app_uci_commit E (Some ''dhcp'')) [ExecT 2000 (''uci commit '' @ ''dhcp'')]"
    by (rule emits_uci_commit) simp
  then obtain x4 s4 where 4: "app_uci_commit E (Some ''dhcp'') s3 = (Inr x4, s4)"
    "w_trace s4 = w_trace s3 @ [ExecT 2000 (''uci commit '' @ ''dhcp'')]" "same_frame s3 s4"
    "\<forall>p. sh_keeps E p \<longrightarrow> w_files s4 p = w_files s3 p" by (rule emitsD [where s = s3])
  have "dns_dhcp_set n E x s = (Inr (ERR_SUCCESS, x\<lparr>dd_dhcp4 := Some (cut_start_ip d4)\<rparr>), s4)"
    using 1(1) 2(1) 3(1) 4(1) assms(5,7) x2
    by (simp add: dns_dhcp_set_def io_bind_app io_then_app io_ret_app)
  moreover have "dhcp_file E s4 (survives x)"
    using dhcp_file_keeps [OF dhcp_file_keeps [OF dhcp_file_keeps [OF 1(2) assms(2) 2(3,4)] assms(2) 3(3,4)]
        assms(2) 4(3,4)] .
  moreover have "w_trace s4 = w_trace s @ dns_events d @ dhcp4_events k d4 @ [ExecT 2000 ''uci commit dhcp'']"
    by (simp add: 4(2) 3(2) 2(2) 1(3))
  ultimately show ?thesis by (intro exI conjI)
qed

section \<open>Properties\<close>

text \<open>An environment whose shell knows how many hosts can be deleted, and complete settings.\<close>

definition uci_env :: "nat \<Rightarrow> jtree env" where
  "uci_env N = quiet_env\<lparr>sh := (\<lambda>h fs c.
     (if c = ''uci delete dhcp.@host[-1] 2>&1'' \<and> \<not> count_list h del_host < N
      then map Byte ''uci: Entry not found'' else [], fs))\<rparr>"

lemma uci_env_facts:
  "uci_hosts (uci_env N) N" "cj (uci_env N) = tree_lib" "dhcp_path_ok (uci_env N)"
  "abi_dns_set (uci_env N) = ERR_SUCCESS" "get_config (uci_env N) = default_config"
proof -
  show "get_config (uci_env N) = default_config"
    using quiet_env_simps(2) by (simp add: uci_env_def get_config_def)
  then show "dhcp_path_ok (uci_env N)"
    by (simp add: dhcp_path_ok_def) (simp add: uci_env_def sh_keeps_def)
qed (simp_all add: uci_env_def uci_hosts_def)

definition demo_dns :: "custom_hostname_t list \<Rightarrow> cptr list \<Rightarrow> dns_t" where
  "demo_dns hs fs = \<lparr>dns_hosts = hs, dns_additional = [Some ''8.8.8.8''], dns_forwarding = fs,
     dns_forwarding_raw = None, dns_forwarding_enabled = True\<rparr>"

definition demo_host :: custom_hostname_t where
  "demo_host = \<lparr>host_name = Some ''n'', host_domain = Some ''nova.lan'', host_ip = Some ''10.0.0.2''\<rparr>"

definition demo_dhcp4 :: dhcp4_t where
  "demo_dhcp4 = \<lparr>dhcp4_start_ip = Some ''192.168.1.100'', dhcp4_pools = 50, dhcp4_relay_enabled = False,
     dhcp4_relay_server = None, dhcp4_relay_local = None, dhcp4_clients = []\<rparr>"

lemma demo_fits:
  "dns_fits (demo_dns [demo_host] [])" "dhcp4_fits demo_dhcp4"
  by (simp_all add: dns_fits_def dns_plain_def demo_dns_def demo_host_def dhcp4_fits_def demo_dhcp4_def
      dns_cmd_def)



text \<open>
  Reloading the stored settings. When the settings in the file have no name service, which is
  what remains of settings without host names, or have forwarding servers, the reload never
  returns normally, whatever the fuel: the first are dereferenced as NULL, of the second the
  count is released as if it were a pointer.
\<close>

theorem dns_dhcp_reload_faults:
  assumes "dhcp_file E s x" "dd_dns x = None \<or> (\<exists>d. dd_dns x = Some d \<and> dns_forwarding d \<noteq> [])"
  shows "\<not> (\<exists>s'. dns_dhcp_reload_from_setting_file n E s = (Inr (), s')) \<and>
    (dd_dns x = None \<longrightarrow> (\<forall>t. \<not> (\<exists>r t'. dns_set E (dd_dns x) t = (Inr r, t'))))"
proof -
  have null: "\<not> (\<exists>r t'. dns_set E None t = (Inr r, t'))" for t
    by (auto simp: dns_set_def io_then_app io_bind_app io_deref_None split: prod.splits sum.splits)
  have "\<not> (\<exists>r t'. dns_dhcp_set n E x t = (Inr r, t'))" if "dd_dns x = None" for t
    using that null by (auto simp: dns_dhcp_set_def io_then_def elim!: io_bind_Inr)
  moreover have "dns_dhcp_free y t \<noteq> (Inr (), t')"
    if "dns_dhcp_set n E x r = (Inr (e, y), r')" "dd_dns x = Some d" "dns_forwarding d \<noteq> []" for d e y r r' t t'
    using that dns_dhcp_set_keeps_dns [OF that(1)] by (simp add: dns_dhcp_free_def dns_free_def io_fail_app)
  ultimately have "\<not> (\<exists>s'. io_bind (dns_dhcp_set n E x) (\<lambda>(err, x'). dns_dhcp_free x') s = (Inr (), s'))"
    using assms(2) by (metis (no_types, lifting) case_prod_conv io_bind_Inr surj_pair)
  then show ?thesis
    using null by (simp add: dns_dhcp_reload_from_setting_file_def io_bind_app dhcp_file_get [OF assms(1)])
qed

theorem dns_dhcp_reload_faults_witness:
  "\<exists>s. \<not> (\<exists>s'. dns_dhcp_reload_from_setting_file 5 (uci_env 2) s = (Inr (), s')) \<and> w_trace s = []"
proof -
  let ?x = "\<lparr>dd_dns = Some (demo_dns [demo_host] [Some ''9.9.9.9'']), dd_dhcp4 = Some demo_dhcp4\<rparr>"
  have "settings_plain ?x" by (simp add: settings_plain_def dns_plain_def demo_dns_def)
  then obtain s where s: "dhcp_file (uci_env 2) s (survives ?x)" "w_trace s = []"
    using dhcp_save [of "uci_env 2" ?x empty_world] uci_env_facts tree_ok by fastforce
  have "dd_dns (survives ?x) = Some ((demo_dns [demo_host] [Some ''9.9.9.9''])\<lparr>dns_forwarding_enabled := False\<rparr>)"
    by (simp add: survives_def dns_survives_def demo_dns_def)
  then show ?thesis using dns_dhcp_reload_faults [OF s(1), of 5] s(2) by (auto simp: demo_dns_def)
qed

text \<open>
  Reading the leases. When every line of the lease file is a lease, the result has all of
  them in order but the last; when the file is missing the result is an empty list, and the
  mutex of the file functions stays locked.
\<close>

theorem dhcp_lease_get_spec:
  assumes "\<not> w_lock s" "lines = split text ''\<newline>''" "\<forall>line \<in> set lines. lease_of_line line \<noteq> None"
  shows "(w_files s DHCP_LEASE_FILE = Some text \<longrightarrow>
      dhcp_lease_get s = (Inr (ERR_SUCCESS, butlast (map (\<lambda>l. the (lease_of_line l)) lines)), s)) \<and>
    (w_files s DHCP_LEASE_FILE = None \<longrightarrow>
      dhcp_lease_get s = (Inr (ERR_SUCCESS, []), s\<lparr>w_lock := True\<rparr>))"
proof -
  have "List.map_filter lease_of_line lines = map (\<lambda>l. the (lease_of_line l)) lines"
    using assms(3) by (induction lines) (auto simp: List.map_filter_def)
  then show ?thesis using assms(1,2)
    by (cases "lines = []")
      (auto simp: dhcp_lease_get_def io_simps Let_def butlast_conv_take simp del: split.simps)
qed

theorem dhcp_lease_get_spec_witness:
  "dhcp_lease_get (empty_world\<lparr>w_files := (\<lambda>p. None)(DHCP_LEASE_FILE := Some ''1 a b c *\<newline>2 d e f *'')\<rparr>) =
    (Inr (ERR_SUCCESS, [\<lparr>dhcp_timestamp = 1, dhcp_mac = Some ''a'', dhcp_ip = Some ''b'', dhcp_host_name = Some ''c''\<rparr>]),
     empty_world\<lparr>w_files := (\<lambda>p. None)(DHCP_LEASE_FILE := Some ''1 a b c *\<newline>2 d e f *'')\<rparr>)"
proof -
  have l: "split ''1 a b c *\<newline>2 d e f *'' ''\<newline>'' = [''1 a b c *'', ''2 d e f *'']"
    "lease_of_line ''1 a b c *'' =
      Some \<lparr>dhcp_timestamp = 1, dhcp_mac = Some ''a'', dhcp_ip = Some ''b'', dhcp_host_name = Some ''c''\<rparr>"
    "lease_of_line ''2 d e f *'' \<noteq> None"
    by code_simp+
  show ?thesis
    using dhcp_lease_get_spec [OF _ refl, of "empty_world\<lparr>w_files := (\<lambda>p. None)(DHCP_LEASE_FILE :=
        Some ''1 a b c *\<newline>2 d e f *'')\<rparr>" "''1 a b c *\<newline>2 d e f *''"] l by simp
qed

end
