(* ===== verification/Iptables.thy ===== *)
theory Iptables
  imports Route
begin

text \<open>
  \<open>src/core/network/iptables\<close>: the port profiles and their JSON form, the rules they turn into,
  the three setting files (port forwarding, the demilitarised host, the services of the
  controller) with their operations, and the refresh that rebuilds the whole table.
\<close>

section \<open>iptables_struct.c\<close>

record iptable_t =
  ipt_id :: cptr
  ipt_name :: cptr
  ipt_port_range :: cptr
  ipt_ip_mask :: cptr
  ipt_protocol :: cptr
  ipt_dnat_ip :: cptr
  ipt_dnat_port_range :: cptr
  ipt_interface :: cptr
  ipt_enable :: bool

record iptable_nova_service_t =
  nova_name :: cptr
  nova_port_profiles :: "iptable_t list option"

text \<open>The structure that \<open>app_mem_empty\<close> recognises: every byte zero.\<close>

definition iptable_zero :: iptable_t where
  "iptable_zero =
     \<lparr>ipt_id = None, ipt_name = None, ipt_port_range = None, ipt_ip_mask = None,
      ipt_protocol = None, ipt_dnat_ip = None, ipt_dnat_port_range = None, ipt_interface = None,
      ipt_enable = False\<rparr>"

definition cvt_iptable_to_json :: "'j cjson_lib \<Rightarrow> iptable_t \<Rightarrow> 'j option" where
  "cvt_iptable_to_json L t =
     (let json = cJSON_CreateObject L
      in if t \<noteq> iptable_zero then
        (let json = cJSON_AddStringToObject L json ''id'' (ipt_id t);
             json = cJSON_AddStringToObject L json ''name'' (ipt_name t);
             json = cJSON_AddStringToObject L json ''port_range'' (ipt_port_range t);
             json = cJSON_AddStringToObject L json ''ip_mask'' (ipt_ip_mask t);
             json = cJSON_AddStringToObject L json ''protocol'' (ipt_protocol t);
             json = cJSON_AddStringToObject L json ''dnat_ip'' (ipt_dnat_ip t);
             json = cJSON_AddStringToObject L json ''dnat_port_range'' (ipt_dnat_port_range t);
             json = cJSON_AddStringToObject L json ''interface'' (ipt_interface t)
         in cJSON_AddBoolToObject L json ''enable'' (ipt_enable t))
      else json)"

definition cvt_json_to_iptable :: "'j cjson_lib \<Rightarrow> 'j option \<Rightarrow> iptable_t" where
  "cvt_json_to_iptable L json =
     \<lparr>ipt_id = json_str L json ''id'', ipt_name = json_str L json ''name'',
      ipt_port_range = json_str L json ''port_range'', ipt_ip_mask = json_str L json ''ip_mask'',
      ipt_protocol = json_str L json ''protocol'', ipt_dnat_ip = json_str L json ''dnat_ip'',
      ipt_dnat_port_range = json_str L json ''dnat_port_range'',
      ipt_interface = json_str L json ''interface'',
      ipt_enable = cJSON_IsTrue L (cJSON_GetObjectItemCaseSensitive L json ''enable'')\<rparr>"

definition cvt_iptable_list_to_json :: "'j cjson_lib \<Rightarrow> iptable_t list \<Rightarrow> 'j option" where
  "cvt_iptable_list_to_json L ts = json_array L (map (cvt_iptable_to_json L) ts)"

definition cvt_json_to_iptable_list :: "'j cjson_lib \<Rightarrow> 'j option \<Rightarrow> iptable_t list" where
  "cvt_json_to_iptable_list L json = map (cvt_json_to_iptable L) (json_items L json)"

text \<open>The list of profiles of a service is read through its pointer without a test.\<close>

definition cvt_iptable_nova_service_to_json ::
  "'j cjson_lib \<Rightarrow> iptable_nova_service_t \<Rightarrow> ('s, 'j option) io" where
  "cvt_iptable_nova_service_to_json L ns =
     io_bind (io_deref (nova_port_profiles ns)) (\<lambda>ps.
     let json = cJSON_CreateObject L;
         json = cJSON_AddStringToObject L json ''name'' (nova_name ns)
     in io_ret (cJSON_AddItemToObject L json ''port_profiles'' (cvt_iptable_list_to_json L ps)))"

definition cvt_json_to_iptable_nova_service ::
  "'j cjson_lib \<Rightarrow> 'j option \<Rightarrow> iptable_nova_service_t" where
  "cvt_json_to_iptable_nova_service L json =
     \<lparr>nova_name = json_str L json ''name'',
      nova_port_profiles =
        (let ps = cJSON_GetObjectItemCaseSensitive L json ''port_profiles''
         in if ps \<noteq> None \<and> cJSON_IsArray L ps then Some (cvt_json_to_iptable_list L ps) else None)\<rparr>"

definition cvt_iptable_nova_service_list_to_json ::
  "'j cjson_lib \<Rightarrow> iptable_nova_service_t list \<Rightarrow> ('s, 'j option) io" where
  "cvt_iptable_nova_service_list_to_json L nss =
     io_fold (\<lambda>arr ns. io_bind (cvt_iptable_nova_service_to_json L ns) (\<lambda>json.
       io_ret (cJSON_AddItemToArray L arr json))) (cJSON_CreateArray L) nss"

definition cvt_json_to_iptable_nova_service_list ::
  "'j cjson_lib \<Rightarrow> 'j option \<Rightarrow> iptable_nova_service_t list" where
  "cvt_json_to_iptable_nova_service_list L json =
     map (cvt_json_to_iptable_nova_service L) (json_items L json)"

section \<open>iptables_basic.c\<close>

definition iptables_default_setting_list :: "string list" where
  "iptables_default_setting_list =
     [''iptables -F'', ''iptables -X'', ''iptables -t nat -F'', ''iptables -t nat -X'',
      ''iptables -t mangle -F'', ''iptables -t mangle -X'', ''iptables -P FORWARD ACCEPT'',
      ''iptables -P OUTPUT ACCEPT'', ''iptables -P INPUT ACCEPT'',
      ''iptables -A INPUT -i lo -j ACCEPT'', ''iptables -A OUTPUT -o lo -j ACCEPT'',
      ''iptables -A OUTPUT -o  eth0  -p tcp --dport 67 -j DROP '',
      ''iptables -A OUTPUT -o  eth0  -p udp --dport 67 -j DROP '',
      ''iptables -A INPUT -p udp  --dport 67 -j ACCEPT'',
      ''iptables -A INPUT -p udp  --dport 53 -j ACCEPT'',
      ''iptables -A INPUT -p udp  --dport 5353 -j ACCEPT'',
      ''iptables -A INPUT -p tcp  --dport 53 -j ACCEPT'',
      ''iptables -A INPUT -m conntrack --ctstate ESTABLISHED,RELATED -j ACCEPT'',
      ''iptables -A OUTPUT -m conntrack --ctstate ESTABLISHED -j ACCEPT'',
      ''iptables -t nat -A POSTROUTING -j MASQUERADE'',
      ''iptables -I INPUT 2 -p icmp --icmp-type echo-request -j ACCEPT'',
      ''iptables -A INPUT -p icmp -j ACCEPT'']"

definition iptables_allow_all_traffic_list :: "string list" where
  "iptables_allow_all_traffic_list =
     [''iptables -F'', ''iptables -X'', ''iptables -t nat -F'', ''iptables -t nat -X'',
      ''iptables -t mangle -F'', ''iptables -t mangle -X'', ''iptables -P INPUT ACCEPT'',
      ''iptables -P FORWARD ACCEPT'', ''iptables -P OUTPUT ACCEPT'']"

definition iptable_restrict_basic :: "string list" where
  "iptable_restrict_basic = [''iptables -P INPUT DROP'']"

definition iptables_default_setting :: "'j env \<Rightarrow> ('j, c_int) wio" where
  "iptables_default_setting E =
     io_then (io_for iptables_default_setting_list (execl_non_timeout E)) (io_ret ERR_SUCCESS)"

definition iptables_allow_all_traffic :: "'j env \<Rightarrow> ('j, c_int) wio" where
  "iptables_allow_all_traffic E =
     io_then (io_for iptables_allow_all_traffic_list (execl_non_timeout E)) (io_ret ERR_SUCCESS)"

definition iptables_restrict_basic :: "'j env \<Rightarrow> ('j, c_int) wio" where
  "iptables_restrict_basic E =
     io_then (io_for iptable_restrict_basic (execl_non_timeout E)) (io_ret ERR_SUCCESS)"

section \<open>iptables_common.c\<close>

text \<open>A part of the rule that is added only for a string that is neither NULL nor empty.\<close>

definition opt_arg :: "string \<Rightarrow> cptr \<Rightarrow> string" where
  "opt_arg flag p = (case p of None \<Rightarrow> '''' | Some x \<Rightarrow> if x \<noteq> '''' then flag @ x else '''')"

definition input_rule :: "iptable_t \<Rightarrow> ('s, string) io" where
  "input_rule t =
     io_bind (fmt_s (ipt_protocol t)) (\<lambda>proto.
     io_bind (fmt_s (ipt_port_range t)) (\<lambda>port.
     sprintf_buf 200 (''iptables -A INPUT -p '' @ proto @ '' --dport '' @ port @
       opt_arg '' -s '' (ipt_ip_mask t) @ opt_arg '' -i '' (ipt_interface t) @ '' -j ACCEPT'')))"

text \<open>The loop stops at the first enabled profile without protocol or ports.\<close>

fun open_port_loop :: "'j env \<Rightarrow> iptable_t list \<Rightarrow> ('j, unit) wio" where
  "open_port_loop E [] = io_ret ()"
| "open_port_loop E (t # ts) =
     (if ipt_enable t then
        (if ipt_protocol t = None \<or> ipt_port_range t = None then io_ret ()
         else io_bind (input_rule t) (\<lambda>cmd.
           io_then (execl_non_timeout E cmd) (open_port_loop E ts)))
      else open_port_loop E ts)"

definition iptables_open_port_profiles :: "'j env \<Rightarrow> iptable_t list \<Rightarrow> ('j, c_int) wio" where
  "iptables_open_port_profiles E ts = io_then (open_port_loop E ts) (io_ret ERR_SUCCESS)"

definition iptables_open_port_profile :: "'j env \<Rightarrow> iptable_t \<Rightarrow> ('j, c_int) wio" where
  "iptables_open_port_profile E t =
     io_then
       (if ipt_enable t
        then io_bind (input_rule t) (\<lambda>cmd. execl_non_timeout E cmd) else io_ret ())
       (io_ret ERR_SUCCESS)"

section \<open>iptables_dnat_dmz.c, first part\<close>

definition iptable_dnat_dmz_request_from_setting_file :: "'j env \<Rightarrow> ('j, c_int \<times> iptable_t) wio" where
  "iptable_dnat_dmz_request_from_setting_file E =
     io_bind (read_data (iptables_dnat_dmz_setting_file (get_config E))) (\<lambda>str.
     io_ret (ERR_SUCCESS, cvt_json_to_iptable (cj E) (cJSON_Parse (cj E) str)))"

definition iptable_dnat_dmz_request :: "'j env \<Rightarrow> ('j, c_int \<times> iptable_t) wio" where
  "iptable_dnat_dmz_request E = iptable_dnat_dmz_request_from_setting_file E"

definition iptable_dnat_dmz_save_to_setting_file :: "'j env \<Rightarrow> iptable_t \<Rightarrow> ('j, c_int) wio" where
  "iptable_dnat_dmz_save_to_setting_file E t =
     io_bind (io_deref (cJSON_Print (cj E) (cvt_iptable_to_json (cj E) t))) (\<lambda>str.
     io_bind (write_data E str (iptables_dnat_dmz_setting_file (get_config E)) TRUNCATE) (\<lambda>ret.
     io_ret (if ret = -1 then ERR_INTERNAL_SERVER else ERR_SUCCESS)))"

definition iptables_dnat_dmz_profiles_set :: "'j env \<Rightarrow> iptable_t \<Rightarrow> ('j, c_int) wio" where
  "iptables_dnat_dmz_profiles_set E t =
     io_then
       (if ipt_enable t then
          io_bind (sprintf_buf 200 (''iptables -t nat -A PREROUTING  -i eth0'' @
              opt_arg '' -s '' (ipt_ip_mask t))) (\<lambda>cmd.
          io_bind (fmt_s (ipt_dnat_ip t)) (\<lambda>ip.
          io_bind (sprintf_buf 200 (cmd @ '' -j DNAT --to-destination '' @ ip)) (\<lambda>tmp.
          execl_non_timeout E tmp)))
        else io_ret ())
       (io_ret ERR_SUCCESS)"

definition iptable_dnat_dmz_reload_from_setting_file :: "'j env \<Rightarrow> ('j, c_int) wio" where
  "iptable_dnat_dmz_reload_from_setting_file E =
     io_bind (iptable_dnat_dmz_request_from_setting_file E) (\<lambda>(err, t).
     if err \<noteq> ERR_SUCCESS then io_ret err
     else io_bind (iptables_dnat_dmz_profiles_set E t) (\<lambda>err.
       if err \<noteq> ERR_SUCCESS then io_ret err else io_ret ERR_SUCCESS))"

section \<open>Reloading the port forwarding and the services\<close>

definition iptable_dnat_forwarding_request_from_setting_file ::
  "'j env \<Rightarrow> ('j, c_int \<times> iptable_t list) wio" where
  "iptable_dnat_forwarding_request_from_setting_file E =
     io_bind (read_data (iptables_dnat_forwarding_setting_file (get_config E))) (\<lambda>str.
     io_ret (ERR_SUCCESS, cvt_json_to_iptable_list (cj E) (cJSON_Parse (cj E) str)))"

definition iptable_dnat_forwarding_reload_from_setting_file :: "'j env \<Rightarrow> ('j, c_int) wio" where
  "iptable_dnat_forwarding_reload_from_setting_file E =
     io_bind (iptable_dnat_forwarding_request_from_setting_file E) (\<lambda>(err, ts).
     if err \<noteq> ERR_SUCCESS then io_ret err
     else io_bind (iptables_open_port_profiles E ts) (\<lambda>err.
       if err \<noteq> ERR_SUCCESS then io_ret err else io_ret err))"

definition iptable_nova_service_request_from_setting_file ::
  "'j env \<Rightarrow> ('j, c_int \<times> iptable_nova_service_t list) wio" where
  "iptable_nova_service_request_from_setting_file E =
     io_bind (read_data (iptables_nova_setting_file (get_config E))) (\<lambda>str.
     io_ret (ERR_SUCCESS, cvt_json_to_iptable_nova_service_list (cj E) (cJSON_Parse (cj E) str)))"

fun nova_open_loop :: "'j env \<Rightarrow> iptable_nova_service_t list \<Rightarrow> ('j, c_int) wio" where
  "nova_open_loop E [] = io_ret ERR_SUCCESS"
| "nova_open_loop E (ns # nss) =
     io_bind (io_deref (nova_port_profiles ns)) (\<lambda>ps.
     io_bind (iptables_open_port_profiles E ps) (\<lambda>err.
     if err \<noteq> ERR_SUCCESS then io_ret err else nova_open_loop E nss))"

definition iptable_nova_service_reload_from_setting_file :: "'j env \<Rightarrow> ('j, c_int) wio" where
  "iptable_nova_service_reload_from_setting_file E =
     io_bind (iptable_nova_service_request_from_setting_file E) (\<lambda>(err, nss).
     if err \<noteq> ERR_SUCCESS then io_ret err else nova_open_loop E nss)"

section \<open>iptables.c\<close>

definition iptables_refresh :: "'j env \<Rightarrow> ('j, c_int) wio" where
  "iptables_refresh E =
     io_bind (iptables_default_setting E) (\<lambda>err. if err \<noteq> ERR_SUCCESS then io_ret err else
     io_bind (iptable_dnat_dmz_reload_from_setting_file E) (\<lambda>err. if err \<noteq> ERR_SUCCESS then io_ret err else
     io_bind (iptable_dnat_forwarding_reload_from_setting_file E) (\<lambda>err. if err \<noteq> ERR_SUCCESS then io_ret err else
     io_bind (iptable_nova_service_reload_from_setting_file E) (\<lambda>err. if err \<noteq> ERR_SUCCESS then io_ret err else
     io_bind (iptables_restrict_basic E) (\<lambda>err. if err \<noteq> ERR_SUCCESS then io_ret err else
     io_ret ERR_SUCCESS)))))"

section \<open>The operations of the handlers\<close>

definition iptable_dnat_dmz_update :: "'j env \<Rightarrow> iptable_t \<Rightarrow> ('j, c_int) wio" where
  "iptable_dnat_dmz_update E t =
     io_bind (iptable_dnat_dmz_save_to_setting_file E t) (\<lambda>err.
     if err \<noteq> ERR_SUCCESS then io_ret err
     else io_bind (iptables_refresh E) (\<lambda>err.
       if err \<noteq> ERR_SUCCESS then io_ret err else io_ret ERR_SUCCESS))"

text \<open>This save compares the result of the write with zero.\<close>

definition iptables_dnat_forwarding_save_to_setting_file ::
  "'j env \<Rightarrow> iptable_t list \<Rightarrow> ('j, c_int) wio" where
  "iptables_dnat_forwarding_save_to_setting_file E ts =
     io_bind (io_deref (cJSON_Print (cj E) (cvt_iptable_list_to_json (cj E) ts))) (\<lambda>str.
     io_bind (write_data E str (iptables_dnat_forwarding_setting_file (get_config E)) TRUNCATE) (\<lambda>ret.
     io_ret (if ret \<noteq> 0 then ERR_INTERNAL_SERVER else ERR_SUCCESS)))"

definition iptables_dnat_forwarding_request :: "'j env \<Rightarrow> ('j, c_int \<times> iptable_t list) wio" where
  "iptables_dnat_forwarding_request E = iptable_dnat_forwarding_request_from_setting_file E"

text \<open>Saving, and then rebuilding the table, as the three operations below end.\<close>

definition save_and_refresh :: "'j env \<Rightarrow> iptable_t list \<Rightarrow> c_int \<Rightarrow> ('j, c_int \<times> iptable_t list) wio" where
  "save_and_refresh E ts result =
     io_bind (iptables_dnat_forwarding_save_to_setting_file E ts) (\<lambda>err.
     if err \<noteq> ERR_SUCCESS then io_ret (err, ts)
     else io_bind (iptables_refresh E) (\<lambda>err.
       if err \<noteq> ERR_SUCCESS then io_ret (err, ts) else io_ret (result, ts)))"

definition iptables_dnat_forwarding_create ::
  "'j env \<Rightarrow> iptable_t list \<Rightarrow> ('j, c_int \<times> iptable_t list) wio" where
  "iptables_dnat_forwarding_create E new =
     io_bind (iptables_dnat_forwarding_request E) (\<lambda>(err, setting).
     if err \<noteq> ERR_SUCCESS then io_ret (err, setting)
     else io_bind
       (io_fold (\<lambda>acc t. io_bind (uuid_gen E (Some ''iptable'')) (\<lambda>new_id.
          io_ret (acc @ [t\<lparr>ipt_id := new_id\<rparr>]))) setting new) (\<lambda>setting'.
     save_and_refresh E setting' ERR_SUCCESS))"

definition ipt_match :: "iptable_t \<Rightarrow> iptable_t \<Rightarrow> bool" where
  "ipt_match given stored \<longleftrightarrow> app_strstr (ipt_id given) (ipt_id stored) \<noteq> None"

text \<open>An update replaces every stored profile that matches: this loop has no \<open>break\<close>.\<close>

definition update_matches :: "iptable_t list \<Rightarrow> iptable_t \<Rightarrow> iptable_t list" where
  "update_matches setting u = map (\<lambda>t. if ipt_match u t then u else t) setting"

fun update_forwarding :: "iptable_t list \<times> bool \<Rightarrow> iptable_t list \<Rightarrow> iptable_t list \<times> bool" where
  "update_forwarding (setting, found) [] = (setting, found)"
| "update_forwarding (setting, found) (u # us) =
     update_forwarding (update_matches setting u, found \<or> (\<exists>t \<in> set setting. ipt_match u t)) us"

definition iptables_dnat_forwarding_update ::
  "'j env \<Rightarrow> iptable_t list \<Rightarrow> ('j, c_int \<times> iptable_t list) wio" where
  "iptables_dnat_forwarding_update E us =
     io_bind (iptables_dnat_forwarding_request E) (\<lambda>(err, setting).
     let (setting', found_id) = update_forwarding (setting, False) us
     in save_and_refresh E setting' (if \<not> found_id then ERR_ID_MISMATCHED else ERR_SUCCESS))"

text \<open>A deletion removes the first match and decrements the count, so the array stays in step.\<close>

fun delete_forwarding :: "iptable_t list \<times> bool \<Rightarrow> iptable_t list \<Rightarrow> iptable_t list \<times> bool" where
  "delete_forwarding (setting, found) [] = (setting, found)"
| "delete_forwarding (setting, found) (d # ds) =
     (case first_index (ipt_match d) setting of
        None \<Rightarrow> delete_forwarding (setting, found) ds
      | Some j \<Rightarrow> delete_forwarding
          (take (length setting - 1) (memmove_down j (length setting) setting), True) ds)"

definition iptables_dnat_forwarding_delete ::
  "'j env \<Rightarrow> iptable_t list \<Rightarrow> ('j, c_int \<times> iptable_t list) wio" where
  "iptables_dnat_forwarding_delete E ds =
     io_bind (iptables_dnat_forwarding_request E) (\<lambda>(err, setting).
     let (setting', found_id) = delete_forwarding (setting, False) ds
     in save_and_refresh E setting' (if \<not> found_id then ERR_ID_MISMATCHED else ERR_SUCCESS))"

text \<open>The services: the test after the write is the wrong way round.\<close>

definition iptable_nova_service_save_to_setting_file ::
  "'j env \<Rightarrow> iptable_nova_service_t list \<Rightarrow> ('j, c_int) wio" where
  "iptable_nova_service_save_to_setting_file E nss =
     io_bind (cvt_iptable_nova_service_list_to_json (cj E) nss) (\<lambda>json.
     io_bind (io_deref (cJSON_Print (cj E) json)) (\<lambda>str.
     io_bind (write_data E str (iptables_nova_setting_file (get_config E)) TRUNCATE) (\<lambda>ret.
     io_ret (if ret \<noteq> -1 then ERR_INTERNAL_SERVER else ERR_SUCCESS))))"

definition iptable_nova_service_set :: "'j env \<Rightarrow> iptable_nova_service_t list \<Rightarrow> ('j, c_int) wio" where
  "iptable_nova_service_set E nss =
     io_bind (iptable_nova_service_save_to_setting_file E nss) (\<lambda>err.
     if err \<noteq> ERR_SUCCESS then io_ret err
     else io_bind (iptables_refresh E) (\<lambda>err.
       if err \<noteq> ERR_SUCCESS then io_ret err else io_ret ERR_SUCCESS))"

definition iptable_nova_service_get :: "'j env \<Rightarrow> ('j, c_int \<times> iptable_nova_service_t list) wio" where
  "iptable_nova_service_get E = iptable_nova_service_request_from_setting_file E"

section \<open>The setting files\<close>

lemma iptable_json_roundtrip:
  assumes "cjson_ok L"
  shows "cvt_json_to_iptable L (cvt_iptable_to_json L t) = t"
proof (cases "t = iptable_zero")
  case True
  then show ?thesis using assms
    by (simp add: cvt_json_to_iptable_def cvt_iptable_to_json_def json_simps json_str_absent iptable_zero_def)
next
  case False
  then show ?thesis using assms
    by (simp add: cvt_json_to_iptable_def cvt_iptable_to_json_def Let_def json_simps)
qed

lemma iptable_json_object: "cjson_ok L \<Longrightarrow> cJSON_IsObject L (cvt_iptable_to_json L t)"
  by (simp add: cvt_iptable_to_json_def Let_def json_simps)

lemma iptable_list_json_roundtrip:
  assumes "cjson_ok L"
  shows "cvt_json_to_iptable_list L (cvt_iptable_list_to_json L ts) = ts"
  unfolding cvt_json_to_iptable_list_def cvt_iptable_list_to_json_def
  using assms IsObject_Some [OF iptable_json_object [OF assms]]
  by (intro json_list_roundtrip) (auto simp: iptable_json_roundtrip)

lemma iptable_list_json_array: "cjson_ok L \<Longrightarrow> cJSON_IsArray L (cvt_iptable_list_to_json L ts)"
  by (simp add: cvt_iptable_list_to_json_def json_simps)

lemma write_data_codes: "write_data E d p m s = (Inr r, s') \<Longrightarrow> r = 0 \<or> r = -1"
  by (auto simp: write_data_def io_bind_app io_then_app io_ret_app io_modify_app mutex_unlock_def
      split: prod.splits sum.splits write_mode.splits if_splits)

lemma bind_write_data_cong:
  assumes "f 0 = g 0" "f (-1) = g (-1)"
  shows "io_bind (write_data E d p m) (\<lambda>ret. f ret) = io_bind (write_data E d p m) (\<lambda>ret. g ret)"
proof (rule ext)
  fix s
  show "io_bind (write_data E d p m) f s = io_bind (write_data E d p m) g s"
    using write_data_codes [of E d p m s] assms
    by (cases "write_data E d p m s"; cases "fst (write_data E d p m s)") (fastforce simp: io_bind_app)+
qed

interpretation dmz_file: setting_file cvt_iptable_to_json cvt_json_to_iptable "\<lambda>_. True"
  iptables_dnat_dmz_setting_file iptable_dnat_dmz_save_to_setting_file
  iptable_dnat_dmz_request_from_setting_file
  by unfold_locales
    (auto simp: iptable_dnat_dmz_save_to_setting_file_def
      iptable_dnat_dmz_request_from_setting_file_def iptable_json_roundtrip
      intro: IsObject_Some iptable_json_object)

interpretation forwarding_file: setting_file cvt_iptable_list_to_json cvt_json_to_iptable_list
  "\<lambda>_. True" iptables_dnat_forwarding_setting_file iptables_dnat_forwarding_save_to_setting_file
  iptables_dnat_forwarding_request
proof unfold_locales
  fix E :: "'b env" and ts
  show "iptables_dnat_forwarding_save_to_setting_file E ts =
      io_bind (io_deref (cJSON_Print (cj E) (cvt_iptable_list_to_json (cj E) ts))) (\<lambda>str.
      io_bind (write_data E str (iptables_dnat_forwarding_setting_file (get_config E)) TRUNCATE) (\<lambda>ret.
      io_ret (if ret = -1 then ERR_INTERNAL_SERVER else ERR_SUCCESS)))"
    unfolding iptables_dnat_forwarding_save_to_setting_file_def
    by (subst bind_write_data_cong [where g = "\<lambda>ret. io_ret (if ret = -1 then ERR_INTERNAL_SERVER else ERR_SUCCESS)"])
      simp_all
qed (auto simp: iptables_dnat_forwarding_request_def iptable_dnat_forwarding_request_from_setting_file_def
      iptable_list_json_roundtrip intro: IsArray_Some iptable_list_json_array)

section \<open>The rules of a list of profiles\<close>

definition rule_text :: "iptable_t \<Rightarrow> string" where
  "rule_text t = ''iptables -A INPUT -p '' @ the (ipt_protocol t) @ '' --dport '' @ the (ipt_port_range t) @
     opt_arg '' -s '' (ipt_ip_mask t) @ opt_arg '' -i '' (ipt_interface t) @ '' -j ACCEPT''"

definition incomplete :: "iptable_t \<Rightarrow> bool" where
  "incomplete t \<longleftrightarrow> ipt_enable t \<and> (ipt_protocol t = None \<or> ipt_port_range t = None)"

text \<open>The enabled profiles in front of the first incomplete one.\<close>

definition opened :: "iptable_t list \<Rightarrow> iptable_t list" where
  "opened ts = filter ipt_enable (takeWhile (\<lambda>t. \<not> incomplete t) ts)"

definition rules_fit :: "iptable_t list \<Rightarrow> bool" where
  "rules_fit ts \<longleftrightarrow> (\<forall>t \<in> set ts. length (rule_text t) < 200)"

lemma opened_simps [simp]:
  "opened [] = []"
  "opened (t # ts) = (if incomplete t then [] else if ipt_enable t then t # opened ts else opened ts)"
  by (simp_all add: opened_def)

lemma emits_input_rule:
  assumes "\<not> incomplete t" "ipt_enable t" "length (rule_text t) < 200" "emits E (k (rule_text t)) u"
  shows "emits E (io_bind (input_rule t) k) u"
proof -
  obtain p q where "ipt_protocol t = Some p" "ipt_port_range t = Some q"
    using assms(1,2) by (auto simp: incomplete_def)
  then show ?thesis using assms(3,4)
    by (auto simp: emits_def input_rule_def rule_text_def io_bind_app [of "io_bind _ _"] io_simps)
qed

lemma emits_open_port_loop:
  "rules_fit ts \<Longrightarrow> emits E (open_port_loop E ts) (map (\<lambda>t. Exec (rule_text t)) (opened ts))"
proof (induction ts)
  case Nil
  then show ?case by (simp add: emits_ret)
next
  case (Cons t ts)
  then have IH: "emits E (open_port_loop E ts) (map (\<lambda>t. Exec (rule_text t)) (opened ts))"
    and fit: "length (rule_text t) < 200" by (simp_all add: rules_fit_def)
  consider "\<not> ipt_enable t" | "incomplete t" | "ipt_enable t" "\<not> incomplete t" by auto
  then show ?case
  proof cases
    case 1
    then show ?thesis using IH by (simp add: incomplete_def)
  next
    case 2
    then show ?thesis by (simp add: incomplete_def emits_ret)
  next
    case 3
    have "emits E (io_then (execl_non_timeout E (rule_text t)) (open_port_loop E ts))
        ([Exec (rule_text t)] @ map (\<lambda>t. Exec (rule_text t)) (opened ts))"
      by (intro emits_then emits_execl_non_timeout IH)
    then have "emits E (io_bind (input_rule t)
        (\<lambda>cmd. io_then (execl_non_timeout E cmd) (open_port_loop E ts)))
        (map (\<lambda>t. Exec (rule_text t)) (opened (t # ts)))"
      using 3 fit by (intro emits_input_rule) simp_all
    then show ?thesis using 3 by (auto simp: incomplete_def)
  qed
qed

lemma emits_open_profiles:
  "rules_fit ts \<Longrightarrow>
     emits E (iptables_open_port_profiles E ts) (map (\<lambda>t. Exec (rule_text t)) (opened ts))"
  unfolding iptables_open_port_profiles_def
  using emits_then [OF emits_open_port_loop emits_ret, of ts E] by simp

lemma open_profiles_ok: "iptables_open_port_profiles E ts s = (Inr x, s') \<Longrightarrow> x = ERR_SUCCESS"
  by (auto simp: iptables_open_port_profiles_def io_simps split: prod.splits sum.splits)

section \<open>The refresh\<close>

text \<open>The contents of the three setting files.\<close>

definition fw_files :: "'j env \<Rightarrow> 'j world \<Rightarrow> iptable_t \<Rightarrow> iptable_t list \<Rightarrow> iptable_nova_service_t list \<Rightarrow> bool" where
  "fw_files E s dmz fwd nova \<longleftrightarrow>
     \<not> w_lock s \<and>
     (\<exists>p q r a b c. iptables_dnat_dmz_setting_file (get_config E) = Some p \<and>
        iptables_dnat_forwarding_setting_file (get_config E) = Some q \<and>
        iptables_nova_setting_file (get_config E) = Some r \<and>
        sh_keeps E p \<and> sh_keeps E q \<and> sh_keeps E r \<and>
        w_files s p = Some a \<and> w_files s q = Some b \<and> w_files s r = Some c \<and>
        cvt_json_to_iptable (cj E) (cJSON_Parse (cj E) (Some a)) = dmz \<and>
        cvt_json_to_iptable_list (cj E) (cJSON_Parse (cj E) (Some b)) = fwd \<and>
        cvt_json_to_iptable_nova_service_list (cj E) (cJSON_Parse (cj E) (Some c)) = nova)"

lemma fw_files_request:
  assumes "fw_files E s dmz fwd nova"
  shows "iptable_dnat_dmz_request_from_setting_file E s = (Inr (ERR_SUCCESS, dmz), s)"
    "iptable_dnat_forwarding_request_from_setting_file E s = (Inr (ERR_SUCCESS, fwd), s)"
    "iptable_nova_service_request_from_setting_file E s = (Inr (ERR_SUCCESS, nova), s)"
  using assms
  by (auto simp: fw_files_def iptable_dnat_dmz_request_from_setting_file_def
      iptable_dnat_forwarding_request_from_setting_file_def
      iptable_nova_service_request_from_setting_file_def io_simps)

lemma fw_files_cong:
  assumes "fw_files E s dmz fwd nova" "same_frame s t" "\<forall>p. sh_keeps E p \<longrightarrow> w_files t p = w_files s p"
  shows "fw_files E t dmz fwd nova"
proof -
  obtain p q r a b c where f: "\<not> w_lock s"
    "iptables_dnat_dmz_setting_file (get_config E) = Some p"
    "iptables_dnat_forwarding_setting_file (get_config E) = Some q"
    "iptables_nova_setting_file (get_config E) = Some r"
    "sh_keeps E p" "sh_keeps E q" "sh_keeps E r"
    "w_files s p = Some a" "w_files s q = Some b" "w_files s r = Some c"
    "cvt_json_to_iptable (cj E) (cJSON_Parse (cj E) (Some a)) = dmz"
    "cvt_json_to_iptable_list (cj E) (cJSON_Parse (cj E) (Some b)) = fwd"
    "cvt_json_to_iptable_nova_service_list (cj E) (cJSON_Parse (cj E) (Some c)) = nova"
    using assms(1) unfolding fw_files_def by blast
  then show ?thesis using assms(2,3) unfolding fw_files_def same_frame_def by metis
qed

text \<open>Running a function that only runs commands keeps the files.\<close>

lemma fw_step:
  assumes "emits E m t" "fw_files E s dmz fwd nova"
  shows "\<exists>x s'. m s = (Inr x, s') \<and> w_trace s' = w_trace s @ t \<and> fw_files E s' dmz fwd nova \<and>
    same_frame s s' \<and> (\<forall>p. sh_keeps E p \<longrightarrow> w_files s' p = w_files s p)"
  using emitsD [OF assms(1), where s = s] fw_files_cong [OF assms(2)] by metis

definition dmz_events :: "iptable_t \<Rightarrow> event list" where
  "dmz_events t =
     (if ipt_enable t
      then [Exec (''iptables -t nat -A PREROUTING  -i eth0'' @ opt_arg '' -s '' (ipt_ip_mask t) @
              '' -j DNAT --to-destination '' @ the (ipt_dnat_ip t))]
      else [])"

definition dmz_fits :: "iptable_t \<Rightarrow> bool" where
  "dmz_fits t \<longleftrightarrow>
     (ipt_enable t \<longrightarrow> (\<exists>ip. ipt_dnat_ip t = Some ip \<and>
        length (opt_arg '' -s '' (ipt_ip_mask t)) + length ip < 130))"

lemma emits_dmz: "dmz_fits t \<Longrightarrow> emits E (iptables_dnat_dmz_profiles_set E t) (dmz_events t)"
  unfolding iptables_dnat_dmz_profiles_set_def
proof (rule emits_eqI [OF emits_then [OF _ emits_ret]])
  show "emits E
     (if ipt_enable t
      then io_bind (sprintf_buf 200 (''iptables -t nat -A PREROUTING  -i eth0'' @ opt_arg '' -s '' (ipt_ip_mask t)))
            (\<lambda>cmd. io_bind (fmt_s (ipt_dnat_ip t))
              (\<lambda>ip. io_bind (sprintf_buf 200 (cmd @ '' -j DNAT --to-destination '' @ ip)) (execl_non_timeout E)))
      else io_ret ()) (dmz_events t)" if "dmz_fits t"
    using that
    by (auto simp: dmz_fits_def dmz_events_def emits_ret
        intro!: emits_sprintf emits_eqI [OF emits_execl_non_timeout])
qed simp_all

lemma dmz_set_ok: "iptables_dnat_dmz_profiles_set E t s = (Inr x, s') \<Longrightarrow> x = ERR_SUCCESS"
  by (auto simp: iptables_dnat_dmz_profiles_set_def io_then_app io_ret_app split: prod.splits sum.splits)

definition nova_complete :: "iptable_nova_service_t \<Rightarrow> bool" where
  "nova_complete ns \<longleftrightarrow> (\<exists>ps. nova_port_profiles ns = Some ps \<and> rules_fit ps)"

definition nova_events :: "iptable_nova_service_t list \<Rightarrow> event list" where
  "nova_events nss = concat (map (\<lambda>ns. map (\<lambda>t. Exec (rule_text t)) (opened (the (nova_port_profiles ns)))) nss)"

lemma nova_loop:
  assumes "\<forall>ns \<in> set nss. nova_complete ns"
  shows "\<exists>s'. nova_open_loop E nss s = (Inr ERR_SUCCESS, s') \<and> w_trace s' = w_trace s @ nova_events nss \<and>
    same_frame s s' \<and> (\<forall>p. sh_keeps E p \<longrightarrow> w_files s' p = w_files s p)"
  using assms
proof (induction nss arbitrary: s)
  case Nil
  then show ?case by (simp add: nova_events_def io_simps)
next
  case (Cons ns nss)
  then obtain ps where ps: "nova_port_profiles ns = Some ps" "rules_fit ps"
    by (auto simp: nova_complete_def)
  obtain x s1 where s1: "iptables_open_port_profiles E ps s = (Inr x, s1)"
    "w_trace s1 = w_trace s @ map (\<lambda>t. Exec (rule_text t)) (opened ps)" "same_frame s s1"
    "\<forall>p. sh_keeps E p \<longrightarrow> w_files s1 p = w_files s p"
    by (rule emitsD [OF emits_open_profiles [OF ps(2)], where s = s])
  have x: "x = ERR_SUCCESS" using open_profiles_ok [OF s1(1)] .
  have "\<forall>ns \<in> set nss. nova_complete ns" using Cons.prems by simp
  then obtain s2 where s2: "nova_open_loop E nss s1 = (Inr ERR_SUCCESS, s2)"
    "w_trace s2 = w_trace s1 @ nova_events nss" "same_frame s1 s2"
    "\<forall>p. sh_keeps E p \<longrightarrow> w_files s2 p = w_files s1 p"
    using Cons.IH by blast
  have "same_frame s s2" using s1(3) s2(3) by (rule same_frame_trans)
  then show ?case using ps s1 s2 x by (simp add: io_simps nova_events_def)
qed

definition refresh_events :: "iptable_t \<Rightarrow> iptable_t list \<Rightarrow> iptable_nova_service_t list \<Rightarrow> event list" where
  "refresh_events dmz fwd nova =
     map Exec iptables_default_setting_list @ dmz_events dmz @
     map (\<lambda>t. Exec (rule_text t)) (opened fwd) @ nova_events nova @ [Exec ''iptables -P INPUT DROP'']"

definition fw_complete :: "iptable_t \<Rightarrow> iptable_t list \<Rightarrow> iptable_nova_service_t list \<Rightarrow> bool" where
  "fw_complete dmz fwd nova \<longleftrightarrow> dmz_fits dmz \<and> rules_fit fwd \<and> (\<forall>ns \<in> set nova. nova_complete ns)"

lemma emits_execs: "emits E (io_for cmds (execl_non_timeout E)) (map Exec cmds)"
proof -
  have "concat (map (\<lambda>c. [Exec c]) cmds) = map Exec cmds" by (induction cmds) simp_all
  then show ?thesis
    using emits_for [of cmds E "execl_non_timeout E" "\<lambda>c. [Exec c]"] emits_execl_non_timeout by metis
qed

lemma default_setting_step:
  "fw_files E s dmz fwd nova \<Longrightarrow>
     \<exists>s'. iptables_default_setting E s = (Inr ERR_SUCCESS, s') \<and>
       w_trace s' = w_trace s @ map Exec iptables_default_setting_list \<and> fw_files E s' dmz fwd nova \<and>
       same_frame s s' \<and> (\<forall>p. sh_keeps E p \<longrightarrow> w_files s' p = w_files s p)"
  using fw_step [OF emits_execs, of E s dmz fwd nova iptables_default_setting_list]
  unfolding iptables_default_setting_def by (auto simp: io_then_app io_ret_app)

lemma restrict_basic_step:
  "\<exists>s'. iptables_restrict_basic E s = (Inr ERR_SUCCESS, s') \<and>
     w_trace s' = w_trace s @ [Exec ''iptables -P INPUT DROP''] \<and>
     same_frame s s' \<and> (\<forall>p. sh_keeps E p \<longrightarrow> w_files s' p = w_files s p)"
proof -
  have "emits E (io_for iptable_restrict_basic (execl_non_timeout E)) [Exec ''iptables -P INPUT DROP'']"
    using emits_execs [of E iptable_restrict_basic] by (simp add: iptable_restrict_basic_def)
  then show ?thesis unfolding iptables_restrict_basic_def
    by (auto simp: io_simps intro: emitsD [where s = s])
qed

lemma dmz_reload_step:
  assumes "fw_files E s dmz fwd nova" "dmz_fits dmz"
  shows "\<exists>s'. iptable_dnat_dmz_reload_from_setting_file E s = (Inr ERR_SUCCESS, s') \<and>
    w_trace s' = w_trace s @ dmz_events dmz \<and> fw_files E s' dmz fwd nova \<and>
    same_frame s s' \<and> (\<forall>p. sh_keeps E p \<longrightarrow> w_files s' p = w_files s p)"
proof -
  obtain x s' where s': "iptables_dnat_dmz_profiles_set E dmz s = (Inr x, s')"
    "w_trace s' = w_trace s @ dmz_events dmz" "fw_files E s' dmz fwd nova" "same_frame s s'"
    "\<forall>p. sh_keeps E p \<longrightarrow> w_files s' p = w_files s p"
    using fw_step [OF emits_dmz [OF assms(2)] assms(1)] by blast
  then show ?thesis using dmz_set_ok [OF s'(1)]
    by (simp add: iptable_dnat_dmz_reload_from_setting_file_def io_bind_app io_ret_app
        fw_files_request [OF assms(1)])
qed

lemma forwarding_reload_step:
  assumes "fw_files E s dmz fwd nova" "rules_fit fwd"
  shows "\<exists>s'. iptable_dnat_forwarding_reload_from_setting_file E s = (Inr ERR_SUCCESS, s') \<and>
    w_trace s' = w_trace s @ map (\<lambda>t. Exec (rule_text t)) (opened fwd) \<and> fw_files E s' dmz fwd nova \<and>
    same_frame s s' \<and> (\<forall>p. sh_keeps E p \<longrightarrow> w_files s' p = w_files s p)"
proof -
  obtain x s' where s': "iptables_open_port_profiles E fwd s = (Inr x, s')"
    "w_trace s' = w_trace s @ map (\<lambda>t. Exec (rule_text t)) (opened fwd)" "fw_files E s' dmz fwd nova"
    "same_frame s s'" "\<forall>p. sh_keeps E p \<longrightarrow> w_files s' p = w_files s p"
    using fw_step [OF emits_open_profiles [OF assms(2)] assms(1)] by blast
  then show ?thesis using open_profiles_ok [OF s'(1)]
    by (simp add: iptable_dnat_forwarding_reload_from_setting_file_def io_bind_app io_ret_app
        fw_files_request [OF assms(1)])
qed

lemma nova_reload_step:
  assumes "fw_files E s dmz fwd nova" "\<forall>ns \<in> set nova. nova_complete ns"
  shows "\<exists>s'. iptable_nova_service_reload_from_setting_file E s = (Inr ERR_SUCCESS, s') \<and>
    w_trace s' = w_trace s @ nova_events nova \<and>
    same_frame s s' \<and> (\<forall>p. sh_keeps E p \<longrightarrow> w_files s' p = w_files s p)"
  using nova_loop [OF assms(2), of E s]
  by (auto simp: iptable_nova_service_reload_from_setting_file_def io_bind_app
      fw_files_request [OF assms(1)])

lemma refresh_ok:
  assumes "fw_files E s dmz fwd nova" "fw_complete dmz fwd nova"
  shows "\<exists>s'. iptables_refresh E s = (Inr ERR_SUCCESS, s') \<and>
    w_trace s' = w_trace s @ refresh_events dmz fwd nova \<and> same_frame s s' \<and>
    (\<forall>p. sh_keeps E p \<longrightarrow> w_files s' p = w_files s p)"
proof -
  have c: "dmz_fits dmz" "rules_fit fwd" "\<forall>ns \<in> set nova. nova_complete ns"
    using assms(2) by (simp_all add: fw_complete_def)
  obtain s1 where 1: "iptables_default_setting E s = (Inr ERR_SUCCESS, s1)"
    "w_trace s1 = w_trace s @ map Exec iptables_default_setting_list" "fw_files E s1 dmz fwd nova"
    "same_frame s s1" "\<forall>p. sh_keeps E p \<longrightarrow> w_files s1 p = w_files s p"
    using default_setting_step [OF assms(1)] by blast
  obtain s2 where 2: "iptable_dnat_dmz_reload_from_setting_file E s1 = (Inr ERR_SUCCESS, s2)"
    "w_trace s2 = w_trace s1 @ dmz_events dmz" "fw_files E s2 dmz fwd nova"
    "same_frame s1 s2" "\<forall>p. sh_keeps E p \<longrightarrow> w_files s2 p = w_files s1 p"
    using dmz_reload_step [OF 1(3) c(1)] by blast
  obtain s3 where 3: "iptable_dnat_forwarding_reload_from_setting_file E s2 = (Inr ERR_SUCCESS, s3)"
    "w_trace s3 = w_trace s2 @ map (\<lambda>t. Exec (rule_text t)) (opened fwd)" "fw_files E s3 dmz fwd nova"
    "same_frame s2 s3" "\<forall>p. sh_keeps E p \<longrightarrow> w_files s3 p = w_files s2 p"
    using forwarding_reload_step [OF 2(3) c(2)] by blast
  obtain s4 where 4: "iptable_nova_service_reload_from_setting_file E s3 = (Inr ERR_SUCCESS, s4)"
    "w_trace s4 = w_trace s3 @ nova_events nova"
    "same_frame s3 s4" "\<forall>p. sh_keeps E p \<longrightarrow> w_files s4 p = w_files s3 p"
    using nova_reload_step [OF 3(3) c(3)] by blast
  obtain s5 where 5: "iptables_restrict_basic E s4 = (Inr ERR_SUCCESS, s5)"
    "w_trace s5 = w_trace s4 @ [Exec ''iptables -P INPUT DROP'']"
    "same_frame s4 s5" "\<forall>p. sh_keeps E p \<longrightarrow> w_files s5 p = w_files s4 p"
    using restrict_basic_step [of E s4] by blast
  have "same_frame s s5" using 1(4) 2(4) 3(4) 4(3) 5(3) by (meson same_frame_trans)
  moreover have "iptables_refresh E s = (Inr ERR_SUCCESS, s5)"
    using 1(1) 2(1) 3(1) 4(1) 5(1) by (simp add: iptables_refresh_def io_bind_app io_ret_app)
  ultimately show ?thesis
    using 1(2,5) 2(2,5) 3(2,5) 4(2,4) 5(2,4) by (simp add: refresh_events_def)
qed

section \<open>Forwarding profiles\<close>

lemma forwarding_saved:
  assumes "cjson_ok (cj E)" "fw_files E s dmz fwd nova"
    "iptables_dnat_forwarding_setting_file (get_config E) = Some q" "writable E q"
    "iptables_dnat_dmz_setting_file (get_config E) \<noteq> Some q"
    "iptables_nova_setting_file (get_config E) \<noteq> Some q"
  shows "\<exists>s'. iptables_dnat_forwarding_save_to_setting_file E ts s = (Inr ERR_SUCCESS, s') \<and>
    fw_files E s' dmz ts nova \<and> w_trace s' = w_trace s \<and> w_uuids s' = w_uuids s"
proof -
  have nl: "\<not> w_lock s" using assms(2) by (simp add: fw_files_def)
  obtain str where str: "cJSON_Parse (cj E) (Some str) = cvt_iptable_list_to_json (cj E) ts"
    "iptables_dnat_forwarding_save_to_setting_file E ts s =
       (Inr ERR_SUCCESS, s\<lparr>w_files := (w_files s)(q := Some str)\<rparr>)"
    using forwarding_file.save_ok [OF assms(1) nl assms(3,4)] by blast
  let ?s = "s\<lparr>w_files := (w_files s)(q := Some str)\<rparr>"
  obtain p r a c where f: "iptables_dnat_dmz_setting_file (get_config E) = Some p"
    "iptables_nova_setting_file (get_config E) = Some r"
    "sh_keeps E p" "sh_keeps E q" "sh_keeps E r" "w_files s p = Some a" "w_files s r = Some c"
    "cvt_json_to_iptable (cj E) (cJSON_Parse (cj E) (Some a)) = dmz"
    "cvt_json_to_iptable_nova_service_list (cj E) (cJSON_Parse (cj E) (Some c)) = nova"
    using assms(2,3) unfolding fw_files_def by auto
  have "w_files ?s p = Some a" "w_files ?s r = Some c" "w_files ?s q = Some str" "\<not> w_lock ?s"
    using f(1,2,6,7) assms(5,6) nl by auto
  moreover have "cvt_json_to_iptable_list (cj E) (cJSON_Parse (cj E) (Some str)) = ts"
    using str(1) iptable_list_json_roundtrip [OF assms(1)] by simp
  ultimately have "fw_files E ?s dmz ts nova"
    unfolding fw_files_def using f assms(3) by blast
  then show ?thesis using str(2) by auto
qed

text \<open>The three files are different and the one for forwarding can be written.\<close>

definition fw_config :: "'j env \<Rightarrow> bool" where
  "fw_config E \<longleftrightarrow>
     (\<exists>q. iptables_dnat_forwarding_setting_file (get_config E) = Some q \<and> writable E q \<and>
        iptables_dnat_dmz_setting_file (get_config E) \<noteq> Some q \<and>
        iptables_nova_setting_file (get_config E) \<noteq> Some q)"

lemma save_and_refresh_ok:
  assumes "cjson_ok (cj E)" "fw_config E" "fw_files E s dmz fwd nova" "fw_complete dmz ts nova"
  shows "\<exists>s'. save_and_refresh E ts result s = (Inr (result, ts), s') \<and> fw_files E s' dmz ts nova \<and>
    w_trace s' = w_trace s @ refresh_events dmz ts nova"
proof -
  obtain q where q: "iptables_dnat_forwarding_setting_file (get_config E) = Some q" "writable E q"
    "iptables_dnat_dmz_setting_file (get_config E) \<noteq> Some q"
    "iptables_nova_setting_file (get_config E) \<noteq> Some q"
    using assms(2) by (auto simp: fw_config_def)
  obtain s1 where 1: "iptables_dnat_forwarding_save_to_setting_file E ts s = (Inr ERR_SUCCESS, s1)"
    "fw_files E s1 dmz ts nova" "w_trace s1 = w_trace s"
    using forwarding_saved [OF assms(1,3) q] by blast
  obtain s2 where 2: "iptables_refresh E s1 = (Inr ERR_SUCCESS, s2)"
    "w_trace s2 = w_trace s1 @ refresh_events dmz ts nova" "same_frame s1 s2"
    "\<forall>p. sh_keeps E p \<longrightarrow> w_files s2 p = w_files s1 p"
    using refresh_ok [OF 1(2) assms(4)] by blast
  have "fw_files E s2 dmz ts nova" using 1(2) 2(3,4) by (rule fw_files_cong)
  then show ?thesis using 1 2 by (simp add: save_and_refresh_def io_bind_app io_ret_app)
qed

text \<open>Deleting in the array and deleting in the list.\<close>

lemma delete_forwarding_one:
  "first_index (ipt_match d) ts = Some j \<Longrightarrow>
     delete_forwarding (ts, found) (d # ds) = delete_forwarding (take j ts @ drop (Suc j) ts, True) ds"
proof -
  assume i: "first_index (ipt_match d) ts = Some j"
  then have "j < length ts" by (simp add: first_index_Some)
  then show ?thesis using i take_memmove_down [of j ts] by simp
qed

definition ids_of_length :: "nat \<Rightarrow> iptable_t list \<Rightarrow> bool" where
  "ids_of_length n ts \<longleftrightarrow> (\<forall>t \<in> set ts. \<exists>x. ipt_id t = Some x \<and> length x = n)"

lemma ipt_match_iff:
  assumes "ids_of_length n [a, b]"
  shows "ipt_match a b \<longleftrightarrow> ipt_id a = ipt_id b"
proof -
  obtain x y where "ipt_id a = Some x" "ipt_id b = Some y" "length x = length y"
    using assms by (auto simp: ids_of_length_def)
  then show ?thesis using app_strstr_same_length [of x y] by (simp add: ipt_match_def)
qed

lemma ids_of_length_mono: "ids_of_length n ts \<Longrightarrow> set us \<subseteq> set ts \<Longrightarrow> ids_of_length n us"
  by (auto simp: ids_of_length_def)

text \<open>With identifiers of one length a request deletes exactly the profiles it names.\<close>

lemma delete_forwarding_exact:
  assumes "ids_of_length n (ds @ ts)" "distinct (map ipt_id ts)"
  shows "delete_forwarding (ts, found) ds =
    (filter (\<lambda>t. ipt_id t \<notin> ipt_id ` set ds) ts, found \<or> (\<exists>t \<in> set ts. ipt_id t \<in> ipt_id ` set ds))"
  using assms
proof (induction ds arbitrary: ts found)
  case Nil
  then show ?case by simp
next
  case (Cons d ds)
  have m: "ipt_match d t \<longleftrightarrow> ipt_id d = ipt_id t" if "t \<in> set ts" for t
    using that by (intro ipt_match_iff [of n] ids_of_length_mono [OF Cons.prems(1)]) auto
  show ?case
  proof (cases "first_index (ipt_match d) ts")
    case None
    then have no: "\<forall>t \<in> set ts. ipt_id d \<noteq> ipt_id t" using m by (simp add: first_index_None)
    have "ids_of_length n (ds @ ts)" by (rule ids_of_length_mono [OF Cons.prems(1)]) auto
    moreover have "filter (\<lambda>t. ipt_id t \<notin> ipt_id ` set (d # ds)) ts =
        filter (\<lambda>t. ipt_id t \<notin> ipt_id ` set ds) ts"
      using no by (intro filter_cong) auto
    ultimately show ?thesis using None no Cons.IH [of ts found] Cons.prems(2) by auto
  next
    case (Some j)
    then have j: "j < length ts" "ipt_id (ts ! j) = ipt_id d" using m by (auto simp: first_index_Some)
    let ?ts = "take j ts @ drop (Suc j) ts"
    have "distinct ts" using Cons.prems(2) by (simp add: distinct_map)
    then have "?ts = filter (\<lambda>t. t \<noteq> ts ! j) ts" using j(1) by (rule distinct_remove_nth)
    also have "t = ts ! j \<longleftrightarrow> ipt_id t = ipt_id d" if "t \<in> set ts" for t
      using Cons.prems(2) j that by (metis distinct_map inj_onD nth_mem)
    then have "filter (\<lambda>t. t \<noteq> ts ! j) ts = filter (\<lambda>t. ipt_id t \<noteq> ipt_id d) ts"
      by (intro filter_cong) auto
    finally have ts: "?ts = filter (\<lambda>t. ipt_id t \<noteq> ipt_id d) ts" .
    have "ids_of_length n (ds @ ?ts)"
      by (rule ids_of_length_mono [OF Cons.prems(1)]) (auto simp: ts)
    moreover have "distinct (map ipt_id ?ts)" unfolding ts using Cons.prems(2) by (simp add: distinct_map_filter)
    ultimately have "delete_forwarding (?ts, True) ds =
        (filter (\<lambda>t. ipt_id t \<notin> ipt_id ` set ds) ?ts, True)"
      using Cons.IH [of ?ts True] by simp
    moreover have "filter (\<lambda>t. ipt_id t \<notin> ipt_id ` set ds) ?ts = filter (\<lambda>t. ipt_id t \<notin> ipt_id ` set (d # ds)) ts"
      unfolding ts by (simp add: conj_commute)
    moreover have "\<exists>t \<in> set ts. ipt_id t \<in> ipt_id ` set (d # ds)"
      using j nth_mem [OF j(1)] by (intro bexI [of _ "ts ! j"]) auto
    ultimately show ?thesis using delete_forwarding_one [OF Some, of found ds] by simp
  qed
qed

section \<open>Properties\<close>

text \<open>A state for the witnesses: no demilitarised host, no services, the given forwarding profiles.\<close>

definition fw_world :: "iptable_t list \<Rightarrow> jtree world" where
  "fw_world ts = empty_world\<lparr>w_files := (\<lambda>p. None)
     (''/data/config/ezm/iptable_dnat_dmz_setting.json'' := cJSON_Print tree_lib (cvt_iptable_to_json tree_lib iptable_zero),
      ''/data/config/ezm/iptable_dnat_forwarding_setting.json'' := cJSON_Print tree_lib (cvt_iptable_list_to_json tree_lib ts),
      ''/data/config/ezm/iptable_nova_setting.json'' := cJSON_Print tree_lib (json_array tree_lib []))\<rparr>"

lemma printed:
  assumes "cJSON_IsObject tree_lib j \<or> cJSON_IsArray tree_lib j"
  shows "\<exists>str. cJSON_Print tree_lib j = Some str \<and> cJSON_Parse tree_lib (Some str) = j"
proof -
  obtain x where x: "j = Some x" using assms IsObject_Some IsArray_Some by blast
  obtain str where "cJSON_Print tree_lib (Some x) = Some str" "cJSON_Parse tree_lib (Some str) = Some x"
    by (rule Print_Some [OF tree_ok])
  with x show ?thesis by blast
qed

lemma fw_world_files: "fw_files quiet_env (fw_world ts) iptable_zero ts []"
proof -
  obtain a where a: "cJSON_Print tree_lib (cvt_iptable_to_json tree_lib iptable_zero) = Some a"
    "cJSON_Parse tree_lib (Some a) = cvt_iptable_to_json tree_lib iptable_zero"
    using printed iptable_json_object [OF tree_ok] by blast
  obtain b where b: "cJSON_Print tree_lib (cvt_iptable_list_to_json tree_lib ts) = Some b"
    "cJSON_Parse tree_lib (Some b) = cvt_iptable_list_to_json tree_lib ts"
    using printed iptable_list_json_array [OF tree_ok] by blast
  obtain c where c: "cJSON_Print tree_lib (json_array tree_lib []) = Some c"
    "cJSON_Parse tree_lib (Some c) = json_array tree_lib []"
    using printed IsArray_json_array [OF tree_ok] by blast
  have "json_items tree_lib (json_array tree_lib []) = []"
    using json_items_array [OF tree_ok, of "[]"] by simp
  then show ?thesis
    using a b c iptable_json_roundtrip [OF tree_ok] iptable_list_json_roundtrip [OF tree_ok]
    by (simp add: fw_files_def fw_world_def cvt_json_to_iptable_nova_service_list_def)
qed

lemma quiet_fw_config: "fw_config quiet_env"
  by (simp add: fw_config_def)

definition demo_profile :: "string \<Rightarrow> string \<Rightarrow> iptable_t" where
  "demo_profile i port = iptable_zero\<lparr>ipt_id := Some i, ipt_protocol := Some ''tcp'',
     ipt_port_range := Some port, ipt_enable := True\<rparr>"

lemma demo_profile_facts [simp]:
  "ipt_id (demo_profile i port) = Some i" "\<not> incomplete (demo_profile i port)"
  "ipt_enable (demo_profile i port)"
  "rule_text (demo_profile i port) = ''iptables -A INPUT -p tcp --dport '' @ port @ '' -j ACCEPT''"
  by (simp_all add: demo_profile_def incomplete_def rule_text_def iptable_zero_def opt_arg_def)

lemma if_not_swap: "(if \<not> b then x else y) = (if b then y else x)"
  by simp

lemma zero_facts [simp]: "dmz_fits iptable_zero" "dmz_events iptable_zero = []"
  by (simp_all add: dmz_fits_def dmz_events_def iptable_zero_def)

text \<open>
  C5: rebuilding the packet filter. With the three setting files readable and their entries
  complete, \<open>iptables_refresh\<close> flushes all chains and sets the basic rules first, then the rule of
  the demilitarised host, then the port forwarding profiles, then those of the services, and
  makes DROP the policy of the input chain last; of each list of profiles exactly the enabled
  ones in front of the first enabled one without protocol or ports are opened.
\<close>

theorem iptables_refresh_spec:
  assumes "fw_files E s dmz fwd nova" "fw_complete dmz fwd nova"
  shows "\<exists>s'. iptables_refresh E s = (Inr ERR_SUCCESS, s') \<and>
    w_trace s' = w_trace s @ map Exec iptables_default_setting_list @ dmz_events dmz @
      map (\<lambda>t. Exec (rule_text t)) (opened fwd) @ nova_events nova @ [Exec ''iptables -P INPUT DROP'']"
  using refresh_ok [OF assms] by (auto simp: refresh_events_def)

theorem iptables_refresh_spec_witness:
  "\<exists>s'. iptables_refresh quiet_env (fw_world [demo_profile ''a'' ''80'']) = (Inr ERR_SUCCESS, s') \<and>
    w_trace s' = map Exec iptables_default_setting_list @
      [Exec ''iptables -A INPUT -p tcp --dport 80 -j ACCEPT'', Exec ''iptables -P INPUT DROP'']"
proof -
  have "fw_complete iptable_zero [demo_profile ''a'' ''80''] []"
    by (simp add: fw_complete_def rules_fit_def)
  from iptables_refresh_spec [OF fw_world_files this] show ?thesis
    by (auto simp: nova_events_def fw_world_def)
qed

definition profiles_with_ids :: "'j env \<Rightarrow> nat \<Rightarrow> iptable_t list \<Rightarrow> iptable_t list" where
  "profiles_with_ids E n ts =
     map2 (\<lambda>i t. t\<lparr>ipt_id := Some (''iptable_'' @ uuid_unparse E i)\<rparr>) [n..<n + length ts] ts"

lemma profiles_with_ids_Cons [simp]:
  "profiles_with_ids E n [] = []"
  "profiles_with_ids E n (t # ts) =
     t\<lparr>ipt_id := Some (''iptable_'' @ uuid_unparse E n)\<rparr> # profiles_with_ids E (Suc n) ts"
  by (simp_all add: profiles_with_ids_def upt_conv_Cons del: upt_Suc)

lemma create_ids_loop:
  assumes "uuids_fit E"
  shows "io_fold (\<lambda>acc t. io_bind (uuid_gen E (Some ''iptable'')) (\<lambda>new_id.
      io_ret (acc @ [t\<lparr>ipt_id := new_id\<rparr>]))) acc ts s =
    (Inr (acc @ profiles_with_ids E (w_uuids s) ts), s\<lparr>w_uuids := w_uuids s + length ts\<rparr>)"
  by (induction ts arbitrary: acc s) (simp_all add: io_simps uuid_gen_fit [OF assms])

text \<open>
  Creating forwarding profiles. The requested profiles get fresh identifiers, are stored
  behind the old ones, and the packet filter is rebuilt from the new list.
\<close>

theorem forwarding_create_spec:
  assumes "cjson_ok (cj E)" "uuids_fit E" "fw_config E" "fw_files E s dmz old nova"
    "fw_complete dmz (old @ new) nova"
  shows "\<exists>s'. iptables_dnat_forwarding_create E new s =
      (Inr (ERR_SUCCESS, old @ profiles_with_ids E (w_uuids s) new), s') \<and>
    iptables_dnat_forwarding_request E s' =
      (Inr (ERR_SUCCESS, old @ profiles_with_ids E (w_uuids s) new), s') \<and>
    w_trace s' = w_trace s @ refresh_events dmz (old @ profiles_with_ids E (w_uuids s) new) nova"
proof -
  let ?ts = "old @ profiles_with_ids E (w_uuids s) new" and ?s = "s\<lparr>w_uuids := w_uuids s + length new\<rparr>"
  have f: "fw_files E ?s dmz old nova" using assms(4) by (simp add: fw_files_def)
  have "rule_text (t\<lparr>ipt_id := i\<rparr>) = rule_text t" for t i by (simp add: rule_text_def)
  then have "rules_fit new \<Longrightarrow> rules_fit (profiles_with_ids E n new)" for n
    by (induction new arbitrary: n) (simp_all add: rules_fit_def)
  then have "fw_complete dmz ?ts nova"
    using assms(5) by (auto simp: fw_complete_def rules_fit_def)
  then obtain s' where s': "save_and_refresh E ?ts ERR_SUCCESS ?s = (Inr (ERR_SUCCESS, ?ts), s')"
    "fw_files E s' dmz ?ts nova" "w_trace s' = w_trace ?s @ refresh_events dmz ?ts nova"
    using save_and_refresh_ok [OF assms(1,3) f] by blast
  then show ?thesis
    using fw_files_request(2) [OF assms(4)] fw_files_request(2) [OF s'(2)]
    by (simp add: iptables_dnat_forwarding_create_def iptables_dnat_forwarding_request_def
        io_bind_app create_ids_loop [OF assms(2)])
qed

theorem forwarding_create_spec_witness:
  "\<exists>s'. iptables_dnat_forwarding_create quiet_env [demo_profile ''x'' ''80''] (fw_world []) =
      (Inr (ERR_SUCCESS, profiles_with_ids quiet_env 0 [demo_profile ''x'' ''80'']), s')"
proof -
  have "fw_complete iptable_zero ([] @ [demo_profile ''x'' ''80'']) []"
    by (simp add: fw_complete_def rules_fit_def)
  moreover have "w_uuids (fw_world []) = 0" by (simp add: fw_world_def empty_world_def)
  ultimately show ?thesis
    using forwarding_create_spec [OF quiet_env_ok quiet_fw_config fw_world_files [of "[]"]] by fastforce
qed

lemma image_meets_iff: "(\<exists>x \<in> A. f x \<in> f ` B) \<longleftrightarrow> f ` B \<inter> f ` A \<noteq> {}"
  unfolding ex_in_conv [symmetric] by (simp add: Bex_def image_def) metis

text \<open>
  C6: updating and deleting forwarding profiles. Over stored and requested identifiers of one
  length, with distinct stored ones, an update replaces exactly the profile that has the
  identifier, a deletion removes exactly the profiles that are named, the packet filter is
  rebuilt from the list that was stored, and \<open>ERR_ID_MISMATCHED\<close> is answered exactly when no
  identifier was found.
\<close>

theorem forwarding_update_delete_spec:
  assumes "cjson_ok (cj E)" "fw_config E" "fw_files E s dmz old nova"
    "ids_of_length n (u # ds @ old)" "distinct (map ipt_id old)"
    "fw_complete dmz (u # old) nova"
    and new: "new = map (\<lambda>t. if ipt_id t = ipt_id u then u else t) old"
    and rest: "rest = filter (\<lambda>t. ipt_id t \<notin> ipt_id ` set ds) old"
  shows "(\<exists>s'. iptables_dnat_forwarding_update E [u] s =
        (Inr (if ipt_id u \<in> ipt_id ` set old then ERR_SUCCESS else ERR_ID_MISMATCHED, new), s') \<and>
      iptables_dnat_forwarding_request E s' = (Inr (ERR_SUCCESS, new), s') \<and>
      w_trace s' = w_trace s @ refresh_events dmz new nova) \<and>
    (\<exists>s'. iptables_dnat_forwarding_delete E ds s =
        (Inr (if ipt_id ` set ds \<inter> ipt_id ` set old \<noteq> {} then ERR_SUCCESS else ERR_ID_MISMATCHED, rest), s') \<and>
      iptables_dnat_forwarding_request E s' = (Inr (ERR_SUCCESS, rest), s') \<and>
      w_trace s' = w_trace s @ refresh_events dmz rest nova)"
proof (rule conjI)
  have m: "ipt_match u t \<longleftrightarrow> ipt_id u = ipt_id t" if "t \<in> set old" for t
    using that by (intro ipt_match_iff [of n] ids_of_length_mono [OF assms(4)]) auto
  let ?found = "ipt_id u \<in> ipt_id ` set old"
  have "update_matches old u = new" using m by (auto simp: new update_matches_def)
  moreover have "(\<exists>t \<in> set old. ipt_match u t) \<longleftrightarrow> ?found" using m by (auto simp: image_iff)
  ultimately have up: "update_forwarding (old, False) [u] = (new, ?found)" by simp
  have "fw_complete dmz new nova" using assms(6) by (auto simp: fw_complete_def rules_fit_def new)
  then obtain s' where s': "save_and_refresh E new (if ?found then ERR_SUCCESS else ERR_ID_MISMATCHED) s =
      (Inr (if ?found then ERR_SUCCESS else ERR_ID_MISMATCHED, new), s')"
    "fw_files E s' dmz new nova" "w_trace s' = w_trace s @ refresh_events dmz new nova"
    using save_and_refresh_ok [OF assms(1-3)] by blast
  have "iptables_dnat_forwarding_update E [u] s =
      (Inr (if ?found then ERR_SUCCESS else ERR_ID_MISMATCHED, new), s')"
    unfolding iptables_dnat_forwarding_update_def iptables_dnat_forwarding_request_def io_bind_app
      fw_files_request(2) [OF assms(3)] prod.case sum.case up Let_def if_not_swap
    by (rule s'(1))
  moreover have "iptables_dnat_forwarding_request E s' = (Inr (ERR_SUCCESS, new), s')"
    using fw_files_request(2) [OF s'(2)] by (simp add: iptables_dnat_forwarding_request_def)
  ultimately show "\<exists>s'. iptables_dnat_forwarding_update E [u] s =
        (Inr (if ?found then ERR_SUCCESS else ERR_ID_MISMATCHED, new), s') \<and>
      iptables_dnat_forwarding_request E s' = (Inr (ERR_SUCCESS, new), s') \<and>
      w_trace s' = w_trace s @ refresh_events dmz new nova"
    using s'(3) by (intro exI conjI)
next
  have ids: "ids_of_length n (ds @ old)" by (rule ids_of_length_mono [OF assms(4)]) auto
  let ?found = "ipt_id ` set ds \<inter> ipt_id ` set old \<noteq> {}"
  have "(\<exists>t \<in> set old. ipt_id t \<in> ipt_id ` set ds) \<longleftrightarrow> ?found" by (rule image_meets_iff)
  then have del: "delete_forwarding (old, False) ds = (rest, ?found)"
    using delete_forwarding_exact [OF ids assms(5), of False] by (simp add: rest)
  have "fw_complete dmz rest nova" using assms(6) by (auto simp: fw_complete_def rules_fit_def rest)
  then obtain s' where s': "save_and_refresh E rest (if ?found then ERR_SUCCESS else ERR_ID_MISMATCHED) s =
      (Inr (if ?found then ERR_SUCCESS else ERR_ID_MISMATCHED, rest), s')"
    "fw_files E s' dmz rest nova" "w_trace s' = w_trace s @ refresh_events dmz rest nova"
    using save_and_refresh_ok [OF assms(1-3)] by blast
  have "iptables_dnat_forwarding_delete E ds s =
      (Inr (if ?found then ERR_SUCCESS else ERR_ID_MISMATCHED, rest), s')"
    unfolding iptables_dnat_forwarding_delete_def iptables_dnat_forwarding_request_def io_bind_app
      fw_files_request(2) [OF assms(3)] prod.case sum.case del Let_def if_not_swap
    by (rule s'(1) [unfolded if_not_swap])
  moreover have "iptables_dnat_forwarding_request E s' = (Inr (ERR_SUCCESS, rest), s')"
    using fw_files_request(2) [OF s'(2)] by (simp add: iptables_dnat_forwarding_request_def)
  ultimately show "\<exists>s'. iptables_dnat_forwarding_delete E ds s =
        (Inr (if ?found then ERR_SUCCESS else ERR_ID_MISMATCHED, rest), s') \<and>
      iptables_dnat_forwarding_request E s' = (Inr (ERR_SUCCESS, rest), s') \<and>
      w_trace s' = w_trace s @ refresh_events dmz rest nova"
    using s'(3) by (intro exI conjI)
qed

theorem forwarding_update_delete_spec_witness:
  "\<exists>s'. iptables_dnat_forwarding_delete quiet_env [demo_profile ''a'' ''80'', demo_profile ''b'' ''81'']
      (fw_world [demo_profile ''a'' ''80'', demo_profile ''b'' ''81'', demo_profile ''c'' ''82'']) =
      (Inr (ERR_SUCCESS, [demo_profile ''c'' ''82'']), s')"
proof -
  have f: "fw_complete iptable_zero
      (demo_profile ''a'' ''90'' # [demo_profile ''a'' ''80'', demo_profile ''b'' ''81'', demo_profile ''c'' ''82'']) []"
    and i: "ids_of_length 1 (demo_profile ''a'' ''90'' # [demo_profile ''a'' ''80'', demo_profile ''b'' ''81''] @
       [demo_profile ''a'' ''80'', demo_profile ''b'' ''81'', demo_profile ''c'' ''82''])"
    by (simp_all add: fw_complete_def rules_fit_def ids_of_length_def)
  from forwarding_update_delete_spec [OF quiet_env_ok(1) quiet_fw_config fw_world_files i _ f refl refl]
  show ?thesis by auto
qed

lemma nova_list_to_json:
  assumes "cjson_ok L" "\<forall>ns \<in> set nss. nova_port_profiles ns \<noteq> None"
  shows "\<exists>j. cvt_iptable_nova_service_list_to_json L nss s = (Inr (Some j), s)"
proof -
  have "\<exists>j. io_fold (\<lambda>arr ns. io_bind (cvt_iptable_nova_service_to_json L ns) (\<lambda>json.
       io_ret (cJSON_AddItemToArray L arr json))) arr nss s = (Inr (Some j), s)"
    if "cJSON_IsArray L arr" for arr
    using that assms(2)
  proof (induction nss arbitrary: arr)
    case Nil
    then show ?case using IsArray_Some by (auto simp: io_simps)
  next
    case (Cons ns nss)
    then obtain ps where "nova_port_profiles ns = Some ps" by auto
    moreover have "cJSON_IsArray L (cJSON_AddItemToArray L arr v)" for v
      using Cons.prems(1) IsArray_foldl [OF assms(1), of arr "[v]"] by simp
    ultimately show ?case using Cons by (simp add: io_simps cvt_iptable_nova_service_to_json_def Let_def)
  qed
  then show ?thesis using assms(1)
    by (simp add: cvt_iptable_nova_service_list_to_json_def cjson_ok_def cjson_arrays_def)
qed

text \<open>
  Setting the service ports. The result of the write is tested the wrong way round: when
  the new list was stored the caller gets \<open>ERR_INTERNAL_SERVER\<close> and no rule is changed, and when
  the write was refused all chains are flushed and opened and the function then blocks on the
  mutex that the failed write left locked, before any profile is opened or the input policy
  is restored.
\<close>

theorem nova_set_inverted:
  assumes "cjson_ok (cj E)" "\<forall>ns \<in> set nss. nova_port_profiles ns \<noteq> None" "\<not> w_lock s"
    "iptables_nova_setting_file (get_config E) = Some p"
  shows "(writable E p \<longrightarrow> (\<exists>str s'. iptable_nova_service_set E nss s = (Inr ERR_INTERNAL_SERVER, s') \<and>
      w_trace s' = w_trace s \<and> w_files s' p = Some str)) \<and>
    (\<not> writable E p \<longrightarrow> (\<exists>s'. iptable_nova_service_set E nss s = (Inl Deadlock, s') \<and>
      w_trace s' = w_trace s @ map Exec iptables_default_setting_list))"
proof -
  obtain j where j: "cvt_iptable_nova_service_list_to_json (cj E) nss s = (Inr (Some j), s)"
    using nova_list_to_json [OF assms(1,2), of s] by (elim exE)
  obtain str where str: "cJSON_Print (cj E) (Some j) = Some str" by (rule Print_Some [OF assms(1)])
  have "writable E p \<Longrightarrow> \<exists>str s'. iptable_nova_service_set E nss s = (Inr ERR_INTERNAL_SERVER, s') \<and>
      w_trace s' = w_trace s \<and> w_files s' p = Some str"
  proof -
    let ?s = "s\<lparr>w_files := (w_files s)(p := Some str)\<rparr>"
    assume "writable E p"
    then have "write_data E str (Some p) TRUNCATE s = (Inr 0, ?s)"
      using assms(3) by (rule write_data_truncate [rotated])
    then have "iptable_nova_service_save_to_setting_file E nss s = (Inr ERR_INTERNAL_SERVER, ?s)"
      by (simp add: iptable_nova_service_save_to_setting_file_def io_bind_app j str assms(4) io_deref_Some io_ret_app)
    then have "iptable_nova_service_set E nss s = (Inr ERR_INTERNAL_SERVER, ?s)"
      by (simp add: iptable_nova_service_set_def io_bind_app io_ret_app)
    then show ?thesis by auto
  qed
  moreover have "\<not> writable E p \<Longrightarrow> \<exists>s'. iptable_nova_service_set E nss s = (Inl Deadlock, s') \<and>
      w_trace s' = w_trace s @ map Exec iptables_default_setting_list"
  proof -
    assume "\<not> writable E p"
    then have save: "iptable_nova_service_save_to_setting_file E nss s = (Inr ERR_SUCCESS, s\<lparr>w_lock := True\<rparr>)"
      using assms(3,4) j str by (simp add: iptable_nova_service_save_to_setting_file_def io_simps)
    obtain x s1 where s1: "io_for iptables_default_setting_list (execl_non_timeout E) (s\<lparr>w_lock := True\<rparr>) = (Inr x, s1)"
      "w_trace s1 = w_trace (s\<lparr>w_lock := True\<rparr>) @ map Exec iptables_default_setting_list"
      "same_frame (s\<lparr>w_lock := True\<rparr>) s1"
      by (rule emitsD [OF emits_execs, where s = "s\<lparr>w_lock := True\<rparr>"])
    then have "w_lock s1" by (simp add: same_frame_def)
    then have "iptable_nova_service_set E nss s = (Inl Deadlock, s1)"
      using save s1(1)
      by (simp add: iptable_nova_service_set_def iptables_refresh_def iptables_default_setting_def
          iptable_dnat_dmz_reload_from_setting_file_def
          iptable_dnat_dmz_request_from_setting_file_def io_simps)
    then show ?thesis using s1(2) by simp
  qed
  ultimately show ?thesis by blast
qed

theorem nova_set_inverted_witness:
  "\<exists>str s'. iptable_nova_service_set quiet_env [] (fw_world []) = (Inr ERR_INTERNAL_SERVER, s') \<and>
    w_trace s' = [] \<and> w_files s' ''/data/config/ezm/iptable_nova_setting.json'' = Some str"
  using nova_set_inverted [OF quiet_env_ok(1), of "[]" "fw_world []"]
  by (simp add: fw_world_def)

end
