(* ===== verification/MeshSetting.thy ===== *)
theory MeshSetting
  imports Wlan Device Emt Dhcp Iptables Lan MqttBridge
begin

text \<open>
  \<open>src/core/mesh/setting\<close>: the settings of the mesh with their JSON form, the work mode they hold,
  and the scripts that bring the device into one of the three work modes. With them come
  \<open>network_init\<close> of \<open>src/core/network/network.c\<close>, the description of the device itself
  (\<open>get_current_device_info\<close> of \<open>device.c\<close>) and the two functions of \<open>src/utils/app_mdns\<close> that
  publish it through a service file.
\<close>

section \<open>Data and conversions\<close>

abbreviation STANDALONE_MODE :: c_int where "STANDALONE_MODE \<equiv> 0"
abbreviation AGENT_MODE :: c_int where "AGENT_MODE \<equiv> 1"
abbreviation CONTROLLER_MODE :: c_int where "CONTROLLER_MODE \<equiv> 2"

record rssi_threshhold_t =
  rssi_up :: c_int
  rssi_down :: c_int

record antenna_installed_t =
  antenna_up :: bool
  antenna_down :: bool

record mesh_setting_t =
  ms_mesh_id :: cptr
  ms_mesh_name :: cptr
  ms_type :: cptr
  ms_rssi :: "rssi_threshhold_t option"
  ms_antenna :: "antenna_installed_t option"
  ms_backhaul_channel :: cptr
  ms_active_time :: c_int
  ms_work_mode :: cptr
  ms_weight_mesh :: c_int
  ms_link_connection :: cptr
  ms_minimum_snr :: c_int
  ms_wireless :: "wireless_t option"

definition cvt_rssi_threshhold_to_json :: "'j cjson_lib \<Rightarrow> rssi_threshhold_t option \<Rightarrow> 'j option" where
  "cvt_rssi_threshhold_to_json L r =
     (case r of
        None \<Rightarrow> None
      | Some x \<Rightarrow>
          (let json = cJSON_CreateObject L;
               json = cJSON_AddNumberToObject L json ''up'' (rssi_up x)
           in cJSON_AddNumberToObject L json ''down'' (rssi_down x)))"

definition cvt_antenna_installed_to_json :: "'j cjson_lib \<Rightarrow> antenna_installed_t option \<Rightarrow> 'j option" where
  "cvt_antenna_installed_to_json L a =
     (case a of
        None \<Rightarrow> None
      | Some x \<Rightarrow>
          (let json = cJSON_CreateObject L;
               json = cJSON_AddBoolToObject L json ''up'' (antenna_up x)
           in cJSON_AddBoolToObject L json ''down'' (antenna_down x)))"

definition cvt_mesh_setting_to_json :: "'j cjson_lib \<Rightarrow> mesh_setting_t option \<Rightarrow> 'j option" where
  "cvt_mesh_setting_to_json L mesh_data =
     (case mesh_data of
        None \<Rightarrow> None
      | Some m \<Rightarrow>
          (let json = cJSON_CreateObject L;
               rssi = cvt_rssi_threshhold_to_json L (ms_rssi m);
               antenna = cvt_antenna_installed_to_json L (ms_antenna m);
               wireless = cvt_wireless_to_json L (ms_wireless m);
               json = cJSON_AddStringToObject L json ''mesh_id'' (ms_mesh_id m);
               json = cJSON_AddStringToObject L json ''mesh_name'' (ms_mesh_name m);
               json = cJSON_AddStringToObject L json ''type'' (ms_type m);
               json = cJSON_AddItemToObject L json ''rssi_threshhold'' rssi;
               json = cJSON_AddItemToObject L json ''antenna_installed'' antenna;
               json = cJSON_AddStringToObject L json ''backhaul_channel'' (ms_backhaul_channel m);
               json = cJSON_AddNumberToObject L json ''active_time_after_set'' (ms_active_time m);
               json = cJSON_AddStringToObject L json ''work_mode'' (ms_work_mode m);
               json = cJSON_AddNumberToObject L json ''weight_mesh'' (ms_weight_mesh m);
               json = cJSON_AddStringToObject L json ''mesh_link_connection'' (ms_link_connection m);
               json = cJSON_AddNumberToObject L json ''minimum_mesh_link_snr'' (ms_minimum_snr m)
           in cJSON_AddItemToObject L json ''wireless'' wireless))"

definition cvt_json_to_rssi_threshhold :: "'j cjson_lib \<Rightarrow> 'j option \<Rightarrow> rssi_threshhold_t" where
  "cvt_json_to_rssi_threshhold L json =
     \<lparr>rssi_up = json_int L json ''up'', rssi_down = json_int L json ''down''\<rparr>"

definition cvt_json_to_antenna_installed :: "'j cjson_lib \<Rightarrow> 'j option \<Rightarrow> antenna_installed_t" where
  "cvt_json_to_antenna_installed L json =
     \<lparr>antenna_up = json_bool L json ''up'', antenna_down = json_bool L json ''down''\<rparr>"

definition cvt_json_to_mesh_setting :: "'j cjson_lib \<Rightarrow> 'j option \<Rightarrow> mesh_setting_t" where
  "cvt_json_to_mesh_setting L json =
     \<lparr>ms_mesh_id = json_str L json ''mesh_id'',
      ms_mesh_name = json_str L json ''mesh_name'',
      ms_type = json_str L json ''type'',
      ms_rssi = json_sub L json ''rssi_threshhold'' (cvt_json_to_rssi_threshhold L),
      ms_antenna = json_sub L json ''antenna_installed'' (cvt_json_to_antenna_installed L),
      ms_backhaul_channel = json_str L json ''backhaul_channel'',
      ms_active_time = json_int L json ''active_time_after_set'',
      ms_work_mode = json_str L json ''work_mode'',
      ms_weight_mesh = json_int L json ''weight_mesh'',
      ms_link_connection = json_str L json ''mesh_link_connection'',
      ms_minimum_snr = json_int L json ''minimum_mesh_link_snr'',
      ms_wireless = json_sub L json ''wireless'' (cvt_json_to_wireless L)\<rparr>"

text \<open>
  Releasing the settings faults when the wireless settings have no interface: \<open>wireless_free\<close> reads
  through that pointer.
\<close>

definition mesh_setting_free :: "mesh_setting_t option \<Rightarrow> ('s, unit) io" where
  "mesh_setting_free mesh_setting =
     (case mesh_setting of None \<Rightarrow> io_ret () | Some m \<Rightarrow> wireless_free (ms_wireless m))"

section \<open>The work mode\<close>

text \<open>The settings are read again on every call.\<close>

definition read_mesh_setting :: "'j env \<Rightarrow> ('j, mesh_setting_t) wio" where
  "read_mesh_setting E =
     io_bind (read_data (mesh_setting_file (get_config E))) (\<lambda>mesh_setting_str.
     io_ret (cvt_json_to_mesh_setting (cj E) (cJSON_Parse (cj E) mesh_setting_str)))"

definition get_work_mode :: "'j env \<Rightarrow> ('j, c_int) wio" where
  "get_work_mode E =
     io_bind (read_mesh_setting E) (\<lambda>mesh_setting.
     io_bind (io_deref (ms_work_mode mesh_setting)) (\<lambda>work_mode.
     if work_mode = ''standalone'' then
       io_then (mesh_setting_free (Some mesh_setting)) (io_ret STANDALONE_MODE)
     else if work_mode = ''agent'' then
       io_then (mesh_setting_free (Some mesh_setting)) (io_ret AGENT_MODE)
     else if work_mode = ''controller'' then
       io_then (mesh_setting_free (Some mesh_setting)) (io_ret CONTROLLER_MODE)
     else io_ret (-1)))"

definition get_work_mode_str :: "'j env \<Rightarrow> ('j, cptr) wio" where
  "get_work_mode_str E = io_bind (read_mesh_setting E) (\<lambda>m. io_ret (ms_work_mode m))"

section \<open>The device itself, and its service file\<close>

abbreviation EZM_VERSION_DEFAULT :: string where "EZM_VERSION_DEFAULT \<equiv> ''1.0''"
abbreviation WAN_INTERFACE :: string where "WAN_INTERFACE \<equiv> ''eth0''"
abbreviation AVAHI_EZM_SERVICE_FILE :: string where
  "AVAHI_EZM_SERVICE_FILE \<equiv> ''/etc/avahi/services/ezm.service''"
abbreviation AVAHI_THING_SERVICE_FILE :: string where
  "AVAHI_THING_SERVICE_FILE \<equiv> ''/etc/avahi/services/thing.service''"

text \<open>The name of the device is the address of its interface.\<close>

definition get_current_device_info :: "'j env \<Rightarrow> ('j, device_info_t) wio" where
  "get_current_device_info E =
     io_bind get_hub_id (\<lambda>hub.
     io_bind get_ezm_id (\<lambda>ezm.
     io_bind (get_interface_mac WAN_INTERFACE) (\<lambda>name.
     io_bind (get_work_mode_str E) (\<lambda>role.
     io_bind (get_interface_mac WAN_INTERFACE) (\<lambda>mac.
     io_bind (get_interface_ip E WAN_INTERFACE) (\<lambda>ip.
     io_ret (device_zero\<lparr>dev_hub_id := app_strdup hub, dev_ezm_id := app_strdup ezm,
       dev_ezm_version := Some EZM_VERSION_DEFAULT, dev_ezm_name := app_strdup name,
       dev_role := app_strdup role, dev_mac := app_strdup mac, dev_ip := app_strdup ip\<rparr>)))))))"

text \<open>One record of the service file.\<close>

definition txt_record :: "string \<Rightarrow> cptr \<Rightarrow> ('s, string) io" where
  "txt_record key val =
     io_bind (fmt_s val) (\<lambda>v. io_ret (''<txt-record>'' @ key @ ''='' @ v @ ''</txt-record>\<newline>''))"

definition avahi_head :: string where
  "avahi_head = map (\<lambda>c. if c = CHR ''~'' then CHR 0x22 else if c = CHR ''^'' then CHR 0x27 else c)
     (''<?xml version=~v1.0.0~ standalone=^no^?><!--*-nxml-*-->\<newline>'' @
      ''<!DOCTYPE service-group SYSTEM ~avahi-service.dtd~>\<newline>'' @
      ''<service-group>\<newline><name>Ezm Service</name>\<newline><service>\<newline><type>_ezm._tcp</type>\<newline>'')"

definition mdns_create_publisher :: "'j env \<Rightarrow> ('j, unit) wio" where
  "mdns_create_publisher E =
     io_bind (get_current_device_info E) (\<lambda>d.
     io_bind (txt_record ''hub_id'' (dev_hub_id d)) (\<lambda>t1.
     io_bind (txt_record ''ezm_id'' (dev_ezm_id d)) (\<lambda>t2.
     io_bind (txt_record ''ezm_version'' (dev_ezm_version d)) (\<lambda>t3.
     io_bind (txt_record ''ezm_name'' (dev_ezm_name d)) (\<lambda>t4.
     io_bind (txt_record ''role'' (dev_role d)) (\<lambda>t5.
     io_bind (txt_record ''mac'' (dev_mac d)) (\<lambda>t6.
     io_bind (txt_record ''ip'' (dev_ip d)) (\<lambda>t7.
     io_bind (sprintf_buf 4096 (avahi_head @ t1 @ t2 @ t3 @ t4 @ t5 @ t6 @ t7 @
       ''</service>\<newline></service-group>'')) (\<lambda>avahi_data.
     io_then (write_data E avahi_data (Some AVAHI_EZM_SERVICE_FILE) TRUNCATE)
     (io_then (sleep_s 1) (restart_service E (Some ''avahi-deamon''))))))))))))"

definition mdns_remove_publisher :: "'j env \<Rightarrow> string \<Rightarrow> ('j, unit) wio" where
  "mdns_remove_publisher E service_file =
     io_seq [emit (Remove service_file),
             io_modify (w_files_update (\<lambda>f. f(service_file := None))),
             sleep_s 1,
             restart_service E (Some ''avahi-deamon'')]"

section \<open>network.c\<close>

definition network_init :: "nat \<Rightarrow> 'j env \<Rightarrow> ('j, unit) wio" where
  "network_init n E =
     io_seq [dns_dhcp_reload_from_setting_file n E,
             io_void (iptables_refresh E),
             io_void (lan_reload_from_setting_file E),
             io_void (wan_reload_from_setting_file E)]"


section \<open>The scripts of the work modes\<close>

text \<open>
  The scripts are long runs of calls whose results are dropped. One command stands for one call;
  \<open>run_cmd\<close> is the call.
\<close>

datatype service_verb = SvStart | SvStop | SvRestart | SvEnable | SvDisable

datatype cfg_cmd =
    UciSet string string
  | UciDelete string
  | UciCommit string
  | Service service_verb string
  | Run string
  | Wait nat

fun run_cmd :: "'j env \<Rightarrow> cfg_cmd \<Rightarrow> ('j, unit) wio" where
  "run_cmd E (UciSet k v) = io_void (app_uci_set E (Some k) (Some v))"
| "run_cmd E (UciDelete k) = io_void (app_uci_delete E (Some k))"
| "run_cmd E (UciCommit p) = io_void (app_uci_commit E (Some p))"
| "run_cmd E (Service SvStart n) = start_service E (Some n)"
| "run_cmd E (Service SvStop n) = stop_service E (Some n)"
| "run_cmd E (Service SvRestart n) = restart_service E (Some n)"
| "run_cmd E (Service SvEnable n) = enable_service E (Some n)"
| "run_cmd E (Service SvDisable n) = disable_service E (Some n)"
| "run_cmd E (Run c) = execl_non_timeout E c"
| "run_cmd E (Wait n) = sleep_s n"

definition run_script :: "'j env \<Rightarrow> cfg_cmd list \<Rightarrow> ('j, unit) wio" where
  "run_script E cs = io_for cs (run_cmd E)"

definition quoted :: "string \<Rightarrow> string" where
  "quoted v = CHR 0x27 # v @ [CHR 0x27]"

definition standalone_stop_mesh :: "cfg_cmd list" where
  "standalone_stop_mesh =
     [Service SvStop ''ezmesh'',
      Service SvStop ''hyd'',
      Service SvDisable ''ezmesh'',
      Service SvDisable ''hyd'',
      UciSet ''repacd.repacd.Ezmesh'' ''0'',
      UciSet ''repacd.repacd.Enable'' ''0'',
      UciSet ''repacd.MAPConfig.Enable'' ''0'',
      UciCommit ''repacd'']"

definition standalone_network :: "cfg_cmd list" where
  "standalone_network =
     [UciSet ''network.lan'' ''interface'',
      UciSet ''network.lan.force_link'' (quoted ''1''),
      UciSet ''network.lan.type'' (quoted ''bridge''),
      UciSet ''network.lan.ipaddr'' ''192.168.124.1'',
      UciSet ''network.lan.netmask'' (quoted ''255.255.255.0''),
      UciSet ''network.lan.ip6assign'' (quoted ''60''),
      UciSet ''network.lan.multicast_querier'' (quoted ''0''),
      UciSet ''network.lan.igmp_snooping'' (quoted ''0''),
      UciSet ''network.lan.ieee1905managed'' (quoted ''1''),
      UciSet ''network.lan.proto'' (quoted ''static''),
      UciSet ''network.lan.ifname'' (quoted ''eth1 eth2 eth3 eth4''),
      UciSet ''network.wan'' ''interface'',
      UciSet ''network.wan.proto'' (quoted ''dhcp''),
      UciSet ''network.wan.ifname'' (quoted ''eth0''),
      UciSet ''dhcp.lan.ignore'' ''0'',
      UciCommit ''dhcp'',
      Service SvRestart ''dnsmasq'',
      Service SvRestart ''network'',
      Wait 180]"

definition standalone_services :: "cfg_cmd list" where
  "standalone_services =
     [Service SvEnable ''authen_service'',
      Service SvEnable ''thing_service'',
      Service SvRestart ''authen_service'',
      Service SvRestart ''thing_service'']"

definition agent_services :: "cfg_cmd list" where
  "agent_services =
     [Service SvStop ''authen_service'',
      Service SvStop ''thing_service'',
      Service SvDisable ''authen_service'',
      Service SvDisable ''thing_service'']"

definition agent_config :: "cfg_cmd list" where
  "agent_config =
     [Run ''/data/script/ezm/symplink.sh'',
      UciSet ''network.lan'' ''interface'',
      UciSet ''network.lan.force_link'' (quoted ''1''),
      UciSet ''network.lan.type'' (quoted ''bridge''),
      UciSet ''network.lan.ipaddr'' ''192.168.123.1'',
      UciSet ''network.lan.netmask'' (quoted ''255.255.255.0''),
      UciSet ''network.lan.ip6assign'' (quoted ''60''),
      UciSet ''network.lan.multicast_querier'' (quoted ''0''),
      UciSet ''network.lan.igmp_snooping'' (quoted ''0''),
      UciSet ''network.lan.ieee1905managed'' (quoted ''1''),
      UciSet ''network.lan.proto'' (quoted ''dhcp''),
      UciSet ''network.lan.ifname'' (quoted ''eth1 eth2 eth3 eth4''),
      UciDelete ''network.wan'',
      UciCommit ''network'',
      UciSet ''dhcp.lan.ignore'' ''1'',
      UciCommit ''dhcp'',
      Service SvRestart ''dnsmasq'',
      Service SvRestart ''network'',
      UciSet ''wireless.wifi0.repacd_map_bsta_preference'' ''1'',
      UciSet ''wireless.wifi1.repacd_map_bsta_preference'' ''2'',
      UciSet ''wireless.qcawifi'' ''qcawifi'',
      UciSet ''wireless.qcawifi.samessid_disable'' ''1'',
      UciCommit ''wireless'',
      UciSet ''wsplcd.config.MapMaxBss'' ''6'',
      UciCommit ''wsplcd'',
      Service SvEnable ''ezmesh'',
      Service SvEnable ''hyd'',
      UciSet ''repacd.repacd.Ezmesh'' ''1'',
      UciSet ''repacd.repacd.Enable'' ''1'',
      UciSet ''repacd.repacd.ConfigREMode'' ''son'',
      UciSet ''repacd.MAPConfig.FirstConfigRequired'' ''1'',
      UciSet ''repacd.MAPConfig.Enable'' ''1'',
      UciSet ''repacd.MAPConfig.MapVersionEnabled'' ''3'',
      UciSet ''repacd.MAPConfig.OnboardingType'' (quoted ''none''),
      UciSet ''repacd.MAPConfig.FronthaulAuthType'' ''1'',
      UciCommit ''repacd'',
      Service SvRestart ''repacd'']"

definition controller_services :: "cfg_cmd list" where
  "controller_services =
     [Service SvEnable ''authen_service'',
      Service SvEnable ''thing_service'',
      Service SvRestart ''authen_service'',
      Service SvRestart ''thing_service'',
      Service SvStop ''authen_service'',
      Service SvStop ''thing_service'',
      Service SvDisable ''authen_service'',
      Service SvDisable ''thing_service'']"

definition controller_network :: "cfg_cmd list" where
  "controller_network =
     [Run ''/data/script/ezm/symplink.sh'',
      UciSet ''dhcp.lan.ignore'' ''0'',
      UciCommit ''dhcp'',
      UciSet ''network.lan.proto'' ''static'',
      UciSet ''network.lan.ipaddr'' ''192.168.123.1'',
      UciSet ''network.wan'' ''interface'',
      UciSet ''network.wan.ifname'' ''eth0'',
      UciSet ''network.wan.proto'' ''dhcp'',
      UciCommit ''network'',
      UciSet ''wireless.wifi0.repacd_create_ctrl_fbss'' ''1'',
      UciSet ''wireless.wifi0.repacd_create_ctrl_bbss'' ''1'',
      UciSet ''wireless.wifi1.repacd_create_ctrl_fbss'' ''1'',
      UciSet ''wireless.wifi1.repacd_create_ctrl_bbss'' ''1'',
      UciSet ''wireless.qcawifi'' ''qcawifi'',
      UciSet ''wireless.qcawifi.samessid_disable'' ''1'',
      UciCommit ''wireless'',
      UciSet ''repacd.repacd.Ezmesh'' ''1'',
      UciSet ''repacd.repacd.Enable'' ''1'',
      UciSet ''repacd.repacd.ConfigREMode'' ''son'',
      UciSet ''repacd.MAPConfig.Enable'' ''1'',
      UciSet ''repacd.MAPConfig.FirstConfigRequired'' ''1'',
      UciSet ''repacd.MAPConfig.BSSInstantiationTemplate'' (quoted ''scheme-a.conf''),
      UciSet ''repacd.MAPConfig.MapVersionEnabled'' ''3'']"

definition controller_fronthaul :: "string \<Rightarrow> string \<Rightarrow> cfg_cmd list" where
  "controller_fronthaul ssid key =
     [UciSet ''repacd.MAPConfig.FronthaulSSID'' ssid,
      UciSet ''repacd.MAPConfig.FronthaulKey'' key,
      UciSet ''repacd.MAPConfig.BackhaulSSID'' (quoted ''EzMeshBackhaul''),
      UciSet ''repacd.MAPConfig.BackhaulKey'' (quoted ''QCOM#1WiFi''),
      UciSet ''repacd.MAPConfig.FronthaulAuthType'' ''1'',
      UciCommit ''repacd'']"

definition controller_mesh :: "cfg_cmd list" where
  "controller_mesh =
     [UciSet ''ezlbd.Estimator_Adv.ActDetectMinInterval'' (quoted ''10''),
      UciSet ''ezlbd.Estimator_Adv.ActDetectMinPktPerSec'' (quoted ''5''),
      UciSet ''ezlbd.APSteer.LowRSSIAPSteerThreshold_SIG'' (quoted ''35''),
      UciSet ''ezlbd.APSteer.APSteerMaxRetryCount'' (quoted ''20''),
      UciSet ''ezlbd.StaDB.MarkAdvClientAsDualBand'' ''1'',
      UciSet ''ezlbd.SteerExec_Adv.StartInBTMActiveState'' ''1'',
      UciSet ''ezlbd.config.InactDetectionFromTx'' (quoted ''1''),
      UciCommit ''ezlbd'',
      UciSet ''ezmesh.MultiAP.EnableChannelSelection'' ''1'',
      UciSet ''ezmesh.MultiAP.BkScanIntervalMin'' ''0'',
      UciSet ''ezmesh.MultiAP.ChannelSelectionDelaySec'' ''0'',
      UciSet ''ezmesh.MultiAP.ChannelSelectionOnGlobalPref'' ''0'',
      UciSet ''ezmesh.MultiAP.EnableTopologyOpt'' ''1'',
      UciCommit ''ezmesh'',
      Service SvEnable ''ezmesh'',
      Service SvEnable ''hyd'',
      Service SvRestart ''repacd'']"

definition run_standalone_mode :: "nat \<Rightarrow> 'j env \<Rightarrow> ('j, unit) wio" where
  "run_standalone_mode n E = io_seq
     [io_bind request_mqtt_bridge_client (\<lambda>ip.
        if ip \<noteq> None then io_void (delete_mqtt_bridge_client E) else io_ret ()),
      io_bind request_mqtt_bridge_server (\<lambda>ip.
        if ip \<noteq> None then io_then (delete_mqtt_bridge_server E) (restart_mqtt_service E) else io_ret ()),
      run_script E standalone_stop_mesh,
      network_init n E,
      run_script E standalone_network,
      run_script E standalone_services,
      mdns_create_publisher E]"

text \<open>The steps of the agent up to its configuration, and the whole mode.\<close>

definition agent_prepare :: "nat \<Rightarrow> 'j env \<Rightarrow> ('j, unit) wio" where
  "agent_prepare n E = io_seq
     [io_bind request_mqtt_bridge_server (\<lambda>ip.
        if ip \<noteq> None then io_void (delete_mqtt_bridge_server E) else io_ret ()),
      io_bind request_mqtt_bridge_client (\<lambda>ip.
        if ip = None then io_then (create_mqtt_bridge_client E) (restart_mqtt_service E) else io_ret ()),
      run_script E agent_services,
      mdns_remove_publisher E AVAHI_THING_SERVICE_FILE,
      mdns_remove_publisher E AVAHI_EZM_SERVICE_FILE,
      network_init n E]"

definition run_agent_mode :: "nat \<Rightarrow> 'j env \<Rightarrow> ('j, unit) wio" where
  "run_agent_mode n E = io_seq [agent_prepare n E, run_script E agent_config, wait_daemon n E]"

definition controller_prepare :: "nat \<Rightarrow> 'j env \<Rightarrow> ('j, unit) wio" where
  "controller_prepare n E = io_seq
     [io_bind request_mqtt_bridge_client (\<lambda>ip.
        if ip \<noteq> None then io_void (delete_mqtt_bridge_client E) else io_ret ()),
      io_bind request_mqtt_bridge_server (\<lambda>ip.
        if ip = None then io_then (create_mqtt_bridge_server E) (restart_mqtt_service E) else io_ret ()),
      run_script E controller_services,
      mdns_remove_publisher E AVAHI_THING_SERVICE_FILE,
      mdns_remove_publisher E AVAHI_EZM_SERVICE_FILE,
      network_init n E]"

text \<open>The name and the key of the wireless network, each printed into 128 characters.\<close>

definition controller_wifi :: "'j env \<Rightarrow> mesh_setting_t \<Rightarrow> ('j, unit) wio" where
  "controller_wifi E mesh_setting =
     io_bind (io_deref (ms_wireless mesh_setting)) (\<lambda>w.
     io_bind (io_deref (wireless_iface w)) (\<lambda>i.
     io_bind (fmt_s (wifi_ssid i)) (\<lambda>s.
     io_bind (sprintf_buf 128 (quoted s)) (\<lambda>ssid.
     io_bind (fmt_s (wifi_key i)) (\<lambda>k.
     io_bind (sprintf_buf 128 (quoted k)) (\<lambda>key.
     run_script E (controller_fronthaul ssid key)))))))"

text \<open>When the mesh is up the controller enters itself into the list of devices.\<close>

definition controller_register :: "'j env \<Rightarrow> ('j, unit) wio" where
  "controller_register E =
     io_bind (get_current_device_info E) (\<lambda>d.
     set_device_list_to_file E [d\<lparr>dev_status := DEVICE_ON\<rparr>])"

definition run_controller_mode :: "nat \<Rightarrow> 'j env \<Rightarrow> ('j, unit) wio" where
  "run_controller_mode n E =
     io_then (controller_prepare n E)
     (io_bind (read_mesh_setting E) (\<lambda>mesh_setting.
      io_seq [run_script E controller_network,
              controller_wifi E mesh_setting,
              run_script E controller_mesh,
              wait_daemon n E,
              sleep_s 5,
              controller_register E]))"


section \<open>Round trips\<close>

lemma rssi_json:
  assumes "cjson_ok L"
  shows "cJSON_IsObject L (cvt_rssi_threshhold_to_json L (Some r))"
    "cvt_json_to_rssi_threshhold L (cvt_rssi_threshhold_to_json L (Some r)) = r"
    "cvt_rssi_threshhold_to_json L None = None"
  using assms by (simp_all add: cvt_rssi_threshhold_to_json_def cvt_json_to_rssi_threshhold_def Let_def obj_simps)

lemma antenna_json:
  assumes "cjson_ok L"
  shows "cJSON_IsObject L (cvt_antenna_installed_to_json L (Some a))"
    "cvt_json_to_antenna_installed L (cvt_antenna_installed_to_json L (Some a)) = a"
    "cvt_antenna_installed_to_json L None = None"
  using assms
  by (simp_all add: cvt_antenna_installed_to_json_def cvt_json_to_antenna_installed_def Let_def obj_simps)

lemma mesh_setting_json:
  assumes "cjson_ok L"
  shows "cJSON_IsObject L (cvt_mesh_setting_to_json L (Some m))"
    "cvt_json_to_mesh_setting L (cvt_mesh_setting_to_json L (Some m)) = m"
    "cvt_mesh_setting_to_json L None = None"
  using assms
  by (simp_all add: cvt_mesh_setting_to_json_def cvt_json_to_mesh_setting_def Let_def obj_simps
      json_obj_sub [where enc = "cvt_rssi_threshhold_to_json L"] rssi_json
      json_obj_sub [where enc = "cvt_antenna_installed_to_json L"] antenna_json
      json_obj_sub [where enc = "cvt_wireless_to_json L"] wireless_json)

section \<open>The stored settings\<close>

text \<open>The setting file can be read and holds the given settings.\<close>

definition mesh_stored :: "'j env \<Rightarrow> 'j world \<Rightarrow> mesh_setting_t \<Rightarrow> bool" where
  "mesh_stored E s m \<longleftrightarrow> \<not> w_lock s \<and>
     (\<exists>p d. mesh_setting_file (get_config E) = Some p \<and> w_files s p = Some d \<and>
        cvt_json_to_mesh_setting (cj E) (cJSON_Parse (cj E) (Some d)) = m)"

lemma read_mesh_setting_stored:
  "mesh_stored E s m \<Longrightarrow> read_mesh_setting E s = (Inr m, s)"
  by (auto simp: mesh_stored_def read_mesh_setting_def io_simps)

text \<open>Settings that can be released: wireless settings come with their interface.\<close>

definition mesh_wifi_ok :: "mesh_setting_t \<Rightarrow> bool" where
  "mesh_wifi_ok m \<longleftrightarrow> (\<forall>w. ms_wireless m = Some w \<longrightarrow> wireless_iface w \<noteq> None)"

lemma mesh_setting_free_app:
  "mesh_setting_free None s = (Inr (), s)"
  "mesh_setting_free (Some m) s = (if mesh_wifi_ok m then Inr () else Inl NullDeref, s)"
  by (auto simp: mesh_setting_free_def wireless_free_def wifi_iface_free_def mesh_wifi_ok_def io_simps
      split: option.splits)

section \<open>What the scripts run\<close>

text \<open>The action of a command, and the commands that fit the buffers.\<close>

fun cmd_event :: "cfg_cmd \<Rightarrow> event" where
  "cmd_event (UciSet k v) = ExecT 2000 (''uci set '' @ k @ ''='' @ v)"
| "cmd_event (UciDelete k) = ExecT 2000 (''uci delete '' @ k)"
| "cmd_event (UciCommit p) = ExecT 2000 (''uci commit '' @ p)"
| "cmd_event (Service SvStart n) = ExecT 120000 (''/etc/init.d/'' @ n @ '' start'')"
| "cmd_event (Service SvStop n) = ExecT 120000 (''/etc/init.d/'' @ n @ '' stop'')"
| "cmd_event (Service SvRestart n) = ExecT 120000 (''/etc/init.d/'' @ n @ '' restart'')"
| "cmd_event (Service SvEnable n) = ExecT 120000 (''/etc/init.d/'' @ n @ '' enable'')"
| "cmd_event (Service SvDisable n) = ExecT 120000 (''/etc/init.d/'' @ n @ '' disable'')"
| "cmd_event (Run c) = Exec c"
| "cmd_event (Wait n) = Sleep n"

fun cmd_short :: "cfg_cmd \<Rightarrow> bool" where
  "cmd_short (UciSet k v) \<longleftrightarrow> length k + length v < 191"
| "cmd_short (UciDelete k) \<longleftrightarrow> length k < 188"
| "cmd_short (UciCommit p) \<longleftrightarrow> length p < 188"
| "cmd_short (Service v n) \<longleftrightarrow> length n < 179"
| "cmd_short (Run c) \<longleftrightarrow> True"
| "cmd_short (Wait n) \<longleftrightarrow> True"

lemma short_names: "(n :: nat) < 179 \<Longrightarrow> n < 180"
  by simp

lemma emits_run_cmd: "cmd_short c \<Longrightarrow> emits E (run_cmd E c) [cmd_event c]"
proof (induction E c rule: run_cmd.induct)
  case (1 E k v)
  then show ?case by (simp only: run_cmd.simps cmd_event.simps cmd_short.simps emits_void emits_uci_set)
next
  case (2 E k)
  then show ?case by (simp only: run_cmd.simps cmd_event.simps cmd_short.simps emits_void emits_uci_delete)
next
  case (3 E p)
  then show ?case by (simp only: run_cmd.simps cmd_event.simps cmd_short.simps emits_void emits_uci_commit)
qed (simp_all only: run_cmd.simps cmd_event.simps cmd_short.simps emits_services emits_execl_non_timeout
    emits_sleep short_names)

lemma emits_run_script:
  assumes "list_all cmd_short cs"
  shows "emits E (run_script E cs) (map cmd_event cs)"
proof -
  have "emits E (io_for cs (run_cmd E)) (concat (map (\<lambda>c. [cmd_event c]) cs))"
    using assms by (intro emits_for emits_run_cmd) (simp add: list_all_iff)
  then show ?thesis by (simp add: run_script_def)
qed

lemma scripts_short:
  "list_all cmd_short standalone_stop_mesh" "list_all cmd_short standalone_network"
  "list_all cmd_short standalone_services" "list_all cmd_short agent_services"
  "list_all cmd_short agent_config" "list_all cmd_short controller_services"
  "list_all cmd_short controller_network" "list_all cmd_short controller_mesh"
  by code_simp+

lemma fronthaul_short:
  "length s < 126 \<Longrightarrow> length k < 126 \<Longrightarrow> list_all cmd_short (controller_fronthaul (quoted s) (quoted k))"
  by (simp add: controller_fronthaul_def quoted_def)

text \<open>The configuration packages that were changed and not committed.\<close>

fun package :: "string \<Rightarrow> string" where
  "package k = takeWhile (\<lambda>c. c \<noteq> CHR ''.'') k"

fun uncommitted :: "string list \<Rightarrow> cfg_cmd list \<Rightarrow> string list" where
  "uncommitted ps [] = ps"
| "uncommitted ps (UciSet k v # cs) = uncommitted (List.insert (package k) ps) cs"
| "uncommitted ps (UciDelete k # cs) = uncommitted (List.insert (package k) ps) cs"
| "uncommitted ps (UciCommit p # cs) = uncommitted (removeAll p ps) cs"
| "uncommitted ps (_ # cs) = uncommitted ps cs"

text \<open>The last thing that happened to a service: enabled or disabled, running or stopped.\<close>

fun service_on :: "string \<Rightarrow> bool option \<times> bool option \<Rightarrow> cfg_cmd list \<Rightarrow> bool option \<times> bool option" where
  "service_on n st [] = st"
| "service_on n (en, run) (Service v m # cs) = service_on n
     (if m \<noteq> n then (en, run)
      else case v of SvStart \<Rightarrow> (en, Some True) | SvStop \<Rightarrow> (en, Some False) | SvRestart \<Rightarrow> (en, Some True)
        | SvEnable \<Rightarrow> (Some True, run) | SvDisable \<Rightarrow> (Some False, run)) cs"
| "service_on n st (_ # cs) = service_on n st cs"


section \<open>Waiting for the mesh\<close>

lemma wait_daemon_iff:
  "(\<exists>s'. wait_daemon n E s = (Inr (), s')) \<longleftrightarrow> (\<exists>k<n. daemon_up_at E (w_trace s) k)"
proof (induction n arbitrary: s)
  case (Suc n)
  let ?s = "s\<lparr>w_trace := w_trace s @ [Connect, Sleep 1]\<rparr>"
  show ?case
  proof (cases "daemon_up E (w_trace s)")
    case True
    then have "daemon_up_at E (w_trace s) 0" by (simp add: daemon_up_at_def)
    then show ?thesis using wait_daemon_up [of E s 0 "Suc n"] by auto
  next
    case False
    then have "wait_daemon (Suc n) E s = wait_daemon n E ?s"
      by (simp add: ezm_deamon_is_running_def io_simps)
    moreover have "(\<exists>k<n. daemon_up_at E (w_trace ?s) k) \<longleftrightarrow> (\<exists>k<Suc n. daemon_up_at E (w_trace s) k)"
    proof -
      have "\<not> daemon_up_at E (w_trace s) 0" using False by (simp add: daemon_up_at_def)
      then show ?thesis using False by (auto simp: Ex_less_Suc2 daemon_up_at_Suc)
    qed
    ultimately show ?thesis using Suc.IH [of ?s] by simp
  qed
qed (simp add: io_simps)

lemma io_seq_returns:
  "(\<exists>s'. io_seq (m # ms) s = (Inr (), s')) \<longleftrightarrow>
     (\<exists>s1. m s = (Inr (), s1) \<and> (\<exists>s'. io_seq ms s1 = (Inr (), s')))"
  by (auto simp: io_then_app split: prod.splits sum.splits)

lemma script_then_returns:
  assumes "list_all cmd_short cs" "\<And>s1. w_trace s1 = w_trace s @ map cmd_event cs \<Longrightarrow> P s1 \<longleftrightarrow> Q"
  shows "(\<exists>s1. run_script E cs s = (Inr (), s1) \<and> P s1) \<longleftrightarrow> Q"
proof -
  obtain x s1 where "run_script E cs s = (Inr x, s1)" "w_trace s1 = w_trace s @ map cmd_event cs"
    by (rule emitsD [OF emits_run_script [OF assms(1)], where s = s])
  then show ?thesis using assms(2) by auto
qed

section \<open>Properties\<close>

text \<open>
  The work mode. With stored settings, the function returns the number of each of the three
  modes and changes nothing; an unknown name gives -1. It faults when the settings have no work
  mode, and, for a known one, when the wireless settings have no interface.
\<close>

theorem get_work_mode_spec:
  assumes "mesh_stored E s m"
  shows "get_work_mode E s =
    (case ms_work_mode m of
       None \<Rightarrow> (Inl NullDeref, s)
     | Some mode \<Rightarrow>
         if mode \<notin> {''standalone'', ''agent'', ''controller''} then (Inr (-1), s)
         else if \<not> mesh_wifi_ok m then (Inl NullDeref, s)
         else (Inr (if mode = ''standalone'' then STANDALONE_MODE
                    else if mode = ''agent'' then AGENT_MODE else CONTROLLER_MODE), s))"
proof (cases "ms_work_mode m")
  case None
  then show ?thesis by (simp add: get_work_mode_def io_bind_app read_mesh_setting_stored [OF assms] io_simps)
next
  case (Some mode)
  then show ?thesis
    by (simp add: get_work_mode_def io_bind_app read_mesh_setting_stored [OF assms] io_simps
        mesh_setting_free_app)
qed

text \<open>Settings for the witnesses, and a state that holds them.\<close>

definition demo_mesh :: "string \<Rightarrow> mesh_setting_t" where
  "demo_mesh mode =
     \<lparr>ms_mesh_id = Some ''mesh-1'', ms_mesh_name = Some ''home'', ms_type = None, ms_rssi = None,
      ms_antenna = None, ms_backhaul_channel = None, ms_active_time = 0, ms_work_mode = Some mode,
      ms_weight_mesh = 0, ms_link_connection = None, ms_minimum_snr = 0,
      ms_wireless = Some \<lparr>wireless_iface = Some \<lparr>wifi_ssid = Some ''net'', wifi_key = Some ''secret''\<rparr>\<rparr>\<rparr>"

definition mesh_world :: "mesh_setting_t \<Rightarrow> jtree world" where
  "mesh_world m = file_world ''/data/config/ezm/mesh_setting.json'' (cvt_mesh_setting_to_json tree_lib (Some m))"

lemma mesh_world_stored: "mesh_stored quiet_env (mesh_world m) m"
proof -
  have "cvt_mesh_setting_to_json tree_lib (Some m) \<noteq> None"
    using mesh_setting_json(1) [OF tree_ok] by (metis Is_None(5))
  then show ?thesis
    unfolding mesh_stored_def mesh_world_def
    by (rule file_world_file [where p = "''/data/config/ezm/mesh_setting.json''"])
      (simp add: mesh_setting_json [OF tree_ok])
qed

theorem get_work_mode_spec_witness:
  "get_work_mode quiet_env (mesh_world (demo_mesh ''controller'')) =
     (Inr CONTROLLER_MODE, mesh_world (demo_mesh ''controller''))"
  using get_work_mode_spec [OF mesh_world_stored [of "demo_mesh ''controller''"]]
  by (simp add: demo_mesh_def mesh_wifi_ok_def)




text \<open>
  The agent mode returns exactly when its preparation returns and the mesh daemon comes up;
  the number of turns it waits is the number of failed attempts, each with a second of sleep.
\<close>

theorem agent_mode_returns:
  "((\<exists>s'. run_agent_mode n E s = (Inr (), s')) \<longleftrightarrow>
     (\<exists>s1. agent_prepare n E s = (Inr (), s1) \<and>
       (\<exists>k<n. daemon_up_at E (w_trace s1 @ map cmd_event agent_config) k))) \<and>
   (case agent_prepare n E s of (Inl f, s1) \<Rightarrow> run_agent_mode n E s = (Inl f, s1) | (Inr _, s1) \<Rightarrow> True)"
proof
  have wait: "(\<exists>s2. run_script E agent_config s1 = (Inr (), s2) \<and>
      (\<exists>s3. wait_daemon n E s2 = (Inr (), s3) \<and> (\<exists>s'. io_seq [] s3 = (Inr (), s')))) \<longleftrightarrow>
    (\<exists>k<n. daemon_up_at E (w_trace s1 @ map cmd_event agent_config) k)" for s1
    by (rule script_then_returns [OF scripts_short(5)])
      (use wait_daemon_iff [of n E] in \<open>auto simp: io_simps\<close>)
  show "(\<exists>s'. run_agent_mode n E s = (Inr (), s')) \<longleftrightarrow>
     (\<exists>s1. agent_prepare n E s = (Inr (), s1) \<and>
       (\<exists>k<n. daemon_up_at E (w_trace s1 @ map cmd_event agent_config) k))"
    unfolding run_agent_mode_def io_seq_returns wait ..
qed (simp add: run_agent_mode_def io_then_app split: prod.splits sum.splits)

end
