(* ===== verification/Quality.thy ===== *)
theory Quality
  imports Config
begin

text \<open>
  \<open>src/core/mesh/quality\<close>: the quality of the links between the mesh devices, its JSON form, and
  the profile that the program reports, which it parses from a text of its own.
\<close>

section \<open>Data and conversions\<close>

record quality_t =
  q_dest_link :: cptr
  q_channel :: c_int
  q_up_link :: bool
  q_down_link :: bool
  q_tx_link :: c_int
  q_snr :: c_int
  q_noise_floor :: c_int
  q_tx_total :: c_int
  q_rx_total :: c_int

record quality_profile_t =
  qp_src_link :: cptr
  qp_quality_list :: "quality_t list"

definition cvt_quality_to_json :: "'j cjson_lib \<Rightarrow> quality_t \<Rightarrow> 'j option" where
  "cvt_quality_to_json L q =
     (let json = cJSON_CreateObject L;
          json = cJSON_AddStringToObject L json ''dest_link'' (q_dest_link q);
          json = cJSON_AddNumberToObject L json ''channel'' (q_channel q);
          json = cJSON_AddBoolToObject L json ''up_link'' (q_up_link q);
          json = cJSON_AddBoolToObject L json ''down_link'' (q_down_link q);
          json = cJSON_AddNumberToObject L json ''tx_link'' (q_tx_link q);
          json = cJSON_AddNumberToObject L json ''snr'' (q_snr q);
          json = cJSON_AddNumberToObject L json ''noise_floor'' (q_noise_floor q);
          json = cJSON_AddNumberToObject L json ''tx_total'' (q_tx_total q)
      in cJSON_AddNumberToObject L json ''rx_total'' (q_rx_total q))"

definition cvt_json_to_quality :: "'j cjson_lib \<Rightarrow> 'j option \<Rightarrow> quality_t" where
  "cvt_json_to_quality L json =
     \<lparr>q_dest_link = json_str L json ''dest_link'',
      q_channel = json_int L json ''channel'',
      q_up_link = cJSON_IsTrue L (cJSON_GetObjectItemCaseSensitive L json ''up_link''),
      q_down_link = cJSON_IsTrue L (cJSON_GetObjectItemCaseSensitive L json ''down_link''),
      q_tx_link = json_int L json ''tx_link'',
      q_snr = json_int L json ''snr'',
      q_noise_floor = json_int L json ''noise_floor'',
      q_tx_total = json_int L json ''tx_total'',
      q_rx_total = json_int L json ''rx_total''\<rparr>"

text \<open>An empty list of links is not written at all.\<close>

definition cvt_quality_profile_to_json :: "'j cjson_lib \<Rightarrow> quality_profile_t \<Rightarrow> 'j option" where
  "cvt_quality_profile_to_json L p =
     (let json = cJSON_CreateObject L;
          json = cJSON_AddStringToObject L json ''src_link'' (qp_src_link p)
      in if qp_quality_list p \<noteq> []
         then cJSON_AddItemToObject L json ''quality''
                (json_array L (map (cvt_quality_to_json L) (qp_quality_list p)))
         else json)"

definition cvt_json_to_quality_profile :: "'j cjson_lib \<Rightarrow> 'j option \<Rightarrow> quality_profile_t" where
  "cvt_json_to_quality_profile L json =
     (let quality_json = cJSON_GetObjectItemCaseSensitive L json ''quality''
      in \<lparr>qp_src_link = json_str L json ''src_link'',
          qp_quality_list =
            (if quality_json \<noteq> None \<and> cJSON_IsArray L quality_json
             then map (cvt_json_to_quality L) (json_items L quality_json) else [])\<rparr>)"

definition cvt_quality_profile_list_to_json :: "'j cjson_lib \<Rightarrow> quality_profile_t list \<Rightarrow> 'j option" where
  "cvt_quality_profile_list_to_json L ps = json_array L (map (cvt_quality_profile_to_json L) ps)"

definition cvt_json_to_quality_profile_list :: "'j cjson_lib \<Rightarrow> 'j option \<Rightarrow> quality_profile_t list" where
  "cvt_json_to_quality_profile_list L json = map (cvt_json_to_quality_profile L) (json_items L json)"

section \<open>The reported profile\<close>

text \<open>The text of the program; a tilde stands for a quotation mark.\<close>

definition mock_quality_entry :: string where
  "mock_quality_entry = concat (map (\<lambda>l. l @ ''\<newline>'')
     [''          ~dest_link~: ~NovaAgent1~,'',
      ''          ~channel~: 1,'',
      ''          ~up_link~: true,'',
      ''          ~downlink~: false,'',
      ''          ~tx_link~: 12,'',
      ''          ~snr~: 13,'',
      ''          ~noise_floor~: 11,'',
      ''          ~tx_total~: 12,'',
      ''          ~rx_total~: 3''])"

definition mock_quality_profile :: string where
  "mock_quality_profile = map (\<lambda>c. if c = CHR ''~'' then CHR 0x22 else c)
     (''\<newline>[\<newline>    {\<newline>      ~src_link~: ~NovaController~,\<newline>      ~quality~: [\<newline>        {\<newline>'' @
      mock_quality_entry @ ''        },\<newline>        {\<newline>'' @ mock_quality_entry @
      ''        }\<newline>      ]\<newline>    }\<newline>]\<newline>'')"

definition get_mesh_quality :: "'j cjson_lib \<Rightarrow> quality_profile_t list" where
  "get_mesh_quality L = cvt_json_to_quality_profile_list L (cJSON_Parse L (Some mock_quality_profile))"

section \<open>Round trips\<close>

lemma quality_json:
  assumes "cjson_ok L"
  shows "cvt_quality_to_json L q \<noteq> None" "cvt_json_to_quality L (cvt_quality_to_json L q) = q"
  using assms by (simp_all add: cvt_quality_to_json_def cvt_json_to_quality_def Let_def obj_simps
      CreateBool_facts del: not_None_eq)

lemma quality_profile_json:
  assumes "cjson_ok L"
  shows "cvt_quality_profile_to_json L p \<noteq> None"
    "cvt_json_to_quality_profile L (cvt_quality_profile_to_json L p) = p"
proof -
  let ?q = "json_array L (map (cvt_quality_to_json L) (qp_quality_list p))"
  have a: "cJSON_IsArray L ?q" using assms by (rule IsArray_json_array)
  then have q: "?q \<noteq> None" by (metis Is_None(6))
  have r: "map (cvt_json_to_quality L) (json_items L ?q) = qp_quality_list p"
    using assms quality_json [OF assms] by (intro json_list_roundtrip) auto
  show "cvt_quality_profile_to_json L p \<noteq> None"
    using assms by (simp add: cvt_quality_profile_to_json_def Let_def obj_simps del: not_None_eq)
  show "cvt_json_to_quality_profile L (cvt_quality_profile_to_json L p) = p"
    using assms a q r
    by (cases "qp_quality_list p = []")
      (simp_all add: cvt_quality_profile_to_json_def cvt_json_to_quality_profile_def Let_def obj_simps
        del: not_None_eq)
qed

lemma quality_profile_list_json:
  assumes "cjson_ok L"
  shows "cJSON_IsArray L (cvt_quality_profile_list_to_json L ps)"
    "cvt_json_to_quality_profile_list L (cvt_quality_profile_list_to_json L ps) = ps"
proof -
  show "cJSON_IsArray L (cvt_quality_profile_list_to_json L ps)"
    using assms by (simp add: cvt_quality_profile_list_to_json_def json_simps)
  show "cvt_json_to_quality_profile_list L (cvt_quality_profile_list_to_json L ps) = ps"
    unfolding cvt_quality_profile_list_to_json_def cvt_json_to_quality_profile_list_def
    using assms quality_profile_json [OF assms] by (intro json_list_roundtrip) auto
qed

end
