(* ===== verification/Message.thy ===== *)
theory Message
  imports MeshSetting Quality Route
begin

text \<open>
  \<open>src/api/message/message_struct\<close>: the messages that the program exchanges over the broker. A
  message carries a union of pointers to the data of the components; which member is meant is
  said by a message type that the caller passes along. The theory has the conversions between
  messages and JSON, the response that is made from a request, and the name it gets.
\<close>

section \<open>Data\<close>

datatype msg_type_t =
    MSG_EMPTY
  | MSG_MESH_DEVICE_LIST
  | MSG_MESH_SETTING
  | MSG_MESH_QUALITY
  | MSG_NETWORK_LAN
  | MSG_NETWORK_WAN
  | MSG_NETWORK_DNS_DHCP
  | MSG_NETWORK_DHCP4_LEASES
  | MSG_NETWORK_STATIC_ROUTE
  | MSG_IPTABLES_DNAT_PROFILE
  | MSG_IPTABLES_DNAT_DMZ_PROFILE
  | MSG_IPTABLE_NOVA_SERVICE_PORT_PROFILE

text \<open>
  The union of pointers: NULL, as \<open>calloc\<close> leaves it, which reads as NULL through every member, or
  a pointer stored through one member. Reading it through another one is a fault.
\<close>

datatype data_t =
    D_null
  | D_mesh_setting mesh_setting_t
  | D_device_list "device_info_t list"
  | D_quality_profile_list "quality_profile_t list"
  | D_dns_dhcp dns_dhcp_t
  | D_dhcp4_lease "dhcp_info_t list"
  | D_lan lan_t
  | D_wan wan_t
  | D_routes_list "route_t list"
  | D_iptable_list "iptable_t list"
  | D_iptable iptable_t
  | D_iptable_nova_service_list "iptable_nova_service_t list"

fun mesh_setting_of where "mesh_setting_of (D_mesh_setting x) = Some x" | "mesh_setting_of _ = None"
fun device_list_of where "device_list_of (D_device_list x) = Some x" | "device_list_of _ = None"
fun quality_of where "quality_of (D_quality_profile_list x) = Some x" | "quality_of _ = None"
fun dns_dhcp_of where "dns_dhcp_of (D_dns_dhcp x) = Some x" | "dns_dhcp_of _ = None"
fun dhcp4_lease_of where "dhcp4_lease_of (D_dhcp4_lease x) = Some x" | "dhcp4_lease_of _ = None"
fun lan_of where "lan_of (D_lan x) = Some x" | "lan_of _ = None"
fun wan_of where "wan_of (D_wan x) = Some x" | "wan_of _ = None"
fun routes_of where "routes_of (D_routes_list x) = Some x" | "routes_of _ = None"
fun iptable_list_of where "iptable_list_of (D_iptable_list x) = Some x" | "iptable_list_of _ = None"
fun iptable_of where "iptable_of (D_iptable x) = Some x" | "iptable_of _ = None"
fun nova_of where "nova_of (D_iptable_nova_service_list x) = Some x" | "nova_of _ = None"

text \<open>The pointer read through a member.\<close>

definition union_member :: "(data_t \<Rightarrow> 'a option) \<Rightarrow> data_t \<Rightarrow> ('s, 'a option) io" where
  "union_member sel d =
     (if d = D_null then io_ret None
      else case sel d of None \<Rightarrow> io_fail WrongMember | Some x \<Rightarrow> io_ret (Some x))"

record respond_data_t =
  rd_error :: "error_t option"
  rd_data :: "data_t option"

record msg_request_t =
  rq_name :: cptr
  rq_scope :: cptr
  rq_source :: cptr
  rq_home_id :: cptr
  rq_user_id :: cptr
  rq_id :: cptr
  rq_auth_token :: cptr
  rq_parent_id :: cptr
  rq_client_id :: cptr
  rq_data :: "data_t option"
  rq_created_time :: c_int

record msg_respond_t =
  rs_name :: cptr
  rs_scope :: cptr
  rs_source :: cptr
  rs_home_id :: cptr
  rs_user_id :: cptr
  rs_id :: cptr
  rs_auth_token :: cptr
  rs_parent_id :: cptr
  rs_client_id :: cptr
  rs_respond_data :: "respond_data_t option"
  rs_created_time :: c_int

section \<open>Conversions of the data\<close>

text \<open>
  All conversions but the one of the mesh settings read through the pointer they are given. Types
  without data give an empty object.
\<close>

definition cvt_data_to_json :: "'j cjson_lib \<Rightarrow> data_t option \<Rightarrow> msg_type_t \<Rightarrow> ('s, 'j option) io" where
  "cvt_data_to_json L data msg_type =
     (case data of
        None \<Rightarrow> io_ret None
      | Some d \<Rightarrow>
         (case msg_type of
            MSG_MESH_DEVICE_LIST \<Rightarrow>
              io_bind (union_member device_list_of d) (\<lambda>p. io_bind (io_deref p) (\<lambda>x.
              io_ret (cvt_device_list_to_json L x)))
          | MSG_MESH_SETTING \<Rightarrow>
              io_bind (union_member mesh_setting_of d) (\<lambda>p. io_ret (cvt_mesh_setting_to_json L p))
          | MSG_MESH_QUALITY \<Rightarrow>
              io_bind (union_member quality_of d) (\<lambda>p. io_bind (io_deref p) (\<lambda>x.
              io_ret (cvt_quality_profile_list_to_json L x)))
          | MSG_NETWORK_DNS_DHCP \<Rightarrow>
              io_bind (union_member dns_dhcp_of d) (\<lambda>p. io_bind (io_deref p) (\<lambda>x.
              cvt_dns_dhcp_to_json L x))
          | MSG_NETWORK_DHCP4_LEASES \<Rightarrow>
              io_bind (union_member dhcp4_lease_of d) (\<lambda>p. io_bind (io_deref p) (\<lambda>x.
              io_ret (cvt_dhcp4_lease_to_json L x)))
          | MSG_NETWORK_LAN \<Rightarrow>
              io_bind (union_member lan_of d) (\<lambda>p. io_bind (io_deref p) (\<lambda>x.
              io_ret (cvt_lan_to_json L x)))
          | MSG_NETWORK_WAN \<Rightarrow>
              io_bind (union_member wan_of d) (\<lambda>p. io_bind (io_deref p) (\<lambda>x.
              io_ret (cvt_wan_to_json L x)))
          | MSG_NETWORK_STATIC_ROUTE \<Rightarrow>
              io_bind (union_member routes_of d) (\<lambda>p. io_bind (io_deref p) (\<lambda>x.
              io_ret (cvt_route_list_to_json L x)))
          | MSG_IPTABLES_DNAT_PROFILE \<Rightarrow>
              io_bind (union_member iptable_list_of d) (\<lambda>p. io_bind (io_deref p) (\<lambda>x.
              io_ret (cvt_iptable_list_to_json L x)))
          | MSG_IPTABLES_DNAT_DMZ_PROFILE \<Rightarrow>
              io_bind (union_member iptable_of d) (\<lambda>p. io_bind (io_deref p) (\<lambda>x.
              io_ret (cvt_iptable_to_json L x)))
          | MSG_IPTABLE_NOVA_SERVICE_PORT_PROFILE \<Rightarrow>
              io_bind (union_member nova_of d) (\<lambda>p. io_bind (io_deref p) (\<lambda>x.
              cvt_iptable_nova_service_list_to_json L x))
          | MSG_EMPTY \<Rightarrow> io_ret (cJSON_CreateObject L)))"

text \<open>The link qualities and the leases, which are written as arrays, are looked for as objects.\<close>

definition cvt_json_to_data :: "'j cjson_lib \<Rightarrow> 'j option \<Rightarrow> msg_type_t \<Rightarrow> data_t" where
  "cvt_json_to_data L json msg_type =
     (case msg_type of
        MSG_MESH_DEVICE_LIST \<Rightarrow>
          if json \<noteq> None \<and> cJSON_IsArray L json then D_device_list (cvt_json_to_device_list L json) else D_null
      | MSG_MESH_SETTING \<Rightarrow>
          if json \<noteq> None \<and> cJSON_IsObject L json then D_mesh_setting (cvt_json_to_mesh_setting L json) else D_null
      | MSG_MESH_QUALITY \<Rightarrow>
          if json \<noteq> None \<and> cJSON_IsObject L json
          then D_quality_profile_list (cvt_json_to_quality_profile_list L json) else D_null
      | MSG_NETWORK_DNS_DHCP \<Rightarrow>
          if json \<noteq> None \<and> cJSON_IsObject L json then D_dns_dhcp (cvt_json_to_dns_dhcp L json) else D_null
      | MSG_NETWORK_DHCP4_LEASES \<Rightarrow>
          if json \<noteq> None \<and> cJSON_IsObject L json then D_dhcp4_lease (cvt_json_to_dhcp4_lease L json) else D_null
      | MSG_NETWORK_LAN \<Rightarrow>
          if json \<noteq> None \<and> cJSON_IsObject L json then D_lan (cvt_json_to_lan L json) else D_null
      | MSG_NETWORK_WAN \<Rightarrow>
          if json \<noteq> None \<and> cJSON_IsObject L json then D_wan (cvt_json_to_wan L json) else D_null
      | MSG_NETWORK_STATIC_ROUTE \<Rightarrow>
          if json \<noteq> None \<and> cJSON_IsArray L json then D_routes_list (cvt_json_to_route_list L json) else D_null
      | MSG_IPTABLES_DNAT_PROFILE \<Rightarrow>
          if json \<noteq> None \<and> cJSON_IsArray L json then D_iptable_list (cvt_json_to_iptable_list L json) else D_null
      | MSG_IPTABLES_DNAT_DMZ_PROFILE \<Rightarrow>
          if json \<noteq> None \<and> cJSON_IsObject L json then D_iptable (cvt_json_to_iptable L json) else D_null
      | MSG_IPTABLE_NOVA_SERVICE_PORT_PROFILE \<Rightarrow>
          if json \<noteq> None \<and> cJSON_IsArray L json
          then D_iptable_nova_service_list (cvt_json_to_iptable_nova_service_list L json) else D_null
      | MSG_EMPTY \<Rightarrow> D_null)"

section \<open>Conversions of the messages\<close>

definition cvt_respond_data_to_json ::
  "'j cjson_lib \<Rightarrow> respond_data_t option \<Rightarrow> msg_type_t \<Rightarrow> ('s, 'j option) io" where
  "cvt_respond_data_to_json L respond_data msg_type =
     (case respond_data of
        None \<Rightarrow> io_ret None
      | Some r \<Rightarrow>
          (let json = cJSON_CreateObject L
           in io_bind (cvt_data_to_json L (rd_data r) msg_type) (\<lambda>data_json.
              (let json = cJSON_AddItemToObject L json ''data'' data_json
               in io_ret (cJSON_AddItemToObject L json ''error'' (cvt_error_to_json L (rd_error r)))))))"

definition cvt_json_to_respond_data :: "'j cjson_lib \<Rightarrow> 'j option \<Rightarrow> msg_type_t \<Rightarrow> respond_data_t" where
  "cvt_json_to_respond_data L json msg_type =
     \<lparr>rd_error = json_sub L json ''error'' (cvt_json_to_error L),
      rd_data = json_sub L json ''data'' (\<lambda>d. cvt_json_to_data L d msg_type)\<rparr>"

definition cvt_json_to_msg_request :: "'j cjson_lib \<Rightarrow> 'j option \<Rightarrow> msg_type_t \<Rightarrow> msg_request_t" where
  "cvt_json_to_msg_request L json msg_type =
     \<lparr>rq_name = json_str L json ''name'',
      rq_scope = json_str L json ''scope'',
      rq_source = json_str L json ''source'',
      rq_home_id = json_str L json ''home_id'',
      rq_user_id = json_str L json ''user_id'',
      rq_id = json_str L json ''id'',
      rq_auth_token = json_str L json ''auth_token'',
      rq_parent_id = json_str L json ''parent_id'',
      rq_client_id = json_str L json ''client_id'',
      rq_data = (let msg_data_json = cJSON_GetObjectItemCaseSensitive L json ''data''
                 in if msg_data_json \<noteq> None then Some (cvt_json_to_data L msg_data_json msg_type) else None),
      rq_created_time = json_int L json ''created_time''\<rparr>"

definition cvt_msg_request_to_json ::
  "'j cjson_lib \<Rightarrow> msg_request_t \<Rightarrow> msg_type_t \<Rightarrow> ('s, 'j option) io" where
  "cvt_msg_request_to_json L m msg_type =
     (let json = cJSON_CreateObject L
      in io_bind (cvt_data_to_json L (rq_data m) msg_type) (\<lambda>data_json.
         (let json = cJSON_AddStringToObject L json ''name'' (rq_name m);
              json = cJSON_AddStringToObject L json ''scope'' (rq_scope m);
              json = cJSON_AddStringToObject L json ''source'' (rq_source m);
              json = cJSON_AddStringToObject L json ''home_id'' (rq_home_id m);
              json = cJSON_AddStringToObject L json ''user_id'' (rq_user_id m);
              json = cJSON_AddStringToObject L json ''id'' (rq_id m);
              json = cJSON_AddStringToObject L json ''auth_token'' (rq_auth_token m);
              json = cJSON_AddStringToObject L json ''parent_id'' (rq_parent_id m);
              json = cJSON_AddStringToObject L json ''client_id'' (rq_client_id m);
              json = cJSON_AddItemToObject L json ''data'' data_json
          in io_ret (cJSON_AddNumberToObject L json ''created_time'' (rq_created_time m)))))"

definition cvt_json_to_msg_respond :: "'j cjson_lib \<Rightarrow> 'j option \<Rightarrow> msg_type_t \<Rightarrow> msg_respond_t" where
  "cvt_json_to_msg_respond L json msg_type =
     \<lparr>rs_name = json_str L json ''name'',
      rs_scope = json_str L json ''scope'',
      rs_source = json_str L json ''source'',
      rs_home_id = json_str L json ''home_id'',
      rs_user_id = json_str L json ''user_id'',
      rs_id = json_str L json ''id'',
      rs_auth_token = json_str L json ''auth_token'',
      rs_parent_id = json_str L json ''parent_id'',
      rs_client_id = json_str L json ''client_id'',
      rs_respond_data = json_sub L json ''data'' (\<lambda>d. cvt_json_to_respond_data L d msg_type),
      rs_created_time = json_int L json ''created_time''\<rparr>"

definition cvt_msg_respond_to_json ::
  "'j cjson_lib \<Rightarrow> msg_respond_t \<Rightarrow> msg_type_t \<Rightarrow> ('s, 'j option) io" where
  "cvt_msg_respond_to_json L m msg_type =
     (let json = cJSON_CreateObject L
      in io_bind (cvt_respond_data_to_json L (rs_respond_data m) msg_type) (\<lambda>data_json.
         (let json = cJSON_AddStringToObject L json ''name'' (rs_name m);
              json = cJSON_AddStringToObject L json ''scope'' (rs_scope m);
              json = cJSON_AddStringToObject L json ''source'' (rs_source m);
              json = cJSON_AddStringToObject L json ''home_id'' (rs_home_id m);
              json = cJSON_AddStringToObject L json ''user_id'' (rs_user_id m);
              json = cJSON_AddStringToObject L json ''id'' (rs_id m);
              json = cJSON_AddStringToObject L json ''auth_token'' (rs_auth_token m);
              json = cJSON_AddStringToObject L json ''parent_id'' (rs_parent_id m);
              json = cJSON_AddStringToObject L json ''client_id'' (rs_client_id m);
              json = cJSON_AddItemToObject L json ''data'' data_json
          in io_ret (cJSON_AddNumberToObject L json ''created_time'' (rs_created_time m)))))"

text \<open>
  The response shares the data of the request. The function ends without \<open>return\<close>: whether its
  caller finds the response is a parameter.
\<close>

definition respond_of :: "msg_request_t \<Rightarrow> msg_respond_t" where
  "respond_of m =
     \<lparr>rs_name = rq_name m, rs_scope = rq_scope m, rs_source = rq_source m, rs_home_id = rq_home_id m,
      rs_user_id = rq_user_id m, rs_id = rq_id m, rs_auth_token = rq_auth_token m,
      rs_parent_id = rq_parent_id m, rs_client_id = rq_client_id m,
      rs_respond_data = Some \<lparr>rd_error = None, rd_data = rq_data m\<rparr>,
      rs_created_time = rq_created_time m\<rparr>"

definition cvt_msg_request_to_msg_respond :: "'j env \<Rightarrow> msg_request_t \<Rightarrow> ('j, msg_respond_t) wio" where
  "cvt_msg_request_to_msg_respond E m =
     (if abi_respond E then io_ret (respond_of m) else io_fail MissingReturn)"

text \<open>
  The name of the response, built in 200 characters: the first two parts change places, and a last
  part that contains \<open>requested\<close> becomes \<open>responded\<close>. The second part is read whenever there is a
  first one, and the loop over the parts between counts to the number of parts less one.
\<close>

definition res_name_text :: "string list \<Rightarrow> string" where
  "res_name_text name_split =
     name_split ! 1 @ ''.'' @ name_split ! 0 @
     concat (map (\<lambda>i. ''.'' @ name_split ! i) [2..<length name_split - 1]) @ ''.'' @
     (let l = name_split ! (length name_split - 1)
      in if app_strstr (Some l) (Some ''requested'') \<noteq> None then ''responded'' else l)"

definition cvt_req_name_to_res_name :: "cptr \<Rightarrow> ('s, cptr) io" where
  "cvt_req_name_to_res_name req_name =
     (case req_name of
        None \<Rightarrow> io_fail Uninitialised
      | Some n \<Rightarrow>
         (let name_split = split n ''.''
          in if name_split = [] then io_ret (Some [])
             else if length name_split < 2 then io_fail OutOfBounds
             else io_bind (sprintf_buf 200 (res_name_text name_split)) (\<lambda>res_name.
                  io_ret (Some res_name))))"

section \<open>Releasing messages\<close>

text \<open>
  Of the functions that release the data only two can fault: the one of the mesh settings and the
  one of the name service; the one of the routes reads through its pointer. The data are released
  through the member of the given type.
\<close>

definition data_free :: "data_t option \<Rightarrow> msg_type_t \<Rightarrow> ('s, unit) io" where
  "data_free data type =
     (case data of
        None \<Rightarrow> io_ret ()
      | Some d \<Rightarrow>
         (case type of
            MSG_MESH_DEVICE_LIST \<Rightarrow> io_void (union_member device_list_of d)
          | MSG_MESH_SETTING \<Rightarrow> io_bind (union_member mesh_setting_of d) mesh_setting_free
          | MSG_MESH_QUALITY \<Rightarrow> io_void (union_member quality_of d)
          | MSG_NETWORK_DNS_DHCP \<Rightarrow>
              io_bind (union_member dns_dhcp_of d) (\<lambda>p. case p of None \<Rightarrow> io_ret () | Some x \<Rightarrow> dns_dhcp_free x)
          | MSG_NETWORK_DHCP4_LEASES \<Rightarrow> io_void (union_member dhcp4_lease_of d)
          | MSG_NETWORK_LAN \<Rightarrow> io_void (union_member lan_of d)
          | MSG_NETWORK_WAN \<Rightarrow> io_void (union_member wan_of d)
          | MSG_NETWORK_STATIC_ROUTE \<Rightarrow>
              io_bind (union_member routes_of d) (\<lambda>p. io_void (io_deref p))
          | MSG_IPTABLES_DNAT_PROFILE \<Rightarrow> io_void (union_member iptable_list_of d)
          | MSG_IPTABLE_NOVA_SERVICE_PORT_PROFILE \<Rightarrow> io_void (union_member nova_of d)
          | _ \<Rightarrow> io_ret ()))"

definition respond_data_free :: "respond_data_t option \<Rightarrow> msg_type_t \<Rightarrow> ('s, unit) io" where
  "respond_data_free respond_data type =
     (case respond_data of None \<Rightarrow> io_ret () | Some r \<Rightarrow> data_free (rd_data r) type)"

definition msg_respond_free :: "msg_respond_t \<Rightarrow> msg_type_t \<Rightarrow> ('s, unit) io" where
  "msg_respond_free m type = respond_data_free (rs_respond_data m) type"


section \<open>What reaches the other side\<close>

text \<open>
  The data that arrive when data are written under a type and read under the same type; \<open>None\<close>
  when writing them faults. The link qualities and the leases are lost, the name service
  survives as in its setting file.
\<close>

definition transported :: "msg_type_t \<Rightarrow> data_t \<Rightarrow> data_t option" where
  "transported ty d =
     (case ty of
        MSG_EMPTY \<Rightarrow> Some D_null
      | MSG_MESH_DEVICE_LIST \<Rightarrow> map_option (\<lambda>_. d) (device_list_of d)
      | MSG_MESH_SETTING \<Rightarrow> map_option (\<lambda>_. d) (mesh_setting_of d)
      | MSG_MESH_QUALITY \<Rightarrow> map_option (\<lambda>_. D_null) (quality_of d)
      | MSG_NETWORK_DNS_DHCP \<Rightarrow> Option.bind (dns_dhcp_of d) (\<lambda>x.
          if settings_plain x then Some (D_dns_dhcp (survives x)) else None)
      | MSG_NETWORK_DHCP4_LEASES \<Rightarrow> map_option (\<lambda>_. D_null) (dhcp4_lease_of d)
      | MSG_NETWORK_LAN \<Rightarrow> map_option (\<lambda>_. d) (lan_of d)
      | MSG_NETWORK_WAN \<Rightarrow> map_option (\<lambda>_. d) (wan_of d)
      | MSG_NETWORK_STATIC_ROUTE \<Rightarrow> map_option (\<lambda>_. d) (routes_of d)
      | MSG_IPTABLES_DNAT_PROFILE \<Rightarrow> map_option (\<lambda>_. d) (iptable_list_of d)
      | MSG_IPTABLES_DNAT_DMZ_PROFILE \<Rightarrow> map_option (\<lambda>_. d) (iptable_of d)
      | MSG_IPTABLE_NOVA_SERVICE_PORT_PROFILE \<Rightarrow> Option.bind (nova_of d) (\<lambda>x.
          if \<forall>ns \<in> set x. nova_port_profiles ns \<noteq> None then Some d else None))"

lemma member_iff [simp]:
  "device_list_of d = Some a \<longleftrightarrow> d = D_device_list a"
  "mesh_setting_of d = Some b \<longleftrightarrow> d = D_mesh_setting b"
  "quality_of d = Some c \<longleftrightarrow> d = D_quality_profile_list c"
  "dns_dhcp_of d = Some e \<longleftrightarrow> d = D_dns_dhcp e"
  "dhcp4_lease_of d = Some f \<longleftrightarrow> d = D_dhcp4_lease f"
  "lan_of d = Some g \<longleftrightarrow> d = D_lan g"
  "wan_of d = Some h \<longleftrightarrow> d = D_wan h"
  "routes_of d = Some i \<longleftrightarrow> d = D_routes_list i"
  "iptable_list_of d = Some k \<longleftrightarrow> d = D_iptable_list k"
  "iptable_of d = Some l \<longleftrightarrow> d = D_iptable l"
  "nova_of d = Some m \<longleftrightarrow> d = D_iptable_nova_service_list m"
  by (cases d; auto)+

text \<open>The types whose data are written as a JSON object.\<close>

fun object_type :: "msg_type_t \<Rightarrow> bool" where
  "object_type MSG_EMPTY = True"
| "object_type MSG_MESH_SETTING = True"
| "object_type MSG_NETWORK_DNS_DHCP = True"
| "object_type MSG_NETWORK_LAN = True"
| "object_type MSG_NETWORK_WAN = True"
| "object_type MSG_IPTABLES_DNAT_DMZ_PROFILE = True"
| "object_type _ = False"

lemma array_not_object: "cJSON_IsArray L j \<Longrightarrow> \<not> cJSON_IsObject L j"
  by (auto simp: cJSON_IsArray_def cJSON_IsObject_def split: option.splits)

lemma array_some: "cJSON_IsArray L j \<Longrightarrow> j \<noteq> None"
  by (metis Is_None(6))

lemma object_some: "cJSON_IsObject L j \<Longrightarrow> j \<noteq> None"
  by (metis Is_None(5))

lemma nova_json:
  assumes "cjson_ok L" "nova_port_profiles ns \<noteq> None"
  shows "\<exists>j. cvt_iptable_nova_service_to_json L ns s = (Inr j, s) \<and> j \<noteq> None \<and>
    cvt_json_to_iptable_nova_service L j = ns"
proof -
  obtain ps where ps: "nova_port_profiles ns = Some ps" using assms(2) by auto
  note arr = iptable_list_json_array [OF assms(1), of ps]
  show ?thesis
    using assms(1) ps arr array_some [OF arr] iptable_list_json_roundtrip [OF assms(1), of ps]
    by (cases ns) (simp add: cvt_iptable_nova_service_to_json_def cvt_json_to_iptable_nova_service_def
        Let_def obj_simps io_simps del: not_None_eq)
qed

lemma nova_list_fold:
  assumes "cjson_ok L" "\<forall>ns \<in> set nss. nova_port_profiles ns \<noteq> None" "cJSON_IsArray L a"
  shows "\<exists>j. io_fold (\<lambda>arr ns. io_bind (cvt_iptable_nova_service_to_json L ns) (\<lambda>json.
      io_ret (cJSON_AddItemToArray L arr json))) a nss s = (Inr j, s) \<and> cJSON_IsArray L j \<and>
    map (cvt_json_to_iptable_nova_service L) (json_items L j) =
      map (cvt_json_to_iptable_nova_service L) (json_items L a) @ nss"
  using assms(2,3)
proof (induction nss arbitrary: a)
  case (Cons ns nss)
  obtain j where j: "cvt_iptable_nova_service_to_json L ns s = (Inr j, s)" "j \<noteq> None"
    "cvt_json_to_iptable_nova_service L j = ns"
    using nova_json [OF assms(1), of ns s] Cons.prems(1) by auto
  have "cJSON_IsArray L (cJSON_AddItemToArray L a j)"
    using IsArray_foldl [OF assms(1) Cons.prems(2), of "[j]"] by simp
  from Cons.IH [OF _ this] Cons.prems(1) json_items_snoc [OF assms(1) Cons.prems(2) j(2)] j
  show ?case by (simp add: io_bind_app io_ret_app)
qed (simp add: io_ret_app)

lemma nova_list_json:
  assumes "cjson_ok L" "\<forall>ns \<in> set nss. nova_port_profiles ns \<noteq> None"
  shows "\<exists>j. cvt_iptable_nova_service_list_to_json L nss s = (Inr j, s) \<and> cJSON_IsArray L j \<and>
    cvt_json_to_iptable_nova_service_list L j = nss"
proof -
  have a: "cJSON_IsArray L (cJSON_CreateArray L)" "json_items L (cJSON_CreateArray L) = []"
    using assms(1) by (simp_all add: cjson_ok_def cjson_arrays_def json_items_def)
  show ?thesis
    using nova_list_fold [OF assms a(1), of s] a(2)
    by (simp add: cvt_iptable_nova_service_list_to_json_def cvt_json_to_iptable_nova_service_list_def)
qed

lemma dns_dhcp_json_object:
  "cjson_ok L \<Longrightarrow> cvt_dns_dhcp_to_json L x s = (Inr j, s') \<Longrightarrow> cJSON_IsObject L j"
  by (auto simp: cvt_dns_dhcp_to_json_def io_bind_app io_ret_app Let_def json_simps split: prod.splits sum.splits)

text \<open>Closing a case: the item that was written, and its kind.\<close>

definition carries :: "'j cjson_lib \<Rightarrow> msg_type_t \<Rightarrow> data_t \<Rightarrow> data_t \<Rightarrow> 's \<Rightarrow> bool" where
  "carries L ty d d' s \<longleftrightarrow>
     (\<exists>j. cvt_data_to_json L (Some d) ty s = (Inr j, s) \<and> j \<noteq> None \<and>
        cvt_json_to_data L j ty = d' \<and> cJSON_IsObject L j = object_type ty)"

lemma carries_array:
  "cvt_data_to_json L (Some d) ty s = (Inr j, s) \<Longrightarrow> cJSON_IsArray L j \<Longrightarrow> \<not> object_type ty \<Longrightarrow>
     cvt_json_to_data L j ty = d' \<Longrightarrow> carries L ty d d' s"
  using array_not_object [of L j] array_some [of L j] by (auto simp: carries_def)

lemma carries_object:
  "cvt_data_to_json L (Some d) ty s = (Inr j, s) \<Longrightarrow> cJSON_IsObject L j \<Longrightarrow> object_type ty \<Longrightarrow>
     cvt_json_to_data L j ty = d' \<Longrightarrow> carries L ty d d' s"
  using object_some [of L j] by (auto simp: carries_def)

lemmas data_conversions = cvt_data_to_json_def cvt_json_to_data_def union_member_def io_bind_app io_simps

lemma lease_list_array: "cjson_ok L \<Longrightarrow> cJSON_IsArray L (cvt_dhcp4_lease_to_json L ds)"
  by (simp add: cvt_dhcp4_lease_to_json_def json_simps)

lemma data_json:
  assumes "cjson_ok L" "transported ty d = Some d'"
  shows "carries L ty d d' s"
  using assms(2)
proof (cases ty)
  case MSG_EMPTY
  then show ?thesis using assms
    by (intro carries_object [where j = "cJSON_CreateObject L"]) (auto simp: data_conversions json_simps transported_def)
next
  case MSG_MESH_DEVICE_LIST
  then obtain x where t: "ty = MSG_MESH_DEVICE_LIST" "d = D_device_list x" "d' = d"
    using assms(2) by (auto simp: transported_def split: bind_splits if_splits)
  note a = device_list_json_array [OF assms(1), of x]
  from t assms(1) a array_some [OF a] show ?thesis
    by (intro carries_array [where j = "cvt_device_list_to_json L x"])
      (auto simp: data_conversions device_list_json_roundtrip simp del: not_None_eq)
next
  case MSG_MESH_SETTING
  then obtain x where t: "ty = MSG_MESH_SETTING" "d = D_mesh_setting x" "d' = d"
    using assms(2) by (auto simp: transported_def split: bind_splits if_splits)
  note ob = mesh_setting_json(1) [OF assms(1), of x]
  from t assms(1) ob object_some [OF ob] show ?thesis
    by (intro carries_object [where j = "cvt_mesh_setting_to_json L (Some x)"])
      (auto simp: data_conversions mesh_setting_json simp del: not_None_eq)
next
  case MSG_MESH_QUALITY
  then obtain x where t: "ty = MSG_MESH_QUALITY" "d = D_quality_profile_list x" "d' = D_null"
    using assms(2) by (auto simp: transported_def split: bind_splits if_splits)
  note a = quality_profile_list_json(1) [OF assms(1), of x]
  from t assms(1) a array_not_object [OF a] show ?thesis
    by (intro carries_array [where j = "cvt_quality_profile_list_to_json L x"])
      (auto simp: data_conversions)
next
  case MSG_NETWORK_DNS_DHCP
  then obtain x where t: "ty = MSG_NETWORK_DNS_DHCP" "d = D_dns_dhcp x" "settings_plain x" "d' = D_dns_dhcp (survives x)"
    using assms(2) by (auto simp: transported_def split: bind_splits if_splits)
  obtain j where j: "cvt_dns_dhcp_to_json L x s = (Inr (Some j), s)"
    "cvt_json_to_dns_dhcp L (Some j) = survives x"
    using dns_dhcp_json [OF assms(1), of x s] t by auto
  with t dns_dhcp_json_object [OF assms(1) j(1)] show ?thesis
    by (intro carries_object [where j = "Some j"]) (auto simp: data_conversions split: if_splits)
next
  case MSG_NETWORK_DHCP4_LEASES
  then obtain x where t: "ty = MSG_NETWORK_DHCP4_LEASES" "d = D_dhcp4_lease x" "d' = D_null"
    using assms(2) by (auto simp: transported_def split: bind_splits if_splits)
  note a = lease_list_array [OF assms(1), of x]
  from t assms(1) a array_not_object [OF a] show ?thesis
    by (intro carries_array [where j = "cvt_dhcp4_lease_to_json L x"]) (auto simp: data_conversions)
next
  case MSG_NETWORK_LAN
  then obtain x where t: "ty = MSG_NETWORK_LAN" "d = D_lan x" "d' = d"
    using assms(2) by (auto simp: transported_def split: bind_splits if_splits)
  note ob = lan_json_object [OF assms(1), of x]
  from t assms(1) ob object_some [OF ob] show ?thesis
    by (intro carries_object [where j = "cvt_lan_to_json L x"])
      (auto simp: data_conversions lan_json_roundtrip simp del: not_None_eq)
next
  case MSG_NETWORK_WAN
  then obtain x where t: "ty = MSG_NETWORK_WAN" "d = D_wan x" "d' = d"
    using assms(2) by (auto simp: transported_def split: bind_splits if_splits)
  note ob = wan_json_object [OF assms(1), of x]
  from t assms(1) ob object_some [OF ob] show ?thesis
    by (intro carries_object [where j = "cvt_wan_to_json L x"])
      (auto simp: data_conversions wan_json_roundtrip simp del: not_None_eq)
next
  case MSG_NETWORK_STATIC_ROUTE
  then obtain x where t: "ty = MSG_NETWORK_STATIC_ROUTE" "d = D_routes_list x" "d' = d"
    using assms(2) by (auto simp: transported_def split: bind_splits if_splits)
  note a = route_list_json_array [OF assms(1), of x]
  from t assms(1) a array_some [OF a] show ?thesis
    by (intro carries_array [where j = "cvt_route_list_to_json L x"])
      (auto simp: data_conversions route_list_json_roundtrip simp del: not_None_eq)
next
  case MSG_IPTABLES_DNAT_PROFILE
  then obtain x where t: "ty = MSG_IPTABLES_DNAT_PROFILE" "d = D_iptable_list x" "d' = d"
    using assms(2) by (auto simp: transported_def split: bind_splits if_splits)
  note a = iptable_list_json_array [OF assms(1), of x]
  from t assms(1) a array_some [OF a] show ?thesis
    by (intro carries_array [where j = "cvt_iptable_list_to_json L x"])
      (auto simp: data_conversions iptable_list_json_roundtrip simp del: not_None_eq)
next
  case MSG_IPTABLES_DNAT_DMZ_PROFILE
  then obtain x where t: "ty = MSG_IPTABLES_DNAT_DMZ_PROFILE" "d = D_iptable x" "d' = d"
    using assms(2) by (auto simp: transported_def split: bind_splits if_splits)
  note ob = iptable_json_object [OF assms(1), of x]
  from t assms(1) ob object_some [OF ob] show ?thesis
    by (intro carries_object [where j = "cvt_iptable_to_json L x"])
      (auto simp: data_conversions iptable_json_roundtrip simp del: not_None_eq)
next
  case MSG_IPTABLE_NOVA_SERVICE_PORT_PROFILE
  then obtain x where t: "ty = MSG_IPTABLE_NOVA_SERVICE_PORT_PROFILE" "d = D_iptable_nova_service_list x" "\<forall>ns \<in> set x. nova_port_profiles ns \<noteq> None" "d' = d"
    using assms(2) by (auto simp: transported_def split: bind_splits if_splits)
  obtain j where j: "cvt_iptable_nova_service_list_to_json L x s = (Inr j, s)" "cJSON_IsArray L j"
    "cvt_json_to_iptable_nova_service_list L j = x"
    using nova_list_json [OF assms(1), of x s] t by auto
  with t array_some [OF j(2)] show ?thesis
    by (intro carries_array [OF _ j(2)]) (auto simp: data_conversions split: if_splits)
qed


text \<open>The data of a message, present or not.\<close>

definition arrives :: "msg_type_t \<Rightarrow> data_t option \<Rightarrow> data_t option option" where
  "arrives ty data = (case data of None \<Rightarrow> Some None | Some d \<Rightarrow> map_option Some (transported ty d))"

lemma data_option_json:
  assumes "cjson_ok L" "arrives ty data = Some data'"
  shows "\<exists>j. cvt_data_to_json L data ty s = (Inr j, s) \<and>
    (if j \<noteq> None then Some (cvt_json_to_data L j ty) else None) = data' \<and>
    (if j \<noteq> None \<and> cJSON_IsObject L j then Some (cvt_json_to_data L j ty) else None) =
      (if object_type ty then data' else None)"
proof (cases data)
  case None
  then show ?thesis using assms(2) by (simp add: arrives_def cvt_data_to_json_def io_ret_app)
next
  case (Some d)
  then obtain d' where d': "transported ty d = Some d'" "data' = Some d'"
    using assms(2) by (auto simp: arrives_def)
  from data_json [OF assms(1) d'(1), of s] show ?thesis
    using Some d'(2) by (auto simp: carries_def)
qed

lemma error_json_object: "cjson_ok L \<Longrightarrow> cJSON_IsObject L (cvt_error_to_json L (Some e))"
  by (simp add: cvt_error_to_json_def Let_def obj_simps)

lemma cvt_error_None: "cvt_error_to_json L None = None"
  by (simp add: cvt_error_to_json_def)

lemma json_obj_get_sub:
  "cjson_ok L \<Longrightarrow> json_sub L (json_obj L kvs) k f =
     (if obj_get kvs k \<noteq> None \<and> cJSON_IsObject L (obj_get kvs k) then Some (f (obj_get kvs k)) else None)"
  by (simp add: json_sub_def json_obj_facts(2) Let_def)

lemma request_json:
  assumes "cjson_ok L" "arrives ty (rq_data m) = Some data'"
  shows "\<exists>j. cvt_msg_request_to_json L m ty s = (Inr j, s) \<and> j \<noteq> None \<and>
    cvt_json_to_msg_request L j ty = m\<lparr>rq_data := data'\<rparr>"
proof -
  obtain j where j: "cvt_data_to_json L (rq_data m) ty s = (Inr j, s)"
    "(if j \<noteq> None then Some (cvt_json_to_data L j ty) else None) = data'"
    using data_option_json [OF assms, of s] by blast
  have "(if obj_or j None \<noteq> None then Some (cvt_json_to_data L j ty) else None) = data'"
    using j(2) by (simp add: obj_or_def)
  with j(1) assms(1) show ?thesis
    by (cases m) (simp add: cvt_msg_request_to_json_def cvt_json_to_msg_request_def Let_def obj_simps
        io_bind_app io_ret_app del: not_None_eq split: if_split_asm)
qed

lemma respond_data_json:
  assumes "cjson_ok L" "arrives ty (rd_data r) = Some data'"
  shows "\<exists>j. cvt_respond_data_to_json L (Some r) ty s = (Inr j, s) \<and> cJSON_IsObject L j \<and>
    cvt_json_to_respond_data L j ty = r\<lparr>rd_data := if object_type ty then data' else None\<rparr>"
proof -
  obtain j where j: "cvt_data_to_json L (rd_data r) ty s = (Inr j, s)"
    "(if j \<noteq> None \<and> cJSON_IsObject L j then Some (cvt_json_to_data L j ty) else None) =
      (if object_type ty then data' else None)"
    using data_option_json [OF assms, of s] by blast
  have err: "json_sub L (json_obj L [(''data'', j), (''error'', cvt_error_to_json L (rd_error r))])
      ''error'' (cvt_json_to_error L) = rd_error r"
    by (rule json_obj_sub [where enc = "cvt_error_to_json L"])
      (use assms(1) in \<open>simp_all add: obj_simps error_json_object error_json_roundtrip cvt_error_None\<close>)
  have data: "json_sub L (json_obj L [(''data'', j), (''error'', cvt_error_to_json L (rd_error r))])
      ''data'' (\<lambda>d. cvt_json_to_data L d ty) = (if object_type ty then data' else None)"
    using j(2) assms(1) by (auto simp: json_obj_get_sub obj_or_def simp del: not_None_eq split: if_split_asm)
  show ?thesis
    using j(1) assms(1) err data
    by (cases r) (simp add: cvt_respond_data_to_json_def cvt_json_to_respond_data_def Let_def obj_simps
        io_bind_app io_ret_app del: not_None_eq)
qed

lemma respond_json:
  assumes "cjson_ok L" "rs_respond_data m = Some r" "arrives ty (rd_data r) = Some data'"
  shows "\<exists>j. cvt_msg_respond_to_json L m ty s = (Inr (Some j), s) \<and>
    cvt_json_to_msg_respond L (Some j) ty =
      m\<lparr>rs_respond_data := Some (r\<lparr>rd_data := if object_type ty then data' else None\<rparr>)\<rparr>"
proof -
  obtain j where j: "cvt_respond_data_to_json L (Some r) ty s = (Inr j, s)" "cJSON_IsObject L j"
    "cvt_json_to_respond_data L j ty = r\<lparr>rd_data := if object_type ty then data' else None\<rparr>"
    using respond_data_json [OF assms(1,3), of s] by blast
  note some = object_some [OF j(2)]
  have "\<exists>j. cvt_msg_respond_to_json L m ty s = (Inr j, s) \<and> j \<noteq> None \<and>
    cvt_json_to_msg_respond L j ty =
      m\<lparr>rs_respond_data := Some (r\<lparr>rd_data := if object_type ty then data' else None\<rparr>)\<rparr>"
    using j assms(1,2) some
    by (cases m) (simp add: cvt_msg_respond_to_json_def cvt_json_to_msg_respond_def Let_def obj_simps
        json_obj_get_sub io_bind_app io_ret_app del: not_None_eq)
  then show ?thesis by auto
qed

section \<open>The name of the response\<close>

text \<open>A name of dotted parts, and what becomes of its last part in the response.\<close>

fun dotted :: "string list \<Rightarrow> string" where
  "dotted [] = []"
| "dotted (w # ws) = w @ concat (map (\<lambda>v. CHR ''.'' # v) ws)"

definition answered :: "string \<Rightarrow> string" where
  "answered l = (if sublist ''requested'' l then ''responded'' else l)"

definition name_part :: "string \<Rightarrow> bool" where
  "name_part w \<longleftrightarrow> w \<noteq> [] \<and> CHR ''.'' \<notin> set w"

lemma split_dotted: "\<forall>w \<in> set ws. name_part w \<Longrightarrow> split (dotted ws) ''.'' = ws"
proof (induction ws)
  case (Cons w ws)
  then have w: "w \<noteq> []" "set w \<inter> set ''.'' = {}" by (auto simp: name_part_def)
  show ?case
  proof (cases ws)
    case Nil
    with split_word [OF w] show ?thesis by simp
  next
    case (Cons v vs)
    have "dotted (w # ws) = w @ CHR ''.'' # dotted ws" by (simp add: Cons)
    then show ?thesis
      using split_word_delim [OF w, of "CHR ''.''" "dotted ws"] Cons.IH Cons.prems by simp
  qed
qed simp

lemma answered_idem [simp]: "answered (answered l) = answered l"
  by (auto simp: answered_def sublist_code split: if_splits)

lemma name_part_answered: "name_part l \<Longrightarrow> name_part (answered l)"
  by (simp add: answered_def name_part_def)

lemma upt_shift_nth: "map (\<lambda>i. f ((a # b # ms @ [l]) ! i)) [2..<Suc (Suc (length ms))] = map f ms"
  by (rule nth_equalityI) (simp_all add: nth_append del: upt_Suc)

lemma res_name_text_parts:
  "res_name_text (a # b # ms @ [l]) = dotted (b # a # ms @ [answered l])"
proof -
  have "concat (map (\<lambda>i. CHR ''.'' # (a # b # ms @ [l]) ! i) [2..<Suc (Suc (length ms))]) =
      concat (map (\<lambda>v. CHR ''.'' # v) ms)"
    by (simp only: upt_shift_nth [of "\<lambda>v. CHR ''.'' # v"])
  then show ?thesis
    by (simp add: res_name_text_def answered_def Let_def app_strstr_iff nth_append del: upt_Suc not_None_eq)
qed

lemma res_name_parts:
  assumes "\<forall>w \<in> set (a # b # ms @ [l]). name_part w" "length (dotted (b # a # ms @ [answered l])) < 200"
  shows "cvt_req_name_to_res_name (Some (dotted (a # b # ms @ [l]))) s =
    (Inr (Some (dotted (b # a # ms @ [answered l]))), s)"
  using assms split_dotted [OF assms(1)] res_name_text_parts [of a b ms l]
  by (simp add: cvt_req_name_to_res_name_def io_simps Let_def del: dotted.simps split.simps)

section \<open>Properties\<close>


definition demo_request :: msg_request_t where
  "demo_request =
     \<lparr>rq_name = Some ''web.ezm.network.lan.requested'', rq_scope = None, rq_source = None, rq_home_id = None,
      rq_user_id = Some ''u'', rq_id = Some ''7'', rq_auth_token = None, rq_parent_id = None,
      rq_client_id = None,
      rq_data = Some (D_lan \<lparr>lan_bridge_ap_mode = True, lan_proto = Some ''dhcp'', lan_ipaddr = None,
        lan_netmask = None\<rparr>),
      rq_created_time = 5\<rparr>"




text \<open>
  The name of a response to a name of at least three dotted parts that fits into 200
  characters: the first two parts change places and a last part that contains \<open>requested\<close> becomes
  \<open>responded\<close>. Converting the result again changes the places back. A name of one part makes the
  function read past its parts.
\<close>

theorem res_name_spec:
  assumes "\<forall>w \<in> set (a # b # ms @ [l]). name_part w" "length (dotted (b # a # ms @ [answered l])) < 200"
  shows "cvt_req_name_to_res_name (Some (dotted (a # b # ms @ [l]))) s =
      (Inr (Some (dotted (b # a # ms @ [answered l]))), s) \<and>
    cvt_req_name_to_res_name (Some (dotted (b # a # ms @ [answered l]))) s =
      (Inr (Some (dotted (a # b # ms @ [answered l]))), s) \<and>
    cvt_req_name_to_res_name (Some a) s = (Inl OutOfBounds, s)"
proof (intro conjI)
  show "cvt_req_name_to_res_name (Some (dotted (a # b # ms @ [l]))) s =
      (Inr (Some (dotted (b # a # ms @ [answered l]))), s)"
    using assms by (rule res_name_parts)
  show "cvt_req_name_to_res_name (Some (dotted (b # a # ms @ [answered l]))) s =
      (Inr (Some (dotted (a # b # ms @ [answered l]))), s)"
    using res_name_parts [of b a ms "answered l" s] assms name_part_answered by auto
  have "split a ''.'' = [a]" using split_dotted [of "[a]"] assms(1) by simp
  then show "cvt_req_name_to_res_name (Some a) s = (Inl OutOfBounds, s)"
    by (simp add: cvt_req_name_to_res_name_def io_simps Let_def del: split.simps)
qed

theorem res_name_spec_witness:
  "cvt_req_name_to_res_name (Some (dotted (''web'' # ''ezm'' # [''mesh''] @ [''requested'']))) () =
      (Inr (Some (dotted (''ezm'' # ''web'' # [''mesh''] @ [answered ''requested'']))), ()) \<and>
    cvt_req_name_to_res_name (Some (dotted (''ezm'' # ''web'' # [''mesh''] @ [answered ''requested'']))) () =
      (Inr (Some (dotted (''web'' # ''ezm'' # [''mesh''] @ [answered ''requested'']))), ()) \<and>
    cvt_req_name_to_res_name (Some ''web'') () = (Inl OutOfBounds, ())"
  by (rule res_name_spec) (simp_all add: name_part_def answered_def sublist_code)

end
