(* ===== verification/Frame.thy ===== *)
theory Frame
  imports Message
begin

text \<open>
  What every run keeps, whether it returns or faults. The rules for a relation between the states
  before and after a run are stated once, for any reflexive and transitive relation, and used for
  two of them: equality, for the functions that only compute, and \<open>evolves\<close>: the identities, the
  error tables and the topics stay, the trace grows, identifiers are only drawn.
\<close>

definition runs :: "('s \<Rightarrow> 's \<Rightarrow> bool) \<Rightarrow> ('s, 'a) io \<Rightarrow> bool" where
  "runs R m \<longleftrightarrow> (\<forall>s. R s (snd (m s)))"

lemma runsD: "runs R m \<Longrightarrow> m s = (r, t) \<Longrightarrow> R s t"
  by (auto simp: runs_def dest: spec [of _ s])

locale run_relation =
  fixes R :: "'s \<Rightarrow> 's \<Rightarrow> bool"
  assumes refl: "R s s"
    and trans: "R s t \<Longrightarrow> R t u \<Longrightarrow> R s u"
begin

lemma basic:
  "runs R (io_ret x)" "runs R (io_fail f)" "runs R (io_get g)" "runs R (io_deref p)" "runs R (fmt_s q)"
  "runs R (sprintf_buf n str)"
  by (simp_all add: runs_def io_simps refl io_deref_def fmt_s_def sprintf_buf_def split: option.split)

lemma bind: "runs R m \<Longrightarrow> (\<And>x. runs R (k x)) \<Longrightarrow> runs R (io_bind m k)"
  unfolding runs_def
proof
  fix s
  assume "\<forall>s. R s (snd (m s))" "\<And>x. \<forall>s. R s (snd (k x s))"
  then show "R s (snd (io_bind m k s))"
    by (cases "m s"; cases "fst (m s)") (auto simp: io_bind_app dest: spec [of _ s] intro: trans)
qed

lemma bind_when: "runs R m \<Longrightarrow> (\<And>s x t. m s = (Inr x, t) \<Longrightarrow> runs R (k x)) \<Longrightarrow> runs R (io_bind m k)"
  unfolding runs_def
proof
  fix s
  assume m: "\<forall>s. R s (snd (m s))" and k: "\<And>s x t. m s = (Inr x, t) \<Longrightarrow> \<forall>s. R s (snd (k x s))"
  obtain r t where r: "m s = (r, t)" by fastforce
  show "R s (snd (io_bind m k s))"
    by (cases r) (use r m [rule_format, of s] k [of s _ t] in \<open>auto simp: io_bind_app intro: trans\<close>)
qed

lemma then_: "runs R m \<Longrightarrow> runs R n \<Longrightarrow> runs R (io_then m n)"
  unfolding io_then_def by (rule bind)

lemma void: "runs R m \<Longrightarrow> runs R (io_void m)"
  unfolding io_void_def by (rule bind) (simp_all add: basic)

lemma seq_Nil: "runs R (io_seq [])"
  by (simp add: basic)

lemma seq_Cons: "runs R m \<Longrightarrow> runs R (io_seq ms) \<Longrightarrow> runs R (io_seq (m # ms))"
  by (simp add: then_)

lemma seq_all: "(\<And>m. m \<in> set ms \<Longrightarrow> runs R m) \<Longrightarrow> runs R (io_seq ms)"
  by (induction ms) (simp_all add: basic then_)

lemma for_: "(\<And>x. runs R (f x)) \<Longrightarrow> runs R (io_for xs f)"
  unfolding io_for_def by (rule seq_all) auto

lemma fold_: "(\<And>b x. runs R (f b x)) \<Longrightarrow> runs R (io_fold f b xs)"
  by (induction xs arbitrary: b) (simp_all add: basic bind)

lemma if_: "(c \<Longrightarrow> runs R m) \<Longrightarrow> (\<not> c \<Longrightarrow> runs R n) \<Longrightarrow> runs R (if c then m else n)"
  by simp

lemma let_: "runs R (f x) \<Longrightarrow> runs R (Let x f)"
  by simp

lemma prod_: "(\<And>a b. runs R (f a b)) \<Longrightarrow> runs R (case p of (a, b) \<Rightarrow> f a b)"
  by (simp split: prod.split)

lemma option_: "runs R m \<Longrightarrow> (\<And>x. runs R (f x)) \<Longrightarrow> runs R (case p of None \<Rightarrow> m | Some x \<Rightarrow> f x)"
  by (simp split: option.split)

lemma sum_: "(\<And>x. runs R (f x)) \<Longrightarrow> (\<And>y. runs R (g y)) \<Longrightarrow> runs R (case p of Inl x \<Rightarrow> f x | Inr y \<Rightarrow> g y)"
  by (simp split: sum.split)

lemma list_: "runs R m \<Longrightarrow> (\<And>x xs. runs R (f x xs)) \<Longrightarrow> runs R (case l of [] \<Rightarrow> m | x # xs \<Rightarrow> f x xs)"
  by (simp split: list.split)

lemmas rules = basic bind then_ void seq_Nil seq_Cons for_ fold_ if_ let_ prod_ option_ sum_ list_

end

section \<open>Functions that only compute\<close>

interpretation pure: run_relation "(=)"
  by unfold_locales simp_all

lemma pure_result: "runs (=) m \<Longrightarrow> m s = (r, t) \<Longrightarrow> t = s"
  using runsD [of "(=)" m s r t] by simp

lemma pure_conversions:
  "runs (=) (forwarding_array L d)" "runs (=) (cvt_dns_to_json L dns)" "runs (=) (cvt_dns_dhcp_to_json L x)"
  "runs (=) (cvt_iptable_nova_service_to_json L ns)" "runs (=) (cvt_iptable_nova_service_list_to_json L nss)"
  "runs (=) (union_member sel u)"
  unfolding cvt_dns_dhcp_to_json_def cvt_dns_to_json_def forwarding_array_def
    cvt_iptable_nova_service_list_to_json_def cvt_iptable_nova_service_to_json_def union_member_def
  by (intro pure.rules)+

lemma pure_data: "runs (=) (cvt_data_to_json L data ty)"
  unfolding cvt_data_to_json_def
  by (cases data; cases ty; simp; intro pure.rules pure_conversions)

lemma pure_messages:
  "runs (=) (cvt_respond_data_to_json L r ty)" "runs (=) (cvt_msg_request_to_json L m ty)"
  "runs (=) (cvt_msg_respond_to_json L m' ty)" "runs (=) (cvt_req_name_to_res_name n)"
  unfolding cvt_msg_respond_to_json_def cvt_respond_data_to_json_def cvt_msg_request_to_json_def
    cvt_req_name_to_res_name_def
  by (intro pure.rules pure_data)+

lemma pure_frees:
  "runs (=) (wifi_iface_free wi)" "runs (=) (wireless_free w)" "runs (=) (mesh_setting_free ms)" "runs (=) (dns_free d)"
  "runs (=) (dns_dhcp_free x)"
  unfolding dns_dhcp_free_def dns_free_def mesh_setting_free_def wireless_free_def wifi_iface_free_def
  by (intro pure.rules)+

lemma pure_data_free: "runs (=) (data_free data ty)"
  unfolding data_free_def
  by (cases data; cases ty; simp; intro pure.rules pure_conversions pure_frees)

lemma pure_message_frees:
  "runs (=) (respond_data_free rd ty)"
  "runs (=) (msg_respond_free m ty)"
  unfolding msg_respond_free_def respond_data_free_def
  by (intro pure.rules pure_data_free)+

section \<open>Runs of the program\<close>

text \<open>
  What a run publishes: with a JSON library that does what it says, each text is the document of a
  response, on the topic of the connection, or of a request to another device.
\<close>

definition response_text :: "'j cjson_lib \<Rightarrow> string \<Rightarrow> bool" where
  "response_text L str \<longleftrightarrow> (\<exists>(s :: 'j world) m ty j. cvt_msg_respond_to_json L m ty s = (Inr (Some j), s) \<and>
     cJSON_Parse L (Some str) = Some j)"

definition request_text :: "'j cjson_lib \<Rightarrow> string \<Rightarrow> bool" where
  "request_text L str \<longleftrightarrow> (\<exists>(s :: 'j world) m ty j. cvt_msg_request_to_json L m ty s = (Inr (Some j), s) \<and>
     cJSON_Parse L (Some str) = Some j)"

fun event_typed :: "'j cjson_lib \<Rightarrow> string \<Rightarrow> event \<Rightarrow> bool" where
  "event_typed L pub_topic (Publish topic retain str) \<longleftrightarrow>
     (cjson_ok L \<longrightarrow> topic = pub_topic \<and> response_text L str \<or> request_text L str)"
| "event_typed L pub_topic e \<longleftrightarrow> True"

definition evolves :: "'j cjson_lib \<Rightarrow> 'j world \<Rightarrow> 'j world \<Rightarrow> bool" where
  "evolves L s t \<longleftrightarrow>
     w_hub_id t = w_hub_id s \<and> w_ezm_id t = w_ezm_id s \<and> w_error_tables t = w_error_tables s \<and>
     w_sub_topic t = w_sub_topic s \<and> w_pub_topic t = w_pub_topic s \<and> w_uuids s \<le> w_uuids t \<and>
     (\<exists>es. w_trace t = w_trace s @ es \<and> list_all (event_typed L (w_pub_topic s)) es)"

lemma evolves_refl: "evolves L s s"
  by (simp add: evolves_def)

lemma evolves_trans: "evolves L s t \<Longrightarrow> evolves L t u \<Longrightarrow> evolves L s u"
  by (auto simp: evolves_def)

interpretation ev: run_relation "evolves L" for L
  by unfold_locales (rule evolves_refl, rule evolves_trans)

lemma evolves_pure: "runs (=) m \<Longrightarrow> runs (evolves L) m"
  unfolding runs_def by (metis evolves_refl)

lemma evolves_modify: "(\<And>s. evolves L s (f s)) \<Longrightarrow> runs (evolves L) (io_modify f)"
  by (simp add: runs_def io_simps)

named_theorems evolve "the functions of the program, each a run that evolves the state"

lemma ev_primitives [evolve]:
  "runs (evolves L) (emit Connect)"
  "runs (evolves L) (emit (Emt c))"
  "runs (evolves L) (emit (Remove c))"
  "runs (evolves L) (emit (Authen c q r))"
  "runs (evolves L) (sleep_s n)"
  "runs (evolves L) (usleep n)"
  "runs (evolves L) (mutex_lock)"
  "runs (evolves L) (mutex_unlock)"
  "runs (evolves L) (execl_timeout E t c)"
  "runs (evolves L) (execl_non_timeout E c)"
  by (auto simp: runs_def evolves_def io_simps sleep_s_def usleep_def emit_def mutex_lock_def mutex_unlock_def
      execl_timeout_def execl_non_timeout_def split: prod.splits)

lemma ev_files_modify [evolve]:
  "runs (evolves L) (io_modify (w_files_update f))"
  "runs (evolves L) (io_modify (w_uuids_update Suc))"
  "runs (evolves L) (io_modify (w_topo_flags_update g))"
  by (auto simp: runs_def evolves_def io_simps)

lemma ev_write_data [evolve]:
  "runs (evolves L) (write_data E d p mode)"
  by (cases mode) (simp_all add: write_data_def, (intro ev.rules evolve)+)

lemma ev_files [evolve]:
  "runs (evolves L) (read_data p)"
  "runs (evolves L) (load_json_from_file E p)"
  "runs (evolves L) (read_line p)"
  "runs (evolves L) (check_file_exist p)"
  "runs (evolves L) (the_lines ls)"
  "runs (evolves L) (execl_file E p)"
  unfolding execl_file_def load_json_from_file_def read_line_def the_lines_def read_data_def check_file_exist_def
  by (intro ev.rules evolve)+

lemma ev_uci [evolve]:
  "runs (evolves L) (uci_run E b l)"
  "runs (evolves L) (app_uci_add E p q)"
  "runs (evolves L) (app_uci_set E p q)"
  "runs (evolves L) (app_uci_get E p)"
  "runs (evolves L) (app_uci_delete E p)"
  "runs (evolves L) (app_uci_rename E p q)"
  "runs (evolves L) (app_uci_add_list E p q)"
  "runs (evolves L) (app_uci_del_list E p q)"
  "runs (evolves L) (uci_show E p)"
  "runs (evolves L) (app_uci_commit E p)"
  unfolding app_uci_add_def app_uci_set_def app_uci_get_def app_uci_delete_def app_uci_rename_def app_uci_add_list_def app_uci_del_list_def uci_show_def app_uci_commit_def uci_run_def
  by (intro ev.rules evolve)+

lemma ev_services [evolve]:
  "runs (evolves L) (service_run E v p)"
  "runs (evolves L) (start_service E p)"
  "runs (evolves L) (stop_service E p)"
  "runs (evolves L) (restart_service E p)"
  "runs (evolves L) (disable_service E p)"
  "runs (evolves L) (enable_service E p)"
  "runs (evolves L) (uuid_gen E p)"
  unfolding start_service_def stop_service_def restart_service_def disable_service_def enable_service_def service_run_def uuid_gen_def
  by (intro ev.rules evolve)+

lemma ev_lookup [evolve]:
  "runs (evolves L) (error_table_lookup E code)"
  unfolding error_table_lookup_def
  by (intro ev.rules evolve)+

lemma ev_lan [evolve]:
  "runs (evolves L) (lan_save_to_setting_file E lan)"
  "runs (evolves L) (lan_get_from_lan_setting_file E)"
  "runs (evolves L) (lan_set E lan)"
  "runs (evolves L) (lan_get E)"
  "runs (evolves L) (lan_reload_from_setting_file E)"
  "runs (evolves L) (wan_save_to_setting_file E wan)"
  "runs (evolves L) (wan_get_from_setting_file E)"
  "runs (evolves L) (wan_set E wan)"
  "runs (evolves L) (wan_get E)"
  "runs (evolves L) (wan_reload_from_setting_file E)"
  unfolding lan_reload_from_setting_file_def lan_get_def lan_set_def lan_save_to_setting_file_def lan_get_from_lan_setting_file_def wan_reload_from_setting_file_def wan_get_def wan_set_def wan_save_to_setting_file_def wan_get_from_setting_file_def
  by (intro ev.rules evolve)+

lemma ev_route [evolve]:
  "runs (evolves L) (route_save_to_setting_file E rs)"
  "runs (evolves L) (route_request_from_setting_file E)"
  "runs (evolves L) (route_request E)"
  "runs (evolves L) (ip_route_cmd verb r)"
  "runs (evolves L) (route_create_one E rs r)"
  "runs (evolves L) (route_create E rs)"
  "runs (evolves L) (route_update_one E acc r)"
  "runs (evolves L) (route_update E rs)"
  "runs (evolves L) (route_delete_one E n acc' r)"
  "runs (evolves L) (route_delete E rs)"
  unfolding route_request_def route_create_def route_update_def route_delete_def route_save_to_setting_file_def route_request_from_setting_file_def route_create_one_def route_update_one_def route_delete_one_def ip_route_cmd_def
  by (intro ev.rules evolve)+

lemma ev_iptables_lists [evolve]:
  "runs (evolves L) (iptables_default_setting E)"
  "runs (evolves L) (iptables_allow_all_traffic E)"
  "runs (evolves L) (iptables_restrict_basic E)"
  "runs (evolves L) (input_rule t)"
  unfolding iptables_default_setting_def iptables_allow_all_traffic_def iptables_restrict_basic_def input_rule_def
  by (intro ev.rules evolve)+

lemma ev_open_port [evolve]: "runs (evolves L) (open_port_loop E ts)"
proof (induction ts)
  case (Cons t ts)
  show ?case by (subst open_port_loop.simps) (intro ev.rules evolve Cons.IH)
qed (simp add: ev.basic)

lemma ev_iptables_common [evolve]:
  "runs (evolves L) (iptables_open_port_profiles E ts)"
  "runs (evolves L) (iptables_open_port_profile E t)"
  "runs (evolves L) (iptable_dnat_dmz_request_from_setting_file E)"
  "runs (evolves L) (iptable_dnat_dmz_request E)"
  "runs (evolves L) (iptable_dnat_dmz_save_to_setting_file E t)"
  "runs (evolves L) (iptables_dnat_dmz_profiles_set E t)"
  "runs (evolves L) (iptable_dnat_dmz_reload_from_setting_file E)"
  "runs (evolves L) (iptable_dnat_forwarding_request_from_setting_file E)"
  "runs (evolves L) (iptable_dnat_forwarding_reload_from_setting_file E)"
  "runs (evolves L) (iptable_nova_service_request_from_setting_file E)"
  unfolding iptable_dnat_dmz_reload_from_setting_file_def iptable_dnat_forwarding_reload_from_setting_file_def iptables_open_port_profiles_def iptables_open_port_profile_def iptable_dnat_dmz_request_def iptable_dnat_dmz_request_from_setting_file_def iptable_dnat_dmz_save_to_setting_file_def iptables_dnat_dmz_profiles_set_def iptable_dnat_forwarding_request_from_setting_file_def iptable_nova_service_request_from_setting_file_def
  by (intro ev.rules evolve)+

lemma ev_nova_loop [evolve]: "runs (evolves L) (nova_open_loop E nss)"
proof (induction nss)
  case (Cons ns nss)
  show ?case by (subst nova_open_loop.simps) (intro ev.rules evolve Cons.IH)
qed (simp add: ev.basic)

lemma ev_refresh [evolve]:
  "runs (evolves L) (iptable_nova_service_reload_from_setting_file E)"
  "runs (evolves L) (iptables_refresh E)"
  unfolding iptables_refresh_def iptable_nova_service_reload_from_setting_file_def
  by (intro ev.rules evolve)+

lemma ev_iptables [evolve]:
  "runs (evolves L) (iptable_dnat_dmz_update E t)"
  "runs (evolves L) (iptables_dnat_forwarding_save_to_setting_file E ts)"
  "runs (evolves L) (iptables_dnat_forwarding_request E)"
  "runs (evolves L) (save_and_refresh E ts r)"
  "runs (evolves L) (iptables_dnat_forwarding_create E ts)"
  "runs (evolves L) (iptables_dnat_forwarding_update E ts)"
  "runs (evolves L) (iptables_dnat_forwarding_delete E ts)"
  "runs (evolves L) (iptable_nova_service_save_to_setting_file E nss)"
  "runs (evolves L) (iptable_nova_service_set E nss)"
  "runs (evolves L) (iptable_nova_service_get E)"
  unfolding iptable_nova_service_get_def iptable_nova_service_set_def iptable_nova_service_save_to_setting_file_def iptable_dnat_dmz_update_def iptables_dnat_forwarding_create_def iptables_dnat_forwarding_update_def iptables_dnat_forwarding_delete_def iptables_dnat_forwarding_request_def save_and_refresh_def iptables_dnat_forwarding_save_to_setting_file_def
  by (intro ev.rules evolve evolves_pure pure_conversions)+

lemma ev_wlan [evolve]:
  "runs (evolves L) (change_wifi_iface E w)"
  "runs (evolves L) (get_hub_id)"
  "runs (evolves L) (get_ezm_id)"
  "runs (evolves L) (get_interface_ip E i)"
  "runs (evolves L) (get_interface_mac i)"
  unfolding change_wifi_iface_def get_hub_id_def get_ezm_id_def get_interface_ip_def get_interface_mac_def
  by (intro ev.rules evolve)+

lemma ev_device [evolve]:
  "runs (evolves L) (request_device_list_from_file E)"
  "runs (evolves L) (request_device_list_from_file_by_status E st)"
  "runs (evolves L) (write_device_list E ds)"
  "runs (evolves L) (set_device_list_to_file E ds)"
  "runs (evolves L) (delete_device_list_from_file E ds)"
  "runs (evolves L) (update_device_list_to_file_from_emt_device E ds)"
  "runs (evolves L) (update_device_list_to_file_from_web E ds)"
  "runs (evolves L) (get_device_from_file_by_mac E m)"
  unfolding set_device_list_to_file_def delete_device_list_from_file_def update_device_list_to_file_from_emt_device_def update_device_list_to_file_from_web_def get_device_from_file_by_mac_def request_device_list_from_file_def request_device_list_from_file_by_status_def write_device_list_def
  by (intro ev.rules evolve)+

lemma ev_emt [evolve]:
  "runs (evolves L) (create_cmd sec action args)"
  "runs (evolves L) (emt_send_cmd E p)"
  "runs (evolves L) (emt_topology E a p)"
  "runs (evolves L) (ezm_deamon_is_running E)"
  "runs (evolves L) (add_device_check E n)"
  "runs (evolves L) (remove_device_check E n)"
  "runs (evolves L) (polling_wps E)"
  unfolding add_device_check_def remove_device_check_def emt_topology_def create_cmd_def emt_send_cmd_def ezm_deamon_is_running_def polling_wps_def
  by (intro ev.rules evolve)+

lemma ev_loops [evolve]: "runs (evolves L) (wait_daemon n E)" "runs (evolves L) (delete_hosts n E)"
proof (induction n)
  case 0
  { case 1 then show ?case by (simp add: ev.basic) }
  { case 2 then show ?case by (simp add: ev.basic) }
next
  case (Suc n)
  { case 1 then show ?case by (subst wait_daemon.simps) (intro ev.rules evolve Suc.IH) }
  { case 2 then show ?case by (subst delete_hosts.simps) (intro ev.rules evolve Suc.IH) }
qed

lemma ev_dhcp [evolve]:
  "runs (evolves L) (dns_host_entry E h)"
  "runs (evolves L) (append_dns c p)"
  "runs (evolves L) (dns_set E d)"
  "runs (evolves L) (dhcp4_client_entry E cl)"
  "runs (evolves L) (dhcp4_pool_entry E d4)"
  "runs (evolves L) (dhcp4_set n E dh)"
  "runs (evolves L) (dns_dhcp_save_to_setting_file E x)"
  "runs (evolves L) (dns_dhcp_get_from_setting_file E)"
  "runs (evolves L) (dns_dhcp_get E)"
  "runs (evolves L) (dns_dhcp_set n E x)"
  "runs (evolves L) (dns_dhcp_reload_from_setting_file n E)"
  "runs (evolves L) (dhcp_lease_get)"
  unfolding dns_dhcp_reload_from_setting_file_def dns_dhcp_get_def dns_dhcp_set_def dhcp4_set_def dns_set_def dns_host_entry_def append_dns_def dhcp4_client_entry_def dhcp4_pool_entry_def dns_dhcp_save_to_setting_file_def dns_dhcp_get_from_setting_file_def dhcp_lease_get_def
  by (intro ev.rules evolve evolves_pure pure_conversions pure_frees)+

lemma ev_bridge [evolve]:
  "runs (evolves L) (request_mqtt_bridge_client)"
  "runs (evolves L) (request_mqtt_bridge_server)"
  "runs (evolves L) (create_mqtt_bridge_server E)"
  "runs (evolves L) (create_mqtt_bridge_client E)"
  "runs (evolves L) (delete_mqtt_bridge_client E)"
  "runs (evolves L) (delete_mqtt_bridge_server E)"
  "runs (evolves L) (restart_mqtt_service E)"
  unfolding request_mqtt_bridge_client_def request_mqtt_bridge_server_def get_listener_ip_default_port_def get_bridge_client_connection_ip_def create_mqtt_bridge_server_def create_mqtt_bridge_client_def delete_mqtt_bridge_client_def delete_mqtt_bridge_server_def restart_mqtt_service_def delete_from_line_def rewrite_lines_def
  by (intro ev.rules evolve)+

lemma ev_modes_read [evolve]:
  "runs (evolves L) (read_mesh_setting E)"
  "runs (evolves L) (get_work_mode E)"
  "runs (evolves L) (get_work_mode_str E)"
  "runs (evolves L) (get_current_device_info E)"
  "runs (evolves L) (txt_record k p)"
  "runs (evolves L) (mdns_create_publisher E)"
  "runs (evolves L) (mdns_remove_publisher E f)"
  "runs (evolves L) (network_init n E)"
  unfolding get_work_mode_def get_work_mode_str_def mdns_create_publisher_def get_current_device_info_def txt_record_def mdns_remove_publisher_def network_init_def read_mesh_setting_def
  by (intro ev.rules evolve evolves_pure pure_frees)+

lemma ev_run_cmd [evolve]: "runs (evolves L) (run_cmd E c)"
  by (cases "(E, c)" rule: run_cmd.cases) (simp_all, (intro ev.rules evolve)+)

lemma ev_modes [evolve]:
  "runs (evolves L) (run_script E cs)"
  "runs (evolves L) (run_standalone_mode n E)"
  "runs (evolves L) (agent_prepare n E)"
  "runs (evolves L) (run_agent_mode n E)"
  "runs (evolves L) (controller_prepare n E)"
  "runs (evolves L) (controller_wifi E ms)"
  "runs (evolves L) (controller_register E)"
  "runs (evolves L) (run_controller_mode n E)"
  unfolding run_controller_mode_def controller_prepare_def controller_wifi_def controller_register_def run_agent_mode_def agent_prepare_def run_standalone_mode_def run_script_def
  by (intro ev.rules evolve)+

end
