(* ===== verification/Mqtt.thy ===== *)
theory Mqtt
  imports Frame
begin

text \<open>
  \<open>src/api/mqtt/mqtt_handler\<close>: the two topics of the program, what the callbacks of the broker
  connection do, publishing a response, a request to another device over the bridge, and a request
  to a device outside, whose broker is reached with the credentials of its authentication
  service. The broker library and the authentication service are parameters.
\<close>

section \<open>Formats\<close>

text \<open>
  \<open>sprintf\<close> with a format from the configuration: \<open>%s\<close> takes the next argument, \<open>%%\<close> is a percent
  sign. A conversion without an argument and any other conversion is undefined.
\<close>

fun expand_format :: "cptr list \<Rightarrow> string \<Rightarrow> fault + string" where
  "expand_format args [] = Inr []"
| "expand_format args (c # cs) =
     (if c \<noteq> CHR ''%'' then map_sum id (\<lambda>r. c # r) (expand_format args cs)
      else (case cs of
         [] \<Rightarrow> Inl Uninitialised
       | d # ds \<Rightarrow>
           if d = CHR ''%'' then map_sum id (\<lambda>r. CHR ''%'' # r) (expand_format args ds)
           else if d = CHR ''s'' then
             (case args of
                [] \<Rightarrow> Inl Uninitialised
              | None # as \<Rightarrow> Inl NullString
              | Some a # as \<Rightarrow> map_sum id (\<lambda>r. a @ r) (expand_format as ds))
           else Inl Uninitialised))"

definition sprintf_format :: "nat \<Rightarrow> string \<Rightarrow> cptr list \<Rightarrow> ('s, string) io" where
  "sprintf_format n fmt args =
     (case expand_format args fmt of Inl f \<Rightarrow> io_fail f | Inr x \<Rightarrow> sprintf_buf n x)"

section \<open>Connecting\<close>

text \<open>
  The topics are printed into static arrays of 100 characters. Whether the library gives a handle
  and what the connection attempt returns are arguments.
\<close>

definition mqtt_connect :: "'j env \<Rightarrow> bool \<Rightarrow> c_int \<Rightarrow> ('j, c_int) wio" where
  "mqtt_connect E has_handle rc =
     io_bind get_ezm_id (\<lambda>ezm_id.
     io_bind (io_deref (sub_topic_pattern (get_config E))) (\<lambda>sub_fmt.
     io_bind (sprintf_format 100 sub_fmt [ezm_id]) (\<lambda>sub.
     io_then (io_modify (\<lambda>s. s\<lparr>w_sub_topic := sub\<rparr>))
     (io_bind (io_deref (pub_topic_pattern (get_config E))) (\<lambda>pub_fmt.
      io_bind (sprintf_format 100 pub_fmt [ezm_id]) (\<lambda>pub.
      io_then (io_modify (\<lambda>s. s\<lparr>w_pub_topic := pub\<rparr>))
      (io_ret (if \<not> has_handle then -1 else if rc \<noteq> 0 then -1 else 0))))))))"

text \<open>What the callbacks ask of the library, given its answer to a subscription.\<close>

datatype mosq_call = MosqSubscribe string | MosqDisconnect

definition mqtt_on_connect_cb_handler :: "string \<Rightarrow> (string \<Rightarrow> c_int) \<Rightarrow> c_int \<Rightarrow> mosq_call list" where
  "mqtt_on_connect_cb_handler SUB_TOPIC subscribe reason_code =
     (if reason_code \<noteq> 0 then [MosqDisconnect]
      else MosqSubscribe SUB_TOPIC # (if subscribe SUB_TOPIC \<noteq> 0 then [MosqDisconnect] else []))"

definition mqtt_on_subcribe_cb_handler :: "c_int list \<Rightarrow> mosq_call list" where
  "mqtt_on_subcribe_cb_handler granted_qos =
     (let have_subscription = list_ex (\<lambda>q. sint q \<le> 2) granted_qos
      in if \<not> have_subscription then [MosqDisconnect] else [])"

section \<open>Publishing\<close>

definition json_text :: "'j env \<Rightarrow> 'j option \<Rightarrow> ('j, string) wio" where
  "json_text E json =
     io_bind (io_deref (cJSON_Print (cj E) json)) (\<lambda>str. io_ret (cJSON_Minify (cj E) str))"

definition mqtt_publish_message :: "'j env \<Rightarrow> msg_respond_t \<Rightarrow> msg_type_t \<Rightarrow> bool \<Rightarrow> ('j, unit) wio" where
  "mqtt_publish_message E msg_respond msg_type retain =
     io_bind (cvt_msg_respond_to_json (cj E) msg_respond msg_type) (\<lambda>msg_respond_json.
     io_bind (json_text E msg_respond_json) (\<lambda>msg_str.
     io_bind (io_get w_pub_topic) (\<lambda>PUB_TOPIC.
     emit (Publish PUB_TOPIC retain msg_str))))"

definition mqtt_publish_message_to_mqtt_bridge ::
  "'j env \<Rightarrow> cptr \<Rightarrow> msg_request_t \<Rightarrow> msg_type_t \<Rightarrow> bool \<Rightarrow> ('j, c_int) wio" where
  "mqtt_publish_message_to_mqtt_bridge E ezm_id msg_request msg_type retain =
     io_bind (cvt_msg_request_to_json (cj E) msg_request msg_type) (\<lambda>msg_request_json.
     io_bind (json_text E msg_request_json) (\<lambda>msg_str.
     io_bind (io_deref (sub_topic_pattern (get_config E))) (\<lambda>fmt.
     io_bind (sprintf_format 100 fmt [ezm_id]) (\<lambda>topic.
     io_then (emit (Publish topic retain msg_str)) (io_ret 0)))))"

section \<open>The authentication service\<close>

text \<open>The codes of \<open>authen_code_t\<close> that the program distinguishes.\<close>

abbreviation NoError :: c_int where "NoError \<equiv> 0"
abbreviation ServiceIsExisted :: c_int where "ServiceIsExisted \<equiv> 1"
abbreviation ServiceIsNotAvailable :: c_int where "ServiceIsNotAvailable \<equiv> 9"

definition AUTHEN_DIR :: string where "AUTHEN_DIR = ''/data/config/ezm/authen/%s''"
definition CAFILE :: string where "CAFILE = ''/data/config/ezm/authen/%s/cafile.pem''"
definition SECRET :: string where "SECRET = ''/data/config/ezm/authen/%s/secret.txt''"

text \<open>The texts are raw strings over several lines; a tilde stands for a double quote here.\<close>

definition raw :: "string \<Rightarrow> string" where
  "raw = map (\<lambda>c. if c = CHR ''~'' then CHR 0x22 else c)"

definition newline :: "nat \<Rightarrow> string" where
  "newline n = ''\<newline>'' @ replicate n (CHR '' '')"

definition register_text :: "string \<Rightarrow> string" where
  "register_text id_in =
     raw (''{'' @ newline 24 @ ''~id~: ~'') @ id_in @
     raw (''~ ,'' @ newline 24 @ ''~name~: ~Ezm~,'' @ newline 24 @ ''~software_info~: {'' @ newline 28 @
       ''~version~ : ~'') @ EZM_VERSION_DEFAULT @
     raw (''~'' @ newline 24 @ ''},'' @ newline 24 @ ''~hardware_info~: {}'' @ newline 20 @ ''}'')"

definition login_text :: "string \<Rightarrow> string \<Rightarrow> string" where
  "login_text ident secret =
     raw (newline 24 @ ''{'' @ newline 28 @ ''~id~: ~'') @ ident @
     raw (''~,'' @ newline 28 @ ''~secret~: ~'') @ secret @
     raw (''~'' @ newline 24 @ ''}  '' @ newline 4)"

text \<open>A request to the service, and its answer as a document.\<close>

definition authen_call :: "'j env \<Rightarrow> string \<Rightarrow> cptr \<Rightarrow> cptr \<Rightarrow> ('j, 'j option) wio" where
  "authen_call E kind host request =
     io_then (emit (Authen kind host request))
     (io_bind (io_get w_trace) (\<lambda>h.
      io_ret (cJSON_Parse (cj E) (Some (cJSON_Minify (cj E) (authen E h host request))))))"

definition success_flag :: "'j cjson_lib \<Rightarrow> 'j option \<Rightarrow> bool" where
  "success_flag L json =
     (let success_json = cJSON_GetObjectItemCaseSensitive L json ''success''
      in success_json \<noteq> None \<and> cJSON_IsTrue L success_json)"

text \<open>
  The code of a reported error. The message is the format string of a line of the log and
  must be there, as must the code; without an error object the code so far is kept.
\<close>

definition error_info_code :: "'j cjson_lib \<Rightarrow> 'j option \<Rightarrow> c_int \<Rightarrow> ('s, c_int) io" where
  "error_info_code L json authen_ret =
     (let error_json = cJSON_GetObjectItemCaseSensitive L json ''error_info''
      in if error_json \<noteq> None \<and> cJSON_IsObject L error_json
         then io_bind (io_deref (cJSON_GetStringValue L
                (cJSON_GetObjectItemCaseSensitive L error_json ''message''))) (\<lambda>_.
              io_bind (io_deref (cJSON_GetObjectItemCaseSensitive L error_json ''code'')) (\<lambda>code_json.
              io_ret (cJSON_valueint L code_json)))
         else io_ret authen_ret)"

text \<open>
  Registration gives the code, the identity and the secret. The secret is a local variable that
  is set only from the answer to a successful registration: \<open>None\<close> stands for its undefined
  value, \<open>Some None\<close> for NULL.
\<close>

definition register_step ::
  "'j env \<Rightarrow> cptr \<Rightarrow> string \<Rightarrow> ('j, 'j option \<times> c_int \<times> cptr \<times> cptr option) wio" where
  "register_step E host id_in =
     io_bind (sprintf_buf 4096 (register_text id_in)) (\<lambda>data.
     io_bind (authen_call E ''register'' host (Some (cJSON_Minify (cj E) data))) (\<lambda>json.
     if json = None then io_ret (json, ServiceIsNotAvailable, Some id_in, None)
     else if success_flag (cj E) json
     then (let authen_info_json = cJSON_GetObjectItemCaseSensitive (cj E) json ''authen_info''
           in if authen_info_json \<noteq> None
              then io_ret (json, NoError,
                cJSON_GetStringValue (cj E) (cJSON_GetObjectItemCaseSensitive (cj E) authen_info_json ''id''),
                Some (cJSON_GetStringValue (cj E)
                  (cJSON_GetObjectItemCaseSensitive (cj E) authen_info_json ''secret'')))
              else io_ret (json, NoError, Some id_in, None))
     else io_bind (error_info_code (cj E) json NoError) (\<lambda>authen_ret.
          io_ret (json, authen_ret, Some id_in, None))))"

text \<open>A fresh secret is written to its file; one for a known service is read from there.\<close>

definition secret_step :: "'j env \<Rightarrow> c_int \<Rightarrow> cptr option \<Rightarrow> string \<Rightarrow> ('j, cptr) wio" where
  "secret_step E authen_ret secret secret_file_name =
     (if authen_ret = NoError then
        (case secret of
           None \<Rightarrow> io_fail Uninitialised
         | Some p \<Rightarrow>
             io_bind (io_deref p) (\<lambda>x.
             io_then (write_data E x (Some secret_file_name) TRUNCATE) (io_ret (Some x))))
      else read_data (Some secret_file_name))"

text \<open>The login gives a token, or the code with which the function returns.\<close>

definition login_step :: "'j env \<Rightarrow> cptr \<Rightarrow> cptr \<Rightarrow> cptr \<Rightarrow> c_int \<Rightarrow> ('j, c_int + cptr) wio" where
  "login_step E host ident secret authen_ret =
     io_bind (fmt_s ident) (\<lambda>i. io_bind (fmt_s secret) (\<lambda>x.
     io_bind (sprintf_buf 4096 (login_text i x)) (\<lambda>data.
     io_bind (authen_call E ''login'' host (Some (cJSON_Minify (cj E) data))) (\<lambda>json.
     if json = None then io_ret (Inl ServiceIsNotAvailable)
     else if success_flag (cj E) json
     then (let jwt_info_json = cJSON_GetObjectItemCaseSensitive (cj E) json ''jwt_info''
           in io_ret (Inr (if jwt_info_json \<noteq> None
                then cJSON_GetStringValue (cj E)
                  (cJSON_GetObjectItemCaseSensitive (cj E) jwt_info_json ''token'')
                else None)))
     else io_bind (error_info_code (cj E) json authen_ret) (\<lambda>code. io_ret (Inl code))))))"

text \<open>
  The last step takes the port and the certificate from the answer. When it reports an error, the
  error object is looked for in the answer to the registration.
\<close>

definition broker_step ::
  "'j env \<Rightarrow> cptr \<Rightarrow> cptr \<Rightarrow> 'j option \<Rightarrow> string \<Rightarrow> c_int \<Rightarrow> c_int \<Rightarrow> ('j, c_int \<times> c_int) wio" where
  "broker_step E host token register_response_json cafile_name mqtt_port_out authen_ret =
     io_bind (authen_call E ''auth/broker'' host token) (\<lambda>json.
     if json = None then io_ret (ServiceIsNotAvailable, mqtt_port_out)
     else if success_flag (cj E) json
     then (let broker_info_json = cJSON_GetObjectItemCaseSensitive (cj E) json ''broker_info''
           in if broker_info_json \<noteq> None
              then io_bind (io_deref (cJSON_GetObjectItemCaseSensitive (cj E) broker_info_json ''port'')) (\<lambda>port_json.
                   io_bind (io_deref (cJSON_GetStringValue (cj E)
                     (cJSON_GetObjectItemCaseSensitive (cj E) broker_info_json ''cafile''))) (\<lambda>cafile.
                   io_then (write_data E cafile (Some cafile_name) TRUNCATE)
                   (io_ret (authen_ret, cJSON_valueint (cj E) port_json))))
              else io_ret (authen_ret, mqtt_port_out))
     else io_bind (error_info_code (cj E) register_response_json authen_ret) (\<lambda>code.
          io_ret (code, mqtt_port_out)))"

text \<open>The result is the code and the port, which the caller has set to a default.\<close>

definition mqtt_get_authen_info ::
  "'j env \<Rightarrow> cptr \<Rightarrow> cptr \<Rightarrow> string \<Rightarrow> string \<Rightarrow> c_int \<Rightarrow> ('j, c_int \<times> c_int) wio" where
  "mqtt_get_authen_info E host id_in cafile_name secret_file_name mqtt_port_out =
     io_bind (fmt_s id_in) (\<lambda>own.
     io_bind (register_step E host own) (\<lambda>(register_response_json, authen_ret, ident, secret).
     if register_response_json = None then io_ret (authen_ret, mqtt_port_out)
     else if authen_ret \<noteq> NoError \<and> authen_ret \<noteq> ServiceIsExisted then io_ret (authen_ret, mqtt_port_out)
     else io_bind (secret_step E authen_ret secret secret_file_name) (\<lambda>secret.
          io_bind (login_step E host ident secret authen_ret) (\<lambda>r.
          case r of
            Inl code \<Rightarrow> io_ret (code, mqtt_port_out)
          | Inr token \<Rightarrow>
              broker_step E host token register_response_json cafile_name mqtt_port_out authen_ret))))"

text \<open>The command that publishes on the other device's broker, with the credentials just obtained.\<close>

definition mosquitto_pub ::
  "cptr \<Rightarrow> c_int \<Rightarrow> string \<Rightarrow> cptr \<Rightarrow> string \<Rightarrow> cptr \<Rightarrow> cptr \<Rightarrow> bool \<Rightarrow> ('s, string) io" where
  "mosquitto_pub host mqtt_port ca_file_name ezm_id msg_str own secret retain =
     io_bind (fmt_s host) (\<lambda>h. io_bind (fmt_s ezm_id) (\<lambda>e.
     io_bind (fmt_s own) (\<lambda>u. io_bind (fmt_s secret) (\<lambda>x.
     sprintf_buf 4096
       (''mosquitto_pub -h '' @ h @ '' -p '' @ show_int mqtt_port @ ''  --cafile '' @ ca_file_name @
        '' -t '' @ quoted (''hub/event/'' @ e) @ ''  -m '' @ quoted msg_str @ ''  --insecure  -u '' @ u @
        ''  -P '' @ x @ (if retain then '' -r'' else ''''))))))"

definition mqtt_publish_message_to_external ::
  "'j env \<Rightarrow> cptr \<Rightarrow> cptr \<Rightarrow> msg_request_t \<Rightarrow> msg_type_t \<Rightarrow> bool \<Rightarrow> ('j, c_int) wio" where
  "mqtt_publish_message_to_external E host ezm_id msg_request msg_type retain =
     io_bind (cvt_msg_request_to_json (cj E) msg_request msg_type) (\<lambda>msg_request_json.
     io_bind (json_text E msg_request_json) (\<lambda>msg_str.
     io_bind (sprintf_format 1024 AUTHEN_DIR [ezm_id]) (\<lambda>authen_dir.
     io_bind (sprintf_format 1024 CAFILE [ezm_id]) (\<lambda>ca_file_name.
     io_bind (sprintf_format 1024 SECRET [ezm_id]) (\<lambda>secret_file_name.
     io_bind get_ezm_id (\<lambda>own.
     io_bind (mqtt_get_authen_info E host own ca_file_name secret_file_name 8883) (\<lambda>(ret_code, mqtt_port).
     if ret_code \<noteq> NoError \<and> ret_code \<noteq> ServiceIsExisted then io_ret (-1)
     else io_bind (read_data (Some secret_file_name)) (\<lambda>secret.
          io_bind (mosquitto_pub host mqtt_port ca_file_name ezm_id msg_str own secret retain) (\<lambda>cmd.
          io_then (execl_timeout E 120000 cmd) (io_ret 0))))))))))"

section \<open>Facts\<close>

lemma expand_plain: "CHR ''%'' \<notin> set p \<Longrightarrow> expand_format args (p @ r) = map_sum id (\<lambda>x. p @ x) (expand_format args r)"
proof (induction p)
  case Nil
  then show ?case by (cases "expand_format args r") simp_all
next
  case (Cons c p)
  then show ?case by (cases "expand_format args r") auto
qed

lemma expand_plain_end: "CHR ''%'' \<notin> set p \<Longrightarrow> expand_format args p = Inr p"
  using expand_plain [of p args "[]"] by simp

text \<open>A pattern with one place for a string.\<close>

definition pattern :: "string \<Rightarrow> string \<Rightarrow> cptr" where
  "pattern p q = Some (p @ ''%s'' @ q)"

lemma expand_pattern:
  assumes "CHR ''%'' \<notin> set p" "CHR ''%'' \<notin> set q"
  shows "expand_format [Some a] (p @ ''%s'' @ q) = Inr (p @ a @ q)"
    "expand_format [None] (p @ ''%s'' @ q) = Inl NullString"
  using expand_plain [OF assms(1), of "[Some a]" "''%s'' @ q"] expand_plain_end [OF assms(2), of "[]"]
    expand_plain [OF assms(1), of "[None]" "''%s'' @ q"]
  by simp_all

lemma sprintf_pattern:
  assumes "CHR ''%'' \<notin> set p" "CHR ''%'' \<notin> set q"
  shows "sprintf_format n (p @ ''%s'' @ q) [Some a] = sprintf_buf n (p @ a @ q)"
  unfolding sprintf_format_def expand_pattern(1) [OF assms] by simp

lemma json_text_ok:
  assumes "cjson_ok (cj E)"
  shows "\<exists>t. json_text E (Some j) s = (Inr t, s) \<and> cJSON_Parse (cj E) (Some t) = Some j"
proof -
  obtain t where "cJSON_Print (cj E) (Some j) = Some t"
    "cJSON_Parse (cj E) (Some (cJSON_Minify (cj E) t)) = Some j"
    by (rule Print_Some [OF assms])
  then show ?thesis by (simp add: json_text_def io_simps)
qed

text \<open>
  The payload of a response: the text from which the other side reads it back. All handlers end
  in the publication of such a text.
\<close>

definition payload :: "'j env \<Rightarrow> msg_respond_t \<Rightarrow> msg_type_t \<Rightarrow> string \<Rightarrow> bool" where
  "payload E m ty text' \<longleftrightarrow>
     (\<exists>r data'. rs_respond_data m = Some r \<and> arrives ty (rd_data r) = Some data' \<and>
        cvt_json_to_msg_respond (cj E) (cJSON_Parse (cj E) (Some text')) ty =
          m\<lparr>rs_respond_data := Some (r\<lparr>rd_data := if object_type ty then data' else None\<rparr>)\<rparr>)"

lemma publish_message:
  assumes "cjson_ok (cj E)" "rs_respond_data m = Some r" "arrives ty (rd_data r) = Some data'"
  shows "\<exists>t. mqtt_publish_message E m ty retain s =
      (Inr (), s\<lparr>w_trace := w_trace s @ [Publish (w_pub_topic s) retain t]\<rparr>) \<and> payload E m ty t"
proof -
  obtain j where j: "cvt_msg_respond_to_json (cj E) m ty s = (Inr (Some j), s)"
    "cvt_json_to_msg_respond (cj E) (Some j) ty =
      m\<lparr>rs_respond_data := Some (r\<lparr>rd_data := if object_type ty then data' else None\<rparr>)\<rparr>"
    using respond_json [OF assms, of s] by blast
  obtain t where t: "json_text E (Some j) s = (Inr t, s)" "cJSON_Parse (cj E) (Some t) = Some j"
    using json_text_ok [OF assms(1)] by blast
  have "payload E m ty t" unfolding payload_def using assms(2,3) j(2) t(2) by auto
  then show ?thesis using j(1) t(1) by (auto simp: mqtt_publish_message_def io_simps)
qed

text \<open>Runs of the steps against the authentication service: what they leave in the trace.\<close>

lemma bind_Inr_iff:
  "io_bind m k s = (Inr y, t) \<longleftrightarrow> (\<exists>x u. m s = (Inr x, u) \<and> k x u = (Inr y, t))"
  by (auto simp: io_bind_app split: prod.splits sum.splits)

lemma then_Inr_iff:
  "io_then m n s = (Inr y, t) \<longleftrightarrow> (\<exists>x u. m s = (Inr x, u) \<and> n u = (Inr y, t))"
  by (auto simp: io_then_app split: prod.splits sum.splits)

lemma write_data_trace: "write_data E d p mode s = (Inr x, t) \<Longrightarrow> w_trace t = w_trace s"
  by (auto simp: write_data_def mutex_lock_def mutex_unlock_def io_simps io_deref_def
      split: if_splits option.splits write_mode.splits)

lemma read_data_trace: "read_data p s = (Inr x, t) \<Longrightarrow> w_trace t = w_trace s"
  by (auto simp: read_data_def mutex_lock_def mutex_unlock_def io_simps io_deref_def
      split: if_splits option.splits)

lemma sprintf_buf_Inr: "sprintf_buf n x s = (Inr y, t) \<longleftrightarrow> length x < n \<and> y = x \<and> t = s"
  by (auto simp: io_simps)

lemma fmt_s_Inr: "fmt_s p s = (Inr y, t) \<longleftrightarrow> p = Some y \<and> t = s"
  by (cases p) (auto simp: io_simps)

lemma io_deref_Inr: "io_deref p s = (Inr y, t) \<longleftrightarrow> p = Some y \<and> t = s"
  by (cases p) (auto simp: io_simps)

lemma io_ret_Inr: "io_ret x s = (Inr y, t) \<longleftrightarrow> y = x \<and> t = s"
  by (auto simp: io_simps)

lemma error_info_state: "error_info_code L json a s = (Inr x, t) \<Longrightarrow> t = s"
  by (auto simp: error_info_code_def Let_def bind_Inr_iff io_deref_Inr io_ret_Inr split: if_splits)

lemmas run_iffs = bind_Inr_iff then_Inr_iff sprintf_buf_Inr fmt_s_Inr io_deref_Inr io_ret_Inr

lemma authen_call_trace:
  "authen_call E kind host req s = (Inr x, t) \<Longrightarrow> w_trace t = w_trace s @ [Authen kind host req]"
  by (auto simp: authen_call_def io_simps)

lemma register_step_trace:
  "register_step E host own s = (Inr x, t) \<Longrightarrow> \<exists>a. w_trace t = w_trace s @ [Authen ''register'' host a]"
  by (auto simp: register_step_def Let_def run_iffs dest!: authen_call_trace error_info_state
      split: if_splits)

lemma secret_step_trace: "secret_step E a x f s = (Inr y, t) \<Longrightarrow> w_trace t = w_trace s"
  by (auto simp: secret_step_def run_iffs io_fail_app dest!: write_data_trace read_data_trace
      split: if_splits option.splits)

lemma login_step_trace:
  "login_step E host i x a s = (Inr y, t) \<Longrightarrow> \<exists>b. w_trace t = w_trace s @ [Authen ''login'' host b]"
  by (auto simp: login_step_def Let_def run_iffs dest!: authen_call_trace error_info_state
      split: if_splits)

lemma broker_step_trace:
  "broker_step E host tok j f p a s = (Inr y, t) \<Longrightarrow>
     \<exists>b. w_trace t = w_trace s @ [Authen ''auth/broker'' host b]"
  by (auto simp: broker_step_def Let_def run_iffs dest!: authen_call_trace error_info_state write_data_trace
      split: if_splits)


text \<open>The kinds of request in a piece of the trace; nothing else may be in it.\<close>

fun authen_kinds :: "event list \<Rightarrow> string list option" where
  "authen_kinds [] = Some []"
| "authen_kinds (Authen k host req # es) = map_option (\<lambda>ks. k # ks) (authen_kinds es)"
| "authen_kinds (_ # es) = None"

lemma get_authen_info_trace:
  assumes "mqtt_get_authen_info E host own ca sec port s = (Inr (code, p), t)"
  shows "\<exists>es ks. w_trace t = w_trace s @ es \<and> authen_kinds es = Some ks \<and>
    prefix ks [''register'', ''login'', ''auth/broker''] \<and>
    (code = NoError \<or> code = ServiceIsExisted \<longrightarrow> length ks \<ge> 2)"
proof -
  obtain o' j a i x u where own: "own = Some o'"
    and reg: "register_step E host o' s = (Inr (j, a, i, x), u)"
    and rest: "(if j = None then io_ret (a, port)
      else if a \<noteq> NoError \<and> a \<noteq> ServiceIsExisted then io_ret (a, port)
      else io_bind (secret_step E a x sec) (\<lambda>secret. io_bind (login_step E host i secret a) (\<lambda>r.
        case r of Inl c \<Rightarrow> io_ret (c, port)
        | Inr token \<Rightarrow> broker_step E host token j ca port a))) u = (Inr (code, p), t)"
    using assms by (auto simp: mqtt_get_authen_info_def run_iffs)
  obtain b where b: "w_trace u = w_trace s @ [Authen ''register'' host b]"
    using register_step_trace [OF reg] by blast
  have code9: "j = None \<Longrightarrow> a = ServiceIsNotAvailable"
    using reg by (auto simp: register_step_def Let_def run_iffs split: if_splits)
  show ?thesis
  proof (cases "j = None \<or> a \<noteq> NoError \<and> a \<noteq> ServiceIsExisted")
    case True
    then have "t = u" "code = a" using rest by (auto simp: io_ret_Inr split: if_splits)
    then show ?thesis using b True code9
      by (intro exI [of _ "[Authen ''register'' host b]"] exI [of _ "[''register'']"]) auto
  next
    case False
    then obtain y v z w where sec: "secret_step E a x sec u = (Inr y, v)"
      and log: "login_step E host i y a v = (Inr z, w)"
      and fin: "(case z of Inl c \<Rightarrow> io_ret (c, port)
        | Inr token \<Rightarrow> broker_step E host token j ca port a) w = (Inr (code, p), t)"
      using rest by (auto simp: run_iffs split: if_splits)
    obtain c where c: "w_trace w = w_trace s @ [Authen ''register'' host b, Authen ''login'' host c]"
      using login_step_trace [OF log] secret_step_trace [OF sec] b by auto
    show ?thesis
    proof (cases z)
      case (Inl e)
      then have "t = w" using fin by (simp add: io_ret_Inr)
      then show ?thesis using c
        by (intro exI [of _ "[Authen ''register'' host b, Authen ''login'' host c]"]
            exI [of _ "[''register'', ''login'']"]) auto
    next
      case (Inr token)
      with fin obtain d where "w_trace t = w_trace w @ [Authen ''auth/broker'' host d]"
        using broker_step_trace by fastforce
      then show ?thesis using c
        by (intro exI [of _ "[Authen ''register'' host b, Authen ''login'' host c, Authen ''auth/broker'' host d]"]
            exI [of _ "[''register'', ''login'', ''auth/broker'']"]) auto
    qed
  qed
qed

lemma pure_texts:
  "runs (=) (json_text E j)" "runs (=) (sprintf_format n fmt args)"
  "runs (=) (mosquitto_pub h p ca e m own x retain)"
  unfolding json_text_def sprintf_format_def mosquitto_pub_def by (intro pure.rules)+

lemma document_text:
  assumes "json_text E jo s = (Inr str, t)" "cjson_ok (cj E)"
  shows "\<exists>j. jo = Some j \<and> cJSON_Parse (cj E) (Some str) = Some j"
proof (cases jo)
  case None
  then show ?thesis using assms by (simp add: json_text_def io_simps cjson_ok_def cjson_text_def)
next
  case (Some j)
  then show ?thesis using assms json_text_ok [OF assms(2), of j s] by auto
qed

lemma ev_publish [evolve]: "runs (evolves (cj E)) (mqtt_publish_message E r ty retain)"
  unfolding mqtt_publish_message_def
proof (rule ev.bind_when [OF evolves_pure [OF pure_messages(3)]], rule ev.bind_when [OF evolves_pure [OF pure_texts(1)]])
  fix s t s' t' :: "'a world" and jo str
  assume c: "cvt_msg_respond_to_json (cj E) r ty s = (Inr jo, t)" and j: "json_text E jo s' = (Inr str, t')"
  have "response_text (cj E) str" if "cjson_ok (cj E)"
    using document_text [OF j that] c pure_result [OF pure_messages(3) c] unfolding response_text_def by blast
  then show "runs (evolves (cj E)) (io_bind (io_get w_pub_topic) (\<lambda>PUB_TOPIC. emit (Publish PUB_TOPIC retain str)))"
    by (simp add: runs_def io_simps evolves_def)
qed

lemma ev_publish_bridge [evolve]: "runs (evolves (cj E)) (mqtt_publish_message_to_mqtt_bridge E q m ty retain)"
  unfolding mqtt_publish_message_to_mqtt_bridge_def
proof (rule ev.bind_when [OF evolves_pure [OF pure_messages(2)]], rule ev.bind_when [OF evolves_pure [OF pure_texts(1)]])
  fix s t s' t' :: "'a world" and jo str
  assume c: "cvt_msg_request_to_json (cj E) m ty s = (Inr jo, t)" and j: "json_text E jo s' = (Inr str, t')"
  have "request_text (cj E) str" if "cjson_ok (cj E)"
    using document_text [OF j that] c pure_result [OF pure_messages(2) c] unfolding request_text_def by blast
  then have "runs (evolves (cj E)) (emit (Publish topic retain str))" for topic
    by (simp add: runs_def io_simps evolves_def)
  then show "runs (evolves (cj E)) (io_bind (io_deref (sub_topic_pattern (get_config E))) (\<lambda>fmt.
      io_bind (sprintf_format 100 fmt [q]) (\<lambda>topic. io_then (emit (Publish topic retain str)) (io_ret 0))))"
    by (intro ev.rules evolves_pure [OF pure_texts(2)])
qed

lemma ev_external [evolve]: "runs (evolves L) (mqtt_publish_message_to_external E h p q ty retain)"
  unfolding mqtt_publish_message_to_external_def mqtt_get_authen_info_def register_step_def login_step_def
    secret_step_def broker_step_def authen_call_def error_info_code_def
  by (intro ev.rules evolve evolves_pure [OF pure_messages(2)] evolves_pure [OF pure_texts(1)]
      evolves_pure [OF pure_texts(2)] evolves_pure [OF pure_texts(3)])+

lemma quiet_parse: "cJSON_Parse tree_lib (Some (cJSON_Minify tree_lib (authen quiet_env h p q))) = None"
  by (simp add: quiet_env_def tree_lib_def tree_parse_def)

section \<open>Properties\<close>

text \<open>
  A response whose data can be written is published: exactly one message goes out, on the
  topic that was stored when the connection was made, with the retain flag of the caller, nothing
  else changes, and what the other side reads back from its payload is the response, its error
  included (its data as far as \<open>respond_roundtrip\<close> says).
\<close>

theorem publish_spec:
  assumes "cjson_ok (cj E)" "rs_respond_data m = Some r" "arrives ty (rd_data r) = Some data'"
  shows "\<exists>t. mqtt_publish_message E m ty retain s =
      (Inr (), s\<lparr>w_trace := w_trace s @ [Publish (w_pub_topic s) retain t]\<rparr>) \<and>
    cvt_json_to_msg_respond (cj E) (cJSON_Parse (cj E) (Some t)) ty =
      m\<lparr>rs_respond_data := Some (r\<lparr>rd_data := if object_type ty then data' else None\<rparr>)\<rparr>"
  using publish_message [OF assms, of retain s] assms(2,3) by (auto simp: payload_def)

theorem publish_spec_witness:
  "\<exists>t. mqtt_publish_message quiet_env (respond_of demo_request) MSG_NETWORK_LAN False empty_world =
      (Inr (), empty_world\<lparr>w_trace := w_trace empty_world @ [Publish (w_pub_topic empty_world) False t]\<rparr>) \<and>
    cvt_json_to_msg_respond (cj quiet_env) (cJSON_Parse (cj quiet_env) (Some t)) MSG_NETWORK_LAN =
      (respond_of demo_request)\<lparr>rs_respond_data := Some (\<lparr>rd_error = None, rd_data = rq_data demo_request\<rparr>
        \<lparr>rd_data := if object_type MSG_NETWORK_LAN then rq_data demo_request else None\<rparr>)\<rparr>"
  by (rule publish_spec) (simp_all add: tree_ok respond_of_def demo_request_def arrives_def transported_def)

text \<open>
  Connecting with patterns that have one place each stores the topics with the identity of the
  device in it; after a successful connection the program subscribes to the first, and a request
  that is sent over the bridge to that identity is published on the very topic the device
  subscribes to. A topic of 100 characters is too long.
\<close>

theorem connect_topics:
  assumes "CHR ''%'' \<notin> set (p @ q @ p' @ q')" "sub_topic_pattern (get_config E) = Some (p @ ''%s'' @ q)"
    "pub_topic_pattern (get_config E) = Some (p' @ ''%s'' @ q')" "w_ezm_id s = Some a"
    "length (p' @ a @ q') < 100" "cjson_ok (cj E)" "arrives ty (rq_data m) = Some data'"
  shows "if length (p @ a @ q) < 100
    then mqtt_connect E h rc s =
        (Inr (if h \<and> rc = 0 then 0 else -1), s\<lparr>w_sub_topic := p @ a @ q, w_pub_topic := p' @ a @ q'\<rparr>) \<and>
      mqtt_on_connect_cb_handler (p @ a @ q) (\<lambda>_. 0) 0 = [MosqSubscribe (p @ a @ q)] \<and>
      (\<exists>t. mqtt_publish_message_to_mqtt_bridge E (Some a) m ty retain s' =
        (Inr 0, s'\<lparr>w_trace := w_trace s' @ [Publish (p @ a @ q) retain t]\<rparr>))
    else mqtt_connect E h rc s = (Inl BufferOverflow, s)"
proof -
  have pats: "CHR ''%'' \<notin> set p" "CHR ''%'' \<notin> set q" "CHR ''%'' \<notin> set p'" "CHR ''%'' \<notin> set q'"
    using assms(1) by auto
  have ezm: "get_ezm_id s = (Inr (Some a), s)" by (simp add: get_ezm_id_def io_simps assms(4))
  obtain j where j: "cvt_msg_request_to_json (cj E) m ty s' = (Inr (Some j), s')"
    using request_json [OF assms(6,7), of s'] by auto
  obtain t where "json_text E (Some j) s' = (Inr t, s')"
    using json_text_ok [OF assms(6)] by blast
  then have bridge: "length (p @ a @ q) < 100 \<Longrightarrow>
      mqtt_publish_message_to_mqtt_bridge E (Some a) m ty retain s' =
        (Inr 0, s'\<lparr>w_trace := w_trace s' @ [Publish (p @ a @ q) retain t]\<rparr>)"
    by (simp only: mqtt_publish_message_to_mqtt_bridge_def io_simps j assms(2) sum.case prod.case
        sprintf_pattern [OF pats(1,2)] if_True)
  have "mqtt_connect E h rc s =
      (if length (p @ a @ q) < 100
       then (Inr (if h \<and> rc = 0 then 0 else -1), s\<lparr>w_sub_topic := p @ a @ q, w_pub_topic := p' @ a @ q'\<rparr>)
       else (Inl BufferOverflow, s))"
    using assms(5)
    by (simp add: mqtt_connect_def io_simps ezm assms(2,3) sprintf_pattern [OF pats(1,2), simplified]
        sprintf_pattern [OF pats(3,4), simplified])
  with bridge show ?thesis by (auto simp: mqtt_on_connect_cb_handler_def)
qed

theorem connect_topics_witness:
  "if length (''hub/event/'' @ ''ezm-1'' @ '''') < 100
   then mqtt_connect quiet_env True 0 empty_world =
        (Inr (if True \<and> (0 :: c_int) = 0 then 0 else -1),
         empty_world\<lparr>w_sub_topic := ''hub/event/'' @ ''ezm-1'' @ '''', w_pub_topic := ''ezm/event/'' @ ''ezm-1'' @ ''''\<rparr>) \<and>
      mqtt_on_connect_cb_handler (''hub/event/'' @ ''ezm-1'' @ '''') (\<lambda>_. 0) 0 =
        [MosqSubscribe (''hub/event/'' @ ''ezm-1'' @ '''')] \<and>
      (\<exists>t. mqtt_publish_message_to_mqtt_bridge quiet_env (Some ''ezm-1'') demo_request MSG_EMPTY False empty_world =
        (Inr 0, empty_world\<lparr>w_trace := w_trace empty_world @ [Publish (''hub/event/'' @ ''ezm-1'' @ '''') False t]\<rparr>))
   else mqtt_connect quiet_env True 0 empty_world = (Inl BufferOverflow, empty_world)"
  by (rule connect_topics) (simp_all add: tree_ok arrives_def transported_def demo_request_def)




end
