(* ===== verification/NetHandlers.thy ===== *)
theory NetHandlers
  imports Mqtt
begin

text \<open>
  \<open>src/api/network\<close>: the handlers of the requests for the name service, the interfaces, the routes and
  the packet filter. A handler gets the JSON document of the request, runs the operation of its
  component and publishes a response. What the handlers have in common is stated once, as an
  interface of two kinds of handler.
\<close>

section \<open>The steps that every handler takes\<close>

text \<open>
  Reading the request, making the response from it and converting its name. The conversion releases
  the name it is given, which the request and the response shared.
\<close>

definition open_request ::
  "'j env \<Rightarrow> 'j option \<Rightarrow> msg_type_t \<Rightarrow> ('j, msg_request_t \<times> msg_respond_t) wio" where
  "open_request E msg_json msg_type =
     (let msg_request = cvt_json_to_msg_request (cj E) msg_json msg_type
      in io_bind (cvt_msg_request_to_msg_respond E msg_request) (\<lambda>msg_respond.
         io_bind (cvt_req_name_to_res_name (rs_name msg_respond)) (\<lambda>name.
         io_ret (msg_request, msg_respond\<lparr>rs_name := name\<rparr>))))"

text \<open>\<open>msg_request->data->member\<close>.\<close>

definition request_data :: "(data_t \<Rightarrow> 'a option) \<Rightarrow> msg_request_t \<Rightarrow> ('s, 'a option) io" where
  "request_data sel msg_request =
     io_bind (io_deref (rq_data msg_request)) (\<lambda>d. union_member sel d)"

text \<open>\<open>msg_respond->respond_data->error = error_table_lookup (code)\<close>.\<close>

definition set_error :: "'j env \<Rightarrow> c_int \<Rightarrow> msg_respond_t \<Rightarrow> ('j, msg_respond_t) wio" where
  "set_error E code msg_respond =
     io_bind (error_table_lookup E code) (\<lambda>error.
     io_bind (io_deref (rs_respond_data msg_respond)) (\<lambda>r.
     io_ret (msg_respond\<lparr>rs_respond_data := Some (r\<lparr>rd_error := Some error\<rparr>)\<rparr>)))"

text \<open>\<open>msg_respond->respond_data->data->member = value\<close>: there must be data to store it in.\<close>

definition set_data :: "data_t \<Rightarrow> msg_respond_t \<Rightarrow> ('s, msg_respond_t) io" where
  "set_data d msg_respond =
     io_bind (io_deref (rs_respond_data msg_respond)) (\<lambda>r.
     io_bind (io_deref (rd_data r)) (\<lambda>_.
     io_ret (msg_respond\<lparr>rs_respond_data := Some (r\<lparr>rd_data := Some d\<rparr>)\<rparr>)))"

section \<open>dhcp_handler.c\<close>

text \<open>The response shares the settings that the operation cut the start address of.\<close>

definition create_dns_dhcp :: "nat \<Rightarrow> 'j env \<Rightarrow> 'j option \<Rightarrow> ('j, unit) wio" where
  "create_dns_dhcp n E msg_json =
     io_bind (open_request E msg_json MSG_NETWORK_DNS_DHCP) (\<lambda>(msg_request, msg_respond).
     io_bind (request_data dns_dhcp_of msg_request) (\<lambda>p.
     io_bind (io_deref p) (\<lambda>dns_dhcp.
     io_bind (dns_dhcp_set n E dns_dhcp) (\<lambda>(err_code, dns_dhcp).
     io_bind (set_error E err_code msg_respond) (\<lambda>msg_respond.
     io_bind (set_data (D_dns_dhcp dns_dhcp) msg_respond) (\<lambda>msg_respond.
     io_seq [mqtt_publish_message E msg_respond MSG_NETWORK_DNS_DHCP False,
             sleep_s 1,
             restart_service E (Some ''dnsmasq''),
             msg_respond_free msg_respond MSG_NETWORK_DNS_DHCP]))))))"

definition request_dns_dhcp :: "'j env \<Rightarrow> 'j option \<Rightarrow> ('j, unit) wio" where
  "request_dns_dhcp E msg_json =
     io_bind (open_request E msg_json MSG_EMPTY) (\<lambda>(msg_request, msg_respond).
     io_bind (dns_dhcp_get_from_setting_file E) (\<lambda>dns_dhcp.
     io_bind (set_error E ERR_SUCCESS msg_respond) (\<lambda>msg_respond.
     io_bind (set_data (D_dns_dhcp dns_dhcp) msg_respond) (\<lambda>msg_respond.
     io_seq [mqtt_publish_message E msg_respond MSG_NETWORK_DNS_DHCP False,
             msg_respond_free msg_respond MSG_NETWORK_DNS_DHCP]))))"

definition request_dhcp4_leases :: "'j env \<Rightarrow> 'j option \<Rightarrow> ('j, unit) wio" where
  "request_dhcp4_leases E msg_json =
     io_bind (open_request E msg_json MSG_EMPTY) (\<lambda>(msg_request, msg_respond).
     io_bind dhcp_lease_get (\<lambda>(err_code, dhcp_list).
     (let dhcp4_lease = (if err_code = ERR_SUCCESS then dhcp_list else [])
      in io_bind (set_error E err_code msg_respond) (\<lambda>msg_respond.
         io_bind (set_data (D_dhcp4_lease dhcp4_lease) msg_respond) (\<lambda>msg_respond.
         io_seq [mqtt_publish_message E msg_respond MSG_NETWORK_DHCP4_LEASES False,
                 msg_respond_free msg_respond MSG_NETWORK_DHCP4_LEASES])))))"

section \<open>lan_handler.c and wan_handler.c\<close>

definition create_lan :: "'j env \<Rightarrow> 'j option \<Rightarrow> ('j, unit) wio" where
  "create_lan E msg_json =
     io_bind (open_request E msg_json MSG_NETWORK_LAN) (\<lambda>(msg_request, msg_respond).
     io_bind (request_data lan_of msg_request) (\<lambda>p.
     io_bind
       (case p of
          None \<Rightarrow> io_ret msg_respond
        | Some lan \<Rightarrow>
            io_bind (lan_set E lan) (\<lambda>err.
            io_bind (set_error E err msg_respond) (\<lambda>msg_respond.
            io_then (io_seq [mqtt_publish_message E msg_respond MSG_NETWORK_LAN False,
                             sleep_s 1,
                             restart_service E (Some ''network'')])
            (io_ret msg_respond)))) (\<lambda>msg_respond.
     msg_respond_free msg_respond MSG_NETWORK_LAN)))"

definition request_lan :: "'j env \<Rightarrow> 'j option \<Rightarrow> ('j, unit) wio" where
  "request_lan E msg_json =
     io_bind (open_request E msg_json MSG_EMPTY) (\<lambda>(msg_request, msg_respond).
     io_bind (lan_get E) (\<lambda>(err, lan).
     io_bind (set_data (D_lan lan) msg_respond) (\<lambda>msg_respond.
     io_bind (set_error E err msg_respond) (\<lambda>msg_respond.
     io_seq [mqtt_publish_message E msg_respond MSG_NETWORK_LAN False,
             msg_respond_free msg_respond MSG_NETWORK_LAN]))))"

definition create_wan :: "'j env \<Rightarrow> 'j option \<Rightarrow> ('j, unit) wio" where
  "create_wan E msg_json =
     io_bind (open_request E msg_json MSG_NETWORK_WAN) (\<lambda>(msg_request, msg_respond).
     io_bind (request_data wan_of msg_request) (\<lambda>p.
     io_bind
       (case p of
          None \<Rightarrow> io_ret msg_respond
        | Some wan \<Rightarrow>
            io_bind (wan_set E wan) (\<lambda>err.
            io_bind (set_error E err msg_respond) (\<lambda>msg_respond.
            io_then (io_seq [mqtt_publish_message E msg_respond MSG_NETWORK_WAN False,
                             sleep_s 2,
                             restart_service E (Some ''network'')])
            (io_ret msg_respond)))) (\<lambda>msg_respond.
     msg_respond_free msg_respond MSG_NETWORK_WAN)))"

definition request_wan :: "'j env \<Rightarrow> 'j option \<Rightarrow> ('j, unit) wio" where
  "request_wan E msg_json =
     io_bind (open_request E msg_json MSG_EMPTY) (\<lambda>(msg_request, msg_respond).
     io_bind (wan_get E) (\<lambda>(err, wan).
     io_bind (set_error E err msg_respond) (\<lambda>msg_respond.
     io_bind (set_data (D_wan wan) msg_respond) (\<lambda>msg_respond.
     io_seq [mqtt_publish_message E msg_respond MSG_NETWORK_WAN False,
             msg_respond_free msg_respond MSG_NETWORK_WAN]))))"

section \<open>route_handler.c\<close>

text \<open>The new routes are also printed for the log.\<close>

definition create_static_route :: "'j env \<Rightarrow> 'j option \<Rightarrow> ('j, unit) wio" where
  "create_static_route E msg_json =
     io_bind (open_request E msg_json MSG_NETWORK_STATIC_ROUTE) (\<lambda>(msg_request, msg_respond).
     io_bind (request_data routes_of msg_request) (\<lambda>p.
     io_bind
       (case p of
          None \<Rightarrow> io_ret msg_respond
        | Some route_list \<Rightarrow>
            io_bind (route_create E route_list) (\<lambda>(err_code, route_list_remained).
            io_bind (set_error E err_code msg_respond) (\<lambda>msg_respond.
            io_bind (set_data (D_routes_list route_list_remained) msg_respond) (\<lambda>msg_respond.
            io_then (json_text E (cvt_route_list_to_json (cj E) route_list_remained))
            (io_then (mqtt_publish_message E msg_respond MSG_NETWORK_STATIC_ROUTE False)
            (io_ret msg_respond)))))) (\<lambda>msg_respond.
     msg_respond_free msg_respond MSG_NETWORK_STATIC_ROUTE)))"

definition request_static_routes :: "'j env \<Rightarrow> 'j option \<Rightarrow> ('j, unit) wio" where
  "request_static_routes E msg_json =
     io_bind (open_request E msg_json MSG_EMPTY) (\<lambda>(msg_request, msg_respond).
     io_bind (route_request E) (\<lambda>(err_code, route_list).
     io_bind (set_error E err_code msg_respond) (\<lambda>msg_respond.
     io_bind (set_data (D_routes_list route_list) msg_respond) (\<lambda>msg_respond.
     io_seq [mqtt_publish_message E msg_respond MSG_NETWORK_STATIC_ROUTE False,
             msg_respond_free msg_respond MSG_NETWORK_STATIC_ROUTE]))))"

text \<open>The list of the request is released through its pointer, and then the response.\<close>

definition delete_static_route :: "'j env \<Rightarrow> 'j option \<Rightarrow> ('j, unit) wio" where
  "delete_static_route E msg_json =
     io_bind (open_request E msg_json MSG_NETWORK_STATIC_ROUTE) (\<lambda>(msg_request, msg_respond).
     io_bind (request_data routes_of msg_request) (\<lambda>p.
     io_bind
       (case p of
          None \<Rightarrow> io_ret msg_respond
        | Some route_list \<Rightarrow>
            io_bind (route_delete E route_list) (\<lambda>(err_code, route_list_remained).
            io_bind (set_error E err_code msg_respond) (\<lambda>msg_respond.
            io_bind (set_data (D_routes_list route_list_remained) msg_respond) (\<lambda>msg_respond.
            io_then (mqtt_publish_message E msg_respond MSG_NETWORK_STATIC_ROUTE False)
            (io_ret msg_respond))))) (\<lambda>msg_respond.
     io_then (io_deref p) (msg_respond_free msg_respond MSG_NETWORK_STATIC_ROUTE))))"

text \<open>
  A route that was replaced shares its strings with the one of the request. They are released with
  the list of the request, and again with the response: only an update that found no route gets
  past that.
\<close>

definition update_static_routes :: "'j env \<Rightarrow> 'j option \<Rightarrow> ('j, unit) wio" where
  "update_static_routes E msg_json =
     io_bind (open_request E msg_json MSG_NETWORK_STATIC_ROUTE) (\<lambda>(msg_request, msg_respond).
     io_bind (request_data routes_of msg_request) (\<lambda>p.
     io_bind
       (case p of
          None \<Rightarrow> io_ret (msg_respond, False)
        | Some route_list \<Rightarrow>
            io_bind (route_update E route_list) (\<lambda>(err, route_list_remained).
            io_bind (set_error E err msg_respond) (\<lambda>msg_respond.
            io_bind (set_data (D_routes_list route_list_remained) msg_respond) (\<lambda>msg_respond.
            io_then (mqtt_publish_message E msg_respond MSG_NETWORK_STATIC_ROUTE False)
            (io_ret (msg_respond, err \<noteq> ERR_ID_MISMATCHED)))))) (\<lambda>(msg_respond, shared).
     io_then (io_deref p)
     (if shared then io_fail InvalidFree
      else msg_respond_free msg_respond MSG_NETWORK_STATIC_ROUTE))))"

section \<open>iptables_handler.c\<close>

text \<open>The three operations that change the port forwarding differ in one call.\<close>

definition change_forwarding ::
  "(iptable_t list \<Rightarrow> ('j, c_int \<times> iptable_t list) wio) \<Rightarrow> 'j env \<Rightarrow> 'j option \<Rightarrow> ('j, unit) wio" where
  "change_forwarding op E msg_json =
     io_bind (open_request E msg_json MSG_IPTABLES_DNAT_PROFILE) (\<lambda>(msg_request, msg_respond).
     io_bind (request_data iptable_list_of msg_request) (\<lambda>p.
     io_bind
       (case p of
          None \<Rightarrow> io_ret msg_respond
        | Some iptable_list \<Rightarrow>
            io_bind (op iptable_list) (\<lambda>(err, iptable_list_setting_out).
            io_bind (set_error E err msg_respond) (\<lambda>msg_respond.
            io_bind (set_data (D_iptable_list iptable_list_setting_out) msg_respond) (\<lambda>msg_respond.
            io_then (mqtt_publish_message E msg_respond MSG_IPTABLES_DNAT_PROFILE False)
            (io_ret msg_respond))))) (\<lambda>msg_respond.
     msg_respond_free msg_respond MSG_IPTABLES_DNAT_PROFILE)))"

definition create_dnat_port_forwarding_profile :: "'j env \<Rightarrow> 'j option \<Rightarrow> ('j, unit) wio" where
  "create_dnat_port_forwarding_profile E msg_json =
     change_forwarding (iptables_dnat_forwarding_create E) E msg_json"

definition update_dnat_port_forwarding_profiles :: "'j env \<Rightarrow> 'j option \<Rightarrow> ('j, unit) wio" where
  "update_dnat_port_forwarding_profiles E msg_json =
     change_forwarding (iptables_dnat_forwarding_update E) E msg_json"

definition delete_dnat_port_forwarding_profile :: "'j env \<Rightarrow> 'j option \<Rightarrow> ('j, unit) wio" where
  "delete_dnat_port_forwarding_profile E msg_json =
     change_forwarding (iptables_dnat_forwarding_delete E) E msg_json"

definition request_dnat_port_forwarding_profiles :: "'j env \<Rightarrow> 'j option \<Rightarrow> ('j, unit) wio" where
  "request_dnat_port_forwarding_profiles E msg_json =
     io_bind (open_request E msg_json MSG_EMPTY) (\<lambda>(msg_request, msg_respond).
     io_bind (iptables_dnat_forwarding_request E) (\<lambda>(err, iptable_list).
     io_bind (set_error E err msg_respond) (\<lambda>msg_respond.
     io_bind (set_data (D_iptable_list iptable_list) msg_respond) (\<lambda>msg_respond.
     io_seq [mqtt_publish_message E msg_respond MSG_IPTABLES_DNAT_PROFILE False,
             msg_respond_free msg_respond MSG_IPTABLES_DNAT_PROFILE]))))"

definition request_dnat_dmz :: "'j env \<Rightarrow> 'j option \<Rightarrow> ('j, unit) wio" where
  "request_dnat_dmz E msg_json =
     io_bind (open_request E msg_json MSG_EMPTY) (\<lambda>(msg_request, msg_respond).
     io_bind (iptable_dnat_dmz_request_from_setting_file E) (\<lambda>(err, iptable).
     io_bind (set_error E err msg_respond) (\<lambda>msg_respond.
     io_bind (set_data (D_iptable iptable) msg_respond) (\<lambda>msg_respond.
     io_seq [mqtt_publish_message E msg_respond MSG_IPTABLES_DNAT_DMZ_PROFILE False,
             msg_respond_free msg_respond MSG_IPTABLES_DNAT_DMZ_PROFILE]))))"

definition create_dnat_dmz :: "'j env \<Rightarrow> 'j option \<Rightarrow> ('j, unit) wio" where
  "create_dnat_dmz E msg_json =
     io_bind (open_request E msg_json MSG_IPTABLES_DNAT_DMZ_PROFILE) (\<lambda>(msg_request, msg_respond).
     io_bind (request_data iptable_of msg_request) (\<lambda>p.
     io_bind
       (case p of
          None \<Rightarrow> io_ret msg_respond
        | Some iptable \<Rightarrow>
            io_bind (iptable_dnat_dmz_update E iptable) (\<lambda>err.
            io_bind (set_error E err msg_respond) (\<lambda>msg_respond.
            io_then (mqtt_publish_message E msg_respond MSG_IPTABLES_DNAT_DMZ_PROFILE False)
            (io_ret msg_respond)))) (\<lambda>msg_respond.
     msg_respond_free msg_respond MSG_IPTABLES_DNAT_DMZ_PROFILE)))"

definition create_nova_services_port_profiles :: "'j env \<Rightarrow> 'j option \<Rightarrow> ('j, unit) wio" where
  "create_nova_services_port_profiles E msg_json =
     io_bind (open_request E msg_json MSG_IPTABLE_NOVA_SERVICE_PORT_PROFILE) (\<lambda>(msg_request, msg_respond).
     io_bind (request_data nova_of msg_request) (\<lambda>p.
     io_bind
       (case p of
          None \<Rightarrow> io_ret msg_respond
        | Some iptable_nova_service_list \<Rightarrow>
            io_bind (iptable_nova_service_set E iptable_nova_service_list) (\<lambda>err.
            io_bind (set_error E err msg_respond) (\<lambda>msg_respond.
            io_then (mqtt_publish_message E msg_respond MSG_IPTABLE_NOVA_SERVICE_PORT_PROFILE False)
            (io_ret msg_respond)))) (\<lambda>msg_respond.
     msg_respond_free msg_respond MSG_IPTABLE_NOVA_SERVICE_PORT_PROFILE)))"

definition request_nova_services_port_profiles :: "'j env \<Rightarrow> 'j option \<Rightarrow> ('j, unit) wio" where
  "request_nova_services_port_profiles E msg_json =
     io_bind (open_request E msg_json MSG_EMPTY) (\<lambda>(msg_request, msg_respond).
     io_bind (iptable_nova_service_request_from_setting_file E) (\<lambda>(err, iptable_nova_service_list).
     io_bind (set_error E err msg_respond) (\<lambda>msg_respond.
     io_bind (set_data (D_iptable_nova_service_list iptable_nova_service_list) msg_respond) (\<lambda>msg_respond.
     io_seq [mqtt_publish_message E msg_respond MSG_IPTABLE_NOVA_SERVICE_PORT_PROFILE False,
             msg_respond_free msg_respond MSG_IPTABLE_NOVA_SERVICE_PORT_PROFILE]))))"

section \<open>Requests and replies\<close>

text \<open>A document that carries a request whose response gets the name \<open>n\<close>; the reply to it.\<close>

definition incoming :: "'j env \<Rightarrow> 'j option \<Rightarrow> msg_type_t \<Rightarrow> msg_request_t \<Rightarrow> string \<Rightarrow> bool" where
  "incoming E json ty m n \<longleftrightarrow>
     abi_respond E \<and> cvt_json_to_msg_request (cj E) json ty = m \<and>
     (\<exists>a b ms l. rq_name m = Some (dotted (a # b # ms @ [l])) \<and> n = dotted (b # a # ms @ [answered l]) \<and>
        (\<forall>w \<in> set (a # b # ms @ [l]). name_part w) \<and> length n < 200)"

definition reply :: "msg_request_t \<Rightarrow> string \<Rightarrow> error_t \<Rightarrow> data_t option \<Rightarrow> msg_respond_t" where
  "reply m n e d = (respond_of m)\<lparr>rs_name := Some n, rs_respond_data := Some \<lparr>rd_error = Some e, rd_data = d\<rparr>\<rparr>"

lemma open_request_incoming:
  assumes "incoming E json ty m n"
  shows "open_request E json ty s = (Inr (m, (respond_of m)\<lparr>rs_name := Some n\<rparr>), s)"
proof -
  obtain a b ms l where p: "rq_name m = Some (dotted (a # b # ms @ [l]))" "n = dotted (b # a # ms @ [answered l])"
    "\<forall>w \<in> set (a # b # ms @ [l]). name_part w" "length n < 200"
    and m: "abi_respond E" "cvt_json_to_msg_request (cj E) json ty = m"
    using assms unfolding incoming_def by blast
  have "cvt_req_name_to_res_name (rq_name m) s = (Inr (Some n), s)"
    using res_name_parts [OF p(3), of s] p by simp
  then show ?thesis
    using m by (simp add: open_request_def cvt_msg_request_to_msg_respond_def io_simps respond_of_def Let_def)
qed

lemma set_error_app:
  "error_table_lookup E c s = (Inr e, s) \<Longrightarrow> rs_respond_data r = Some d \<Longrightarrow>
     set_error E c r s = (Inr (r\<lparr>rs_respond_data := Some (d\<lparr>rd_error := Some e\<rparr>)\<rparr>), s)"
  by (simp add: set_error_def io_simps)

lemma set_data_app:
  "rs_respond_data r = Some d \<Longrightarrow> rd_data d = Some x \<Longrightarrow>
     set_data y r s = (Inr (r\<lparr>rs_respond_data := Some (d\<lparr>rd_data := Some y\<rparr>)\<rparr>), s)"
  "rs_respond_data r = Some d \<Longrightarrow> rd_data d = None \<Longrightarrow> set_data y r s = (Inl NullDeref, s)"
  by (simp_all add: set_data_def io_simps)

lemmas handler_steps = open_request_incoming set_error_app set_data_app respond_of_def reply_def

lemma lookup_evolves:
  assumes "evolves L s t" "error_table_lookup E c s = (Inr e, s)"
  shows "error_table_lookup E c t = (Inr e, t)"
  using assms
  by (auto simp: evolves_def error_table_lookup_def io_simps io_bind_app split: prod.splits option.splits)

lemma publish_reply:
  assumes "cjson_ok (cj E)" "arrives ty d = Some d'"
  shows "\<exists>t. mqtt_publish_message E (reply m n e d) ty False s =
      (Inr (), s\<lparr>w_trace := w_trace s @ [Publish (w_pub_topic s) False t]\<rparr>) \<and> payload E (reply m n e d) ty t"
  using publish_message [OF assms(1), of "reply m n e d" "\<lparr>rd_error = Some e, rd_data = d\<rparr>" ty d' False s]
  by (simp add: reply_def assms(2))

text \<open>
  The handlers that only read. \<open>get\<close> is the operation of the component, \<open>wrap\<close> the member of the
  union its result is stored in, \<open>ty\<close> the type of the response. The request must have had data,
  whatever they are: their block is where the result goes.
\<close>

locale query_handler =
  fixes get :: "'j env \<Rightarrow> ('j, c_int \<times> 'x) wio"
    and wrap :: "'x \<Rightarrow> data_t"
    and ty :: msg_type_t
    and handler :: "'j env \<Rightarrow> 'j option \<Rightarrow> ('j, unit) wio"
  assumes handler_law: "incoming E json MSG_EMPTY m n \<Longrightarrow> get E s = (Inr (err, x), s') \<Longrightarrow>
      error_table_lookup E err s' = (Inr e, s') \<Longrightarrow>
      handler E json s =
        (if rq_data m = None then (Inl NullDeref, s')
         else io_seq [mqtt_publish_message E (reply m n e (Some (wrap x))) ty False,
                      msg_respond_free (reply m n e (Some (wrap x))) ty] s')"
begin

lemma replies:
  assumes "cjson_ok (cj E)" "incoming E json MSG_EMPTY m n" "rq_data m \<noteq> None" "get E s = (Inr (err, x), s')"
    "error_table_lookup E err s' = (Inr e, s')" "arrives ty (Some (wrap x)) = Some d'"
    "\<And>u. data_free (Some (wrap x)) ty (u :: 'j world) = (Inr (), u)"
  shows "\<exists>t. handler E json s =
      (Inr (), s'\<lparr>w_trace := w_trace s' @ [Publish (w_pub_topic s') False t]\<rparr>) \<and>
    payload E (reply m n e (Some (wrap x))) ty t"
proof -
  obtain t where "mqtt_publish_message E (reply m n e (Some (wrap x))) ty False s' =
      (Inr (), s'\<lparr>w_trace := w_trace s' @ [Publish (w_pub_topic s') False t]\<rparr>)"
    "payload E (reply m n e (Some (wrap x))) ty t"
    using publish_reply [OF assms(1,6)] by blast
  then show ?thesis
    using handler_law [OF assms(2,4,5)] assms(3,7)
    by (auto simp: io_simps msg_respond_free_def respond_data_free_def reply_def)
qed

lemma no_data:
  assumes "incoming E json MSG_EMPTY m n" "rq_data m = None" "get E s = (Inr (err, x), s')"
    "error_table_lookup E err s' = (Inr e, s')"
  shows "handler E json s = (Inl NullDeref, s')"
  using handler_law [OF assms(1,3,4)] assms(2) by simp

end

text \<open>The two orders in which the result and the error are stored.\<close>

lemma query_shape:
  assumes "incoming E json MSG_EMPTY m n" "G s = (Inr (err, x), s')" "error_table_lookup E err s' = (Inr e, s')"
  shows "io_bind (open_request E json MSG_EMPTY) (\<lambda>(msg_request, msg_respond).
      io_bind G (\<lambda>(err, x).
      io_bind (set_error E err msg_respond) (\<lambda>msg_respond.
      io_bind (set_data (wrap x) msg_respond) (\<lambda>msg_respond. io_seq (rest msg_respond))))) s =
      (if rq_data m = None then (Inl NullDeref, s') else io_seq (rest (reply m n e (Some (wrap x)))) s')"
    and "io_bind (open_request E json MSG_EMPTY) (\<lambda>(msg_request, msg_respond).
      io_bind G (\<lambda>(err, x).
      io_bind (set_data (wrap x) msg_respond) (\<lambda>msg_respond.
      io_bind (set_error E err msg_respond) (\<lambda>msg_respond. io_seq (rest msg_respond))))) s =
      (if rq_data m = None then (Inl NullDeref, s') else io_seq (rest (reply m n e (Some (wrap x)))) s')"
  using open_request_incoming [OF assms(1), of s] assms(2,3)
  by (cases "rq_data m"; simp add: io_bind_app set_error_app set_data_app respond_of_def reply_def del: io_seq.simps)+

interpretation lan_query: query_handler lan_get D_lan MSG_NETWORK_LAN request_lan
  by unfold_locales (simp only: request_lan_def query_shape)

interpretation wan_query: query_handler wan_get D_wan MSG_NETWORK_WAN request_wan
  by unfold_locales (simp only: request_wan_def query_shape)

interpretation route_query: query_handler route_request D_routes_list MSG_NETWORK_STATIC_ROUTE request_static_routes
  by unfold_locales (simp only: request_static_routes_def query_shape)

interpretation forwarding_query: query_handler iptables_dnat_forwarding_request D_iptable_list
  MSG_IPTABLES_DNAT_PROFILE request_dnat_port_forwarding_profiles
  by unfold_locales (simp only: request_dnat_port_forwarding_profiles_def query_shape)

interpretation dmz_query: query_handler iptable_dnat_dmz_request_from_setting_file D_iptable
  MSG_IPTABLES_DNAT_DMZ_PROFILE request_dnat_dmz
  by unfold_locales (simp only: request_dnat_dmz_def query_shape)

interpretation nova_query: query_handler iptable_nova_service_request_from_setting_file
  D_iptable_nova_service_list MSG_IPTABLE_NOVA_SERVICE_PORT_PROFILE request_nova_services_port_profiles
  by unfold_locales (simp only: request_nova_services_port_profiles_def query_shape)

lemma io_bind_assoc: "io_bind (io_bind m k) l = io_bind m (\<lambda>x. io_bind (k x) l)"
  by (rule ext) (simp add: io_bind_app split: prod.split sum.split)

lemma io_ret_bind: "io_bind (io_ret x) k = k x"
  by (rule ext) (simp add: io_bind_app io_ret_app)

interpretation dns_query: query_handler "\<lambda>E. io_bind (dns_dhcp_get_from_setting_file E) (\<lambda>x. io_ret (ERR_SUCCESS, x))"
  D_dns_dhcp MSG_NETWORK_DNS_DHCP request_dns_dhcp
proof unfold_locales
  fix E :: "'a env" and json m n s err x s' e
  let ?G = "io_bind (dns_dhcp_get_from_setting_file E) (\<lambda>x. io_ret (ERR_SUCCESS, x))"
  assume h: "incoming E json MSG_EMPTY m n" "?G s = (Inr (err, x), s')"
    "error_table_lookup E err s' = (Inr e, s')"
  have "request_dns_dhcp E json = io_bind (open_request E json MSG_EMPTY) (\<lambda>(msg_request, msg_respond).
      io_bind ?G (\<lambda>(err, x).
      io_bind (set_error E err msg_respond) (\<lambda>msg_respond.
      io_bind (set_data (D_dns_dhcp x) msg_respond) (\<lambda>msg_respond.
      io_seq [mqtt_publish_message E msg_respond MSG_NETWORK_DNS_DHCP False,
              msg_respond_free msg_respond MSG_NETWORK_DNS_DHCP]))))"
    by (simp only: request_dns_dhcp_def io_bind_assoc io_ret_bind prod.case)
  then show "request_dns_dhcp E json s =
    (if rq_data m = None then (Inl NullDeref, s')
     else io_seq [mqtt_publish_message E (reply m n e (Some (D_dns_dhcp x))) MSG_NETWORK_DNS_DHCP False,
                  msg_respond_free (reply m n e (Some (D_dns_dhcp x))) MSG_NETWORK_DNS_DHCP] s')"
    using query_shape(1) [where G = ?G, OF h] by (simp only:)
qed

interpretation lease_query: query_handler "\<lambda>E. io_bind dhcp_lease_get (\<lambda>(err, ds).
    io_ret (err, if err = ERR_SUCCESS then ds else []))"
  D_dhcp4_lease MSG_NETWORK_DHCP4_LEASES request_dhcp4_leases
proof unfold_locales
  fix E :: "'a env" and json m n s err x s' e
  let ?G = "io_bind dhcp_lease_get (\<lambda>(err, ds). io_ret (err, if err = ERR_SUCCESS then ds else []))"
  assume h: "incoming E json MSG_EMPTY m n" "?G s = (Inr (err, x), s')"
    "error_table_lookup E err s' = (Inr e, s')"
  have "request_dhcp4_leases E json = io_bind (open_request E json MSG_EMPTY) (\<lambda>(msg_request, msg_respond).
      io_bind ?G (\<lambda>(err, x).
      io_bind (set_error E err msg_respond) (\<lambda>msg_respond.
      io_bind (set_data (D_dhcp4_lease x) msg_respond) (\<lambda>msg_respond.
      io_seq [mqtt_publish_message E msg_respond MSG_NETWORK_DHCP4_LEASES False,
              msg_respond_free msg_respond MSG_NETWORK_DHCP4_LEASES]))))"
    by (simp only: request_dhcp4_leases_def io_bind_assoc io_ret_bind prod.case case_prod_unfold Let_def fst_conv snd_conv)
  then show "request_dhcp4_leases E json s =
    (if rq_data m = None then (Inl NullDeref, s')
     else io_seq [mqtt_publish_message E (reply m n e (Some (D_dhcp4_lease x))) MSG_NETWORK_DHCP4_LEASES False,
                  msg_respond_free (reply m n e (Some (D_dhcp4_lease x))) MSG_NETWORK_DHCP4_LEASES] s')"
    using query_shape(1) [where G = ?G, OF h] by (simp only:)
qed

text \<open>
  The handlers that change something. \<open>sel\<close> is the member the request's data are read from, \<open>op\<close> the
  operation with the data that the response gets, \<open>after\<close> what is done once the response is out.
\<close>

locale change_handler =
  fixes sel :: "data_t \<Rightarrow> 'x option"
    and op :: "'j env \<Rightarrow> 'x \<Rightarrow> ('j, c_int \<times> data_t) wio"
    and ty :: msg_type_t
    and after :: "'j env \<Rightarrow> ('j, unit) wio list"
    and handler :: "'j env \<Rightarrow> 'j option \<Rightarrow> ('j, unit) wio"
  assumes handler_law: "cjson_ok (cj E) \<Longrightarrow> incoming E json ty m n \<Longrightarrow> rq_data m = Some d \<Longrightarrow> d \<noteq> D_null \<Longrightarrow> sel d = Some x \<Longrightarrow>
      op E x s = (Inr (err, d'), s') \<Longrightarrow> error_table_lookup E err s' = (Inr e, s') \<Longrightarrow>
      handler E json s =
        io_seq (mqtt_publish_message E (reply m n e (Some d')) ty False # after E @
          [msg_respond_free (reply m n e (Some d')) ty]) s'"
begin

lemma replies:
  assumes "cjson_ok (cj E)" "incoming E json ty m n" "rq_data m = Some d" "d \<noteq> D_null" "sel d = Some x"
    "op E x s = (Inr (err, d'), s')" "error_table_lookup E err s' = (Inr e, s')"
    "arrives ty (Some d') = Some d''" "emits E (io_seq (after E)) t"
    "\<And>u. data_free (Some d') ty (u :: 'j world) = (Inr (), u)"
  shows "\<exists>str s''. handler E json s = (Inr (), s'') \<and>
    w_trace s'' = w_trace s' @ [Publish (w_pub_topic s') False str] @ t \<and> same_frame s' s'' \<and>
    (\<forall>p. sh_keeps E p \<longrightarrow> w_files s'' p = w_files s' p) \<and> payload E (reply m n e (Some d')) ty str"
proof -
  obtain str where pub: "mqtt_publish_message E (reply m n e (Some d')) ty False s' =
      (Inr (), s'\<lparr>w_trace := w_trace s' @ [Publish (w_pub_topic s') False str]\<rparr>)"
    "payload E (reply m n e (Some d')) ty str"
    using publish_reply [OF assms(1,8)] by blast
  let ?s = "s'\<lparr>w_trace := w_trace s' @ [Publish (w_pub_topic s') False str]\<rparr>"
  obtain u s'' where after: "io_seq (after E) ?s = (Inr u, s'')" "w_trace s'' = w_trace ?s @ t"
    "same_frame ?s s''" "\<forall>p. sh_keeps E p \<longrightarrow> w_files s'' p = w_files ?s p"
    by (rule emitsD [OF assms(9), where s = ?s])
  have "handler E json s = (Inr (), s'')"
    using handler_law [OF assms(1-7)] pub(1) after(1) assms(10) [of s'']
    by (simp add: io_then_app io_seq_append msg_respond_free_def respond_data_free_def reply_def io_ret_app)
  moreover have "same_frame s' s''" using after(3) by (simp add: same_frame_def)
  ultimately show ?thesis using pub(2) after by auto
qed

end

lemma change_shape:
  assumes "incoming E json ty m n" "rq_data m = Some d" "d \<noteq> D_null" "sel d = Some x"
  shows "io_bind (open_request E json ty) (\<lambda>(msg_request, msg_respond).
      io_bind (request_data sel msg_request) (\<lambda>p. K msg_respond p)) s =
    K ((respond_of m)\<lparr>rs_name := Some n\<rparr>) (Some x) s"
  using open_request_incoming [OF assms(1), of s] assms(2-4)
  by (simp add: io_bind_app request_data_def io_deref_Some union_member_def io_ret_app)

text \<open>The data stay as they were, or are replaced, before the error or after it.\<close>

lemma set_error_reply:
  "error_table_lookup E err s = (Inr e, s) \<Longrightarrow>
     set_error E err ((respond_of m)\<lparr>rs_name := Some n\<rparr>) s = (Inr (reply m n e (rq_data m)), s)"
  by (simp add: set_error_app respond_of_def reply_def)

lemma set_data_reply: "set_data d' (reply m n e (Some d)) s = (Inr (reply m n e (Some d')), s)"
  by (simp add: set_data_def reply_def io_simps)

lemma io_then_assoc: "io_then (io_then m n) k = io_then m (io_then n k)"
  by (rule ext) (simp add: io_then_app split: prod.split sum.split)

lemma io_then_ret: "io_then m (io_ret ()) = m"
  by (rule ext) (simp add: io_then_app io_ret_app split: prod.split sum.split)

lemma then_ret_bind: "io_bind (io_then m (io_ret r)) k = io_then m (k r)"
  by (rule ext) (simp add: io_bind_app io_then_app io_ret_app split: prod.split sum.split)

text \<open>The response keeps the data of the request, or gets the result of the operation.\<close>

lemma kept_shape:
  assumes "incoming E json ty m n" "rq_data m = Some d" "d \<noteq> D_null" "sel d = Some x"
    "f x s = (Inr err, s')" "error_table_lookup E err s' = (Inr e, s')"
  shows "io_bind (open_request E json ty) (\<lambda>(msg_request, msg_respond).
      io_bind (request_data sel msg_request) (\<lambda>p.
      io_bind
        (case p of
           None \<Rightarrow> io_ret msg_respond
         | Some x \<Rightarrow>
             io_bind (f x) (\<lambda>err.
             io_bind (set_error E err msg_respond) (\<lambda>msg_respond.
             io_then (P msg_respond) (io_ret msg_respond)))) (\<lambda>msg_respond. F msg_respond))) s =
    io_then (P (reply m n e (Some d))) (F (reply m n e (Some d))) s'"
  using assms(2) set_error_reply [OF assms(6), where m = m and n = n]
  by (simp add: change_shape [where sel = sel and x = x, OF assms(1-4)] io_bind_assoc then_ret_bind)
    (simp add: io_bind_app assms(5))

lemma result_shape:
  assumes "incoming E json ty m n" "rq_data m = Some d" "d \<noteq> D_null" "sel d = Some x"
    "f x s = (Inr (err, y), s')" "error_table_lookup E err s' = (Inr e, s')"
  shows "io_bind (open_request E json ty) (\<lambda>(msg_request, msg_respond).
      io_bind (request_data sel msg_request) (\<lambda>p.
      io_bind
        (case p of
           None \<Rightarrow> io_ret msg_respond
         | Some x \<Rightarrow>
             io_bind (f x) (\<lambda>(err, y).
             io_bind (set_error E err msg_respond) (\<lambda>msg_respond.
             io_bind (set_data (wrap y) msg_respond) (\<lambda>msg_respond.
             io_then (P msg_respond) (io_ret msg_respond))))) (\<lambda>msg_respond. F p msg_respond))) s =
    io_then (P (reply m n e (Some (wrap y)))) (F (Some x) (reply m n e (Some (wrap y)))) s'"
  using assms(2) set_error_reply [OF assms(6), where m = m and n = n] set_data_reply [where d' = "wrap y" and m = m and n = n and e = e and d = d and s = s']
  by (simp add: change_shape [where sel = sel and x = x, OF assms(1-4)] io_bind_assoc then_ret_bind)
    (simp add: io_bind_app assms(5) io_then_app io_ret_app split: prod.split sum.split)

lemma op_kept: "io_bind g (\<lambda>err. io_ret (err, w)) s = (Inr (err, d'), s') \<longleftrightarrow> g s = (Inr err, s') \<and> d' = w"
  by (auto simp: run_iffs)

lemma op_result: "io_bind g (\<lambda>(err, y). io_ret (err, w y)) s = (Inr (err, d'), s') \<longleftrightarrow>
    (\<exists>y. g s = (Inr (err, y), s') \<and> d' = w y)"
  by (auto simp: run_iffs)

lemmas seq_steps = io_seq.simps append.simps io_then_assoc io_then_ret

interpretation lan_change: change_handler lan_of "\<lambda>E lan. io_bind (lan_set E lan) (\<lambda>err. io_ret (err, D_lan lan))"
  MSG_NETWORK_LAN "\<lambda>E. [sleep_s 1, restart_service E (Some ''network'')]" create_lan
  by (unfold_locales, unfold create_lan_def)
    (clarsimp simp only: op_kept member_iff, simp add: kept_shape del: io_seq.simps, simp only: seq_steps)

interpretation wan_change: change_handler wan_of "\<lambda>E wan. io_bind (wan_set E wan) (\<lambda>err. io_ret (err, D_wan wan))"
  MSG_NETWORK_WAN "\<lambda>E. [sleep_s 2, restart_service E (Some ''network'')]" create_wan
  by (unfold_locales, unfold create_wan_def)
    (clarsimp simp only: op_kept member_iff, simp add: kept_shape del: io_seq.simps, simp only: seq_steps)

interpretation dmz_change: change_handler iptable_of
  "\<lambda>E t. io_bind (iptable_dnat_dmz_update E t) (\<lambda>err. io_ret (err, D_iptable t))"
  MSG_IPTABLES_DNAT_DMZ_PROFILE "\<lambda>E. []" create_dnat_dmz
  by (unfold_locales, unfold create_dnat_dmz_def)
    (clarsimp simp only: op_kept member_iff, simp add: kept_shape del: io_seq.simps, simp only: seq_steps)

interpretation nova_change: change_handler nova_of
  "\<lambda>E nss. io_bind (iptable_nova_service_set E nss) (\<lambda>err. io_ret (err, D_iptable_nova_service_list nss))"
  MSG_IPTABLE_NOVA_SERVICE_PORT_PROFILE "\<lambda>E. []" create_nova_services_port_profiles
  by (unfold_locales, unfold create_nova_services_port_profiles_def)
    (clarsimp simp only: op_kept member_iff, simp add: kept_shape del: io_seq.simps, simp only: seq_steps)

interpretation forwarding_create: change_handler iptable_list_of
  "\<lambda>E ts. io_bind (iptables_dnat_forwarding_create E ts) (\<lambda>(err, ts). io_ret (err, D_iptable_list ts))"
  MSG_IPTABLES_DNAT_PROFILE "\<lambda>E. []" create_dnat_port_forwarding_profile
  by (unfold_locales, unfold create_dnat_port_forwarding_profile_def change_forwarding_def)
    (clarsimp simp only: op_result member_iff, simp add: result_shape del: io_seq.simps, simp only: seq_steps)

interpretation forwarding_update: change_handler iptable_list_of
  "\<lambda>E ts. io_bind (iptables_dnat_forwarding_update E ts) (\<lambda>(err, ts). io_ret (err, D_iptable_list ts))"
  MSG_IPTABLES_DNAT_PROFILE "\<lambda>E. []" update_dnat_port_forwarding_profiles
  by (unfold_locales, unfold update_dnat_port_forwarding_profiles_def change_forwarding_def)
    (clarsimp simp only: op_result member_iff, simp add: result_shape del: io_seq.simps, simp only: seq_steps)

interpretation forwarding_delete: change_handler iptable_list_of
  "\<lambda>E ts. io_bind (iptables_dnat_forwarding_delete E ts) (\<lambda>(err, ts). io_ret (err, D_iptable_list ts))"
  MSG_IPTABLES_DNAT_PROFILE "\<lambda>E. []" delete_dnat_port_forwarding_profile
  by (unfold_locales, unfold delete_dnat_port_forwarding_profile_def change_forwarding_def)
    (clarsimp simp only: op_result member_iff, simp add: result_shape del: io_seq.simps, simp only: seq_steps)

interpretation route_delete: change_handler routes_of
  "\<lambda>E rs. io_bind (route_delete E rs) (\<lambda>(err, rs). io_ret (err, D_routes_list rs))"
  MSG_NETWORK_STATIC_ROUTE "\<lambda>E. []" delete_static_route
  by (unfold_locales, unfold delete_static_route_def)
    (clarsimp simp only: op_result member_iff, simp add: result_shape del: io_seq.simps,
      simp add: io_then_app io_deref_Some io_ret_app split: prod.split sum.split)

interpretation route_create: change_handler routes_of
  "\<lambda>E rs. io_bind (route_create E rs) (\<lambda>(err, rs). io_ret (err, D_routes_list rs))"
  MSG_NETWORK_STATIC_ROUTE "\<lambda>E. []" create_static_route
proof unfold_locales
  fix E :: "'a env" and json m n d x s err d' s' e
  assume ok: "cjson_ok (cj E)" and h: "incoming E json MSG_NETWORK_STATIC_ROUTE m n" "rq_data m = Some d"
      "d \<noteq> D_null" "routes_of d = Some x"
    and op: "io_bind (route_create E x) (\<lambda>(err, rs). io_ret (err, D_routes_list rs)) s = (Inr (err, d'), s')"
    and lookup: "error_table_lookup E err s' = (Inr e, s')"
  obtain rs where rs: "route_create E x s = (Inr (err, rs), s')" "d' = D_routes_list rs"
    using op by (auto simp: op_result)
  obtain j where j: "cvt_route_list_to_json (cj E) rs = Some j"
    using IsArray_Some [OF route_list_json_array [OF ok]] by blast
  obtain t where t: "json_text E (Some j) s' = (Inr t, s')" using json_text_ok [OF ok] by blast
  show "create_static_route E json s =
      io_seq (mqtt_publish_message E (reply m n e (Some d')) MSG_NETWORK_STATIC_ROUTE False # [] @
        [msg_respond_free (reply m n e (Some d')) MSG_NETWORK_STATIC_ROUTE]) s'"
    using set_error_reply [OF lookup, where m = m and n = n] h(2)
    unfolding create_static_route_def
    by (subst change_shape [where sel = routes_of and x = x, OF h])
      (simp add: io_bind_app rs set_data_reply io_then_app io_ret_app j t split: prod.split sum.split)
qed

interpretation dns_change: change_handler dns_dhcp_of
  "\<lambda>E x. io_bind (dns_dhcp_set k E x) (\<lambda>(err, x). io_ret (err, D_dns_dhcp x))"
  MSG_NETWORK_DNS_DHCP "\<lambda>E. [sleep_s 1, restart_service E (Some ''dnsmasq'')]" "create_dns_dhcp k"
  for k
proof unfold_locales
  fix E :: "'a env" and json m n d x s err d' s' e
  assume h: "incoming E json MSG_NETWORK_DNS_DHCP m n" "rq_data m = Some d" "d \<noteq> D_null" "dns_dhcp_of d = Some x"
    and op: "io_bind (dns_dhcp_set k E x) (\<lambda>(err, x). io_ret (err, D_dns_dhcp x)) s = (Inr (err, d'), s')"
    and lookup: "error_table_lookup E err s' = (Inr e, s')"
  obtain y where y: "dns_dhcp_set k E x s = (Inr (err, y), s')" "d' = D_dns_dhcp y"
    using op by (auto simp: op_result)
  show "create_dns_dhcp k E json s =
      io_seq (mqtt_publish_message E (reply m n e (Some d')) MSG_NETWORK_DNS_DHCP False #
        [sleep_s 1, restart_service E (Some ''dnsmasq'')] @
        [msg_respond_free (reply m n e (Some d')) MSG_NETWORK_DNS_DHCP]) s'"
    using set_error_reply [OF lookup, where m = m and n = n] h(2)
    unfolding create_dns_dhcp_def
    by (subst change_shape [where sel = dns_dhcp_of and x = x, OF h])
      (simp add: io_bind_app io_deref_Some y set_data_reply del: io_seq.simps)
qed

section \<open>Every handler evolves the state\<close>

lemma ev_parts [evolve]:
  "runs (evolves (cj E)) (open_request E json ty)" "runs (evolves (cj E)) (request_data sel m)" "runs (evolves (cj E)) (set_error E c r)"
  "runs (evolves (cj E)) (set_data d r)" "runs (evolves (cj E)) (msg_respond_free r ty)" "runs (evolves (cj E)) (json_text E j)"
  unfolding open_request_def request_data_def set_error_def set_data_def cvt_msg_request_to_msg_respond_def
  by (intro ev.rules evolve evolves_pure [OF pure_messages(4)] evolves_pure [OF pure_conversions(6)]
      evolves_pure [OF pure_message_frees(2)] evolves_pure [OF pure_texts(1)])+

lemma ev_net_handlers [evolve]:
  "runs (evolves (cj E)) (create_dns_dhcp n E json)" "runs (evolves (cj E)) (request_dns_dhcp E json)"
  "runs (evolves (cj E)) (request_dhcp4_leases E json)"
  "runs (evolves (cj E)) (create_lan E json)" "runs (evolves (cj E)) (request_lan E json)"
  "runs (evolves (cj E)) (create_wan E json)" "runs (evolves (cj E)) (request_wan E json)"
  "runs (evolves (cj E)) (create_static_route E json)" "runs (evolves (cj E)) (request_static_routes E json)"
  "runs (evolves (cj E)) (delete_static_route E json)" "runs (evolves (cj E)) (update_static_routes E json)"
  "runs (evolves (cj E)) (create_dnat_port_forwarding_profile E json)"
  "runs (evolves (cj E)) (update_dnat_port_forwarding_profiles E json)"
  "runs (evolves (cj E)) (delete_dnat_port_forwarding_profile E json)"
  "runs (evolves (cj E)) (request_dnat_port_forwarding_profiles E json)"
  "runs (evolves (cj E)) (request_dnat_dmz E json)" "runs (evolves (cj E)) (create_dnat_dmz E json)"
  "runs (evolves (cj E)) (create_nova_services_port_profiles E json)"
  "runs (evolves (cj E)) (request_nova_services_port_profiles E json)"
  unfolding create_dns_dhcp_def request_dns_dhcp_def request_dhcp4_leases_def create_lan_def request_lan_def
    create_wan_def request_wan_def create_static_route_def request_static_routes_def delete_static_route_def
    update_static_routes_def create_dnat_port_forwarding_profile_def update_dnat_port_forwarding_profiles_def
    delete_dnat_port_forwarding_profile_def request_dnat_port_forwarding_profiles_def request_dnat_dmz_def
    create_dnat_dmz_def create_nova_services_port_profiles_def request_nova_services_port_profiles_def
    change_forwarding_def
  by (intro ev.rules evolve)+

section \<open>Reads do not touch the outside\<close>

definition silent :: "'j world \<Rightarrow> 'j world \<Rightarrow> bool" where
  "silent s t \<longleftrightarrow> w_trace t = w_trace s"

interpretation quiet: run_relation silent
  by unfold_locales (auto simp: silent_def)

lemma silent_reads:
  "runs silent (read_data p)" "runs silent (lan_get E)" "runs silent (wan_get E)" "runs silent (route_request E)"
  "runs silent (iptables_dnat_forwarding_request E)" "runs silent (iptable_dnat_dmz_request_from_setting_file E)"
  "runs silent (iptable_nova_service_request_from_setting_file E)" "runs silent (dns_dhcp_get_from_setting_file E)"
  "runs silent dhcp_lease_get"
proof -
  show r: "runs silent (read_data p)" for p
    by (auto simp: runs_def silent_def read_data_def mutex_lock_def mutex_unlock_def io_simps io_deref_def
        split: option.split)
  show "runs silent (lan_get E)" "runs silent (wan_get E)" "runs silent (route_request E)"
    "runs silent (iptables_dnat_forwarding_request E)" "runs silent (iptable_dnat_dmz_request_from_setting_file E)"
    "runs silent (iptable_nova_service_request_from_setting_file E)" "runs silent (dns_dhcp_get_from_setting_file E)"
    "runs silent dhcp_lease_get"
    unfolding lan_get_def lan_get_from_lan_setting_file_def wan_get_def wan_get_from_setting_file_def
      route_request_def route_request_from_setting_file_def iptables_dnat_forwarding_request_def
      iptable_dnat_forwarding_request_from_setting_file_def iptable_dnat_dmz_request_from_setting_file_def
      iptable_nova_service_request_from_setting_file_def dns_dhcp_get_from_setting_file_def dhcp_lease_get_def
      read_line_def
    by (intro quiet.rules r)+
qed

definition fails_silently :: "(fault + 'a) \<times> 'j world \<Rightarrow> 'j world \<Rightarrow> bool" where
  "fails_silently r s \<longleftrightarrow> isl (fst r) \<and> w_trace (snd r) = w_trace s"

lemma lookup_state: "error_table_lookup E c s = (r, t) \<Longrightarrow> t = s"
  by (auto simp: error_table_lookup_def io_bind_app io_get_app io_ret_app io_fail_app
      split: prod.splits option.splits)

lemma query_no_data:
  assumes "incoming E json MSG_EMPTY m n" "rq_data m = None" "runs silent G"
  shows "fails_silently (io_bind (open_request E json MSG_EMPTY) (\<lambda>(msg_request, msg_respond).
      io_bind G (\<lambda>x. io_bind (set_error E (code x) msg_respond) (\<lambda>msg_respond.
      io_bind (set_data (d x) msg_respond) (\<lambda>msg_respond. rest msg_respond)))) s) s"
    "fails_silently (io_bind (open_request E json MSG_EMPTY) (\<lambda>(msg_request, msg_respond).
      io_bind G (\<lambda>x. io_bind (set_data (d x) msg_respond) (\<lambda>msg_respond. rest' x msg_respond))) s) s"
proof -
  note o = open_request_incoming [OF assms(1), of s]
  obtain r u where g: "G s = (r, u)" by fastforce
  have u: "w_trace u = w_trace s" using runsD [OF assms(3) g] by (simp add: silent_def)
  show "fails_silently (io_bind (open_request E json MSG_EMPTY) (\<lambda>(msg_request, msg_respond).
      io_bind G (\<lambda>x. io_bind (set_error E (code x) msg_respond) (\<lambda>msg_respond.
      io_bind (set_data (d x) msg_respond) (\<lambda>msg_respond. rest msg_respond)))) s) s"
  proof (cases r)
    case (Inr x)
    obtain e v where l: "error_table_lookup E (code x) u = (e, v)" by fastforce
    then have "v = u" by (rule lookup_state)
    with l show ?thesis using o g Inr u assms(2)
      by (cases e) (simp_all add: fails_silently_def io_bind_app set_error_def set_data_def respond_of_def
          io_deref_Some io_ret_app io_deref_None)
  qed (use o g u in \<open>simp add: fails_silently_def io_bind_app\<close>)
  show "fails_silently (io_bind (open_request E json MSG_EMPTY) (\<lambda>(msg_request, msg_respond).
      io_bind G (\<lambda>x. io_bind (set_data (d x) msg_respond) (\<lambda>msg_respond. rest' x msg_respond))) s) s"
    using o g u assms(2)
    by (cases r) (simp_all add: fails_silently_def io_bind_app set_data_def respond_of_def
        io_deref_Some io_deref_None)
qed

lemma lan_get_cong:
  assumes "lan_get E s = (Inr x, s)" "lan_setting_file (get_config E) = Some p" "w_lock t = w_lock s"
    "w_files t p = w_files s p"
  shows "lan_get E t = (Inr x, t)"
proof (cases "w_lock s \<or> w_files s p = None")
  case True
  then have "lan_get E s \<noteq> (Inr x, s)"
    using assms(2) by (cases "w_lock s") (auto simp: lan_get_def lan_get_from_lan_setting_file_def io_simps
        dest: arg_cong [where f = w_lock])
  with assms(1) show ?thesis by simp
next
  case False
  then show ?thesis using assms by (auto simp: lan_get_def lan_get_from_lan_setting_file_def io_simps)
qed

section \<open>A concrete request\<close>

text \<open>A state with the two entries of the error tables that the witnesses need.\<close>

definition with_tables :: "jtree world \<Rightarrow> jtree world" where
  "with_tables s = s\<lparr>w_error_tables :=
     (Some (TArr [TObj [(''code'', TNum ERR_SUCCESS), (''message'', TStr ''Success'')]]), None, None)\<rparr>"

definition success_error :: error_t where
  "success_error = \<lparr>err_code = ERR_SUCCESS, err_message = Some ''Success''\<rparr>"

lemma with_tables_lookup: "error_table_lookup quiet_env ERR_SUCCESS (with_tables s) = (Inr success_error, with_tables s)"
  by (simp add: error_table_lookup_def with_tables_def io_simps get_error_json_from_error_table_json_def
      json_items_def cJSON_IsArray_def cJSON_IsNumber_def cJSON_IsString_def tree_lib_def Let_def
      success_error_def cvt_json_to_error_def json_int_def json_str_def app_strdup_def)

definition demo_lan :: lan_t where
  "demo_lan = \<lparr>lan_bridge_ap_mode = False, lan_proto = Some ''static'', lan_ipaddr = Some ''192.168.1.1'',
     lan_netmask = Some ''255.255.255.0''\<rparr>"

definition lan_request :: "data_t option \<Rightarrow> msg_request_t" where
  "lan_request d = demo_request\<lparr>rq_data := d\<rparr>"

definition lan_reply_name :: string where
  "lan_reply_name = ''ezm.web.network.lan.responded''"

text \<open>Every request that can be written is carried by some document.\<close>

lemma incoming_demo:
  assumes "arrives ty d = Some d'"
  shows "\<exists>j. incoming quiet_env j ty (lan_request d') lan_reply_name"
proof -
  obtain j where "cvt_json_to_msg_request tree_lib j ty = lan_request d'"
    using request_json [OF tree_ok, of ty "lan_request d" d' "()"] assms by (auto simp: lan_request_def)
  moreover have "rq_name (lan_request d') = Some (dotted (''web'' # ''ezm'' # [''network'', ''lan''] @ [''requested'']))"
    "lan_reply_name = dotted (''ezm'' # ''web'' # [''network'', ''lan''] @ [answered ''requested''])"
    by (simp_all add: lan_request_def demo_request_def lan_reply_name_def answered_def)
  moreover have "\<forall>w \<in> set (''web'' # ''ezm'' # [''network'', ''lan''] @ [''requested'']). name_part w"
    by (simp add: name_part_def)
  moreover have "length lan_reply_name < 200" by (simp add: lan_reply_name_def)
  ultimately have "incoming quiet_env j ty (lan_request d') lan_reply_name"
    unfolding incoming_def quiet_env_simps(1) by (intro conjI exI quiet_env_simps(6))
  then show ?thesis by (rule exI)
qed

section \<open>Properties\<close>

text \<open>
  C16: Setting the LAN and asking for it, from the documents to the topic. The request to set it runs
  the commands of the setting and the commit, then publishes one reply, which reads back as the
  request's identifiers under the converted name with the success error and the setting, and only
  then, a second later, restarts the network. The request that follows is answered with the very
  setting, and runs nothing.
\<close>

theorem lan_set_and_query:
  assumes "cjson_ok (cj E)" "incoming E j MSG_NETWORK_LAN m n" "rq_data m = Some (D_lan lan)"
    "lan_complete lan" "\<not> w_lock s" "lan_setting_file (get_config E) = Some p" "writable E p" "sh_keeps E p"
    "error_table_lookup E ERR_SUCCESS s = (Inr e, s)"
    "incoming E j' MSG_EMPTY m' n'" "rq_data m' \<noteq> None"
  shows "\<exists>s' str str'. create_lan E j s = (Inr (), s') \<and>
    w_trace s' = w_trace s @ lan_commands lan @ [ExecT 2000 ''uci commit network'',
      Publish (w_pub_topic s) False str, Sleep 1, ExecT 120000 ''/etc/init.d/network restart''] \<and>
    cvt_json_to_msg_respond (cj E) (cJSON_Parse (cj E) (Some str)) MSG_NETWORK_LAN =
      reply m n e (Some (D_lan lan)) \<and>
    request_lan E j' s' = (Inr (), s'\<lparr>w_trace := w_trace s' @ [Publish (w_pub_topic s) False str']\<rparr>) \<and>
    cvt_json_to_msg_respond (cj E) (cJSON_Parse (cj E) (Some str')) MSG_NETWORK_LAN =
      reply m' n' e (Some (D_lan lan))"
proof -
  obtain u where u: "lan_set E lan s = (Inr ERR_SUCCESS, u)"
    "w_trace u = w_trace s @ lan_commands lan @ [ExecT 2000 ''uci commit network'']"
    "lan_get E u = (Inr (ERR_SUCCESS, lan), u)"
    using lan_set_ok [OF assms(1,4-8)] by blast
  have ev: "evolves (cj E) s u" using runsD [OF ev_lan(3) u(1)] .
  then have lu: "error_table_lookup E ERR_SUCCESS u = (Inr e, u)" using lookup_evolves assms(9) by blast
  have after: "emits E (io_seq [sleep_s 1, restart_service E (Some ''network'')])
      [Sleep 1, ExecT 120000 ''/etc/init.d/network restart'']"
    by (rule emits_eqI [OF emits_seq_Cons [OF emits_sleep emits_seq_Cons [OF emits_services(3) emits_seq_Nil]]]) simp_all
  have op: "io_bind (lan_set E lan) (\<lambda>err. io_ret (err, D_lan lan)) s = (Inr (ERR_SUCCESS, D_lan lan), u)"
    using u(1) by (simp add: op_kept)
  have arr: "arrives MSG_NETWORK_LAN (Some (D_lan lan)) = Some (Some (D_lan lan))"
    by (simp add: arrives_def transported_def)
  have free: "data_free (Some (D_lan lan)) MSG_NETWORK_LAN v = (Inr (), v)" for v :: "'a world"
    by (simp add: data_free_def union_member_def io_void_app io_ret_app)
  obtain str s' where s': "create_lan E j s = (Inr (), s')"
    "w_trace s' = w_trace u @ [Publish (w_pub_topic u) False str] @ [Sleep 1, ExecT 120000 ''/etc/init.d/network restart'']"
    "same_frame u s'" "\<forall>q. sh_keeps E q \<longrightarrow> w_files s' q = w_files u q"
    "payload E (reply m n e (Some (D_lan lan))) MSG_NETWORK_LAN str"
    using lan_change.replies [OF assms(1-3) _ _ op lu arr after free] by auto
  have get: "lan_get E s' = (Inr (ERR_SUCCESS, lan), s')"
    using lan_get_cong [OF u(3) assms(6), of s'] s'(3,4) assms(8) by (simp add: same_frame_def)
  have lu': "error_table_lookup E ERR_SUCCESS s' = (Inr e, s')"
    using lookup_evolves [OF runsD [OF ev_net_handlers(4) s'(1)] assms(9)] .
  obtain str' where q: "request_lan E j' s' =
      (Inr (), s'\<lparr>w_trace := w_trace s' @ [Publish (w_pub_topic s') False str']\<rparr>)"
    "payload E (reply m' n' e (Some (D_lan lan))) MSG_NETWORK_LAN str'"
    using lan_query.replies [OF assms(1,10,11) get lu' arr free] by auto
  have topics: "w_pub_topic u = w_pub_topic s" "w_pub_topic s' = w_pub_topic s"
    using ev s'(3) by (simp_all add: evolves_def same_frame_def)
  have reads: "cvt_json_to_msg_respond (cj E) (cJSON_Parse (cj E) (Some t)) MSG_NETWORK_LAN =
      reply k l e (Some (D_lan lan))"
    if "payload E (reply k l e (Some (D_lan lan))) MSG_NETWORK_LAN t" for k l t
    using that arr by (auto simp: payload_def reply_def)
  show ?thesis using s'(1,2,5) u(2) q topics reads by auto
qed

theorem lan_set_and_query_witness:
  "\<exists>j j' s' str str'. create_lan quiet_env j (with_tables empty_world) = (Inr (), s') \<and>
    w_trace s' = w_trace (with_tables empty_world) @ lan_commands demo_lan @ [ExecT 2000 ''uci commit network'',
      Publish (w_pub_topic (with_tables empty_world)) False str, Sleep 1, ExecT 120000 ''/etc/init.d/network restart''] \<and>
    cvt_json_to_msg_respond (cj quiet_env) (cJSON_Parse (cj quiet_env) (Some str)) MSG_NETWORK_LAN =
      reply (lan_request (Some (D_lan demo_lan))) lan_reply_name success_error (Some (D_lan demo_lan)) \<and>
    request_lan quiet_env j' s' = (Inr (), s'\<lparr>w_trace := w_trace s' @
      [Publish (w_pub_topic (with_tables empty_world)) False str']\<rparr>) \<and>
    cvt_json_to_msg_respond (cj quiet_env) (cJSON_Parse (cj quiet_env) (Some str')) MSG_NETWORK_LAN =
      reply (lan_request (Some D_null)) lan_reply_name success_error (Some (D_lan demo_lan))"
proof -
  obtain j where j: "incoming quiet_env j MSG_NETWORK_LAN (lan_request (Some (D_lan demo_lan))) lan_reply_name"
    using incoming_demo [of MSG_NETWORK_LAN "Some (D_lan demo_lan)"] by (auto simp: arrives_def transported_def)
  obtain j' where j': "incoming quiet_env j' MSG_EMPTY (lan_request (Some D_null)) lan_reply_name"
    using incoming_demo [of MSG_EMPTY "Some D_null"] by (auto simp: arrives_def transported_def)
  have "lan_complete demo_lan" by (simp add: lan_complete_def short_string_def demo_lan_def)
  moreover have "\<not> w_lock (with_tables empty_world)" by (simp add: with_tables_def)
  moreover have "cjson_ok (cj quiet_env)" "lan_setting_file (get_config quiet_env) = Some ''/data/config/ezm/lan_setting.json''"
    by (simp_all add: tree_ok)
  moreover have "rq_data (lan_request (Some (D_lan demo_lan))) = Some (D_lan demo_lan)"
    "rq_data (lan_request (Some D_null)) \<noteq> None" by (simp_all add: lan_request_def)
  ultimately show ?thesis
    using lan_set_and_query [OF _ j _ _ _ _ _ _ with_tables_lookup j', of demo_lan empty_world] by fastforce
qed

text \<open>
  A request without data. All eight handlers that only read fail on it, whatever is stored: they
  store their result in the block of the request's data, which is not there, and nothing was run
  or published before.
\<close>

theorem queries_without_data:
  assumes "incoming E json MSG_EMPTY m n" "rq_data m = None"
    "handler \<in> set [request_lan, request_wan, request_static_routes, request_dnat_port_forwarding_profiles,
      request_dnat_dmz, request_nova_services_port_profiles, request_dns_dhcp, request_dhcp4_leases]"
  shows "isl (fst (handler E json s)) \<and> w_trace (snd (handler E json s)) = w_trace s"
proof -
  note no = query_no_data [OF assms(1,2), unfolded case_prod_unfold]
  have "fails_silently (request_lan E json s) s"
    unfolding request_lan_def case_prod_unfold by (rule no(2) [OF silent_reads(2)])
  moreover have "fails_silently (request_wan E json s) s"
    unfolding request_wan_def case_prod_unfold by (rule no(1) [OF silent_reads(3)])
  moreover have "fails_silently (request_static_routes E json s) s"
    unfolding request_static_routes_def case_prod_unfold by (rule no(1) [OF silent_reads(4)])
  moreover have "fails_silently (request_dnat_port_forwarding_profiles E json s) s"
    unfolding request_dnat_port_forwarding_profiles_def case_prod_unfold by (rule no(1) [OF silent_reads(5)])
  moreover have "fails_silently (request_dnat_dmz E json s) s"
    unfolding request_dnat_dmz_def case_prod_unfold by (rule no(1) [OF silent_reads(6)])
  moreover have "fails_silently (request_nova_services_port_profiles E json s) s"
    unfolding request_nova_services_port_profiles_def case_prod_unfold by (rule no(1) [OF silent_reads(7)])
  moreover have "fails_silently (request_dns_dhcp E json s) s"
    unfolding request_dns_dhcp_def case_prod_unfold by (rule no(1) [OF silent_reads(8)])
  moreover have "fails_silently (request_dhcp4_leases E json s) s"
    unfolding request_dhcp4_leases_def case_prod_unfold Let_def by (rule no(1) [OF silent_reads(9)])
  ultimately have "fails_silently (handler E json s) s" using assms(3) by auto
  then show ?thesis by (simp add: fails_silently_def)
qed

theorem queries_without_data_witness:
  "\<exists>j. isl (fst (request_lan quiet_env j empty_world)) \<and>
    w_trace (snd (request_lan quiet_env j empty_world)) = w_trace empty_world"
proof -
  obtain j where j: "incoming quiet_env j MSG_EMPTY (lan_request None) lan_reply_name"
    using incoming_demo [of MSG_EMPTY None] by (auto simp: arrives_def)
  have "rq_data (lan_request None) = None" by (simp add: lan_request_def)
  from queries_without_data [OF j this, of request_lan empty_world] show ?thesis by auto
qed

text \<open>
  An update of routes that finds at least one of them publishes its reply, and then releases the
  strings of the replaced routes a second time: the handler does not return.
\<close>

theorem route_update_released_twice:
  assumes "cjson_ok (cj E)" "incoming E json MSG_NETWORK_STATIC_ROUTE m n" "rq_data m = Some (D_routes_list us)"
    "route_update E us s = (Inr (err, rs), s')" "err \<noteq> ERR_ID_MISMATCHED"
    "error_table_lookup E err s' = (Inr e, s')"
  shows "\<exists>str. update_static_routes E json s =
      (Inl InvalidFree, s'\<lparr>w_trace := w_trace s' @ [Publish (w_pub_topic s') False str]\<rparr>) \<and>
    rs_name (cvt_json_to_msg_respond (cj E) (cJSON_Parse (cj E) (Some str)) MSG_NETWORK_STATIC_ROUTE) = Some n"
proof -
  have arr: "arrives MSG_NETWORK_STATIC_ROUTE (Some (D_routes_list rs)) = Some (Some (D_routes_list rs))"
    by (simp add: arrives_def transported_def)
  obtain str where str: "mqtt_publish_message E (reply m n e (Some (D_routes_list rs))) MSG_NETWORK_STATIC_ROUTE False s' =
      (Inr (), s'\<lparr>w_trace := w_trace s' @ [Publish (w_pub_topic s') False str]\<rparr>)"
    "payload E (reply m n e (Some (D_routes_list rs))) MSG_NETWORK_STATIC_ROUTE str"
    using publish_reply [OF assms(1) arr] by blast
  have "update_static_routes E json s =
      (Inl InvalidFree, s'\<lparr>w_trace := w_trace s' @ [Publish (w_pub_topic s') False str]\<rparr>)"
    unfolding update_static_routes_def
    by (subst change_shape [where sel = routes_of and x = us, OF assms(2,3)])
      (simp_all add: io_bind_app assms(4,5) set_error_reply [OF assms(6)] assms(3) set_data_reply io_then_app
        io_ret_app str(1) io_deref_Some io_fail_app)
  then show ?thesis using str(2) by (auto simp: payload_def reply_def)
qed

theorem route_update_released_twice_witness:
  "\<exists>j s' str. update_static_routes quiet_env j (with_tables (route_world [demo_route ''a'' ''10.0.0.0/16''])) =
      (Inl InvalidFree, s'\<lparr>w_trace := w_trace s' @ [Publish (w_pub_topic s') False str]\<rparr>) \<and>
    rs_name (cvt_json_to_msg_respond (cj quiet_env) (cJSON_Parse (cj quiet_env) (Some str))
      MSG_NETWORK_STATIC_ROUTE) = Some lan_reply_name"
proof -
  let ?s = "with_tables (route_world [demo_route ''a'' ''10.0.0.0/16''])"
  let ?us = "[demo_route ''a'' ''10.1.0.0/16'']"
  obtain j where j: "incoming quiet_env j MSG_NETWORK_STATIC_ROUTE (lan_request (Some (D_routes_list ?us))) lan_reply_name"
    using incoming_demo [of MSG_NETWORK_STATIC_ROUTE "Some (D_routes_list ?us)"]
    by (auto simp: arrives_def transported_def)
  have st: "stored_routes quiet_env ?s [demo_route ''a'' ''10.0.0.0/16'']"
    using route_world_stored [of "[demo_route ''a'' ''10.0.0.0/16'']"]
    by (simp add: stored_routes_def with_tables_def)
  have "any_hit [demo_route ''a'' ''10.0.0.0/16''] ?us"
    by (simp add: hits_def route_match_def app_strstr_iff del: not_None_eq)
  then obtain rs s' where u: "route_update quiet_env ?us ?s = (Inr (ERR_SUCCESS, rs), s')"
    using route_update_cases [OF quiet_env_ok(1) st, of ?us] by (auto simp: demo_route_complete)
  have lu: "error_table_lookup quiet_env ERR_SUCCESS s' = (Inr success_error, s')"
    using lookup_evolves [OF runsD [OF ev_route(8) u] with_tables_lookup] .
  show ?thesis
    using route_update_released_twice [OF quiet_env_ok(1) j _ u _ lu] by (auto simp: lan_request_def)
qed

end
