(* ===== verification/MeshHandlers.thy ===== *)
theory MeshHandlers
  imports NetHandlers
begin

text \<open>
  \<open>src/api/mesh/mesh_handler.c\<close>: the handlers of the requests for the mesh, its devices and its link
  quality. The number \<open>n\<close> is the fuel of the work modes that the handlers start; the rounds of the
  two waiting loops, in which the timers fire, and the devices that answer a query of the service
  discovery are arguments.
\<close>

section \<open>Shared parts\<close>

text \<open>The mesh settings printed over their file; the result of the write is dropped.\<close>

definition save_mesh_setting :: "'j env \<Rightarrow> mesh_setting_t \<Rightarrow> ('j, unit) wio" where
  "save_mesh_setting E mesh_setting =
     io_bind (io_deref (cJSON_Print (cj E) (cvt_mesh_setting_to_json (cj E) (Some mesh_setting)))) (\<lambda>str.
     io_void (write_data E str (mesh_setting_file (get_config E)) TRUNCATE))"

text \<open>An error reply: the error, and a response without data.\<close>

definition reply_error :: "'j env \<Rightarrow> c_int \<Rightarrow> msg_respond_t \<Rightarrow> ('j, msg_respond_t) wio" where
  "reply_error E code msg_respond =
     io_bind (set_error E code msg_respond) (\<lambda>msg_respond.
     io_then (mqtt_publish_message E msg_respond MSG_EMPTY False) (io_ret msg_respond))"

section \<open>The mesh\<close>

text \<open>
  Creating a mesh stores a fresh identifier in the settings of the request before they are sent
  back, and the new work mode after that. The settings are shared by the request, the response
  and the file.
\<close>

definition create_mesh :: "nat \<Rightarrow> 'j env \<Rightarrow> 'j option \<Rightarrow> ('j, unit) wio" where
  "create_mesh n E msg_json =
     io_bind (open_request E msg_json MSG_MESH_SETTING) (\<lambda>(msg_request, msg_respond).
     io_bind (get_work_mode E) (\<lambda>work_mode.
     io_bind
       (if work_mode \<noteq> CONTROLLER_MODE then
          io_bind (request_data mesh_setting_of msg_request) (\<lambda>p.
          io_bind (io_deref p) (\<lambda>mesh_setting.
          io_bind (io_deref (ms_wireless mesh_setting)) (\<lambda>wireless.
          io_bind (io_deref (wireless_iface wireless)) (\<lambda>wifi_iface.
          io_bind (uuid_gen E (Some ''mesh'')) (\<lambda>mesh_id.
          (let mesh_setting = mesh_setting\<lparr>ms_mesh_id := app_strdup mesh_id\<rparr>
           in io_bind (set_data (D_mesh_setting mesh_setting) msg_respond) (\<lambda>msg_respond.
              io_bind (set_error E ERR_SUCCESS msg_respond) (\<lambda>msg_respond.
              io_then (mqtt_publish_message E msg_respond MSG_MESH_SETTING False)
              (let mesh_setting = mesh_setting\<lparr>ms_work_mode := Some ''controller''\<rparr>
               in io_bind (set_data (D_mesh_setting mesh_setting) msg_respond) (\<lambda>msg_respond.
                  io_then (io_seq [save_mesh_setting E mesh_setting,
                                   usleep (300 * 1000),
                                   io_void (iptables_allow_all_traffic E),
                                   run_controller_mode n E])
                  (io_ret msg_respond)))))))))))
        else reply_error E ERR_MESH_SETUPED_BEFORE msg_respond) (\<lambda>msg_respond.
     msg_respond_free msg_respond MSG_MESH_SETTING)))"

text \<open>Without a mesh the request is answered with success.\<close>

definition request_mesh :: "'j env \<Rightarrow> 'j option \<Rightarrow> ('j, unit) wio" where
  "request_mesh E msg_json =
     io_bind (open_request E msg_json MSG_EMPTY) (\<lambda>(msg_request, msg_respond).
     io_bind (get_work_mode E) (\<lambda>work_mode.
     io_bind
       (if work_mode \<noteq> CONTROLLER_MODE then reply_error E ERR_SUCCESS msg_respond
        else
          io_bind (read_mesh_setting E) (\<lambda>mesh_setting.
          io_bind (set_error E ERR_SUCCESS msg_respond) (\<lambda>msg_respond.
          io_bind (set_data (D_mesh_setting mesh_setting) msg_respond) (\<lambda>msg_respond.
          io_then (mqtt_publish_message E msg_respond MSG_MESH_SETTING False) (io_ret msg_respond))))) (\<lambda>msg_respond.
     msg_respond_free msg_respond MSG_MESH_SETTING)))"

text \<open>
  The update of a known mesh. When the daemon is down the name of the response is converted a
  second time. The result of the branch is the response and the flag for the wireless interface.
\<close>

definition update_known_mesh ::
  "'j env \<Rightarrow> msg_request_t \<Rightarrow> msg_respond_t \<Rightarrow> ('j, msg_respond_t \<times> bool) wio" where
  "update_known_mesh E msg_request msg_respond =
     io_bind (read_mesh_setting E) (\<lambda>mesh_setting.
     io_bind (request_data mesh_setting_of msg_request) (\<lambda>p.
     io_bind (io_deref p) (\<lambda>requested.
     io_bind
       (if app_strstr (ms_mesh_id mesh_setting) (ms_mesh_id requested) \<noteq> None then
          io_then (save_mesh_setting E requested)
          (io_bind (set_error E ERR_SUCCESS msg_respond) (\<lambda>msg_respond.
           io_then (mqtt_publish_message E msg_respond MSG_MESH_SETTING False) (io_ret (msg_respond, True))))
        else io_bind (reply_error E ERR_MESH_NOT_FOUND msg_respond) (\<lambda>msg_respond. io_ret (msg_respond, False)))
     (\<lambda>result. io_then (mesh_setting_free (Some mesh_setting)) (io_ret result)))))"

definition update_mesh :: "'j env \<Rightarrow> 'j option \<Rightarrow> ('j, unit) wio" where
  "update_mesh E msg_json =
     io_bind (open_request E msg_json MSG_MESH_SETTING) (\<lambda>(msg_request, msg_respond).
     io_bind (ezm_deamon_is_running E) (\<lambda>running.
     io_bind
       (if running = -1 then
          io_bind (set_error E ERR_EZMESH_DEAMON_CONNECT_FAIL msg_respond) (\<lambda>msg_respond.
          io_bind (cvt_req_name_to_res_name (rs_name msg_respond)) (\<lambda>name.
          (let msg_respond = msg_respond\<lparr>rs_name := name\<rparr>
           in io_then (mqtt_publish_message E msg_respond MSG_EMPTY False) (io_ret msg_respond))))
        else
          io_bind (get_work_mode E) (\<lambda>work_mode.
          io_bind
            (if work_mode \<noteq> CONTROLLER_MODE then
               io_bind (reply_error E ERR_EZMESH_DEAMON_CONNECT_FAIL msg_respond) (\<lambda>msg_respond.
               io_ret (msg_respond, False))
             else update_known_mesh E msg_request msg_respond) (\<lambda>(msg_respond, change_wifi_iface_flag).
          io_then (usleep (300 * 1000))
          (io_then
            (if change_wifi_iface_flag then
               io_bind (request_data mesh_setting_of msg_request) (\<lambda>p.
               io_bind (io_deref p) (\<lambda>mesh_setting.
               io_bind (io_deref (ms_wireless mesh_setting)) (\<lambda>wireless.
               io_bind (io_deref (wireless_iface wireless)) (\<lambda>wifi_iface.
               change_wifi_iface E wifi_iface))))
             else io_ret ())
          (io_ret msg_respond))))) (\<lambda>msg_respond.
     msg_respond_free msg_respond MSG_MESH_SETTING)))"

text \<open>
  The work mode is overwritten with a string constant, which the release of the settings passes to
  \<open>free\<close>: the handlers that change the mode end there.
\<close>

definition change_work_mode :: "'j env \<Rightarrow> string \<Rightarrow> ('j, unit) wio" where
  "change_work_mode E work_mode =
     io_bind (read_mesh_setting E) (\<lambda>mesh_setting.
     save_mesh_setting E (mesh_setting\<lparr>ms_work_mode := Some work_mode\<rparr>))"

definition delete_mesh :: "nat \<Rightarrow> 'j env \<Rightarrow> 'j option \<Rightarrow> ('j, unit) wio" where
  "delete_mesh n E msg_json =
     io_bind (open_request E msg_json MSG_EMPTY) (\<lambda>(msg_request, msg_respond).
     io_bind (ezm_deamon_is_running E) (\<lambda>running.
     io_bind
       (if running = -1 then
          io_bind (set_error E ERR_EZMESH_DEAMON_CONNECT_FAIL msg_respond) (\<lambda>msg_respond.
          io_bind (cvt_req_name_to_res_name (rs_name msg_respond)) (\<lambda>name.
          (let msg_respond = msg_respond\<lparr>rs_name := name\<rparr>
           in io_then (mqtt_publish_message E msg_respond MSG_EMPTY False) (io_ret msg_respond))))
        else
          io_bind (get_work_mode E) (\<lambda>work_mode.
          if work_mode \<noteq> CONTROLLER_MODE then reply_error E ERR_MESH_NOT_FOUND msg_respond
          else
            io_then (change_work_mode E ''standalone'')
            (io_bind (reply_error E ERR_SUCCESS msg_respond) (\<lambda>msg_respond.
             io_then (run_standalone_mode n E)
             (io_fail InvalidFree))))) (\<lambda>msg_respond.
     msg_respond_free msg_respond MSG_MESH_SETTING)))"

text \<open>No response is sent.\<close>

definition request_activate_agent_device :: "nat \<Rightarrow> 'j env \<Rightarrow> 'j option \<Rightarrow> ('j, unit) wio" where
  "request_activate_agent_device n E msg_json =
     io_then (change_work_mode E ''agent'') (io_then (run_agent_mode n E) (io_fail InvalidFree))"

definition request_inactivate_agent_device :: "nat \<Rightarrow> 'j env \<Rightarrow> 'j option \<Rightarrow> ('j, unit) wio" where
  "request_inactivate_agent_device n E msg_json =
     io_then (change_work_mode E ''standalone'') (io_then (run_standalone_mode n E) (io_fail InvalidFree))"

section \<open>The devices\<close>

definition request_mesh_devices :: "'j env \<Rightarrow> 'j option \<Rightarrow> ('j, unit) wio" where
  "request_mesh_devices E msg_json =
     io_bind (open_request E msg_json MSG_EMPTY) (\<lambda>(msg_request, msg_respond).
     io_bind (ezm_deamon_is_running E) (\<lambda>running.
     if running = -1 then
       io_bind (reply_error E ERR_SUCCESS msg_respond) (\<lambda>msg_respond. msg_respond_free msg_respond MSG_EMPTY)
     else
       io_bind (emt_topology E TOPOLOGY_S2 None) (\<lambda>device_list.
       io_then (json_text E (cvt_device_list_to_json (cj E) device_list))
       (io_then (update_device_list_to_file_from_emt_device E device_list)
       (io_bind (set_error E ERR_SUCCESS msg_respond) (\<lambda>msg_respond.
        io_bind (request_device_list_from_file_by_status E DEVICE_ON) (\<lambda>device_list.
        io_bind (set_data (D_device_list device_list) msg_respond) (\<lambda>msg_respond.
        io_seq [mqtt_publish_message E msg_respond MSG_MESH_DEVICE_LIST False,
                msg_respond_free msg_respond MSG_MESH_DEVICE_LIST]))))))))"

text \<open>
  The waiting loop of pairing and removal. In each round of 10 milliseconds the timer thread may
  run the check, which sets the flag anew, and the timeout, in the given order; the loop looks at
  both between the rounds. The result is whether the time ran out.
\<close>

datatype firing = PollFires | TimeoutFires

fun fire :: "('j, c_int) wio \<Rightarrow> c_int \<times> bool \<Rightarrow> firing \<Rightarrow> ('j, c_int \<times> bool) wio" where
  "fire check (flag, timeout) PollFires = io_bind check (\<lambda>flag. io_ret (flag, timeout))"
| "fire check (flag, timeout) TimeoutFires = io_ret (flag, timeout_check timeout)"

fun wait_checked :: "('j, c_int) wio \<Rightarrow> c_int \<times> bool \<Rightarrow> firing list list \<Rightarrow> ('j, bool) wio" where
  "wait_checked check (flag, timeout) rounds =
     (if flag = 0 \<and> \<not> timeout then
        (case rounds of
           [] \<Rightarrow> io_fail OutOfFuel
         | fs # rounds \<Rightarrow>
             io_then (usleep (10 * 1000))
             (io_bind (io_fold (fire check) (flag, timeout) fs) (\<lambda>st. wait_checked check st rounds)))
      else io_ret timeout)"

declare wait_checked.simps [simp del]

text \<open>
  One device to pair: its status is set, and the request is passed on to it under another name. \<open>None\<close>
  stands for success, otherwise the result is the error of the reply with which the handler ends.
\<close>

definition pair_one ::
  "'j env \<Rightarrow> msg_request_t \<Rightarrow> device_info_t \<Rightarrow> ('j, c_int option) wio" where
  "pair_one E msg_request d =
     io_bind (io_deref (dev_role d)) (\<lambda>role.
     if role = ''standalone'' then
       io_bind (mqtt_publish_message_to_external E (dev_ip d) (dev_ezm_id d)
         (msg_request\<lparr>rq_name := Some ''ezm.ezm.mesh.device.agent.activate.requested''\<rparr>) MSG_EMPTY False) (\<lambda>ret.
       io_ret (if ret = -1 then Some ERR_INTERNAL_SERVER else None))
     else io_ret (Some ERR_UNKNOWN))"

fun pair_loop :: "'j env \<Rightarrow> msg_request_t \<Rightarrow> device_info_t list \<Rightarrow> ('j, c_int option) wio" where
  "pair_loop E msg_request [] = io_ret None"
| "pair_loop E msg_request (d # ds) =
     io_bind (pair_one E msg_request d) (\<lambda>r. case r of Some code \<Rightarrow> io_ret (Some code) | None \<Rightarrow> pair_loop E msg_request ds)"

definition pairing :: "device_info_t \<Rightarrow> device_info_t" where
  "pairing d = d\<lparr>dev_status := DEVICE_PAIRING\<rparr>"

definition request_pair_mesh_devices :: "firing list list \<Rightarrow> 'j env \<Rightarrow> 'j option \<Rightarrow> ('j, unit) wio" where
  "request_pair_mesh_devices rounds E msg_json =
     io_bind (open_request E msg_json MSG_MESH_DEVICE_LIST) (\<lambda>(msg_request, msg_respond).
     io_bind (ezm_deamon_is_running E) (\<lambda>running.
     if running = -1 then
       io_bind (reply_error E ERR_EZMESH_DEAMON_CONNECT_FAIL msg_respond) (\<lambda>msg_respond.
       msg_respond_free msg_respond MSG_MESH_DEVICE_LIST)
     else
       io_bind (emt_topology E TOPOLOGY_S2 None) (\<lambda>device_list_before.
       io_bind (request_data device_list_of msg_request) (\<lambda>p.
       io_bind (io_deref p) (\<lambda>device_list_for_pair.
       io_then (json_text E (cvt_device_list_to_json (cj E) device_list_for_pair))
       (io_bind (pair_loop E msg_request device_list_for_pair) (\<lambda>failed.
        case failed of
          Some code \<Rightarrow>
            io_bind (reply_error E code msg_respond) (\<lambda>msg_respond.
            msg_respond_free msg_respond MSG_MESH_DEVICE_LIST)
        | None \<Rightarrow>
           (let device_list = map pairing device_list_for_pair
            in io_bind (set_data (D_device_list device_list) msg_respond) (\<lambda>msg_respond.
               io_then (set_device_list_to_file E device_list)
               (io_bind (wait_checked (add_device_check E (length device_list_before)) (0, False) rounds) (\<lambda>timeout.
                io_bind
                  (if timeout then reply_error E ERR_TIMEOUT msg_respond
                   else io_bind (set_error E ERR_SUCCESS msg_respond) (\<lambda>msg_respond.
                        io_then (mqtt_publish_message E msg_respond MSG_MESH_DEVICE_LIST False)
                        (io_ret msg_respond))) (\<lambda>msg_respond.
                msg_respond_free msg_respond MSG_MESH_DEVICE_LIST))))))))))))"

text \<open>The query of the service discovery gives NULL when it has no socket.\<close>

definition request_devices_available_for_pairing ::
  "device_info_t list option \<Rightarrow> 'j env \<Rightarrow> 'j option \<Rightarrow> ('j, unit) wio" where
  "request_devices_available_for_pairing found E msg_json =
     io_bind (open_request E msg_json MSG_EMPTY) (\<lambda>(msg_request, msg_respond).
     io_bind (ezm_deamon_is_running E) (\<lambda>running.
     if running = -1 then
       io_bind (reply_error E ERR_SUCCESS msg_respond) (\<lambda>msg_respond. msg_respond_free msg_respond MSG_EMPTY)
     else
       io_then (iptables_allow_all_traffic E)
       (io_bind (io_deref found) (\<lambda>device_list.
        io_then (iptables_refresh E)
        (io_bind (set_error E ERR_SUCCESS msg_respond) (\<lambda>msg_respond.
         io_bind (set_data (D_device_list device_list) msg_respond) (\<lambda>msg_respond.
         io_then (json_text E (cvt_device_list_to_json (cj E) device_list))
         (io_seq [mqtt_publish_message E msg_respond MSG_MESH_DEVICE_LIST False,
                  msg_respond_free msg_respond MSG_MESH_DEVICE_LIST]))))))))"

definition update_mesh_devices :: "'j env \<Rightarrow> 'j option \<Rightarrow> ('j, unit) wio" where
  "update_mesh_devices E msg_json =
     io_bind (open_request E msg_json MSG_MESH_DEVICE_LIST) (\<lambda>(msg_request, msg_respond).
     io_bind (ezm_deamon_is_running E) (\<lambda>running.
     io_bind
       (if running = -1 then reply_error E ERR_EZMESH_DEAMON_CONNECT_FAIL msg_respond
        else
          io_bind (request_data device_list_of msg_request) (\<lambda>p.
          io_bind (io_deref p) (\<lambda>device_list.
          io_bind (update_device_list_to_file_from_web E device_list) (\<lambda>ret.
          io_bind (set_error E (if ret then ERR_SUCCESS else ERR_DEVICE_NOT_FOUND) msg_respond) (\<lambda>msg_respond.
          io_bind (set_data (D_device_list device_list) msg_respond) (\<lambda>msg_respond.
          io_then (mqtt_publish_message E msg_respond MSG_MESH_DEVICE_LIST False) (io_ret msg_respond))))))) (\<lambda>msg_respond.
     msg_respond_free msg_respond MSG_MESH_DEVICE_LIST)))"

text \<open>
  After a removal the list is broadcast under a name from the configuration, and that string is
  released with the response.
\<close>

definition delete_mesh_devices :: "firing list list \<Rightarrow> 'j env \<Rightarrow> 'j option \<Rightarrow> ('j, unit) wio" where
  "delete_mesh_devices rounds E msg_json =
     io_bind (open_request E msg_json MSG_MESH_DEVICE_LIST) (\<lambda>(msg_request, msg_respond).
     io_bind (ezm_deamon_is_running E) (\<lambda>running.
     io_bind
       (if running = -1 then reply_error E ERR_EZMESH_DEAMON_CONNECT_FAIL msg_respond
        else
          io_bind (emt_topology E TOPOLOGY_S2 None) (\<lambda>device_list.
          io_then (update_device_list_to_file_from_emt_device E device_list)
          (io_bind (request_device_list_from_file_by_status E DEVICE_ON) (\<lambda>device_list_before.
           io_bind (request_data device_list_of msg_request) (\<lambda>p.
           io_bind (io_deref p) (\<lambda>device_list_deleted.
           io_bind (delete_device_list_from_file E device_list_deleted) (\<lambda>ret.
           if \<not> ret then reply_error E ERR_DEVICE_NOT_FOUND msg_respond
           else
             io_then (io_for device_list_deleted (\<lambda>d. io_void (mqtt_publish_message_to_mqtt_bridge E (dev_ezm_id d)
               (msg_request\<lparr>rq_name := Some ''ezm.ezm.mesh.device.agent.inactivate.requested''\<rparr>) MSG_EMPTY False)))
             (io_bind (wait_checked (remove_device_check E (length device_list_before)) (0, False) rounds) (\<lambda>timeout.
              if timeout then reply_error E ERR_TIMEOUT msg_respond
              else
                io_bind (set_error E ERR_SUCCESS msg_respond) (\<lambda>msg_respond.
                io_then (mqtt_publish_message E msg_respond MSG_MESH_DEVICE_LIST False)
                (io_bind (set_error E ERR_SUCCESS msg_respond) (\<lambda>msg_respond.
                 (let msg_respond = msg_respond\<lparr>rs_name := broadcast_request_name (get_config E)\<rparr>
                  in io_then (mqtt_publish_message E msg_respond MSG_MESH_DEVICE_LIST False)
                     (if rs_name msg_respond \<noteq> None then io_fail InvalidFree else io_ret msg_respond)))))))))))))) (\<lambda>msg_respond.
     msg_respond_free msg_respond MSG_MESH_DEVICE_LIST)))"

section \<open>The link quality\<close>

text \<open>The only handler that makes room for its result.\<close>

definition request_mesh_quality :: "'j env \<Rightarrow> 'j option \<Rightarrow> ('j, unit) wio" where
  "request_mesh_quality E msg_json =
     (let msg_request = cvt_json_to_msg_request (cj E) msg_json MSG_EMPTY;
          quality_profile_list = get_mesh_quality (cj E)
      in io_bind (error_table_lookup E ERR_SUCCESS) (\<lambda>error.
         io_bind (cvt_msg_request_to_msg_respond E msg_request) (\<lambda>msg_respond.
         (let msg_respond = msg_respond\<lparr>rs_respond_data :=
                Some \<lparr>rd_error = Some error, rd_data = Some (D_quality_profile_list quality_profile_list)\<rparr>\<rparr>
          in io_bind (cvt_req_name_to_res_name (rs_name msg_respond)) (\<lambda>name.
             (let msg_respond = msg_respond\<lparr>rs_name := name\<rparr>
              in io_seq [mqtt_publish_message E msg_respond MSG_MESH_QUALITY False,
                         msg_respond_free msg_respond MSG_MESH_QUALITY]))))))"

section \<open>Every handler evolves the state\<close>

lemma ev_fire: "runs (evolves (cj E)) check \<Longrightarrow> runs (evolves (cj E)) (fire check st f)"
  by (cases st; cases f) (auto intro: ev.bind simp: ev.basic)

lemma ev_wait: "runs (evolves (cj E)) check \<Longrightarrow> runs (evolves (cj E)) (wait_checked check st rounds)"
proof (induction rounds arbitrary: st)
  case Nil
  then show ?case by (cases st) (simp add: wait_checked.simps ev.basic)
next
  case (Cons fs rounds)
  obtain flag timeout where st: "st = (flag, timeout)" by fastforce
  note fires = ev_fire [OF Cons.prems] and rest = Cons.IH [OF Cons.prems]
  show ?case unfolding st
    by (subst wait_checked.simps, unfold list.case) (intro ev.rules evolve fires rest)
qed

lemma ev_pair_loop [evolve]: "runs (evolves (cj E)) (pair_loop E m ds)"
proof (induction ds)
  case (Cons d ds)
  show ?case unfolding pair_loop.simps pair_one_def by (intro ev.rules evolve Cons.IH)
qed (simp add: ev.basic)

lemma ev_mesh_parts [evolve]:
  "runs (evolves (cj E)) (save_mesh_setting E ms)" "runs (evolves (cj E)) (reply_error E c r)" "runs (evolves (cj E)) (change_work_mode E md)"
  "runs (evolves (cj E)) (mesh_setting_free p)" "runs (evolves (cj E)) (cvt_req_name_to_res_name q)"
  "runs (evolves (cj E)) (update_known_mesh E m r)"
  unfolding update_known_mesh_def save_mesh_setting_def reply_error_def change_work_mode_def
  by (intro ev.rules evolve evolves_pure [OF pure_frees(3)] evolves_pure [OF pure_messages(4)])+

lemma ev_mesh_handlers [evolve]:
  "runs (evolves (cj E)) (create_mesh n E json)" "runs (evolves (cj E)) (request_mesh E json)" "runs (evolves (cj E)) (update_mesh E json)"
  "runs (evolves (cj E)) (delete_mesh n E json)" "runs (evolves (cj E)) (request_activate_agent_device n E json)"
  "runs (evolves (cj E)) (request_inactivate_agent_device n E json)" "runs (evolves (cj E)) (request_mesh_devices E json)"
  "runs (evolves (cj E)) (request_pair_mesh_devices rounds E json)"
  "runs (evolves (cj E)) (request_devices_available_for_pairing found E json)"
  "runs (evolves (cj E)) (update_mesh_devices E json)" "runs (evolves (cj E)) (delete_mesh_devices rounds E json)"
  "runs (evolves (cj E)) (request_mesh_quality E json)"
  unfolding create_mesh_def request_mesh_def update_mesh_def delete_mesh_def request_activate_agent_device_def
    request_inactivate_agent_device_def request_mesh_devices_def request_pair_mesh_devices_def
    request_devices_available_for_pairing_def update_mesh_devices_def delete_mesh_devices_def
    request_mesh_quality_def cvt_msg_request_to_msg_respond_def
  by (intro ev.rules evolve ev_wait)+

section \<open>The waiting loops\<close>

definition never_faults :: "('j, c_int) wio \<Rightarrow> bool" where
  "never_faults check \<longleftrightarrow> (\<forall>s. \<exists>f s'. check s = (Inr f, s'))"

definition reports :: "('j, c_int) wio \<Rightarrow> bool" where
  "reports check \<longleftrightarrow> (\<exists>t f t'. check t = (Inr f, t') \<and> f \<noteq> 0)"

text \<open>The firings of one round: they return, and a timeout among them is seen.\<close>

lemma round_returns:
  assumes "never_faults check"
  shows "\<exists>flag timeout s'. io_fold (fire check) st fs s = (Inr (flag, timeout), s') \<and>
    (timeout \<longleftrightarrow> snd st \<or> TimeoutFires \<in> set fs) \<and> (flag \<noteq> 0 \<longrightarrow> fst st \<noteq> 0 \<or> reports check)"
proof (induction fs arbitrary: st s)
  case Nil
  then show ?case by (cases st) (simp add: io_ret_app)
next
  case (Cons f fs)
  obtain flag timeout where st: "st = (flag, timeout)" by fastforce
  show ?case
  proof (cases f)
    case PollFires
    obtain g t where g: "check s = (Inr g, t)" using assms unfolding never_faults_def by blast
    have r: "g \<noteq> 0 \<longrightarrow> reports check" using g unfolding reports_def by blast
    show ?thesis using Cons.IH [of "(g, timeout)" t] r g
      by (auto simp: st PollFires io_bind_app io_ret_app)
  next
    case TimeoutFires
    show ?thesis using Cons.IH [of "(flag, True)" s]
      by (auto simp: st TimeoutFires io_bind_app io_ret_app timeout_check_def)
  qed
qed

lemma wait_done:
  "flag \<noteq> 0 \<or> timeout \<Longrightarrow> wait_checked check (flag, timeout) rounds s = (Inr timeout, s)"
  by (auto simp: wait_checked.simps io_ret_app)

text \<open>
  The loop ends within the round in which the timeout fires, whatever comes after it; it ends
  without a timeout only because the check reported.
\<close>

lemma wait_returns:
  assumes "never_faults check" "k < length rounds" "TimeoutFires \<in> set (rounds ! k)"
    "flag \<noteq> 0 \<longrightarrow> reports check"
  shows "\<exists>b s'. (\<forall>rest. wait_checked check (flag, timeout) (take (Suc k) rounds @ rest) s = (Inr b, s')) \<and>
    (b \<or> reports check)"
  using assms(2-4)
proof (induction k arbitrary: rounds flag timeout s)
  case 0
  then obtain fs rs where rounds: "rounds = fs # rs" by (cases rounds) auto
  show ?case
  proof (cases "flag = 0 \<and> \<not> timeout")
    case True
    let ?s = "s\<lparr>w_trace := w_trace s @ [Usleep (10 * 1000)]\<rparr>"
    obtain g t s' where r: "io_fold (fire check) (flag, timeout) fs ?s = (Inr (g, t), s')" "t"
      using round_returns [OF assms(1), of "(flag, timeout)" fs ?s] 0(2) rounds by auto
    have "wait_checked check (flag, timeout) (fs # rest) s = (Inr t, s')" for rest
      using True r by (subst wait_checked.simps)
        (simp add: io_then_app io_bind_app usleep_app wait_done)
    then show ?thesis using r(2) rounds by auto
  next
    case False
    then have "\<forall>rest. wait_checked check (flag, timeout) (take (Suc 0) rounds @ rest) s = (Inr timeout, s)"
      by (auto simp: wait_done)
    then show ?thesis using False 0(3) by blast
  qed
next
  case (Suc k)
  then obtain fs rs where rounds: "rounds = fs # rs" "k < length rs" "TimeoutFires \<in> set (rs ! k)" by (cases rounds) auto
  show ?case
  proof (cases "flag = 0 \<and> \<not> timeout")
    case True
    let ?s = "s\<lparr>w_trace := w_trace s @ [Usleep (10 * 1000)]\<rparr>"
    obtain g t s' where r: "io_fold (fire check) (flag, timeout) fs ?s = (Inr (g, t), s')"
      "g \<noteq> 0 \<longrightarrow> reports check"
      using round_returns [OF assms(1), of "(flag, timeout)" fs ?s] True by auto
    obtain b s'' where "\<forall>rest. wait_checked check (g, t) (take (Suc k) rs @ rest) s' = (Inr b, s'')" "b \<or> reports check"
      using Suc.IH [OF rounds(2,3) r(2), of t s'] by blast
    moreover have "wait_checked check (flag, timeout) (fs # rest) s = wait_checked check (g, t) rest s'" for rest
      using True r(1) by (subst wait_checked.simps) (simp add: io_then_app io_bind_app usleep_app)
    ultimately show ?thesis unfolding rounds(1) by auto
  next
    case False
    then have "\<forall>rest. wait_checked check (flag, timeout) (take (Suc (Suc k)) rounds @ rest) s = (Inr timeout, s)"
      by (auto simp: wait_done)
    then show ?thesis using False Suc.prems(3) by blast
  qed
qed

section \<open>Saving the settings\<close>

lemma save_mesh_setting_ok:
  assumes "cjson_ok (cj E)" "mesh_stored E s m" "\<forall>p. mesh_setting_file (get_config E) = Some p \<longrightarrow> writable E p"
  shows "\<exists>t. save_mesh_setting E m' s = (Inr (), t) \<and> mesh_stored E t m' \<and> w_trace t = w_trace s"
proof -
  obtain p d where p: "\<not> w_lock s" "mesh_setting_file (get_config E) = Some p" "w_files s p = Some d"
    using assms(2) by (auto simp: mesh_stored_def)
  obtain j where j: "cvt_mesh_setting_to_json (cj E) (Some m') = Some j"
    using IsObject_Some [OF mesh_setting_json(1) [OF assms(1), of m']] by blast
  obtain str where str: "cJSON_Print (cj E) (Some j) = Some str" "cJSON_Parse (cj E) (Some str) = Some j"
    by (rule Print_Some [OF assms(1)])
  have "save_mesh_setting E m' s = (Inr (), s\<lparr>w_files := (w_files s)(p := Some str)\<rparr>)"
    using p assms(3) by (simp add: save_mesh_setting_def j str io_simps)
  moreover have "mesh_stored E (s\<lparr>w_files := (w_files s)(p := Some str)\<rparr>) m'"
    using p str mesh_setting_json(2) [OF assms(1), of m'] by (simp add: mesh_stored_def j)
  ultimately show ?thesis by auto
qed

lemma change_work_mode_ok:
  assumes "cjson_ok (cj E)" "mesh_stored E s m" "\<forall>p. mesh_setting_file (get_config E) = Some p \<longrightarrow> writable E p"
  shows "\<exists>t. change_work_mode E md s = (Inr (), t) \<and> mesh_stored E t (m\<lparr>ms_work_mode := Some md\<rparr>) \<and>
    w_trace t = w_trace s"
  using save_mesh_setting_ok [OF assms] read_mesh_setting_stored [OF assms(2)]
  by (simp add: change_work_mode_def io_bind_app)

lemma work_mode_stored:
  assumes "mesh_stored E t m" "mesh_wifi_ok m"
  shows "ms_work_mode m = Some ''agent'' \<Longrightarrow> get_work_mode E t = (Inr AGENT_MODE, t)"
    "ms_work_mode m = Some ''standalone'' \<Longrightarrow> get_work_mode E t = (Inr STANDALONE_MODE, t)"
    "ms_work_mode m = Some ''controller'' \<Longrightarrow> get_work_mode E t = (Inr CONTROLLER_MODE, t)"
  using assms
  by (simp_all add: get_work_mode_def io_bind_app read_mesh_setting_stored [OF assms(1)] io_simps mesh_setting_free_app)


section \<open>Properties\<close>

text \<open>The daemon's answers to the topology command are read without a fault.\<close>

definition topology_readable :: "'j env \<Rightarrow> bool" where
  "topology_readable E \<longleftrightarrow> (\<forall>flags h. \<exists>r. topology_handler flags (emt_recv E h ''td s2\<newline>'') = Inr r)"

lemma emt_topology_readable:
  assumes "topology_readable E"
  shows "\<exists>ds s'. emt_topology E TOPOLOGY_S2 None s = (Inr ds, s')"
proof -
  obtain fl ds where "topology_handler (w_topo_flags s) (emt_recv E (w_trace s) ''td s2\<newline>'') = Inr (fl, ds)"
    using assms unfolding topology_readable_def by (metis surj_pair)
  then show ?thesis
    by (simp add: emt_topology_def io_bind_app topology_command emt_send_cmd_def io_simps)
qed

lemma checks_never_fault:
  assumes "topology_readable E"
  shows "never_faults (add_device_check E m)" "never_faults (remove_device_check E m)"
proof -
  have "never_faults (io_bind (emt_topology E TOPOLOGY_S2 None) (\<lambda>ds. io_ret (f ds)))" for f
    unfolding never_faults_def
  proof
    fix s
    obtain ds s' where "emt_topology E TOPOLOGY_S2 None s = (Inr ds, s')"
      using emt_topology_readable [OF assms] by blast
    then show "\<exists>g s'. io_bind (emt_topology E TOPOLOGY_S2 None) (\<lambda>ds. io_ret (f ds)) s = (Inr g, s')"
      by (simp add: io_bind_app io_ret_app)
  qed
  then show "never_faults (add_device_check E m)" "never_faults (remove_device_check E m)"
    by (simp_all add: add_device_check_def remove_device_check_def)
qed

lemma wait_rounds:
  assumes "never_faults check" "k < length rounds" "TimeoutFires \<in> set (rounds ! k)"
  shows "wait_checked check (0, False) (take (Suc k) rounds @ rest) =
    wait_checked check (0, False) (take (Suc k) rounds)"
proof
  fix s
  obtain b s' where w: "wait_checked check (0, False) (take (Suc k) rounds @ r) s = (Inr b, s')" for r
    using wait_returns [OF assms, of 0 False s] by auto
  show "wait_checked check (0, False) (take (Suc k) rounds @ rest) s =
      wait_checked check (0, False) (take (Suc k) rounds) s"
    using w [of rest] w [of "[]"] by simp
qed

text \<open>
  C17: the waiting loops end. When the answers of the daemon can be read and the timeout fires in
  round k, the loops of pairing and of removal return by the end of that round, with the timeout or
  because the check reported a device more or less, whatever happened before it; and the two handlers
  do the same whatever would come in later rounds.
\<close>

theorem pairing_wait_ends:
  assumes "topology_readable E" "k < length rounds" "TimeoutFires \<in> set (rounds ! k)"
    "check = add_device_check E m \<or> check = remove_device_check E m"
  shows "(\<exists>b s'. wait_checked check (0, False) (take (Suc k) rounds) s = (Inr b, s') \<and> (b \<or> reports check)) \<and>
    request_pair_mesh_devices (take (Suc k) rounds @ rest) E json =
      request_pair_mesh_devices (take (Suc k) rounds) E json \<and>
    delete_mesh_devices (take (Suc k) rounds @ rest) E json = delete_mesh_devices (take (Suc k) rounds) E json"
proof -
  note nf = checks_never_fault [OF assms(1)]
  have "never_faults check" using assms(4) nf by auto
  from wait_returns [OF this assms(2,3), of 0 False s]
  obtain b s' where "\<forall>rest. wait_checked check (0, False) (take (Suc k) rounds @ rest) s = (Inr b, s')"
    "b \<or> reports check" by auto
  then have "\<exists>b s'. wait_checked check (0, False) (take (Suc k) rounds) s = (Inr b, s') \<and> (b \<or> reports check)"
    by (metis append_Nil2)
  then show ?thesis
    unfolding request_pair_mesh_devices_def delete_mesh_devices_def wait_rounds [OF nf(1) assms(2,3)]
      wait_rounds [OF nf(2) assms(2,3)] by blast
qed

theorem pairing_wait_ends_witness:
  "\<exists>b s'. wait_checked (add_device_check quiet_env 3) (0, False) [[PollFires], [TimeoutFires]] empty_world =
     (Inr b, s')"
proof -
  have "topology_readable quiet_env"
    by (simp add: topology_readable_def quiet_env_def topology_handler_def topology_loop.simps
        topology_step_def)
  from pairing_wait_ends [OF this, of 1 "[[PollFires], [TimeoutFires]]" "add_device_check quiet_env 3" 3 empty_world
      "[]" None]
  show ?thesis by auto
qed

text \<open>
  C18: changing the work mode from the network. With stored settings whose wireless part is complete,
  the requests that activate and inactivate an agent store the settings with the new mode, in which
  the device finds itself from then on, run the mode, and end in the release of a string constant.
\<close>

theorem work_mode_changes:
  assumes "cjson_ok (cj E)" "mesh_stored E s m" "mesh_wifi_ok m"
    "\<forall>p. mesh_setting_file (get_config E) = Some p \<longrightarrow> writable E p"
  shows "(\<exists>t. mesh_stored E t (m\<lparr>ms_work_mode := Some ''agent''\<rparr>) \<and> w_trace t = w_trace s \<and>
      get_work_mode E t = (Inr AGENT_MODE, t) \<and>
      request_activate_agent_device n E json s =
        (case run_agent_mode n E t of (Inl f, u) \<Rightarrow> (Inl f, u) | (Inr _, u) \<Rightarrow> (Inl InvalidFree, u))) \<and>
    (\<exists>t. mesh_stored E t (m\<lparr>ms_work_mode := Some ''standalone''\<rparr>) \<and> w_trace t = w_trace s \<and>
      get_work_mode E t = (Inr STANDALONE_MODE, t) \<and>
      request_inactivate_agent_device n E json s =
        (case run_standalone_mode n E t of (Inl f, u) \<Rightarrow> (Inl f, u) | (Inr _, u) \<Rightarrow> (Inl InvalidFree, u)))"
proof -
  have wifi: "mesh_wifi_ok (m\<lparr>ms_work_mode := Some md\<rparr>)" for md using assms(3) by (simp add: mesh_wifi_ok_def)
  obtain t where t: "change_work_mode E ''agent'' s = (Inr (), t)"
    "mesh_stored E t (m\<lparr>ms_work_mode := Some ''agent''\<rparr>)" "w_trace t = w_trace s"
    using change_work_mode_ok [OF assms(1,2,4)] by blast
  obtain u where u: "change_work_mode E ''standalone'' s = (Inr (), u)"
    "mesh_stored E u (m\<lparr>ms_work_mode := Some ''standalone''\<rparr>)" "w_trace u = w_trace s"
    using change_work_mode_ok [OF assms(1,2,4)] by blast
  show ?thesis
    by (rule conjI; rule exI [of _ t] exI [of _ u])
      (use t u work_mode_stored [OF t(2) wifi] work_mode_stored [OF u(2) wifi] in
        \<open>auto simp: request_activate_agent_device_def request_inactivate_agent_device_def io_then_app io_simps
          split: prod.splits sum.splits\<close>)
qed

theorem work_mode_changes_witness:
  "\<exists>t. mesh_stored quiet_env t (demo_mesh ''agent'') \<and> get_work_mode quiet_env t = (Inr AGENT_MODE, t) \<and>
    fst (request_activate_agent_device 1 quiet_env None (mesh_world (demo_mesh ''standalone''))) \<noteq> Inr ()"
proof -
  have "mesh_wifi_ok (demo_mesh ''standalone'')" "(demo_mesh ''standalone'')\<lparr>ms_work_mode := Some ''agent''\<rparr> = demo_mesh ''agent''"
    by (simp_all add: demo_mesh_def mesh_wifi_ok_def)
  with work_mode_changes [OF _ mesh_world_stored [of "demo_mesh ''standalone''"], of 1 None]
  obtain t where "mesh_stored quiet_env t (demo_mesh ''agent'')" "get_work_mode quiet_env t = (Inr AGENT_MODE, t)"
    "request_activate_agent_device 1 quiet_env None (mesh_world (demo_mesh ''standalone'')) =
      (case run_agent_mode 1 quiet_env t of (Inl f, u) \<Rightarrow> (Inl f, u) | (Inr _, u) \<Rightarrow> (Inl InvalidFree, u))"
    by (auto simp: tree_ok)
  then show ?thesis by (auto split: prod.split sum.split)
qed

end
