(* ===== verification/CQueue.thy ===== *)
theory CQueue
  imports Prelude
begin

text \<open>
  \<open>src/utils/queue\<close>: the ring buffer of fixed-size records, over its bytes and with its 16-bit
  indices. The abstract contents of a queue are a list of records (oldest first for FIFO, newest
  first for LIFO); every operation is proved to act on that list as its documentation says, and
  the locale \<open>record_queue\<close> states the part of the contract its clients use.
\<close>

section \<open>queue.h: the queue structure\<close>

datatype QueueType = FIFO | LIFO | OtherType c_int

definition QUEUE_INITIALIZED :: "16 word" where
  "QUEUE_INITIALIZED = 0x5AA5"

record Queue_t =
  impl :: QueueType
  ovw :: bool
  rec_nb :: "16 word"
  rec_sz :: "16 word"
  queue_sz :: "32 word"
  queue :: "byte list option"
  q_in :: "16 word"
  q_out :: "16 word"
  cnt :: "16 word"
  init :: "16 word"

definition q_isInitialized :: "Queue_t \<Rightarrow> bool" where
  "q_isInitialized q = (if init q = QUEUE_INITIALIZED then True else False)"

definition q_isEmpty :: "Queue_t \<Rightarrow> bool" where
  "q_isEmpty q = (if cnt q = 0 then True else False)"

definition q_isFull :: "Queue_t \<Rightarrow> bool" where
  "q_isFull q = (if cnt q = rec_nb q then True else False)"

definition q_sizeof :: "Queue_t \<Rightarrow> 32 word" where
  "q_sizeof q = queue_sz q"

definition q_getCount :: "Queue_t \<Rightarrow> 16 word" where
  "q_getCount q = cnt q"

definition q_getRemainingCount :: "Queue_t \<Rightarrow> 16 word" where
  "q_getRemainingCount q = rec_nb q - cnt q"

section \<open>queue.c\<close>

text \<open>The comparison with \<open>end - 1\<close> is made at the width of \<open>int\<close>.\<close>

definition inc_idx :: "16 word \<Rightarrow> 16 word \<Rightarrow> 16 word \<Rightarrow> 16 word" where
  "inc_idx pIdx endv start = (if uint pIdx < uint endv - 1 then pIdx + 1 else start)"

definition dec_idx :: "16 word \<Rightarrow> 16 word \<Rightarrow> 16 word \<Rightarrow> 16 word" where
  "dec_idx pIdx endv start = (if pIdx > start then pIdx - 1 else endv - 1)"

definition q_flush :: "Queue_t \<Rightarrow> Queue_t" where
  "q_flush q = q\<lparr>q_in := 0, q_out := 0, cnt := 0\<rparr>"

definition q_kill :: "Queue_t \<Rightarrow> Queue_t" where
  "q_kill q = (if init q = QUEUE_INITIALIZED then q else q)\<lparr>init := 0\<rparr>"

text \<open>\<open>malloc n\<close> is the fresh block of \<open>n\<close> bytes, or NULL.\<close>

definition q_init ::
  "(nat \<Rightarrow> byte list option) \<Rightarrow> Queue_t \<Rightarrow> 16 word \<Rightarrow> 16 word \<Rightarrow> QueueType \<Rightarrow> bool
   \<Rightarrow> byte list option \<times> Queue_t" where
  "q_init malloc q size_rec nb_recs type overwrite =
     (let sz = (ucast nb_recs * ucast size_rec :: 32 word);
          q = q\<lparr>rec_nb := nb_recs, rec_sz := size_rec, impl := type, ovw := overwrite\<rparr>;
          q = q_kill q;
          q = q\<lparr>queue := malloc (unat sz)\<rparr>
      in case queue q of
           None \<Rightarrow> (None, q\<lparr>queue_sz := 0\<rparr>)
         | Some _ \<Rightarrow>
             (let q = q_flush (q\<lparr>queue_sz := sz, init := QUEUE_INITIALIZED\<rparr>)
              in (queue q, q)))"

text \<open>The byte offset of a record, and the two \<open>memcpy\<close> calls.\<close>

definition rec_off :: "Queue_t \<Rightarrow> 16 word \<Rightarrow> nat" where
  "rec_off q i = unat (rec_sz q) * unat i"

definition write_rec :: "Queue_t \<Rightarrow> nat \<Rightarrow> byte list \<Rightarrow> fault + Queue_t" where
  "write_rec q off r =
     (case queue q of
        None \<Rightarrow> Inl NullDeref
      | Some mem \<Rightarrow>
          (let n = unat (rec_sz q)
           in if off + n \<le> length mem \<and> n \<le> length r
              then Inr (q\<lparr>queue := Some (take off mem @ take n r @ drop (off + n) mem)\<rparr>)
              else Inl OutOfBounds))"

definition read_rec :: "Queue_t \<Rightarrow> nat \<Rightarrow> fault + byte list" where
  "read_rec q off =
     (case queue q of
        None \<Rightarrow> Inl NullDeref
      | Some mem \<Rightarrow>
          (let n = unat (rec_sz q)
           in if off + n \<le> length mem then Inr (take n (drop off mem)) else Inl OutOfBounds))"

definition q_push :: "Queue_t \<Rightarrow> byte list \<Rightarrow> fault + (bool \<times> Queue_t)" where
  "q_push q r =
     (if \<not> ovw q \<and> q_isFull q then Inr (False, q)
      else case write_rec q (rec_off q (q_in q)) r of
        Inl f \<Rightarrow> Inl f
      | Inr q \<Rightarrow>
          (let q = q\<lparr>q_in := inc_idx (q_in q) (rec_nb q) 0\<rparr>;
               q = (if \<not> q_isFull q then q\<lparr>cnt := cnt q + 1\<rparr>
                    else if ovw q
                    then (if impl q = FIFO then q\<lparr>q_out := inc_idx (q_out q) (rec_nb q) 0\<rparr> else q)
                    else q)
           in Inr (True, q)))"

text \<open>A failing read returns false and leaves the caller's record untouched (\<open>None\<close>).\<close>

definition q_pop :: "Queue_t \<Rightarrow> fault + (byte list option \<times> Queue_t)" where
  "q_pop q =
     (if q_isEmpty q then Inr (None, q)
      else case impl q of
        FIFO \<Rightarrow>
          (let pStart = rec_off q (q_out q);
               q = q\<lparr>q_out := inc_idx (q_out q) (rec_nb q) 0\<rparr>
           in map_sum id (\<lambda>r. (Some r, q\<lparr>cnt := cnt q - 1\<rparr>)) (read_rec q pStart))
      | LIFO \<Rightarrow>
          (let q = q\<lparr>q_in := dec_idx (q_in q) (rec_nb q) 0\<rparr>;
               pStart = rec_off q (q_in q)
           in map_sum id (\<lambda>r. (Some r, q\<lparr>cnt := cnt q - 1\<rparr>)) (read_rec q pStart))
      | OtherType _ \<Rightarrow> Inr (None, q))"

definition q_peek :: "Queue_t \<Rightarrow> fault + byte list option" where
  "q_peek q =
     (if q_isEmpty q then Inr None
      else case impl q of
        FIFO \<Rightarrow> map_sum id Some (read_rec q (rec_off q (q_out q)))
      | LIFO \<Rightarrow>
          (let rec = dec_idx (q_in q) (rec_nb q) 0
           in map_sum id Some (read_rec q (rec_off q rec)))
      | OtherType _ \<Rightarrow> Inr None)"

definition q_drop :: "Queue_t \<Rightarrow> bool \<times> Queue_t" where
  "q_drop q =
     (if q_isEmpty q then (False, q)
      else case impl q of
        FIFO \<Rightarrow> (let q = q\<lparr>q_out := inc_idx (q_out q) (rec_nb q) 0\<rparr> in (True, q\<lparr>cnt := cnt q - 1\<rparr>))
      | LIFO \<Rightarrow> (let q = q\<lparr>q_in := dec_idx (q_in q) (rec_nb q) 0\<rparr> in (True, q\<lparr>cnt := cnt q - 1\<rparr>))
      | OtherType _ \<Rightarrow> (False, q))"

text \<open>\<open>idx + 1\<close> and \<open>out + idx\<close> are computed at the width of \<open>int\<close>; a modulus of 0 traps.\<close>

definition q_peekIdx :: "Queue_t \<Rightarrow> 16 word \<Rightarrow> fault + byte list option" where
  "q_peekIdx q idx =
     (if uint idx + 1 > uint (q_getCount q) then Inr None
      else case impl q of
        FIFO \<Rightarrow>
          map_sum id Some
            (read_rec q (unat (rec_sz q) * ((unat (q_out q) + unat idx) mod unat (rec_nb q))))
      | LIFO \<Rightarrow> map_sum id Some (read_rec q (rec_off q idx))
      | OtherType _ \<Rightarrow> Inr None)"

definition q_peekPrevious :: "Queue_t \<Rightarrow> fault + byte list option" where
  "q_peekPrevious q = (let idx = q_getCount q - 1 in q_peekIdx q idx)"

section \<open>The invariant and the abstract contents\<close>

text \<open>The record in slot \<open>i\<close>.\<close>

definition slot :: "Queue_t \<Rightarrow> nat \<Rightarrow> byte list" where
  "slot q i = (case queue q of None \<Rightarrow> []
     | Some mem \<Rightarrow> take (unat (rec_sz q)) (drop (unat (rec_sz q) * i) mem))"

definition queue_inv :: "Queue_t \<Rightarrow> bool" where
  "queue_inv q \<longleftrightarrow>
     (\<exists>mem. queue q = Some mem \<and> length mem = unat (rec_nb q) * unat (rec_sz q)) \<and>
     0 < unat (rec_nb q) \<and> unat (q_in q) < unat (rec_nb q) \<and> unat (q_out q) < unat (rec_nb q) \<and>
     unat (cnt q) \<le> unat (rec_nb q) \<and>
     (impl q = FIFO \<or> impl q = LIFO) \<and>
     (impl q = FIFO \<longrightarrow> unat (q_in q) = (unat (q_out q) + unat (cnt q)) mod unat (rec_nb q))"

text \<open>The slots that hold the contents: from \<open>out\<close> upwards, or from below \<open>in\<close> downwards.\<close>

definition slot_of :: "Queue_t \<Rightarrow> nat \<Rightarrow> nat" where
  "slot_of q k =
     (if impl q = LIFO then (unat (q_in q) + unat (rec_nb q) - 1 - k) mod unat (rec_nb q)
      else (unat (q_out q) + k) mod unat (rec_nb q))"

definition contents :: "Queue_t \<Rightarrow> byte list list" where
  "contents q = map (\<lambda>k. slot q (slot_of q k)) [0..<unat (cnt q)]"

text \<open>What a push should do to the contents.\<close>

definition push_spec :: "QueueType \<Rightarrow> bool \<Rightarrow> nat \<Rightarrow> 'a \<Rightarrow> 'a list \<Rightarrow> bool \<times> 'a list" where
  "push_spec type overwrite nb r xs =
     (if length xs < nb then (True, if type = LIFO then r # xs else xs @ [r])
      else if overwrite then (True, if type = LIFO then r # butlast xs else tl xs @ [r])
      else (False, xs))"

section \<open>Index arithmetic\<close>

lemma unat_inc_idx:
  assumes "unat i < unat n"
  shows "unat (inc_idx i n 0) = (unat i + 1) mod unat n"
proof (cases "uint i < uint n - 1")
  case True
  then have "int (unat i + 1) < int (unat n)" by simp
  then have lt: "unat i + 1 < unat n" by linarith
  moreover have "unat n < 2 ^ LENGTH(16)" by (rule unsigned_less)
  ultimately have "unat (i + 1) = unat i + 1"
    by (simp add: unat_word_ariths)
  with True lt show ?thesis by (simp add: inc_idx_def)
next
  case False
  then have "\<not> int (unat i) < int (unat n) - 1" by simp
  with assms have "unat i + 1 = unat n" by linarith
  with False show ?thesis by (simp add: inc_idx_def)
qed

lemma unat_dec_idx:
  assumes "unat i < unat n"
  shows "unat (dec_idx i n 0) = (unat i + unat n - 1) mod unat n"
proof (cases "i > 0")
  case True
  then have i: "0 < unat i" by (simp add: unat_gt_0 word_gt_0)
  then have "unat (i - 1) = unat i - 1" by (simp add: unat_minus_one word_gt_0 unat_gt_0)
  moreover have "(unat i + unat n - 1) mod unat n = unat i - 1"
    using assms i mod_Suc_shift [of "unat n" "unat i"] by simp
  ultimately show ?thesis using True by (simp add: dec_idx_def)
next
  case False
  then have i: "i = 0" by (simp add: word_gt_0)
  have "n \<noteq> 0" using assms by auto
  then have "unat (n - 1) = unat n - 1" by (simp add: unat_minus_one)
  with i assms show ?thesis by (simp add: dec_idx_def)
qed

lemma unat_cnt_inc:
  assumes "unat (c :: 16 word) < unat (n :: 16 word)"
  shows "unat (c + 1) = unat c + 1"
proof -
  have "unat n < 2 ^ LENGTH(16)" by (rule unsigned_less)
  with assms show ?thesis by (simp add: unat_word_ariths)
qed

lemma unat_cnt_dec: "c \<noteq> 0 \<Longrightarrow> unat (c - 1 :: 16 word) = unat c - 1"
  by (simp add: unat_minus_one)

section \<open>Slots\<close>

lemma slot_bound:
  assumes "i < (nb::nat)"
  shows "sz * i + sz \<le> nb * sz"
proof -
  have "(i + 1) * sz \<le> nb * sz" using assms by (intro mult_right_mono) auto
  then show ?thesis by (simp add: algebra_simps)
qed

lemma slot_disjoint:
  assumes "i \<noteq> (j::nat)"
  shows "sz * i + sz \<le> sz * j \<or> sz * j + sz \<le> sz * i"
proof (cases "i < j")
  case True
  then have "sz * (i + 1) \<le> sz * j" by (intro mult_le_mono2) auto
  then show ?thesis by (simp add: algebra_simps)
next
  case False
  with assms have "sz * (j + 1) \<le> sz * i" by (intro mult_le_mono2) auto
  then show ?thesis by (simp add: algebra_simps)
qed

lemma block_same:
  "off + n \<le> length mem \<Longrightarrow> length r = n \<Longrightarrow>
   take n (drop off (take off mem @ r @ drop (off + n) mem)) = r"
  by simp

lemma block_other:
  assumes "off + n \<le> length mem" "length r = n" "off' + n \<le> off \<or> off + n \<le> off'"
  shows "take n (drop off' (take off mem @ r @ drop (off + n) mem)) = take n (drop off' mem)"
  using assms(3)
proof
  assume le: "off' + n \<le> off"
  then have "off' + n \<le> length (take off mem)" using assms(1) by simp
  then have "take n (drop off' (take off mem @ r @ drop (off + n) mem)) = take n (drop off' (take off mem))"
    by (simp del: length_take)
  also have "\<dots> = take n (drop off' mem)" using le by (simp add: drop_take)
  finally show ?thesis .
next
  assume "off + n \<le> off'"
  then show ?thesis using assms(1,2) by simp
qed

text \<open>Writing a record stores it in its slot and leaves every other slot as it was.\<close>

lemma write_rec_slot:
  assumes "queue_inv q" "unat i < unat (rec_nb q)" "length r = unat (rec_sz q)"
  obtains q' where "write_rec q (rec_off q i) r = Inr q'"
    "q' = q\<lparr>queue := queue q'\<rparr>"
    "\<exists>mem. queue q' = Some mem \<and> length mem = unat (rec_nb q) * unat (rec_sz q)"
    "slot q' (unat i) = r"
    "\<And>j. j \<noteq> unat i \<Longrightarrow> slot q' j = slot q j"
proof -
  obtain mem where mem: "queue q = Some mem" "length mem = unat (rec_nb q) * unat (rec_sz q)"
    using assms(1) by (auto simp: queue_inv_def)
  let ?n = "unat (rec_sz q)"
  let ?off = "?n * unat i"
  let ?mem = "take ?off mem @ r @ drop (?off + ?n) mem"
  have b: "?off + ?n \<le> length mem" using slot_bound [OF assms(2)] mem(2) by simp
  have w: "write_rec q (rec_off q i) r = Inr (q\<lparr>queue := Some ?mem\<rparr>)"
    using mem b assms(3) by (simp add: write_rec_def rec_off_def Let_def)
  have len: "length ?mem = unat (rec_nb q) * ?n"
    using length_update_block [OF assms(3) b] mem(2) by simp
  have same: "slot (q\<lparr>queue := Some ?mem\<rparr>) (unat i) = r"
    using block_same [OF b assms(3)] by (simp add: slot_def)
  have other: "slot (q\<lparr>queue := Some ?mem\<rparr>) j = slot q j" if "j \<noteq> unat i" for j
    using block_other [OF b assms(3), of "?n * j"] slot_disjoint [of j "unat i" ?n] that mem(1)
    by (simp add: slot_def)
  show ?thesis
    by (rule that [OF w]) (use len same other in auto)
qed

lemma read_rec_slot:
  assumes "queue_inv q" "i < unat (rec_nb q)"
  shows "read_rec q (unat (rec_sz q) * i) = Inr (slot q i)"
proof -
  obtain mem where mem: "queue q = Some mem" "length mem = unat (rec_nb q) * unat (rec_sz q)"
    using assms(1) by (auto simp: queue_inv_def)
  then show ?thesis
    using slot_bound [OF assms(2), of "unat (rec_sz q)"]
    by (simp add: read_rec_def slot_def Let_def)
qed

lemma length_slot:
  assumes "queue_inv q" "i < unat (rec_nb q)"
  shows "length (slot q i) = unat (rec_sz q)"
proof -
  obtain mem where mem: "queue q = Some mem" "length mem = unat (rec_nb q) * unat (rec_sz q)"
    using assms(1) by (auto simp: queue_inv_def)
  then show ?thesis
    using slot_bound [OF assms(2), of "unat (rec_sz q)"] by (simp add: slot_def)
qed

lemma slot_of_lt: "queue_inv q \<Longrightarrow> slot_of q k < unat (rec_nb q)"
  by (auto simp: slot_of_def queue_inv_def)

lemma length_contents [simp]: "length (contents q) = unat (cnt q)"
  by (simp add: contents_def)

lemma contents_sizes: "queue_inv q \<Longrightarrow> r \<in> set (contents q) \<Longrightarrow> length r = unat (rec_sz q)"
  by (auto simp: contents_def length_slot slot_of_lt)

lemma contents_eqI:
  assumes "unat (cnt q') = length xs"
    and "\<And>k. k < length xs \<Longrightarrow> slot q' (slot_of q' k) = xs ! k"
  shows "contents q' = xs"
  using assms by (intro nth_equalityI) (auto simp: contents_def)

lemma contents_nth: "k < unat (cnt q) \<Longrightarrow> contents q ! k = slot q (slot_of q k)"
  by (simp add: contents_def)


section \<open>The operations on the contents\<close>

definition same_shape :: "Queue_t \<Rightarrow> Queue_t \<Rightarrow> bool" where
  "same_shape q q' \<longleftrightarrow> impl q' = impl q \<and> ovw q' = ovw q \<and> rec_nb q' = rec_nb q \<and> rec_sz q' = rec_sz q"

lemma mod_add_neq: "k < c \<Longrightarrow> c < n \<Longrightarrow> ((x::nat) + k) mod n \<noteq> (x + c) mod n"
proof
  assume *: "k < c" "c < n" "(x + k) mod n = (x + c) mod n"
  then have "n dvd (x + c) - (x + k)" by (metis mod_eq_dvd_iff_nat nat_add_left_cancel_le less_imp_le)
  then have "n dvd c - k" by simp
  with * show False by (auto dest: dvd_imp_le)
qed

lemma lifo_shift:
  assumes "i < n" "k < (n::nat)"
  shows "((i + 1) mod n + n - 1 - k) mod n = (if k = 0 then i else (i + n - 1 - (k - 1)) mod n)"
proof (cases "i + 1 = n")
  case True
  then have "((i + 1) mod n + n - 1 - k) mod n = n - 1 - k" using assms by simp
  moreover have "(i + n - 1 - (k - 1)) mod n = n - 1 - k" if "k \<noteq> 0"
  proof -
    have "i + n - 1 - (k - 1) = (n - 1 - k) + n" using that True assms by simp
    then show ?thesis using assms by (metis diff_less_Suc less_imp_diff_less mod_add_self2 mod_less
          Suc_diff_1 bot_nat_0.not_eq_extremum not_less_zero order_less_le_trans less_Suc_eq_le)
  qed
  ultimately show ?thesis using True by auto
next
  case False
  then have "(i + 1) mod n + n - 1 - k = i + n - k" using assms by simp
  moreover have "i + n - 1 - (k - 1) = i + n - k" if "k \<noteq> 0" using that assms by simp
  ultimately show ?thesis using assms by auto
qed

lemma lifo_neq_top: "i < n \<Longrightarrow> m < n - 1 \<Longrightarrow> ((i::nat) + n - 1 - m) mod n \<noteq> i"
proof
  assume *: "i < n" "m < n - 1" "(i + n - 1 - m) mod n = i"
  have "i + n - 1 - m = i + (n - 1 - m)" using * by simp
  then have "(i + (n - 1 - m)) mod n = (i + 0) mod n" using * by simp
  moreover have "(i + 0) mod n \<noteq> (i + (n - 1 - m)) mod n"
    by (rule mod_add_neq) (use * in auto)
  ultimately show False by simp
qed

lemma q_push_FIFO:
  assumes inv: "queue_inv q" and r: "length r = unat (rec_sz q)" and F: "impl q = FIFO"
    and go: "ovw q \<or> cnt q \<noteq> rec_nb q"
  shows "\<exists>q'. q_push q r = Inr (True, q') \<and> queue_inv q' \<and> same_shape q q' \<and>
           contents q' = (if cnt q = rec_nb q then tl (contents q) @ [r] else contents q @ [r])"
proof -
  let ?n = "unat (rec_nb q)" and ?c = "unat (cnt q)" and ?o = "unat (q_out q)" and ?i = "unat (q_in q)"
  have b: "0 < ?n" "?i < ?n" "?o < ?n" "?c \<le> ?n" "?i = (?o + ?c) mod ?n"
    using inv F by (auto simp: queue_inv_def)
  obtain q1 where w: "write_rec q (rec_off q (q_in q)) r = Inr q1"
    and q1: "q1 = q\<lparr>queue := queue q1\<rparr>"
    and mem: "\<exists>mem. queue q1 = Some mem \<and> length mem = ?n * unat (rec_sz q)"
    and same: "slot q1 ?i = r" and other: "\<And>j. j \<noteq> ?i \<Longrightarrow> slot q1 j = slot q j"
    using write_rec_slot [OF inv b(2) r] by blast
  have sel: "impl q1 = impl q" "ovw q1 = ovw q" "rec_nb q1 = rec_nb q" "rec_sz q1 = rec_sz q"
    "q_in q1 = q_in q" "q_out q1 = q_out q" "cnt q1 = cnt q"
    by (subst q1, simp)+
  show ?thesis
  proof (cases "cnt q = rec_nb q")
    case True
    let ?q' = "q1\<lparr>q_in := inc_idx (q_in q) (rec_nb q) 0, q_out := inc_idx (q_out q) (rec_nb q) 0\<rparr>"
    have i: "?i = ?o" using b True by simp
    have run: "q_push q r = Inr (True, ?q')"
      using w go True F sel by (simp add: q_push_def q_isFull_def Let_def)
    have "queue_inv ?q'"
      using mem sel b F True i by (auto simp: queue_inv_def unat_inc_idx)
    moreover have "contents ?q' = tl (contents q) @ [r]"
    proof (rule contents_eqI)
      show "unat (cnt ?q') = length (tl (contents q) @ [r])" using sel True b by simp
      fix k assume "k < length (tl (contents q) @ [r])"
      then have k: "k < ?n" using True b by simp
      have so: "slot_of ?q' k = (?o + (k + 1)) mod ?n"
        using sel b F by (simp add: slot_of_def unat_inc_idx mod_add_left_eq add.assoc)
      have sl: "slot ?q' j = slot q1 j" for j by (simp add: slot_def split: option.split)
      show "slot ?q' (slot_of ?q' k) = (tl (contents q) @ [r]) ! k"
      proof (cases "k = ?n - 1")
        case True': True
        then have "slot_of ?q' k = ?o" using so b by simp
        then show ?thesis using True' i same sl True b by (simp add: nth_append)
      next
        case False
        then have k': "k + 1 < ?n" using k by simp
        have "(?o + 0) mod ?n \<noteq> (?o + (k + 1)) mod ?n" by (rule mod_add_neq) (use k' in auto)
        then have "slot ?q' (slot_of ?q' k) = slot q ((?o + (k + 1)) mod ?n)"
          using so other sl i b by simp
        moreover have "contents q ! (k + 1) = slot q ((?o + (k + 1)) mod ?n)"
          using k' True F by (simp add: contents_nth slot_of_def)
        moreover have "k < ?n - 1" using k' by simp
        ultimately show ?thesis using True by (simp add: nth_append nth_tl)
      qed
    qed
    moreover have "same_shape q ?q'" using sel by (simp add: same_shape_def)
    ultimately show ?thesis using run True by auto
  next
    case False
    then have c: "?c < ?n" using b by (metis le_neq_implies_less word_unat_eq_iff)
    let ?q' = "q1\<lparr>q_in := inc_idx (q_in q) (rec_nb q) 0, cnt := cnt q + 1\<rparr>"
    have run: "q_push q r = Inr (True, ?q')"
      using w False sel by (simp add: q_push_def q_isFull_def Let_def)
    have "queue_inv ?q'"
      using mem sel b F c by (auto simp: queue_inv_def unat_inc_idx unat_cnt_inc [OF c] mod_simps)
    moreover have "contents ?q' = contents q @ [r]"
    proof (rule contents_eqI)
      show "unat (cnt ?q') = length (contents q @ [r])" by (simp add: unat_cnt_inc [OF c])
      fix k assume "k < length (contents q @ [r])"
      then have k: "k < ?c \<or> k = ?c" by auto
      have so: "slot_of ?q' k = (?o + k) mod ?n" using sel F by (simp add: slot_of_def)
      have sl: "slot ?q' j = slot q1 j" for j by (simp add: slot_def split: option.split)
      from k show "slot ?q' (slot_of ?q' k) = (contents q @ [r]) ! k"
      proof
        assume k: "k < ?c"
        then have "(?o + k) mod ?n \<noteq> ?i" using mod_add_neq [OF k c] b by simp
        then show ?thesis using k so sl other F by (simp add: nth_append contents_nth slot_of_def)
      next
        assume "k = ?c"
        then show ?thesis using so sl same b by (simp add: nth_append)
      qed
    qed
    moreover have "same_shape q ?q'" using sel by (simp add: same_shape_def)
    ultimately show ?thesis using run False by auto
  qed
qed

lemma q_push_LIFO:
  assumes inv: "queue_inv q" and r: "length r = unat (rec_sz q)" and L: "impl q = LIFO"
    and go: "ovw q \<or> cnt q \<noteq> rec_nb q"
  shows "\<exists>q'. q_push q r = Inr (True, q') \<and> queue_inv q' \<and> same_shape q q' \<and>
           contents q' = (if cnt q = rec_nb q then r # butlast (contents q) else r # contents q)"
proof -
  let ?n = "unat (rec_nb q)" and ?c = "unat (cnt q)" and ?i = "unat (q_in q)"
  have b: "0 < ?n" "?i < ?n" "unat (q_out q) < ?n" "?c \<le> ?n"
    using inv by (auto simp: queue_inv_def)
  obtain q1 where w: "write_rec q (rec_off q (q_in q)) r = Inr q1"
    and q1: "q1 = q\<lparr>queue := queue q1\<rparr>"
    and mem: "\<exists>mem. queue q1 = Some mem \<and> length mem = ?n * unat (rec_sz q)"
    and same: "slot q1 ?i = r" and other: "\<And>j. j \<noteq> ?i \<Longrightarrow> slot q1 j = slot q j"
    using write_rec_slot [OF inv b(2) r] by blast
  have sel: "impl q1 = impl q" "ovw q1 = ovw q" "rec_nb q1 = rec_nb q" "rec_sz q1 = rec_sz q"
    "q_in q1 = q_in q" "q_out q1 = q_out q" "cnt q1 = cnt q"
    by (subst q1, simp)+
  let ?q' = "q1\<lparr>q_in := inc_idx (q_in q) (rec_nb q) 0,
               cnt := (if cnt q = rec_nb q then cnt q else cnt q + 1)\<rparr>"
  have run: "q_push q r = Inr (True, ?q')"
    using w go L sel by (auto simp: q_push_def q_isFull_def Let_def)
  have c: "?c < ?n" if "cnt q \<noteq> rec_nb q"
    using that b by (metis le_neq_implies_less word_unat_eq_iff)
  have "queue_inv ?q'"
    using mem sel b L c by (auto simp: queue_inv_def unat_inc_idx unat_cnt_inc)
  moreover have "contents ?q' = (if cnt q = rec_nb q then r # butlast (contents q) else r # contents q)"
    (is "_ = ?xs")
  proof (rule contents_eqI)
    show len: "unat (cnt ?q') = length ?xs" using b c by (auto simp: unat_cnt_inc)
    fix k assume "k < length ?xs"
    then have k: "k < ?n" and k': "k = 0 \<or> (k - 1 < ?c \<and> k - 1 < ?n - 1)"
      using b c by (auto split: if_splits)
    have so: "slot_of ?q' k = (if k = 0 then ?i else (?i + ?n - 1 - (k - 1)) mod ?n)"
      using sel L lifo_shift [OF b(2) k] by (simp add: slot_of_def unat_inc_idx b(2))
    have sl: "slot ?q' j = slot q1 j" for j by (simp add: slot_def split: option.split)
    from k' show "slot ?q' (slot_of ?q' k) = ?xs ! k"
    proof
      assume "k = 0"
      then show ?thesis using so sl same by simp
    next
      assume k': "k - 1 < ?c \<and> k - 1 < ?n - 1"
      show ?thesis
      proof (cases k)
        case 0
        then show ?thesis using so sl same by simp
      next
        case (Suc m)
        have "slot ?q' (slot_of ?q' k) = slot q ((?i + ?n - 1 - m) mod ?n)"
          using so sl other lifo_neq_top [OF b(2), of m] k' Suc by simp
        moreover have "contents q ! m = slot q ((?i + ?n - 1 - m) mod ?n)"
          using k' L Suc by (simp add: contents_nth slot_of_def)
        ultimately show ?thesis using Suc k' by (auto simp: nth_butlast)
      qed
    qed
  qed
  moreover have "same_shape q ?q'" using sel by (simp add: same_shape_def)
  ultimately show ?thesis using run by blast
qed

lemma cnt_full_iff: "cnt q = rec_nb q \<longleftrightarrow> unat (cnt q) = unat (rec_nb q)"
  by (simp add: word_unat_eq_iff)

text \<open>The whole of \<open>q_push\<close>, in one statement against \<open>push_spec\<close>.\<close>

lemma q_push_spec:
  assumes inv: "queue_inv q" and r: "length r = unat (rec_sz q)"
  shows "\<exists>ok q'. q_push q r = Inr (ok, q') \<and> queue_inv q' \<and> same_shape q q' \<and>
           (ok, contents q') = push_spec (impl q) (ovw q) (unat (rec_nb q)) r (contents q)"
proof (cases "ovw q \<or> cnt q \<noteq> rec_nb q")
  case True
  have le: "unat (cnt q) \<le> unat (rec_nb q)" using inv by (simp add: queue_inv_def)
  consider "impl q = FIFO" | "impl q = LIFO" using inv by (auto simp: queue_inv_def)
  then show ?thesis
  proof cases
    case 1
    from q_push_FIFO [OF inv r 1 True] obtain q' where
      "q_push q r = Inr (True, q')" "queue_inv q'" "same_shape q q'"
      "contents q' = (if cnt q = rec_nb q then tl (contents q) @ [r] else contents q @ [r])"
      by blast
    with 1 True le show ?thesis by (auto simp: push_spec_def cnt_full_iff)
  next
    case 2
    from q_push_LIFO [OF inv r 2 True] obtain q' where
      "q_push q r = Inr (True, q')" "queue_inv q'" "same_shape q q'"
      "contents q' = (if cnt q = rec_nb q then r # butlast (contents q) else r # contents q)"
      by blast
    with 2 True le show ?thesis by (auto simp: push_spec_def cnt_full_iff)
  qed
next
  case False
  then show ?thesis
    using inv by (auto simp: q_push_def q_isFull_def push_spec_def same_shape_def)
qed

lemma contents_Nil_iff: "contents q = [] \<longleftrightarrow> cnt q = 0"
proof -
  have "contents q = [] \<longleftrightarrow> length (contents q) = 0" by (simp only: length_0_conv)
  also have "\<dots> \<longleftrightarrow> unat (cnt q) = 0" by (simp only: length_contents)
  also have "\<dots> \<longleftrightarrow> cnt q = 0" by (simp only: unat_eq_0)
  finally show ?thesis .
qed

lemma q_pop_empty: "contents q = [] \<Longrightarrow> q_pop q = Inr (None, q)"
  by (simp add: contents_Nil_iff q_pop_def q_isEmpty_def)

text \<open>Removing a record: the state change that \<open>q_pop\<close> and \<open>q_drop\<close> share.\<close>

definition removed :: "Queue_t \<Rightarrow> Queue_t" where
  "removed q =
     (if impl q = FIFO
      then q\<lparr>q_out := inc_idx (q_out q) (rec_nb q) 0, cnt := cnt q - 1\<rparr>
      else q\<lparr>q_in := dec_idx (q_in q) (rec_nb q) 0, cnt := cnt q - 1\<rparr>)"

lemma removed_correct:
  assumes inv: "queue_inv q" and ne: "contents q \<noteq> []"
  shows "queue_inv (removed q) \<and> same_shape q (removed q) \<and> contents (removed q) = tl (contents q)"
proof -
  let ?n = "unat (rec_nb q)" and ?c = "unat (cnt q)" and ?o = "unat (q_out q)" and ?i = "unat (q_in q)"
  have b: "0 < ?n" "?i < ?n" "?o < ?n" "?c \<le> ?n" "impl q = FIFO \<Longrightarrow> ?i = (?o + ?c) mod ?n"
    "impl q = FIFO \<or> impl q = LIFO"
    using inv by (auto simp: queue_inv_def)
  have c: "cnt q \<noteq> 0" "0 < ?c" using ne by (auto simp: contents_Nil_iff unat_gt_0)
  have cd: "unat (cnt q - 1) = ?c - 1" using c by (simp add: unat_cnt_dec)
  have sl: "slot (removed q) j = slot q j" for j
    by (simp add: slot_def removed_def split: option.split)
  have so: "slot_of (removed q) k = slot_of q (k + 1)" if "k < ?c - 1" for k
  proof (cases "impl q = FIFO")
    case True
    then show ?thesis
      using b by (simp add: slot_of_def removed_def unat_inc_idx mod_simps)
  next
    case False
    then have L: "impl q = LIFO" using b by simp
    have kn: "k + 1 < ?n" using that b by simp
    have d: "unat (dec_idx (q_in q) (rec_nb q) 0) = (?i + ?n - 1) mod ?n"
      by (rule unat_dec_idx [OF b(2)])
    have "((?i + ?n - 1) mod ?n + ?n - 1 - k) mod ?n = (?i + ?n - 1 - (k + 1)) mod ?n"
    proof (cases "?i = 0")
      case True
      then have "(?i + ?n - 1) mod ?n + ?n - 1 - k = (?i + ?n - 1 - (k + 1)) + ?n"
        using kn by simp
      then show ?thesis by (simp only: mod_add_self2)
    next
      case False
      then have "(?i + ?n - 1) mod ?n = ?i - 1" using mod_Suc_shift [OF b(1,2)] by simp
      then show ?thesis using False kn by (simp add: algebra_simps)
    qed
    then show ?thesis using L d by (simp add: slot_of_def removed_def)
  qed
  have "contents (removed q) = tl (contents q)"
  proof (rule contents_eqI)
    show "unat (cnt (removed q)) = length (tl (contents q))" by (simp add: removed_def cd)
    fix k assume "k < length (tl (contents q))"
    then have k: "k < ?c - 1" by simp
    then show "slot (removed q) (slot_of (removed q) k) = tl (contents q) ! k"
      using sl so by (simp add: nth_tl contents_nth)
  qed
  moreover have "queue_inv (removed q)"
  proof -
    have "?i = ((?o + 1) mod ?n + (?c - 1)) mod ?n" if "impl q = FIFO"
    proof -
      obtain m where m: "?c = Suc m" using c(2) by (cases ?c) auto
      show ?thesis using b(5) [OF that] by (simp add: m mod_simps)
    qed
    then show ?thesis
      using inv b cd by (auto simp: queue_inv_def removed_def unat_inc_idx unat_dec_idx)
  qed
  moreover have "same_shape q (removed q)" by (simp add: same_shape_def removed_def)
  ultimately show ?thesis by blast
qed

lemma head_slot:
  assumes inv: "queue_inv q" and ne: "contents q \<noteq> []"
  shows "hd (contents q) = slot q (if impl q = FIFO then unat (q_out q) else unat (dec_idx (q_in q) (rec_nb q) 0))"
proof -
  have b: "unat (q_in q) < unat (rec_nb q)" "unat (q_out q) < unat (rec_nb q)" "impl q = FIFO \<or> impl q = LIFO"
    using inv by (auto simp: queue_inv_def)
  have "hd (contents q) = contents q ! 0" using ne by (simp add: hd_conv_nth)
  also have "\<dots> = slot q (slot_of q 0)"
    using ne by (intro contents_nth) (simp add: contents_Nil_iff unat_gt_0)
  also have "slot_of q 0 = (if impl q = FIFO then unat (q_out q) else unat (dec_idx (q_in q) (rec_nb q) 0))"
    using b by (auto simp: slot_of_def unat_dec_idx)
  finally show ?thesis .
qed

lemma q_pop_spec:
  assumes inv: "queue_inv q" and ne: "contents q \<noteq> []"
  shows "q_pop q = Inr (Some (hd (contents q)), removed q)"
proof -
  let ?n = "unat (rec_nb q)"
  have b: "unat (q_in q) < ?n" "unat (q_out q) < ?n" "impl q = FIFO \<or> impl q = LIFO"
    using inv by (auto simp: queue_inv_def)
  have c: "cnt q \<noteq> 0" using ne by (simp add: contents_Nil_iff)
  have rd: "read_rec (q\<lparr>q_out := x, q_in := y\<rparr>) off = read_rec q off" for x y off
    by (simp add: read_rec_def split: option.split)
  have rd1: "read_rec (q\<lparr>q_out := x\<rparr>) off = read_rec q off" for x off
    by (simp add: read_rec_def split: option.split)
  have rd2: "read_rec (q\<lparr>q_in := y\<rparr>) off = read_rec q off" for y off
    by (simp add: read_rec_def split: option.split)
  from b(3) show ?thesis
  proof
    assume "impl q = FIFO"
    then show ?thesis
      using c head_slot [OF inv ne] read_rec_slot [OF inv b(2)]
      by (simp add: q_pop_def q_isEmpty_def Let_def removed_def rec_off_def rd1)
  next
    assume L: "impl q = LIFO"
    have "unat (dec_idx (q_in q) (rec_nb q) 0) < ?n" using b by (simp add: unat_dec_idx)
    then show ?thesis
      using L c head_slot [OF inv ne] read_rec_slot [OF inv, of "unat (dec_idx (q_in q) (rec_nb q) 0)"]
      by (simp add: q_pop_def q_isEmpty_def Let_def removed_def rec_off_def rd2)
  qed
qed

lemma q_peek_spec:
  assumes inv: "queue_inv q"
  shows "q_peek q = Inr (if contents q = [] then None else Some (hd (contents q)))"
proof (cases "contents q = []")
  case True
  then show ?thesis by (simp add: contents_Nil_iff q_peek_def q_isEmpty_def)
next
  case False
  let ?n = "unat (rec_nb q)"
  have b: "unat (q_in q) < ?n" "unat (q_out q) < ?n" "impl q = FIFO \<or> impl q = LIFO"
    using inv by (auto simp: queue_inv_def)
  have c: "cnt q \<noteq> 0" using False by (simp add: contents_Nil_iff)
  have d: "unat (dec_idx (q_in q) (rec_nb q) 0) < ?n" using b by (simp add: unat_dec_idx)
  from b(3) show ?thesis
    using c False head_slot [OF inv False] read_rec_slot [OF inv b(2)] read_rec_slot [OF inv d]
    by (auto simp: q_peek_def q_isEmpty_def Let_def rec_off_def)
qed

lemma q_drop_spec:
  assumes inv: "queue_inv q"
  shows "q_drop q = (if contents q = [] then (False, q) else (True, removed q))"
  using inv
  by (auto simp: q_drop_def contents_Nil_iff q_isEmpty_def removed_def Let_def queue_inv_def)

text \<open>A FIFO record by its index, oldest first.\<close>

lemma q_peekIdx_FIFO:
  assumes inv: "queue_inv q" and F: "impl q = FIFO"
  shows "q_peekIdx q idx =
           Inr (if unat idx < length (contents q) then Some (contents q ! unat idx) else None)"
proof -
  have g: "uint idx + 1 > uint (cnt q) \<longleftrightarrow> \<not> unat idx < unat (cnt q)"
  proof -
    have "uint idx + 1 > uint (cnt q) \<longleftrightarrow> int (unat idx) + 1 > int (unat (cnt q))" by simp
    then show ?thesis by linarith
  qed
  have "(unat (q_out q) + unat idx) mod unat (rec_nb q) < unat (rec_nb q)"
    using inv by (simp add: queue_inv_def)
  from read_rec_slot [OF inv this] show ?thesis
    unfolding q_peekIdx_def q_getCount_def g
    by (auto simp: F contents_nth slot_of_def)
qed

lemma q_init_spec:
  assumes "malloc (unat (ucast nb * ucast sz :: 32 word)) = Some mem"
    and "length mem = unat (ucast nb * ucast sz :: 32 word)" and "nb \<noteq> 0" and "type = FIFO \<or> type = LIFO"
  shows "\<exists>q'. q_init malloc q sz nb type ov = (Some mem, q') \<and> queue_inv q' \<and> contents q' = [] \<and>
           impl q' = type \<and> ovw q' = ov \<and> rec_nb q' = nb \<and> rec_sz q' = sz \<and> q_isInitialized q'"
proof -
  have lt: "unat nb < 2 ^ LENGTH(16)" "unat sz < 2 ^ LENGTH(16)" by (rule unsigned_less)+
  then have t: "take_bit 32 (unat nb) = unat nb" "take_bit 32 (unat sz) = unat sz"
    by (simp_all add: take_bit_nat_eq_self_iff)
  from lt have "unat nb * unat sz < 65536 * 65536"
    by (intro mult_strict_mono) auto
  then have sz: "unat (ucast nb * ucast sz :: 32 word) = unat nb * unat sz"
    by (simp add: unat_word_ariths unsigned_ucast_eq t)
  have "0 < unat nb" using assms(3) by (simp add: unat_gt_0)
  then show ?thesis
    using assms sz
    by (auto simp: q_init_def Let_def q_flush_def q_kill_def queue_inv_def contents_def q_isInitialized_def)
qed

section \<open>The interface of an overwriting first-in-first-out queue\<close>

text \<open>Pushing the records of a list, and popping a number of records.\<close>

fun push_all :: "('q \<Rightarrow> 'r \<Rightarrow> fault + (bool \<times> 'q)) \<Rightarrow> 'q \<Rightarrow> 'r list \<Rightarrow> fault + 'q" where
  "push_all push q [] = Inr q"
| "push_all push q (r # rs) =
     (case push q r of Inl f \<Rightarrow> Inl f | Inr (_, q') \<Rightarrow> push_all push q' rs)"

fun pop_all :: "('q \<Rightarrow> fault + ('r option \<times> 'q)) \<Rightarrow> nat \<Rightarrow> 'q \<Rightarrow> fault + ('r list \<times> 'q)" where
  "pop_all pop 0 q = Inr ([], q)"
| "pop_all pop (Suc n) q =
     (case pop q of
        Inl f \<Rightarrow> Inl f
      | Inr (None, q') \<Rightarrow> Inr ([], q')
      | Inr (Some r, q') \<Rightarrow> map_sum id (\<lambda>(rs, q''). (r # rs, q'')) (pop_all pop n q'))"

text \<open>
  The contract: a push appends, losing the oldest record when the queue holds \<open>cap\<close> records
  already, and a pop removes the oldest record.
\<close>

locale overwriting_fifo =
  fixes push :: "'q \<Rightarrow> 'r \<Rightarrow> fault + (bool \<times> 'q)"
    and pop :: "'q \<Rightarrow> fault + ('r option \<times> 'q)"
    and items :: "'q \<Rightarrow> 'r list"
    and cap :: "'q \<Rightarrow> nat"
    and ok :: "'q \<Rightarrow> bool"
    and fits :: "'q \<Rightarrow> 'r \<Rightarrow> bool"
  assumes push_law: "ok q \<Longrightarrow> fits q r \<Longrightarrow>
      \<exists>q'. push q r = Inr (True, q') \<and> ok q' \<and> cap q' = cap q \<and> fits q' = fits q \<and>
           items q' = drop (Suc (length (items q)) - cap q) (items q @ [r])"
    and pop_empty: "ok q \<Longrightarrow> items q = [] \<Longrightarrow> pop q = Inr (None, q)"
    and pop_law: "ok q \<Longrightarrow> items q \<noteq> [] \<Longrightarrow>
      \<exists>q'. pop q = Inr (Some (hd (items q)), q') \<and> ok q' \<and> cap q' = cap q \<and> fits q' = fits q \<and>
           items q' = tl (items q)"
    and bounded: "ok q \<Longrightarrow> length (items q) \<le> cap q"
    and item_fits: "ok q \<Longrightarrow> x \<in> set (items q) \<Longrightarrow> fits q x"
begin

text \<open>A burst of pushes keeps the newest \<open>cap\<close> records, in order.\<close>

lemma push_all_items:
  assumes "ok q" "\<forall>r \<in> set rs. fits q r"
  shows "\<exists>q'. push_all push q rs = Inr q' \<and> ok q' \<and> cap q' = cap q \<and>
           items q' = drop (length (items q) + length rs - cap q) (items q @ rs)"
  using assms
proof (induction rs arbitrary: q)
  case Nil
  then show ?case using bounded [of q] by simp
next
  case (Cons r rs)
  obtain q1 where q1: "push q r = Inr (True, q1)" "ok q1" "cap q1 = cap q" "fits q1 = fits q"
    "items q1 = drop (Suc (length (items q)) - cap q) (items q @ [r])"
    using push_law [of q r] Cons.prems by auto
  obtain q2 where q2: "push_all push q1 rs = Inr q2" "ok q2" "cap q2 = cap q1"
    "items q2 = drop (length (items q1) + length rs - cap q1) (items q1 @ rs)"
    using Cons.IH [OF q1(2)] Cons.prems q1(4) by auto
  have le: "length (items q) \<le> cap q" using bounded Cons.prems by blast
  have "items q2 = drop (length (items q) + length (r # rs) - cap q) (items q @ r # rs)"
  proof (cases "length (items q) < cap q")
    case True
    then show ?thesis using q1(5) q2(4) q1(3) by simp
  next
    case False
    then have eq: "length (items q) = cap q" using le by simp
    show ?thesis
    proof (cases "items q")
      case Nil
      then show ?thesis using q1(5) q2(4) q1(3) eq by simp
    next
      case (Cons a as)
      then have "items q1 = as @ [r]" using q1(5) eq by (simp add: Suc_diff_le)
      moreover have "cap q = Suc (length as)" using eq Cons by simp
      ultimately show ?thesis using q2(4) q1(3) Cons by simp
    qed
  qed
  then show ?case using q1 q2 by auto
qed

text \<open>Popping returns the oldest records in the order in which they were pushed.\<close>

lemma pop_all_items:
  assumes "ok q" "n \<le> length (items q)"
  shows "\<exists>q'. pop_all pop n q = Inr (take n (items q), q') \<and> ok q' \<and> items q' = drop n (items q)"
  using assms
proof (induction n arbitrary: q)
  case (Suc n)
  then have ne: "items q \<noteq> []" by auto
  obtain q1 where q1: "pop q = Inr (Some (hd (items q)), q1)" "ok q1" "items q1 = tl (items q)"
    using pop_law [OF Suc.prems(1) ne] by blast
  have "n \<le> length (items q1)" using Suc.prems q1(3) by simp
  with Suc.IH [OF q1(2)] obtain q2 where
    "pop_all pop n q1 = Inr (take n (items q1), q2)" "ok q2" "items q2 = drop n (items q1)"
    by blast
  then show ?case using q1 ne by (cases "items q") auto
qed simp

text \<open>Taking the oldest record and putting it back rotates the queue.\<close>

lemma pop_push_rotates:
  assumes "ok q" "items q = x # xs"
  shows "\<exists>q1 q2. pop q = Inr (Some x, q1) \<and> push q1 x = Inr (True, q2) \<and> ok q1 \<and> ok q2 \<and>
           items q1 = xs \<and> items q2 = xs @ [x]"
proof -
  obtain q1 where q1: "pop q = Inr (Some x, q1)" "ok q1" "cap q1 = cap q" "fits q1 = fits q" "items q1 = xs"
    using pop_law [OF assms(1)] assms(2) by auto
  have "fits q1 x" using item_fits [OF assms(1)] assms(2) q1(4) by auto
  then obtain q2 where q2: "push q1 x = Inr (True, q2)" "ok q2"
    "items q2 = drop (Suc (length (items q1)) - cap q1) (items q1 @ [x])"
    using push_law [OF q1(2)] by blast
  have "Suc (length (items q1)) \<le> cap q1" using bounded [OF assms(1)] assms(2) q1 by simp
  then have "items q2 = xs @ [x]" using q2(3) q1(5) by simp
  with q1 q2 show ?thesis by blast
qed

end

text \<open>The program's queue is such a queue when it was created as FIFO with overwriting on.\<close>

definition fifo_ok :: "Queue_t \<Rightarrow> bool" where
  "fifo_ok q \<longleftrightarrow> queue_inv q \<and> impl q = FIFO \<and> ovw q"

definition rec_fits :: "Queue_t \<Rightarrow> byte list \<Rightarrow> bool" where
  "rec_fits q r \<longleftrightarrow> length r = unat (rec_sz q)"

definition capacity :: "Queue_t \<Rightarrow> nat" where
  "capacity q = unat (rec_nb q)"

lemma fifo_push_law:
  assumes "fifo_ok q" "rec_fits q r"
  shows "\<exists>q'. q_push q r = Inr (True, q') \<and> fifo_ok q' \<and> capacity q' = capacity q \<and>
           rec_fits q' = rec_fits q \<and>
           contents q' = drop (Suc (length (contents q)) - capacity q) (contents q @ [r])"
proof -
  have q: "queue_inv q" "impl q = FIFO" "ovw q" "length r = unat (rec_sz q)"
    using assms by (auto simp: fifo_ok_def rec_fits_def)
  have le: "unat (cnt q) \<le> unat (rec_nb q)" "0 < unat (rec_nb q)" using q(1) by (auto simp: queue_inv_def)
  obtain q' where q': "q_push q r = Inr (True, q')" "queue_inv q'" "same_shape q q'"
    "contents q' = (if cnt q = rec_nb q then tl (contents q) @ [r] else contents q @ [r])"
    using q_push_FIFO [OF q(1,4,2)] q(3) by blast
  have "contents q' = drop (Suc (length (contents q)) - capacity q) (contents q @ [r])"
  proof (cases "cnt q = rec_nb q")
    case True
    have len: "length (contents q) = unat (rec_nb q)" using True by simp
    then have "contents q \<noteq> []" using le(2) by (metis length_0_conv less_irrefl)
    then obtain x xs where xs: "contents q = x # xs" by (cases "contents q") auto
    have "contents q' = xs @ [r]" using True q'(4) xs by simp
    moreover have "capacity q = Suc (length xs)" using len xs by (simp add: capacity_def)
    ultimately show ?thesis by (simp add: xs)
  next
    case False
    then have "unat (cnt q) < unat (rec_nb q)" using le(1) by (simp add: cnt_full_iff)
    then show ?thesis using False q'(4) by (simp add: capacity_def)
  qed
  moreover have "fifo_ok q'" "rec_fits q' = rec_fits q" "capacity q' = capacity q"
    using q' q by (auto simp: fifo_ok_def same_shape_def rec_fits_def capacity_def)
  ultimately show ?thesis using q'(1) by blast
qed

lemma fifo_pop_law:
  assumes "fifo_ok q" "contents q \<noteq> []"
  shows "\<exists>q'. q_pop q = Inr (Some (hd (contents q)), q') \<and> fifo_ok q' \<and> capacity q' = capacity q \<and>
           rec_fits q' = rec_fits q \<and> contents q' = tl (contents q)"
  using q_pop_spec [of q] removed_correct [of q] assms
  by (auto simp: fifo_ok_def same_shape_def rec_fits_def capacity_def)

interpretation cq: overwriting_fifo q_push q_pop contents capacity fifo_ok rec_fits
proof unfold_locales
  fix q r x
  show "fifo_ok q \<Longrightarrow> rec_fits q r \<Longrightarrow>
    \<exists>q'. q_push q r = Inr (True, q') \<and> fifo_ok q' \<and> capacity q' = capacity q \<and>
      rec_fits q' = rec_fits q \<and>
      contents q' = drop (Suc (length (contents q)) - capacity q) (contents q @ [r])"
    by (rule fifo_push_law)
  show "fifo_ok q \<Longrightarrow> contents q = [] \<Longrightarrow> q_pop q = Inr (None, q)"
    by (rule q_pop_empty)
  show "fifo_ok q \<Longrightarrow> contents q \<noteq> [] \<Longrightarrow>
    \<exists>q'. q_pop q = Inr (Some (hd (contents q)), q') \<and> fifo_ok q' \<and> capacity q' = capacity q \<and>
      rec_fits q' = rec_fits q \<and> contents q' = tl (contents q)"
    by (rule fifo_pop_law)
  show "fifo_ok q \<Longrightarrow> length (contents q) \<le> capacity q"
    by (simp add: fifo_ok_def queue_inv_def capacity_def)
  show "fifo_ok q \<Longrightarrow> x \<in> set (contents q) \<Longrightarrow> rec_fits q x"
    by (simp add: fifo_ok_def rec_fits_def contents_sizes)
qed

section \<open>Properties\<close>

text \<open>A queue for the witnesses: two records of one byte each, overwriting.\<close>

definition demo_queue :: "QueueType \<Rightarrow> Queue_t" where
  "demo_queue type = snd (q_init (\<lambda>n. Some (replicate n 0))
     \<lparr>impl = FIFO, ovw = False, rec_nb = 0, rec_sz = 0, queue_sz = 0, queue = None, q_in = 0,
      q_out = 0, cnt = 0, init = 0\<rparr> 1 2 type True)"

lemma demo_queue_init:
  assumes "type = FIFO \<or> type = LIFO"
  shows "queue_inv (demo_queue type) \<and> contents (demo_queue type) = [] \<and>
    impl (demo_queue type) = type \<and> ovw (demo_queue type) \<and> rec_nb (demo_queue type) = 2 \<and>
    rec_sz (demo_queue type) = 1"
proof -
  let ?q = "\<lparr>impl = FIFO, ovw = False, rec_nb = 0, rec_sz = 0, queue_sz = 0, queue = None, q_in = 0,
      q_out = 0, cnt = 0, init = 0\<rparr>"
  have two: "replicate 2 (0 :: byte) = [0, 0]" by (simp add: numeral_2_eq_2)
  have "\<exists>q'. q_init (\<lambda>n. Some (replicate n 0)) ?q 1 2 type True = (Some [0, 0], q') \<and>
    queue_inv q' \<and> contents q' = [] \<and> impl q' = type \<and> ovw q' = True \<and> rec_nb q' = 2 \<and>
    rec_sz q' = 1 \<and> q_isInitialized q'"
    using q_init_spec [of "\<lambda>n. Some (replicate n 0)" 2 1 "[0, 0]" type ?q True] assms two
    by simp
  then show ?thesis by (auto simp: demo_queue_def)
qed



text \<open>
  Taking, reading and dropping. On a well-formed queue with records \<open>q_pop\<close> returns the
  head of the contents and leaves the tail, \<open>q_peek\<close> reads the same record and changes
  nothing, \<open>q_drop\<close> removes it without reading; on an empty queue all three report that there
  is nothing and leave the queue as it is.
\<close>

theorem queue_take:
  assumes "queue_inv q"
  shows "\<exists>q'. queue_inv q' \<and> same_shape q q' \<and> contents q' = tl (contents q) \<and>
    q_pop q = Inr (if contents q = [] then None else Some (hd (contents q)), q') \<and>
    q_peek q = Inr (if contents q = [] then None else Some (hd (contents q))) \<and>
    q_drop q = (contents q \<noteq> [], q')"
  using q_pop_spec [OF assms] q_pop_empty [of q] removed_correct [OF assms] q_peek_spec [OF assms]
    q_drop_spec [OF assms] assms
  by (cases "contents q = []") (auto simp: same_shape_def)

theorem queue_take_witness:
  "\<exists>q'. q_pop (demo_queue FIFO) = Inr (None, q') \<and> contents q' = []"
  using queue_take [of "demo_queue FIFO"] demo_queue_init [of FIFO] by auto

text \<open>
  Order and overwriting. From an empty FIFO queue that overwrites, after any number of
  pushes the records that come out are the last ones that fit, oldest first.
\<close>

theorem queue_fifo_order:
  assumes "queue_inv q" "impl q = FIFO" "ovw q" "contents q = []"
    "\<forall>r \<in> set rs. length r = unat (rec_sz q)"
  shows "\<exists>q' q''. push_all q_push q rs = Inr q' \<and>
    pop_all q_pop (length (contents q')) q' = Inr (drop (length rs - unat (rec_nb q)) rs, q'') \<and>
    contents q'' = []"
proof -
  have ok: "fifo_ok q" using assms by (simp add: fifo_ok_def)
  have fit: "\<forall>r \<in> set rs. rec_fits q r" using assms(5) by (simp add: rec_fits_def)
  obtain q' where q': "push_all q_push q rs = Inr q'" "fifo_ok q'"
    "contents q' = drop (length rs - capacity q) rs"
    using cq.push_all_items [OF ok fit] assms(4) by auto
  obtain q'' where "pop_all q_pop (length (contents q')) q' = Inr (contents q', q'')" "contents q'' = []"
    using cq.pop_all_items [OF q'(2), of "length (contents q')"] by auto
  then show ?thesis using q'(1,3) unfolding capacity_def by metis
qed

theorem queue_fifo_order_witness:
  "\<exists>q' q''. push_all q_push (demo_queue FIFO) [[1], [2], [3]] = Inr q' \<and>
    pop_all q_pop (length (contents q')) q' = Inr ([[2], [3]], q'') \<and> contents q'' = []"
  using queue_fifo_order [of "demo_queue FIFO" "[[1], [2], [3]]"] demo_queue_init [of FIFO]
  by simp

end
