(* ===== verification/Dispatch.thy ===== *)
theory Dispatch
  imports MeshHandlers CQueue
begin

text \<open>
  \<open>src/api/message/message_handler.c\<close> and the queues of \<open>src/main.c\<close>: a message from the broker is
  matched against the table of requests, its handler is started in a thread of its own, and the
  handle of the thread is queued. The process is the state the handlers work on, the threads that
  exist, and the queue of their handles. A handler runs as one step: what is interleaved are the
  arrivals of messages, the handlers, and the collection of threads.
\<close>

section \<open>The table of requests\<close>

type_synonym 'j handler = "'j option \<Rightarrow> ('j, unit) wio"

definition message_handler_entry ::
  "nat \<Rightarrow> firing list list \<Rightarrow> device_info_t list option \<Rightarrow> 'j env \<Rightarrow> (string \<times> 'j handler) list" where
  "message_handler_entry n rounds found E =
     [(''mesh.created'', create_mesh n E),
      (''mesh.requested'', request_mesh E),
      (''mesh.updated'', update_mesh E),
      (''mesh.deleted'', delete_mesh n E),
      (''mesh.devices.requested'', request_mesh_devices E),
      (''mesh.devices.pair.requested'', request_pair_mesh_devices rounds E),
      (''mesh.devices.available_for_pairing.requested'', request_devices_available_for_pairing found E),
      (''mesh.devices.updated'', update_mesh_devices E),
      (''mesh.devices.deleted'', delete_mesh_devices rounds E),
      (''mesh.device.agent.activate.requested'', request_activate_agent_device n E),
      (''mesh.device.agent.inactivate.requested'', request_inactivate_agent_device n E),
      (''mesh.quality.requested'', request_mesh_quality E),
      (''network.lan.requested'', request_lan E),
      (''network.lan.created'', create_lan E),
      (''network.wan.requested'', request_wan E),
      (''network.wan.created'', create_wan E),
      (''network.dns_dhcp.requested'', request_dns_dhcp E),
      (''network.dns_dhcp.created'', create_dns_dhcp n E),
      (''network.dhcp4.leases.requested'', request_dhcp4_leases E),
      (''network.static.routes.requested'', request_static_routes E),
      (''network.static.routes.created'', create_static_route E),
      (''network.static.routes.deleted'', delete_static_route E),
      (''network.static.routes.updated'', update_static_routes E),
      (''iptables.dnat.port_forwarding.profiles.requested'', request_dnat_port_forwarding_profiles E),
      (''iptables.dnat.port_forwarding.profiles.updated'', update_dnat_port_forwarding_profiles E),
      (''iptables.dnat.port_forwarding.profiles.created'', create_dnat_port_forwarding_profile E),
      (''iptables.dnat.port_forwarding.profiles.deleted'', delete_dnat_port_forwarding_profile E),
      (''iptables.dnat.dmz.profiles.requested'', request_dnat_dmz E),
      (''iptables.dnat.dmz.profiles.created'', create_dnat_dmz E),
      (''iptables.nova-services.port-profiles.requested'', request_nova_services_port_profiles E),
      (''iptables.nova-services.port-profiles.created'', create_nova_services_port_profiles E)]"

text \<open>The loop over the table stops at the first entry whose name is found in the request's.\<close>

fun find_entry :: "cptr \<Rightarrow> (string \<times> 'h) list \<Rightarrow> (string \<times> 'h) option" where
  "find_entry request_name [] = None"
| "find_entry request_name (e # es) =
     (if app_strstr request_name (Some (fst e)) \<noteq> None then Some e else find_entry request_name es)"

section \<open>The process\<close>

text \<open>
  A thread exists from its creation until it is joined. The handle of a thread is a record of eight
  bytes that the system chooses: an argument of the step that creates one.
\<close>

type_synonym pthread_t = "byte list"

datatype 'j thread_state = Running "'j handler" "'j option" | Finished

record 'j process =
  p_world :: "'j world"
  p_table :: "(pthread_t \<times> 'j thread_state) list"
  thread_queue :: Queue_t

definition in_world :: "('j, 'a) wio \<Rightarrow> ('j process, 'a) io" where
  "in_world m p = (case m (p_world p) of (r, w) \<Rightarrow> (r, p\<lparr>p_world := w\<rparr>))"

definition pthread_create :: "pthread_t \<Rightarrow> 'j handler \<Rightarrow> 'j option \<Rightarrow> ('j process, unit) io" where
  "pthread_create new_thread handler arg =
     io_modify (p_table_update (\<lambda>tab. tab @ [(new_thread, Running handler arg)]))"

text \<open>EBUSY while the thread runs, ESRCH when there is none.\<close>

definition pthread_tryjoin_np :: "pthread_t \<Rightarrow> ('j process, c_int) io" where
  "pthread_tryjoin_np t =
     io_bind (io_get p_table) (\<lambda>tab.
     case map_of tab t of
       None \<Rightarrow> io_ret 3
     | Some (Running h arg) \<Rightarrow> io_ret 16
     | Some Finished \<Rightarrow>
         io_then (io_modify (p_table_update (filter (\<lambda>(u, st). u \<noteq> t)))) (io_ret 0))"

text \<open>The result of the push is dropped.\<close>

definition push_thread :: "pthread_t \<Rightarrow> ('j process, unit) io" where
  "push_thread t =
     io_bind (io_get thread_queue) (\<lambda>q.
     case q_push q t of
       Inl f \<Rightarrow> io_fail f
     | Inr (_, q') \<Rightarrow> io_modify (thread_queue_update (\<lambda>_. q')))"

section \<open>The callback and the collector\<close>

text \<open>
  A request that is not in the table: the name that is converted, and released by the conversion, is
  the string inside the document, which is read again for the response. From there on the
  behaviour is undefined.
\<close>

definition mqtt_on_message_cb_handler ::
  "(string \<times> 'j handler) list \<Rightarrow> 'j env \<Rightarrow> pthread_t \<Rightarrow> cptr \<Rightarrow> ('j process, unit) io" where
  "mqtt_on_message_cb_handler entries E new_thread msg_payload =
     (let msg_json = cJSON_Parse (cj E) msg_payload;
          request_name_json = cJSON_GetObjectItemCaseSensitive (cj E) msg_json ''name''
      in if request_name_json \<noteq> None \<and> cJSON_IsString (cj E) request_name_json
         then (let request_name = cJSON_GetStringValue (cj E) request_name_json
               in case find_entry request_name entries of
                    Some (_, handler) \<Rightarrow>
                      io_then (pthread_create new_thread handler msg_json) (push_thread new_thread)
                  | None \<Rightarrow>
                      in_world
                        (io_bind (error_table_lookup E ERR_REQUEST_INVALID) (\<lambda>error.
                         io_bind (cvt_req_name_to_res_name request_name) (\<lambda>respond_name.
                         io_fail UseAfterFree))))
         else io_ret ())"

definition thread_garbage :: "('j process, unit) io" where
  "thread_garbage =
     io_bind (io_get thread_queue) (\<lambda>q.
     if q_isEmpty q then io_ret ()
     else case q_pop q of
            Inl f \<Rightarrow> io_fail f
          | Inr (None, q') \<Rightarrow> io_fail Uninitialised
          | Inr (Some new_thread, q') \<Rightarrow>
              io_then (io_modify (thread_queue_update (\<lambda>_. q')))
              (io_bind (pthread_tryjoin_np new_thread) (\<lambda>r.
               if r \<noteq> 0 then push_thread new_thread else io_ret ())))"

text \<open>A started thread runs its handler and ends.\<close>

definition finish :: "pthread_t \<Rightarrow> (pthread_t \<times> 'j thread_state) list \<Rightarrow> (pthread_t \<times> 'j thread_state) list" where
  "finish t tab = map (\<lambda>(u, st). (u, if u = t then Finished else st)) tab"

definition run_thread :: "pthread_t \<Rightarrow> ('j process, unit) io" where
  "run_thread t =
     io_bind (io_get p_table) (\<lambda>tab.
     case map_of tab t of
       Some (Running handler arg) \<Rightarrow>
         io_then (in_world (handler arg)) (io_modify (p_table_update (finish t)))
     | _ \<Rightarrow> io_ret ())"

text \<open>The queue as \<open>init\<close> of \<open>main.c\<close> creates it: 1000 handles, overwriting the oldest.\<close>

definition init_thread_queue :: "(nat \<Rightarrow> byte list option) \<Rightarrow> Queue_t \<Rightarrow> Queue_t" where
  "init_thread_queue malloc q = snd (q_init malloc q 8 1000 FIFO True)"

text \<open>
  The steps of the process. A handle that the system gives out is different from those of all
  threads that are not joined. The collector runs only if its timer was started, which the program
  does not do: the call is commented out in \<open>main.c\<close>.
\<close>

inductive step :: "(string \<times> 'j handler) list \<Rightarrow> 'j env \<Rightarrow> bool \<Rightarrow> 'j process \<Rightarrow> 'j process \<Rightarrow> bool"
  for entries E collecting where
    message: "length t = 8 \<Longrightarrow> t \<notin> fst ` set (p_table p) \<Longrightarrow>
      mqtt_on_message_cb_handler entries E t msg_payload p = (Inr (), p') \<Longrightarrow> step entries E collecting p p'"
  | thread: "run_thread t p = (Inr (), p') \<Longrightarrow> step entries E collecting p p'"
  | garbage: "collecting \<Longrightarrow> thread_garbage p = (Inr (), p') \<Longrightarrow> step entries E collecting p p'"

inductive reachable ::
  "(string \<times> 'j handler) list \<Rightarrow> 'j env \<Rightarrow> bool \<Rightarrow> 'j process \<Rightarrow> 'j process \<Rightarrow> bool"
  for entries E collecting p0 where
    start: "reachable entries E collecting p0 p0"
  | step: "reachable entries E collecting p0 p \<Longrightarrow> step entries E collecting p p' \<Longrightarrow>
      reachable entries E collecting p0 p'"

inductive_cases stepE: "step entries E collecting p p'"


section \<open>The search in the table\<close>

lemma find_entry_Some:
  assumes "i < length es" "sublist (fst (es ! i)) name" "\<forall>j<i. \<not> sublist (fst (es ! j)) name"
  shows "find_entry (Some name) es = Some (es ! i)"
  using assms
proof (induction es arbitrary: i)
  case (Cons e es)
  show ?case
  proof (cases i)
    case 0
    then show ?thesis using Cons.prems app_strstr_iff [of name "fst e"] by auto
  next
    case (Suc k)
    moreover have "\<forall>j<k. \<not> sublist (fst (es ! j)) name" using Cons.prems(3) Suc by auto
    moreover have "\<not> sublist (fst e) name" using Cons.prems(3) Suc by (auto dest: spec [of _ 0])
    ultimately show ?thesis using Cons.IH [of k] Cons.prems app_strstr_iff [of name "fst e"] by auto
  qed
qed simp

lemma find_entry_None: "find_entry (Some name) es = None \<longleftrightarrow> (\<forall>e \<in> set es. \<not> sublist (fst e) name)"
  using app_strstr_iff [of name] by (induction es) auto

lemma find_entry_in: "find_entry name es = Some e \<Longrightarrow> e \<in> set es"
  by (induction es) (auto split: if_splits)

definition request_names :: "string list" where
  "request_names =
     [''mesh.created'', ''mesh.requested'', ''mesh.updated'', ''mesh.deleted'', ''mesh.devices.requested'',
      ''mesh.devices.pair.requested'', ''mesh.devices.available_for_pairing.requested'',
      ''mesh.devices.updated'', ''mesh.devices.deleted'', ''mesh.device.agent.activate.requested'',
      ''mesh.device.agent.inactivate.requested'', ''mesh.quality.requested'', ''network.lan.requested'',
      ''network.lan.created'', ''network.wan.requested'', ''network.wan.created'',
      ''network.dns_dhcp.requested'', ''network.dns_dhcp.created'', ''network.dhcp4.leases.requested'',
      ''network.static.routes.requested'', ''network.static.routes.created'',
      ''network.static.routes.deleted'', ''network.static.routes.updated'',
      ''iptables.dnat.port_forwarding.profiles.requested'',
      ''iptables.dnat.port_forwarding.profiles.updated'', ''iptables.dnat.port_forwarding.profiles.created'',
      ''iptables.dnat.port_forwarding.profiles.deleted'', ''iptables.dnat.dmz.profiles.requested'',
      ''iptables.dnat.dmz.profiles.created'', ''iptables.nova-services.port-profiles.requested'',
      ''iptables.nova-services.port-profiles.created'']"

lemma entry_names: "map fst (message_handler_entry n rounds found E) = request_names"
  by (simp add: message_handler_entry_def request_names_def)

text \<open>No name is part of a later one, and no tail of a name behind a dot begins another.\<close>

fun tails :: "string \<Rightarrow> string list" where
  "tails [] = []"
| "tails (c # cs) = (if c = CHR ''.'' then [cs] else []) @ tails cs"

fun apart :: "string list \<Rightarrow> bool" where
  "apart [] = True"
| "apart (t # ts) = (list_all (\<lambda>n. strstr n t = None) ts \<and> apart ts)"

lemma names_apart: "apart request_names"
  by code_simp

lemma names_tails: "list_all (\<lambda>s. list_all (\<lambda>n. \<not> prefix s n) request_names) (concat (map tails request_names))"
  by code_simp


lemma tails_behind: "xs \<noteq> [] \<Longrightarrow> last xs = CHR ''.'' \<Longrightarrow> ys \<in> set (tails (xs @ ys))"
  by (induction xs) (auto split: if_splits)

lemma apart_nth: "apart ts \<Longrightarrow> j < i \<Longrightarrow> i < length ts \<Longrightarrow> \<not> sublist (ts ! j) (ts ! i)"
proof (induction ts arbitrary: i j)
  case (Cons t ts)
  then obtain k where k: "i = Suc k" by (cases i) auto
  show ?case
    using Cons.IH [of "j - 1" k] Cons.prems strstr_None_iff [of "ts ! k" t] unfolding k
    by (cases j) (auto simp: list_all_iff)
qed simp

text \<open>Behind a prefix that ends with a dot, a name is found inside the prefix or inside the rest.\<close>

lemma found_behind_prefix:
  assumes "t \<in> set request_names" "n \<in> set request_names" "p = [] \<or> last p = CHR ''.''"
    "sublist t (p @ n)" "\<not> sublist t p"
  shows "sublist t n"
proof -
  have one: "xs2 = [] \<or> xs1 = []" if "t = xs1 @ xs2" "suffix xs1 p" "prefix xs2 n" for xs1 xs2
  proof (rule ccontr)
    assume "\<not> (xs2 = [] \<or> xs1 = [])"
    then have ne: "xs1 \<noteq> []" "p \<noteq> []" using that(2) by auto
    then have "last xs1 = CHR ''.''" using assms(3) that(2) by (auto simp: suffix_def)
    then have "xs2 \<in> set (tails t)" using tails_behind ne(1) that(1) by blast
    then have "\<not> prefix xs2 n" using names_tails assms(1,2) by (fastforce simp: list_all_iff)
    then show False using that(3) by blast
  qed
  consider "sublist t n" | xs1 xs2 where "t = xs1 @ xs2" "suffix xs1 p" "prefix xs2 n"
    using assms(4,5) unfolding sublist_append by blast
  then show ?thesis
  proof cases
    case 2
    then show ?thesis using one [OF 2] assms(5) by (auto dest: suffix_imp_sublist prefix_imp_sublist)
  qed
qed

lemma find_request:
  assumes "p = [] \<or> last p = CHR ''.''" "\<forall>t \<in> set request_names. \<not> sublist t p" "i < length es"
    "map fst es = request_names"
  shows "find_entry (Some (p @ fst (es ! i))) es = Some (es ! i)"
proof (rule find_entry_Some [OF assms(3)])
  have len: "length request_names = length es" using assms(4) by (metis length_map)
  have nth: "fst (es ! j) = request_names ! j" if "j < length es" for j
    using assms(4) that by (metis nth_map)
  show "sublist (fst (es ! i)) (p @ fst (es ! i))" by (simp add: sublist_append)
  show "\<forall>j<i. \<not> sublist (fst (es ! j)) (p @ fst (es ! i))"
  proof (intro allI impI notI)
    fix j
    assume j: "j < i" "sublist (fst (es ! j)) (p @ fst (es ! i))"
    have names: "request_names ! j \<in> set request_names" "request_names ! i \<in> set request_names"
      using j(1) assms(3) len by simp_all
    have "sublist (request_names ! j) (request_names ! i)"
      using found_behind_prefix [OF names assms(1)] j assms(2,3) names nth by simp
    then show False using apart_nth [OF names_apart j(1)] assms(3) len by simp
  qed
qed

section \<open>The steps\<close>

lemma in_world_app: "in_world m p = (case m (p_world p) of (r, w) \<Rightarrow> (r, p\<lparr>p_world := w\<rparr>))"
  by (simp add: in_world_def)

definition handles_queue :: "Queue_t \<Rightarrow> bool" where
  "handles_queue q \<longleftrightarrow> fifo_ok q \<and> rec_sz q = 8 \<and> rec_nb q = 1000"

lemma unat_rec: "unat (8 :: 16 word) = 8" "unat (1000 :: 16 word) = 1000"
  by simp_all

lemma push_thread_ok:
  assumes "handles_queue (thread_queue p)" "length t = 8"
  shows "\<exists>q'. push_thread t p = (Inr (), p\<lparr>thread_queue := q'\<rparr>) \<and> handles_queue q' \<and>
    contents q' = drop (Suc (length (contents (thread_queue p))) - 1000) (contents (thread_queue p) @ [t])"
proof -
  have "rec_fits (thread_queue p) t" using assms by (simp add: handles_queue_def rec_fits_def)
  then obtain q' where q': "q_push (thread_queue p) t = Inr (True, q')" "fifo_ok q'"
    "capacity q' = capacity (thread_queue p)" "rec_fits q' = rec_fits (thread_queue p)"
    "contents q' = drop (Suc (length (contents (thread_queue p))) - capacity (thread_queue p))
       (contents (thread_queue p) @ [t])"
    using fifo_push_law [of "thread_queue p" t] assms(1) by (auto simp: handles_queue_def)
  have "same_shape (thread_queue p) q'"
    using q_push_spec [of "thread_queue p" t] q'(1) assms by (auto simp: handles_queue_def fifo_ok_def)
  then have "rec_nb q' = 1000" "rec_sz q' = 8" using assms(1) by (simp_all add: same_shape_def handles_queue_def)
  then show ?thesis
    using q' assms(1)
    by (intro exI [of _ q']) (simp add: push_thread_def io_simps handles_queue_def capacity_def)
qed

lemma init_thread_queue_ok:
  assumes "malloc 8000 = Some mem" "length mem = 8000"
  shows "handles_queue (init_thread_queue malloc q) \<and> contents (init_thread_queue malloc q) = []"
  using q_init_spec [of malloc 1000 8 mem FIFO q True] assms
  by (auto simp: init_thread_queue_def handles_queue_def fifo_ok_def)


lemma pthread_create_app:
  "pthread_create t h json p = (Inr (), p\<lparr>p_table := p_table p @ [(t, Running h json)]\<rparr>)"
  by (cases p) (simp add: pthread_create_def io_modify_app)

text \<open>A message that is handled starts one thread, and queues its handle; the others change nothing.\<close>

lemma message_handled:
  assumes "mqtt_on_message_cb_handler entries E t pl p = (Inr (), p')" "handles_queue (thread_queue p)" "length t = 8"
  shows "p' = p \<or> (\<exists>n h json q'. (n, h) \<in> set entries \<and>
    p' = p\<lparr>p_table := p_table p @ [(t, Running h json)], thread_queue := q'\<rparr> \<and> handles_queue q' \<and>
    contents q' = drop (Suc (length (contents (thread_queue p))) - 1000) (contents (thread_queue p) @ [t]))"
proof -
  define json where "json = cJSON_Parse (cj E) pl"
  define nm where "nm = cJSON_GetObjectItemCaseSensitive (cj E) json ''name''"
  show ?thesis
  proof (cases "nm \<noteq> None \<and> cJSON_IsString (cj E) nm")
    case True
    show ?thesis
    proof (cases "find_entry (cJSON_GetStringValue (cj E) nm) entries")
      case None
      then have "fst (mqtt_on_message_cb_handler entries E t pl p) \<noteq> Inr ()"
        using True
        by (auto simp: mqtt_on_message_cb_handler_def json_def nm_def in_world_def io_bind_app io_simps
            split: prod.splits sum.splits)
      then show ?thesis using assms(1) by simp
    next
      case (Some e)
      then obtain n h where e: "e = (n, h)" "(n, h) \<in> set entries" using find_entry_in by (cases e) blast
      let ?p = "p\<lparr>p_table := p_table p @ [(t, Running h json)]\<rparr>"
      obtain q' where q': "push_thread t ?p = (Inr (), ?p\<lparr>thread_queue := q'\<rparr>)" "handles_queue q'"
        "contents q' = drop (Suc (length (contents (thread_queue p))) - 1000) (contents (thread_queue p) @ [t])"
        using push_thread_ok [of ?p t] assms(2,3) by auto
      have "p' = p\<lparr>p_table := p_table p @ [(t, Running h json)], thread_queue := q'\<rparr>"
        using assms(1) True Some q'(1)
        by (simp add: mqtt_on_message_cb_handler_def json_def nm_def e io_then_app pthread_create_app)
      then show ?thesis using e q' by blast
    qed
  next
    case False
    then have "mqtt_on_message_cb_handler entries E t pl p = (Inr (), p)"
      unfolding mqtt_on_message_cb_handler_def json_def [symmetric] nm_def [symmetric] Let_def
      by (simp only: if_False io_ret_app)
    then show ?thesis using assms(1) by simp
  qed
qed

lemma table_finish: "p_table_update (finish t) p = p\<lparr>p_table := finish t (p_table p)\<rparr>"
  by (cases p) simp

lemma run_thread_ran:
  assumes "run_thread t p = (Inr (), p')"
  shows "p' = p \<or> (\<exists>h json w. (t, Running h json) \<in> set (p_table p) \<and> h json (p_world p) = (Inr (), w) \<and>
    p' = p\<lparr>p_world := w, p_table := finish t (p_table p)\<rparr>)"
  using assms
  by (auto simp: run_thread_def io_bind_app io_then_app io_get_app io_ret_app io_modify_app in_world_def
      table_finish dest!: map_of_SomeD split: option.splits thread_state.splits prod.splits sum.splits; blast)

lemma finish_keys [simp]: "map fst (finish t tab) = map fst tab" "length (finish t tab) = length tab"
  by (auto simp: finish_def)

section \<open>The invariant\<close>

text \<open>The process without the collector, from a state of the world on.\<close>

definition process_ok :: "'j cjson_lib \<Rightarrow> (string \<times> 'j handler) list \<Rightarrow> 'j world \<Rightarrow> 'j process \<Rightarrow> bool" where
  "process_ok L entries w0 p \<longleftrightarrow>
     handles_queue (thread_queue p) \<and> distinct (map fst (p_table p)) \<and>
     (\<forall>t h json. (t, Running h json) \<in> set (p_table p) \<longrightarrow> (\<exists>n. (n, h) \<in> set entries)) \<and>
     contents (thread_queue p) = drop (length (p_table p) - 1000) (map fst (p_table p)) \<and>
     evolves L w0 (p_world p)"

definition entries_evolve :: "'j cjson_lib \<Rightarrow> (string \<times> 'j handler) list \<Rightarrow> bool" where
  "entries_evolve L entries \<longleftrightarrow> (\<forall>n h json. (n, h) \<in> set entries \<longrightarrow> runs (evolves L) (h json))"

lemma ev_entries: "entries_evolve (cj E) (message_handler_entry k rounds found E)"
  unfolding entries_evolve_def message_handler_entry_def list.set
  by (intro allI impI, elim insertE emptyE Pair_inject; hypsubst; intro evolve)

lemma window_shift: "drop (Suc (length (drop (n - 1000) xs)) - 1000) (drop (n - 1000) xs @ [x]) =
    drop (Suc n - 1000) (xs @ [x])" if "n = length xs"
proof (cases "n < 1000")
  case False
  then have "Suc (n - 1000) = Suc n - 1000" by arith
  then show ?thesis using False that by simp
qed (use that in simp)

lemma step_process_ok:
  assumes "step entries E False p p'" "process_ok L entries w0 p"
    "entries_evolve L entries"
  shows "process_ok L entries w0 p'"
  using assms(1)
proof (cases rule: step.cases)
  case (message t pl)
  from message_handled [OF message(3) _ message(1)] assms(2) consider "p' = p"
    | n h json q' where "(n, h) \<in> set entries"
      "p' = p\<lparr>p_table := p_table p @ [(t, Running h json)], thread_queue := q'\<rparr>" "handles_queue q'"
      "contents q' = drop (Suc (length (contents (thread_queue p))) - 1000) (contents (thread_queue p) @ [t])"
    unfolding process_ok_def by blast
  then show ?thesis
  proof cases
    case 2
    then have "contents q' = drop (Suc (length (p_table p)) - 1000) (map fst (p_table p) @ [t])"
      using assms(2) window_shift [of "length (p_table p)" "map fst (p_table p)" t] unfolding process_ok_def by simp
    moreover have "\<exists>n'. (n', h') \<in> set entries" if "(u, Running h' j') \<in> set (p_table p')" for u h' j'
      using that 2(1,2) assms(2) unfolding process_ok_def by (auto; blast)
    ultimately show ?thesis using 2(2,3) assms(2) message(2) unfolding process_ok_def by simp
  qed (use assms(2) in simp)
next
  case (thread t)
  from run_thread_ran [OF thread] consider "p' = p"
    | h json w where "(t, Running h json) \<in> set (p_table p)" "h json (p_world p) = (Inr (), w)"
      "p' = p\<lparr>p_world := w, p_table := finish t (p_table p)\<rparr>" by blast
  then show ?thesis
  proof cases
    case 2
    then obtain n where "(n, h) \<in> set entries" using assms(2) unfolding process_ok_def by blast
    then have "evolves L (p_world p) w" 
      using assms(3) runsD [where R = "evolves L" and m = "h json", OF _ 2(2)] unfolding entries_evolve_def by blast
    then have "evolves L w0 w" using assms(2) ev.trans unfolding process_ok_def by blast
    moreover have "\<exists>n'. (n', h') \<in> set entries" if "(u, Running h' j') \<in> set (p_table p')" for u h' j'
    proof -
      have "(u, Running h' j') \<in> set (p_table p)"
        using that 2(3) by (auto simp: finish_def split: if_splits)
      then show ?thesis using assms(2) unfolding process_ok_def by blast
    qed
    ultimately show ?thesis using 2(3) assms(2) unfolding process_ok_def by simp
  qed (use assms(2) in simp)
qed simp_all

lemma reachable_process_ok:
  assumes "reachable entries E False p0 p" "process_ok L entries w0 p0"
    "entries_evolve L entries"
  shows "process_ok L entries w0 p"
  using assms(1)
proof (induction rule: reachable.induct)
  case start
  show ?case by (rule assms(2))
next
  case (step p p')
  show ?case by (rule step_process_ok [OF step.hyps(2) step.IH assms(3)])
qed


lemma init_thread_queue_zero:
  "handles_queue (init_thread_queue (\<lambda>n. Some (replicate n 0)) q) \<and>
   contents (init_thread_queue (\<lambda>n. Some (replicate n 0)) q) = []"
  by (rule init_thread_queue_ok [where malloc = "\<lambda>n. Some (replicate n 0)" and mem = "replicate 8000 0",
        OF refl length_replicate])

section \<open>The collector\<close>

abbreviation ended :: "'j process \<Rightarrow> pthread_t \<Rightarrow> bool" where
  "ended p t \<equiv> map_of (p_table p) t = Some Finished"

lemma map_of_without: "map_of (filter (\<lambda>(u, st). u \<noteq> t) tab) u = (if u = t then None else map_of tab u)"
  by (induction tab) auto

lemma pop_handle:
  assumes "handles_queue q" "contents q = t # ts"
  shows "\<exists>q'. q_pop q = Inr (Some t, q') \<and> handles_queue q' \<and> contents q' = ts"
proof -
  have ok: "queue_inv q" "fifo_ok q" using assms(1) by (simp_all add: handles_queue_def fifo_ok_def)
  obtain q' where q': "q_pop q = Inr (Some t, q')" "fifo_ok q'" "contents q' = ts"
    using fifo_pop_law [OF ok(2)] assms(2) by auto
  moreover have "same_shape q q'"
    using q_pop_spec [OF ok(1)] removed_correct [OF ok(1)] assms(2) q'(1) by auto
  ultimately show ?thesis using assms(1) by (auto simp: handles_queue_def same_shape_def)
qed

lemma garbage_one:
  assumes "handles_queue (thread_queue p)" "contents (thread_queue p) = t # ts"
  shows "\<exists>p'. thread_garbage p = (Inr (), p') \<and> handles_queue (thread_queue p') \<and> p_world p' = p_world p \<and>
    contents (thread_queue p') = ts @ (if ended p t then [] else [t]) \<and>
    p_table p' = (if ended p t then filter (\<lambda>(u, st). u \<noteq> t) (p_table p) else p_table p)"
proof -
  obtain q1 where q1: "q_pop (thread_queue p) = Inr (Some t, q1)" "handles_queue q1" "contents q1 = ts"
    using pop_handle [OF assms] by blast
  have ne: "\<not> q_isEmpty (thread_queue p)"
    using contents_Nil_iff [of "thread_queue p"] assms(2) by (auto simp: q_isEmpty_def)
  let ?p1 = "p\<lparr>thread_queue := q1\<rparr>"
  have "thread_queue_update (\<lambda>_. q1) p = ?p1" by simp
  note run = thread_garbage_def io_bind_app io_then_app io_get_app io_modify_app io_ret_app ne q1(1) pthread_tryjoin_np_def
  show ?thesis
  proof (cases "ended p t")
    case True
    have "thread_garbage p = (Inr (), p_table_update (filter (\<lambda>(u, st). u \<noteq> t)) ?p1)"
      using True by (simp add: run)
    then show ?thesis using True q1 by simp
  next
    case False
    have "length t = 8" using cq.item_fits [of "thread_queue p" t] assms
      by (auto simp: handles_queue_def rec_fits_def)
    moreover have len: "length ts < 1000"
      using cq.bounded [of "thread_queue p"] assms by (simp add: handles_queue_def capacity_def)
    ultimately obtain q2 where q2: "push_thread t ?p1 = (Inr (), p\<lparr>thread_queue := q2\<rparr>)" "handles_queue q2"
      "contents q2 = ts @ [t]"
      using push_thread_ok [of ?p1 t] q1 by auto
    have "thread_garbage p = push_thread t ?p1"
      using False by (auto simp: run split: option.split thread_state.split)
    then show ?thesis using False q2 by auto
  qed
qed

lemma garbage_all:
  assumes "handles_queue (thread_queue p)" "contents (thread_queue p) = xs @ ys" "distinct xs"
  shows "\<exists>p'. io_seq (replicate (length xs) thread_garbage) p = (Inr (), p') \<and>
    handles_queue (thread_queue p') \<and> p_world p' = p_world p \<and>
    contents (thread_queue p') = ys @ filter (\<lambda>t. \<not> ended p t) xs \<and>
    p_table p' = filter (\<lambda>(u, st). \<not> (u \<in> set xs \<and> ended p u)) (p_table p)"
  using assms
proof (induction xs arbitrary: p ys)
  case Nil
  then show ?case by (simp add: io_ret_app)
next
  case (Cons t xs)
  obtain p1 where p1: "thread_garbage p = (Inr (), p1)" "handles_queue (thread_queue p1)" "p_world p1 = p_world p"
    "contents (thread_queue p1) = (xs @ ys) @ (if ended p t then [] else [t])"
    "p_table p1 = (if ended p t then filter (\<lambda>(u, st). u \<noteq> t) (p_table p) else p_table p)"
    using garbage_one [OF Cons.prems(1), of t "xs @ ys"] Cons.prems(2) by auto
  have same: "ended p1 u = ended p u" if "u \<in> set xs" for u
    using Cons.prems(3) that by (auto simp: p1(5) map_of_without)
  obtain p2 where p2: "io_seq (replicate (length xs) thread_garbage) p1 = (Inr (), p2)"
    "handles_queue (thread_queue p2)" "p_world p2 = p_world p1"
    "contents (thread_queue p2) = (ys @ (if ended p t then [] else [t])) @ filter (\<lambda>u. \<not> ended p1 u) xs"
    "p_table p2 = filter (\<lambda>(u, st). \<not> (u \<in> set xs \<and> ended p1 u)) (p_table p1)"
    using Cons.IH [OF p1(2), of "ys @ (if ended p t then [] else [t])"] p1(4) Cons.prems(3) by auto
  have "filter (\<lambda>u. \<not> ended p1 u) xs = filter (\<lambda>u. \<not> ended p u) xs" using same by (intro filter_cong) auto
  moreover have "p_table p2 = filter (\<lambda>(u, st). \<not> (u \<in> set (t # xs) \<and> ended p u)) (p_table p)"
    using same by (auto simp: p2(5) p1(5) intro!: filter_cong)
  ultimately show ?case using p1(1,3) p2 by (intro exI [of _ p2]) (simp add: io_then_app)
qed

section \<open>Serving one message after the other\<close>

text \<open>The reference: no threads and no queue, the handler is called for its message.\<close>

definition serve :: "(string \<times> 'j handler) list \<Rightarrow> 'j env \<Rightarrow> cptr \<Rightarrow> ('j, unit) wio" where
  "serve entries E msg =
     (let msg_json = cJSON_Parse (cj E) msg;
          name_json = cJSON_GetObjectItemCaseSensitive (cj E) msg_json ''name''
      in if name_json \<noteq> None \<and> cJSON_IsString (cj E) name_json
         then (case find_entry (cJSON_GetStringValue (cj E) name_json) entries of
                 Some (_, handler) \<Rightarrow> handler msg_json
               | None \<Rightarrow> io_bind (error_table_lookup E ERR_REQUEST_INVALID) (\<lambda>_.
                         io_bind (cvt_req_name_to_res_name (cJSON_GetStringValue (cj E) name_json)) (\<lambda>_.
                         io_fail UseAfterFree)))
         else io_ret ())"

lemma serve_one:
  assumes "handles_queue (thread_queue p)" "length t = 8" "t \<notin> fst ` set (p_table p)"
  shows "\<exists>p'. io_then (mqtt_on_message_cb_handler entries E t msg) (run_thread t) p =
      (fst (serve entries E msg (p_world p)), p') \<and>
    p_world p' = snd (serve entries E msg (p_world p)) \<and>
    (fst (serve entries E msg (p_world p)) = Inr () \<longrightarrow>
      handles_queue (thread_queue p') \<and> fst ` set (p_table p') \<subseteq> insert t (fst ` set (p_table p)))"
proof -
  define json where "json = cJSON_Parse (cj E) msg"
  define nm where "nm = cJSON_GetObjectItemCaseSensitive (cj E) json ''name''"
  have no: "map_of (p_table p) t = None" using assms(3) by (simp add: map_of_eq_None_iff)
  consider (none) "\<not> (nm \<noteq> None \<and> cJSON_IsString (cj E) nm)"
    | (unknown) "nm \<noteq> None \<and> cJSON_IsString (cj E) nm" "find_entry (cJSON_GetStringValue (cj E) nm) entries = None"
    | (known) n h where "nm \<noteq> None \<and> cJSON_IsString (cj E) nm"
        "find_entry (cJSON_GetStringValue (cj E) nm) entries = Some (n, h)"
    by (metis option.exhaust surj_pair)
  then show ?thesis
  proof cases
    case none
    have "mqtt_on_message_cb_handler entries E t msg p = (Inr (), p)" "serve entries E msg (p_world p) = (Inr (), p_world p)"
      using none unfolding mqtt_on_message_cb_handler_def serve_def json_def [symmetric] nm_def [symmetric] Let_def
      by (simp_all only: if_False io_ret_app)
    then show ?thesis using no assms(1) by (auto simp: io_then_app run_thread_def io_simps)
  next
    case unknown
    obtain r w where r: "serve entries E msg (p_world p) = (r, w)" by fastforce
    have "mqtt_on_message_cb_handler entries E t msg p = (r, p\<lparr>p_world := w\<rparr>)"
      using unknown r unfolding mqtt_on_message_cb_handler_def serve_def json_def [symmetric] nm_def [symmetric] Let_def
      by (simp add: in_world_def)
    moreover obtain f where "r = Inl f"
      using unknown r unfolding serve_def json_def [symmetric] nm_def [symmetric] Let_def
      by (auto simp: io_bind_app io_fail_def split: prod.splits sum.splits)
    ultimately show ?thesis using r by (simp add: io_then_app)
  next
    case known
    have m: "mqtt_on_message_cb_handler entries E t msg p = io_then (pthread_create t h json) (push_thread t) p"
      "serve entries E msg (p_world p) = h json (p_world p)"
      using known unfolding mqtt_on_message_cb_handler_def serve_def json_def [symmetric] nm_def [symmetric] Let_def
      by simp_all
    let ?p = "p\<lparr>p_table := p_table p @ [(t, Running h json)]\<rparr>"
    obtain q' where q': "push_thread t ?p = (Inr (), ?p\<lparr>thread_queue := q'\<rparr>)" "handles_queue q'"
      using push_thread_ok [of ?p t] assms(1,2) by auto
    obtain r w where r: "h json (p_world p) = (r, w)" by fastforce
    have "map_of (p_table p @ [(t, Running h json)]) t = Some (Running h json)"
      using no by (simp add: map_add_Some_iff)
    then show ?thesis
      using q' r m by (cases r) (auto simp: io_then_app pthread_create_app run_thread_def io_simps in_world_def finish_def)
  qed
qed


lemma serve_all:
  assumes "handles_queue (thread_queue p)" "\<forall>t \<in> set ts. length t = 8" "distinct ts"
    "set ts \<inter> fst ` set (p_table p) = {}" "length msgs = length ts"
  shows "\<exists>p'. io_seq (map (\<lambda>(t, msg). io_then (mqtt_on_message_cb_handler entries E t msg) (run_thread t)) (zip ts msgs)) p =
      (fst (io_seq (map (serve entries E) msgs) (p_world p)), p') \<and>
    p_world p' = snd (io_seq (map (serve entries E) msgs) (p_world p))"
  using assms
proof (induction ts arbitrary: msgs p)
  case Nil
  then show ?case by (simp add: io_ret_app)
next
  case (Cons t ts)
  obtain m ms where msgs: "msgs = m # ms" "length ms = length ts" using Cons.prems(5) by (cases msgs) auto
  obtain p1 where p1: "io_then (mqtt_on_message_cb_handler entries E t m) (run_thread t) p =
      (fst (serve entries E m (p_world p)), p1)" "p_world p1 = snd (serve entries E m (p_world p))"
    "fst (serve entries E m (p_world p)) = Inr () \<Longrightarrow>
      handles_queue (thread_queue p1) \<and> fst ` set (p_table p1) \<subseteq> insert t (fst ` set (p_table p))"
    using serve_one [of p t entries E m] Cons.prems(1,2,4) by auto
  obtain r w where s: "serve entries E m (p_world p) = (r, w)" by fastforce
  show ?case
  proof (cases r)
    case (Inl f)
    then show ?thesis using p1(1,2) s msgs by (simp add: io_then_app)
  next
    case (Inr u)
    then have s1: "serve entries E m (p_world p) = (Inr (), p_world p1)" using p1(2) s by simp
    have "set ts \<inter> fst ` set (p_table p1) = {}" using p1(3) Cons.prems(3,4) s1 by auto
    then obtain p2 where "io_seq (map (\<lambda>(t, msg). io_then (mqtt_on_message_cb_handler entries E t msg) (run_thread t)) (zip ts ms)) p1 =
      (fst (io_seq (map (serve entries E) ms) (p_world p1)), p2)"
      "p_world p2 = snd (io_seq (map (serve entries E) ms) (p_world p1))"
      using Cons.IH [of p1 ms] p1(3) s1 Cons.prems msgs(2) by auto
    then show ?thesis using p1(1) s1 msgs by (simp add: io_then_app [of "io_then _ _"] io_then_app [of "serve _ _ _"])
  qed
qed

lemma boot_process_ok:
  assumes "malloc 8000 = Some mem" "length mem = 8000"
  shows "process_ok L entries w0 \<lparr>p_world = w0, p_table = [], thread_queue = init_thread_queue malloc q0\<rparr>"
  using init_thread_queue_ok [where malloc = malloc and mem = mem, OF assms] by (simp add: process_ok_def evolves_refl)

section \<open>A message for the witnesses\<close>

lemma no_request:
  "list_all (\<lambda>t. strstr x t = None) request_names \<Longrightarrow> \<forall>t \<in> set request_names. \<not> sublist t x"
  using strstr_None_iff by (auto simp: list_all_iff)

abbreviation demo_entries :: "(string \<times> jtree handler) list" where
  "demo_entries \<equiv> message_handler_entry 7 [] None quiet_env"

lemma demo_message:
  obtains j msg where "cJSON_Print tree_lib (Some j) = Some msg"
    "incoming quiet_env (Some j) MSG_EMPTY (lan_request (Some D_null)) lan_reply_name"
    "serve demo_entries quiet_env (Some msg) = request_lan quiet_env (Some j)"
    "\<And>t p. mqtt_on_message_cb_handler demo_entries quiet_env t (Some msg) p =
      io_then (pthread_create t (request_lan quiet_env) (Some j)) (push_thread t) p"
proof -
  obtain j' where inc': "incoming quiet_env j' MSG_EMPTY (lan_request (Some D_null)) lan_reply_name"
    using incoming_demo [of MSG_EMPTY "Some D_null"] by (auto simp: arrives_def transported_def)
  then have "cvt_json_to_msg_request tree_lib j' MSG_EMPTY = lan_request (Some D_null)" by (simp add: incoming_def)
  from arg_cong [OF this, of rq_name]
  have str: "json_str tree_lib j' ''name'' = Some (''web.ezm.'' @ ''network.lan.requested'')"
    by (simp add: cvt_json_to_msg_request_def lan_request_def demo_request_def)
  have "j' \<noteq> None" using str Get_None [OF tree_ok] by (cases j') (simp_all add: json_str_def Let_def)
  then obtain j where j: "j' = Some j" by blast
  note inc = inc' [unfolded j]
  have nm: "cJSON_GetObjectItemCaseSensitive tree_lib (Some j) ''name'' \<noteq> None"
    "cJSON_IsString tree_lib (cJSON_GetObjectItemCaseSensitive tree_lib (Some j) ''name'')"
    "cJSON_GetStringValue tree_lib (cJSON_GetObjectItemCaseSensitive tree_lib (Some j) ''name'') =
      Some (''web.ezm.'' @ ''network.lan.requested'')"
    using str [unfolded j] by (auto simp: json_str_def Let_def app_strdup_def split: if_splits option.splits)
  have "\<forall>t \<in> set request_names. \<not> sublist t ''web.ezm.''" by (rule no_request) code_simp
  from find_request [OF _ this _ entry_names, of 12 7 "[]" None quiet_env]
  have found: "find_entry (Some (''web.ezm.'' @ ''network.lan.requested'')) demo_entries =
      Some (''network.lan.requested'', request_lan quiet_env)"
    by (simp add: message_handler_entry_def del: find_entry.simps)
  obtain msg where msg: "cJSON_Print tree_lib (Some j) = Some msg" "cJSON_Parse tree_lib (Some msg) = Some j"
    by (rule Print_Some [OF tree_ok])
  show ?thesis
  proof (rule that [OF msg(1) inc])
    show "serve demo_entries quiet_env (Some msg) = request_lan quiet_env (Some j)"
      using nm found by (simp add: serve_def msg del: find_entry.simps)
    show "mqtt_on_message_cb_handler demo_entries quiet_env t (Some msg) p =
        io_then (pthread_create t (request_lan quiet_env) (Some j)) (push_thread t) p" for t p
      using nm found by (simp add: mqtt_on_message_cb_handler_def msg del: find_entry.simps)
  qed
qed

section \<open>Properties\<close>

text \<open>
  C19: every request reaches its own handler. A name that begins with any addresses, closed by a dot
  and without a request name among them, and ends with one of the 31 names of the table, is given
  to the entry of that name; a name that contains none of them is given to no entry.
\<close>

theorem dispatch_spec:
  assumes "entries = message_handler_entry n rounds found E" "p = [] \<or> last p = CHR ''.''"
    "\<forall>t \<in> set request_names. \<not> sublist t p" "i < length entries" "\<forall>t \<in> set request_names. \<not> sublist t unknown"
  shows "find_entry (Some (p @ fst (entries ! i))) entries = Some (entries ! i) \<and>
    fst (entries ! i) = request_names ! i \<and> find_entry (Some unknown) entries = None"
proof (intro conjI)
  have names: "map fst entries = request_names" using entry_names assms(1) by blast
  show "find_entry (Some (p @ fst (entries ! i))) entries = Some (entries ! i)"
    by (rule find_request [OF assms(2,3,4) names])
  show "fst (entries ! i) = request_names ! i" using names assms(4) by (metis nth_map)
  show "find_entry (Some unknown) entries = None"
    using assms(5) names by (metis find_entry_None image_eqI list.set_map)
qed

text \<open>The name under which the documentation describes the pairing request is in no entry.\<close>

theorem dispatch_spec_witness:
  "let entries = message_handler_entry 7 [] None quiet_env
   in find_entry (Some (''web.hub.ezm.'' @ fst (entries ! 5))) entries = Some (entries ! 5) \<and>
      fst (entries ! 5) = ''mesh.devices.pair.requested'' \<and>
      find_entry (Some ''web.hub.ezm.mesh.device.pair.requested'') entries = None"
proof -
  have a: "\<forall>t \<in> set request_names. \<not> sublist t ''web.hub.ezm.''" by (rule no_request) code_simp
  have b: "\<forall>t \<in> set request_names. \<not> sublist t ''web.hub.ezm.mesh.device.pair.requested''" by (rule no_request) code_simp
  have len: "5 < length (message_handler_entry 7 [] None quiet_env)" by (simp add: message_handler_entry_def)
  have five: "request_names ! 5 = ''mesh.devices.pair.requested''" by (simp add: request_names_def)
  have "last ''web.hub.ezm.'' = CHR ''.''" by simp
  from dispatch_spec [OF refl disjI2 [OF this] a len b] five
  show ?thesis unfolding Let_def by (elim conjE) (intro conjI; (assumption | (erule trans, assumption)))
qed

text \<open>
  The process as the program configures it, without the collector. In every state it reaches,
  whatever messages come and in whatever order the handlers run, the state of the device has only
  evolved: identities, error tables and topics are those of the start and the trace has grown; every
  thread that was ever created still waits to be joined, and the queue holds the handles of the
  last 1000 of them, in order.
\<close>

theorem process_invariant:
  assumes "malloc 8000 = Some mem" "length mem = 8000"
    "reachable (message_handler_entry n rounds found E) E False
       \<lparr>p_world = w0, p_table = [], thread_queue = init_thread_queue malloc q0\<rparr> p"
  shows "evolves (cj E) w0 (p_world p) \<and> distinct (map fst (p_table p)) \<and>
    contents (thread_queue p) = drop (length (p_table p) - 1000) (map fst (p_table p))"
  using reachable_process_ok [OF assms(3) boot_process_ok [where malloc = malloc and mem = mem, OF assms(1,2)] ev_entries] by (simp add: process_ok_def)

theorem process_invariant_witness:
  "\<exists>p. reachable demo_entries quiet_env False \<lparr>p_world = empty_world, p_table = [],
      thread_queue = init_thread_queue (\<lambda>n. Some (replicate n 0)) (demo_queue FIFO)\<rparr> p \<and>
    map fst (p_table p) = [replicate 8 1] \<and> contents (thread_queue p) = [replicate 8 1]"
proof -
  let ?q = "init_thread_queue (\<lambda>n. Some (replicate n 0)) (demo_queue FIFO)"
  let ?p = "\<lparr>p_world = empty_world, p_table = [], thread_queue = ?q\<rparr>"
  obtain j msg where m: "\<And>t p. mqtt_on_message_cb_handler demo_entries quiet_env t (Some msg) p =
      io_then (pthread_create t (request_lan quiet_env) (Some j)) (push_thread t) p"
    using demo_message by metis
  let ?p1 = "?p\<lparr>p_table := [(replicate 8 1, Running (request_lan quiet_env) (Some j))]\<rparr>"
  obtain q' where "push_thread (replicate 8 1) ?p1 = (Inr (), ?p1\<lparr>thread_queue := q'\<rparr>)"
    using push_thread_ok [of ?p1 "replicate 8 1"] init_thread_queue_zero by auto
  then have "mqtt_on_message_cb_handler demo_entries quiet_env (replicate 8 1) (Some msg) ?p =
      (Inr (), ?p1\<lparr>thread_queue := q'\<rparr>)"
    by (simp add: m io_then_app pthread_create_app)
  then have r: "reachable demo_entries quiet_env False ?p (?p1\<lparr>thread_queue := q'\<rparr>)"
    by (intro reachable.step [OF reachable.start] step.message [of "replicate 8 1"]) simp_all
  from process_invariant [where malloc = "\<lambda>n. Some (replicate n 0)" and mem = "replicate 8000 0",
      OF refl length_replicate r] r
  show ?thesis by auto
qed

text \<open>
  C24: the collector does its work when it is called. As many calls as there are handles in the queue
  join exactly the threads among them that have ended, and keep the handles of the others in order,
  and change nothing else.
\<close>

theorem collector_joins:
  assumes "handles_queue (thread_queue p)" "distinct (contents (thread_queue p))"
  shows "\<exists>p'. io_seq (replicate (length (contents (thread_queue p))) thread_garbage) p = (Inr (), p') \<and>
    p_world p' = p_world p \<and>
    contents (thread_queue p') = filter (\<lambda>t. map_of (p_table p) t \<noteq> Some Finished) (contents (thread_queue p)) \<and>
    p_table p' = filter (\<lambda>(u, st). \<not> (u \<in> set (contents (thread_queue p)) \<and>
      map_of (p_table p) u = Some Finished)) (p_table p)"
  using garbage_all [of p "contents (thread_queue p)" "[]", OF assms(1) _ assms(2)] by auto

theorem collector_joins_witness:
  "\<exists>q p'. thread_garbage \<lparr>p_world = empty_world, p_table = [(replicate 8 1, Finished)], thread_queue = q\<rparr> =
     (Inr (), p') \<and> p_table p' = [] \<and> contents (thread_queue p') = []"
proof -
  let ?q = "init_thread_queue (\<lambda>n. Some (replicate n 0)) (demo_queue FIFO)"
  let ?p = "\<lambda>q. \<lparr>p_world = empty_world, p_table = [(replicate 8 1, Finished)], thread_queue = q\<rparr>"
  obtain q where q: "handles_queue q" "contents q = [replicate 8 1]"
    using push_thread_ok [of "?p ?q" "replicate 8 1"] init_thread_queue_zero [of "demo_queue FIFO"] by auto
  have "\<exists>p'. io_seq (replicate 1 thread_garbage) (?p q) = (Inr (), p') \<and> p_table p' = [] \<and> contents (thread_queue p') = []"
    using collector_joins [of "?p q"] q by auto
  then show ?thesis by (auto simp: io_then_app io_ret_app split: prod.splits sum.splits)
qed





end
