(* ===== verification/DnsName.thy ===== *)
theory DnsName
  imports Prelude
begin

text \<open>
  \<open>lib/mdns/mdns.h\<close>, the names of DNS packets: byte order, the reader of the next label of a name (which
  follows compression pointers), the functions built on it, and the writer with its table of strings.

  A packet is a buffer, a list of characters as long as the block that was allocated; its \<open>size\<close> is what
  was received. A read or a write outside the block is a fault. A position \<open>MDNS_INVALID_POS\<close> is \<open>None\<close>.
\<close>

unbundle bit_operations_syntax

section \<open>Memory and byte order\<close>

definition or_fault :: "'e + 'a \<Rightarrow> ('a \<Rightarrow> 'e + 'b) \<Rightarrow> 'e + 'b" where
  "or_fault m k = (case m of Inl f \<Rightarrow> Inl f | Inr x \<Rightarrow> k x)"

lemma or_fault_simps [simp]: "or_fault (Inl f) k = Inl f" "or_fault (Inr x) k = k x"
  by (simp_all add: or_fault_def)

text \<open>For evaluation: a continuation is only looked at once its argument is known.\<close>

named_theorems packet_eval "rules that evaluate the functions on packets"

lemma or_fault_weak: "m = m' \<Longrightarrow> or_fault m k = or_fault m' k"
  by simp

lemma or_fault_cong [fundef_cong]: "m = m' \<Longrightarrow> (\<And>x. m' = Inr x \<Longrightarrow> k x = k' x) \<Longrightarrow> or_fault m k = or_fault m' k'"
  by (cases m') simp_all

lemma or_fault_Inr: "or_fault m k = Inr y \<longleftrightarrow> (\<exists>x. m = Inr x \<and> k x = Inr y)"
  by (cases m) simp_all

lemma or_fault_assoc: "or_fault (or_fault m k) l = or_fault m (\<lambda>x. or_fault (k x) l)"
  by (cases m) simp_all

text \<open>The subtraction of \<open>size_t\<close> values wraps around.\<close>

definition size_sub :: "nat \<Rightarrow> nat \<Rightarrow> nat" where
  "size_sub a b = (if b \<le> a then a - b else a + 2 ^ 64 - b)"

lemma size_sub_le [simp]: "b \<le> a \<Longrightarrow> size_sub a b = a - b"
  by (simp add: size_sub_def)

definition byte_at :: "string \<Rightarrow> nat \<Rightarrow> fault + byte" where
  "byte_at buffer i = (if i < length buffer then Inr (word_of_nat (of_char (buffer ! i))) else Inl OutOfBounds)"

definition bytes_at :: "string \<Rightarrow> nat \<Rightarrow> nat \<Rightarrow> fault + string" where
  "bytes_at buffer i n = (if i + n \<le> length buffer then Inr (take n (drop i buffer)) else Inl OutOfBounds)"

definition poke :: "string \<Rightarrow> nat \<Rightarrow> string \<Rightarrow> fault + string" where
  "poke buffer i bs =
     (if i + length bs \<le> length buffer then Inr (take i buffer @ bs @ drop (i + length bs) buffer)
      else Inl OutOfBounds)"

definition mdns_ntohs :: "string \<Rightarrow> nat \<Rightarrow> fault + 16 word" where
  "mdns_ntohs buffer i =
     or_fault (bytes_at buffer i 2) (\<lambda>b. Inr (word_of_nat (horner_sum of_char 256 (rev b))))"

definition mdns_ntohl :: "string \<Rightarrow> nat \<Rightarrow> fault + 32 word" where
  "mdns_ntohl buffer i =
     or_fault (bytes_at buffer i 4) (\<lambda>b. Inr (word_of_nat (horner_sum of_char 256 (rev b))))"

text \<open>The bytes that \<open>mdns_htons\<close> and \<open>mdns_htonl\<close> store.\<close>

definition net16 :: "16 word \<Rightarrow> string" where
  "net16 w = [char_of (unat w div 256), char_of (unat w)]"

definition net32 :: "32 word \<Rightarrow> string" where
  "net32 w = [char_of (unat w div 16777216), char_of (unat w div 65536), char_of (unat w div 256), char_of (unat w)]"

definition mdns_htons :: "string \<Rightarrow> nat \<Rightarrow> 16 word \<Rightarrow> fault + string \<times> nat" where
  "mdns_htons buffer data val = map_sum id (\<lambda>b. (b, data + 2)) (poke buffer data (net16 val))"

definition mdns_htonl :: "string \<Rightarrow> nat \<Rightarrow> 32 word \<Rightarrow> fault + string \<times> nat" where
  "mdns_htonl buffer data val = map_sum id (\<lambda>b. (b, data + 4)) (poke buffer data (net32 val))"

section \<open>The next label\<close>

record mdns_string_pair_t =
  pair_offset :: "nat option"
  pair_length :: nat
  pair_ref :: bool

abbreviation MDNS_MAX_SUBSTRINGS :: nat where "MDNS_MAX_SUBSTRINGS \<equiv> 64"

definition mdns_is_string_ref :: "byte \<Rightarrow> bool" where
  "mdns_is_string_ref val \<longleftrightarrow> 0xC0 = val AND 0xC0"

definition ref_target :: "16 word \<Rightarrow> nat" where
  "ref_target w = unat (w AND 0x3fff)"

text \<open>
  The loop over compression pointers. \<open>n\<close> is how many more may be followed: the counter of the code
  starts at 0 and must not exceed 16. The result is the offset of a length byte, if there is one, and
  whether a pointer was followed.
\<close>

fun mdns_follow_refs :: "string \<Rightarrow> nat \<Rightarrow> nat \<Rightarrow> nat \<Rightarrow> bool \<Rightarrow> fault + nat option \<times> bool" where
  "mdns_follow_refs buffer sz n offset ref =
     or_fault (byte_at buffer offset) (\<lambda>b.
       if \<not> mdns_is_string_ref b then Inr (Some offset, ref)
       else if sz < offset + 2 then Inr (None, ref)
       else or_fault (mdns_ntohs buffer offset) (\<lambda>w.
         let offset = ref_target w
         in if sz \<le> offset then Inr (None, ref)
            else (case n of 0 \<Rightarrow> Inr (None, True) | Suc n \<Rightarrow> mdns_follow_refs buffer sz n offset True)))"

declare mdns_follow_refs.simps [simp del]

definition mdns_get_next_substring :: "string \<Rightarrow> nat \<Rightarrow> nat \<Rightarrow> fault + mdns_string_pair_t" where
  "mdns_get_next_substring buffer sz offset =
     (if sz \<le> offset then Inr \<lparr>pair_offset = None, pair_length = 0, pair_ref = False\<rparr>
      else or_fault (byte_at buffer offset) (\<lambda>b.
        if b = 0 then Inr \<lparr>pair_offset = Some offset, pair_length = 0, pair_ref = False\<rparr>
        else or_fault (mdns_follow_refs buffer sz 16 offset False) (\<lambda>(pos, ref).
          case pos of
            None \<Rightarrow> Inr \<lparr>pair_offset = None, pair_length = 0, pair_ref = ref\<rparr>
          | Some offset \<Rightarrow>
              or_fault (byte_at buffer offset) (\<lambda>l.
                if sz < offset + 1 + unat l then Inr \<lparr>pair_offset = None, pair_length = 0, pair_ref = ref\<rparr>
                else Inr \<lparr>pair_offset = Some (offset + 1), pair_length = unat l, pair_ref = ref\<rparr>))))"

section \<open>Skipping, comparing and extracting names\<close>

text \<open>
  The loops count their rounds, and a name whose 66th part would be looked at is rejected. \<open>n\<close> is how
  many more parts are accepted. \<open>None\<close> is the return of 0, which leaves the offset as it was.
\<close>

fun mdns_skip_loop :: "string \<Rightarrow> nat \<Rightarrow> nat \<Rightarrow> nat \<Rightarrow> fault + nat option" where
  "mdns_skip_loop buffer sz n cur =
     or_fault (mdns_get_next_substring buffer sz cur) (\<lambda>substr.
       case pair_offset substr of
         None \<Rightarrow> Inr None
       | Some pos \<Rightarrow>
           (case n of
              0 \<Rightarrow> Inr None
            | Suc n \<Rightarrow>
                if pair_ref substr then Inr (Some (cur + 2))
                else if pair_length substr = 0 then Inr (Some (pos + 1))
                else mdns_skip_loop buffer sz n (pos + pair_length substr)))"

definition mdns_string_skip :: "string \<Rightarrow> nat \<Rightarrow> nat \<Rightarrow> fault + nat option" where
  "mdns_string_skip buffer sz offset = mdns_skip_loop buffer sz (MDNS_MAX_SUBSTRINGS + 1) offset"

definition ascii_lower :: "char \<Rightarrow> char" where
  "ascii_lower c = (if 65 \<le> (of_char c :: nat) \<and> (of_char c :: nat) \<le> 90 then char_of ((of_char c :: nat) + 32) else c)"

text \<open>Whether \<open>strncasecmp\<close> of two blocks of the same length is 0: it stops at a NUL.\<close>

fun strncasecmp_eq :: "string \<Rightarrow> string \<Rightarrow> bool" where
  "strncasecmp_eq (c # cs) (d # ds) \<longleftrightarrow>
     ascii_lower c = ascii_lower d \<and> (c = CHR 0x00 \<or> strncasecmp_eq cs ds)"
| "strncasecmp_eq cs ds \<longleftrightarrow> True"

definition end_pos :: "nat option \<Rightarrow> bool \<Rightarrow> nat \<Rightarrow> nat option" where
  "end_pos e ref cur = (if ref \<and> e = None then Some (cur + 2) else e)"

fun mdns_equal_loop ::
  "string \<Rightarrow> nat \<Rightarrow> string \<Rightarrow> nat \<Rightarrow> nat \<Rightarrow> nat \<Rightarrow> nat option \<Rightarrow> nat \<Rightarrow> nat option \<Rightarrow> fault + (nat \<times> nat) option" where
  "mdns_equal_loop buffer_lhs size_lhs buffer_rhs size_rhs n lhs_cur lhs_end rhs_cur rhs_end =
     or_fault (mdns_get_next_substring buffer_lhs size_lhs lhs_cur) (\<lambda>lhs.
     or_fault (mdns_get_next_substring buffer_rhs size_rhs rhs_cur) (\<lambda>rhs.
       case (pair_offset lhs, pair_offset rhs, n) of
         (Some lpos, Some rpos, Suc n) \<Rightarrow>
           if pair_length lhs \<noteq> pair_length rhs then Inr None
           else or_fault (bytes_at buffer_rhs rpos (pair_length rhs)) (\<lambda>r.
             or_fault (bytes_at buffer_lhs lpos (pair_length rhs)) (\<lambda>l.
             if \<not> strncasecmp_eq r l then Inr None
             else
               let lhs_end = end_pos lhs_end (pair_ref lhs) lhs_cur;
                   rhs_end = end_pos rhs_end (pair_ref rhs) rhs_cur;
                   lhs_cur = lpos + pair_length lhs;
                   rhs_cur = rpos + pair_length rhs
               in if pair_length lhs = 0
                  then Inr (Some (case lhs_end of None \<Rightarrow> lhs_cur + 1 | Some e \<Rightarrow> e,
                                  case rhs_end of None \<Rightarrow> rhs_cur + 1 | Some e \<Rightarrow> e))
                  else mdns_equal_loop buffer_lhs size_lhs buffer_rhs size_rhs n lhs_cur lhs_end rhs_cur rhs_end))
       | _ \<Rightarrow> Inr None))"

definition mdns_string_equal ::
  "string \<Rightarrow> nat \<Rightarrow> nat \<Rightarrow> string \<Rightarrow> nat \<Rightarrow> nat \<Rightarrow> fault + (nat \<times> nat) option" where
  "mdns_string_equal buffer_lhs size_lhs ofs_lhs buffer_rhs size_rhs ofs_rhs =
     mdns_equal_loop buffer_lhs size_lhs buffer_rhs size_rhs (MDNS_MAX_SUBSTRINGS + 1) ofs_lhs None ofs_rhs None"

text \<open>
  The copy into a destination of \<open>capacity\<close> bytes: \<open>dst\<close> is what was written. The result has the new
  offset and the text, and \<open>None\<close> when the name is not valid (then the length of the result is 0).
\<close>

fun mdns_extract_loop ::
  "string \<Rightarrow> nat \<Rightarrow> nat \<Rightarrow> nat \<Rightarrow> nat option \<Rightarrow> string \<Rightarrow> nat \<Rightarrow> fault + (nat \<times> string) option" where
  "mdns_extract_loop buffer sz n cur e dst remain =
     or_fault (mdns_get_next_substring buffer sz cur) (\<lambda>substr.
       case pair_offset substr of
         None \<Rightarrow> Inr None
       | Some pos \<Rightarrow>
           (case n of
              0 \<Rightarrow> Inr None
            | Suc n \<Rightarrow>
                let e = end_pos e (pair_ref substr) cur;
                    cur = pos + pair_length substr
                in if pair_length substr = 0
                   then Inr (Some (case e of None \<Rightarrow> cur + 1 | Some e \<Rightarrow> e, dst))
                   else
                     let to_copy = (if pair_length substr < remain then pair_length substr else remain)
                     in or_fault (bytes_at buffer pos to_copy) (\<lambda>bs.
                       let dst = dst @ bs; remain = remain - to_copy
                       in if 0 < remain then mdns_extract_loop buffer sz n cur e (dst @ ''.'') (remain - 1)
                          else mdns_extract_loop buffer sz n cur e dst remain)))"

definition mdns_string_extract :: "string \<Rightarrow> nat \<Rightarrow> nat \<Rightarrow> nat \<Rightarrow> fault + (nat \<times> string) option" where
  "mdns_string_extract buffer sz offset capacity =
     mdns_extract_loop buffer sz (MDNS_MAX_SUBSTRINGS + 1) offset None [] capacity"

declare mdns_skip_loop.simps [simp del] mdns_equal_loop.simps [simp del] mdns_extract_loop.simps [simp del]

section \<open>Writing names\<close>

text \<open>\<open>memchr\<close> between \<open>offset\<close> and \<open>len\<close>; it stops at the first occurrence.\<close>

definition mdns_string_find :: "string \<Rightarrow> nat \<Rightarrow> char \<Rightarrow> nat \<Rightarrow> fault + nat option" where
  "mdns_string_find str len c offset =
     (if len \<le> offset then Inr None
      else (case first_index (\<lambda>x. x = c) (take (len - offset) (drop offset str)) of
              Some i \<Rightarrow> Inr (Some (offset + i))
            | None \<Rightarrow> if len \<le> length str then Inr None else Inl OutOfBounds))"

lemma find_bounds: "mdns_string_find str len c offset = Inr (Some d) \<Longrightarrow> offset \<le> d \<and> d < len"
  by (auto simp: mdns_string_find_def first_index_Some split: if_splits option.splits)

record mdns_string_table_t =
  tab_offset :: "nat list"
  tab_count :: nat
  tab_next :: nat

text \<open>The table of the answers: sixteen offsets, none used.\<close>

definition string_table_empty :: mdns_string_table_t where
  "string_table_empty = \<lparr>tab_offset = replicate 16 0, tab_count = 0, tab_next = 0\<rparr>"

text \<open>
  The labels after the first of a string in the table against the rest of a name: whether all of the
  name matches. The string in the table may go on.
\<close>

function mdns_match_rest :: "string \<Rightarrow> nat \<Rightarrow> string \<Rightarrow> nat \<Rightarrow> nat \<Rightarrow> nat \<Rightarrow> fault + bool" where
  "mdns_match_rest buffer capacity str total_length offset pos =
     (if offset < total_length then
        or_fault (mdns_string_find str total_length (CHR ''.'') offset) (\<lambda>dot.
          let dot_pos = (case dot of None \<Rightarrow> total_length | Some d \<Rightarrow> d);
              current_length = dot_pos - offset
          in or_fault (mdns_get_next_substring buffer capacity pos) (\<lambda>sub.
            if pair_length sub = 0 \<or> pair_length sub \<noteq> current_length then Inr False
            else or_fault (bytes_at str offset (pair_length sub)) (\<lambda>a.
              or_fault (bytes_at buffer (the (pair_offset sub)) (pair_length sub)) (\<lambda>b.
                if a \<noteq> b then Inr False
                else mdns_match_rest buffer capacity str total_length (dot_pos + 1)
                       (the (pair_offset sub) + pair_length sub)))))
      else Inr True)"
  by pat_completeness auto

termination mdns_match_rest
  by (relation "measure (\<lambda>(_, _, _, total_length, offset, _). total_length - offset)") (auto dest: find_bounds split: option.splits)

declare mdns_match_rest.simps [simp del]

text \<open>The search of the table; the offsets that are looked at are the first \<open>tab_count\<close>.\<close>

fun mdns_table_search :: "nat list \<Rightarrow> string \<Rightarrow> nat \<Rightarrow> string \<Rightarrow> nat \<Rightarrow> nat \<Rightarrow> fault + nat option" where
  "mdns_table_search [] buffer capacity str first_length total_length = Inr None"
| "mdns_table_search (off # offs) buffer capacity str first_length total_length =
     (if capacity \<le> off then mdns_table_search offs buffer capacity str first_length total_length
      else or_fault (mdns_get_next_substring buffer capacity off) (\<lambda>sub.
        if pair_length sub = 0 \<or> pair_length sub \<noteq> first_length
        then mdns_table_search offs buffer capacity str first_length total_length
        else or_fault (bytes_at str 0 (pair_length sub)) (\<lambda>a.
          or_fault (bytes_at buffer (the (pair_offset sub)) (pair_length sub)) (\<lambda>b.
            if a \<noteq> b then mdns_table_search offs buffer capacity str first_length total_length
            else or_fault (mdns_match_rest buffer capacity str total_length (first_length + 1)
                   (the (pair_offset sub) + pair_length sub)) (\<lambda>matches.
              if matches then Inr (Some off)
              else mdns_table_search offs buffer capacity str first_length total_length)))))"

definition mdns_string_table_find ::
  "mdns_string_table_t option \<Rightarrow> string \<Rightarrow> nat \<Rightarrow> string \<Rightarrow> nat \<Rightarrow> nat \<Rightarrow> fault + nat option" where
  "mdns_string_table_find string_table buffer capacity str first_length total_length =
     (case string_table of
        None \<Rightarrow> Inr None
      | Some t \<Rightarrow> mdns_table_search (take (tab_count t) (tab_offset t)) buffer capacity str first_length total_length)"

definition mdns_string_table_add :: "mdns_string_table_t option \<Rightarrow> nat \<Rightarrow> mdns_string_table_t option" where
  "mdns_string_table_add string_table offset =
     map_option (\<lambda>t.
       let table_capacity = 16;
           count = (if table_capacity < tab_count t + 1 then table_capacity else tab_count t + 1);
           next = (if table_capacity \<le> tab_next t + 1 then 0 else tab_next t + 1)
       in \<lparr>tab_offset = (tab_offset t)[tab_next t := offset], tab_count = count, tab_next = next\<rparr>) string_table"

text \<open>A writer returns the buffer, the end of what it wrote (\<open>None\<close> is NULL) and the table.\<close>

type_synonym written = "string \<times> nat option \<times> mdns_string_table_t option"

definition mdns_string_make_ref :: "string \<Rightarrow> nat \<Rightarrow> nat \<Rightarrow> nat \<Rightarrow> fault + string \<times> nat option" where
  "mdns_string_make_ref buffer data capacity ref_offset =
     (if capacity < 2 then Inr (buffer, None)
      else map_sum id (\<lambda>(b, d). (b, Some d)) (mdns_htons buffer data (0xC000 OR word_of_nat ref_offset)))"

function mdns_make_loop ::
  "string \<Rightarrow> nat \<Rightarrow> nat \<Rightarrow> string \<Rightarrow> nat \<Rightarrow> mdns_string_table_t option \<Rightarrow> nat \<Rightarrow> fault + written" where
  "mdns_make_loop buffer capacity data name len string_table last_pos =
     (let remain = size_sub capacity data in
      if last_pos < len then
        or_fault (mdns_string_find name len (CHR ''.'') last_pos) (\<lambda>pos.
          let sub_length = (case pos of Some p \<Rightarrow> p | None \<Rightarrow> len) - last_pos;
              total_length = len - last_pos
          in or_fault (mdns_string_table_find string_table buffer capacity (drop last_pos name) sub_length total_length)
            (\<lambda>ref_offset. case ref_offset of
               Some r \<Rightarrow> map_sum id (\<lambda>(b, d). (b, d, string_table)) (mdns_string_make_ref buffer data remain r)
             | None \<Rightarrow>
                 if remain \<le> sub_length + 1 then Inr (buffer, None, string_table)
                 else or_fault (poke buffer data [char_of sub_length]) (\<lambda>buffer.
                   or_fault (bytes_at name last_pos sub_length) (\<lambda>label.
                   or_fault (poke buffer (data + 1) label) (\<lambda>buffer.
                     mdns_make_loop buffer capacity (data + sub_length + 1) name len
                       (mdns_string_table_add string_table data)
                       (case pos of Some p \<Rightarrow> p + 1 | None \<Rightarrow> len))))))
      else if remain = 0 then Inr (buffer, None, string_table)
      else map_sum id (\<lambda>b. (b, Some (data + 1), string_table)) (poke buffer data [CHR 0x00]))"
  by pat_completeness auto

termination mdns_make_loop
  by (relation "measure (\<lambda>(_, _, _, _, len, _, last_pos). len - last_pos)")
    (auto dest: find_bounds split: option.splits)

declare mdns_make_loop.simps [simp del]

definition mdns_string_make ::
  "string \<Rightarrow> nat \<Rightarrow> nat \<Rightarrow> string \<Rightarrow> nat \<Rightarrow> mdns_string_table_t option \<Rightarrow> fault + written" where
  "mdns_string_make buffer capacity data name len string_table =
     (if len = 0 \<or> length name < len then Inl OutOfBounds
      else mdns_make_loop buffer capacity data name (if name ! (len - 1) = CHR ''.'' then len - 1 else len)
             string_table 0)"

section \<open>Names, as the standard has them\<close>

text \<open>
  A name at an offset: its labels, and the offset after it. \<open>k\<close> compression pointers may be followed
  before the next label.
\<close>

inductive name_at :: "nat \<Rightarrow> string \<Rightarrow> nat \<Rightarrow> nat \<Rightarrow> string list \<Rightarrow> nat \<Rightarrow> bool" where
  root: "name_at k buf sz off [] (off + 1)" if "off < sz" "buf ! off = CHR 0x00"
| label: "name_at k buf sz off (take n (drop (off + 1) buf) # ls) e"
    if "off < sz" "of_char (buf ! off) = n" "0 < n" "n < 192" "off + 1 + n \<le> sz"
      "name_at 16 buf sz (off + 1 + n) ls e"
| pointer: "name_at (Suc k) buf sz off ls (off + 2)"
    if "off + 1 < sz" "192 \<le> (of_char (buf ! off) :: nat)"
      "to = (256 * of_char (buf ! off) + of_char (buf ! (off + 1))) mod 2 ^ 14" "name_at k buf sz to ls e"

text \<open>The text of a name.\<close>

definition dotted :: "string list \<Rightarrow> string" where
  "dotted ls = concat (map (\<lambda>l. l @ ''.'') ls)"

lemma dotted_simps [simp]: "dotted [] = []" "dotted (l # ls) = l @ CHR ''.'' # dotted ls"
  by (simp_all add: dotted_def)

lemma length_dotted: "length (dotted ls) = sum_list (map length ls) + length ls"
  by (induction ls) auto

text \<open>
  Where the pointers at an offset lead, and the part of a name that is found there: the offset of the
  length byte and its value.
\<close>

fun resolve :: "nat \<Rightarrow> string \<Rightarrow> nat \<Rightarrow> nat \<Rightarrow> nat option" where
  "resolve k buf sz off =
     (if sz \<le> off then None
      else if (of_char (buf ! off) :: nat) < 192 then Some off
      else if sz \<le> off + 1 then None
      else (case k of
              0 \<Rightarrow> None
            | Suc k \<Rightarrow> resolve k buf sz ((256 * of_char (buf ! off) + of_char (buf ! (off + 1))) mod 2 ^ 14)))"

declare resolve.simps [simp del]

lemma resolve_out [simp]: "sz \<le> off \<Longrightarrow> resolve k buf sz off = None"
  by (simp add: resolve.simps [of k])

definition part :: "string \<Rightarrow> nat \<Rightarrow> nat \<Rightarrow> (nat \<times> nat) option" where
  "part buf sz off =
     (case resolve 16 buf sz off of
        None \<Rightarrow> None
      | Some o' \<Rightarrow> if sz < o' + 1 + of_char (buf ! o') then None else Some (o', of_char (buf ! o')))"

lemma byte_unat [simp]: "unat (word_of_nat (of_char c) :: byte) = of_char c"
  by (simp add: unat_of_nat)

lemma string_ref_iff: "mdns_is_string_ref (word_of_nat (of_char c)) \<longleftrightarrow> 192 \<le> (of_char c :: nat)"
proof -
  have all: "\<forall>n \<in> set [0..<256]. mdns_is_string_ref (word_of_nat n) = (192 \<le> n)"
    unfolding mdns_is_string_ref_def by code_simp
  show ?thesis using all nat_of_char_less_256 [of c] by simp
qed

lemma string_ref_code [packet_eval]: "mdns_is_string_ref b \<longleftrightarrow> 192 \<le> unat b"
proof -
  have "unat b < 256" using unsigned_less [of b] by simp
  then show ?thesis using string_ref_iff [of "char_of (unat b)"] by simp
qed

lemma of_char_0 [simp]: "(of_char c :: nat) = 0 \<longleftrightarrow> c = CHR 0x00"
  using of_char_eq_iff [of c "CHR 0x00", where ?'a = nat] by (simp del: of_char_eq_iff)

lemma of_char_pos [simp]: "0 < (of_char c :: nat) \<longleftrightarrow> c \<noteq> CHR 0x00"
  using of_char_0 [of c] by (simp only: neq0_conv [symmetric])

lemma byte_zero_iff: "(word_of_nat (of_char c) :: byte) = 0 \<longleftrightarrow> c = CHR 0x00"
proof -
  have "(word_of_nat (of_char c) :: byte) = 0 \<longleftrightarrow> (of_char c :: nat) = 0"
    using byte_unat [of c] by (metis unat_0 unat_eq_zero)
  also have "\<dots> \<longleftrightarrow> c = CHR 0x00" by simp
  finally show ?thesis .
qed

lemma ntohs_at:
  assumes "i + 2 \<le> length buf"
  shows "mdns_ntohs buf i = Inr (word_of_nat (256 * of_char (buf ! i) + of_char (buf ! (i + 1))))"
proof -
  have "take 2 (drop i buf) = [buf ! i, buf ! (i + 1)]"
    using assms by (simp add: take_Suc_conv_app_nth numeral_2_eq_2 )
  then show ?thesis using assms by (simp add: mdns_ntohs_def bytes_at_def add.commute)
qed

lemma ref_target_code [packet_eval]: "ref_target w = unat w mod 2 ^ 14"
proof -
  have "(0x3fff :: 16 word) = mask 14" by (simp add: mask_eq_exp_minus_1)
  then show ?thesis
    by (simp only: ref_target_def take_bit_eq_mask [symmetric] unsigned_take_bit_eq) (simp add: take_bit_eq_mod)
qed

lemma ref_target: "ref_target (word_of_nat (256 * of_char a + of_char b)) = (256 * of_char a + of_char b) mod 2 ^ 14"
  by (simp only: ref_target_code unsigned_of_nat of_nat_id) (simp add: take_bit_eq_mod mod_mod_cancel)

lemmas [packet_eval] = mdns_follow_refs.simps mdns_get_next_substring_def mdns_skip_loop.simps mdns_string_skip_def
  mdns_equal_loop.simps mdns_string_equal_def mdns_extract_loop.simps mdns_string_extract_def end_pos_def byte_at_def
  bytes_at_def poke_def mdns_ntohs_def mdns_ntohl_def mdns_htons_def mdns_htonl_def net16_def net32_def char_of_def bit_Suc_0_iff
  mdns_string_find_def mdns_match_rest.simps mdns_string_table_find_def mdns_string_table_add_def
  mdns_string_make_ref_def mdns_make_loop.simps mdns_string_make_def Let_def unsigned_of_nat take_bit_eq_mod


subsection \<open>Reading the next label\<close>

lemma follow_refs:
  assumes "sz \<le> length buf"
  shows "off < sz \<Longrightarrow> \<exists>r. mdns_follow_refs buf sz k off ref = Inr (resolve k buf sz off, r) \<and>
    (\<forall>o'. resolve k buf sz off = Some o' \<longrightarrow> o' < sz \<and> (of_char (buf ! o') :: nat) < 192 \<and> r = (ref \<or> o' \<noteq> off))"
proof (induction k arbitrary: off ref)
  case 0
  then show ?case using assms
    by (auto simp: resolve.simps [of 0] mdns_follow_refs.simps [of _ _ 0] byte_at_def string_ref_iff ntohs_at
        ref_target Let_def simp del: of_nat_mult of_nat_add)
next
  case (Suc k)
  let ?to = "(256 * of_char (buf ! off) + of_char (buf ! (off + 1))) mod 2 ^ 14 :: nat"
  show ?case
  proof (cases "(of_char (buf ! off) :: nat) < 192 \<or> sz \<le> off + 1 \<or> sz \<le> ?to")
    case True
    then show ?thesis using Suc.prems assms
      by (auto simp: resolve.simps [of "Suc k"] mdns_follow_refs.simps [of _ _ "Suc k"] byte_at_def string_ref_iff
          ntohs_at ref_target Let_def simp del: of_nat_mult of_nat_add)
  next
    case False
    obtain r where r: "mdns_follow_refs buf sz k ?to True = Inr (resolve k buf sz ?to, r)"
      "\<forall>o'. resolve k buf sz ?to = Some o' \<longrightarrow> o' < sz \<and> (of_char (buf ! o') :: nat) < 192 \<and> r"
      using Suc.IH [of ?to True] False by auto
    have step: "mdns_follow_refs buf sz (Suc k) off ref = mdns_follow_refs buf sz k ?to True"
      "resolve (Suc k) buf sz off = resolve k buf sz ?to"
      using False Suc.prems assms
      by (simp_all add: resolve.simps [of "Suc k"] mdns_follow_refs.simps [of _ _ "Suc k"] byte_at_def string_ref_iff
          ntohs_at ref_target Let_def del: of_nat_mult of_nat_add)
    have "o' \<noteq> off" if "resolve k buf sz ?to = Some o'" for o'
      using that r(2) False by auto
    then show ?thesis using r by (auto simp: step)
  qed
qed

lemma part_bounds:
  assumes "part buf sz off = Some (o', n)"
  shows "o' < sz" "n = of_char (buf ! o')" "o' + 1 + n \<le> sz" "off < sz"
  using assms resolve.simps [of 16 buf sz off]
  by (auto simp: part_def split: option.splits if_splits)

lemma next_substring:
  assumes "sz \<le> length buf"
  shows "case part buf sz off of
      None \<Rightarrow> \<exists>r. mdns_get_next_substring buf sz off = Inr \<lparr>pair_offset = None, pair_length = 0, pair_ref = r\<rparr>
    | Some (o', n) \<Rightarrow> mdns_get_next_substring buf sz off =
        Inr \<lparr>pair_offset = Some (if n = 0 \<and> o' = off then off else o' + 1), pair_length = n, pair_ref = (o' \<noteq> off)\<rparr>"
proof (cases "sz \<le> off")
  case True
  then show ?thesis by (simp add: part_def resolve.simps [of 16] mdns_get_next_substring_def) blast
next
  case False
  then have off: "off < sz" "off < length buf" using assms by simp_all
  show ?thesis
  proof (cases "buf ! off = CHR 0x00")
    case True
    then have "resolve 16 buf sz off = Some off" using off by (simp add: resolve.simps [of 16])
    then show ?thesis using True off
      by (simp add: part_def mdns_get_next_substring_def byte_at_def)
  next
    case nz: False
    obtain r where r: "mdns_follow_refs buf sz 16 off False = Inr (resolve 16 buf sz off, r)"
      "\<And>o'. resolve 16 buf sz off = Some o' \<Longrightarrow> o' < sz \<and> r = (o' \<noteq> off)"
      using follow_refs [OF assms off(1), of 16 False] by blast
    show ?thesis
    proof (cases "resolve 16 buf sz off")
      case None
      then show ?thesis using r off nz by (simp add: part_def mdns_get_next_substring_def byte_at_def byte_zero_iff)
    next
      case (Some o')
      have "o' < length buf" "r = (o' \<noteq> off)" using r(2) [OF Some] assms by auto
      then show ?thesis using r(1) off nz Some
        by (auto simp: part_def mdns_get_next_substring_def byte_at_def byte_zero_iff)
    qed
  qed
qed

lemma next_substring_None:
  "sz \<le> length buf \<Longrightarrow> part buf sz off = None \<Longrightarrow>
   \<exists>r. mdns_get_next_substring buf sz off = Inr \<lparr>pair_offset = None, pair_length = 0, pair_ref = r\<rparr>"
  using next_substring [of sz buf off] by simp

lemma next_substring_Some:
  "sz \<le> length buf \<Longrightarrow> part buf sz off = Some (o', n) \<Longrightarrow> mdns_get_next_substring buf sz off =
     Inr \<lparr>pair_offset = Some (if n = 0 \<and> o' = off then off else o' + 1), pair_length = n, pair_ref = (o' \<noteq> off)\<rparr>"
  using next_substring [of sz buf off] by simp


subsection \<open>Names and their parts\<close>

lemma resolve_less: "resolve k buf sz off = Some o' \<Longrightarrow> o' < sz \<and> (of_char (buf ! o') :: nat) < 192"
proof (induction k arbitrary: off)
  case 0 then show ?case by (auto simp: resolve.simps [of 0] split: if_splits)
next
  case (Suc k) then show ?case by (fastforce simp: resolve.simps [of "Suc k"] split: if_splits)
qed

lemma name_resolve:
  "name_at k buf sz off ls e \<longleftrightarrow>
    (\<exists>o'. resolve k buf sz off = Some o' \<and> o' + 1 + of_char (buf ! o') \<le> sz \<and>
       (if buf ! o' = CHR 0x00 then ls = [] \<and> e = (if o' = off then off + 1 else off + 2)
        else \<exists>ls' e'. ls = take (of_char (buf ! o')) (drop (o' + 1) buf) # ls' \<and>
               name_at 16 buf sz (o' + 1 + of_char (buf ! o')) ls' e' \<and> e = (if o' = off then e' else off + 2)))"
  (is "_ \<longleftrightarrow> ?R k off ls e")
proof
  show "name_at k buf sz off ls e \<Longrightarrow> ?R k off ls e"
  proof (induction k buf sz off ls e rule: name_at.induct)
    case (root off sz buf k)
    then show ?case by (simp add: resolve.simps [of k])
  next
    case (label off sz buf n ls e k)
    then show ?case by (auto simp: resolve.simps [of k])
  next
    case (pointer off sz buf to k ls e)
    obtain o' where o': "resolve k buf sz to = Some o'" using pointer.IH by blast
    then have "o' \<noteq> off" using resolve_less [OF o'] pointer.hyps(2) by auto
    moreover have "resolve (Suc k) buf sz off = resolve k buf sz to"
      using pointer.hyps(1-3) by (simp add: resolve.simps [of "Suc k"])
    ultimately show ?case using pointer.IH o' by (auto split: if_splits)
  qed
next
  assume r: "?R k off ls e"
  have here: "name_at k buf sz off ls e'"
    if "resolve k buf sz off = Some off" "?R k off ls e'" for k off ls e'
  proof -
    have "off < sz" "(of_char (buf ! off) :: nat) < 192" using resolve_less [OF that(1)] by auto
    with that show ?thesis
      by (cases "buf ! off = CHR 0x00") (auto intro!: name_at.root [simplified] name_at.label [where n = "of_char (buf ! off)", simplified])
  qed
  from r show "name_at k buf sz off ls e"
  proof (induction k arbitrary: off e)
    case 0
    then have "resolve 0 buf sz off = Some off" by (auto simp: resolve.simps [of 0] split: if_splits)
    then show ?case using here 0 by blast
  next
    case (Suc k)
    let ?to = "(256 * of_char (buf ! off) + of_char (buf ! (off + 1))) mod 2 ^ 14 :: nat"
    show ?case
    proof (cases "(of_char (buf ! off) :: nat) < 192")
      case True
      then have "resolve (Suc k) buf sz off = Some off"
        using Suc.prems by (auto simp: resolve.simps [of "Suc k"] split: if_splits)
      then show ?thesis using here Suc.prems by blast
    next
      case False
      then have step: "resolve (Suc k) buf sz off = resolve k buf sz ?to" "off + 1 < sz"
        using Suc.prems by (auto simp: resolve.simps [of "Suc k"] split: if_splits)
      obtain o' where o': "resolve k buf sz ?to = Some o'" using Suc.prems step by auto
      then have "o' \<noteq> off" using resolve_less [OF o'] False by auto
      then have e: "e = off + 2" using Suc.prems step o' by (auto split: if_splits)
      have "\<exists>e'. ?R k ?to ls e'"
      proof (cases "buf ! o' = CHR 0x00")
        case True
        then show ?thesis using Suc.prems step o'
          by (intro exI [of _ "if o' = ?to then ?to + 1 else ?to + 2"] exI [of _ o']) auto
      next
        case nz: False
        then obtain ls' e' where "ls = take (of_char (buf ! o')) (drop (o' + 1) buf) # ls'"
          "name_at 16 buf sz (o' + 1 + of_char (buf ! o')) ls' e'" "o' + 1 + of_char (buf ! o') \<le> sz"
          using Suc.prems step o' by (auto split: if_splits)
        then show ?thesis using nz o'
          by (intro exI [of _ "if o' = ?to then e' else ?to + 2"] exI [of _ o']) auto
      qed
      then obtain e' where "name_at k buf sz ?to ls e'" using Suc.IH by blast
      then show ?thesis unfolding e using step(2) False by (intro name_at.pointer [OF _ _ refl]) auto
    qed
  qed
qed

lemma name_part:
  "name_at 16 buf sz off ls e \<longleftrightarrow>
    (\<exists>o' n. part buf sz off = Some (o', n) \<and>
       (if n = 0 then ls = [] \<and> e = (if o' = off then off + 1 else off + 2)
        else \<exists>ls' e'. ls = take n (drop (o' + 1) buf) # ls' \<and> name_at 16 buf sz (o' + 1 + n) ls' e' \<and>
               e = (if o' = off then e' else off + 2)))"
proof (cases "resolve 16 buf sz off")
  case None
  then show ?thesis by (subst name_resolve) (simp add: part_def)
next
  case (Some o')
  then show ?thesis
    by (subst name_resolve, cases "sz < o' + 1 + of_char (buf ! o')"; cases "buf ! o' = CHR 0x00"; cases "o' = off")
      (simp_all add: part_def)
qed


lemma name_at_simps:
  "part buf sz off = None \<Longrightarrow> \<not> name_at 16 buf sz off ls e"
  "part buf sz off = Some (o', 0) \<Longrightarrow>
    name_at 16 buf sz off ls e \<longleftrightarrow> ls = [] \<and> e = (if o' = off then off + 1 else off + 2)"
  "part buf sz off = Some (o', Suc n) \<Longrightarrow>
    name_at 16 buf sz off ls e \<longleftrightarrow> (\<exists>ls' e'. ls = take (Suc n) (drop (o' + 1) buf) # ls' \<and>
      name_at 16 buf sz (o' + 1 + Suc n) ls' e' \<and> e = (if o' = off then e' else off + 2))"
  by (subst name_part, simp)+

lemma ex_cons:
  "(\<exists>ls e0. (\<exists>ls' e'. ls = l # ls' \<and> N ls' e' \<and> e0 = g e') \<and> length ls < Suc n \<and> u = D ls \<and> v = F e0) \<longleftrightarrow>
   (\<exists>ls e0. N ls e0 \<and> length ls < n \<and> u = D (l # ls) \<and> v = F (g e0))"
  by fastforce

lemma extract_loop:
  assumes "sz \<le> length buf"
  shows "\<exists>r. mdns_extract_loop buf sz n cur e dst remain = Inr r \<and>
    (\<forall>e' t. r = Some (e', t) \<longleftrightarrow> (\<exists>ls e0. name_at 16 buf sz cur ls e0 \<and> length ls < n \<and>
       t = dst @ take remain (dotted ls) \<and> e' = (case e of None \<Rightarrow> e0 | Some x \<Rightarrow> x)))"
proof (induction n arbitrary: cur e dst remain)
  case 0
  then show ?case
    using next_substring [OF assms, of cur]
    by (subst mdns_extract_loop.simps) (auto split: option.splits)
next
  case (Suc n)
  show ?case
  proof (cases "part buf sz cur")
    case None
    then show ?thesis using next_substring_None [OF assms None]
      by (subst mdns_extract_loop.simps) (auto simp: name_at_simps(1))
  next
    case (Some p)
    obtain o' m where p: "part buf sz cur = Some (o', m)" using Some by (cases p) simp
    note sub = next_substring_Some [OF assms p] and b = part_bounds [OF p]
    show ?thesis
    proof (cases m)
      case 0
      then show ?thesis using p sub
        by (subst mdns_extract_loop.simps)
          (auto simp: name_at_simps(2) [of _ _ _ o'] end_pos_def Let_def split: option.splits)
    next
      case (Suc m')
      define k where "k = (if m < remain then m else remain)"
      define l where "l = take m (drop (o' + 1) buf)"
      define e1 where "e1 = end_pos e (o' \<noteq> cur) cur"
      define t where "t = take k l"
      have len: "length l = m" using b assms by (simp add: l_def)
      have bytes: "bytes_at buf (o' + 1) k = Inr t" using b assms by (auto simp: bytes_at_def k_def l_def t_def min_def)
      have step: "mdns_extract_loop buf sz (Suc n) cur e dst remain =
        (if 0 < remain - k then mdns_extract_loop buf sz n (o' + 1 + m) e1 (dst @ t @ ''.'') (remain - k - 1)
         else mdns_extract_loop buf sz n (o' + 1 + m) e1 (dst @ t) (remain - k))"
        by (subst mdns_extract_loop.simps)
          (use sub Suc bytes in \<open>auto simp: k_def e1_def [symmetric] Let_def\<close>)
      have dots: "take remain (dotted (l # ls)) = t @ (if 0 < remain - k then CHR ''.'' # take (remain - k - 1) (dotted ls) else [])"
        for ls by (simp add: len k_def t_def take_Cons' min_def)
      have name: "name_at 16 buf sz cur ls e0 \<longleftrightarrow> (\<exists>ls' e'. ls = l # ls' \<and> name_at 16 buf sz (o' + 1 + m) ls' e' \<and>
          e0 = (if o' = cur then e' else cur + 2))" for ls e0
        using name_at_simps(3) [of buf sz cur o' m'] p Suc by (simp add: l_def)
      have last: "(case e1 of None \<Rightarrow> e0 | Some x \<Rightarrow> x) = (case (if o' = cur then e0 else cur + 2) of y \<Rightarrow> case e of None \<Rightarrow> y | Some x \<Rightarrow> x)" for e0
        by (auto simp: e1_def end_pos_def split: option.splits)
      define t' where "t' = (if 0 < remain - k then t @ ''.'' else t)"
      define rem where "rem = remain - k - 1"
      have step': "mdns_extract_loop buf sz (Suc n) cur e dst remain = mdns_extract_loop buf sz n (o' + 1 + m) e1 (dst @ t') rem"
        unfolding step by (simp add: t'_def rem_def)
      have dots': "dst @ take remain (dotted (l # ls)) = (dst @ t') @ take rem (dotted ls)" for ls
        unfolding dots by (simp add: t'_def rem_def)
      obtain r where r: "mdns_extract_loop buf sz n (o' + 1 + m) e1 (dst @ t') rem = Inr r"
        "\<And>e' t. r = Some (e', t) \<longleftrightarrow> (\<exists>ls e0. name_at 16 buf sz (o' + 1 + m) ls e0 \<and> length ls < n \<and>
          t = (dst @ t') @ take rem (dotted ls) \<and> e' = (case e1 of None \<Rightarrow> e0 | Some x \<Rightarrow> x))"
        using Suc.IH [of "o' + 1 + m" e1 "dst @ t'" rem] by blast
      have "(\<exists>ls e0. name_at 16 buf sz cur ls e0 \<and> length ls < Suc n \<and>
          u = dst @ take remain (dotted ls) \<and> e' = (case e of None \<Rightarrow> e0 | Some x \<Rightarrow> x)) \<longleftrightarrow>
        (\<exists>ls e0. name_at 16 buf sz (o' + 1 + m) ls e0 \<and> length ls < n \<and>
          u = (dst @ t') @ take rem (dotted ls) \<and> e' = (case e1 of None \<Rightarrow> e0 | Some x \<Rightarrow> x))" for e' u
        unfolding name dots' [symmetric] last by (rule ex_cons)
      then show ?thesis unfolding step' using r by (intro exI [of _ r]) simp
    qed
  qed
qed

text \<open>
  Extracting a name: the call never reads outside the block, it succeeds exactly when there is a valid
  name of at most 64 labels at the offset, and then the text is the name with a dot after every label,
  as far as it fits.
\<close>

lemma extract_spec:
  assumes "sz \<le> length buf"
  shows "\<exists>r. mdns_string_extract buf sz off capacity = Inr r \<and>
    (\<forall>e t. r = Some (e, t) \<longleftrightarrow> (\<exists>ls. name_at 16 buf sz off ls e \<and> length ls \<le> 64 \<and> t = take capacity (dotted ls)))"
  using extract_loop [OF assms, of 65 off None "[]" capacity]
  by (simp add: mdns_string_extract_def less_Suc_eq_le [symmetric])


subsection \<open>Skipping and comparing\<close>

lemma skip_loop_safe:
  assumes "sz \<le> length buf"
  shows "\<exists>r. mdns_skip_loop buf sz n cur = Inr r \<and> (\<forall>e. r = Some e \<longrightarrow> cur < e \<and> e \<le> sz)"
proof (induction n arbitrary: cur)
  case 0
  then show ?case using next_substring [OF assms, of cur]
    by (subst mdns_skip_loop.simps) (auto split: option.splits)
next
  case (Suc n)
  show ?case
  proof (cases "part buf sz cur")
    case None
    then show ?thesis using next_substring_None [OF assms None] by (subst mdns_skip_loop.simps) auto
  next
    case (Some p)
    obtain o' m where p: "part buf sz cur = Some (o', m)" using Some by (cases p) simp
    note sub = next_substring_Some [OF assms p] and b = part_bounds [OF p]
    have "cur + 2 \<le> sz" if "o' \<noteq> cur"
      using p that by (auto simp: part_def resolve.simps [of 16 buf sz cur] split: option.splits if_splits)
    then show ?thesis using sub b Suc.IH [of "o' + 1 + m"]
      by (subst mdns_skip_loop.simps) (cases "o' = cur"; cases "m = 0"; auto)
  qed
qed

lemma skip_name:
  assumes "sz \<le> length buf"
  shows "name_at 16 buf sz cur ls e \<Longrightarrow> length ls < n \<Longrightarrow> mdns_skip_loop buf sz n cur = Inr (Some e)"
proof (induction n arbitrary: cur ls e)
  case (Suc n)
  obtain o' m where p: "part buf sz cur = Some (o', m)" using Suc.prems name_part by blast
  note sub = next_substring_Some [OF assms p]
  show ?case
  proof (cases m)
    case 0
    then show ?thesis using sub name_at_simps(2) [of buf sz cur o'] p Suc.prems
      by (subst mdns_skip_loop.simps) auto
  next
    case (Suc m')
    then obtain ls' e' where "ls = take m (drop (o' + 1) buf) # ls'" "name_at 16 buf sz (o' + 1 + m) ls' e'"
      "e = (if o' = cur then e' else cur + 2)"
      using name_at_simps(3) [of buf sz cur o' m'] p Suc.prems by auto
    then show ?thesis using sub Suc Suc.IH [of "o' + 1 + m" ls' e'] Suc.prems
      by (subst mdns_skip_loop.simps) auto
  qed
qed simp

lemmas skip_safe = skip_loop_safe [where n = 65, folded mdns_string_skip_def [simplified]]

lemma skip_spec:
  "sz \<le> length buf \<Longrightarrow> name_at 16 buf sz off ls e \<Longrightarrow> length ls \<le> 64 \<Longrightarrow> mdns_string_skip buf sz off = Inr (Some e)"
  using skip_name [of sz buf off ls e 65] by (simp add: mdns_string_skip_def)

definition same_label :: "string \<Rightarrow> string \<Rightarrow> bool" where
  "same_label l r \<longleftrightarrow> length l = length r \<and> strncasecmp_eq r l"

lemma ex_cons2:
  "(\<exists>ls rs e0 f0. (\<exists>ls' e'. ls = l # ls' \<and> N ls' e' \<and> e0 = g e') \<and> (\<exists>rs' e'. rs = r # rs' \<and> M rs' e' \<and> f0 = h e') \<and>
      length ls < Suc n \<and> list_all2 P ls rs \<and> u = F e0 \<and> v = G f0) \<longleftrightarrow>
   P l r \<and> (\<exists>ls rs e0 f0. N ls e0 \<and> M rs f0 \<and> length ls < n \<and> list_all2 P ls rs \<and> u = F (g e0) \<and> v = G (h f0))"
  by fastforce

abbreviation at_end :: "nat option \<Rightarrow> nat \<Rightarrow> nat" where
  "at_end e e0 \<equiv> (case e of None \<Rightarrow> e0 | Some x \<Rightarrow> x)"

lemma at_end_pos: "at_end (end_pos e (o' \<noteq> cur) cur) e0 = at_end e (if o' = cur then e0 else cur + 2)"
  by (auto simp: end_pos_def split: option.splits)

lemma equal_loop:
  assumes "sz \<le> length buf" "sz' \<le> length buf'"
  shows "\<exists>r. mdns_equal_loop buf sz buf' sz' n cur e cur' e' = Inr r \<and>
    (\<forall>u v. r = Some (u, v) \<longleftrightarrow> (\<exists>ls rs e0 f0. name_at 16 buf sz cur ls e0 \<and> name_at 16 buf' sz' cur' rs f0 \<and>
       length ls < n \<and> list_all2 same_label ls rs \<and> u = at_end e e0 \<and> v = at_end e' f0))"
proof (induction n arbitrary: cur e cur' e')
  case 0
  then show ?case
    using next_substring [OF assms(1), of cur] next_substring [OF assms(2), of cur']
    by (subst mdns_equal_loop.simps) (auto split: option.splits)
next
  case (Suc n)
  show ?case
  proof (cases "part buf sz cur = None \<or> part buf' sz' cur' = None")
    case True
    then show ?thesis using next_substring [OF assms(1), of cur] next_substring [OF assms(2), of cur']
      by (subst mdns_equal_loop.simps) (auto simp: name_at_simps(1) split: option.splits)
  next
    case False
    obtain o' m where p: "part buf sz cur = Some (o', m)" using False by auto
    obtain o2 m2 where p2: "part buf' sz' cur' = Some (o2, m2)" using False by auto
    note sub = next_substring_Some [OF assms(1) p] next_substring_Some [OF assms(2) p2]
    note b = part_bounds [OF p] part_bounds [OF p2]
    define l where "l = take m (drop (o' + 1) buf)"
    define r where "r = take m2 (drop (o2 + 1) buf')"
    have len: "length l = m" "length r = m2" using b assms by (simp_all add: l_def r_def)
    show ?thesis
    proof (cases "m = m2")
      case ne: False
      have "\<not> (\<exists>ls rs e0 f0. name_at 16 buf sz cur ls e0 \<and> name_at 16 buf' sz' cur' rs f0 \<and> list_all2 same_label ls rs)"
        using ne p p2 b(3,7) assms unfolding name_part [of buf sz cur] name_part [of buf' sz' cur']
        by (auto simp: same_label_def split: if_splits)
      then show ?thesis using ne sub by (subst mdns_equal_loop.simps) auto
    next
      case eq: True
      show ?thesis
      proof (cases m)
        case 0
        then show ?thesis using eq p p2 sub b assms
          by (subst mdns_equal_loop.simps)
            (auto simp: name_at_simps(2) [of buf sz cur o'] name_at_simps(2) [of buf' sz' cur' o2] end_pos_def
               bytes_at_def Let_def split: option.splits)
      next
        case (Suc m')
        have bytes: "bytes_at buf (o' + 1) m = Inr l" "bytes_at buf' (o2 + 1) m = Inr r"
          using b assms eq by (auto simp: bytes_at_def l_def r_def)
        have step: "mdns_equal_loop buf sz buf' sz' (Suc n) cur e cur' e' =
          (if \<not> same_label l r then Inr None
           else mdns_equal_loop buf sz buf' sz' n (o' + 1 + m) (end_pos e (o' \<noteq> cur) cur) (o2 + 1 + m)
                  (end_pos e' (o2 \<noteq> cur') cur'))"
          by (subst mdns_equal_loop.simps) (use sub Suc eq bytes len in \<open>simp add: Let_def same_label_def\<close>)
        have names: "name_at 16 buf sz cur ls e0 \<longleftrightarrow> (\<exists>ls' e'. ls = l # ls' \<and> name_at 16 buf sz (o' + 1 + m) ls' e' \<and>
            e0 = (if o' = cur then e' else cur + 2))"
          "name_at 16 buf' sz' cur' ls e0 \<longleftrightarrow> (\<exists>ls' e'. ls = r # ls' \<and> name_at 16 buf' sz' (o2 + 1 + m) ls' e' \<and>
            e0 = (if o2 = cur' then e' else cur' + 2))" for ls e0
          using name_at_simps(3) [of buf sz cur o' m'] name_at_simps(3) [of buf' sz' cur' o2 m'] p p2 Suc eq
          by (simp_all add: l_def r_def)
        obtain w where w: "mdns_equal_loop buf sz buf' sz' n (o' + 1 + m) (end_pos e (o' \<noteq> cur) cur) (o2 + 1 + m)
              (end_pos e' (o2 \<noteq> cur') cur') = Inr w"
          "\<And>u v. w = Some (u, v) \<longleftrightarrow> (\<exists>ls rs e0 f0. name_at 16 buf sz (o' + 1 + m) ls e0 \<and>
             name_at 16 buf' sz' (o2 + 1 + m) rs f0 \<and> length ls < n \<and> list_all2 same_label ls rs \<and>
             u = at_end e (if o' = cur then e0 else cur + 2) \<and> v = at_end e' (if o2 = cur' then f0 else cur' + 2))"
          using Suc.IH [of "o' + 1 + m" "end_pos e (o' \<noteq> cur) cur" "o2 + 1 + m" "end_pos e' (o2 \<noteq> cur') cur'"]
          unfolding at_end_pos by blast
        show ?thesis unfolding step names ex_cons2 w(1) using w(2) by simp
      qed
    qed
  qed
qed

lemma equal_spec:
  assumes "sz \<le> length buf" "sz' \<le> length buf'"
  shows "\<exists>r. mdns_string_equal buf sz off buf' sz' off' = Inr r \<and>
    (\<forall>u v. r = Some (u, v) \<longleftrightarrow> (\<exists>ls rs. name_at 16 buf sz off ls u \<and> name_at 16 buf' sz' off' rs v \<and>
       length ls \<le> 64 \<and> list_all2 same_label ls rs))"
  using equal_loop [OF assms, of 65 off None off' None]
  by (simp add: mdns_string_equal_def less_Suc_eq_le [symmetric])


subsection \<open>Writing: bounds\<close>

lemma find_safe: "len \<le> length str \<Longrightarrow> \<exists>r. mdns_string_find str len c off = Inr r"
  by (auto simp: mdns_string_find_def split: option.splits)

lemma bytes_at_ok: "i + n \<le> length buf \<Longrightarrow> bytes_at buf i n = Inr (take n (drop i buf))"
  by (simp add: bytes_at_def)

lemma poke_ok: "i + length bs \<le> length buf \<Longrightarrow> poke buf i bs = Inr (take i buf @ bs @ drop (i + length bs) buf)"
  by (simp add: poke_def)

lemma length_poke: "poke buf i bs = Inr b \<Longrightarrow> length b = length buf"
  by (auto simp: poke_def split: if_splits)

text \<open>A part with a length: its characters are in the block.\<close>

lemma next_substring_safe:
  assumes "cap \<le> length buf"
  obtains sub where "mdns_get_next_substring buf cap pos = Inr sub"
    "pair_length sub \<noteq> 0 \<Longrightarrow> the (pair_offset sub) + pair_length sub \<le> length buf"
proof (cases "part buf cap pos")
  case None
  then show ?thesis using next_substring_None [OF assms None] that by fastforce
next
  case (Some p)
  obtain o' n where p: "part buf cap pos = Some (o', n)" using Some by (cases p) simp
  show ?thesis using that [OF next_substring_Some [OF assms p]] part_bounds [OF p] assms by simp
qed

lemma match_rest_safe:
  assumes "cap \<le> length buf" "tot \<le> length str"
  shows "\<exists>r. mdns_match_rest buf cap str tot offset pos = Inr r"
proof (induction "tot - offset" arbitrary: offset pos rule: less_induct)
  case less
  show ?case
  proof (cases "offset < tot")
    case True
    obtain dot where dot: "mdns_string_find str tot (CHR ''.'') offset = Inr dot" using find_safe [OF assms(2)] by blast
    define d where "d = (case dot of None \<Rightarrow> tot | Some d \<Rightarrow> d)"
    have d: "offset \<le> d" "d \<le> tot" using dot True find_bounds by (auto simp: d_def split: option.splits dest!: find_bounds)
    obtain sub where sub: "mdns_get_next_substring buf cap pos = Inr sub"
      "pair_length sub \<noteq> 0 \<Longrightarrow> the (pair_offset sub) + pair_length sub \<le> length buf"
      using next_substring_safe [OF assms(1)] by blast
    obtain r where "mdns_match_rest buf cap str tot (d + 1) (the (pair_offset sub) + pair_length sub) = Inr r"
      using less [of "d + 1"] d True by fastforce
    then show ?thesis using True dot sub d assms(2)
      by (subst mdns_match_rest.simps, cases "pair_length sub \<noteq> 0 \<and> pair_length sub = d - offset")
        (auto simp: d_def [symmetric] bytes_at_ok)
  qed (subst mdns_match_rest.simps, auto)
qed

lemma table_search_safe:
  assumes "cap \<le> length buf" "tot \<le> length str" "first \<le> length str"
  shows "\<exists>r. mdns_table_search offs buf cap str first tot = Inr r \<and> (\<forall>x. r = Some x \<longrightarrow> x \<in> set offs \<and> x < cap)"
proof (induction offs)
  case (Cons off offs)
  obtain r where r: "mdns_table_search offs buf cap str first tot = Inr r"
    "\<And>x. r = Some x \<Longrightarrow> x \<in> set offs \<and> x < cap" using Cons by blast
  obtain sub where sub: "mdns_get_next_substring buf cap off = Inr sub"
    "pair_length sub \<noteq> 0 \<Longrightarrow> the (pair_offset sub) + pair_length sub \<le> length buf"
    using next_substring_safe [OF assms(1)] by blast
  obtain m where "mdns_match_rest buf cap str tot (first + 1) (the (pair_offset sub) + pair_length sub) = Inr m"
    using match_rest_safe [OF assms(1,2)] by blast
  then show ?case using r sub assms(3) by (cases m) (auto simp: bytes_at_ok)
qed simp

lemma table_find_safe:
  assumes "cap \<le> length buf" "tot \<le> length str" "first \<le> length str"
  shows "\<exists>r. mdns_string_table_find tab buf cap str first tot = Inr r"
  using table_search_safe [OF assms]
  by (cases tab) (fastforce simp: mdns_string_table_find_def)+

text \<open>The outcomes that a writer may have: the block keeps its length and the end is inside.\<close>

definition written_ok :: "nat \<Rightarrow> nat \<Rightarrow> nat \<Rightarrow> fault + written \<Rightarrow> bool" where
  "written_ok n data cap r \<longleftrightarrow> (\<exists>b d t. r = Inr (b, d, t) \<and> length b = n \<and> (\<forall>x. d = Some x \<longrightarrow> data < x \<and> x \<le> cap))"

lemma make_loop_safe:
  assumes "cap \<le> length buf" "len \<le> length name" "data \<le> cap"
  shows "written_ok (length buf) data cap (mdns_make_loop buf cap data name len tab pos)"
  using assms
proof (induction "len - pos" arbitrary: buf data tab pos rule: less_induct)
  case less
  show ?case
  proof (cases "pos < len")
    case False
    then show ?thesis using less.prems
      by (subst mdns_make_loop.simps) (auto simp: written_ok_def poke_ok)
  next
    case True
    obtain dot where dot: "mdns_string_find name len (CHR ''.'') pos = Inr dot" using find_safe [OF less.prems(2)] by blast
    define d where "d = (case dot of Some p \<Rightarrow> p | None \<Rightarrow> len)"
    define nxt where "nxt = (case dot of Some p \<Rightarrow> p + 1 | None \<Rightarrow> len)"
    have d: "pos \<le> d" "d \<le> len" "pos < nxt"
      using dot True by (auto simp: d_def nxt_def split: option.splits dest!: find_bounds)
    have "\<exists>r. mdns_string_table_find tab buf cap (drop pos name) (d - pos) (len - pos) = Inr r"
      by (rule table_find_safe) (use d less.prems in auto)
    then obtain r where r: "mdns_string_table_find tab buf cap (drop pos name) (d - pos) (len - pos) = Inr r" by blast
    show ?thesis
    proof (cases r)
      case (Some x)
      then show ?thesis using True dot r less.prems
        by (subst mdns_make_loop.simps)
          (auto simp: written_ok_def Let_def d_def [symmetric] mdns_string_make_ref_def mdns_htons_def poke_ok net16_def)
    next
      case None
      show ?thesis
      proof (cases "cap - data \<le> d - pos + 1")
        case True
        then show ?thesis using \<open>pos < len\<close> dot r None less.prems
          by (subst mdns_make_loop.simps) (auto simp: written_ok_def Let_def d_def [symmetric])
      next
        case fits: False
        define b1 where "b1 = take data buf @ [char_of (d - pos)] @ drop (data + 1) buf"
        define l where "l = take (d - pos) (drop pos name)"
        define b2 where "b2 = take (data + 1) b1 @ l @ drop (data + 1 + (d - pos)) b1"
        have len: "length l = d - pos" "length b1 = length buf" "length b2 = length buf"
          using fits less.prems d by (auto simp: b1_def l_def b2_def)
        have pokes: "poke buf data [char_of (d - pos)] = Inr b1" "bytes_at name pos (d - pos) = Inr l"
          "poke b1 (data + 1) l = Inr b2"
          using fits less.prems d len by (auto simp: poke_ok bytes_at_ok b1_def l_def b2_def)
        have "mdns_make_loop buf cap data name len tab pos =
            mdns_make_loop b2 cap (data + (d - pos) + 1) name len (mdns_string_table_add tab data) nxt"
          by (subst mdns_make_loop.simps)
            (use \<open>pos < len\<close> dot r None fits less.prems pokes in
              \<open>simp add: Let_def d_def [symmetric] nxt_def [symmetric] del: char_of_nat\<close>)
        moreover have "written_ok (length b2) (data + (d - pos) + 1) cap
            (mdns_make_loop b2 cap (data + (d - pos) + 1) name len (mdns_string_table_add tab data) nxt)"
          by (rule less.hyps) (use d \<open>pos < len\<close> fits less.prems len in auto)
        ultimately show ?thesis unfolding written_ok_def len by fastforce
      qed
    qed
  qed
qed

text \<open>Writing a name into the free part of a block never touches anything outside, whatever is in the table.\<close>

lemma make_safe:
  assumes "cap \<le> length buf" "len \<le> length name" "0 < len" "data \<le> cap"
  shows "written_ok (length buf) data cap (mdns_string_make buf cap data name len tab)"
  using assms make_loop_safe [OF assms(1) _ assms(4)] by (simp add: mdns_string_make_def)


subsection \<open>Writing without a table, and reading back\<close>

fun plain :: "string list \<Rightarrow> string" where
  "plain [] = []"
| "plain [l] = l"
| "plain (l # ls) = l @ CHR ''.'' # plain ls"

definition labels_wire :: "string list \<Rightarrow> string" where
  "labels_wire ls = concat (map (\<lambda>l. char_of (length l) # l) ls)"

text \<open>A name in a packet: every label with its length before it, and a zero byte.\<close>

definition wire :: "string list \<Rightarrow> string" where
  "wire ls = labels_wire ls @ [CHR 0x00]"

definition labels_ok :: "string list \<Rightarrow> bool" where
  "labels_ok ls \<longleftrightarrow> ls \<noteq> [] \<and> length ls \<le> 64 \<and> (\<forall>l \<in> set ls. l \<noteq> [] \<and> length l \<le> 63 \<and> CHR ''.'' \<notin> set l)"

lemma labels_wire_simps [simp]:
  "labels_wire [] = []" "labels_wire (l # ls) = char_of (length l) # l @ labels_wire ls"
  by (simp_all add: labels_wire_def)

lemma length_wire: "length (wire ls) = sum_list (map length ls) + length ls + 1"
  by (induction ls) (auto simp: wire_def)

lemma plain_nonempty: "ls \<noteq> [] \<Longrightarrow> \<forall>l \<in> set ls. l \<noteq> [] \<Longrightarrow> plain ls \<noteq> []"
  by (cases ls; cases "tl ls") auto

lemma first_dot: "CHR ''.'' \<notin> set l \<Longrightarrow> first_index (\<lambda>x. x = CHR ''.'') (l @ r) =
    map_option (\<lambda>i. length l + i) (first_index (\<lambda>x. x = CHR ''.'') r)"
  by (cases "first_index (\<lambda>x. x = CHR ''.'') r") (induction l, auto)+

lemma find_label:
  assumes "take (len - pos) (drop pos name) = plain (l # ls)" "CHR ''.'' \<notin> set l" "len \<le> length name" "pos < len"
  shows "mdns_string_find name len (CHR ''.'') pos = Inr (if ls = [] then None else Some (pos + length l))"
proof -
  have "first_index (\<lambda>x. x = CHR ''.'') (plain (l # ls)) = (if ls = [] then None else Some (length l))"
    using first_dot [OF assms(2), of "[]"] first_dot [OF assms(2), of "CHR ''.'' # plain ls"] by (cases ls) auto
  then show ?thesis using assms by (simp add: mdns_string_find_def)
qed

lemma make_labels:
  assumes "cap \<le> length buf" "data \<le> cap" "len \<le> length name" "pos < len"
    "take (len - pos) (drop pos name) = plain ls" "ls \<noteq> []"
    "\<forall>l \<in> set ls. l \<noteq> [] \<and> length l < 256 \<and> CHR ''.'' \<notin> set l"
  shows "if data + length (wire ls) \<le> cap
    then mdns_make_loop buf cap data name len None pos =
      Inr (take data buf @ wire ls @ drop (data + length (wire ls)) buf, Some (data + length (wire ls)), None)
    else \<exists>b. mdns_make_loop buf cap data name len None pos = Inr (b, None, None)"
  using assms
proof (induction ls arbitrary: buf data pos)
  case (Cons l ls)
  note pre = Cons.prems
  have dots: "CHR ''.'' \<notin> set l" and l: "l \<noteq> []" using pre(7) by auto
  have total: "len - pos = length (plain (l # ls))"
    using pre(3,4,5) by (metis diff_le_mono length_drop length_take min.absorb2)
  have pl: "length l \<le> len - pos" unfolding total by (cases ls) auto
  have this_label: "take (length l) (drop pos name) = l"
  proof -
    have "take (length l) (take (len - pos) (drop pos name)) = take (length l) (plain (l # ls))" using pre(5) by simp
    then show ?thesis using pl by (cases ls) (simp_all add: min_def)
  qed
  have find: "mdns_string_find name len (CHR ''.'') pos = Inr (if ls = [] then None else Some (pos + length l))"
    by (rule find_label [OF pre(5) dots pre(3,4)])
  have stop: "len = pos + length l" if "ls = []" using total that pre(4) by simp
  define nxt where "nxt = (if ls = [] then len else pos + length l + 1)"
  have remain: "size_sub cap data = cap - data" using pre(2) by simp
  have fst: "mdns_make_loop buf cap data name len None pos =
      (if cap - data \<le> length l + 1 then Inr (buf, None, None)
       else or_fault (poke buf data [char_of (length l)]) (\<lambda>b. or_fault (bytes_at name pos (length l)) (\<lambda>lab.
         or_fault (poke b (data + 1) lab) (\<lambda>b. mdns_make_loop b cap (data + length l + 1) name len None nxt))))"
    by (subst mdns_make_loop.simps)
      (use pre(4) stop in \<open>auto simp: find remain Let_def mdns_string_table_find_def mdns_string_table_add_def nxt_def\<close>)
  show ?case
  proof (cases "cap - data \<le> length l + 1")
    case True
    then have "\<not> data + length (wire (l # ls)) \<le> cap" by (auto simp: wire_def)
    then show ?thesis using True by (simp add: fst)
  next
    case False
    define b2 where "b2 = take data buf @ (char_of (length l) # l) @ drop (data + length l + 1) buf"
    have "mdns_make_loop buf cap data name len None pos = mdns_make_loop b2 cap (data + length l + 1) name len None nxt"
    proof -
      have "poke (take data buf @ char_of (length l) # drop (Suc data) buf) (Suc data) l = Inr b2"
        using False pre(1,2) by (subst poke_ok) (auto simp: b2_def min_def take_Cons' add.commute)
      then show ?thesis
        using False pre(1-4) pl this_label unfolding fst by (simp add: poke_ok bytes_at_ok)
    qed
    note step = this
    have b2: "length b2 = length buf" using False pre(1,2) by (simp add: b2_def)
    have tb: "take (data + length l + 1) b2 = take data buf @ char_of (length l) # l"
      "drop (data + length l + 1 + k) b2 = drop (data + length l + 1 + k) buf" for k
      using False pre(1,2) by (simp_all add: b2_def min_def drop_Cons' add.commute)
    show ?thesis
    proof (cases "ls = []")
      case True
      then show ?thesis using False pre(1,2) b2 tb(1) tb(2) [of 1] tb(2) [of 0] unfolding step nxt_def
        by (subst (1 2) mdns_make_loop.simps) (auto simp: poke_ok wire_def b2_def)
    next
      case more: False
      have "take (len - nxt) (drop nxt name) = plain ls"
      proof -
        have "drop (length l + 1) (take (len - pos) (drop pos name)) = drop (length l + 1) (plain (l # ls))" using pre(5) by simp
        then show ?thesis using more by (cases ls) (simp_all add: nxt_def drop_take add.commute add.left_commute)
      qed
      moreover have "nxt < len"
      proof -
        have "0 < length (plain ls)" using plain_nonempty [OF more] pre(7) by simp
        moreover have "length (plain (l # ls)) = length l + 1 + length (plain ls)" using more by (cases ls) auto
        ultimately show ?thesis using total more pre(4) by (simp add: nxt_def del: length_greater_0_conv)
      qed
      ultimately have ih: "if data + length l + 1 + length (wire ls) \<le> cap
        then mdns_make_loop b2 cap (data + length l + 1) name len None nxt =
          Inr (take (data + length l + 1) b2 @ wire ls @ drop (data + length l + 1 + length (wire ls)) b2,
               Some (data + length l + 1 + length (wire ls)), None)
        else \<exists>b. mdns_make_loop b2 cap (data + length l + 1) name len None nxt = Inr (b, None, None)"
        by (intro Cons.IH) (use pre b2 more False in auto)
      have w: "wire (l # ls) = char_of (length l) # l @ wire ls" by (simp add: wire_def)
      show ?thesis using ih unfolding step tb w by (auto simp: add.commute add.left_commute)
    qed
  qed
qed simp


lemma plain_last: "ls \<noteq> [] \<Longrightarrow> \<forall>l \<in> set ls. l \<noteq> [] \<and> CHR ''.'' \<notin> set l \<Longrightarrow> last (plain ls) \<noteq> CHR ''.''"
proof (induction ls rule: plain.induct)
  case (2 l)
  then have "last l \<in> set l" "CHR ''.'' \<notin> set l" by simp_all
  then show ?case by auto
next
  case (3 l m ms)
  then show ?case using plain_nonempty [of "m # ms"] by simp
qed simp

lemma dotted_plain: "ls \<noteq> [] \<Longrightarrow> dotted ls = plain ls @ ''.''"
  by (induction ls rule: plain.induct) auto

text \<open>Writing a name, with or without its last dot.\<close>

lemma make_wire:
  assumes "labels_ok ls" "name = plain ls \<or> name = dotted ls" "cap \<le> length buf" "data \<le> cap"
  shows "if data + length (wire ls) \<le> cap
    then mdns_string_make buf cap data name (length name) None =
      Inr (take data buf @ wire ls @ drop (data + length (wire ls)) buf, Some (data + length (wire ls)), None)
    else \<exists>b. mdns_string_make buf cap data name (length name) None = Inr (b, None, None)"
proof -
  have ls: "ls \<noteq> []" "\<forall>l \<in> set ls. l \<noteq> [] \<and> length l < 256 \<and> CHR ''.'' \<notin> set l"
    using assms(1) by (auto simp: labels_ok_def)
  have ne: "plain ls \<noteq> []" "last (plain ls) \<noteq> CHR ''.''"
    using plain_nonempty [OF ls(1)] plain_last [OF ls(1)] ls(2) by auto
  have "mdns_string_make buf cap data name (length name) None = mdns_make_loop buf cap data name (length (plain ls)) None 0"
    using assms(2) ne dotted_plain [OF ls(1)]
    by (auto simp: mdns_string_make_def last_conv_nth nth_append)
  moreover have "take (length (plain ls) - 0) (drop 0 name) = plain ls" "length (plain ls) \<le> length name"
    using assms(2) dotted_plain [OF ls(1)] by auto
  ultimately show ?thesis using make_labels [OF assms(3,4), of "length (plain ls)" name 0 ls] ls ne by simp
qed

text \<open>What is on the wire is the name.\<close>

lemma wire_name:
  assumes "\<forall>l \<in> set ls. l \<noteq> [] \<and> length l < 192" "length pre + length (wire ls) \<le> sz"
  shows "name_at k (pre @ wire ls @ post) sz (length pre) ls (length pre + length (wire ls))"
  using assms
proof (induction ls arbitrary: pre k)
  case Nil
  then show ?case using name_at.root [of "length pre" sz "pre @ wire [] @ post" k] by (simp add: wire_def nth_append)
next
  case (Cons l ls)
  let ?buf = "pre @ wire (l # ls) @ post"
  have w: "wire (l # ls) = char_of (length l) # l @ wire ls" by (simp add: wire_def)
  have "name_at 16 ((pre @ char_of (length l) # l) @ wire ls @ post) sz (length (pre @ char_of (length l) # l)) ls
      (length (pre @ char_of (length l) # l) + length (wire ls))"
    by (rule Cons.IH) (use Cons.prems w in auto)
  then have rest: "name_at 16 ?buf sz (length pre + 1 + length l) ls (length pre + length (wire (l # ls)))"
    by (simp add: w add.commute add.left_commute)
  have byte: "of_char (?buf ! length pre) = length l" using Cons.prems(1) by (simp add: w)
  have bounds: "length pre + 1 + length l \<le> sz" "length pre < sz" "0 < length l" "length l < 192"
    using Cons.prems by (auto simp: w)
  have "name_at k ?buf sz (length pre) (take (length l) (drop (length pre + 1) ?buf) # ls) (length pre + length (wire (l # ls)))"
    by (rule name_at.label [OF bounds(2) byte bounds(3,4,1) rest])
  moreover have "take (length l) (drop (length pre + 1) ?buf) = l" by (simp add: w)
  ultimately show ?case by (simp only:)
qed

inductive_cases name_atE: "name_at k buf sz off ls e"

text \<open>There is at most one name at an offset.\<close>

lemma name_at_deterministic:
  "name_at k buf sz off ls e \<Longrightarrow> name_at k buf sz off ls' e' \<Longrightarrow> ls' = ls \<and> e' = e"
proof (induction arbitrary: ls' e' rule: name_at.induct)
  case (root off sz buf k)
  from root.prems root.hyps show ?case by (cases rule: name_atE) auto
next
  case (label off sz buf n ls e k)
  have IH: "name_at 16 buf sz (Suc (off + of_char (buf ! off))) a b \<Longrightarrow> a = ls \<and> b = e" for a b
    using label.IH [of a b] label.hyps(2) by simp
  from label.prems show ?case
    by (rule name_atE) (use label.hyps(2-4) in \<open>auto dest!: IH\<close>)
next
  case (pointer off sz buf to k ls e)
  have IH: "name_at k buf sz ((256 * of_char (buf ! off) + of_char (buf ! Suc off)) mod 16384) a b \<Longrightarrow> a = ls \<and> b = e" for a b
    using pointer.IH [of a b] pointer.hyps(3) by simp
  from pointer.prems show ?case
    by (rule name_atE) (use pointer.hyps(2) in \<open>auto dest!: IH\<close>)
qed


section \<open>Properties\<close>


definition demo_names :: string where
  "demo_names = CHR 0x02 # ''ab'' @ CHR 0x01 # ''c'' @ CHR 0x00 # CHR 0x01 # ''d'' @ [CHR 0xC0, CHR 0x00]"



definition demo_service :: "string list" where
  "demo_service = [''_ezm'', ''_tcp'', ''local'']"


text \<open>
  A compressed name may be wrong: the search of the table does not check that the string in the table
  ends where the name ends, so a name that begins a longer one is written as a pointer to the longer one.
\<close>

lemma table_first:
  "mdns_string_table_add (Some string_table_empty) off = Some \<lparr>tab_offset = off # replicate 15 0, tab_count = 1, tab_next = 1\<rparr>"
  by (simp add: mdns_string_table_add_def string_table_empty_def numeral_eq_Suc)

lemma compression_of_a_prefix:
  assumes "buf = CHR 0x01 # ''a'' @ CHR 0x01 # ''b'' @ replicate 10 CHR 0x00"
    "tab = mdns_string_table_add (Some string_table_empty) 0"
  shows "mdns_string_make buf 14 5 ''a'' 1 tab = Inr (take 5 buf @ [CHR 0xC0] @ drop 6 buf, Some 7, tab)"
    "mdns_string_extract (take 5 buf @ [CHR 0xC0] @ drop 6 buf) 14 5 100 = Inr (Some (7, ''a.b.''))"
  unfolding assms table_first by (simp_all add: packet_eval cong: or_fault_weak) (simp add: numeral_eq_Suc)

end
