(* ===== verification/Mdns.thy ===== *)
theory Mdns
  imports DnsName
begin

text \<open>
  \<open>lib/mdns/mdns.h\<close>, the packets: reading the sections of a packet and calling back for every record, the
  three receivers, the senders of queries and answers, and the parsers of the records. The callback is an
  argument, as in the code. A datagram is an argument where \<open>recvfrom\<close> is called, and what is given to
  \<open>sendto\<close> is a result. The socket is the result of \<open>getsockname\<close> and whether \<open>sendto\<close> succeeds.
\<close>

section \<open>Receiving\<close>

datatype mdns_entry_type_t =
    MDNS_ENTRYTYPE_QUESTION
  | MDNS_ENTRYTYPE_ANSWER
  | MDNS_ENTRYTYPE_AUTHORITY
  | MDNS_ENTRYTYPE_ADDITIONAL

abbreviation MDNS_RECORDTYPE_A :: "16 word" where "MDNS_RECORDTYPE_A \<equiv> 1"
abbreviation MDNS_RECORDTYPE_PTR :: "16 word" where "MDNS_RECORDTYPE_PTR \<equiv> 12"
abbreviation MDNS_RECORDTYPE_TXT :: "16 word" where "MDNS_RECORDTYPE_TXT \<equiv> 16"
abbreviation MDNS_RECORDTYPE_AAAA :: "16 word" where "MDNS_RECORDTYPE_AAAA \<equiv> 28"
abbreviation MDNS_RECORDTYPE_SRV :: "16 word" where "MDNS_RECORDTYPE_SRV \<equiv> 33"
abbreviation MDNS_CLASS_IN :: "16 word" where "MDNS_CLASS_IN \<equiv> 1"
abbreviation MDNS_CLASS_ANY :: "16 word" where "MDNS_CLASS_ANY \<equiv> 255"
abbreviation MDNS_CACHE_FLUSH :: "16 word" where "MDNS_CACHE_FLUSH \<equiv> 0x8000"
abbreviation MDNS_UNICAST_RESPONSE :: "16 word" where "MDNS_UNICAST_RESPONSE \<equiv> 0x8000"

text \<open>The arguments of a callback that describe the packet. A result \<open>True\<close> stops the parsing.\<close>

record mdns_entry =
  cb_entry :: mdns_entry_type_t
  cb_query_id :: "16 word"
  cb_rtype :: "16 word"
  cb_rclass :: "16 word"
  cb_ttl :: "32 word"
  cb_data :: string
  cb_size :: nat
  cb_name_offset :: nat
  cb_name_length :: nat
  cb_record_offset :: nat
  cb_record_length :: nat

type_synonym 'u callback = "mdns_entry \<Rightarrow> 'u \<Rightarrow> fault + bool \<times> 'u"

definition call_back :: "'u callback option \<Rightarrow> mdns_entry \<Rightarrow> 'u \<Rightarrow> fault + bool \<times> 'u" where
  "call_back callback e user = (case callback of None \<Rightarrow> Inr (False, user) | Some f \<Rightarrow> f e user)"

text \<open>
  The loop over the records of a section: how many were parsed, the offset, and the data of the user.
  A failed skip of the name is not noticed. After a stop the offset stays at the record.
\<close>

fun mdns_records_parse ::
  "'u callback option \<Rightarrow> string \<Rightarrow> nat \<Rightarrow> mdns_entry_type_t \<Rightarrow> 16 word \<Rightarrow> nat \<Rightarrow> nat \<Rightarrow> nat \<Rightarrow> 'u
   \<Rightarrow> fault + nat \<times> nat \<times> 'u" where
  "mdns_records_parse callback buffer sz type query_id 0 parsed offset user = Inr (parsed, offset, user)"
| "mdns_records_parse callback buffer sz type query_id (Suc n) parsed name_offset user =
     or_fault (mdns_string_skip buffer sz name_offset) (\<lambda>skipped.
       let offset = (case skipped of None \<Rightarrow> name_offset | Some e \<Rightarrow> e)
       in if sz < offset + 10 then Inr (parsed, offset, user)
          else
            or_fault (mdns_ntohs buffer offset) (\<lambda>rtype.
            or_fault (mdns_ntohs buffer (offset + 2)) (\<lambda>rclass.
            or_fault (mdns_ntohl buffer (offset + 4)) (\<lambda>ttl.
            or_fault (mdns_ntohs buffer (offset + 8)) (\<lambda>len.
              let record_offset = offset + 10
              in if unat len \<le> sz - record_offset then
                   or_fault (call_back callback
                       \<lparr>cb_entry = type, cb_query_id = query_id, cb_rtype = rtype, cb_rclass = rclass, cb_ttl = ttl,
                        cb_data = buffer, cb_size = sz, cb_name_offset = name_offset,
                        cb_name_length = offset - name_offset, cb_record_offset = record_offset,
                        cb_record_length = unat len\<rparr> user) (\<lambda>(stop, user).
                     if stop then Inr (parsed + 1, record_offset, user)
                     else mdns_records_parse callback buffer sz type query_id n (parsed + 1) (record_offset + unat len) user)
                 else mdns_records_parse callback buffer sz type query_id n parsed (record_offset + unat len) user)))))"

text \<open>The sections one after the other: a section that was not parsed to its end is the last.\<close>

fun mdns_sections ::
  "'u callback option \<Rightarrow> string \<Rightarrow> nat \<Rightarrow> 16 word \<Rightarrow> (mdns_entry_type_t \<times> nat) list \<Rightarrow> nat \<Rightarrow> nat \<Rightarrow> 'u
   \<Rightarrow> fault + nat \<times> 'u" where
  "mdns_sections callback buffer sz query_id [] total_records offset user = Inr (total_records, user)"
| "mdns_sections callback buffer sz query_id ((type, rrs) # ts) total_records offset user =
     or_fault (mdns_records_parse callback buffer sz type query_id rrs 0 offset user) (\<lambda>(records, offset, user).
       if records \<noteq> rrs then Inr (total_records + records, user)
       else mdns_sections callback buffer sz query_id ts (total_records + records) offset user)"

text \<open>\<open>recvfrom\<close>: the block with the datagram at its begin, cut at the capacity, and the size.\<close>

definition receive :: "string option \<Rightarrow> string \<Rightarrow> nat \<Rightarrow> (string \<times> nat) option" where
  "receive datagram buffer capacity =
     (case datagram of
        None \<Rightarrow> None
      | Some p \<Rightarrow>
          let n = min (length p) capacity
          in if n = 0 then None else Some (take n p @ drop n buffer, n))"

record mdns_header_t =
  hdr_query_id :: "16 word"
  hdr_flags :: "16 word"
  hdr_questions :: nat
  hdr_answer_rrs :: nat
  hdr_authority_rrs :: nat
  hdr_additional_rrs :: nat

definition mdns_header :: "string \<Rightarrow> fault + mdns_header_t" where
  "mdns_header buffer =
     or_fault (mdns_ntohs buffer 0) (\<lambda>i. or_fault (mdns_ntohs buffer 2) (\<lambda>f.
     or_fault (mdns_ntohs buffer 4) (\<lambda>q. or_fault (mdns_ntohs buffer 6) (\<lambda>an.
     or_fault (mdns_ntohs buffer 8) (\<lambda>au. or_fault (mdns_ntohs buffer 10) (\<lambda>ad.
       Inr \<lparr>hdr_query_id = i, hdr_flags = f, hdr_questions = unat q, hdr_answer_rrs = unat an, hdr_authority_rrs = unat au,
            hdr_additional_rrs = unat ad\<rparr>))))))"

fun mdns_skip_questions :: "string \<Rightarrow> nat \<Rightarrow> nat \<Rightarrow> nat \<Rightarrow> fault + nat option" where
  "mdns_skip_questions buffer sz 0 data = Inr (Some data)"
| "mdns_skip_questions buffer sz (Suc n) data =
     or_fault (mdns_string_skip buffer sz data) (\<lambda>skipped.
       case skipped of None \<Rightarrow> Inr None | Some offset \<Rightarrow> mdns_skip_questions buffer sz n (offset + 4))"

text \<open>A receiver returns the number of records, the block and the data of the user.\<close>

definition mdns_query_recv ::
  "string option \<Rightarrow> string \<Rightarrow> nat \<Rightarrow> 'u callback option \<Rightarrow> 'u \<Rightarrow> int \<Rightarrow> fault + nat \<times> string \<times> 'u" where
  "mdns_query_recv datagram buffer capacity callback user only_query_id =
     (case receive datagram buffer capacity of
        None \<Rightarrow> Inr (0, buffer, user)
      | Some (buffer, data_size) \<Rightarrow>
          or_fault (mdns_header buffer) (\<lambda>h.
            if 0 < only_query_id \<and> int (unat (hdr_query_id h)) \<noteq> only_query_id then Inr (0, buffer, user)
            else or_fault (mdns_skip_questions buffer data_size (hdr_questions h) 12) (\<lambda>data.
              case data of
                None \<Rightarrow> Inr (0, buffer, user)
              | Some offset \<Rightarrow>
                  map_sum id (\<lambda>(n, u). (n, buffer, u))
                    (mdns_sections callback buffer data_size (hdr_query_id h)
                       [(MDNS_ENTRYTYPE_ANSWER, hdr_answer_rrs h), (MDNS_ENTRYTYPE_AUTHORITY, hdr_authority_rrs h),
                        (MDNS_ENTRYTYPE_ADDITIONAL, hdr_additional_rrs h)] 0 offset user))))"

text \<open>The question for the list of services, and the receivers of its answers.\<close>

definition mdns_services_query :: string where
  "mdns_services_query =
     replicate 5 (CHR 0x00) @ [CHR 0x01] @ replicate 6 (CHR 0x00)
     @ CHR 0x09 # ''_services'' @ CHR 0x07 # ''_dns-sd'' @ CHR 0x04 # ''_udp'' @ CHR 0x05 # ''local'' @ [CHR 0x00]
     @ [CHR 0x00, CHR 0x0C, CHR 0x80, CHR 0x01]"

text \<open>Whether the name at an offset is that of the question: the offset after it.\<close>

definition is_services_query :: "string \<Rightarrow> nat \<Rightarrow> nat \<Rightarrow> fault + nat option" where
  "is_services_query buffer data_size offset =
     map_sum id (map_option fst)
       (mdns_string_equal buffer data_size offset mdns_services_query (length mdns_services_query) 12)"

fun mdns_verify_questions :: "string \<Rightarrow> nat \<Rightarrow> nat \<Rightarrow> nat \<Rightarrow> fault + nat option" where
  "mdns_verify_questions buffer data_size 0 data = Inr (Some data)"
| "mdns_verify_questions buffer data_size (Suc n) data =
     or_fault (is_services_query buffer data_size data) (\<lambda>r. case r of
       None \<Rightarrow> Inr None
     | Some offset \<Rightarrow>
         or_fault (mdns_ntohs buffer offset) (\<lambda>rtype.
         or_fault (mdns_ntohs buffer (offset + 2)) (\<lambda>rclass.
           if rtype \<noteq> MDNS_RECORDTYPE_PTR \<or> rclass AND 0x7FFF \<noteq> MDNS_CLASS_IN then Inr None
           else mdns_verify_questions buffer data_size n (offset + 4))))"

text \<open>
  The loop over the answers of \<open>mdns_discovery_recv\<close>: the records, and the place to go on at unless the
  function returns. The length is compared with the size from the begin of the fixed part.
\<close>

fun mdns_discovery_answers ::
  "'u callback option \<Rightarrow> string \<Rightarrow> nat \<Rightarrow> 16 word \<Rightarrow> nat \<Rightarrow> nat \<Rightarrow> nat \<Rightarrow> 'u \<Rightarrow> fault + nat \<times> nat option \<times> 'u" where
  "mdns_discovery_answers callback buffer data_size query_id 0 records data user = Inr (records, Some data, user)"
| "mdns_discovery_answers callback buffer data_size query_id (Suc n) records data user =
     or_fault (is_services_query buffer data_size data) (\<lambda>answer.
     or_fault (case answer of None \<Rightarrow> mdns_string_skip buffer data_size data | Some e \<Rightarrow> Inr (Some e)) (\<lambda>skipped.
       case skipped of
         None \<Rightarrow> Inr (records, Some data, user)
       | Some offset \<Rightarrow>
           if data_size < offset + 10 then Inr (records, None, user)
           else
             or_fault (mdns_ntohs buffer offset) (\<lambda>rtype.
             or_fault (mdns_ntohs buffer (offset + 2)) (\<lambda>rclass.
             or_fault (mdns_ntohl buffer (offset + 4)) (\<lambda>ttl.
             or_fault (mdns_ntohs buffer (offset + 8)) (\<lambda>len.
               if data_size - offset < unat len then Inr (0, None, user)
               else if answer = None
               then mdns_discovery_answers callback buffer data_size query_id n records (offset + 10 + unat len) user
               else
                 or_fault (call_back callback
                     \<lparr>cb_entry = MDNS_ENTRYTYPE_ANSWER, cb_query_id = query_id, cb_rtype = rtype, cb_rclass = rclass,
                      cb_ttl = ttl, cb_data = buffer, cb_size = data_size, cb_name_offset = data,
                      cb_name_length = offset - data, cb_record_offset = offset + 10,
                      cb_record_length = unat len\<rparr> user) (\<lambda>(stop, user).
                   if stop then Inr (records + 1, None, user)
                   else mdns_discovery_answers callback buffer data_size query_id n (records + 1)
                          (offset + 10 + unat len) user)))))))"

definition mdns_discovery_recv ::
  "string option \<Rightarrow> string \<Rightarrow> nat \<Rightarrow> 'u callback option \<Rightarrow> 'u \<Rightarrow> fault + nat \<times> string \<times> 'u" where
  "mdns_discovery_recv datagram buffer capacity callback user =
     (case receive datagram buffer capacity of
        None \<Rightarrow> Inr (0, buffer, user)
      | Some (buffer, data_size) \<Rightarrow>
          or_fault (mdns_header buffer) (\<lambda>h.
            if hdr_query_id h \<noteq> 0 \<or> hdr_flags h \<noteq> 0x8400 then Inr (0, buffer, user)
            else or_fault (mdns_verify_questions buffer data_size (hdr_questions h) 12) (\<lambda>data.
              case data of
                None \<Rightarrow> Inr (0, buffer, user)
              | Some data \<Rightarrow>
                  or_fault (mdns_discovery_answers callback buffer data_size (hdr_query_id h) (hdr_answer_rrs h) 0 data user)
                    (\<lambda>(records, data, user). case data of
                       None \<Rightarrow> Inr (records, buffer, user)
                     | Some offset \<Rightarrow>
                         map_sum id (\<lambda>(n, u). (n, buffer, u))
                           (mdns_sections callback buffer data_size (hdr_query_id h)
                              [(MDNS_ENTRYTYPE_AUTHORITY, hdr_authority_rrs h),
                               (MDNS_ENTRYTYPE_ADDITIONAL, hdr_additional_rrs h)] records offset user)))))"

text \<open>The questions of \<open>mdns_socket_listen\<close>; the second result is \<open>None\<close> when a callback stops it.\<close>

fun mdns_listen_questions ::
  "'u callback option \<Rightarrow> string \<Rightarrow> nat \<Rightarrow> mdns_header_t \<Rightarrow> nat \<Rightarrow> nat \<Rightarrow> nat \<Rightarrow> 'u \<Rightarrow> fault + nat \<times> nat option \<times> 'u" where
  "mdns_listen_questions callback buffer data_size h 0 total_records data user = Inr (total_records, Some data, user)"
| "mdns_listen_questions callback buffer data_size h (Suc n) total_records question_offset user =
     or_fault (is_services_query buffer data_size question_offset) (\<lambda>dns_sd.
     or_fault (case dns_sd of None \<Rightarrow> mdns_string_skip buffer data_size question_offset | Some e \<Rightarrow> Inr (Some e)) (\<lambda>skipped.
       case skipped of
         None \<Rightarrow> Inr (total_records, Some question_offset, user)
       | Some offset \<Rightarrow>
           or_fault (mdns_ntohs buffer offset) (\<lambda>rtype.
           or_fault (mdns_ntohs buffer (offset + 2)) (\<lambda>rclass.
             let class_without_flushbit = rclass AND NOT MDNS_CACHE_FLUSH
             in if class_without_flushbit \<noteq> MDNS_CLASS_IN \<and> class_without_flushbit \<noteq> MDNS_CLASS_ANY
                then Inr (total_records, Some (offset + 4), user)
                else if dns_sd \<noteq> None \<and> hdr_flags h \<noteq> 0
                then mdns_listen_questions callback buffer data_size h n total_records (offset + 4) user
                else
                  or_fault (call_back callback
                      \<lparr>cb_entry = MDNS_ENTRYTYPE_QUESTION, cb_query_id = hdr_query_id h, cb_rtype = rtype,
                       cb_rclass = rclass, cb_ttl = 0, cb_data = buffer, cb_size = data_size,
                       cb_name_offset = question_offset, cb_name_length = offset - question_offset,
                       cb_record_offset = question_offset, cb_record_length = offset - question_offset\<rparr> user)
                    (\<lambda>(stop, user).
                      if stop then Inr (total_records + 1, None, user)
                      else mdns_listen_questions callback buffer data_size h n (total_records + 1) (offset + 4) user)))))"

text \<open>The records of the last section are not counted.\<close>

definition mdns_socket_listen ::
  "string option \<Rightarrow> string \<Rightarrow> nat \<Rightarrow> 'u callback option \<Rightarrow> 'u \<Rightarrow> fault + nat \<times> string \<times> 'u" where
  "mdns_socket_listen datagram buffer capacity callback user =
     (case receive datagram buffer capacity of
        None \<Rightarrow> Inr (0, buffer, user)
      | Some (buffer, data_size) \<Rightarrow>
          or_fault (mdns_header buffer) (\<lambda>h.
          or_fault (mdns_listen_questions callback buffer data_size h (hdr_questions h) 0 12 user)
            (\<lambda>(total_records, data, user). case data of
               None \<Rightarrow> Inr (total_records, buffer, user)
             | Some offset \<Rightarrow>
                 or_fault (mdns_records_parse callback buffer data_size MDNS_ENTRYTYPE_ANSWER (hdr_query_id h)
                     (hdr_answer_rrs h) 0 offset user) (\<lambda>(records, offset, user).
                   if records \<noteq> hdr_answer_rrs h then Inr (total_records + records, buffer, user)
                   else
                     let total_records = total_records + records
                     in or_fault (mdns_records_parse callback buffer data_size MDNS_ENTRYTYPE_AUTHORITY (hdr_query_id h)
                          (hdr_authority_rrs h) 0 offset user) (\<lambda>(records, offset, user).
                       if records \<noteq> hdr_authority_rrs h then Inr (total_records + records, buffer, user)
                       else
                         let total_records = total_records + records
                         in or_fault (mdns_records_parse callback buffer data_size MDNS_ENTRYTYPE_ADDITIONAL
                              (hdr_query_id h) (hdr_additional_rrs h) 0 offset user) (\<lambda>(records, offset, user).
                           Inr (total_records, buffer, user)))))))"


section \<open>Sending\<close>

datatype sa_family = AF_INET | AF_INET6 | AF_OTHER

text \<open>A socket, as the code sees it: what \<open>getsockname\<close> returns, and whether \<open>sendto\<close> succeeds.\<close>

record mdns_socket =
  sock_name :: "(sa_family \<times> nat) option"
  sock_sends :: bool

datatype destination = Group4 | Group6 | Peer string

abbreviation MDNS_PORT :: nat where "MDNS_PORT \<equiv> 5353"

type_synonym datagram = "destination \<times> string"

text \<open>The senders return whether they succeed, and what was handed to \<open>sendto\<close>.\<close>

definition mdns_unicast_send :: "mdns_socket \<Rightarrow> string \<Rightarrow> string \<Rightarrow> nat \<Rightarrow> fault + bool \<times> datagram list" where
  "mdns_unicast_send sock address buffer sz =
     or_fault (bytes_at buffer 0 sz) (\<lambda>p. Inr (sock_sends sock, [(Peer address, p)]))"

definition mdns_multicast_send :: "mdns_socket \<Rightarrow> string \<Rightarrow> nat \<Rightarrow> fault + bool \<times> datagram list" where
  "mdns_multicast_send sock buffer sz =
     (case sock_name sock of
        None \<Rightarrow> Inr (False, [])
      | Some (family, port) \<Rightarrow>
          or_fault (bytes_at buffer 0 sz) (\<lambda>p.
            Inr (sock_sends sock, [(if family = AF_INET6 then Group6 else Group4, p)])))"

definition mdns_discovery_send :: "mdns_socket \<Rightarrow> fault + bool \<times> datagram list" where
  "mdns_discovery_send sock = mdns_multicast_send sock mdns_services_query (length mdns_services_query)"

record mdns_query_t =
  query_type :: "16 word"
  query_name :: string
  query_length :: nat

text \<open>The class of the questions: a socket on the port of mDNS asks for multicast answers.\<close>

definition query_rclass :: "mdns_socket \<Rightarrow> 16 word" where
  "query_rclass sock =
     (case sock_name sock of
        Some (family, port) \<Rightarrow>
          if family \<in> {AF_INET, AF_INET6} \<and> port = MDNS_PORT
          then (MDNS_CLASS_IN OR MDNS_UNICAST_RESPONSE) AND NOT MDNS_UNICAST_RESPONSE
          else MDNS_CLASS_IN OR MDNS_UNICAST_RESPONSE
      | None \<Rightarrow> MDNS_CLASS_IN OR MDNS_UNICAST_RESPONSE)"

text \<open>The four bytes after a name are written without a look at the capacity.\<close>

fun mdns_questions ::
  "string \<Rightarrow> nat \<Rightarrow> 16 word \<Rightarrow> mdns_query_t list \<Rightarrow> nat \<Rightarrow> fault + string \<times> nat option" where
  "mdns_questions buffer capacity rclass [] data = Inr (buffer, Some data)"
| "mdns_questions buffer capacity rclass (q # qs) data =
     or_fault (mdns_string_make buffer capacity data (query_name q) (query_length q) None) (\<lambda>(buffer, data, _).
       case data of
         None \<Rightarrow> Inr (buffer, None)
       | Some data \<Rightarrow>
           or_fault (mdns_htons buffer data (query_type q)) (\<lambda>(buffer, data).
           or_fault (mdns_htons buffer data rclass) (\<lambda>(buffer, data).
             mdns_questions buffer capacity rclass qs data)))"

definition header_bytes :: "16 word \<Rightarrow> 16 word \<Rightarrow> 16 word \<Rightarrow> 16 word \<Rightarrow> 16 word \<Rightarrow> 16 word \<Rightarrow> string" where
  "header_bytes query_id flags questions answers authority additional =
     net16 query_id @ net16 flags @ net16 questions @ net16 answers @ net16 authority @ net16 additional"

text \<open>The query id that was used, or a negative value; the block, and what was sent.\<close>

definition mdns_multiquery_send ::
  "mdns_socket \<Rightarrow> mdns_query_t list \<Rightarrow> string \<Rightarrow> nat \<Rightarrow> 16 word \<Rightarrow> fault + int \<times> string \<times> datagram list" where
  "mdns_multiquery_send sock query buffer capacity query_id =
     (if query = [] \<or> capacity < 12 + 6 * length query then Inr (- 1, buffer, [])
      else
        or_fault (poke buffer 0 (header_bytes query_id 0 (word_of_nat (length query)) 0 0 0)) (\<lambda>buffer.
        or_fault (mdns_questions buffer capacity (query_rclass sock) query 12) (\<lambda>(buffer, data).
          case data of
            None \<Rightarrow> Inr (- 1, buffer, [])
          | Some data \<Rightarrow>
              or_fault (mdns_multicast_send sock buffer data) (\<lambda>(sent, out).
                Inr (if sent then int (unat query_id) else - 1, buffer, out)))))"

definition mdns_query_send ::
  "mdns_socket \<Rightarrow> 16 word \<Rightarrow> string \<Rightarrow> nat \<Rightarrow> string \<Rightarrow> nat \<Rightarrow> 16 word \<Rightarrow> fault + int \<times> string \<times> datagram list" where
  "mdns_query_send sock type name len buffer capacity query_id =
     mdns_multiquery_send sock [\<lparr>query_type = type, query_name = name, query_length = len\<rparr>] buffer capacity query_id"

section \<open>Records\<close>

text \<open>
  The result of \<open>mdns_string_extract\<close> in a parser: an empty text when the name is not valid. A text
  with the pointer NULL is \<open>None\<close>.
\<close>

definition extracted :: "(nat \<times> string) option \<Rightarrow> string" where
  "extracted r = (case r of None \<Rightarrow> [] | Some (e, t) \<Rightarrow> t)"

definition mdns_record_parse_ptr :: "string \<Rightarrow> nat \<Rightarrow> nat \<Rightarrow> nat \<Rightarrow> nat \<Rightarrow> fault + cptr" where
  "mdns_record_parse_ptr buffer sz offset len capacity =
     (if offset + len \<le> sz \<and> 2 \<le> len
      then map_sum id (\<lambda>r. Some (extracted r)) (mdns_string_extract buffer sz offset capacity)
      else Inr None)"

record mdns_record_srv_t =
  srv_priority :: "16 word"
  srv_weight :: "16 word"
  srv_port :: "16 word"
  srv_name :: cptr

definition mdns_record_parse_srv :: "string \<Rightarrow> nat \<Rightarrow> nat \<Rightarrow> nat \<Rightarrow> nat \<Rightarrow> fault + mdns_record_srv_t" where
  "mdns_record_parse_srv buffer sz offset len capacity =
     (if offset + len \<le> sz \<and> 8 \<le> len then
        or_fault (mdns_ntohs buffer offset) (\<lambda>p. or_fault (mdns_ntohs buffer (offset + 2)) (\<lambda>w.
        or_fault (mdns_ntohs buffer (offset + 4)) (\<lambda>po.
        or_fault (mdns_string_extract buffer sz (offset + 6) capacity) (\<lambda>r.
          Inr \<lparr>srv_priority = p, srv_weight = w, srv_port = po, srv_name = Some (extracted r)\<rparr>))))
      else Inr \<lparr>srv_priority = 0, srv_weight = 0, srv_port = 0, srv_name = None\<rparr>)"

text \<open>The bytes of an address: all zero when the length is not that of an address.\<close>

definition mdns_record_parse_a :: "string \<Rightarrow> nat \<Rightarrow> nat \<Rightarrow> nat \<Rightarrow> fault + string" where
  "mdns_record_parse_a buffer sz offset len =
     (if offset + len \<le> sz \<and> len = 4 then bytes_at buffer offset 4 else Inr (replicate 4 (CHR 0x00)))"

definition mdns_record_parse_aaaa :: "string \<Rightarrow> nat \<Rightarrow> nat \<Rightarrow> nat \<Rightarrow> fault + string" where
  "mdns_record_parse_aaaa buffer sz offset len =
     (if offset + len \<le> sz \<and> len = 16 then bytes_at buffer offset 16 else Inr (replicate 16 (CHR 0x00)))"


section \<open>Answers\<close>

text \<open>The union of the data of a record. It is read by the type of the record.\<close>

datatype mdns_record_data =
    PtrData string
  | SrvData "16 word" "16 word" "16 word" string
  | AData string
  | AaaaData string
  | TxtData string string

record mdns_record_t =
  rec_name :: string
  rec_type :: "16 word"
  rec_data :: mdns_record_data
  rec_rclass :: "16 word"
  rec_ttl :: "32 word"

text \<open>\<open>mdns_htons\<close> and \<open>mdns_htonl\<close> in a row.\<close>

definition mdns_put :: "string \<Rightarrow> nat \<Rightarrow> string \<Rightarrow> fault + string \<times> nat" where
  "mdns_put buffer data bs = map_sum id (\<lambda>b. (b, data + length bs)) (poke buffer data bs)"

definition mdns_answer_add_question_unicast ::
  "string \<Rightarrow> nat \<Rightarrow> nat \<Rightarrow> 16 word \<Rightarrow> string \<Rightarrow> nat \<Rightarrow> mdns_string_table_t option \<Rightarrow> fault + written" where
  "mdns_answer_add_question_unicast buffer capacity data record_type name name_length tab =
     or_fault (mdns_string_make buffer capacity data name name_length tab) (\<lambda>(buffer, data, tab).
       case data of
         None \<Rightarrow> Inr (buffer, None, tab)
       | Some data \<Rightarrow>
           if size_sub capacity data < 4 then Inr (buffer, None, tab)
           else map_sum id (\<lambda>(b, d). (b, Some d, tab))
             (mdns_put buffer data (net16 record_type @ net16 (MDNS_UNICAST_RESPONSE OR MDNS_CLASS_IN))))"

definition mdns_answer_add_record_header ::
  "string \<Rightarrow> nat \<Rightarrow> nat \<Rightarrow> mdns_record_t \<Rightarrow> mdns_string_table_t option \<Rightarrow> fault + written" where
  "mdns_answer_add_record_header buffer capacity data record tab =
     or_fault (mdns_string_make buffer capacity data (rec_name record) (length (rec_name record)) tab)
       (\<lambda>(buffer, data, tab). case data of
         None \<Rightarrow> Inr (buffer, None, tab)
       | Some data \<Rightarrow>
           if size_sub capacity data < 10 then Inr (buffer, None, tab)
           else map_sum id (\<lambda>(b, d). (b, Some d, tab))
             (mdns_put buffer data
                (net16 (rec_type record) @ net16 (rec_rclass record) @ net32 (rec_ttl record) @ net16 0)))"

text \<open>The data of a record, by its type.\<close>

definition mdns_add_data ::
  "string \<Rightarrow> nat \<Rightarrow> nat \<Rightarrow> mdns_record_t \<Rightarrow> mdns_string_table_t option \<Rightarrow> fault + written" where
  "mdns_add_data buffer capacity data record tab =
     (let remain = size_sub capacity data in
      if rec_type record = MDNS_RECORDTYPE_PTR then
        (case rec_data record of
           PtrData name \<Rightarrow> mdns_string_make buffer capacity data name (length name) tab
         | _ \<Rightarrow> Inl WrongMember)
      else if rec_type record = MDNS_RECORDTYPE_SRV then
        (if remain \<le> 6 then Inr (buffer, None, tab)
         else (case rec_data record of
           SrvData priority weight port name \<Rightarrow>
             or_fault (mdns_put buffer data (net16 priority @ net16 weight @ net16 port)) (\<lambda>(buffer, data).
               mdns_string_make buffer capacity data name (length name) tab)
         | _ \<Rightarrow> Inl WrongMember))
      else if rec_type record = MDNS_RECORDTYPE_A then
        (if remain < 4 then Inr (buffer, None, tab)
         else (case rec_data record of
           AData bs \<Rightarrow> map_sum id (\<lambda>(b, d). (b, Some d, tab)) (mdns_put buffer data (take 4 bs))
         | _ \<Rightarrow> Inl WrongMember))
      else if rec_type record = MDNS_RECORDTYPE_AAAA then
        (if remain < 16 then Inr (buffer, None, tab)
         else (case rec_data record of
           AaaaData bs \<Rightarrow> map_sum id (\<lambda>(b, d). (b, Some d, tab)) (mdns_put buffer data (take 16 bs))
         | _ \<Rightarrow> Inl WrongMember))
      else Inr (buffer, Some data, tab))"

definition mdns_answer_add_record ::
  "string \<Rightarrow> nat \<Rightarrow> nat option \<Rightarrow> mdns_record_t \<Rightarrow> mdns_string_table_t option \<Rightarrow> fault + written" where
  "mdns_answer_add_record buffer capacity data record tab =
     (case data of
        None \<Rightarrow> Inr (buffer, None, tab)
      | Some data \<Rightarrow>
          if rec_type record = MDNS_RECORDTYPE_TXT then Inr (buffer, Some data, tab)
          else or_fault (mdns_answer_add_record_header buffer capacity data record tab) (\<lambda>(buffer, data, tab).
            case data of
              None \<Rightarrow> Inr (buffer, None, tab)
            | Some record_data \<Rightarrow>
                or_fault (mdns_add_data buffer capacity record_data record tab) (\<lambda>(buffer, data, tab).
                  case data of
                    None \<Rightarrow> Inr (buffer, None, tab)
                  | Some data \<Rightarrow>
                      map_sum id (\<lambda>b. (b, Some data, tab))
                        (poke buffer (record_data - 2) (net16 (word_of_nat (data - record_data)))))))"

definition mdns_record_update_rclass_ttl :: "mdns_record_t \<Rightarrow> 16 word \<Rightarrow> 32 word \<Rightarrow> mdns_record_t" where
  "mdns_record_update_rclass_ttl record rclass ttl =
     (let c = (if rec_rclass record = 0 then rclass else rec_rclass record);
          t = (if rec_ttl record = 0 \<or> ttl = 0 then ttl else rec_ttl record);
          c = c AND (MDNS_CLASS_IN OR MDNS_CACHE_FLUSH);
          c = (if rec_type record = MDNS_RECORDTYPE_PTR then c AND NOT MDNS_CACHE_FLUSH else c)
      in record\<lparr>rec_rclass := c, rec_ttl := t\<rparr>)"

text \<open>
  The texts of the TXT records, coalesced into one record with the header of the first. \<open>start\<close> is where
  the data of that record begins, once its header is written. The length byte is the length modulo 256.
\<close>

fun mdns_txt_records ::
  "string \<Rightarrow> nat \<Rightarrow> nat option \<Rightarrow> mdns_record_t list \<Rightarrow> 16 word \<Rightarrow> 32 word \<Rightarrow> mdns_string_table_t option \<Rightarrow> nat option
   \<Rightarrow> fault + written \<times> nat option" where
  "mdns_txt_records buffer capacity data [] rclass ttl tab start = Inr ((buffer, data, tab), start)"
| "mdns_txt_records buffer capacity data (r # rs) rclass ttl tab start =
     (case data of
        None \<Rightarrow> Inr ((buffer, None, tab), start)
      | Some d \<Rightarrow>
          if rec_type r \<noteq> MDNS_RECORDTYPE_TXT
          then mdns_txt_records buffer capacity data rs rclass ttl tab start
          else
            or_fault (case start of
                None \<Rightarrow> mdns_answer_add_record_header buffer capacity d (mdns_record_update_rclass_ttl r rclass ttl) tab
              | Some _ \<Rightarrow> Inr (buffer, Some d, tab)) (\<lambda>(buffer, data, tab).
              case data of
                None \<Rightarrow> Inr ((buffer, None, tab), None)
              | Some d \<Rightarrow>
                  (case rec_data r of
                     TxtData key val \<Rightarrow>
                       let string_length = length key + length val + 1;
                           remain = size_sub capacity d
                       in if remain \<le> string_length \<or> string_length > 0x3FFF then Inr ((buffer, None, tab), None)
                          else or_fault (mdns_put buffer d (char_of string_length # key @ CHR ''='' # val)) (\<lambda>(buffer, d').
                            mdns_txt_records buffer capacity (Some d') rs rclass ttl tab
                              (case start of None \<Rightarrow> Some d | Some st \<Rightarrow> Some st))
                   | _ \<Rightarrow> Inl WrongMember)))"

definition mdns_answer_add_txt_record ::
  "string \<Rightarrow> nat \<Rightarrow> nat option \<Rightarrow> mdns_record_t list \<Rightarrow> 16 word \<Rightarrow> 32 word \<Rightarrow> mdns_string_table_t option
   \<Rightarrow> fault + written" where
  "mdns_answer_add_txt_record buffer capacity data records rclass ttl tab =
     or_fault (mdns_txt_records buffer capacity data records rclass ttl tab None) (\<lambda>((buffer, data, tab), start).
       case (data, start) of
         (Some d, Some st) \<Rightarrow>
           map_sum id (\<lambda>b. (b, Some d, tab)) (poke buffer (st - 2) (net16 (word_of_nat (d - st))))
       | _ \<Rightarrow> Inr (buffer, data, tab))"

definition mdns_answer_get_record_count :: "mdns_record_t list \<Rightarrow> 16 word" where
  "mdns_answer_get_record_count records =
     (let total_count = word_of_nat (length (filter (\<lambda>r. rec_type r \<noteq> MDNS_RECORDTYPE_TXT) records));
          txt_record = (if \<exists>r \<in> set records. rec_type r = MDNS_RECORDTYPE_TXT then 1 else 0)
      in total_count + txt_record)"

fun mdns_add_records ::
  "(mdns_record_t \<Rightarrow> mdns_record_t) \<Rightarrow> nat \<Rightarrow> mdns_record_t list \<Rightarrow> written \<Rightarrow> fault + written" where
  "mdns_add_records upd capacity [] w = Inr w"
| "mdns_add_records upd capacity (r # rs) (buffer, data, tab) =
     (case data of
        None \<Rightarrow> Inr (buffer, None, tab)
      | Some d \<Rightarrow> or_fault (mdns_answer_add_record buffer capacity (Some d) (upd r) tab) (mdns_add_records upd capacity rs))"

text \<open>The authority and the additional records, each followed by the coalesced texts.\<close>

definition mdns_add_section ::
  "(mdns_record_t \<Rightarrow> mdns_record_t) \<Rightarrow> nat \<Rightarrow> mdns_record_t list \<Rightarrow> 16 word \<Rightarrow> 32 word \<Rightarrow> written \<Rightarrow> fault + written" where
  "mdns_add_section upd capacity records rclass ttl w =
     or_fault (mdns_add_records upd capacity records w) (\<lambda>(buffer, data, tab).
       mdns_answer_add_txt_record buffer capacity data records rclass ttl tab)"

definition mdns_query_answer_unicast ::
  "mdns_socket \<Rightarrow> string \<Rightarrow> string \<Rightarrow> nat \<Rightarrow> 16 word \<Rightarrow> 16 word \<Rightarrow> string \<Rightarrow> nat \<Rightarrow> mdns_record_t
   \<Rightarrow> mdns_record_t list \<Rightarrow> mdns_record_t list \<Rightarrow> fault + int \<times> string \<times> datagram list" where
  "mdns_query_answer_unicast sock address buffer capacity query_id record_type name name_length answer authority additional =
     (if capacity < 12 + 32 + 4 then Inr (- 1, buffer, [])
      else
        let rclass = MDNS_CLASS_IN; ttl = 10;
            upd = (\<lambda>r. r\<lparr>rec_rclass := rclass, rec_ttl := (if rec_ttl r = 0 then ttl else rec_ttl r)\<rparr>)
        in
          or_fault (poke buffer 0 (header_bytes query_id 0x8400 1 1 (mdns_answer_get_record_count authority)
              (mdns_answer_get_record_count additional))) (\<lambda>buffer.
          or_fault (mdns_answer_add_question_unicast buffer capacity 12 record_type name name_length
              (Some string_table_empty)) (\<lambda>(buffer, data, tab).
          or_fault (mdns_answer_add_record buffer capacity data (answer\<lparr>rec_rclass := rclass, rec_ttl := ttl\<rparr>) tab) (\<lambda>w.
          or_fault (mdns_add_section upd capacity authority rclass ttl w) (\<lambda>w.
          or_fault (mdns_add_section upd capacity additional rclass ttl w) (\<lambda>(buffer, data, tab).
            case data of
              None \<Rightarrow> Inr (- 1, buffer, [])
            | Some d \<Rightarrow>
                or_fault (mdns_unicast_send sock address buffer d) (\<lambda>(sent, out).
                  Inr (if sent then 0 else - 1, buffer, out))))))))"

definition mdns_answer_multicast_rclass_ttl ::
  "mdns_socket \<Rightarrow> string \<Rightarrow> nat \<Rightarrow> mdns_record_t \<Rightarrow> mdns_record_t list \<Rightarrow> mdns_record_t list \<Rightarrow> 16 word \<Rightarrow> 32 word
   \<Rightarrow> fault + int \<times> string \<times> datagram list" where
  "mdns_answer_multicast_rclass_ttl sock buffer capacity answer authority additional rclass ttl =
     (if capacity < 12 + 32 + 4 then Inr (- 1, buffer, [])
      else
        let upd = (\<lambda>r. mdns_record_update_rclass_ttl r rclass ttl)
        in
          or_fault (poke buffer 0 (header_bytes 0 0x8400 0 1 (mdns_answer_get_record_count authority)
              (mdns_answer_get_record_count additional))) (\<lambda>buffer.
          or_fault (mdns_answer_add_record buffer capacity (Some 12) (upd answer) (Some string_table_empty)) (\<lambda>w.
          or_fault (mdns_add_section upd capacity authority rclass ttl w) (\<lambda>w.
          or_fault (mdns_add_section upd capacity additional rclass ttl w) (\<lambda>(buffer, data, tab).
            case data of
              None \<Rightarrow> Inr (- 1, buffer, [])
            | Some d \<Rightarrow>
                or_fault (mdns_multicast_send sock buffer d) (\<lambda>(sent, out).
                  Inr (if sent then 0 else - 1, buffer, out)))))))"

definition mdns_query_answer_multicast where
  "mdns_query_answer_multicast sock buffer capacity answer authority additional =
     mdns_answer_multicast_rclass_ttl sock buffer capacity answer authority additional MDNS_CLASS_IN 60"

definition mdns_announce_multicast where
  "mdns_announce_multicast sock buffer capacity answer authority additional =
     mdns_answer_multicast_rclass_ttl sock buffer capacity answer authority additional
       (MDNS_CLASS_IN OR MDNS_CACHE_FLUSH) 60"

definition mdns_goodbye_multicast where
  "mdns_goodbye_multicast sock buffer capacity answer authority additional =
     mdns_answer_multicast_rclass_ttl sock buffer capacity answer authority additional MDNS_CLASS_IN 0"


section \<open>What a callback may rely on\<close>

lemma ntohs_ok: "i + 2 \<le> length buf \<Longrightarrow> \<exists>w. mdns_ntohs buf i = Inr w"
  by (simp add: mdns_ntohs_def bytes_at_def)

lemma ntohl_ok: "i + 4 \<le> length buf \<Longrightarrow> \<exists>w. mdns_ntohl buf i = Inr w"
  by (simp add: mdns_ntohl_def bytes_at_def)

lemma skip_safe: "sz \<le> length buf \<Longrightarrow> \<exists>r. mdns_string_skip buf sz cur = Inr r \<and> (\<forall>e. r = Some e \<longrightarrow> cur < e \<and> e \<le> sz)"
  unfolding mdns_string_skip_def by (rule skip_loop_safe)

lemma receive_Some:
  assumes "receive datagram buffer capacity = Some (b, n)" "capacity \<le> length buffer"
  shows "length b = length buffer" "n \<le> capacity" "0 < n"
    "\<exists>p. datagram = Some p \<and> n = min (length p) capacity \<and> b = take n p @ drop n buffer"
  using assms by (auto simp: receive_def Let_def split: option.splits if_splits)

text \<open>The record and its name lie in the part of the block that was received.\<close>

definition entry_inside :: "mdns_entry \<Rightarrow> bool" where
  "entry_inside e \<longleftrightarrow> cb_size e \<le> length (cb_data e) \<and> cb_record_offset e + cb_record_length e \<le> cb_size e \<and>
     cb_name_offset e + cb_name_length e + 10 = cb_record_offset e"

text \<open>
  The contract between the receivers and a callback: on an entry inside a block that it can work with, the
  callback returns and keeps its invariant. Then the receivers return on every datagram.
\<close>

locale record_client =
  fixes cb :: "'u callback" and fits :: "string \<Rightarrow> nat \<Rightarrow> bool" and keeps :: "'u \<Rightarrow> bool"
  assumes handled: "entry_inside e \<Longrightarrow> fits (cb_data e) (cb_size e) \<Longrightarrow> keeps u \<Longrightarrow>
    \<exists>stop u'. cb e u = Inr (stop, u') \<and> keeps u'"
begin

lemma records_parse_safe:
  assumes "sz \<le> length buf" "fits buf sz"
  shows "keeps u \<Longrightarrow> parsed \<le> p0 \<Longrightarrow> \<exists>m off' u'. mdns_records_parse (Some cb) buf sz type qid n parsed off u = Inr (m, off', u') \<and>
    m \<le> parsed + n \<and> keeps u'"
proof (induction n arbitrary: parsed off u p0)
  case (Suc n)
  obtain r where r: "mdns_string_skip buf sz off = Inr r" "\<And>e. r = Some e \<Longrightarrow> off < e" using skip_safe [OF assms(1)] by blast
  define o1 where "o1 = (case r of None \<Rightarrow> off | Some e \<Rightarrow> e)"
  have le: "off \<le> o1" using r(2) by (fastforce simp: o1_def split: option.splits)
  show ?case
  proof (cases "sz < o1 + 10")
    case True
    then show ?thesis using r Suc.prems by (simp add: o1_def [symmetric] Let_def)
  next
    case False
    then obtain t c l le2 where f: "mdns_ntohs buf o1 = Inr t" "mdns_ntohs buf (o1 + 2) = Inr c"
      "mdns_ntohl buf (o1 + 4) = Inr l" "mdns_ntohs buf (o1 + 8) = Inr le2"
      using ntohs_ok [of o1 buf] ntohs_ok [of "o1 + 2" buf] ntohl_ok [of "o1 + 4" buf] ntohs_ok [of "o1 + 8" buf] assms(1)
      by fastforce
    define e where "e = \<lparr>cb_entry = type, cb_query_id = qid, cb_rtype = t, cb_rclass = c, cb_ttl = l, cb_data = buf,
      cb_size = sz, cb_name_offset = off, cb_name_length = o1 - off, cb_record_offset = o1 + 10, cb_record_length = unat le2\<rparr>"
    show ?thesis
    proof (cases "unat le2 \<le> sz - (o1 + 10)")
      case True
      have "entry_inside e" using True False assms(1) le by (simp add: entry_inside_def e_def)
      then obtain stop u' where "cb e u = Inr (stop, u')" "keeps u'"
        using handled [of e u] assms(2) Suc.prems by (auto simp: e_def)
      then show ?thesis using r f False True Suc.IH [of u' "parsed + 1" "parsed + 1" "o1 + 10 + unat le2"]
        by (cases stop) (auto simp: o1_def [symmetric] e_def [symmetric] call_back_def Let_def)
    next
      case no: False
      then show ?thesis using r f False Suc.IH [of u parsed parsed "o1 + 10 + unat le2"] Suc.prems
        by (fastforce simp: o1_def [symmetric] Let_def)
    qed
  qed
qed simp

lemma sections_safe:
  assumes "sz \<le> length buf" "fits buf sz"
  shows "keeps u \<Longrightarrow> \<exists>m u'. mdns_sections (Some cb) buf sz qid ts k off u = Inr (m, u') \<and>
    m \<le> k + sum_list (map snd ts) \<and> keeps u'"
proof (induction ts arbitrary: k off u)
  case (Cons t ts)
  obtain ty n where t: "t = (ty, n)" by fastforce
  obtain m off' u' where r: "mdns_records_parse (Some cb) buf sz ty qid n 0 off u = Inr (m, off', u')" "m \<le> n" "keeps u'"
    using records_parse_safe [OF assms Cons.prems, of 0 0] by fastforce
  show ?case using Cons.IH [OF r(3), of "k + n" off'] r(1,2,3) by (cases "m = n") (auto simp: t add.assoc)
qed simp

lemma query_recv_safe:
  assumes "capacity \<le> length buffer" "12 \<le> length buffer" "keeps u"
    "\<And>b n. receive datagram buffer capacity = Some (b, n) \<Longrightarrow> fits b n"
  shows "\<exists>m b u'. mdns_query_recv datagram buffer capacity (Some cb) u qid = Inr (m, b, u') \<and>
    length b = length buffer \<and> keeps u'"
proof (cases "receive datagram buffer capacity")
  case None
  then show ?thesis using assms(3) by (simp add: mdns_query_recv_def)
next
  case (Some x)
  obtain b n where x: "receive datagram buffer capacity = Some (b, n)" using Some by (cases x) simp
  note b = receive_Some [OF x assms(1)]
  have sz: "n \<le> length b" using b assms(1) by simp
  obtain h where h: "mdns_header b = Inr h"
    using ntohs_ok [of 0 b] ntohs_ok [of 2 b] ntohs_ok [of 4 b] ntohs_ok [of 6 b] ntohs_ok [of 8 b] ntohs_ok [of 10 b] b assms(2)
    by (auto simp: mdns_header_def)
  have q: "\<exists>r. mdns_skip_questions b n k off = Inr r" for k off
  proof (induction k arbitrary: off)
    case (Suc k)
    obtain r where "mdns_string_skip b n off = Inr r" using skip_safe [OF sz] by blast
    then show ?case using Suc by (cases r) auto
  qed simp
  obtain r where r: "mdns_skip_questions b n (hdr_questions h) 12 = Inr r" using q by blast
  show ?thesis
  proof (cases r)
    case None
    then show ?thesis using x h r assms(3) b(1) by (simp add: mdns_query_recv_def)
  next
    case (Some off)
    then show ?thesis
      using x h r assms(3) b(1)
        sections_safe [OF sz assms(4) [OF x] assms(3), of "hdr_query_id h"
          "[(MDNS_ENTRYTYPE_ANSWER, hdr_answer_rrs h), (MDNS_ENTRYTYPE_AUTHORITY, hdr_authority_rrs h),
            (MDNS_ENTRYTYPE_ADDITIONAL, hdr_additional_rrs h)]" 0 off]
      by (auto simp: mdns_query_recv_def)
  qed
qed

end


section \<open>Packets as they are written\<close>

lemma length_net [simp]: "length (net16 w) = 2" "length (net32 v) = 4"
  by (simp_all add: net16_def net32_def)

lemma ntohs_net16: "mdns_ntohs (pre @ net16 w @ post) (length pre) = Inr w"
proof -
  have "unat w < 65536" using unsigned_less [of w] by simp
  then have "256 * (unat w div 256 mod 256) + unat w mod 256 = unat w" by simp
  then show ?thesis by (simp add: mdns_ntohs_def bytes_at_def net16_def add.commute)
qed

lemma ntohl_net32: "mdns_ntohl (pre @ net32 v @ post) (length pre) = Inr v"
proof -
  have v: "unat v < 4294967296" using unsigned_less [of v] by simp
  have "unat v mod 256 + 256 * (unat v div 256 mod 256 + 256 * (unat v div 65536 mod 256 + 256 * (unat v div 16777216 mod 256))) = unat v"
    using v by (simp add: div_mult2_eq [of _ 256 256, simplified] div_mult2_eq [of _ 65536 256, simplified])
  then have "horner_sum of_char 256 (rev (net32 v)) = unat v" using v by (simp add: net32_def)
  then show ?thesis by (simp add: mdns_ntohl_def bytes_at_def)
qed

text \<open>A value at a position that is given by a length.\<close>

lemma ntohs_here: "buf = pre @ net16 w @ post \<Longrightarrow> i = length pre \<Longrightarrow> mdns_ntohs buf i = Inr w"
  by (simp add: ntohs_net16)

lemma ntohl_here: "buf = pre @ net32 v @ post \<Longrightarrow> i = length pre \<Longrightarrow> mdns_ntohl buf i = Inr v"
  by (simp add: ntohl_net32)

text \<open>A resource record of the standard, and its bytes.\<close>

record resource =
  res_name :: "string list"
  res_type :: "16 word"
  res_class :: "16 word"
  res_ttl :: "32 word"
  res_data :: string

definition res_wire :: "resource \<Rightarrow> string" where
  "res_wire r =
     wire (res_name r) @ net16 (res_type r) @ net16 (res_class r) @ net32 (res_ttl r)
     @ net16 (word_of_nat (length (res_data r))) @ res_data r"

definition res_ok :: "resource \<Rightarrow> bool" where
  "res_ok r \<longleftrightarrow> labels_ok (res_name r) \<and> length (res_data r) < 65536"

definition res_entry :: "mdns_entry_type_t \<Rightarrow> 16 word \<Rightarrow> string \<Rightarrow> nat \<Rightarrow> nat \<Rightarrow> resource \<Rightarrow> mdns_entry" where
  "res_entry type qid buf sz off r =
     \<lparr>cb_entry = type, cb_query_id = qid, cb_rtype = res_type r, cb_rclass = res_class r, cb_ttl = res_ttl r,
      cb_data = buf, cb_size = sz, cb_name_offset = off, cb_name_length = length (wire (res_name r)),
      cb_record_offset = off + length (wire (res_name r)) + 10, cb_record_length = length (res_data r)\<rparr>"

fun res_entries ::
  "mdns_entry_type_t \<Rightarrow> 16 word \<Rightarrow> string \<Rightarrow> nat \<Rightarrow> nat \<Rightarrow> resource list \<Rightarrow> mdns_entry list" where
  "res_entries type qid buf sz off [] = []"
| "res_entries type qid buf sz off (r # rs) =
     res_entry type qid buf sz off r # res_entries type qid buf sz (off + length (res_wire r)) rs"

text \<open>A callback that never stops, called for every entry of a list.\<close>

fun feed :: "'u callback \<Rightarrow> mdns_entry list \<Rightarrow> 'u \<Rightarrow> fault + 'u" where
  "feed cb [] u = Inr u"
| "feed cb (e # es) u = or_fault (cb e u) (\<lambda>(stop, u). feed cb es u)"

definition never_stops :: "'u callback \<Rightarrow> bool" where
  "never_stops cb \<longleftrightarrow> (\<forall>e u stop u'. cb e u = Inr (stop, u') \<longrightarrow> \<not> stop)"

lemma feed_append: "feed cb (es @ fs) u = or_fault (feed cb es u) (feed cb fs)"
proof (induction es arbitrary: u)
  case (Cons e es)
  then show ?case by (cases "cb e u") auto
qed simp

lemma length_res_wire: "length (res_wire r) = length (wire (res_name r)) + 10 + length (res_data r)"
  by (simp add: res_wire_def)

lemma skip_wire:
  assumes "labels_ok ls" "buf = pre @ wire ls @ post" "length pre + length (wire ls) \<le> sz" "sz \<le> length buf" "i = length pre"
  shows "mdns_string_skip buf sz i = Inr (Some (length pre + length (wire ls)))"
proof -
  have "\<forall>l \<in> set ls. l \<noteq> [] \<and> length l < 192" using assms(1) by (auto simp: labels_ok_def)
  from wire_name [OF this assms(3), of 16 post] show ?thesis
    using skip_spec [OF assms(4), of "length pre" ls] assms(1,2,5) by (auto simp: labels_ok_def)
qed

lemma parse_resources:
  assumes "never_stops cb" "sz \<le> length buf"
  shows "\<forall>r \<in> set rs. res_ok r \<Longrightarrow> buf = pre @ concat (map res_wire rs) @ post \<Longrightarrow>
    length pre + length (concat (map res_wire rs)) \<le> sz \<Longrightarrow>
    mdns_records_parse (Some cb) buf sz type qid (length rs) parsed (length pre) u =
      map_sum id (\<lambda>u. (parsed + length rs, length pre + length (concat (map res_wire rs)), u))
        (feed cb (res_entries type qid buf sz (length pre) rs) u)"
proof (induction rs arbitrary: pre parsed u)
  case (Cons r rs)
  let ?w = "wire (res_name r)"
  let ?rest = "concat (map res_wire rs) @ post"
  let ?o = "length pre + length ?w"
  have ok: "labels_ok (res_name r)" "length (res_data r) < 65536" using Cons.prems(1) by (simp_all add: res_ok_def)
  have sz: "length pre + length (res_wire r) + length (concat (map res_wire rs)) \<le> sz" using Cons.prems(3) by simp
  have buf: "buf = pre @ ?w @ net16 (res_type r) @ net16 (res_class r) @ net32 (res_ttl r)
      @ net16 (word_of_nat (length (res_data r))) @ res_data r @ ?rest"
    using Cons.prems(2) by (simp add: res_wire_def [of r])
  have skip: "mdns_string_skip buf sz (length pre) = Inr (Some ?o)"
    by (rule skip_wire [OF ok(1) buf]) (use sz assms(2) length_res_wire [of r] in auto)
  have fields: "mdns_ntohs buf ?o = Inr (res_type r)" "mdns_ntohs buf (?o + 2) = Inr (res_class r)"
    "mdns_ntohl buf (?o + 4) = Inr (res_ttl r)" "mdns_ntohs buf (?o + 8) = Inr (word_of_nat (length (res_data r)))"
    by (rule ntohs_here [where pre = "pre @ ?w"] ntohs_here [where pre = "pre @ ?w @ net16 (res_type r)"]
        ntohl_here [where pre = "pre @ ?w @ net16 (res_type r) @ net16 (res_class r)"]
        ntohs_here [where pre = "pre @ ?w @ net16 (res_type r) @ net16 (res_class r) @ net32 (res_ttl r)"];
        simp add: buf)+
  have len: "unat (word_of_nat (length (res_data r)) :: 16 word) = length (res_data r)"
    using ok(2) by (simp add: unsigned_of_nat take_bit_eq_mod)
  have step: "mdns_records_parse (Some cb) buf sz type qid (Suc (length rs)) parsed (length pre) u =
      or_fault (cb (res_entry type qid buf sz (length pre) r) u) (\<lambda>(stop, u).
        if stop then Inr (parsed + 1, ?o + 10, u)
        else mdns_records_parse (Some cb) buf sz type qid (length rs) (parsed + 1) (?o + 10 + length (res_data r)) u)"
  proof -
    have "\<not> sz < ?o + 10" "length (res_data r) \<le> sz - (?o + 10)" using sz length_res_wire [of r] by simp_all
    then show ?thesis using skip fields len by (simp add: Let_def call_back_def res_entry_def cong: if_cong)
  qed
  show ?case
  proof (cases "cb (res_entry type qid buf sz (length pre) r) u")
    case (Inl f)
    then show ?thesis unfolding length_Cons step by simp
  next
    case (Inr x)
    obtain stop u' where x: "x = (stop, u')" by fastforce
    then have "\<not> stop" using Inr assms(1) by (auto simp: never_stops_def)
    have "mdns_records_parse (Some cb) buf sz type qid (length rs) (parsed + 1) (length (pre @ res_wire r)) u' =
      map_sum id (\<lambda>u. (parsed + 1 + length rs, length (pre @ res_wire r) + length (concat (map res_wire rs)), u))
        (feed cb (res_entries type qid buf sz (length (pre @ res_wire r)) rs) u')"
      by (rule Cons.IH) (use Cons.prems in auto)
    then show ?thesis using \<open>\<not> stop\<close> unfolding length_Cons step by (simp add: Inr x length_res_wire add.assoc id_def)
  qed
qed simp


text \<open>A question, and a whole packet.\<close>

type_synonym question = "string list \<times> 16 word \<times> 16 word"

definition question_wire :: "question \<Rightarrow> string" where
  "question_wire q = (case q of (ls, t, c) \<Rightarrow> wire ls @ net16 t @ net16 c)"

record packet =
  pk_id :: "16 word"
  pk_flags :: "16 word"
  pk_questions :: "question list"
  pk_answers :: "resource list"
  pk_authority :: "resource list"
  pk_additional :: "resource list"

definition packet_wire :: "packet \<Rightarrow> string" where
  "packet_wire p =
     header_bytes (pk_id p) (pk_flags p) (word_of_nat (length (pk_questions p))) (word_of_nat (length (pk_answers p)))
       (word_of_nat (length (pk_authority p))) (word_of_nat (length (pk_additional p)))
     @ concat (map question_wire (pk_questions p)) @ concat (map res_wire (pk_answers p))
     @ concat (map res_wire (pk_authority p)) @ concat (map res_wire (pk_additional p))"

definition packet_ok :: "packet \<Rightarrow> bool" where
  "packet_ok p \<longleftrightarrow> (\<forall>q \<in> set (pk_questions p). labels_ok (fst q)) \<and>
     (\<forall>r \<in> set (pk_answers p @ pk_authority p @ pk_additional p). res_ok r) \<and>
     length (pk_questions p) < 65536 \<and> length (pk_answers p) < 65536 \<and> length (pk_authority p) < 65536 \<and>
     length (pk_additional p) < 65536"

text \<open>The entries that a client should see, of a packet in a block.\<close>

definition packet_entries :: "packet \<Rightarrow> string \<Rightarrow> mdns_entry list" where
  "packet_entries p buf =
     (let sz = length (packet_wire p);
          o1 = 12 + length (concat (map question_wire (pk_questions p)));
          o2 = o1 + length (concat (map res_wire (pk_answers p)));
          o3 = o2 + length (concat (map res_wire (pk_authority p)))
      in res_entries MDNS_ENTRYTYPE_ANSWER (pk_id p) buf sz o1 (pk_answers p)
         @ res_entries MDNS_ENTRYTYPE_AUTHORITY (pk_id p) buf sz o2 (pk_authority p)
         @ res_entries MDNS_ENTRYTYPE_ADDITIONAL (pk_id p) buf sz o3 (pk_additional p))"

lemma unat_length: "n < 65536 \<Longrightarrow> unat (word_of_nat n :: 16 word) = n"
  by (simp add: unsigned_of_nat take_bit_eq_mod)

lemma header_read:
  "mdns_header (header_bytes i f q an au ad @ r) = Inr \<lparr>hdr_query_id = i, hdr_flags = f, hdr_questions = unat q,
     hdr_answer_rrs = unat an, hdr_authority_rrs = unat au, hdr_additional_rrs = unat ad\<rparr>"
proof -
  have "mdns_ntohs (header_bytes i f q an au ad @ r) 0 = Inr i" "mdns_ntohs (header_bytes i f q an au ad @ r) 2 = Inr f"
    "mdns_ntohs (header_bytes i f q an au ad @ r) 4 = Inr q" "mdns_ntohs (header_bytes i f q an au ad @ r) 6 = Inr an"
    "mdns_ntohs (header_bytes i f q an au ad @ r) 8 = Inr au" "mdns_ntohs (header_bytes i f q an au ad @ r) 10 = Inr ad"
    unfolding header_bytes_def
    by (rule ntohs_here [where pre = "[]"] ntohs_here [where pre = "net16 i"] ntohs_here [where pre = "net16 i @ net16 f"]
        ntohs_here [where pre = "net16 i @ net16 f @ net16 q"] ntohs_here [where pre = "net16 i @ net16 f @ net16 q @ net16 an"]
        ntohs_here [where pre = "net16 i @ net16 f @ net16 q @ net16 an @ net16 au"]; simp)+
  then show ?thesis by (simp add: mdns_header_def)
qed

lemma skip_questions_wire:
  "\<forall>q \<in> set qs. labels_ok (fst q) \<Longrightarrow> buf = pre @ concat (map question_wire qs) @ post \<Longrightarrow>
   length pre + length (concat (map question_wire qs)) \<le> sz \<Longrightarrow> sz \<le> length buf \<Longrightarrow>
   mdns_skip_questions buf sz (length qs) (length pre) = Inr (Some (length pre + length (concat (map question_wire qs))))"
proof (induction qs arbitrary: pre)
  case (Cons q qs)
  obtain ls t c where q: "q = (ls, t, c)" by (cases q)
  have qw: "question_wire q = wire ls @ net16 t @ net16 c" by (simp add: question_wire_def q)
  have "mdns_string_skip buf sz (length pre) = Inr (Some (length pre + length (wire ls)))"
    by (rule skip_wire [where post = "net16 t @ net16 c @ concat (map question_wire qs) @ post"])
      (use Cons.prems in \<open>auto simp: q question_wire_def [of "(ls, t, c)"]\<close>)
  moreover have "mdns_skip_questions buf sz (length qs) (length (pre @ question_wire q)) =
      Inr (Some (length (pre @ question_wire q) + length (concat (map question_wire qs))))"
    by (rule Cons.IH) (use Cons.prems in auto)
  ultimately show ?case by (simp add: qw add.assoc)
qed simp

lemma sections_step:
  assumes "never_stops cb" "sz \<le> length buf" "\<forall>r \<in> set rs. res_ok r" "buf = pre @ concat (map res_wire rs) @ post"
    "length pre + length (concat (map res_wire rs)) \<le> sz"
  shows "mdns_sections (Some cb) buf sz qid ((type, length rs) # ts) k (length pre) = (\<lambda>u.
    or_fault (feed cb (res_entries type qid buf sz (length pre) rs) u)
      (mdns_sections (Some cb) buf sz qid ts (k + length rs) (length pre + length (concat (map res_wire rs)))))"
proof
  fix u
  show "mdns_sections (Some cb) buf sz qid ((type, length rs) # ts) k (length pre) u =
    or_fault (feed cb (res_entries type qid buf sz (length pre) rs) u)
      (mdns_sections (Some cb) buf sz qid ts (k + length rs) (length pre + length (concat (map res_wire rs))))"
    using parse_resources [OF assms]
    by (cases "feed cb (res_entries type qid buf sz (length pre) rs) u") simp_all
qed

text \<open>A packet that is received: its header and its records are what was written.\<close>

lemma query_recv_packet:
  assumes "packet_ok p" "never_stops cb" "length (packet_wire p) \<le> capacity" "capacity \<le> length buffer"
    "qid \<le> 0 \<or> qid = int (unat (pk_id p))"
  shows "mdns_query_recv (Some (packet_wire p)) buffer capacity (Some cb) u qid =
    (let b = packet_wire p @ drop (length (packet_wire p)) buffer
     in map_sum id (\<lambda>u. (length (pk_answers p) + length (pk_authority p) + length (pk_additional p), b, u))
          (feed cb (packet_entries p b) u))"
proof -
  define b where "b = packet_wire p @ drop (length (packet_wire p)) buffer"
  define sz where "sz = length (packet_wire p)"
  define h where "h = header_bytes (pk_id p) (pk_flags p) (word_of_nat (length (pk_questions p)))
    (word_of_nat (length (pk_answers p))) (word_of_nat (length (pk_authority p))) (word_of_nat (length (pk_additional p)))"
  define q where "q = concat (map question_wire (pk_questions p))"
  define an where "an = concat (map res_wire (pk_answers p))"
  define au where "au = concat (map res_wire (pk_authority p))"
  define ad where "ad = concat (map res_wire (pk_additional p))"
  define z where "z = drop sz buffer"
  have w: "packet_wire p = h @ q @ an @ au @ ad"
    by (simp add: packet_wire_def h_def q_def an_def au_def ad_def)
  have h12: "length h = 12" by (simp add: h_def header_bytes_def)
  have b: "b = h @ q @ an @ au @ ad @ z" by (simp add: b_def z_def sz_def w)
  have sz: "sz = 12 + length q + length an + length au + length ad" "sz \<le> length b" by (simp_all add: sz_def w h12 b)
  have recv: "receive (Some (packet_wire p)) buffer capacity = Some (b, sz)"
    using assms(3,4) h12 by (simp add: receive_def Let_def b_def sz_def min_def w)
  have head: "mdns_header b = Inr \<lparr>hdr_query_id = pk_id p, hdr_flags = pk_flags p, hdr_questions = length (pk_questions p),
     hdr_answer_rrs = length (pk_answers p), hdr_authority_rrs = length (pk_authority p),
     hdr_additional_rrs = length (pk_additional p)\<rparr>"
    unfolding b h_def header_read using assms(1) by (simp add: packet_ok_def unat_length)
  have skip: "mdns_skip_questions b sz (length (pk_questions p)) 12 = Inr (Some (12 + length q))"
    using skip_questions_wire [of "pk_questions p" b h "an @ au @ ad @ z" sz] assms(1) sz h12 b
    by (simp add: packet_ok_def q_def)
  note step = sections_step [OF assms(2) sz(2)]
  have secs: "mdns_sections (Some cb) b sz (pk_id p) [(MDNS_ENTRYTYPE_ANSWER, length (pk_answers p)),
      (MDNS_ENTRYTYPE_AUTHORITY, length (pk_authority p)), (MDNS_ENTRYTYPE_ADDITIONAL, length (pk_additional p))] 0
      (12 + length q) u =
    map_sum id (\<lambda>u. (length (pk_answers p) + length (pk_authority p) + length (pk_additional p), u)) (feed cb (packet_entries p b) u)"
    (is "?S = _")
  proof -
    have ok: "\<forall>r \<in> set (pk_answers p). res_ok r" "\<forall>r \<in> set (pk_authority p). res_ok r" "\<forall>r \<in> set (pk_additional p). res_ok r"
      using assms(1) by (auto simp: packet_ok_def)
    have parts: "b = (h @ q) @ concat (map res_wire (pk_answers p)) @ (au @ ad @ z)"
      "b = (h @ q @ an) @ concat (map res_wire (pk_authority p)) @ (ad @ z)"
      "b = (h @ q @ an @ au) @ concat (map res_wire (pk_additional p)) @ z"
      by (simp_all add: b an_def au_def ad_def)
    have starts: "length (h @ q) = 12 + length q" "length (h @ q @ an) = 12 + length q + length an"
      "length (h @ q @ an @ au) = 12 + length q + length an + length au" by (simp_all add: h12)
    have room: "length (h @ q) + length (concat (map res_wire (pk_answers p))) \<le> sz"
      "length (h @ q @ an) + length (concat (map res_wire (pk_authority p))) \<le> sz"
      "length (h @ q @ an @ au) + length (concat (map res_wire (pk_additional p))) \<le> sz"
      using sz h12 by (simp_all add: an_def au_def ad_def)
    note steps = step [OF ok(1) parts(1) room(1), unfolded starts] step [OF ok(2) parts(2) room(2), unfolded starts]
      step [OF ok(3) parts(3) room(3), unfolded starts]
    have last: "mdns_sections (Some cb) b sz (pk_id p) [] k off = (\<lambda>u. Inr (k, u))" for k off by (rule ext) simp
    have "?S = or_fault (feed cb (packet_entries p b) u) (\<lambda>u. Inr (length (pk_answers p) + length (pk_authority p) + length (pk_additional p), u))"
      unfolding packet_entries_def Let_def sz_def [symmetric] q_def [symmetric] an_def [symmetric] au_def [symmetric] feed_append
      by (simp only: steps add_0 an_def [symmetric] au_def [symmetric] or_fault_assoc last)
    then show ?thesis by (simp add: or_fault_def split: sum.splits)
  qed
  show ?thesis
    unfolding Let_def b_def [symmetric] mdns_query_recv_def recv using assms(5)
    by (cases "feed cb (packet_entries p b) u") (auto simp: head skip secs simp del: mdns_sections.simps)
qed


section \<open>Answers stay inside the block\<close>

definition record_typed :: "mdns_record_t \<Rightarrow> bool" where
  "record_typed r \<longleftrightarrow> rec_name r \<noteq> [] \<and>
     (rec_type r = MDNS_RECORDTYPE_PTR \<longrightarrow> (\<exists>n. rec_data r = PtrData n \<and> n \<noteq> [])) \<and>
     (rec_type r = MDNS_RECORDTYPE_SRV \<longrightarrow> (\<exists>p w po n. rec_data r = SrvData p w po n \<and> n \<noteq> [])) \<and>
     (rec_type r = MDNS_RECORDTYPE_A \<longrightarrow> (\<exists>b. rec_data r = AData b)) \<and>
     (rec_type r = MDNS_RECORDTYPE_AAAA \<longrightarrow> (\<exists>b. rec_data r = AaaaData b)) \<and>
     (rec_type r = MDNS_RECORDTYPE_TXT \<longrightarrow> (\<exists>k v. rec_data r = TxtData k v))"

text \<open>A step that is given a place in the block: it goes on in the block, or gives up.\<close>

definition stays :: "nat \<Rightarrow> nat \<Rightarrow> fault + written \<Rightarrow> bool" where
  "stays n cap r \<longleftrightarrow> (\<exists>b d t. r = Inr (b, d, t) \<and> length b = n \<and> (\<forall>x. d = Some x \<longrightarrow> 12 \<le> x \<and> x \<le> cap))"

lemma put_ok: "data + length bs \<le> length buf \<Longrightarrow>
    \<exists>b. mdns_put buf data bs = Inr (b, data + length bs) \<and> length b = length buf"
  by (auto simp: mdns_put_def poke_ok)

lemma make_stays:
  assumes "cap \<le> length buf" "name \<noteq> []" "12 \<le> data" "data \<le> cap"
  shows "\<exists>b d t. mdns_string_make buf cap data name (length name) tab = Inr (b, d, t) \<and> length b = length buf \<and>
    (\<forall>x. d = Some x \<longrightarrow> data < x \<and> x \<le> cap)"
  using make_safe [OF assms(1), of "length name" name data tab] assms by (auto simp: written_ok_def)

lemma header_stays:
  assumes "cap \<le> length buf" "rec_name r \<noteq> []" "12 \<le> data" "data \<le> cap"
  shows "\<exists>b d t. mdns_answer_add_record_header buf cap data r tab = Inr (b, d, t) \<and> length b = length buf \<and>
    (\<forall>x. d = Some x \<longrightarrow> data + 10 < x \<and> x \<le> cap)"
proof -
  obtain b d t where m: "mdns_string_make buf cap data (rec_name r) (length (rec_name r)) tab = Inr (b, d, t)"
    "length b = length buf" "\<And>x. d = Some x \<Longrightarrow> data < x \<and> x \<le> cap"
    using make_stays [OF assms(1,2,3,4)] by blast
  show ?thesis
  proof (cases d)
    case (Some x)
    have x: "data < x" "x \<le> cap" using m(3) [OF Some] by auto
    show ?thesis
    proof (cases "cap - x < 10")
      case False
      then have room: "x + 10 \<le> cap" using x by linarith
      obtain b' where "mdns_put b x (net16 (rec_type r) @ net16 (rec_rclass r) @ net32 (rec_ttl r) @ net16 0) = Inr (b', x + 10)"
        "length b' = length buf"
        using put_ok [of x "net16 (rec_type r) @ net16 (rec_rclass r) @ net32 (rec_ttl r) @ net16 0" b] room assms(1) m(2)
        by auto
      then show ?thesis using False x m(1) Some by (simp add: mdns_answer_add_record_header_def)
    qed (use x m Some in \<open>simp add: mdns_answer_add_record_header_def\<close>)
  qed (use m in \<open>simp add: mdns_answer_add_record_header_def\<close>)
qed

lemma data_stays:
  assumes "cap \<le> length buf" "record_typed r" "12 \<le> data" "data \<le> cap" "rec_type r \<noteq> MDNS_RECORDTYPE_TXT"
  shows "\<exists>b d t. mdns_add_data buf cap data r tab = Inr (b, d, t) \<and> length b = length buf \<and>
    (\<forall>x. d = Some x \<longrightarrow> data \<le> x \<and> x \<le> cap)"
proof -
  consider (ptr) "rec_type r = MDNS_RECORDTYPE_PTR" | (srv) "rec_type r = MDNS_RECORDTYPE_SRV"
    | (a) "rec_type r = MDNS_RECORDTYPE_A" | (aaaa) "rec_type r = MDNS_RECORDTYPE_AAAA"
    | (other) "rec_type r \<noteq> MDNS_RECORDTYPE_PTR" "rec_type r \<noteq> MDNS_RECORDTYPE_SRV" "rec_type r \<noteq> MDNS_RECORDTYPE_A"
        "rec_type r \<noteq> MDNS_RECORDTYPE_AAAA"
    by blast
  then show ?thesis
  proof cases
    case ptr
    then obtain n where n: "rec_data r = PtrData n" "n \<noteq> []" using assms(2) by (auto simp: record_typed_def)
    show ?thesis using make_stays [OF assms(1) n(2) assms(3,4)] ptr n by (fastforce simp: mdns_add_data_def)
  next
    case srv
    then obtain p w po n where n: "rec_data r = SrvData p w po n" "n \<noteq> []" using assms(2) by (auto simp: record_typed_def)
    show ?thesis
    proof (cases "cap - data \<le> 6")
      case False
      then have room: "data + 6 \<le> cap" using assms(4) by linarith
      obtain b where b: "mdns_put buf data (net16 p @ net16 w @ net16 po) = Inr (b, data + 6)" "length b = length buf"
        using put_ok [of data "net16 p @ net16 w @ net16 po" buf] room assms(1) by auto
      have "cap \<le> length b" "12 \<le> data + 6" "data + 6 \<le> cap" using b assms False by simp_all
      from make_stays [OF this(1) n(2) this(2,3)] show ?thesis using srv n b False assms(4)
        by (fastforce simp: mdns_add_data_def)
    qed (use srv assms in \<open>simp add: mdns_add_data_def\<close>)
  next
    case a
    then obtain bs where bs: "rec_data r = AData bs" using assms(2) by (auto simp: record_typed_def)
    show ?thesis
    proof (cases "cap - data < 4")
      case False
      then have room: "data + length (take 4 bs) \<le> cap" using assms(4) by simp
      then obtain b where "mdns_put buf data (take 4 bs) = Inr (b, data + length (take 4 bs))" "length b = length buf"
        using put_ok [of data "take 4 bs" buf] assms(1) by auto
      then show ?thesis using False a bs room assms(4) by (simp add: mdns_add_data_def)
    qed (use a assms in \<open>simp add: mdns_add_data_def\<close>)
  next
    case aaaa
    then obtain bs where bs: "rec_data r = AaaaData bs" using assms(2) by (auto simp: record_typed_def)
    show ?thesis
    proof (cases "cap - data < 16")
      case False
      then have room: "data + length (take 16 bs) \<le> cap" using assms(4) by simp
      then obtain b where "mdns_put buf data (take 16 bs) = Inr (b, data + length (take 16 bs))" "length b = length buf"
        using put_ok [of data "take 16 bs" buf] assms(1) by auto
      then show ?thesis using False aaaa bs room assms(4) by (simp add: mdns_add_data_def)
    qed (use aaaa assms in \<open>simp add: mdns_add_data_def\<close>)
  next
    case other
    then show ?thesis using assms by (simp add: mdns_add_data_def)
  qed
qed

lemma record_stays:
  assumes "cap \<le> length buf" "record_typed r" "\<And>x. data = Some x \<Longrightarrow> 12 \<le> x \<and> x \<le> cap"
  shows "stays (length buf) cap (mdns_answer_add_record buf cap data r tab)"
proof (cases "data = None \<or> rec_type r = MDNS_RECORDTYPE_TXT")
  case True
  then show ?thesis using assms(3) by (auto simp: stays_def mdns_answer_add_record_def split: option.splits)
next
  case False
  then obtain d where d: "data = Some d" "12 \<le> d" "d \<le> cap" using assms(3) by auto
  have name: "rec_name r \<noteq> []" using assms(2) by (simp add: record_typed_def)
  obtain b e t where h: "mdns_answer_add_record_header buf cap d r tab = Inr (b, e, t)" "length b = length buf"
    "\<And>x. e = Some x \<Longrightarrow> d + 10 < x \<and> x \<le> cap"
    using header_stays [OF assms(1) name d(2,3)] by blast
  show ?thesis
  proof (cases e)
    case None
    then show ?thesis using h d False by (simp add: stays_def mdns_answer_add_record_def)
  next
    case (Some x)
    have x: "d + 10 < x" "x \<le> cap" using h(3) [OF Some] by auto
    obtain b' e' t' where i: "mdns_add_data b cap x r t = Inr (b', e', t')" "length b' = length buf"
      "\<And>y. e' = Some y \<Longrightarrow> x \<le> y \<and> y \<le> cap"
      using data_stays [of cap b r x t] h(2) assms(1,2) x d False by fastforce
    show ?thesis
    proof (cases e')
      case None
      then show ?thesis using h(1) i d False Some by (simp add: stays_def mdns_answer_add_record_def)
    next
      case more: (Some y)
      have "x - 2 + length (net16 (word_of_nat (y - x))) \<le> length b'" using x i(2) assms(1) by simp
      then obtain b2 where b2: "poke b' (x - 2) (net16 (word_of_nat (y - x))) = Inr b2" "length b2 = length buf"
        using poke_ok length_poke i(2) by metis
      have "mdns_answer_add_record buf cap data r tab = Inr (b2, Some y, t')"
        using h(1) i(1) d False Some more b2(1) by (simp add: mdns_answer_add_record_def)
      then show ?thesis using i(3) [OF more] x d b2(2) by (simp add: stays_def)
    qed
  qed
qed


lemma txt_records_stay:
  assumes "\<forall>r \<in> set rs. record_typed r"
  shows "cap \<le> length buf \<Longrightarrow> (\<And>x. data = Some x \<Longrightarrow> 12 \<le> x \<and> x \<le> cap) \<Longrightarrow>
      (\<And>st d. start = Some st \<Longrightarrow> data = Some d \<Longrightarrow> 12 \<le> st \<and> st \<le> d) \<Longrightarrow>
    \<exists>b d t st. mdns_txt_records buf cap data rs rclass ttl tab start = Inr ((b, d, t), st) \<and> length b = length buf \<and>
      (\<forall>x. d = Some x \<longrightarrow> 12 \<le> x \<and> x \<le> cap) \<and> (\<forall>s x. st = Some s \<longrightarrow> d = Some x \<longrightarrow> 12 \<le> s \<and> s \<le> x)"
  using assms
proof (induction rs arbitrary: buf data tab start)
  case (Cons r rs)
  show ?case
  proof (cases data)
    case None
    then show ?thesis using Cons.prems by simp
  next
    case (Some d)
    have d: "12 \<le> d" "d \<le> cap" using Cons.prems(2) Some by auto
    show ?thesis
    proof (cases "rec_type r = MDNS_RECORDTYPE_TXT")
      case False
      then show ?thesis using Cons.IH [of buf data start tab] Cons.prems Some by simp
    next
      case True
      obtain k v where kv: "rec_data r = TxtData k v" "rec_name r \<noteq> []"
        using True Cons.prems(4) by (auto simp: record_typed_def)
      define hd where "hd = (case start of
                None \<Rightarrow> mdns_answer_add_record_header buf cap d (mdns_record_update_rclass_ttl r rclass ttl) tab
              | Some _ \<Rightarrow> Inr (buf, Some d, tab))"
      have "rec_name (mdns_record_update_rclass_ttl r rclass ttl) \<noteq> []"
        using kv(2) by (simp add: mdns_record_update_rclass_ttl_def Let_def)
      then obtain b e t where h: "hd = Inr (b, e, t)" "length b = length buf" "\<And>x. e = Some x \<Longrightarrow> d \<le> x \<and> x \<le> cap"
        using header_stays [of cap buf "mdns_record_update_rclass_ttl r rclass ttl" d tab] Cons.prems(1) d
        by (cases start) (fastforce simp: hd_def)+
      show ?thesis
      proof (cases e)
        case None
        then show ?thesis using True Some h(1,2) by (simp add: hd_def [symmetric])
      next
        case e: (Some x)
        have x: "d \<le> x" "x \<le> cap" using h(3) [OF e] by auto
        define n where "n = length k + length v + 1"
        show ?thesis
        proof (cases "cap - x \<le> n \<or> n > 0x3FFF")
          case True
          then show ?thesis using \<open>rec_type r = _\<close> Some h(1,2) e kv x by (auto simp: hd_def [symmetric] n_def Let_def)
        next
          case False
          then have room: "x + n + 1 \<le> cap" using x by linarith
          then obtain b' where b': "mdns_put b x (char_of n # k @ CHR ''='' # v) = Inr (b', x + n + 1)" "length b' = length b"
            using put_ok [of x "char_of n # k @ CHR ''='' # v" b] h(2) Cons.prems(1) by (auto simp: n_def)
          let ?st = "case start of None \<Rightarrow> Some x | Some st \<Rightarrow> Some st"
          have step: "mdns_txt_records buf cap data (r # rs) rclass ttl tab start =
              mdns_txt_records b' cap (Some (x + n + 1)) rs rclass ttl t ?st"
            using \<open>rec_type r = _\<close> Some h(1) e kv(1) False x b'(1)
            by (simp add: hd_def [symmetric] n_def Let_def)
          have "\<exists>b2 d2 t2 st. mdns_txt_records b' cap (Some (x + n + 1)) rs rclass ttl t ?st = Inr ((b2, d2, t2), st) \<and>
              length b2 = length b' \<and> (\<forall>x. d2 = Some x \<longrightarrow> 12 \<le> x \<and> x \<le> cap) \<and>
              (\<forall>s x. st = Some s \<longrightarrow> d2 = Some x \<longrightarrow> 12 \<le> s \<and> s \<le> x)"
          proof (rule Cons.IH)
            fix st d' assume "?st = Some st" "Some (x + n + 1) = Some d'"
            then show "12 \<le> st \<and> st \<le> d'" using Cons.prems(3) [of st d] Some d x by (cases start) auto
          qed (use Cons.prems room d x b' h(2) in auto)
          then show ?thesis unfolding step using b'(2) h(2) by simp
        qed
      qed
    qed
  qed
qed simp

lemma header_end:
  "mdns_answer_add_record_header buf cap data r tab = Inr (b, Some x, t) \<Longrightarrow> cap \<le> length buf \<Longrightarrow> rec_name r \<noteq> [] \<Longrightarrow>
   12 \<le> data \<Longrightarrow> data \<le> cap \<Longrightarrow> data + 10 < x"
  using header_stays [of cap buf r data tab] by auto

lemma add_records_stay:
  assumes "\<forall>r \<in> set rs. record_typed (upd r)"
  shows "cap \<le> length b \<Longrightarrow> (\<And>x. d = Some x \<Longrightarrow> 12 \<le> x \<and> x \<le> cap) \<Longrightarrow>
    stays (length b) cap (mdns_add_records upd cap rs (b, d, t))"
  using assms
proof (induction rs arbitrary: b d t)
  case (Cons r rs)
  show ?case
  proof (cases d)
    case (Some x)
    obtain b' d' t' where r: "mdns_answer_add_record b cap d (upd r) t = Inr (b', d', t')" "length b' = length b"
      "\<And>x. d' = Some x \<Longrightarrow> 12 \<le> x \<and> x \<le> cap"
      using record_stays [of cap b "upd r" d t] Cons.prems by (auto simp: stays_def)
    have "stays (length b') cap (mdns_add_records upd cap rs (b', d', t'))"
      by (rule Cons.IH) (use Cons.prems r in auto)
    then show ?thesis using Some r(1,2) by simp
  qed (simp add: stays_def)
qed (simp add: stays_def)

lemma add_txt_stays:
  assumes "\<forall>r \<in> set rs. record_typed r" "cap \<le> length b" "\<And>x. d = Some x \<Longrightarrow> 12 \<le> x \<and> x \<le> cap"
  shows "stays (length b) cap (mdns_answer_add_txt_record b cap d rs rclass ttl t)"
proof -
  obtain b' d' t' st where r: "mdns_txt_records b cap d rs rclass ttl t None = Inr ((b', d', t'), st)" "length b' = length b"
    "\<And>x. d' = Some x \<Longrightarrow> 12 \<le> x \<and> x \<le> cap" "\<And>s x. st = Some s \<Longrightarrow> d' = Some x \<Longrightarrow> 12 \<le> s \<and> s \<le> x"
    using txt_records_stay [OF assms(1,2), where data = d and start = None and rclass = rclass and ttl = ttl and tab = t]
      assms(3) by auto
  show ?thesis
  proof (cases "d' = None \<or> st = None")
    case True
    then show ?thesis using r by (auto simp: mdns_answer_add_txt_record_def stays_def split: option.splits)
  next
    case False
    then obtain x s where xs: "d' = Some x" "st = Some s" by auto
    have "s - 2 + length (net16 (word_of_nat (x - s))) \<le> length b'"
      using r(2) r(3) [OF xs(1)] r(4) [OF xs(2,1)] assms(2) unfolding length_net by linarith
    then obtain b2 where b2: "poke b' (s - 2) (net16 (word_of_nat (x - s))) = Inr b2" "length b2 = length b"
      using poke_ok length_poke r(2) by metis
    have "mdns_answer_add_txt_record b cap d rs rclass ttl t = Inr (b2, Some x, t')"
      using r(1) xs b2(1) by (simp add: mdns_answer_add_txt_record_def)
    then show ?thesis using r(3) [OF xs(1)] b2(2) by (simp add: stays_def)
  qed
qed

lemma section_stays:
  assumes "\<forall>r \<in> set rs. record_typed r \<and> record_typed (upd r)" "stays n cap (Inr w)" "cap \<le> n"
  shows "stays n cap (mdns_add_section upd cap rs rclass ttl w)"
proof -
  obtain b d t where w: "w = (b, d, t)" by (cases w)
  have b: "length b = n" "\<And>x. d = Some x \<Longrightarrow> 12 \<le> x \<and> x \<le> cap" using assms(2) by (auto simp: w stays_def)
  have "stays (length b) cap (mdns_add_records upd cap rs (b, d, t))"
    by (rule add_records_stay) (use assms b in auto)
  then obtain b' d' t' where r: "mdns_add_records upd cap rs (b, d, t) = Inr (b', d', t')" "length b' = n"
    "\<And>x. d' = Some x \<Longrightarrow> 12 \<le> x \<and> x \<le> cap" using b(1) by (auto simp: stays_def)
  have "stays (length b') cap (mdns_answer_add_txt_record b' cap d' rs rclass ttl t')"
    by (rule add_txt_stays) (use assms r in auto)
  then show ?thesis using r(1,2) by (simp add: mdns_add_section_def w)
qed

lemma stays_bind:
  assumes "stays n cap m" "\<And>w. m = Inr w \<Longrightarrow> stays n cap (Inr w) \<Longrightarrow> P (k w)"
  shows "P (or_fault m k)"
  using assms by (auto simp: stays_def)

lemma question_stays:
  assumes "cap \<le> length buf" "name \<noteq> []" "12 \<le> cap"
  shows "stays (length buf) cap (mdns_answer_add_question_unicast buf cap 12 rtype name (length name) tab)"
proof -
  obtain b d t where m: "mdns_string_make buf cap 12 name (length name) tab = Inr (b, d, t)" "length b = length buf"
    "\<And>x. d = Some x \<Longrightarrow> 12 < x \<and> x \<le> cap" using make_stays [OF assms(1,2) le_refl assms(3), of tab] by blast
  show ?thesis
  proof (cases d)
    case (Some x)
    let ?bs = "net16 rtype @ net16 (MDNS_UNICAST_RESPONSE OR MDNS_CLASS_IN)"
    have "\<exists>b'. mdns_put b x ?bs = Inr (b', x + 4) \<and> length b' = length b" if "\<not> size_sub cap x < 4"
      using put_ok [of x ?bs b] that m(2) m(3) [OF Some] assms(1) by (simp add: size_sub_le)
    then show ?thesis using m(1,2) m(3) [OF Some] Some by (auto simp: mdns_answer_add_question_unicast_def stays_def)
  qed (use m in \<open>simp add: mdns_answer_add_question_unicast_def stays_def\<close>)
qed

lemma poke_header:
  assumes "48 \<le> length buf"
  shows "\<exists>buf'. poke buf 0 (header_bytes a b c d e f) = Inr buf' \<and> length buf' = length buf"
  using assms by (simp add: poke_def header_bytes_def)

text \<open>The last part of every answer: its two sections, and what is sent.\<close>

definition sends_within :: "(string \<Rightarrow> nat \<Rightarrow> fault + bool \<times> datagram list) \<Rightarrow> bool" where
  "sends_within send \<longleftrightarrow> (\<forall>b x. x \<le> length b \<longrightarrow> (\<exists>sent out. send b x = Inr (sent, out) \<and> (\<forall>(dest, p) \<in> set out. length p \<le> length b)))"

lemma multicast_within: "sends_within (mdns_multicast_send sock)"
  by (auto simp: sends_within_def mdns_multicast_send_def bytes_at_ok split: option.splits)

lemma unicast_within: "sends_within (mdns_unicast_send sock address)"
  by (auto simp: sends_within_def mdns_unicast_send_def bytes_at_ok)

lemma answer_tail:
  assumes "\<And>r. record_typed r \<Longrightarrow> record_typed (upd r)" "\<forall>r \<in> set (authority @ additional). record_typed r"
    "stays capacity capacity (Inr w)" "sends_within send"
  shows "\<exists>res b out. or_fault (mdns_add_section upd capacity authority rclass ttl w) (\<lambda>w.
      or_fault (mdns_add_section upd capacity additional rclass ttl w) (\<lambda>(buffer, data, tab).
        case data of
          None \<Rightarrow> Inr (- 1, buffer, [])
        | Some d \<Rightarrow> or_fault (send buffer d) (\<lambda>(sent, out). Inr (if sent then 0 else - 1, buffer, out)))) =
      Inr (res :: int, b, out) \<and> length b = capacity \<and> (\<forall>(dest, p) \<in> set out. length p \<le> capacity)"
proof -
  obtain w2 where w2: "mdns_add_section upd capacity authority rclass ttl w = Inr w2" "stays capacity capacity (Inr w2)"
    using section_stays [of authority upd capacity capacity w rclass ttl] assms by (fastforce simp: stays_def)
  obtain b d t where w3: "mdns_add_section upd capacity additional rclass ttl w2 = Inr (b, d, t)"
    "length b = capacity" "\<And>x. d = Some x \<Longrightarrow> x \<le> capacity"
    using section_stays [of additional upd capacity capacity w2 rclass ttl] assms w2 by (fastforce simp: stays_def)
  show ?thesis
  proof (cases d)
    case (Some x)
    then obtain sent out where "send b x = Inr (sent, out)" "\<forall>(dest, p) \<in> set out. length p \<le> capacity"
      using assms(4) w3(2) w3(3) [OF Some] unfolding sends_within_def by blast
    then show ?thesis using w2(1) w3 Some by simp
  qed (use w2(1) w3 in simp)
qed

text \<open>Building and sending a multicast answer reads and writes only inside the block.\<close>

lemma multicast_answer_safe:
  assumes "\<forall>r \<in> set (answer # authority @ additional). record_typed r" "length buffer = capacity"
  shows "\<exists>res b out. mdns_answer_multicast_rclass_ttl sock buffer capacity answer authority additional rclass ttl =
      Inr (res, b, out) \<and> length b = capacity \<and> (\<forall>(dest, p) \<in> set out. length p \<le> capacity)"
proof (cases "capacity < 48")
  case False
  have upd: "record_typed (mdns_record_update_rclass_ttl r rclass ttl)" if "record_typed r" for r
    using that by (simp add: record_typed_def mdns_record_update_rclass_ttl_def Let_def)
  obtain b0 where b0: "poke buffer 0 (header_bytes 0 0x8400 0 1 (mdns_answer_get_record_count authority)
      (mdns_answer_get_record_count additional)) = Inr b0" "length b0 = capacity" using poke_header [of buffer 0 "0x8400" 0 1] False assms(2) by fastforce
  obtain w where w: "mdns_answer_add_record b0 capacity (Some 12) (mdns_record_update_rclass_ttl answer rclass ttl)
      (Some string_table_empty) = Inr w" "stays capacity capacity (Inr w)"
    using record_stays [of capacity b0 "mdns_record_update_rclass_ttl answer rclass ttl" "Some 12" "Some string_table_empty"]
      upd assms(1) b0(2) False by (fastforce simp: stays_def)
  show ?thesis
    using answer_tail [of "\<lambda>r. mdns_record_update_rclass_ttl r rclass ttl" authority additional capacity w "mdns_multicast_send sock" rclass ttl]
      upd assms(1) w b0(1) False multicast_within by (simp add: mdns_answer_multicast_rclass_ttl_def Let_def)
qed (use assms(2) in \<open>simp add: mdns_answer_multicast_rclass_ttl_def\<close>)

lemma unicast_answer_safe:
  assumes "\<forall>r \<in> set (answer # authority @ additional). record_typed r" "length buffer = capacity" "name \<noteq> []"
  shows "\<exists>res b out. mdns_query_answer_unicast sock address buffer capacity query_id rtype name (length name) answer authority additional =
      Inr (res, b, out) \<and> length b = capacity \<and> (\<forall>(dest, p) \<in> set out. length p \<le> capacity)"
proof (cases "capacity < 48")
  case False
  define upd where "upd = (\<lambda>r :: mdns_record_t. r\<lparr>rec_rclass := MDNS_CLASS_IN, rec_ttl := (if rec_ttl r = 0 then 10 else rec_ttl r)\<rparr>)"
  have upd: "record_typed (upd r)" if "record_typed r" for r using that by (simp add: record_typed_def upd_def)
  have ans: "record_typed (answer\<lparr>rec_rclass := MDNS_CLASS_IN, rec_ttl := 10\<rparr>)" using assms(1) by (simp add: record_typed_def)
  obtain b0 where b0: "poke buffer 0 (header_bytes query_id 0x8400 1 1 (mdns_answer_get_record_count authority)
      (mdns_answer_get_record_count additional)) = Inr b0" "length b0 = capacity" using poke_header [of buffer query_id "0x8400" 1 1] False assms(2) by fastforce
  obtain b1 d1 t1 where q: "mdns_answer_add_question_unicast b0 capacity 12 rtype name (length name) (Some string_table_empty) =
      Inr (b1, d1, t1)" "length b1 = capacity" "\<And>x. d1 = Some x \<Longrightarrow> 12 \<le> x \<and> x \<le> capacity"
    using question_stays [of capacity b0 name rtype "Some string_table_empty"] b0(2) assms(3) False by (fastforce simp: stays_def)
  obtain w where w: "mdns_answer_add_record b1 capacity d1 (answer\<lparr>rec_rclass := MDNS_CLASS_IN, rec_ttl := 10\<rparr>) t1 = Inr w"
    "stays capacity capacity (Inr w)"
    using record_stays [of capacity b1 "answer\<lparr>rec_rclass := MDNS_CLASS_IN, rec_ttl := 10\<rparr>" d1 t1] ans q(2,3) by (fastforce simp: stays_def)
  show ?thesis
    using answer_tail [of upd authority additional capacity w "mdns_unicast_send sock address" MDNS_CLASS_IN 10]
      upd assms(1) w b0(1) q(1) False unicast_within by (simp add: mdns_query_answer_unicast_def upd_def Let_def)
qed (use assms(2) in \<open>simp add: mdns_query_answer_unicast_def\<close>)


section \<open>The block of a query\<close>

text \<open>The questions of a single name that fits, behind a header.\<close>

lemma questions_fit:
  assumes "labels_ok ls" "name = plain ls \<or> name = dotted ls" "length b1 = capacity" "take 12 b1 = h" "length h = 12"
    "16 + length (wire ls) \<le> capacity"
  shows "\<exists>b. mdns_questions b1 capacity rclass [\<lparr>query_type = type, query_name = name, query_length = length name\<rparr>] 12 =
      Inr (b, Some (16 + length (wire ls))) \<and> length b = capacity \<and>
    take (16 + length (wire ls)) b = h @ wire ls @ net16 type @ net16 rclass"
proof -
  define b2 where "b2 = h @ wire ls @ drop (12 + length (wire ls)) b1"
  define d where "d = 12 + length (wire ls)"
  have m: "mdns_string_make b1 capacity 12 name (length name) None = Inr (b2, Some d, None)"
    using make_wire [OF assms(1,2), of capacity b1 12] assms by (simp add: b2_def d_def)
  have b2: "length b2 = capacity" "d + 4 \<le> capacity" using assms by (simp_all add: b2_def d_def)
  have p1: "mdns_htons b2 d type = Inr (take d b2 @ net16 type @ drop (d + 2) b2, d + 2)"
    using b2 by (simp add: mdns_htons_def poke_ok)
  have p2: "mdns_htons (take d b2 @ net16 type @ drop (d + 2) b2) (d + 2) rclass =
      Inr (take d b2 @ net16 type @ net16 rclass @ drop (d + 4) b2, d + 4)"
    using b2 by (simp add: mdns_htons_def poke_ok min_def numeral_eq_Suc)
  have t: "take d b2 = h @ wire ls" using assms(5) by (simp add: b2_def d_def)
  have "16 + length (wire ls) = d + 4" by (simp add: d_def)
  then show ?thesis using m p1 p2 b2 assms(5) unfolding t by (simp add: d_def)
qed

text \<open>A query that fits is a value, and its id is not positive when it was sent with 0.\<close>

lemma multiquery_fits:
  assumes "labels_ok ls" "name = plain ls \<or> name = dotted ls" "length buffer = capacity" "16 + length (wire ls) \<le> capacity"
  shows "\<exists>res b out. mdns_multiquery_send s [\<lparr>query_type = type, query_name = name, query_length = length name\<rparr>] buffer
      capacity 0 = Inr (res, b, out) \<and> length b = capacity \<and> res \<le> 0"
proof -
  define h where "h = header_bytes 0 0 1 0 0 0"
  have h12: "length h = 12" by (simp add: h_def header_bytes_def)
  have big: "18 \<le> capacity" using assms(4) length_wire [of ls] assms(1) by (cases ls) (auto simp: labels_ok_def Suc_le_eq)
  define b1 where "b1 = h @ drop 12 buffer"
  have b1: "poke buffer 0 h = Inr b1" "length b1 = capacity" "take 12 b1 = h"
    using big assms(3) h12 by (simp_all add: poke_def b1_def)
  obtain b where b: "mdns_questions b1 capacity (query_rclass s) [\<lparr>query_type = type, query_name = name,
      query_length = length name\<rparr>] 12 = Inr (b, Some (16 + length (wire ls)))" "length b = capacity"
    using questions_fit [OF assms(1,2) b1(2,3) h12 assms(4)] by blast
  have "\<exists>ok out. mdns_multicast_send s b (16 + length (wire ls)) = Inr (ok, out)"
    using assms(4) b(2) by (auto simp: mdns_multicast_send_def bytes_at_ok split: option.splits)
  then show ?thesis using big b1(1) b by (auto simp: mdns_multiquery_send_def h_def [symmetric])
qed

section \<open>Properties\<close>


text \<open>A callback that counts the entries and lists where the records are.\<close>

definition demo_callback :: "(nat \<times> nat) list callback" where
  "demo_callback e u = Inr (False, (cb_record_offset e, cb_record_length e) # u)"


text \<open>
  The packet of a query. For a name of proper labels a socket that knows its address sends the header
  with one question, the name, the type and the class, to the group of its family; nothing is sent when
  the block is below 18 bytes or the name does not fit. The four bytes after the name are not compared
  with the capacity: when the name fits and they do not, they are written behind the block.
\<close>

theorem query_packet:
  assumes "labels_ok ls" "name = plain ls \<or> name = dotted ls" "sock_name sock = Some (family, port)" "length buffer = capacity"
  shows "(case mdns_query_send sock type name (length name) buffer capacity qid of
      Inl f \<Rightarrow> f = OutOfBounds \<and> 18 \<le> capacity \<and> 12 + length (wire ls) \<le> capacity \<and> capacity < 16 + length (wire ls)
    | Inr (res, b, out) \<Rightarrow>
        if 16 + length (wire ls) \<le> capacity
        then out = [(if family = AF_INET6 then Group6 else Group4,
               header_bytes qid 0 1 0 0 0 @ wire ls @ net16 type @ net16 (query_rclass sock))] \<and>
             res = (if sock_sends sock then int (unat qid) else - 1)
        else res = - 1 \<and> out = [] \<and> (capacity < 18 \<or> capacity < 12 + length (wire ls)))"
proof -
  define h where "h = header_bytes qid 0 1 0 0 0"
  have h12: "length h = 12" by (simp add: h_def header_bytes_def)
  have wl: "0 < length (wire ls)" by (simp add: wire_def)
  show ?thesis
  proof (cases "capacity < 18")
    case True
    have "2 < length (wire ls)" using assms(1) by (cases ls) (auto simp: length_wire labels_ok_def Suc_lessI)
    then show ?thesis using True by (simp add: mdns_query_send_def mdns_multiquery_send_def)
  next
    case False
    define b1 where "b1 = h @ drop 12 buffer"
    have b1: "poke buffer 0 h = Inr b1" "length b1 = capacity" "take 12 b1 = h"
      using False assms(4) h12 by (simp_all add: poke_def b1_def)
    note make = make_wire [OF assms(1,2), of capacity b1 12]
    show ?thesis
    proof (cases "12 + length (wire ls) \<le> capacity")
      case no: False
      obtain b where "mdns_string_make b1 capacity 12 name (length name) None = Inr (b, None, None)"
        using make b1(2) False no by auto
      then show ?thesis using False b1 no by (simp add: mdns_query_send_def mdns_multiquery_send_def h_def [symmetric])
    next
      case True
      define b2 where "b2 = h @ wire ls @ drop (12 + length (wire ls)) b1"
      have m: "mdns_string_make b1 capacity 12 name (length name) None = Inr (b2, Some (12 + length (wire ls)), None)"
        using make b1 False True by (simp add: b2_def)
      have b2: "length b2 = capacity" using True b1(2) h12 by (simp add: b2_def)
      define d where "d = 12 + length (wire ls)"
      show ?thesis
      proof (cases "16 + length (wire ls) \<le> capacity")
        case room: True
        obtain b where b: "mdns_questions b1 capacity (query_rclass sock) [\<lparr>query_type = type, query_name = name,
            query_length = length name\<rparr>] 12 = Inr (b, Some (16 + length (wire ls)))" "length b = capacity"
          "take (16 + length (wire ls)) b = h @ wire ls @ net16 type @ net16 (query_rclass sock)"
          using questions_fit [OF assms(1,2) b1(2,3) h12 room] by blast
        have "bytes_at b 0 (16 + length (wire ls)) = Inr (h @ wire ls @ net16 type @ net16 (query_rclass sock))"
          using room b(2,3) by (simp add: bytes_at_ok)
        then show ?thesis
          using False b1(1) b(1) room assms(3)
          by (simp add: mdns_query_send_def mdns_multiquery_send_def h_def [symmetric] mdns_multicast_send_def del: mdns_questions.simps)
      next
        case over: False
        have "mdns_htons b2 d type = Inl OutOfBounds \<or>
            (\<exists>b3. mdns_htons b2 d type = Inr (b3, d + 2) \<and> mdns_htons b3 (d + 2) (query_rclass sock) = Inl OutOfBounds)"
          using over True b2 by (auto simp: mdns_htons_def poke_def d_def)
        then show ?thesis using False b1 m True over
          by (auto simp: mdns_query_send_def mdns_multiquery_send_def h_def [symmetric] d_def [symmetric])
      qed
    qed
  qed
qed


definition demo_sock :: mdns_socket where
  "demo_sock = \<lparr>sock_name = Some (AF_INET, 40000), sock_sends = True\<rparr>"

theorem query_packet_witness:
  "mdns_query_send demo_sock MDNS_RECORDTYPE_PTR ''_ezm._tcp.local'' (length ''_ezm._tcp.local'') (replicate 30 CHR 0x00) 30 0 =
     Inl OutOfBounds"
proof -
  have d: "labels_ok demo_service" "length (wire demo_service) = 17" "plain demo_service = ''_ezm._tcp.local''"
    "length ''_ezm._tcp.local'' = 15" "sock_name demo_sock = Some (AF_INET, 40000)" "length (replicate 30 (CHR 0x00)) = 30"
    by (simp_all add: demo_service_def labels_ok_def length_wire demo_sock_def)
  have "case mdns_query_send demo_sock MDNS_RECORDTYPE_PTR ''_ezm._tcp.local'' (length ''_ezm._tcp.local'') (replicate 30 CHR 0x00) 30 0 of
      Inl f \<Rightarrow> f = OutOfBounds \<and> 18 \<le> (30 :: nat) \<and> 12 + length (wire demo_service) \<le> 30 \<and> 30 < 16 + length (wire demo_service)
    | Inr (res, b, out) \<Rightarrow>
        if 16 + length (wire demo_service) \<le> 30
        then out = [(if AF_INET = AF_INET6 then Group6 else Group4,
               header_bytes 0 0 1 0 0 0 @ wire demo_service @ net16 MDNS_RECORDTYPE_PTR @ net16 (query_rclass demo_sock))] \<and>
             res = (if sock_sends demo_sock then int (unat (0 :: 16 word)) else - 1)
        else res = - 1 \<and> out = [] \<and> ((30 :: nat) < 18 \<or> 30 < 12 + length (wire demo_service))"
    by (rule query_packet [OF d(1) _ d(5,6)]) (simp only: d(3) simp_thms)
  then show ?thesis unfolding d(2) by (cases "mdns_query_send demo_sock MDNS_RECORDTYPE_PTR ''_ezm._tcp.local''
      (length ''_ezm._tcp.local'') (replicate 30 CHR 0x00) 30 0") (simp_all split: prod.splits)
qed

text \<open>
  An answer stays inside its block. With records whose data is of their type and whose names are not
  empty, building and sending a multicast answer in a block of the given capacity reads and writes only
  inside, whatever the lengths are, and what is sent is at most the capacity; a block below 48 bytes is
  refused.
\<close>

theorem answer_in_block:
  assumes "\<forall>r \<in> set (answer # authority @ additional). record_typed r" "length buffer = capacity"
  shows "\<exists>res b out. mdns_answer_multicast_rclass_ttl sock buffer capacity answer authority additional rclass ttl =
      Inr (res, b, out) \<and> length b = capacity \<and> (\<forall>(dest, p) \<in> set out. length p \<le> capacity) \<and>
      (capacity < 48 \<longrightarrow> res = - 1 \<and> out = [])"
  using multicast_answer_safe [OF assms, of sock rclass ttl]
  by (cases "capacity < 48") (simp_all add: mdns_answer_multicast_rclass_ttl_def)

definition demo_ptr :: mdns_record_t where
  "demo_ptr = \<lparr>rec_name = ''_ezm._tcp.local'', rec_type = MDNS_RECORDTYPE_PTR, rec_data = PtrData ''hub._ezm._tcp.local'',
     rec_rclass = 0, rec_ttl = 0\<rparr>"

definition demo_txt :: mdns_record_t where
  "demo_txt = \<lparr>rec_name = ''hub._ezm._tcp.local'', rec_type = MDNS_RECORDTYPE_TXT, rec_data = TxtData ''role'' ''standalone'',
     rec_rclass = 0, rec_ttl = 0\<rparr>"

theorem answer_in_block_witness:
  "\<exists>res b out. mdns_answer_multicast_rclass_ttl demo_sock (replicate 512 CHR 0x00) 512 demo_ptr [] [demo_txt] MDNS_CLASS_IN 60 =
      Inr (res, b, out) \<and> length b = 512 \<and> (\<forall>(dest, p) \<in> set out. length p \<le> 512) \<and>
      ((512 :: nat) < 48 \<longrightarrow> res = - 1 \<and> out = [])"
  by (rule answer_in_block) (simp_all add: record_typed_def demo_ptr_def demo_txt_def)

end
