(* ===== verification/Discovery.thy ===== *)
theory Discovery
  imports MeshSetting Mdns
begin

text \<open>
  \<open>src/utils/app_mdns/app_mdns.c\<close>, the query of the service discovery: the sockets of the interfaces, the
  question that is sent, the loop around \<open>select\<close>, and the callback that makes a device of the TXT record
  of an answer; that record is cut into keys and values by \<open>mdns_record_parse_txt\<close> of \<open>lib/mdns/mdns.h\<close>.
  The texts are not terminated: they are suffixes of the block, and reading behind its end is a fault.
  The branch for Windows is not compiled, and left out.
\<close>

section \<open>The parser of the record\<close>

record mdns_record_txt_t =
  txt_key :: string
  txt_key_length :: nat
  txt_value :: string
  txt_value_length :: nat

text \<open>
  The position of the first \<open>=\<close> among the next \<open>n\<close> characters, 0 when there is none or a character
  that a key must not have comes before it.
\<close>

fun scan_key :: "string \<Rightarrow> nat \<Rightarrow> nat \<Rightarrow> fault + nat" where
  "scan_key s c 0 = Inr 0"
| "scan_key [] c (Suc n) = Inl OutOfBounds"
| "scan_key (x # xs) c (Suc n) =
     (if (of_char x :: nat) < 0x20 \<or> (of_char x :: nat) > 0x7E then Inr 0
      else if x = CHR ''='' then Inr c
      else scan_key xs (Suc c) n)"

text \<open>
  The loop. The length byte is not compared with the end of the record. The branch for a separator
  that is not below the length is dead, and left out.
\<close>

function parse_txt_loop ::
  "string \<Rightarrow> nat \<Rightarrow> nat \<Rightarrow> mdns_record_txt_t list \<Rightarrow> nat \<Rightarrow> fault + mdns_record_txt_t list" where
  "parse_txt_loop buffer endp capacity records offset =
     (if offset < endp \<and> length records < capacity then
        (if length buffer \<le> offset then Inl OutOfBounds
         else
          (let sublength = of_char (buffer ! offset);
               strdata = drop (Suc offset) buffer;
               offset' = offset + sublength + 1
           in case scan_key strdata 0 sublength of
                Inl f \<Rightarrow> Inl f
              | Inr separator \<Rightarrow>
                  (if separator = 0 then parse_txt_loop buffer endp capacity records offset'
                   else parse_txt_loop buffer endp capacity
                     (records @ [\<lparr>txt_key = strdata, txt_key_length = separator,
                        txt_value = drop (separator + 1) strdata,
                        txt_value_length = sublength - (separator + 1)\<rparr>]) offset')))
      else Inr records)"
  by pat_completeness auto

termination parse_txt_loop
  by (relation "measure (\<lambda>(_, endp, _, _, offset). endp - offset)") auto

declare parse_txt_loop.simps [simp del]

definition mdns_record_parse_txt ::
  "string \<Rightarrow> nat \<Rightarrow> nat \<Rightarrow> nat \<Rightarrow> nat \<Rightarrow> fault + mdns_record_txt_t list" where
  "mdns_record_parse_txt buffer sz offset len capacity =
     (let endp = (if sz < offset + len then sz else offset + len)
      in parse_txt_loop buffer endp capacity [] offset)"

section \<open>The callback\<close>

text \<open>\<open>!strncmp (s, p, strlen (p))\<close>, and the copy of at most \<open>n\<close> characters, on the rest of a packet.\<close>

fun begins_with :: "string \<Rightarrow> string \<Rightarrow> fault + bool" where
  "begins_with s [] = Inr True"
| "begins_with [] (p # ps) = Inl OutOfBounds"
| "begins_with (c # s) (p # ps) = (if c = p then begins_with s ps else Inr False)"

definition packet_strndup :: "string \<Rightarrow> nat \<Rightarrow> fault + cptr" where
  "packet_strndup s n =
     (if n \<le> length s \<or> CHR 0x00 \<in> set s then Inr (Some (takeWhile (\<lambda>c. c \<noteq> CHR 0x00) (take n s)))
      else Inl OutOfBounds)"

text \<open>The first field of the table whose name begins the key gets the value.\<close>

definition txt_fields :: "(string \<times> (cptr \<Rightarrow> device_info_t \<Rightarrow> device_info_t)) list" where
  "txt_fields =
     [(''hub_id'', \<lambda>v d. d\<lparr>dev_hub_id := v\<rparr>), (''ezm_id'', \<lambda>v d. d\<lparr>dev_ezm_id := v\<rparr>),
      (''ezm_version'', \<lambda>v d. d\<lparr>dev_ezm_version := v\<rparr>), (''ezm_name'', \<lambda>v d. d\<lparr>dev_ezm_name := v\<rparr>),
      (''mac'', \<lambda>v d. d\<lparr>dev_mac := v\<rparr>), (''ip'', \<lambda>v d. d\<lparr>dev_ip := v\<rparr>)]"

fun txt_field ::
  "(string \<times> (cptr \<Rightarrow> device_info_t \<Rightarrow> device_info_t)) list \<Rightarrow> mdns_record_txt_t \<Rightarrow> device_info_t
   \<Rightarrow> fault + device_info_t" where
  "txt_field [] t d = Inr d"
| "txt_field ((name, set_field) # fs) t d =
     (case begins_with (txt_key t) name of
        Inl f \<Rightarrow> Inl f
      | Inr True \<Rightarrow> map_sum id (\<lambda>v. set_field v d) (packet_strndup (txt_value t) (txt_value_length t))
      | Inr False \<Rightarrow> txt_field fs t d)"

text \<open>The loop over the texts: \<open>None\<close> when a role that is not standalone takes the device back.\<close>

fun txt_loop :: "mdns_record_txt_t list \<Rightarrow> device_info_t \<Rightarrow> fault + device_info_t option" where
  "txt_loop [] d = Inr (Some d)"
| "txt_loop (t # ts) d =
     (case begins_with (txt_key t) ''role'' of
        Inl f \<Rightarrow> Inl f
      | Inr role \<Rightarrow>
         (case (if role then begins_with (txt_value t) ''standalone'' else Inr True) of
            Inl f \<Rightarrow> Inl f
          | Inr False \<Rightarrow> Inr None
          | Inr True \<Rightarrow>
             (case (if role then map_sum id (\<lambda>v. d\<lparr>dev_role := v\<rparr>) (packet_strndup (txt_value t) (txt_value_length t))
                    else Inr d) of
                Inl f \<Rightarrow> Inl f
              | Inr d \<Rightarrow> (case txt_field txt_fields t d of Inl f \<Rightarrow> Inl f | Inr d \<Rightarrow> txt_loop ts d))))"

text \<open>What a TXT record makes of the list. The array of texts has 128 places.\<close>

definition txt_callback :: "string \<Rightarrow> nat \<Rightarrow> nat \<Rightarrow> nat \<Rightarrow> device_info_t list \<Rightarrow> fault + device_info_t list" where
  "txt_callback data sz record_offset record_length device_list =
     or_fault (mdns_record_parse_txt data sz record_offset record_length 128) (\<lambda>txts.
     or_fault (txt_loop txts device_zero) (\<lambda>d.
       Inr (case d of None \<Rightarrow> device_list | Some d \<Rightarrow> device_list @ [d])))"

text \<open>
  The callback. Of the other records the name and the data are parsed for the log, into buffers of 256 bytes.
\<close>

definition query_callback :: "device_info_t list callback" where
  "query_callback e device_list =
     or_fault (mdns_string_extract (cb_data e) (cb_size e) (cb_name_offset e) 256) (\<lambda>_.
       let data = cb_data e; sz = cb_size e; off = cb_record_offset e; len = cb_record_length e
       in if cb_rtype e = MDNS_RECORDTYPE_PTR then
            or_fault (mdns_record_parse_ptr data sz off len 256) (\<lambda>_. Inr (False, device_list))
          else if cb_rtype e = MDNS_RECORDTYPE_SRV then
            or_fault (mdns_record_parse_srv data sz off len 256) (\<lambda>_. Inr (False, device_list))
          else if cb_rtype e = MDNS_RECORDTYPE_A then
            or_fault (mdns_record_parse_a data sz off len) (\<lambda>_. Inr (False, device_list))
          else if cb_rtype e = MDNS_RECORDTYPE_AAAA then
            or_fault (mdns_record_parse_aaaa data sz off len) (\<lambda>_. Inr (False, device_list))
          else if cb_rtype e = MDNS_RECORDTYPE_TXT then
            or_fault (txt_callback data sz off len device_list) (\<lambda>ds. Inr (False, ds))
          else Inr (False, device_list))"

section \<open>The sockets\<close>

text \<open>
  What the system calls of \<open>mdns_socket_open_ipv4\<close> and its sister return for an interface: \<open>socket\<close>, joining
  the group and \<open>bind\<close>. The options that are set without a look at the result are left out.
\<close>

record socket_calls =
  sys_socket :: "mdns_socket option"
  sys_join :: bool
  sys_bind :: bool

definition mdns_socket_setup :: "socket_calls \<Rightarrow> int" where
  "mdns_socket_setup c = (if \<not> sys_join c then - 1 else if \<not> sys_bind c then - 1 else 0)"

text \<open>A socket that cannot be set up is closed.\<close>

definition mdns_socket_open :: "socket_calls \<Rightarrow> mdns_socket option" where
  "mdns_socket_open c =
     (case sys_socket c of None \<Rightarrow> None | Some s \<Rightarrow> if mdns_socket_setup c \<noteq> 0 then None else Some s)"

datatype if_address =
    NoAddress
  | Address4 string
  | Address6 string nat
  | OtherAddress

record ifaddrs =
  ifa_addr :: if_address
  ifa_up :: bool
  ifa_multicast :: bool
  ifa_loopback :: bool
  ifa_pointopoint :: bool
  ifa_calls :: socket_calls

definition localhost :: string where
  "localhost = replicate 15 (CHR 0x00) @ [CHR 0x01]"

definition localhost_mapped :: string where
  "localhost_mapped = replicate 10 (CHR 0x00) @ [CHR 0xFF, CHR 0xFF, CHR 0x7F, CHR 0x00, CHR 0x00, CHR 0x01]"

text \<open>Whether a socket is opened for an interface.\<close>

definition usable_interface :: "ifaddrs \<Rightarrow> bool" where
  "usable_interface i \<longleftrightarrow> ifa_addr i \<noteq> NoAddress \<and> ifa_up i \<and> ifa_multicast i \<and> \<not> ifa_loopback i \<and>
     \<not> ifa_pointopoint i \<and>
     (case ifa_addr i of
        Address4 a \<Rightarrow> a \<noteq> [CHR 0x7F, CHR 0x00, CHR 0x00, CHR 0x01]
      | Address6 a scope_id \<Rightarrow> scope_id = 0 \<and> a \<noteq> localhost \<and> a \<noteq> localhost_mapped
      | _ \<Rightarrow> False)"

fun open_client_sockets :: "nat \<Rightarrow> ifaddrs list \<Rightarrow> mdns_socket list \<Rightarrow> mdns_socket list" where
  "open_client_sockets max_sockets [] sockets = sockets"
| "open_client_sockets max_sockets (i # is) sockets =
     (if usable_interface i \<and> length sockets < max_sockets
      then open_client_sockets max_sockets is
             (case mdns_socket_open (ifa_calls i) of None \<Rightarrow> sockets | Some s \<Rightarrow> sockets @ [s])
      else open_client_sockets max_sockets is sockets)"

section \<open>The query\<close>

text \<open>The question to every socket: the query ids, the block and what was sent.\<close>

fun send_queries ::
  "mdns_socket list \<Rightarrow> mdns_query_t \<Rightarrow> string \<Rightarrow> nat \<Rightarrow> fault + int list \<times> string \<times> datagram list" where
  "send_queries [] query buffer capacity = Inr ([], buffer, [])"
| "send_queries (s # ss) query buffer capacity =
     or_fault (mdns_multiquery_send s [query] buffer capacity 0) (\<lambda>(i, buffer, out).
     or_fault (send_queries ss query buffer capacity) (\<lambda>(ids, buffer, outs). Inr (i # ids, buffer, out @ outs)))"

text \<open>
  One return of \<open>select\<close>: for every socket, whether it is ready, and what \<open>recvfrom\<close> returns there.
\<close>

fun read_ready ::
  "(int \<times> string option option) list \<Rightarrow> string \<Rightarrow> nat \<Rightarrow> device_info_t list \<Rightarrow> fault + string \<times> device_info_t list" where
  "read_ready [] buffer capacity ds = Inr (buffer, ds)"
| "read_ready ((i, ready) # rs) buffer capacity ds =
     (case ready of
        None \<Rightarrow> read_ready rs buffer capacity ds
      | Some datagram \<Rightarrow>
          or_fault (mdns_query_recv datagram buffer capacity (Some query_callback) ds i) (\<lambda>(rec, buffer, ds).
            read_ready rs buffer capacity ds))"

text \<open>The loop goes on until \<open>select\<close> times out: the rounds are the returns before.\<close>

fun read_rounds ::
  "int list \<Rightarrow> string option option list list \<Rightarrow> string \<Rightarrow> nat \<Rightarrow> device_info_t list \<Rightarrow> fault + device_info_t list" where
  "read_rounds ids [] buffer capacity ds = Inr ds"
| "read_rounds ids (r # rs) buffer capacity ds =
     or_fault (read_ready (zip ids r) buffer capacity ds) (\<lambda>(buffer, ds). read_rounds ids rs buffer capacity ds)"

text \<open>The whole query: NULL without a socket. \<open>buffer\<close> is the block as \<open>malloc\<close> returns it.\<close>

definition mdns_query_device_list ::
  "ifaddrs list \<Rightarrow> string \<Rightarrow> string \<Rightarrow> string option option list list
   \<Rightarrow> fault + device_info_t list option \<times> datagram list" where
  "mdns_query_device_list interfaces name buffer rounds =
     (let sockets = open_client_sockets 32 interfaces [];
          query = \<lparr>query_type = MDNS_RECORDTYPE_PTR, query_name = name, query_length = length name\<rparr>;
          capacity = 2048
      in if sockets = [] then Inr (None, [])
         else
           or_fault (send_queries sockets query buffer capacity) (\<lambda>(ids, buffer, out).
           or_fault (read_rounds ids rounds buffer capacity []) (\<lambda>ds. Inr (Some ds, out))))"

section \<open>Records as they are published\<close>

text \<open>An entry of a TXT record: a length byte, the key, an equals sign and the value.\<close>

definition entry :: "string \<times> string \<Rightarrow> string" where
  "entry kv = char_of (length (fst kv) + 1 + length (snd kv)) # fst kv @ CHR ''='' # snd kv"

definition entry_ok :: "string \<times> string \<Rightarrow> bool" where
  "entry_ok kv \<longleftrightarrow> fst kv \<noteq> [] \<and> length (fst kv) + 1 + length (snd kv) < 256 \<and> CHR 0x00 \<notin> set (snd kv) \<and>
     (\<forall>c \<in> set (fst kv). 0x20 \<le> (of_char c :: nat) \<and> (of_char c :: nat) \<le> 0x7E \<and> c \<noteq> CHR ''='')"

text \<open>The texts that the parser should find, and where.\<close>

fun texts :: "(string \<times> string) list \<Rightarrow> string \<Rightarrow> mdns_record_txt_t list" where
  "texts [] post = []"
| "texts (kv # kvs) post =
     \<lparr>txt_key = fst kv @ CHR ''='' # snd kv @ concat (map entry kvs) @ post,
      txt_key_length = length (fst kv),
      txt_value = snd kv @ concat (map entry kvs) @ post,
      txt_value_length = length (snd kv)\<rparr> # texts kvs post"

lemma scan_key_found:
  assumes "\<forall>c \<in> set k. 0x20 \<le> (of_char c :: nat) \<and> (of_char c :: nat) \<le> 0x7E \<and> c \<noteq> CHR ''=''"
  shows "scan_key (k @ CHR ''='' # r) i (length k + Suc n) = Inr (i + length k)"
  using assms by (induction k arbitrary: i) auto

lemma parse_entries:
  assumes "\<forall>kv \<in> set kvs. entry_ok kv" "length recs + length kvs \<le> capacity"
    "endp = length pre + length (concat (map entry kvs))"
  shows "parse_txt_loop (pre @ concat (map entry kvs) @ post) endp capacity recs (length pre) =
    Inr (recs @ texts kvs post)"
  using assms
proof (induction kvs arbitrary: pre recs)
  case Nil
  then show ?case by (subst parse_txt_loop.simps) simp
next
  case (Cons kv kvs)
  obtain k v where kv: "kv = (k, v)" by fastforce
  have ok: "k \<noteq> []" "length k + 1 + length v < 256"
    "\<forall>c \<in> set k. 0x20 \<le> (of_char c :: nat) \<and> (of_char c :: nat) \<le> 0x7E \<and> c \<noteq> CHR ''=''"
    using Cons.prems(1) by (auto simp: entry_ok_def kv)
  let ?rest = "concat (map entry kvs) @ post"
  let ?buf = "pre @ concat (map entry (kv # kvs)) @ post"
  let ?rec = "\<lparr>txt_key = k @ CHR ''='' # v @ ?rest, txt_key_length = length k, txt_value = v @ ?rest,
    txt_value_length = length v\<rparr>"
  have sub: "of_char (?buf ! length pre) = length k + 1 + length v"
    using ok(2) by (simp add: entry_def kv nth_append)
  have str: "drop (Suc (length pre)) ?buf = k @ CHR ''='' # v @ ?rest" by (simp add: entry_def kv)
  have scan: "scan_key (k @ CHR ''='' # v @ ?rest) 0 (length k + 1 + length v) = Inr (length k)"
    using scan_key_found [OF ok(3), of "v @ ?rest" 0 "length v"] by simp
  have val: "drop (length k + 1) (k @ CHR ''='' # v @ ?rest) = v @ ?rest" by simp
  have e: "length (entry kv) = length k + 1 + length v + 1" by (simp add: entry_def kv)
  have "parse_txt_loop ?buf endp capacity recs (length pre) =
      parse_txt_loop ?buf endp capacity (recs @ [?rec]) (length pre + (length k + 1 + length v) + 1)"
    unfolding parse_txt_loop.simps [of ?buf endp capacity recs "length pre"] Let_def sub str scan
    using ok(1) Cons.prems(2,3) e by (simp add: val)
  also have "\<dots> = parse_txt_loop ((pre @ entry kv) @ concat (map entry kvs) @ post) endp capacity (recs @ [?rec])
      (length (pre @ entry kv))"
    by (simp add: e)
  also have "\<dots> = Inr ((recs @ [?rec]) @ texts kvs post)"
    by (rule Cons.IH) (use Cons.prems in auto)
  finally show ?case by (simp add: kv)
qed

lemma parse_record:
  assumes "\<forall>kv \<in> set kvs. entry_ok kv" "length kvs \<le> capacity" "length pre + length (concat (map entry kvs)) \<le> sz"
  shows "mdns_record_parse_txt (pre @ concat (map entry kvs) @ post) sz (length pre) (length (concat (map entry kvs))) capacity =
    Inr (texts kvs post)"
  using parse_entries [OF assms(1), of "[]" capacity _ pre post] assms(2,3) by (simp add: mdns_record_parse_txt_def)

lemma begins_with_other: "begins_with (k @ r) p = Inr False"
  if "\<exists>i < length k. i < length p \<and> k ! i \<noteq> p ! i" for k p r
  using that
proof (induction k arbitrary: p)
  case (Cons c k)
  obtain q ps where p: "p = q # ps" using Cons.prems by (cases p) auto
  show ?case
  proof (cases "c = q")
    case True
    obtain i where i: "i < length (c # k)" "i < length p" "(c # k) ! i \<noteq> p ! i" using Cons.prems by blast
    then obtain j where "i = Suc j" using True p by (cases i) auto
    then have "\<exists>i < length k. i < length ps \<and> k ! i \<noteq> ps ! i" using i p by auto
    then show ?thesis using Cons.IH p True by simp
  qed (simp add: p)
qed simp

lemma begins_with_self: "begins_with (p @ r) p = Inr True"
  by (induction p) auto

lemma copied: "CHR 0x00 \<notin> set v \<Longrightarrow> packet_strndup (v @ r) (length v) = Inr (Some v)"
proof -
  assume "CHR 0x00 \<notin> set v"
  then have "takeWhile (\<lambda>c. c \<noteq> CHR 0x00) v = v" by (auto simp: takeWhile_eq_all_conv)
  then show ?thesis by (simp add: packet_strndup_def)
qed

text \<open>The texts of the publisher of \<open>mdns_create_publisher\<close>, in its order.\<close>

definition published :: "device_info_t \<Rightarrow> (string \<times> string) list" where
  "published d =
     [(''hub_id'', the (dev_hub_id d)), (''ezm_id'', the (dev_ezm_id d)), (''ezm_version'', the (dev_ezm_version d)),
      (''ezm_name'', the (dev_ezm_name d)), (''role'', the (dev_role d)), (''mac'', the (dev_mac d)),
      (''ip'', the (dev_ip d))]"

definition publishable :: "device_info_t \<Rightarrow> bool" where
  "publishable d \<longleftrightarrow> (\<forall>v \<in> {dev_hub_id d, dev_ezm_id d, dev_ezm_version d, dev_ezm_name d, dev_role d, dev_mac d, dev_ip d}.
     \<exists>s. v = Some s \<and> length s < 200 \<and> CHR 0x00 \<notin> set s)"


definition discovered :: "device_info_t \<Rightarrow> device_info_t" where
  "discovered d =
     device_zero\<lparr>dev_hub_id := dev_hub_id d, dev_ezm_id := dev_ezm_id d, dev_ezm_version := dev_ezm_version d,
       dev_ezm_name := dev_ezm_name d, dev_role := dev_role d, dev_mac := dev_mac d, dev_ip := dev_ip d\<rparr>"

lemma published_ok: "publishable d \<Longrightarrow> \<forall>kv \<in> set (published d). entry_ok kv"
  by (auto simp: publishable_def published_def entry_ok_def)

text \<open>One text of the publisher: its field is set, and only that.\<close>

lemma field_texts:
  assumes "CHR 0x00 \<notin> set v"
  shows "(k, f) \<in> set txt_fields \<Longrightarrow>
    txt_field txt_fields \<lparr>txt_key = k @ CHR ''='' # r, txt_key_length = n, txt_value = v @ w,
      txt_value_length = length v\<rparr> d = Inr (f (Some v) d)"
    "txt_field txt_fields \<lparr>txt_key = ''role'' @ CHR ''='' # r, txt_key_length = n, txt_value = v @ w,
      txt_value_length = length v\<rparr> d = Inr d"
  by (auto simp: txt_fields_def copied [OF assms])

lemma role_texts:
  "begins_with (''standalone'' @ r) ''standalone'' = Inr True"
  "begins_with (''agent'' @ r) ''standalone'' = Inr False"
  "begins_with (''controller'' @ r) ''standalone'' = Inr False"
  by simp_all

lemma txt_loop_other:
  assumes "CHR 0x00 \<notin> set v" "(k, f) \<in> set txt_fields"
  shows "txt_loop (\<lparr>txt_key = k @ CHR ''='' # r, txt_key_length = n, txt_value = v @ w,
      txt_value_length = length v\<rparr> # ts) d = txt_loop ts (f (Some v) d)"
proof -
  have "begins_with (k @ CHR ''='' # r) ''role'' = Inr False" using assms(2) by (auto simp: txt_fields_def)
  then show ?thesis using field_texts(1) [OF assms, of r n w d] by simp
qed

lemma txt_loop_role:
  assumes "CHR 0x00 \<notin> set v" "v \<in> {''standalone'', ''agent'', ''controller''}"
  shows "txt_loop (\<lparr>txt_key = ''role'' @ CHR ''='' # r, txt_key_length = n, txt_value = v @ w,
      txt_value_length = length v\<rparr> # ts) d =
    (if v = ''standalone'' then txt_loop ts (d\<lparr>dev_role := Some v\<rparr>) else Inr None)"
proof -
  have k: "begins_with (''role'' @ CHR ''='' # r) ''role'' = Inr True" by (rule begins_with_self)
  have general: "txt_loop (\<lparr>txt_key = ''role'' @ CHR ''='' # r, txt_key_length = n, txt_value = v @ w,
      txt_value_length = length v\<rparr> # ts) d = (if b then txt_loop ts (d\<lparr>dev_role := Some v\<rparr>) else Inr None)"
    if "begins_with (v @ w) ''standalone'' = Inr b" for b
    using that field_texts(2) [OF assms(1), of r n w] copied [OF assms(1), of w] k
    by (cases b) (simp_all del: begins_with.simps append_Cons append_Nil)
  show ?thesis
    by (rule general)
      (use assms(2) role_texts [of w] in \<open>elim insertE emptyE; hypsubst; simp only: list.inject char.inject simp_thms list.distinct\<close>)
qed

lemma txt_loop_published:
  assumes "CHR 0x00 \<notin> set v"
  shows
    "txt_loop (\<lparr>txt_key = ''hub_id'' @ CHR ''='' # r, txt_key_length = n, txt_value = v @ w, txt_value_length = length v\<rparr> # ts) d
      = txt_loop ts (d\<lparr>dev_hub_id := Some v\<rparr>)"
    "txt_loop (\<lparr>txt_key = ''ezm_id'' @ CHR ''='' # r, txt_key_length = n, txt_value = v @ w, txt_value_length = length v\<rparr> # ts) d
      = txt_loop ts (d\<lparr>dev_ezm_id := Some v\<rparr>)"
    "txt_loop (\<lparr>txt_key = ''ezm_version'' @ CHR ''='' # r, txt_key_length = n, txt_value = v @ w, txt_value_length = length v\<rparr> # ts) d
      = txt_loop ts (d\<lparr>dev_ezm_version := Some v\<rparr>)"
    "txt_loop (\<lparr>txt_key = ''ezm_name'' @ CHR ''='' # r, txt_key_length = n, txt_value = v @ w, txt_value_length = length v\<rparr> # ts) d
      = txt_loop ts (d\<lparr>dev_ezm_name := Some v\<rparr>)"
    "txt_loop (\<lparr>txt_key = ''mac'' @ CHR ''='' # r, txt_key_length = n, txt_value = v @ w, txt_value_length = length v\<rparr> # ts) d
      = txt_loop ts (d\<lparr>dev_mac := Some v\<rparr>)"
    "txt_loop (\<lparr>txt_key = ''ip'' @ CHR ''='' # r, txt_key_length = n, txt_value = v @ w, txt_value_length = length v\<rparr> # ts) d
      = txt_loop ts (d\<lparr>dev_ip := Some v\<rparr>)"
  by (rule txt_loop_other [where f = "\<lambda>v d. d\<lparr>dev_hub_id := v\<rparr>", OF assms]
      txt_loop_other [where f = "\<lambda>v d. d\<lparr>dev_ezm_id := v\<rparr>", OF assms]
      txt_loop_other [where f = "\<lambda>v d. d\<lparr>dev_ezm_version := v\<rparr>", OF assms]
      txt_loop_other [where f = "\<lambda>v d. d\<lparr>dev_ezm_name := v\<rparr>", OF assms]
      txt_loop_other [where f = "\<lambda>v d. d\<lparr>dev_mac := v\<rparr>", OF assms]
      txt_loop_other [where f = "\<lambda>v d. d\<lparr>dev_ip := v\<rparr>", OF assms]; simp add: txt_fields_def)+

lemma published_found:
  assumes "publishable d" "dev_role d = Some role" "role \<in> {''standalone'', ''agent'', ''controller''}"
    "length pre + length (concat (map entry (published d))) \<le> sz"
  shows "txt_callback (pre @ concat (map entry (published d)) @ post) sz (length pre)
      (length (concat (map entry (published d)))) ds = Inr (if role = ''standalone'' then ds @ [discovered d] else ds)"
proof -
  obtain h e ve na m ip where v: "dev_hub_id d = Some h" "dev_ezm_id d = Some e" "dev_ezm_version d = Some ve"
    "dev_ezm_name d = Some na" "dev_mac d = Some m" "dev_ip d = Some ip"
    "CHR 0x00 \<notin> set h" "CHR 0x00 \<notin> set e" "CHR 0x00 \<notin> set ve" "CHR 0x00 \<notin> set na" "CHR 0x00 \<notin> set role"
    "CHR 0x00 \<notin> set m" "CHR 0x00 \<notin> set ip"
    using assms(1,2) by (auto simp: publishable_def)
  have parse: "mdns_record_parse_txt (pre @ concat (map entry (published d)) @ post) sz (length pre)
      (length (concat (map entry (published d)))) 128 = Inr (texts (published d) post)"
    by (rule parse_record [OF published_ok [OF assms(1)] _ assms(4)]) (simp add: published_def)
  have "txt_loop (texts (published d) post) device_zero =
      Inr (if role = ''standalone'' then Some (discovered d) else None)"
    unfolding published_def texts.simps fst_conv snd_conv v(1-6) assms(2) option.sel
      txt_loop_published(1) [OF v(7)] txt_loop_published(2) [OF v(8)] txt_loop_published(3) [OF v(9)]
      txt_loop_published(4) [OF v(10)] txt_loop_role [OF v(11) assms(3)] txt_loop_published(5) [OF v(12)]
      txt_loop_published(6) [OF v(13)]
    by (simp add: discovered_def v(1-6) assms(2))
  then show ?thesis unfolding txt_callback_def parse by simp
qed

definition demo_publisher :: "string \<Rightarrow> device_info_t" where
  "demo_publisher role =
     device_zero\<lparr>dev_hub_id := Some ''hub-1'', dev_ezm_id := Some ''ezm-1'', dev_ezm_version := Some ''1.0'',
       dev_ezm_name := Some ''AP'', dev_role := Some role, dev_mac := Some ''aa:bb'', dev_ip := Some ''10.0.0.7''\<rparr>"

text \<open>
  A record whose last length byte claims more than the packet holds is read behind its end: the
  length is not compared with the end of the record. Without an equals sign in what is left, the
  parser runs over the end of the buffer.
\<close>

theorem txt_overread:
  assumes "\<forall>c \<in> set tail. 0x20 \<le> (of_char c :: nat) \<and> (of_char c :: nat) \<le> 0x7E \<and> c \<noteq> CHR ''=''"
    "length tail < n" "n < 256" "0 < capacity"
  shows "mdns_record_parse_txt (pre @ char_of n # tail) (length pre + 1 + length tail) (length pre) (1 + length tail)
    capacity = Inl OutOfBounds"
proof -
  have scan: "scan_key tail c m = Inl OutOfBounds" if "length tail < m" for c m
    using assms(1) that
  proof (induction tail arbitrary: c m)
    case Nil
    then show ?case by (cases m) auto
  next
    case (Cons x xs)
    then show ?case by (cases m) auto
  qed
  have "of_char (char_of n) = n" using assms(3) by simp
  then show ?thesis
    using scan [OF assms(2)] assms(4)
    by (simp add: mdns_record_parse_txt_def parse_txt_loop.simps [of _ _ _ "[]" "length pre"] Let_def nth_append)
qed

theorem txt_overread_witness:
  "mdns_record_parse_txt (''hdr'' @ char_of (200 :: nat) # ''role'') (length ''hdr'' + 1 + length ''role'')
     (length ''hdr'') (1 + length ''role'') 128 = Inl OutOfBounds"
  by (rule txt_overread) simp_all


section \<open>The callback on well-formed and on arbitrary records\<close>

lemma query_callback_never_stops: "never_stops query_callback"
  by (auto simp: never_stops_def query_callback_def Let_def or_fault_Inr split: if_splits)

text \<open>On an entry inside the block only a TXT record can fail.\<close>

lemma callback_inside:
  assumes "entry_inside e"
  shows "query_callback e ds =
    (if cb_rtype e = MDNS_RECORDTYPE_TXT
     then or_fault (txt_callback (cb_data e) (cb_size e) (cb_record_offset e) (cb_record_length e) ds) (\<lambda>ds. Inr (False, ds))
     else Inr (False, ds))"
proof -
  have sz: "cb_size e \<le> length (cb_data e)" and rec: "cb_record_offset e + cb_record_length e \<le> cb_size e"
    using assms by (simp_all add: entry_inside_def)
  have ex: "\<exists>r. mdns_string_extract (cb_data e) (cb_size e) off 256 = Inr r" for off
    using extract_spec [OF sz] by blast
  have ptr: "\<exists>r. mdns_record_parse_ptr (cb_data e) (cb_size e) (cb_record_offset e) (cb_record_length e) 256 = Inr r"
    using ex [of "cb_record_offset e"] by (auto simp: mdns_record_parse_ptr_def)
  have a: "\<exists>r. mdns_record_parse_a (cb_data e) (cb_size e) (cb_record_offset e) (cb_record_length e) = Inr r"
    "\<exists>r. mdns_record_parse_aaaa (cb_data e) (cb_size e) (cb_record_offset e) (cb_record_length e) = Inr r"
    using rec sz by (auto simp: mdns_record_parse_a_def mdns_record_parse_aaaa_def bytes_at_def)
  have srv: "\<exists>r. mdns_record_parse_srv (cb_data e) (cb_size e) (cb_record_offset e) (cb_record_length e) 256 = Inr r"
  proof (cases "8 \<le> cb_record_length e")
    case True
    then have room: "cb_record_offset e + 2 \<le> length (cb_data e)" "cb_record_offset e + 2 + 2 \<le> length (cb_data e)"
      "cb_record_offset e + 4 + 2 \<le> length (cb_data e)" using rec sz by linarith+
    obtain p w po where "mdns_ntohs (cb_data e) (cb_record_offset e) = Inr p"
      "mdns_ntohs (cb_data e) (cb_record_offset e + 2) = Inr w" "mdns_ntohs (cb_data e) (cb_record_offset e + 4) = Inr po"
      using ntohs_ok [OF room(1)] ntohs_ok [OF room(2)] ntohs_ok [OF room(3)] by blast
    then show ?thesis using ex [of "cb_record_offset e + 6"] by (auto simp: mdns_record_parse_srv_def)
  qed (simp add: mdns_record_parse_srv_def)
  show ?thesis using ex [of "cb_name_offset e"] ptr a srv
    by (auto simp: query_callback_def Let_def)
qed

definition role_known :: "device_info_t \<Rightarrow> bool" where
  "role_known d \<longleftrightarrow> dev_role d \<in> {Some ''standalone'', Some ''agent'', Some ''controller''}"

text \<open>What a resource record gives, when \<open>dev\<close> says which device published it.\<close>

definition found :: "(resource \<Rightarrow> device_info_t) \<Rightarrow> resource \<Rightarrow> device_info_t list" where
  "found dev r = (if res_type r = MDNS_RECORDTYPE_TXT \<and> dev_role (dev r) = Some ''standalone'' then [discovered (dev r)] else [])"

definition from_publisher :: "(resource \<Rightarrow> device_info_t) \<Rightarrow> resource \<Rightarrow> bool" where
  "from_publisher dev r \<longleftrightarrow> res_type r = MDNS_RECORDTYPE_TXT \<longrightarrow>
     res_data r = concat (map entry (published (dev r))) \<and> publishable (dev r) \<and> role_known (dev r)"

lemma callback_resource:
  assumes "b = pre @ res_wire r @ post" "length pre + length (res_wire r) \<le> sz" "sz \<le> length b" "from_publisher dev r"
  shows "query_callback (res_entry type qid b sz (length pre) r) ds = Inr (False, ds @ found dev r)"
proof -
  let ?e = "res_entry type qid b sz (length pre) r"
  have inside: "entry_inside ?e"
    using assms(2,3) length_res_wire [of r] by (simp add: entry_inside_def res_entry_def)
  show ?thesis
  proof (cases "res_type r = MDNS_RECORDTYPE_TXT")
    case False
    then show ?thesis unfolding callback_inside [OF inside] by (simp add: res_entry_def found_def)
  next
    case True
    then have pub: "res_data r = concat (map entry (published (dev r)))" "publishable (dev r)" "role_known (dev r)"
      using assms(4) by (simp_all add: from_publisher_def)
    then obtain role where role: "dev_role (dev r) = Some role" "role \<in> {''standalone'', ''agent'', ''controller''}"
      by (auto simp: role_known_def)
    define pre' where "pre' = pre @ wire (res_name r) @ net16 (res_type r) @ net16 (res_class r) @ net32 (res_ttl r)
      @ net16 (word_of_nat (length (res_data r)))"
    have b: "b = pre' @ concat (map entry (published (dev r))) @ post"
      by (simp add: assms(1) pre'_def res_wire_def pub(1) [symmetric])
    have off: "length pre + length (wire (res_name r)) + 10 = length pre'" by (simp add: pre'_def)
    have room: "length pre' + length (concat (map entry (published (dev r)))) \<le> sz"
      using assms(2) length_res_wire [of r] off pub(1) by simp
    have "txt_callback b sz (length pre + length (wire (res_name r)) + 10) (length (res_data r)) ds =
        Inr (if role = ''standalone'' then ds @ [discovered (dev r)] else ds)"
      unfolding b off pub(1) by (rule published_found [OF pub(2) role room])
    then show ?thesis unfolding callback_inside [OF inside] using True role(1) by (simp add: res_entry_def found_def)
  qed
qed

lemma feed_resources:
  "b = pre @ concat (map res_wire rs) @ post \<Longrightarrow> length pre + length (concat (map res_wire rs)) \<le> sz \<Longrightarrow> sz \<le> length b \<Longrightarrow>
   \<forall>r \<in> set rs. from_publisher dev r \<Longrightarrow>
   feed query_callback (res_entries type qid b sz (length pre) rs) ds = Inr (ds @ concat (map (found dev) rs))"
proof (induction rs arbitrary: pre ds)
  case (Cons r rs)
  have "query_callback (res_entry type qid b sz (length pre) r) ds = Inr (False, ds @ found dev r)"
    by (rule callback_resource) (use Cons.prems in auto)
  moreover have "feed query_callback (res_entries type qid b sz (length (pre @ res_wire r)) rs) (ds @ found dev r) =
      Inr ((ds @ found dev r) @ concat (map (found dev) rs))"
    by (rule Cons.IH) (use Cons.prems in auto)
  ultimately show ?case by simp
qed simp


text \<open>
  Texts that may be compared and copied: the names of the fields have at most 11 characters, and the role is
  compared with 10.
\<close>

definition text_inside :: "mdns_record_txt_t \<Rightarrow> bool" where
  "text_inside t \<longleftrightarrow> 11 \<le> length (txt_key t) \<and> 10 \<le> length (txt_value t) \<and> txt_key_length t \<le> length (txt_key t) \<and>
     txt_value_length t \<le> length (txt_value t)"

lemma scan_key_inside: "n \<le> length s \<Longrightarrow> \<exists>k. scan_key s c n = Inr k \<and> (k = 0 \<or> k < c + n)"
proof (induction s c n rule: scan_key.induct)
  case (3 x xs c n)
  then show ?case by (cases "scan_key xs (Suc c) n") fastforce+
qed auto

lemma parse_inside:
  assumes "endp \<le> sz" "sz + 265 \<le> length buf"
  shows "\<forall>t \<in> set recs. text_inside t \<Longrightarrow>
    \<exists>ts. parse_txt_loop buf endp capacity recs off = Inr ts \<and> (\<forall>t \<in> set ts. text_inside t)"
proof (induction "endp - off" arbitrary: off recs rule: less_induct)
  case less
  show ?case
  proof (cases "off < endp \<and> length recs < capacity")
    case False
    then show ?thesis using less.prems by (subst parse_txt_loop.simps) auto
  next
    case True
    define n where "n = (of_char (buf ! off) :: nat)"
    define str where "str = drop (Suc off) buf"
    have n: "n < 256" by (simp add: n_def)
    have len: "n + 10 \<le> length str" "265 \<le> length str" using True assms n by (auto simp: str_def)
    obtain k where k: "scan_key str 0 n = Inr k" "k = 0 \<or> k < n" using scan_key_inside [of n str 0] len by auto
    have off: "off < length buf" using True assms by simp
    define t where "t = \<lparr>txt_key = str, txt_key_length = k, txt_value = drop (k + 1) str, txt_value_length = n - (k + 1)\<rparr>"
    have step: "parse_txt_loop buf endp capacity recs off =
        (if k = 0 then parse_txt_loop buf endp capacity recs (off + n + 1)
         else parse_txt_loop buf endp capacity (recs @ [t]) (off + n + 1))"
      by (subst parse_txt_loop.simps) (use True off k(1) in \<open>simp add: n_def [symmetric] str_def [symmetric] t_def Let_def\<close>)
    have t: "text_inside t" if "k \<noteq> 0" using that k(2) len by (auto simp: text_inside_def t_def)
    have "endp - (off + n + 1) < endp - off" using True by linarith
    then show ?thesis
      unfolding step using less.hyps [of "off + n + 1" recs] less.hyps [of "off + n + 1" "recs @ [t]"] less.prems t True
      by (cases "k = 0") simp_all
  qed
qed

lemma begins_with_inside: "length p \<le> length s \<Longrightarrow> \<exists>b. begins_with s p = Inr b"
  by (induction s p rule: begins_with.induct) auto

lemma txt_field_inside:
  assumes "text_inside t"
  shows "\<forall>f \<in> set fs. length (fst f) \<le> 11 \<and> (\<forall>v d. discovered d = d \<longrightarrow> discovered (snd f v d) = snd f v d) \<Longrightarrow>
    \<exists>d'. txt_field fs t d = Inr d' \<and> (discovered d = d \<longrightarrow> discovered d' = d')"
proof (induction fs)
  case (Cons f fs)
  obtain name g where f: "f = (name, g)" by fastforce
  have copy: "\<exists>v. packet_strndup (txt_value t) (txt_value_length t) = Inr v"
    using assms by (simp add: text_inside_def packet_strndup_def)
  obtain b where "begins_with (txt_key t) name = Inr b"
    using begins_with_inside [of name "txt_key t"] assms Cons.prems f by (auto simp: text_inside_def)
  then show ?case using Cons copy f by (cases b) auto
qed simp

lemma discovered_updates:
  assumes "discovered d = d"
  shows "discovered (d\<lparr>dev_hub_id := v\<rparr>) = d\<lparr>dev_hub_id := v\<rparr>" "discovered (d\<lparr>dev_ezm_id := v\<rparr>) = d\<lparr>dev_ezm_id := v\<rparr>"
    "discovered (d\<lparr>dev_ezm_version := v\<rparr>) = d\<lparr>dev_ezm_version := v\<rparr>"
    "discovered (d\<lparr>dev_ezm_name := v\<rparr>) = d\<lparr>dev_ezm_name := v\<rparr>" "discovered (d\<lparr>dev_role := v\<rparr>) = d\<lparr>dev_role := v\<rparr>"
    "discovered (d\<lparr>dev_mac := v\<rparr>) = d\<lparr>dev_mac := v\<rparr>" "discovered (d\<lparr>dev_ip := v\<rparr>) = d\<lparr>dev_ip := v\<rparr>"
  using assms by (cases d; simp add: discovered_def device_zero_def)+

lemma txt_fields_keep:
  "\<forall>f \<in> set txt_fields. length (fst f) \<le> 11 \<and> (\<forall>v d. discovered d = d \<longrightarrow> discovered (snd f v d) = snd f v d)"
  by (simp add: txt_fields_def discovered_updates)

lemma txt_loop_inside:
  "\<forall>t \<in> set ts. text_inside t \<Longrightarrow> discovered d = d \<Longrightarrow>
   \<exists>r. txt_loop ts d = Inr r \<and> (\<forall>d'. r = Some d' \<longrightarrow> discovered d' = d')"
proof (induction ts arbitrary: d)
  case (Cons t ts)
  have t: "text_inside t" using Cons.prems by simp
  obtain role where role: "begins_with (txt_key t) ''role'' = Inr role"
    using begins_with_inside [of "''role''" "txt_key t"] t by (auto simp: text_inside_def)
  obtain st where st: "begins_with (txt_value t) ''standalone'' = Inr st"
    using begins_with_inside [of "''standalone''" "txt_value t"] t by (auto simp: text_inside_def)
  obtain v where v: "packet_strndup (txt_value t) (txt_value_length t) = Inr v"
    using t by (auto simp: text_inside_def packet_strndup_def)
  have keep: "discovered (d\<lparr>dev_role := v\<rparr>) = d\<lparr>dev_role := v\<rparr>"
    by (rule discovered_updates(5) [OF Cons.prems(2)])
  define d1 where "d1 = (if role then d\<lparr>dev_role := v\<rparr> else d)"
  have d1: "discovered d1 = d1" using keep Cons.prems(2) by (simp add: d1_def)
  obtain d2 where d2: "txt_field txt_fields t d1 = Inr d2" "discovered d2 = d2"
    using txt_field_inside [OF t txt_fields_keep, of d1] d1 by auto
  obtain r where "txt_loop ts d2 = Inr r" "\<forall>d'. r = Some d' \<longrightarrow> discovered d' = d'"
    using Cons.IH [OF _ d2(2)] Cons.prems(1) by auto
  then show ?case using role st v d2(1) by (cases role; cases st) (auto simp: d1_def)
qed simp

definition block_fits :: "string \<Rightarrow> nat \<Rightarrow> bool" where
  "block_fits b sz \<longleftrightarrow> sz + 265 \<le> length b"

definition only_published :: "device_info_t list \<Rightarrow> bool" where
  "only_published ds \<longleftrightarrow> (\<forall>d \<in> set ds. discovered d = d)"

interpretation qc: record_client query_callback block_fits only_published
proof
  fix e ds
  assume e: "entry_inside e" "block_fits (cb_data e) (cb_size e)" and ds: "only_published ds"
  let ?endp = "if cb_size e < cb_record_offset e + cb_record_length e then cb_size e else cb_record_offset e + cb_record_length e"
  have "?endp \<le> cb_size e" "cb_size e + 265 \<le> length (cb_data e)" using e(2) by (simp_all add: block_fits_def)
  from parse_inside [OF this, of "[]" 128 "cb_record_offset e"] obtain ts where
    ts: "mdns_record_parse_txt (cb_data e) (cb_size e) (cb_record_offset e) (cb_record_length e) 128 = Inr ts"
    "\<forall>t \<in> set ts. text_inside t"
    by (auto simp: mdns_record_parse_txt_def Let_def)
  have "discovered device_zero = device_zero" by (simp add: discovered_def)
  then obtain r where r: "txt_loop ts device_zero = Inr r" "\<forall>d'. r = Some d' \<longrightarrow> discovered d' = d'"
    using txt_loop_inside [OF ts(2)] by blast
  then have "\<exists>ds'. txt_callback (cb_data e) (cb_size e) (cb_record_offset e) (cb_record_length e) ds = Inr ds' \<and> only_published ds'"
    using ts(1) ds by (cases r) (auto simp: txt_callback_def only_published_def)
  then show "\<exists>stop ds'. query_callback e ds = Inr (stop, ds') \<and> only_published ds'"
    unfolding callback_inside [OF e(1)] using ds by auto
qed


section \<open>Properties\<close>

lemma send_queries_total:
  assumes "labels_ok ls" "name = plain ls \<or> name = dotted ls" "16 + length (wire ls) \<le> capacity"
  shows "length buffer = capacity \<Longrightarrow>
    \<exists>ids b out. send_queries ss \<lparr>query_type = MDNS_RECORDTYPE_PTR, query_name = name, query_length = length name\<rparr> buffer
      capacity = Inr (ids, b, out) \<and> length b = capacity \<and> length ids = length ss \<and> (\<forall>i \<in> set ids. i \<le> 0)"
proof (induction ss arbitrary: buffer)
  case (Cons s ss)
  obtain res b out where q: "mdns_multiquery_send s [\<lparr>query_type = MDNS_RECORDTYPE_PTR, query_name = name, query_length = length name\<rparr>]
      buffer capacity 0 = Inr (res, b, out)" "length b = capacity" "res \<le> 0"
    using multiquery_fits [OF assms(1,2) Cons.prems assms(3)] by blast
  from Cons.IH [OF q(2)] q show ?case by fastforce
qed simp

lemma read_ready_packets:
  assumes "capacity = 2048"
  shows "\<forall>i \<in> set ids. i \<le> 0 \<Longrightarrow> \<forall>p. Some p \<in> set r \<longrightarrow> packet_ok p \<and> length (packet_wire p) \<le> capacity \<and>
      (\<forall>x \<in> set (pk_answers p @ pk_authority p @ pk_additional p). from_publisher dev x) \<Longrightarrow>
    length r \<le> length ids \<Longrightarrow> length b = capacity \<Longrightarrow>
    \<exists>b'. read_ready (zip ids (map (map_option (\<lambda>p. Some (packet_wire p))) r)) b capacity ds =
      Inr (b', ds @ concat (map (\<lambda>p. case p of None \<Rightarrow> [] | Some p \<Rightarrow>
        concat (map (found dev) (pk_answers p @ pk_authority p @ pk_additional p))) r)) \<and> length b' = capacity"
proof (induction r arbitrary: ids b ds)
  case (Cons o' r)
  obtain i ids' where ids: "ids = i # ids'" using Cons.prems(3) by (cases ids) auto
  have i: "i \<le> 0" using Cons.prems(1) ids by simp
  have IH: "\<exists>b'. read_ready (zip ids' (map (map_option (\<lambda>p. Some (packet_wire p))) r)) c capacity es =
      Inr (b', es @ concat (map (\<lambda>p. case p of None \<Rightarrow> [] | Some p \<Rightarrow>
        concat (map (found dev) (pk_answers p @ pk_authority p @ pk_additional p))) r)) \<and> length b' = capacity"
    if "length c = capacity" for c es
    by (rule Cons.IH) (use Cons.prems ids that in auto)
  show ?case
  proof (cases o')
    case None
    then show ?thesis using IH [OF Cons.prems(4)] by (simp add: ids)
  next
    case (Some p)
    have p: "packet_ok p" "length (packet_wire p) \<le> capacity"
      "\<forall>x \<in> set (pk_answers p @ pk_authority p @ pk_additional p). from_publisher dev x"
      using Cons.prems(2) Some by auto
    define c where "c = packet_wire p @ drop (length (packet_wire p)) b"
    have c: "length c = capacity" using p(2) Cons.prems(4) by (simp add: c_def)
    define h where "h = header_bytes (pk_id p) (pk_flags p) (word_of_nat (length (pk_questions p)))
      (word_of_nat (length (pk_answers p))) (word_of_nat (length (pk_authority p))) (word_of_nat (length (pk_additional p)))
      @ concat (map question_wire (pk_questions p))"
    let ?w = "\<lambda>rs. concat (map res_wire rs)"
    have wire: "packet_wire p = h @ ?w (pk_answers p) @ ?w (pk_authority p) @ ?w (pk_additional p)"
      by (simp add: packet_wire_def h_def)
    have hl: "length h = 12 + length (concat (map question_wire (pk_questions p)))" by (simp add: h_def header_bytes_def)
    define sz where "sz = length (packet_wire p)"
    have sz: "sz \<le> length c" by (simp add: sz_def c_def)
    have feed: "feed query_callback (packet_entries p c) ds =
        Inr (ds @ concat (map (found dev) (pk_answers p @ pk_authority p @ pk_additional p)))"
    proof -
      note step = feed_resources [where dev = dev and b = c and sz = sz, OF _ _ sz]
      have "feed query_callback (res_entries MDNS_ENTRYTYPE_ANSWER (pk_id p) c sz (length h) (pk_answers p)) ds =
          Inr (ds @ concat (map (found dev) (pk_answers p)))"
        by (rule step) (use p(3) in \<open>auto simp: c_def sz_def wire\<close>)
      moreover have "feed query_callback (res_entries MDNS_ENTRYTYPE_AUTHORITY (pk_id p) c sz (length (h @ ?w (pk_answers p)))
          (pk_authority p)) es = Inr (es @ concat (map (found dev) (pk_authority p)))" for es
        by (rule step) (use p(3) in \<open>auto simp: c_def sz_def wire\<close>)
      moreover have "feed query_callback (res_entries MDNS_ENTRYTYPE_ADDITIONAL (pk_id p) c sz
          (length (h @ ?w (pk_answers p) @ ?w (pk_authority p))) (pk_additional p)) es =
          Inr (es @ concat (map (found dev) (pk_additional p)))" for es
        by (rule step) (use p(3) in \<open>auto simp: c_def sz_def wire\<close>)
      ultimately show ?thesis
        by (simp add: packet_entries_def Let_def feed_append sz_def [symmetric] hl [symmetric] add.assoc)
    qed
    have "mdns_query_recv (Some (packet_wire p)) b capacity (Some query_callback) ds i =
        Inr (length (pk_answers p) + length (pk_authority p) + length (pk_additional p), c,
          ds @ concat (map (found dev) (pk_answers p @ pk_authority p @ pk_additional p)))"
      using query_recv_packet [OF p(1) query_callback_never_stops p(2), of b i ds] Cons.prems(4) i feed
      unfolding c_def [symmetric] Let_def by simp
    then show ?thesis using IH [OF c, of "ds @ concat (map (found dev) (pk_answers p @ pk_authority p @ pk_additional p))"]
      by (simp add: ids Some)
  qed
qed simp


definition answers_of :: "(resource \<Rightarrow> device_info_t) \<Rightarrow> packet option list \<Rightarrow> device_info_t list" where
  "answers_of dev r = concat (map (\<lambda>p. case p of None \<Rightarrow> [] | Some p \<Rightarrow>
     concat (map (found dev) (pk_answers p @ pk_authority p @ pk_additional p))) r)"

definition round_ok :: "(resource \<Rightarrow> device_info_t) \<Rightarrow> nat \<Rightarrow> packet option list \<Rightarrow> bool" where
  "round_ok dev n r \<longleftrightarrow> length r \<le> n \<and> (\<forall>p. Some p \<in> set r \<longrightarrow> packet_ok p \<and> length (packet_wire p) \<le> 2048 \<and>
     (\<forall>x \<in> set (pk_answers p @ pk_authority p @ pk_additional p). from_publisher dev x))"

lemma read_rounds_packets:
  assumes "\<forall>i \<in> set ids. i \<le> 0"
  shows "\<forall>r \<in> set rs. round_ok dev (length ids) r \<Longrightarrow> length b = 2048 \<Longrightarrow>
    read_rounds ids (map (map (map_option (\<lambda>p. Some (packet_wire p)))) rs) b 2048 ds =
      Inr (ds @ concat (map (answers_of dev) rs))"
proof (induction rs arbitrary: b ds)
  case (Cons r rs)
  have r: "\<forall>p. Some p \<in> set r \<longrightarrow> packet_ok p \<and> length (packet_wire p) \<le> 2048 \<and>
      (\<forall>x \<in> set (pk_answers p @ pk_authority p @ pk_additional p). from_publisher dev x)" "length r \<le> length ids"
    using Cons.prems(1) by (simp_all add: round_ok_def)
  obtain b' where "read_ready (zip ids (map (map_option (\<lambda>p. Some (packet_wire p))) r)) b 2048 ds =
      Inr (b', ds @ answers_of dev r)" "length b' = 2048"
    using read_ready_packets [OF refl assms r Cons.prems(2), of ds] by (auto simp: answers_of_def)
  then show ?case using Cons.IH [of b' "ds @ answers_of dev r"] Cons.prems(1) by simp
qed simp


definition demo_interface :: ifaddrs where
  "demo_interface = \<lparr>ifa_addr = Address4 [CHR 0x0A, CHR 0x00, CHR 0x00, CHR 0x07], ifa_up = True, ifa_multicast = True,
     ifa_loopback = False, ifa_pointopoint = False,
     ifa_calls = \<lparr>sys_socket = Some demo_sock, sys_join = True, sys_bind = True\<rparr>\<rparr>"

definition demo_resource :: "string \<Rightarrow> resource" where
  "demo_resource role = \<lparr>res_name = demo_service, res_type = MDNS_RECORDTYPE_TXT, res_class = 1, res_ttl = 120,
     res_data = concat (map entry (published (demo_publisher role)))\<rparr>"

definition demo_answer :: "string \<Rightarrow> packet" where
  "demo_answer role = \<lparr>pk_id = 0, pk_flags = 0x8400, pk_questions = [], pk_answers = [],
     pk_authority = [], pk_additional = [demo_resource role]\<rparr>"

lemma demo_round:
  assumes "role \<in> {''standalone'', ''agent'', ''controller''}"
  shows "round_ok (\<lambda>_. demo_publisher role) 1 [Some (demo_answer role)]"
proof -
  have e: "length (entry (k, v)) = length k + length v + 2" for k v by (simp add: entry_def)
  have len: "length (concat (map entry (published (demo_publisher role)))) \<le> 100"
    using assms by (auto simp: published_def demo_publisher_def e)
  have ls: "labels_ok demo_service" "length (wire demo_service) = 17"
    by (simp_all add: demo_service_def labels_ok_def length_wire)
  have pub: "publishable (demo_publisher role)" "role_known (demo_publisher role)"
    using assms by (auto simp: publishable_def demo_publisher_def role_known_def)
  have "packet_ok (demo_answer role)"
    using ls len by (simp add: packet_ok_def demo_answer_def demo_resource_def res_ok_def)
  moreover have "length (packet_wire (demo_answer role)) \<le> 2048"
    using ls(2) len by (simp add: packet_wire_def demo_answer_def demo_resource_def length_res_wire header_bytes_def)
  moreover have "from_publisher (\<lambda>_. demo_publisher role) (demo_resource role)"
    using pub by (simp add: from_publisher_def demo_resource_def)
  ultimately show ?thesis by (simp add: round_ok_def demo_answer_def)
qed


lemma read_ready_safe:
  "length b = 2048 \<Longrightarrow> only_published ds \<Longrightarrow> \<forall>(i, r) \<in> set irs. \<forall>p. r = Some (Some p) \<longrightarrow> length p \<le> 1783 \<Longrightarrow>
   \<exists>b' ds'. read_ready irs b 2048 ds = Inr (b', ds') \<and> length b' = 2048 \<and> only_published ds'"
proof (induction irs arbitrary: b ds)
  case (Cons ir irs)
  obtain i r where ir: "ir = (i, r)" by fastforce
  show ?case
  proof (cases r)
    case None
    then show ?thesis using Cons by (simp add: ir)
  next
    case (Some datagram)
    have fits: "block_fits c n" if "receive datagram b 2048 = Some (c, n)" for c n
    proof -
      have "length c = 2048" using receive_Some(1) [OF that] Cons.prems(1) by simp
      moreover have "n \<le> 1783"
        using receive_Some(4) [OF that] Cons.prems(1,3) Some ir by auto
      ultimately show ?thesis by (simp add: block_fits_def)
    qed
    obtain m b' ds' where "mdns_query_recv datagram b 2048 (Some query_callback) ds i = Inr (m, b', ds')" "length b' = 2048"
      "only_published ds'"
      using qc.query_recv_safe [of 2048 b ds datagram i] fits Cons.prems(1,2) by auto
    then show ?thesis using Cons.IH [of b' ds'] Cons.prems(3) Some by (auto simp: ir)
  qed
qed simp

lemma query_on_any_traffic:
  assumes "labels_ok ls" "name = plain ls \<or> name = dotted ls" "16 + length (wire ls) \<le> 2048" "length buffer = 2048"
    "\<forall>r \<in> set rounds. \<forall>p. Some (Some p) \<in> set r \<longrightarrow> length p \<le> 1783"
  shows "\<exists>res out. mdns_query_device_list interfaces name buffer rounds = Inr (res, out) \<and>
    (res = None \<longleftrightarrow> open_client_sockets 32 interfaces [] = []) \<and> (\<forall>ds. res = Some ds \<longrightarrow> (\<forall>d \<in> set ds. discovered d = d))"
proof (cases "open_client_sockets 32 interfaces [] = []")
  case True
  then show ?thesis by (simp add: mdns_query_device_list_def Let_def)
next
  case False
  let ?ss = "open_client_sockets 32 interfaces []"
  obtain ids b out where q: "send_queries ?ss \<lparr>query_type = MDNS_RECORDTYPE_PTR, query_name = name, query_length = length name\<rparr>
      buffer 2048 = Inr (ids, b, out)" "length b = 2048"
    using send_queries_total [OF assms(1,2,3,4)] by blast
  have "\<exists>ds'. read_rounds ids rounds b 2048 ds = Inr ds' \<and> only_published ds'"
    if "length b = 2048" "only_published ds" "\<forall>r \<in> set rounds. \<forall>p. Some (Some p) \<in> set r \<longrightarrow> length p \<le> 1783" for b ds
    using that
  proof (induction rounds arbitrary: b ds)
    case (Cons r rs)
    have "\<forall>(i, x) \<in> set (zip ids r). \<forall>p. x = Some (Some p) \<longrightarrow> length p \<le> 1783"
      using Cons.prems(3) by (auto dest: set_zip_rightD)
    from read_ready_safe [OF Cons.prems(1,2) this] Cons.IH Cons.prems(3) show ?case by fastforce
  qed simp
  from this [OF q(2) _ assms(5), of "[]"] obtain ds where "read_rounds ids rounds b 2048 [] = Inr ds" "only_published ds"
    by (auto simp: only_published_def)
  then show ?thesis using q(1) False by (auto simp: mdns_query_device_list_def Let_def only_published_def)
qed

text \<open>
  C35: the discovery on any traffic. When no datagram is longer than 1783 bytes (the block of 2048 less 265:
  the length byte of a text may point 255 bytes behind the record, and 10 more are compared), the query
  returns whatever arrives, without a read outside the block; it returns no list exactly when no socket
  could be opened, and the devices of the list have nothing set but the seven published fields.
\<close>

theorem discovery_on_any_traffic:
  assumes "labels_ok ls" "name = plain ls \<or> name = dotted ls" "16 + length (wire ls) \<le> 2048" "length buffer = 2048"
    "\<forall>r \<in> set rounds. \<forall>p. Some (Some p) \<in> set r \<longrightarrow> length p \<le> 1783"
  shows "\<exists>res out. mdns_query_device_list interfaces name buffer rounds = Inr (res, out) \<and>
    (res = None \<longleftrightarrow> open_client_sockets 32 interfaces [] = []) \<and> (\<forall>ds. res = Some ds \<longrightarrow> (\<forall>d \<in> set ds. discovered d = d))"
  by (rule query_on_any_traffic [OF assms])

theorem discovery_on_any_traffic_witness:
  "\<exists>res out. mdns_query_device_list [demo_interface] ''_ezm._tcp.local'' (replicate 2048 CHR 0x00) [[Some (Some ''garbage'')]] =
     Inr (res, out) \<and> (res = None \<longleftrightarrow> open_client_sockets 32 [demo_interface] [] = []) \<and>
     (\<forall>ds. res = Some ds \<longrightarrow> (\<forall>d \<in> set ds. discovered d = d))"
proof -
  have ls: "labels_ok demo_service" "''_ezm._tcp.local'' = plain demo_service \<or> ''_ezm._tcp.local'' = dotted demo_service"
    "16 + length (wire demo_service) \<le> 2048"
    by (simp_all add: demo_service_def labels_ok_def length_wire)
  show ?thesis by (rule discovery_on_any_traffic [OF ls length_replicate]) simp
qed

end
