(* ===== verification/Broker.thy ===== *)
theory Broker
  imports Mqtt
begin

text \<open>
  The life of the connection to the broker in \<open>api/mqtt/mqtt_handler.c\<close>: the static handle, the loop, the clean-up, the
  callbacks that only log, and the session that the library's thread and the callbacks of \<open>Mqtt\<close> make
  together. The library is a parameter: when it connects, what the broker answers, when the line drops.
\<close>

section \<open>The handle\<close>

text \<open>The static variable after \<open>mqtt_connect\<close>, which destroys the client when it cannot connect and leaves the pointer.\<close>

datatype mosq_handle = NoHandle | LiveHandle | DestroyedHandle

definition mosq_handler :: "bool \<Rightarrow> c_int \<Rightarrow> mosq_handle" where
  "mosq_handler has_handle rc = (if \<not> has_handle then NoHandle else if rc \<noteq> 0 then DestroyedHandle else LiveHandle)"

text \<open>Without a client the library reports an invalid argument, which is only logged.\<close>

definition mqtt_loop :: "mosq_handle \<Rightarrow> ('s, unit) io" where
  "mqtt_loop h = (case h of DestroyedHandle \<Rightarrow> io_fail UseAfterFree | NoHandle \<Rightarrow> io_ret () | LiveHandle \<Rightarrow> io_ret ())"

lemma mqtt_loop_app [io_simps]:
  "mqtt_loop (mosq_handler h rc) s = (if h \<and> rc \<noteq> 0 then (Inl UseAfterFree, s) else (Inr (), s))"
  by (simp add: mqtt_loop_def mosq_handler_def io_fail_def io_ret_def)

definition mqtt_on_disconnect_cb_handler :: "c_int \<Rightarrow> mosq_call list" where
  "mqtt_on_disconnect_cb_handler reason_code = []"

definition mqtt_on_publish_cb_handler :: "c_int \<Rightarrow> mosq_call list" where
  "mqtt_on_publish_cb_handler mes_id = []"


section \<open>The session\<close>

text \<open>
  The thread of the library runs the callbacks. It connects again when the line drops, but ends when the client
  has asked for the end of the connection; the program starts it once.
\<close>

datatype link = Down | Up | Over

record session =
  se_link :: link
  se_asked :: "string option"
  se_granted :: "string option"

text \<open>What a callback asks of the library, carried out.\<close>

fun carry_out :: "mosq_call list \<Rightarrow> session \<Rightarrow> session" where
  "carry_out [] x = x"
| "carry_out (MosqSubscribe topic # cs) x = carry_out cs (x\<lparr>se_asked := Some topic\<rparr>)"
| "carry_out (MosqDisconnect # cs) x = carry_out cs (x\<lparr>se_link := Over, se_asked := None, se_granted := None\<rparr>)"

text \<open>
  The steps: an answer of the broker to a connection, with its code and the result of asking for the topic; an answer to
  the request for the topic, with the granted qualities; a published message; a line that drops.
\<close>

inductive session_step :: "string \<Rightarrow> session \<Rightarrow> session \<Rightarrow> bool" for topic where
  connected: "se_link x = Down \<Longrightarrow>
    session_step topic x (carry_out (mqtt_on_connect_cb_handler topic subscribe code) (x\<lparr>se_link := Up\<rparr>))"
| subscribed: "se_link x = Up \<Longrightarrow> se_asked x = Some t \<Longrightarrow>
    session_step topic x (carry_out (mqtt_on_subcribe_cb_handler qos)
      (x\<lparr>se_asked := None, se_granted := (if list_ex (\<lambda>q. sint q \<le> 2) qos then Some t else None)\<rparr>))"
| published: "se_link x = Up \<Longrightarrow> session_step topic x (carry_out (mqtt_on_publish_cb_handler mid) x)"
| dropped: "se_link x = Up \<Longrightarrow>
    session_step topic x (carry_out (mqtt_on_disconnect_cb_handler code) (x\<lparr>se_link := Down, se_asked := None, se_granted := None\<rparr>))"

inductive_cases session_stepE: "session_step topic x y"

definition opened :: session where
  "opened = \<lparr>se_link = Down, se_asked = None, se_granted = None\<rparr>"

inductive session_reachable :: "string \<Rightarrow> session \<Rightarrow> bool" for topic where
  start: "session_reachable topic opened"
| step: "session_reachable topic x \<Longrightarrow> session_step topic x y \<Longrightarrow> session_reachable topic y"

text \<open>The invariant: on a line that is up the topic is asked for or granted, and on others nothing is.\<close>

definition session_ok :: "string \<Rightarrow> session \<Rightarrow> bool" where
  "session_ok topic x \<longleftrightarrow> (case se_link x of
     Up \<Rightarrow> se_asked x = Some topic \<and> se_granted x = None \<or> se_asked x = None \<and> se_granted x = Some topic
   | _ \<Rightarrow> se_asked x = None \<and> se_granted x = None)"

lemmas callbacks = mqtt_on_connect_cb_handler_def mqtt_on_subcribe_cb_handler_def mqtt_on_publish_cb_handler_def
  mqtt_on_disconnect_cb_handler_def

lemma session_step_ok: "session_step topic x y \<Longrightarrow> session_ok topic x \<Longrightarrow> session_ok topic y"
  by (erule session_step.cases) (auto simp: session_ok_def callbacks)

lemma session_reachable_ok: "session_reachable topic x \<Longrightarrow> session_ok topic x"
proof (induction rule: session_reachable.induct)
  case start
  show ?case by (simp add: session_ok_def opened_def)
qed (rule session_step_ok)

lemma over_stays: "se_link x = Over \<Longrightarrow> \<not> session_step topic x y"
  by (auto elim: session_stepE)



end
