(* ===== verification/MainProgram.thy ===== *)
theory MainProgram
  imports Dispatch Discovery Broker
begin

text \<open>
  \<open>src/main.c\<close>: the options of the command line, the start of the parts, and the state in which the
  process enters its endless loop. \<open>getopt\<close> is that of POSIX: the options end at the first
  argument that is none.
\<close>

section \<open>Options\<close>

record options =
  log_level :: int
  config_file_path :: cptr

definition no_options :: options where
  "no_options = \<lparr>log_level = - 1, config_file_path = None\<rparr>"

text \<open>
  One call of \<open>getopt\<close> with the string \<open>c:l:hv\<close>: the rest of the argument it is in, and the arguments
  after it. The result is the option with its argument, \<open>?\<close> for an unknown option or a missing argument, and
  none at the end.
\<close>

definition option_char :: "char \<Rightarrow> string \<Rightarrow> string list \<Rightarrow> (char \<times> cptr) \<times> string \<times> string list" where
  "option_char c cs args =
     (if c \<in> set ''hv'' then ((c, None), cs, args)
      else if c \<in> set ''cl'' then
        (if cs \<noteq> [] then ((c, Some cs), [], args)
         else case args of [] \<Rightarrow> ((CHR ''?'', None), [], []) | a # as \<Rightarrow> ((c, Some a), [], as))
      else ((CHR ''?'', None), cs, args))"

definition getopt :: "string \<Rightarrow> string list \<Rightarrow> (char \<times> cptr) option \<times> string \<times> string list" where
  "getopt nextchar args =
     (case nextchar of
        c # cs \<Rightarrow> map_prod Some (\<lambda>r. r) (option_char c cs args)
      | [] \<Rightarrow>
          (case args of
             (CHR ''-'' # c # cs) # as \<Rightarrow>
               if c = CHR ''-'' \<and> cs = [] then (None, [], as)
               else map_prod Some (\<lambda>r. r) (option_char c cs as)
           | _ \<Rightarrow> (None, [], args)))"

definition log_levels :: "(string \<times> int) list" where
  "log_levels =
     [(''emerg'', 0), (''alert'', 1), (''crit'', 2), (''err'', 3), (''warn'', 4), (''notice'', 5), (''info'', 6),
      (''debug'', 7)]"

text \<open>The end of \<open>parse_option\<close>: the process exits with a code, or the options are set.\<close>

datatype parsed = Exits nat | Options options

text \<open>
  One turn of the loop. A configuration file that cannot be opened for reading is ignored. For an unknown
  option the message is passed as the stream to \<open>fprintf\<close>.
\<close>

definition handle_option :: "filesys \<Rightarrow> char \<Rightarrow> cptr \<Rightarrow> options \<Rightarrow> fault + parsed" where
  "handle_option fs c optarg os =
     (if c = CHR ''c'' then
        (case optarg of None \<Rightarrow> Inl NullDeref
         | Some path \<Rightarrow> Inr (Options (if fs path \<noteq> None then os\<lparr>config_file_path := Some path\<rparr> else os)))
      else if c = CHR ''l'' then
        (case optarg of None \<Rightarrow> Inl NullDeref
         | Some str \<Rightarrow>
             (case map_of log_levels str of
                Some l \<Rightarrow> Inr (Options (os\<lparr>log_level := l\<rparr>))
              | None \<Rightarrow> Inr (Exits 1)))
      else if c = CHR ''v'' then Inr (Exits 0)
      else if c = CHR ''h'' then Inr (Exits 0)
      else Inl InvalidArgument)"

lemma getopt_shorter:
  "getopt n args = (Some x, n', args') \<Longrightarrow>
   length n' + sum_list (map (\<lambda>a. length a + 1) args') < length n + sum_list (map (\<lambda>a. length a + 1) args)"
  by (auto simp: getopt_def option_char_def map_prod_def split: list.splits if_splits char.splits bool.splits)

function parse_option :: "filesys \<Rightarrow> string \<Rightarrow> string list \<Rightarrow> options \<Rightarrow> fault + parsed" where
  "parse_option fs nextchar args os =
     (case getopt nextchar args of
        (None, _, rest) \<Rightarrow> Inr (if rest \<noteq> [] then Exits 1 else Options os)
      | (Some (c, optarg), nextchar', args') \<Rightarrow>
          (case handle_option fs c optarg os of
             Inr (Options os') \<Rightarrow> parse_option fs nextchar' args' os'
           | r \<Rightarrow> r))"
  by pat_completeness auto
termination
  by (relation "measure (\<lambda>(fs, n, args, os). length n + sum_list (map (\<lambda>a. length a + 1) args))")
    (auto dest: getopt_shorter [OF sym])

declare parse_option.simps [simp del]

section \<open>The start\<close>

text \<open>
  What the process finds outside: the environment, the network, what \<open>mosquitto_new\<close> and
  \<open>mosquitto_connect\<close> return, the size of a message of libmosquitto and what \<open>malloc\<close> gives for the two queues.
\<close>

record outside =
  os_environ :: environ
  os_interfaces :: "ifaddrs list"
  os_block :: string
  os_rounds :: "string option option list list"
  os_mosq_new :: bool
  os_mosq_connect :: c_int
  os_message_size :: "16 word"
  os_malloc_messages :: "nat \<Rightarrow> byte list option"
  os_malloc_threads :: "nat \<Rightarrow> byte list option"

abbreviation CONFIG_FILE_PATH_DEFAULT :: string where
  "CONFIG_FILE_PATH_DEFAULT \<equiv> ''/data/config/noc/noc.cnf''"

definition lift :: "fault + 'a \<Rightarrow> ('s, 'a) io" where
  "lift x = (case x of Inl f \<Rightarrow> io_fail f | Inr y \<Rightarrow> io_ret y)"

text \<open>
  \<open>init\<close>: the queues, in static memory that is zero before, and the calls in their order. The results of
  \<open>initialize_timer\<close>, which only starts its thread, and of \<open>mqtt_connect\<close> are dropped, and the list of
  devices is read and then dropped.
\<close>

definition init :: "'j env \<Rightarrow> outside \<Rightarrow> Queue_t \<Rightarrow> Queue_t \<Rightarrow> ('j, Queue_t \<times> Queue_t) wio" where
  "init E out messages threads =
     (let message_queue = snd (q_init (os_malloc_messages out) messages (os_message_size out) 1000 FIFO True);
          thread_queue = init_thread_queue (os_malloc_threads out) threads
      in io_then (init_service_info E)
        (io_then (init_error_table E)
        (io_then (sleep_s 5)
        (io_bind (lift (mdns_query_device_list (os_interfaces out) ''_noc._tcp.local.'' (os_block out) (os_rounds out)))
           (\<lambda>(device_list, sent).
         io_then (io_deref device_list)
        (io_bind (mqtt_connect E (os_mosq_new out) (os_mosq_connect out)) (\<lambda>rc.
         io_then (mqtt_loop (mosq_handler (os_mosq_new out) (os_mosq_connect out)))
        (io_ret (message_queue, thread_queue)))))))))"

text \<open>
  \<open>main\<close> up to its endless loop: the exit code, or the configuration and the queues. The level of the
  options is not used: the calls of \<open>log_init\<close> are commented out.
\<close>

definition main ::
  "'j env \<Rightarrow> outside \<Rightarrow> string list \<Rightarrow> Queue_t \<Rightarrow> Queue_t \<Rightarrow> ('j, nat + 'j env \<times> Queue_t \<times> Queue_t) wio" where
  "main E out argv messages threads =
     io_bind (io_get w_files) (\<lambda>fs.
     io_bind (lift (parse_option fs [] (tl argv) no_options)) (\<lambda>parsed.
     case parsed of
       Exits code \<Rightarrow> io_ret (Inl code)
     | Options os \<Rightarrow>
         (let path = (case config_file_path os of None \<Rightarrow> CONFIG_FILE_PATH_DEFAULT | Some p \<Rightarrow> p);
              E = E\<lparr>conf := load_config fs (os_environ out) path\<rparr>
          in io_then (sleep_s 1)
            (io_bind (init E out messages threads) (\<lambda>(message_queue, thread_queue).
             io_ret (Inr (E, message_queue, thread_queue)))))))"

section \<open>Lemmas\<close>

lemma option_char_eqs:
  "option_char (CHR ''c'') [] (a # as) = ((CHR ''c'', Some a), [], as)"
  "cs \<noteq> [] \<Longrightarrow> option_char (CHR ''c'') cs as = ((CHR ''c'', Some cs), [], as)"
  "option_char (CHR ''l'') [] (a # as) = ((CHR ''l'', Some a), [], as)"
  "cs \<noteq> [] \<Longrightarrow> option_char (CHR ''l'') cs as = ((CHR ''l'', Some cs), [], as)"
  "c \<in> set ''hv'' \<Longrightarrow> option_char c cs as = ((c, None), cs, as)"
  "c \<notin> set ''clhv'' \<Longrightarrow> option_char c cs as = ((CHR ''?'', None), cs, as)"
  "c \<in> set ''cl'' \<Longrightarrow> option_char c [] [] = ((CHR ''?'', None), [], [])"
  by (auto simp: option_char_def)

lemma getopt_option:
  "c \<noteq> CHR ''-'' \<or> cs \<noteq> [] \<Longrightarrow> getopt [] ((CHR ''-'' # c # cs) # as) = map_prod Some (\<lambda>r. r) (option_char c cs as)"
  by (auto simp: getopt_def)

lemma getopt_argument:
  "a = [] \<or> hd a \<noteq> CHR ''-'' \<or> a = ''-'' \<Longrightarrow> getopt [] (a # as) = (None, [], a # as)"
  by (cases a; cases "tl a") (auto simp: getopt_def split: char.split bool.split)

lemma getopt_end: "getopt [] [] = (None, [], [])"
  by (simp add: getopt_def)

text \<open>The settings of a command line, with their argument in the same word or in the next one.\<close>

datatype setting = ConfigPath bool string | LogLevel bool string

fun render :: "setting \<Rightarrow> string list" where
  "render (ConfigPath sep p) = (if sep then [''-c'', p] else [''-c'' @ p])"
| "render (LogLevel sep l) = (if sep then [''-l'', l] else [''-l'' @ l])"

fun setting_ok :: "setting \<Rightarrow> bool" where
  "setting_ok (ConfigPath sep p) \<longleftrightarrow> sep \<or> p \<noteq> []"
| "setting_ok (LogLevel sep l) \<longleftrightarrow> l \<in> fst ` set log_levels"

fun levels :: "setting list \<Rightarrow> int list" where
  "levels [] = []"
| "levels (ConfigPath sep p # ss) = levels ss"
| "levels (LogLevel sep l # ss) = the (map_of log_levels l) # levels ss"

fun paths :: "filesys \<Rightarrow> setting list \<Rightarrow> string list" where
  "paths fs [] = []"
| "paths fs (ConfigPath sep p # ss) = (if fs p \<noteq> None then [p] else []) @ paths fs ss"
| "paths fs (LogLevel sep l # ss) = paths fs ss"

lemma level_known: "l \<in> fst ` set log_levels \<Longrightarrow> map_of log_levels l \<noteq> None \<and> l \<noteq> []"
  by (auto simp: log_levels_def)

lemma level_unknown: "l \<notin> fst ` set log_levels \<Longrightarrow> map_of log_levels l = None"
  by (simp add: map_of_eq_None_iff)

lemma parse_settings:
  "\<forall>x \<in> set ss. setting_ok x \<Longrightarrow> parse_option fs [] (concat (map render ss) @ rest) os =
   parse_option fs [] rest \<lparr>log_level = last (log_level os # levels ss),
     config_file_path = last (config_file_path os # map Some (paths fs ss))\<rparr>"
proof (induction ss arbitrary: os)
  case (Cons x ss)
  have step: "parse_option fs [] (render x @ r) os = parse_option fs [] r
      \<lparr>log_level = last (log_level os # levels [x]), config_file_path = last (config_file_path os # map Some (paths fs [x]))\<rparr>" for r
  proof (cases x)
    case (ConfigPath sep p)
    then show ?thesis using Cons.prems
      by (cases os; cases sep; subst parse_option.simps)
        (auto simp: getopt_option option_char_eqs handle_option_def)
  next
    case (LogLevel sep l)
    then have "map_of log_levels l \<noteq> None" "l \<noteq> []" using Cons.prems level_known by auto
    then show ?thesis using LogLevel
      by (cases os; cases sep; subst parse_option.simps)
        (auto simp: getopt_option option_char_eqs handle_option_def)
  qed
  have rest: "last (last (a # levels [x]) # levels ss) = last (a # levels (x # ss))"
    "last (last (b # map Some (paths fs [x])) # map Some (paths fs ss)) = last (b # map Some (paths fs (x # ss)))" for a b
    by (cases x; simp)+
  show ?case
    using Cons.IH [of "\<lparr>log_level = last (log_level os # levels [x]),
        config_file_path = last (config_file_path os # map Some (paths fs [x]))\<rparr>"] Cons.prems step
    by (simp add: rest del: last.simps levels.simps paths.simps)
next
  case Nil
  show ?case by (cases os) simp
qed

text \<open>The start.\<close>

lemma load_json_run:
  "\<not> w_lock s \<Longrightarrow> load_json_from_file E (Some f) s =
     (Inr (cJSON_Parse (cj E) (w_files s f)), s\<lparr>w_lock := w_files s f = None\<rparr>)"
  "w_lock s \<Longrightarrow> load_json_from_file E (Some f) s = (Inl Deadlock, s)"
  by (simp_all add: load_json_from_file_def read_data_def mutex_lock_def mutex_unlock_def io_simps split: option.split)

lemma init_error_table_run:
  assumes "\<not> w_lock s" "general_error_table_file (get_config E) = Some g"
    "general_mqtt_error_table_file (get_config E) = Some m" "ezm_error_table_file (get_config E) = Some z"
  shows "if w_files s g = None \<or> w_files s m = None then fst (init_error_table E s) = Inl Deadlock
    else init_error_table E s = (Inr (), s\<lparr>w_error_tables := (cJSON_Parse (cj E) (w_files s g),
      cJSON_Parse (cj E) (w_files s m), cJSON_Parse (cj E) (w_files s z)), w_lock := w_files s z = None\<rparr>)"
  using assms
  by (cases "w_files s g"; cases "w_files s m"; cases "w_files s z"; cases s)
    (simp_all add: init_error_table_def io_bind_app io_then_app io_modify_app load_json_run)

lemma init_service_info_run:
  assumes "cjson_ok (cj E)" "\<not> w_lock s" "service_info_file (get_config E) = Some f"
    "cJSON_Parse (cj E) (w_files s f) = services"
  shows "if cJSON_IsArray (cj E) services
    then init_service_info E s = (Inr (), s
      \<lparr>w_hub_id := last_said (w_hub_id s) (map (service_says (cj E) ''hub'') (json_items (cj E) services)),
       w_ezm_id := last_said (w_ezm_id s) (map (service_says (cj E) ''ezm'') (json_items (cj E) services))\<rparr>)
    else fst (init_service_info E s) = Inl ProgramExit"
  using service_info_spec [OF assms(1-3)] assms(1,4)
  by (cases "w_files s f") (auto simp: Let_def json_simps)

lemma mqtt_connect_run:
  assumes "CHR ''%'' \<notin> set (p @ q @ p' @ q')" "sub_topic_pattern (get_config E) = Some (p @ ''%s'' @ q)"
    "pub_topic_pattern (get_config E) = Some (p' @ ''%s'' @ q')"
  shows "case w_ezm_id s of
      None \<Rightarrow> fst (mqtt_connect E h rc s) = Inl NullString
    | Some a \<Rightarrow>
        if 100 \<le> length (p @ a @ q) \<or> 100 \<le> length (p' @ a @ q') then fst (mqtt_connect E h rc s) = Inl BufferOverflow
        else \<exists>r. mqtt_connect E h rc s = (Inr r, s\<lparr>w_sub_topic := p @ a @ q, w_pub_topic := p' @ a @ q'\<rparr>)"
proof -
  have p: "CHR ''%'' \<notin> set p" "CHR ''%'' \<notin> set q" "CHR ''%'' \<notin> set p'" "CHR ''%'' \<notin> set q'"
    using assms(1) by auto
  have null: "sprintf_format 100 (p @ ''%s'' @ q) [None] = io_fail NullString"
    unfolding sprintf_format_def expand_pattern(2) [OF p(1,2)] by simp
  show ?thesis
  proof (cases "w_ezm_id s")
    case None
    then show ?thesis
      by (simp add: mqtt_connect_def get_ezm_id_def io_bind_app io_get_app assms(2) io_deref_Some null [simplified] io_fail_app)
  next
    case (Some a)
    then show ?thesis
      by (simp add: mqtt_connect_def get_ezm_id_def io_simps assms(2,3) sprintf_pattern [OF p(1,2), simplified]
        sprintf_pattern [OF p(3,4), simplified] sprintf_buf_def not_less)
  qed
qed

text \<open>Every file name of the configuration has a default.\<close>

lemma config_files:
  "\<exists>f. service_info_file (load_config fs env path) = Some f" "\<exists>f. general_error_table_file (load_config fs env path) = Some f"
  "\<exists>f. general_mqtt_error_table_file (load_config fs env path) = Some f"
  "\<exists>f. ezm_error_table_file (load_config fs env path) = Some f"
  by (simp_all add: load_config_def config_from_env_def env_get_def split: option.split)

text \<open>
  What the start depends on, and the outcome it has to have: the fault, or the identity of the device.
\<close>

definition start_ok :: "'j env \<Rightarrow> outside \<Rightarrow> string list \<Rightarrow> config_t \<Rightarrow> (string \<times> string) \<Rightarrow> (string \<times> string) \<Rightarrow> 'j world \<Rightarrow> bool" where
  "start_ok E out argv c sub pub s \<longleftrightarrow> cjson_ok (cj E) \<and> \<not> w_lock s \<and>
     (\<exists>os. parse_option (w_files s) [] (tl argv) no_options = Inr (Options os) \<and>
       c = load_config (w_files s) (os_environ out)
         (case config_file_path os of None \<Rightarrow> CONFIG_FILE_PATH_DEFAULT | Some f \<Rightarrow> f)) \<and>
     CHR ''%'' \<notin> set (fst sub @ snd sub @ fst pub @ snd pub) \<and>
     sub_topic_pattern c = Some (fst sub @ ''%s'' @ snd sub) \<and> pub_topic_pattern c = Some (fst pub @ ''%s'' @ snd pub) \<and>
     length (os_block out) = 2048 \<and> (\<forall>r \<in> set (os_rounds out). \<forall>d. Some (Some d) \<in> set r \<longrightarrow> length d \<le> 1783)"

definition document :: "'j env \<Rightarrow> 'j world \<Rightarrow> cptr \<Rightarrow> 'j option" where
  "document E s path = cJSON_Parse (cj E) (w_files s (the path))"

definition identity :: "'j env \<Rightarrow> 'j world \<Rightarrow> config_t \<Rightarrow> string \<Rightarrow> cptr \<Rightarrow> cptr" where
  "identity E s c who old = last_said old (map (service_says (cj E) who) (json_items (cj E) (document E s (service_info_file c))))"

definition start_outcome ::
  "'j env \<Rightarrow> outside \<Rightarrow> config_t \<Rightarrow> (string \<times> string) \<Rightarrow> (string \<times> string) \<Rightarrow> 'j world \<Rightarrow> fault + string" where
  "start_outcome E out c sub pub s =
     (if \<not> cJSON_IsArray (cj E) (document E s (service_info_file c)) then Inl ProgramExit
      else if w_files s (the (general_error_table_file c)) = None \<or> w_files s (the (general_mqtt_error_table_file c)) = None
        then Inl Deadlock
      else if open_client_sockets 32 (os_interfaces out) [] = [] then Inl NullDeref
      else case identity E s c ''ezm'' (w_ezm_id s) of
             None \<Rightarrow> Inl NullString
           | Some a \<Rightarrow> if 100 \<le> length (fst sub @ a @ snd sub) \<or> 100 \<le> length (fst pub @ a @ snd pub)
                      then Inl BufferOverflow
                      else if os_mosq_new out \<and> os_mosq_connect out \<noteq> 0 then Inl UseAfterFree
                      else Inr a)"

text \<open>The state in which the daemon enters its loop.\<close>

definition started :: "'j env \<Rightarrow> config_t \<Rightarrow> (string \<times> string) \<Rightarrow> (string \<times> string) \<Rightarrow> string \<Rightarrow> 'j world \<Rightarrow> 'j world" where
  "started E c sub pub a s = s\<lparr>
     w_trace := w_trace s @ [Sleep 1, Sleep 5],
     w_hub_id := identity E s c ''hub'' (w_hub_id s), w_ezm_id := Some a,
     w_error_tables := (document E s (general_error_table_file c), document E s (general_mqtt_error_table_file c),
       document E s (ezm_error_table_file c)),
     w_lock := w_files s (the (ezm_error_table_file c)) = None,
     w_sub_topic := fst sub @ a @ snd sub, w_pub_topic := fst pub @ a @ snd pub\<rparr>"

lemma noc_name: "labels_ok [''_noc'', ''_tcp'', ''local'']" "''_noc._tcp.local.'' = DnsName.dotted [''_noc'', ''_tcp'', ''local'']"
  "16 + length (wire [''_noc'', ''_tcp'', ''local'']) \<le> 2048"
  by (simp_all add: labels_ok_def length_wire)

lemma start_query:
  assumes "length (os_block out) = 2048" "\<forall>r \<in> set (os_rounds out). \<forall>d. Some (Some d) \<in> set r \<longrightarrow> length d \<le> 1783"
  shows "\<exists>res sent. mdns_query_device_list (os_interfaces out) ''_noc._tcp.local.'' (os_block out) (os_rounds out) = Inr (res, sent) \<and>
    (res = None \<longleftrightarrow> open_client_sockets 32 (os_interfaces out) [] = [])"
  using query_on_any_traffic [OF noc_name(1) disjI2 [OF noc_name(2)] noc_name(3) assms, of "os_interfaces out"] by blast

lemma main_run:
  assumes "start_ok E out argv c sub pub s"
  shows "case start_outcome E out c sub pub s of
      Inl f \<Rightarrow> fst (main E out argv messages threads s) = Inl f
    | Inr a \<Rightarrow> main E out argv messages threads s = (Inr (Inr (E\<lparr>conf := c\<rparr>,
        snd (q_init (os_malloc_messages out) messages (os_message_size out) 1000 FIFO True),
        init_thread_queue (os_malloc_threads out) threads)), started E c sub pub a s)"
proof -
  obtain os where os: "cjson_ok (cj E)" "\<not> w_lock s" "parse_option (w_files s) [] (tl argv) no_options = Inr (Options os)"
    "c = load_config (w_files s) (os_environ out) (case config_file_path os of None \<Rightarrow> CONFIG_FILE_PATH_DEFAULT | Some f \<Rightarrow> f)"
    using assms unfolding start_ok_def by blast
  have pats: "CHR ''%'' \<notin> set (fst sub @ snd sub @ fst pub @ snd pub)"
     "sub_topic_pattern c = Some (fst sub @ ''%s'' @ snd sub)" "pub_topic_pattern c = Some (fst pub @ ''%s'' @ snd pub)"
    using assms unfolding start_ok_def by blast+
  obtain f g m z where files: "service_info_file c = Some f" "general_error_table_file c = Some g"
    "general_mqtt_error_table_file c = Some m" "ezm_error_table_file c = Some z"
    using config_files os(4) by metis
  let ?E = "E\<lparr>conf := c\<rparr>"
  have E: "cj ?E = cj E" "get_config ?E = c" by (simp_all add: get_config_def)
  obtain res sent where q: "mdns_query_device_list (os_interfaces out) ''_noc._tcp.local.'' (os_block out) (os_rounds out) = Inr (res, sent)"
    "res = None \<longleftrightarrow> open_client_sockets 32 (os_interfaces out) [] = []"
    using start_query [of out] assms unfolding start_ok_def by blast
  define s1 where "s1 = s\<lparr>w_trace := w_trace s @ [Sleep 1]\<rparr>"
  define s2 where "s2 = s1\<lparr>w_hub_id := identity E s c ''hub'' (w_hub_id s), w_ezm_id := identity E s c ''ezm'' (w_ezm_id s)\<rparr>"
  define s3 where "s3 = s2\<lparr>w_error_tables := (document E s (Some g), document E s (Some m), document E s (Some z)),
      w_lock := w_files s z = None\<rparr>"
  define s4 where "s4 = s3\<lparr>w_trace := w_trace s @ [Sleep 1, Sleep 5]\<rparr>"
  have m: "main E out argv messages threads s = (case init ?E out messages threads s1 of
      (Inl e, t) \<Rightarrow> (Inl e, t) | (Inr (mq, tq), t) \<Rightarrow> (Inr (Inr (?E, mq, tq)), t))"
    using os(3) by (simp add: main_def io_simps lift_def os(4) [symmetric] s1_def Let_def split: prod.split sum.split)
  have init: "if cJSON_IsArray (cj E) (document E s (Some f)) then init_service_info ?E s1 = (Inr (), s2)
      else fst (init_service_info ?E s1) = Inl ProgramExit"
    using init_service_info_run [of ?E s1 f "document E s (Some f)"] os(1,2) files(1)
    by (simp add: E s1_def s2_def document_def identity_def cong: if_cong)
  have tables: "if w_files s g = None \<or> w_files s m = None then fst (init_error_table ?E s2) = Inl Deadlock
      else init_error_table ?E s2 = (Inr (), s3)"
    using init_error_table_run [of s2 ?E g m z] os(2) files
    by (simp add: E s1_def s2_def s3_def document_def cong: if_cong)
  have sl: "sleep_s 5 s3 = (Inr (), s4)" by (simp add: io_simps s4_def s3_def s2_def s1_def)
  have conn: "case w_ezm_id s4 of
      None \<Rightarrow> fst (mqtt_connect ?E (os_mosq_new out) (os_mosq_connect out) s4) = Inl NullString
    | Some a \<Rightarrow>
        if 100 \<le> length (fst sub @ a @ snd sub) \<or> 100 \<le> length (fst pub @ a @ snd pub)
        then fst (mqtt_connect ?E (os_mosq_new out) (os_mosq_connect out) s4) = Inl BufferOverflow
        else \<exists>r. mqtt_connect ?E (os_mosq_new out) (os_mosq_connect out) s4 =
          (Inr r, s4\<lparr>w_sub_topic := fst sub @ a @ snd sub, w_pub_topic := fst pub @ a @ snd pub\<rparr>)"
    by (rule mqtt_connect_run) (use pats E in simp_all)
  have id4: "w_ezm_id s4 = identity E s c ''ezm'' (w_ezm_id s)" by (simp add: s4_def s3_def s2_def)
  show ?thesis
  proof (cases "cJSON_IsArray (cj E) (document E s (Some f))")
    case False
    then show ?thesis using init by (cases "init_service_info ?E s1")
      (simp add: m init_def start_outcome_def files io_then_app Let_def)
  next
    case arr: True
    then have i: "init_service_info ?E s1 = (Inr (), s2)" using init by simp
    show ?thesis
    proof (cases "w_files s g = None \<or> w_files s m = None")
      case True
      then show ?thesis using tables i arr by (cases "init_error_table ?E s2")
        (auto simp: m init_def start_outcome_def files io_then_app Let_def)
    next
      case tab: False
      then have t: "init_error_table ?E s2 = (Inr (), s3)" using tables by simp
      have run: "init ?E out messages threads s1 = (case res of None \<Rightarrow> (Inl NullDeref, s4)
        | Some ds \<Rightarrow> (case mqtt_connect ?E (os_mosq_new out) (os_mosq_connect out) s4 of
            (Inl e, t) \<Rightarrow> (Inl e, t)
          | (Inr r, t) \<Rightarrow> if os_mosq_new out \<and> os_mosq_connect out \<noteq> 0 then (Inl UseAfterFree, t)
              else (Inr (snd (q_init (os_malloc_messages out) messages (os_message_size out) 1000 FIFO True),
                init_thread_queue (os_malloc_threads out) threads), t)))"
        by (simp add: init_def io_then_app io_bind_app i t sl q(1) lift_def io_ret_app io_deref_def io_fail_app Let_def
            mqtt_loop_app if_distrib [of "\<lambda>p. case p of (Inl e, t) \<Rightarrow> (Inl e, t) | (Inr x, t) \<Rightarrow> (Inr (_ :: Queue_t \<times> Queue_t), t)"]
            split: option.split prod.split sum.split) blast
      have out': "start_outcome E out c sub pub s = (if res = None then Inl NullDeref
        else case w_ezm_id s4 of None \<Rightarrow> Inl NullString
           | Some a \<Rightarrow> if 100 \<le> length (fst sub @ a @ snd sub) \<or> 100 \<le> length (fst pub @ a @ snd pub)
                      then Inl BufferOverflow
                      else if os_mosq_new out \<and> os_mosq_connect out \<noteq> 0 then Inl UseAfterFree
                      else Inr a)"
        using arr tab q(2) by (auto simp: start_outcome_def files id4)
      have fin: "started E c sub pub a s = s4\<lparr>w_sub_topic := fst sub @ a @ snd sub, w_pub_topic := fst pub @ a @ snd pub\<rparr>"
        if "w_ezm_id s4 = Some a" for a
        using that by (simp add: started_def files s4_def s3_def s2_def s1_def)
      show ?thesis unfolding m run out'
        using conn fin by (cases res; cases "w_ezm_id s4"; cases "mqtt_connect ?E (os_mosq_new out) (os_mosq_connect out) s4")
          (auto split: if_splits)
    qed
  qed
qed

section \<open>Properties\<close>

text \<open>
  C23: the command line. Settings, each with its argument in the same word or in the next, are read from left
  to right: the last known level and the last path that can be read win, and paths that cannot are skipped. Behind
  them, an argument that is no option ends the process with 1, the version and the help with 0, an unknown
  level with 1, and an unknown option or one whose argument is missing makes a text the stream of
  \<open>fprintf\<close>.
\<close>

theorem command_line:
  assumes "\<forall>x \<in> set ss. setting_ok x"
  shows "parse_option fs [] (concat (map render ss)) no_options =
      Inr (Options \<lparr>log_level = last (- 1 # levels ss), config_file_path = last (None # map Some (paths fs ss))\<rparr>) \<and>
    (\<forall>a as. a = [] \<or> hd a \<noteq> CHR ''-'' \<or> a = ''-'' \<longrightarrow>
      parse_option fs [] (concat (map render ss) @ a # as) no_options = Inr (Exits 1)) \<and>
    (\<forall>c cs as. c \<in> set ''hv'' \<longrightarrow>
      parse_option fs [] (concat (map render ss) @ (CHR ''-'' # c # cs) # as) no_options = Inr (Exits 0)) \<and>
    (\<forall>l as. l \<notin> fst ` set log_levels \<longrightarrow>
      parse_option fs [] (concat (map render ss) @ ''-l'' # l # as) no_options = Inr (Exits 1)) \<and>
    (\<forall>c cs as. c \<notin> set ''clhv-'' \<longrightarrow>
      parse_option fs [] (concat (map render ss) @ (CHR ''-'' # c # cs) # as) no_options = Inl InvalidArgument) \<and>
    (\<forall>c \<in> set ''cl''. parse_option fs [] (concat (map render ss) @ [[CHR ''-'', c]]) no_options = Inl InvalidArgument)"
proof -
  note P = parse_settings [OF assms, of fs _ no_options]
  show ?thesis
    unfolding P parse_settings [OF assms, of fs "[]", unfolded append_Nil2]
    by (intro conjI allI impI ballI; subst parse_option.simps)
      (auto simp: no_options_def getopt_end getopt_argument getopt_option option_char_eqs handle_option_def level_unknown)
qed

definition demo_files :: filesys where
  "demo_files = (\<lambda>_. None)(''/etc/noc.cnf'' := Some ''ezm_name=hub'')"

theorem command_line_witness:
  "parse_option demo_files [] [''-c'', ''/etc/noc.cnf'', ''-ldebug'', ''-c/none'', ''-l'', ''warn''] no_options =
     Inr (Options \<lparr>log_level = 4, config_file_path = Some ''/etc/noc.cnf''\<rparr>)"
proof -
  let ?ss = "[ConfigPath True ''/etc/noc.cnf'', LogLevel False ''debug'', ConfigPath False ''/none'', LogLevel True ''warn'']"
  have ok: "\<forall>x \<in> set ?ss. setting_ok x" by (simp add: log_levels_def)
  show ?thesis using conjunct1 [OF command_line [OF ok, of demo_files]] by (simp add: demo_files_def log_levels_def)
qed


text \<open>A device with a service description, the three tables and one interface.\<close>

definition demo_box :: "jtree world" where
  "demo_box = empty_world\<lparr>w_files := (\<lambda>_. None)
     (''/data/database/hub/services_info.json'' := cJSON_Print tree_lib (Some demo_services),
      ''/data/error_tables/100_general.json'' := Some ''[]'',
      ''/data/error_tables/101_general_mqtt.json'' := Some ''[]'',
      ''/data/error_tables/240_ezm.json'' := Some ''[]'')\<rparr>"

definition demo_outside :: outside where
  "demo_outside = \<lparr>os_environ = (\<lambda>_. None), os_interfaces = [demo_interface], os_block = replicate 2048 CHR 0x00,
     os_rounds = [[Some (Some ''garbage'')]], os_mosq_new = True, os_mosq_connect = 0, os_message_size = 40,
     os_malloc_messages = (\<lambda>n. Some (replicate n 0)), os_malloc_threads = (\<lambda>n. Some (replicate n 0))\<rparr>"

abbreviation demo_argv :: "string list" where "demo_argv \<equiv> [''noc-client'', ''-l'', ''debug'']"

abbreviation demo_topics :: "(string \<times> string) \<times> (string \<times> string)" where
  "demo_topics \<equiv> ((''hub/event/'', []), (''ezm/event/'', []))"

lemma demo_config:
  "load_config (w_files demo_box) (\<lambda>_. None) CONFIG_FILE_PATH_DEFAULT = default_config"
  by (simp add: demo_box_def default_config_def load_config_def env_load_def open_default_def open_default_path_def)

lemma demo_start:
  "start_ok quiet_env demo_outside demo_argv default_config (fst demo_topics) (snd demo_topics) demo_box"
proof -
  have "parse_option (w_files demo_box) [] (tl demo_argv) no_options = Inr (Options \<lparr>log_level = 7, config_file_path = None\<rparr>)"
    using parse_settings [of "[LogLevel True ''debug'']" "w_files demo_box" "[]" no_options]
    by (simp add: log_levels_def no_options_def) (simp add: parse_option.simps getopt_end)
  moreover have "\<not> w_lock demo_box" by (simp add: demo_box_def)
  ultimately show ?thesis
    unfolding start_ok_def using demo_config by (simp add: tree_ok demo_outside_def)
qed

lemma demo_outcome:
  "start_outcome quiet_env demo_outside default_config (fst demo_topics) (snd demo_topics) demo_box = Inr ''e1''"
proof -
  obtain str where str: "cJSON_Print tree_lib (Some demo_services) = Some str" "cJSON_Parse tree_lib (Some str) = Some demo_services"
    by (rule Print_Some [OF tree_ok])
  have doc: "document quiet_env demo_box (service_info_file default_config) = Some demo_services"
    by (simp add: document_def demo_box_def str)
  have "cJSON_IsArray tree_lib (Some demo_services)"
    "map (service_says tree_lib ''ezm'') (json_items tree_lib (Some demo_services)) = [None, Some (Some ''e1''), None]"
    by code_simp+
  moreover have "open_client_sockets 32 [demo_interface] [] \<noteq> []"
    by (simp add: demo_interface_def usable_interface_def mdns_socket_open_def mdns_socket_setup_def)
  moreover have "general_error_table_file default_config = Some ''/data/error_tables/100_general.json''"
    "general_mqtt_error_table_file default_config = Some ''/data/error_tables/101_general_mqtt.json''"
    by (simp_all add: default_config_def load_config_def env_load_def open_default_def config_from_env_def env_get_def)
  ultimately show ?thesis
    unfolding start_outcome_def identity_def doc by (simp add: demo_outside_def last_said_def demo_box_def)
qed





end
