(* ===== verification/Logging.thy ===== *)
theory Logging
  imports Prelude
begin

text \<open>
  \<open>src/utils/log/log.c\<close>: the registry of callbacks and the delivery of an event to the standard error and
  to the callbacks. The text that \<open>vfprintf\<close> makes of the format and its arguments, and what \<open>strftime\<close>
  prints, are given. What is written, and every call of a lock or of a callback of a client, is a trace.
  The makefile sets \<open>LOG_USE_STDERR\<close> and \<open>LOG_USE_COLOR\<close>: the program's messages go through
  \<open>log_log\<close>, and the lines on the standard error are coloured.
\<close>

section \<open>State\<close>

text \<open>A callback is that of \<open>log_add_fp\<close> or one of a client; its data is a stream or a pointer of the client.\<close>

datatype log_fn = FileCallback | ClientCallback nat

record log_callback =
  cb_fn :: log_fn
  cb_udata :: nat
  cb_level :: int

record logger =
  log_lock :: "nat option"
  log_udata :: nat
  log_level :: int
  log_quiet :: bool
  log_callbacks :: "log_callback option list"

abbreviation MAX_CALLBACKS :: nat where "MAX_CALLBACKS \<equiv> 32"

definition logger_zero :: logger where
  "logger_zero = \<lparr>log_lock = None, log_udata = 0, log_level = 0, log_quiet = False,
     log_callbacks = replicate MAX_CALLBACKS None\<rparr>"

record log_Event =
  ev_text :: string
  ev_file :: string
  ev_line :: nat
  ev_func :: string
  ev_level :: int
  ev_hms :: string
  ev_date :: string

datatype log_effect =
    LockCall nat bool nat
  | Written nat string
  | Called nat nat log_Event

text \<open>The stream of \<open>stderr\<close>.\<close>

abbreviation STDERR :: nat where "STDERR \<equiv> 2"

section \<open>Operations\<close>

definition level_strings :: "string list" where
  "level_strings = [''TRACE'', ''DEBUG'', ''INFO'', ''WARN'', ''ERROR'', ''FATAL'']"

definition level_colors :: "string list" where
  "level_colors = map (\<lambda>n. CHR 0x1B # ''['' @ n @ ''m'') [''94'', ''36'', ''32'', ''33'', ''31'', ''35'']"

text \<open>The table is read without a look at the level.\<close>

definition log_level_string :: "int \<Rightarrow> fault + string" where
  "log_level_string level =
     (if 0 \<le> level \<and> nat level < length level_strings then Inr (level_strings ! nat level) else Inl OutOfBounds)"

definition log_set_lock :: "nat option \<Rightarrow> nat \<Rightarrow> logger \<Rightarrow> logger" where
  "log_set_lock fn udata L = L\<lparr>log_lock := fn, log_udata := udata\<rparr>"

definition log_set_level :: "int \<Rightarrow> logger \<Rightarrow> logger" where
  "log_set_level level L = L\<lparr>log_level := level\<rparr>"

definition log_set_quiet :: "bool \<Rightarrow> logger \<Rightarrow> logger" where
  "log_set_quiet enable L = L\<lparr>log_quiet := enable\<rparr>"

definition log_add_callback :: "log_fn \<Rightarrow> nat \<Rightarrow> int \<Rightarrow> logger \<Rightarrow> int \<times> logger" where
  "log_add_callback fn udata level L =
     (case first_index (\<lambda>c. c = None) (log_callbacks L) of
        Some i \<Rightarrow> (0, L\<lparr>log_callbacks := (log_callbacks L)[i := Some \<lparr>cb_fn = fn, cb_udata = udata, cb_level = level\<rparr>]\<rparr>)
      | None \<Rightarrow> (- 1, L))"

definition log_add_fp :: "nat \<Rightarrow> int \<Rightarrow> logger \<Rightarrow> int \<times> logger" where
  "log_add_fp fp level L = log_add_callback FileCallback fp level L"

text \<open>\<open>%-5s\<close>, and a decimal number.\<close>

definition pad5 :: "string \<Rightarrow> string" where
  "pad5 s = s @ replicate (5 - length s) (CHR '' '')"

fun decimal :: "nat \<Rightarrow> string" where
  "decimal n = (if n < 10 then [char_of (48 + n)] else decimal (n div 10) @ [char_of (48 + n mod 10)])"

declare decimal.simps [simp del]

definition reset_color :: string where
  "reset_color = CHR 0x1B # ''[0m''"

definition grey_color :: string where
  "grey_color = CHR 0x1B # ''[90m''"

definition stdout_callback :: "nat \<Rightarrow> log_Event \<Rightarrow> fault + log_effect list" where
  "stdout_callback stream ev =
     map_sum id (\<lambda>l.
       [Written stream (ev_hms ev @ '' '' @ level_colors ! nat (ev_level ev) @ pad5 l @ reset_color @ '' ''
          @ grey_color @ ev_file ev @ '':'' @ decimal (ev_line ev) @ '','' @ ev_func ev @ ''():'' @ reset_color @ '' ''
          @ ev_text ev @ ''\<newline>'')])
       (log_level_string (ev_level ev))"

definition file_callback :: "nat \<Rightarrow> log_Event \<Rightarrow> fault + log_effect list" where
  "file_callback stream ev =
     map_sum id (\<lambda>l.
       [Written stream (ev_date ev @ '' '' @ pad5 l @ '' '' @ ev_file ev @ '':'' @ decimal (ev_line ev) @ '': ''
          @ ev_text ev @ ''\<newline>'')])
       (log_level_string (ev_level ev))"

definition call_fn :: "log_callback \<Rightarrow> log_Event \<Rightarrow> fault + log_effect list" where
  "call_fn cb ev =
     (case cb_fn cb of
        FileCallback \<Rightarrow> file_callback (cb_udata cb) ev
      | ClientCallback n \<Rightarrow> Inr [Called n (cb_udata cb) ev])"

definition lock_call :: "bool \<Rightarrow> logger \<Rightarrow> log_effect list" where
  "lock_call b L = (case log_lock L of None \<Rightarrow> [] | Some f \<Rightarrow> [LockCall f b (log_udata L)])"

text \<open>The loop over the callbacks ends at the first free place.\<close>

fun call_callbacks :: "log_callback option list \<Rightarrow> log_Event \<Rightarrow> fault + log_effect list" where
  "call_callbacks [] ev = Inr []"
| "call_callbacks (None # cbs) ev = Inr []"
| "call_callbacks (Some cb # cbs) ev =
     (case (if ev_level ev \<ge> cb_level cb then call_fn cb ev else Inr []) of
        Inl f \<Rightarrow> Inl f
      | Inr es \<Rightarrow> map_sum id (\<lambda>es'. es @ es') (call_callbacks cbs ev))"

definition log_log :: "log_Event \<Rightarrow> logger \<Rightarrow> fault + log_effect list" where
  "log_log ev L =
     (case (if \<not> log_quiet L \<and> ev_level ev \<ge> log_level L then stdout_callback STDERR ev else Inr []) of
        Inl f \<Rightarrow> Inl f
      | Inr es \<Rightarrow> map_sum id (\<lambda>es'. lock_call True L @ es @ es' @ lock_call False L)
                   (call_callbacks (log_callbacks L) ev))"

text \<open>\<open>log_init\<close>: the mask of \<open>syslog\<close> lets the priorities up to the level through.\<close>

definition log_init :: "int \<Rightarrow> int \<Rightarrow> bool" where
  "log_init level priority \<longleftrightarrow> priority \<le> level"

section \<open>The registry as a list\<close>

definition registry :: "logger \<Rightarrow> log_callback list" where
  "registry L = map the (takeWhile (\<lambda>c. c \<noteq> None) (log_callbacks L))"

text \<open>The places after the first free one are free: callbacks are only added.\<close>

definition logger_ok :: "logger \<Rightarrow> bool" where
  "logger_ok L \<longleftrightarrow> length (log_callbacks L) = MAX_CALLBACKS \<and>
     log_callbacks L = map Some (registry L) @ replicate (MAX_CALLBACKS - length (registry L)) None"

lemma registry_le: "logger_ok L \<Longrightarrow> length (registry L) \<le> MAX_CALLBACKS"
  unfolding logger_ok_def by (metis length_append length_map le_add1)

lemma registry_of:
  "log_callbacks L = map Some cs @ replicate n None \<Longrightarrow> registry L = cs"
  by (cases n) (simp_all add: registry_def takeWhile_append takeWhile_map o_def)

lemma first_free: "first_index (\<lambda>c. c = None) (map Some cs @ replicate n None) = (if n = 0 then None else Some (length cs))"
  by (induction cs) (cases n; simp)+

text \<open>Whether an event of a level can be printed: the level is one of the six.\<close>

definition level_ok :: "int \<Rightarrow> bool" where
  "level_ok l \<longleftrightarrow> 0 \<le> l \<and> l < 6"

lemma level_string_ok: "level_ok l \<Longrightarrow> \<exists>s. log_level_string l = Inr s"
  by (auto simp: level_ok_def log_level_string_def level_strings_def)

lemma call_callbacks_list:
  assumes "level_ok (ev_level ev)"
  shows "call_callbacks (map Some cs @ replicate n None) ev =
    Inr (concat (map (\<lambda>c. case call_fn c ev of Inl f \<Rightarrow> [] | Inr es \<Rightarrow> es) (filter (\<lambda>c. cb_level c \<le> ev_level ev) cs)))"
proof (induction cs)
  case Nil
  then show ?case by (cases n) simp_all
next
  case (Cons c cs)
  have "\<exists>es. call_fn c ev = Inr es"
    using level_string_ok [OF assms] by (auto simp: call_fn_def file_callback_def split: log_fn.splits)
  then show ?case using Cons by auto
qed

section \<open>Properties\<close>

text \<open>
  C40: the registry implements a list of at most 32 callbacks. Adding appends and returns 0 until the list is
  full, and then returns -1 and changes nothing. An event of one of the six levels takes the lock, is
  printed to the standard error unless the logger is quiet or the level too low, goes to every callback of
  its level in the order of the list, and releases the lock. An event of another level that is to be
  printed reads outside the table of names.
\<close>

theorem logging_refines:
  assumes "logger_ok L"
  shows "(if length (registry L) < 32
      then \<exists>L'. log_add_callback fn u l L = (0, L') \<and> logger_ok L' \<and>
        registry L' = registry L @ [\<lparr>cb_fn = fn, cb_udata = u, cb_level = l\<rparr>]
      else log_add_callback fn u l L = (- 1, L)) \<and>
    (level_ok (ev_level ev) \<longrightarrow> log_log ev L =
      Inr (lock_call True L
        @ (if \<not> log_quiet L \<and> log_level L \<le> ev_level ev
           then case stdout_callback STDERR ev of Inl f \<Rightarrow> [] | Inr es \<Rightarrow> es else [])
        @ concat (map (\<lambda>c. case call_fn c ev of Inl f \<Rightarrow> [] | Inr es \<Rightarrow> es)
            (filter (\<lambda>c. cb_level c \<le> ev_level ev) (registry L)))
        @ lock_call False L)) \<and>
    (\<not> level_ok (ev_level ev) \<and> \<not> log_quiet L \<and> log_level L \<le> ev_level ev \<longrightarrow> log_log ev L = Inl OutOfBounds)"
proof -
  let ?c = "\<lparr>cb_fn = fn, cb_udata = u, cb_level = l\<rparr>"
  define cs where "cs = registry L"
  define n where "n = MAX_CALLBACKS - length cs"
  have L: "log_callbacks L = map Some cs @ replicate n None" "length cs \<le> 32"
    using assms registry_le [OF assms] by (simp_all add: logger_ok_def cs_def n_def)
  have "if length cs < 32
      then \<exists>L'. log_add_callback fn u l L = (0, L') \<and> logger_ok L' \<and> registry L' = cs @ [?c]
      else log_add_callback fn u l L = (- 1, L)"
  proof (cases "length cs < 32")
    case True
    then obtain m where m: "n = Suc m" by (cases n) (simp_all add: n_def)
    let ?L = "L\<lparr>log_callbacks := map Some (cs @ [?c]) @ replicate m None\<rparr>"
    have "log_add_callback fn u l L = (0, ?L)"
    proof -
      have "first_index (\<lambda>c. c = None) (log_callbacks L) = Some (length cs)"
        unfolding L(1) first_free using m by simp
      then show ?thesis by (simp add: log_add_callback_def L(1) m list_update_append)
    qed
    moreover have r: "registry ?L = cs @ [?c]"
      by (rule registry_of [of _ _ m]) simp
    moreover have "length cs + m = 31" "m = 31 - length cs" using m n_def True by linarith+
    then have "logger_ok ?L" unfolding logger_ok_def r by simp
    ultimately show ?thesis using True by auto
  next
    case False
    then have "n = 0" by (simp add: n_def)
    then have "first_index (\<lambda>c. c = None) (log_callbacks L) = None" unfolding L(1) first_free by simp
    then show ?thesis using False by (simp add: log_add_callback_def)
  qed
  moreover have "\<exists>es. stdout_callback STDERR ev = Inr es" if "level_ok (ev_level ev)"
    using level_string_ok [OF that] by (auto simp: stdout_callback_def)
  moreover have "stdout_callback STDERR ev = Inl OutOfBounds" if "\<not> level_ok (ev_level ev)"
    using that by (auto simp: stdout_callback_def log_level_string_def level_ok_def level_strings_def)
  ultimately show ?thesis
    unfolding cs_def [symmetric]
    using call_callbacks_list [of ev cs n] by (auto simp: log_log_def L(1))
qed

lemma logger_zero_ok: "logger_ok logger_zero" "registry logger_zero = []"
proof -
  show r: "registry logger_zero = []" by (rule registry_of [of _ _ 32]) (simp add: logger_zero_def)
  show "logger_ok logger_zero" unfolding logger_ok_def r by (simp add: logger_zero_def)
qed

definition demo_event :: log_Event where
  "demo_event = \<lparr>ev_text = ''hello'', ev_file = ''main.c'', ev_line = 128, ev_func = ''init'', ev_level = 2,
     ev_hms = ''12:00:00'', ev_date = ''2020-01-01 12:00:00''\<rparr>"

theorem logging_refines_witness:
  "(\<exists>L'. log_add_callback FileCallback 7 3 logger_zero = (0, L') \<and> registry L' = [\<lparr>cb_fn = FileCallback, cb_udata = 7, cb_level = 3\<rparr>])
   \<and> log_log demo_event logger_zero = Inr [Written STDERR (''12:00:00 '' @ CHR 0x1B # ''[32mINFO '' @ CHR 0x1B # ''[0m ''
     @ CHR 0x1B # ''[90mmain.c:128,init():'' @ CHR 0x1B # ''[0m hello\<newline>'')]"
proof -
  have l: "level_ok (ev_level demo_event)" by (simp add: demo_event_def level_ok_def)
  have "stdout_callback STDERR demo_event = Inr [Written STDERR (''12:00:00 '' @ CHR 0x1B # ''[32mINFO '' @ CHR 0x1B # ''[0m ''
     @ CHR 0x1B # ''[90mmain.c:128,init():'' @ CHR 0x1B # ''[0m hello\<newline>'')]"
    by (simp add: stdout_callback_def level_colors_def reset_color_def grey_color_def demo_event_def log_level_string_def level_strings_def pad5_def decimal.simps char_of_def bit_Suc_0_iff)
  then show ?thesis
    using logging_refines [OF logger_zero_ok(1), of FileCallback 7 3 demo_event] l
    unfolding logger_zero_ok(2) by (auto simp: logger_zero_def lock_call_def demo_event_def)
qed

end
