(* ===== verification/Timer.thy ===== *)
theory Timer
  imports Prelude
begin

text \<open>
  \<open>src/utils/timer/timer.c\<close>: the list of timers, over the heap that holds its nodes. An address is a
  number, 0 is NULL, and \<open>timer_id\<close> is the address of a node. The loops over the list need not end on
  a damaged list: they are partial functions, and \<open>None\<close> is a loop that does not end. The addresses
  from \<open>malloc\<close>, the descriptors from the system and the result of \<open>poll\<close> are arguments.
\<close>

section \<open>The state\<close>

datatype t_timer = TIMER_SINGLE_SHOT | TIMER_PERIODIC

record 'h timer_node =
  tn_fd :: c_int
  tn_callback :: "'h option"
  tn_interval :: "32 word"
  tn_type :: t_timer
  tn_next :: nat

text \<open>A descriptor that is open, with the seconds and nanoseconds of its first and its later expiries.\<close>

record 'h timers =
  tm_heap :: "nat \<Rightarrow> 'h timer_node option"
  g_head :: nat
  tm_open :: "c_int \<Rightarrow> ((32 word \<times> 32 word) \<times> (32 word \<times> 32 word)) option"

abbreviation MAX_TIMER_COUNT :: nat where "MAX_TIMER_COUNT \<equiv> 1000"

section \<open>Starting and stopping\<close>

text \<open>The user data belong to the handler here: a callback is the function with its argument.\<close>

definition start_timer ::
  "nat \<Rightarrow> c_int \<Rightarrow> 32 word \<Rightarrow> 'h option \<Rightarrow> t_timer \<Rightarrow> 'h timers \<Rightarrow> nat \<times> 'h timers" where
  "start_timer new_node fd interval handler type t =
     (if new_node = 0 then (0, t)
      else if fd = -1 then (0, t)
      else
       (let it_value = (interval div 1000, (interval mod 1000) * 1000000);
            it_interval = (if type = TIMER_PERIODIC then (interval div 1000, (interval mod 1000) * 1000000) else (0, 0));
            t = t\<lparr>tm_open := (tm_open t)(fd \<mapsto> (it_value, it_interval))\<rparr>;
            node = \<lparr>tn_fd = fd, tn_callback = handler, tn_interval = interval, tn_type = type, tn_next = g_head t\<rparr>
        in (new_node, t\<lparr>tm_heap := (tm_heap t)(new_node \<mapsto> node), g_head := new_node\<rparr>)))"

text \<open>\<open>while (tmp && tmp->next != node) tmp = tmp->next;\<close>\<close>

partial_function (option) find_previous ::
  "(nat \<Rightarrow> 'h timer_node option) \<Rightarrow> nat \<Rightarrow> nat \<Rightarrow> (fault + nat) option" where
  "find_previous heap node tmp =
     (if tmp = 0 then Some (Inr 0)
      else case heap tmp of
             None \<Rightarrow> Some (Inl UseAfterFree)
           | Some n \<Rightarrow> if tn_next n \<noteq> node then find_previous heap node (tn_next n) else Some (Inr tmp))"

text \<open>The node that is taken out of the list, and the release of its memory.\<close>

definition unlink :: "nat \<Rightarrow> 'h timer_node \<Rightarrow> 'h timers \<Rightarrow> (fault + 'h timers) option" where
  "unlink node n t =
     (if node = g_head t then Some (Inr (t\<lparr>g_head := tn_next n\<rparr>))
      else case find_previous (tm_heap t) node (g_head t) of
             None \<Rightarrow> None
           | Some (Inl f) \<Rightarrow> Some (Inl f)
           | Some (Inr tmp) \<Rightarrow>
               (if tmp = 0 then Some (Inr t)
                else case tm_heap t tmp of
                       None \<Rightarrow> Some (Inl UseAfterFree)
                     | Some m \<Rightarrow> Some (Inr (t\<lparr>tm_heap := (tm_heap t)(tmp \<mapsto> m\<lparr>tn_next := tn_next n\<rparr>)\<rparr>))))"

definition stop_timer :: "nat \<Rightarrow> 'h timers \<Rightarrow> (fault + 'h timers) option" where
  "stop_timer timer_id t =
     (if timer_id = 0 then Some (Inr t)
      else case tm_heap t timer_id of
             None \<Rightarrow> Some (Inl UseAfterFree)
           | Some n \<Rightarrow>
              (let t = t\<lparr>tm_open := (tm_open t)(tn_fd n := None)\<rparr>
               in case unlink timer_id n t of
                    None \<Rightarrow> None
                  | Some (Inl f) \<Rightarrow> Some (Inl f)
                  | Some (Inr t) \<Rightarrow> Some (Inr (t\<lparr>tm_heap := (tm_heap t)(timer_id := None)\<rparr>))))"

text \<open>Stops the newest timer until there is none. The cancelled thread is in \<open>TimerThread\<close>.\<close>

partial_function (option) finalize_timer :: "'h timers \<Rightarrow> (fault + 'h timers) option" where
  "finalize_timer t =
     (if g_head t = 0 then Some (Inr t)
      else case stop_timer (g_head t) t of
             None \<Rightarrow> None
           | Some (Inl f) \<Rightarrow> Some (Inl f)
           | Some (Inr t) \<Rightarrow> finalize_timer t)"

section \<open>The timer thread\<close>

partial_function (option) get_timer_from_fd ::
  "(nat \<Rightarrow> 'h timer_node option) \<Rightarrow> c_int \<Rightarrow> nat \<Rightarrow> (fault + 'h timer_node option) option" where
  "get_timer_from_fd heap fd tmp =
     (if tmp = 0 then Some (Inr None)
      else case heap tmp of
             None \<Rightarrow> Some (Inl UseAfterFree)
           | Some n \<Rightarrow> if tn_fd n = fd then Some (Inr (Some n)) else get_timer_from_fd heap fd (tn_next n))"

text \<open>The descriptors of the list, from \<open>tmp\<close> on, written behind the \<open>count\<close> that there are.\<close>

partial_function (option) poll_set ::
  "(nat \<Rightarrow> 'h timer_node option) \<Rightarrow> c_int list \<Rightarrow> nat \<Rightarrow> (fault + c_int list) option" where
  "poll_set heap ufds tmp =
     (if tmp = 0 then Some (Inr ufds)
      else case heap tmp of
             None \<Rightarrow> Some (Inl UseAfterFree)
           | Some n \<Rightarrow>
              (if length ufds < MAX_TIMER_COUNT then poll_set heap (ufds @ [tn_fd n]) (tn_next n)
               else Some (Inl OutOfBounds)))"

text \<open>
  One round: the descriptors that are ready and can be read, in the order of the array; each is looked
  up again, and its callback is called. The result is the callbacks in the order of their calls.
\<close>

fun fire_ready :: "'h timers \<Rightarrow> c_int list \<Rightarrow> (fault + 'h list) option" where
  "fire_ready t [] = Some (Inr [])"
| "fire_ready t (fd # fds) =
     (case get_timer_from_fd (tm_heap t) fd (g_head t) of
        None \<Rightarrow> None
      | Some (Inl f) \<Rightarrow> Some (Inl f)
      | Some (Inr found) \<Rightarrow>
         (case fire_ready t fds of
            None \<Rightarrow> None
          | Some (Inl f) \<Rightarrow> Some (Inl f)
          | Some (Inr hs) \<Rightarrow>
              Some (Inr ((case found of None \<Rightarrow> [] | Some n \<Rightarrow> (case tn_callback n of None \<Rightarrow> [] | Some h \<Rightarrow> [h])) @ hs))))"

definition timer_round :: "(c_int \<Rightarrow> bool) \<Rightarrow> 'h timers \<Rightarrow> (fault + 'h list) option" where
  "timer_round ready t =
     (case poll_set (tm_heap t) [] (g_head t) of
        None \<Rightarrow> None
      | Some (Inl f) \<Rightarrow> Some (Inl f)
      | Some (Inr ufds) \<Rightarrow> fire_ready t (filter ready ufds))"

declare find_previous.simps [simp del] finalize_timer.simps [simp del] get_timer_from_fd.simps [simp del]
  poll_set.simps [simp del]


section \<open>The list that the heap holds\<close>

type_synonym 'h timer_info = "c_int \<times> 'h option \<times> 32 word \<times> t_timer"

definition info :: "'h timer_node \<Rightarrow> 'h timer_info" where
  "info n = (tn_fd n, tn_callback n, tn_interval n, tn_type n)"

fun nodes_at :: "(nat \<Rightarrow> 'h timer_node option) \<Rightarrow> nat \<Rightarrow> (nat \<times> 'h timer_info) list \<Rightarrow> bool" where
  "nodes_at heap a [] \<longleftrightarrow> a = 0"
| "nodes_at heap a ((x, i) # xs) \<longleftrightarrow>
     a = x \<and> x \<noteq> 0 \<and> (\<exists>n. heap x = Some n \<and> info n = i \<and> nodes_at heap (tn_next n) xs)"

definition expiry :: "32 word \<Rightarrow> 32 word \<times> 32 word" where
  "expiry interval = (interval div 1000, (interval mod 1000) * 1000000)"

definition descriptor :: "nat \<times> 'h timer_info \<Rightarrow> c_int \<times> ((32 word \<times> 32 word) \<times> (32 word \<times> 32 word))" where
  "descriptor x = (case x of (a, fd, cb, interval, type) \<Rightarrow>
     (fd, expiry interval, if type = TIMER_PERIODIC then expiry interval else (0, 0)))"

text \<open>
  The list holds every node that is allocated, each timer has a descriptor of its own, and exactly
  these descriptors are open, with the times of their timers.
\<close>

definition timers_ok :: "'h timers \<Rightarrow> (nat \<times> 'h timer_info) list \<Rightarrow> bool" where
  "timers_ok t xs \<longleftrightarrow>
     nodes_at (tm_heap t) (g_head t) xs \<and> distinct (map fst xs) \<and> dom (tm_heap t) = fst ` set xs \<and>
     distinct (map (\<lambda>x. fst (snd x)) xs) \<and> tm_open t = map_of (map descriptor xs)"

named_theorems heap_list "facts on the nodes of the list"

lemma nodes_at_other [heap_list]: "y \<notin> fst ` set xs \<Longrightarrow> nodes_at (heap(y := z)) a xs = nodes_at heap a xs"
  by (induction xs arbitrary: a) auto

lemma nodes_at_head: "nodes_at heap a xs \<Longrightarrow> a = (case xs of [] \<Rightarrow> 0 | x # _ \<Rightarrow> fst x)"
  by (cases xs) auto

lemma nodes_at_in: "nodes_at heap a xs \<Longrightarrow> (y, i) \<in> set xs \<Longrightarrow> \<exists>n. heap y = Some n \<and> info n = i \<and> y \<noteq> 0"
  by (induction xs arbitrary: a) auto

lemma find_previous_at:
  assumes "nodes_at heap a (us @ (p, i) # (y, j) # ws)" "distinct (map fst (us @ (p, i) # (y, j) # ws))"
  shows "find_previous heap y a = Some (Inr p)"
  using assms
proof (induction us arbitrary: a)
  case Nil
  then show ?case by (subst find_previous.simps) auto
next
  case (Cons u us)
  obtain x k where u: "u = (x, k)" by (cases u)
  with Cons.prems obtain n where n: "a = x" "x \<noteq> 0" "heap x = Some n" "nodes_at heap (tn_next n) (us @ (p, i) # (y, j) # ws)"
    by auto
  have "tn_next n \<noteq> y" using nodes_at_head [OF n(4)] Cons.prems(2) by (cases us) auto
  then show ?case
    using Cons.IH [OF n(4)] Cons.prems(2) n by (subst find_previous.simps) simp
qed

lemma nodes_at_unlink:
  assumes "nodes_at heap a (us @ (p, i) # (y, j) # ws)" "distinct (map fst (us @ (p, i) # (y, j) # ws))"
    "heap y = Some n" "heap p = Some m"
  shows "nodes_at (heap(p \<mapsto> m\<lparr>tn_next := tn_next n\<rparr>)) a (us @ (p, i) # ws)"
  using assms
proof (induction us arbitrary: a)
  case Nil
  then have at: "a = p" "p \<noteq> 0" "info m = i" "nodes_at heap (tn_next n) ws" "p \<notin> fst ` set ws" by auto
  have "nodes_at (heap(p \<mapsto> m\<lparr>tn_next := tn_next n\<rparr>)) (tn_next n) ws" using at(4,5) by (subst nodes_at_other)
  moreover have "info (m\<lparr>tn_next := tn_next n\<rparr>) = i" using at(3) by (simp add: info_def)
  moreover have "tn_next (m\<lparr>tn_next := tn_next n\<rparr>) = tn_next n" by simp
  ultimately have "\<exists>k. (heap(p \<mapsto> m\<lparr>tn_next := tn_next n\<rparr>)) p = Some k \<and> info k = i \<and>
      nodes_at (heap(p \<mapsto> m\<lparr>tn_next := tn_next n\<rparr>)) (tn_next k) ws"
    by (intro exI [of _ "m\<lparr>tn_next := tn_next n\<rparr>"]) (simp only: fun_upd_same simp_thms)
  then show ?case unfolding append_Nil nodes_at.simps using at(1,2) by blast
next
  case (Cons u us)
  then show ?case by (cases u) auto
qed

lemma start_timer_at:
  assumes "timers_ok t xs" "new \<noteq> 0" "tm_heap t new = None" "fd \<noteq> -1" "tm_open t fd = None"
  shows "\<exists>t'. start_timer new fd interval h type t = (new, t') \<and> timers_ok t' ((new, fd, h, interval, type) # xs)"
proof -
  have new: "new \<notin> fst ` set xs" using assms(1,3) by (auto simp: timers_ok_def domIff)
  have "fst ` set (map descriptor xs) = (\<lambda>x. fst (snd x)) ` set xs"
    by (force simp: descriptor_def image_image split: prod.split)
  moreover have "fd \<notin> fst ` set (map descriptor xs)"
    unfolding map_of_eq_None_iff [symmetric] using assms(1,5) by (simp add: timers_ok_def)
  ultimately have fd: "fd \<notin> (\<lambda>x. fst (snd x)) ` set xs" by simp
  define node where "node = \<lparr>tn_fd = fd, tn_callback = h, tn_interval = interval, tn_type = type, tn_next = g_head t\<rparr>"
  let ?x = "(new, fd, h, interval, type)" and ?heap = "(tm_heap t)(new \<mapsto> node)"
  let ?t = "\<lparr>tm_heap = ?heap, g_head = new, tm_open = (tm_open t)(fst (descriptor ?x) \<mapsto> snd (descriptor ?x))\<rparr>"
  have run: "start_timer new fd interval h type t = (new, ?t)"
    using assms(2,4) by (cases t) (simp add: start_timer_def descriptor_def expiry_def node_def Let_def)
  have "nodes_at ?heap (g_head t) xs" using nodes_at_other [OF new] assms(1) unfolding timers_ok_def by blast
  then have "nodes_at ?heap new (?x # xs)" using assms(2) by (simp add: node_def info_def)
  moreover have "tm_open t = map_of (map descriptor xs)" "dom (tm_heap t) = fst ` set xs"
    "distinct (map fst xs)" "distinct (map (\<lambda>x. fst (snd x)) xs)" using assms(1) by (auto simp: timers_ok_def)
  ultimately have "timers_ok ?t (?x # xs)"
    using new fd unfolding timers_ok_def by (simp add: map_of.simps(2) [of "descriptor ?x"] del: nodes_at.simps)
  then show ?thesis using run by blast
qed


lemma open_without:
  assumes "distinct (map (\<lambda>x. fst (snd x)) xs)" "(y, fd, j) \<in> set xs" "distinct (map fst xs)"
  shows "(map_of (map descriptor xs))(fd := None) = map_of (map descriptor (filter (\<lambda>x. fst x \<noteq> y) xs))"
proof
  fix k
  have key: "fst (descriptor x) = fst (snd x)" for x :: "nat \<times> 'a timer_info"
    by (cases x) (auto simp: descriptor_def)
  show "((map_of (map descriptor xs))(fd := None)) k = map_of (map descriptor (filter (\<lambda>x. fst x \<noteq> y) xs)) k"
    using assms
  proof (induction xs)
    case (Cons x xs)
    show ?case
    proof (cases "fst x = y")
      case True
      then have x: "x = (y, fd, j)" using Cons.prems(2,3) by (metis (no_types) Pair_inject distinct.simps(2)
            fst_conv image_eqI list.simps(9) list.set_map set_ConsD)
      then have "filter (\<lambda>z. fst z \<noteq> y) xs = xs" using Cons.prems(3) by (auto simp: filter_id_conv)
      moreover have "fd \<notin> fst ` set (map descriptor xs)"
        using Cons.prems(1) x by (simp add: key image_image)
      then have "map_of (map descriptor xs) fd = None" by (simp add: map_of_eq_None_iff)
      moreover have "fst (descriptor x) = fd" using x by (simp add: key)
      ultimately show ?thesis using True by (simp add: map_of.simps(2) [of "descriptor x"] split_beta)
    next
      case False
      then have "(y, fd, j) \<in> set xs" using Cons.prems(2) by auto
      moreover have "fd \<in> (\<lambda>x. fst (snd x)) ` set xs" using \<open>(y, fd, j) \<in> set xs\<close> by (rule rev_image_eqI) simp
      then have "fst (descriptor x) \<noteq> fd" using Cons.prems(1) by (auto simp: key)
      ultimately show ?thesis using Cons.IH Cons.prems(1,3) False
        by (cases "descriptor x") (simp del: fun_upd_apply, auto)
    qed
  qed simp
qed

lemma filter_first: "distinct (map fst (x # xs)) \<Longrightarrow> filter (\<lambda>z. fst z \<noteq> fst x) (x # xs) = xs"
proof -
  assume d: "distinct (map fst (x # xs))"
  have "fst z \<noteq> fst x" if "z \<in> set xs" for z
    using d imageI [OF that, of fst] by (simp, elim conjE) (erule swap, simp)
  then have "\<forall>z \<in> set xs. fst z \<noteq> fst x" by blast
  then have "filter (\<lambda>z. fst z \<noteq> fst x) xs = xs" by (rule filter_True)
  then show ?thesis by simp
qed

lemma split_before: "y \<in> fst ` set xs \<Longrightarrow> \<exists>us j ws. xs = us @ (y, j) # ws"
  by (metis imageE prod.collapse split_list)

lemma unlink_at:
  assumes "nodes_at (tm_heap t) (g_head t) (us @ (y, j) # ws)" "distinct (map fst (us @ (y, j) # ws))"
    "tm_heap t y = Some n"
  shows "\<exists>heap a. unlink y n t = Some (Inr (t\<lparr>tm_heap := heap, g_head := a\<rparr>)) \<and>
    nodes_at heap a (us @ ws) \<and> dom heap = dom (tm_heap t)"
proof (cases us rule: rev_cases)
  case Nil
  then have at: "g_head t = y" "nodes_at (tm_heap t) (tn_next n) ws" using assms by auto
  then show ?thesis using Nil by (intro exI [of _ "tm_heap t"] exI [of _ "tn_next n"]) (simp add: unlink_def)
next
  case (snoc vs x)
  obtain p i where x: "x = (p, i)" by (cases x)
  have at: "nodes_at (tm_heap t) (g_head t) (vs @ (p, i) # (y, j) # ws)"
    "distinct (map fst (vs @ (p, i) # (y, j) # ws))" using assms(1,2) by (simp_all add: snoc x)
  obtain m where m: "tm_heap t p = Some m" "p \<noteq> 0" using nodes_at_in [OF at(1), of p i] by auto
  have "g_head t \<noteq> y" using nodes_at_head [OF at(1)] at(2) by (cases vs) auto
  then have "unlink y n t = Some (Inr (t\<lparr>tm_heap := (tm_heap t)(p \<mapsto> m\<lparr>tn_next := tn_next n\<rparr>)\<rparr>))"
    using m by (simp add: unlink_def find_previous_at [OF at])
  moreover have "nodes_at ((tm_heap t)(p \<mapsto> m\<lparr>tn_next := tn_next n\<rparr>)) (g_head t) (us @ ws)"
    using nodes_at_unlink [OF at assms(3) m(1)] by (simp add: snoc x)
  ultimately show ?thesis using m(1)
    by (intro exI [of _ "(tm_heap t)(p \<mapsto> m\<lparr>tn_next := tn_next n\<rparr>)"] exI [of _ "g_head t"]) auto
qed

lemma stop_timer_at:
  assumes "timers_ok t xs" "y \<in> fst ` set xs"
  shows "\<exists>t'. stop_timer y t = Some (Inr t') \<and> timers_ok t' (filter (\<lambda>x. fst x \<noteq> y) xs)"
proof -
  obtain us j ws where xs: "xs = us @ (y, j) # ws" using split_before [OF assms(2)] by blast
  have ok: "nodes_at (tm_heap t) (g_head t) (us @ (y, j) # ws)" "distinct (map fst (us @ (y, j) # ws))"
    "dom (tm_heap t) = fst ` set xs" "distinct (map (\<lambda>x. fst (snd x)) xs)" "tm_open t = map_of (map descriptor xs)"
    using assms(1) unfolding timers_ok_def xs by auto
  obtain n where n: "tm_heap t y = Some n" "info n = j" "y \<noteq> 0" using nodes_at_in [OF ok(1), of y j] by auto
  let ?t = "t\<lparr>tm_open := (tm_open t)(tn_fd n := None)\<rparr>"
  obtain heap a where u: "unlink y n ?t = Some (Inr (?t\<lparr>tm_heap := heap, g_head := a\<rparr>))" "nodes_at heap a (us @ ws)"
    "dom heap = dom (tm_heap t)"
    using unlink_at [of ?t us y j ws n] ok(1,2) n(1) by auto
  have y: "y \<notin> fst ` set (us @ ws)" using ok(2) by auto
  then have "filter (\<lambda>x. fst x \<noteq> y) (us @ ws) = us @ ws" by (intro filter_True) auto
  then have rest: "filter (\<lambda>x. fst x \<noteq> y) xs = us @ ws" by (simp add: xs)
  let ?t' = "?t\<lparr>tm_heap := heap(y := None), g_head := a\<rparr>"
  have "stop_timer y t = Some (Inr ?t')" using n u(1) by (simp add: stop_timer_def Let_def)
  moreover have "nodes_at (heap(y := None)) a (us @ ws)" using u(2) y by (subst nodes_at_other)
  moreover have "tm_open ?t' = map_of (map descriptor (us @ ws))"
  proof -
    have "(y, tn_fd n, snd j) \<in> set xs" using n(2) by (auto simp: xs info_def)
    from open_without [OF ok(4) this] ok(2) show ?thesis unfolding rest ok(5) [symmetric] by (simp add: xs)
  qed
  moreover have "dom (heap(y := None)) = fst ` set (us @ ws)" using u(3) ok(3) y by (auto simp: xs)
  moreover have "distinct (map fst (us @ ws))" "distinct (map (\<lambda>x. fst (snd x)) (us @ ws))"
    using ok(2,4) by (auto simp: xs)
  ultimately show ?thesis unfolding rest timers_ok_def by (intro exI [of _ ?t']) simp
qed


section \<open>Reading the list\<close>

lemma get_timer_at:
  "nodes_at heap a xs \<Longrightarrow> \<exists>r. get_timer_from_fd heap fd a = Some (Inr r) \<and>
     map_option info r = map_of (map (\<lambda>(_, i). (fst i, i)) xs) fd"
proof (induction xs arbitrary: a)
  case Nil
  then show ?case by (simp add: get_timer_from_fd.simps)
next
  case (Cons x xs)
  obtain y i where x: "x = (y, i)" by (cases x)
  with Cons.prems obtain n where n: "a = y" "y \<noteq> 0" "heap y = Some n" "info n = i" "nodes_at heap (tn_next n) xs" by auto
  have "fst i = tn_fd n" using n(4) by (auto simp: info_def)
  then show ?case
    using Cons.IH [OF n(5)] n(1-4) x by (subst get_timer_from_fd.simps) auto
qed

lemma poll_set_at:
  "nodes_at heap a xs \<Longrightarrow> length ufds \<le> MAX_TIMER_COUNT \<Longrightarrow> poll_set heap ufds a =
     Some (if length ufds + length xs \<le> MAX_TIMER_COUNT then Inr (ufds @ map (\<lambda>x. fst (snd x)) xs) else Inl OutOfBounds)"
proof (induction xs arbitrary: a ufds)
  case Nil
  then show ?case by (simp add: poll_set.simps)
next
  case (Cons x xs)
  obtain y i where x: "x = (y, i)" by (cases x)
  with Cons.prems obtain n where n: "a = y" "y \<noteq> 0" "heap y = Some n" "info n = i" "nodes_at heap (tn_next n) xs" by auto
  have "fst i = tn_fd n" using n(4) by (auto simp: info_def)
  then show ?case
    using Cons.IH [OF n(5), of "ufds @ [tn_fd n]"] n(1-3) x Cons.prems(2) by (subst poll_set.simps) auto
qed

definition callbacks :: "(c_int \<Rightarrow> bool) \<Rightarrow> (nat \<times> 'h timer_info) list \<Rightarrow> 'h list" where
  "callbacks ready xs =
     concat (map (\<lambda>(_, fd, cb, _). if ready fd then (case cb of None \<Rightarrow> [] | Some h \<Rightarrow> [h]) else []) xs)"

lemma fire_ready_at:
  assumes "nodes_at (tm_heap t) (g_head t) xs" "distinct (map (\<lambda>x. fst (snd x)) xs)" "set ys \<subseteq> set xs"
  shows "fire_ready t (filter ready (map (\<lambda>x. fst (snd x)) ys)) = Some (Inr (callbacks ready ys))"
  using assms(3)
proof (induction ys)
  case (Cons y ys)
  obtain a fd cb r where y: "y = (a, fd, cb, r)" by (cases y)
  obtain n where n: "get_timer_from_fd (tm_heap t) fd (g_head t) = Some (Inr n)"
    "map_option info n = map_of (map (\<lambda>(_, i). (fst i, i)) xs) fd"
    using get_timer_at [OF assms(1), of fd] by blast
  have "distinct (map fst (map (\<lambda>(_, i). (fst i, i)) xs))" using assms(2) by (simp add: case_prod_unfold comp_def)
  moreover have "(fd, (fd, cb, r)) \<in> set (map (\<lambda>(_, i). (fst i, i)) xs)" using Cons.prems y by force
  ultimately have "map_option info n = Some (fd, cb, r)" unfolding n(2) by (rule map_of_is_SomeI)
  then obtain k where "n = Some k" "tn_callback k = cb" by (auto simp: info_def)
  then show ?case using Cons.IH Cons.prems n(1) y by (simp add: callbacks_def)
qed (simp add: callbacks_def)

lemma finalize_timer_at:
  "timers_ok t xs \<Longrightarrow> \<exists>t'. finalize_timer t = Some (Inr t') \<and> timers_ok t' []"
proof (induction xs arbitrary: t)
  case Nil
  then show ?case by (subst finalize_timer.simps) (simp add: timers_ok_def)
next
  case (Cons x xs)
  have x: "g_head t = fst x" "fst x \<noteq> 0" "distinct (map fst (x # xs))"
    using Cons.prems by (cases x; auto simp: timers_ok_def)+
  have rest: "filter (\<lambda>z. fst z \<noteq> fst x) (x # xs) = xs" using x(3) by (rule filter_first)
  obtain t1 where t1: "stop_timer (fst x) t = Some (Inr t1)" "timers_ok t1 xs"
    using stop_timer_at [OF Cons.prems, of "fst x"] unfolding rest by auto
  show ?case using Cons.IH [OF t1(2)] x t1(1) by (subst finalize_timer.simps) simp
qed

section \<open>The interface of a timer service\<close>

text \<open>
  What the handlers rely on: starting adds one timer, stopping removes one. Their use of it is
  two timers around a wait.
\<close>

locale timer_service =
  fixes start :: "'a \<Rightarrow> 't \<Rightarrow> 'i \<times> 't"
    and stop :: "'i \<Rightarrow> 't \<Rightarrow> (fault + 't) option"
    and holds :: "'t \<Rightarrow> ('i \<times> 'b) list \<Rightarrow> bool"
    and fresh :: "'a \<Rightarrow> 't \<Rightarrow> bool"
    and made :: "'a \<Rightarrow> 'i \<times> 'b"
  assumes start_law: "holds t xs \<Longrightarrow> fresh a t \<Longrightarrow> \<exists>t'. start a t = (fst (made a), t') \<and> holds t' (made a # xs)"
    and stop_law: "holds t xs \<Longrightarrow> i \<in> fst ` set xs \<Longrightarrow>
      \<exists>t'. stop i t = Some (Inr t') \<and> holds t' (filter (\<lambda>x. fst x \<noteq> i) xs)"
    and ids_distinct: "holds t xs \<Longrightarrow> distinct (map fst xs)"
begin

lemma wait_balanced:
  assumes "holds t xs" "fresh a t" "\<And>t1. start a t = (fst (made a), t1) \<Longrightarrow> fresh b t1"
  shows "\<exists>t1 t2. start a t = (fst (made a), t1) \<and> start b t1 = (fst (made b), t2) \<and>
    holds t2 (made b # made a # xs) \<and>
    (\<exists>t3 t4. stop (fst (made b)) t2 = Some (Inr t3) \<and> stop (fst (made a)) t3 = Some (Inr t4) \<and> holds t4 xs)"
proof -
  obtain t1 where t1: "start a t = (fst (made a), t1)" "holds t1 (made a # xs)"
    using start_law [OF assms(1,2)] by blast
  obtain t2 where t2: "start b t1 = (fst (made b), t2)" "holds t2 (made b # made a # xs)"
    using start_law [OF t1(2) assms(3) [OF t1(1)]] by blast
  have other: "filter (\<lambda>x. fst x \<noteq> fst y) (y # ys) = ys" if "holds u (y # ys)" for u y ys
    using ids_distinct [OF that] by (rule filter_first)
  obtain t3 where t3: "stop (fst (made b)) t2 = Some (Inr t3)" "holds t3 (made a # xs)"
    using stop_law [OF t2(2), of "fst (made b)"] unfolding other [OF t2(2)] by auto
  obtain t4 where "stop (fst (made a)) t3 = Some (Inr t4)" "holds t4 xs"
    using stop_law [OF t3(2), of "fst (made a)"] unfolding other [OF t3(2)] by auto
  then show ?thesis using t1(1) t2 t3(1) by blast
qed

end

text \<open>A request for a timer, with what the system gives for it: an unused address and descriptor.\<close>

type_synonym 'h timer_request = "nat \<times> 'h timer_info"

definition start_request :: "'h timer_request \<Rightarrow> 'h timers \<Rightarrow> nat \<times> 'h timers" where
  "start_request r t = (case r of (a, fd, h, interval, type) \<Rightarrow> start_timer a fd interval h type t)"

definition unused :: "'h timer_request \<Rightarrow> 'h timers \<Rightarrow> bool" where
  "unused r t \<longleftrightarrow> fst r \<noteq> 0 \<and> tm_heap t (fst r) = None \<and> fst (snd r) \<noteq> -1 \<and> tm_open t (fst (snd r)) = None"

interpretation tm: timer_service start_request stop_timer timers_ok unused "\<lambda>r. r"
proof unfold_locales
  fix t :: "'h timers" and xs r i
  show "timers_ok t xs \<Longrightarrow> unused r t \<Longrightarrow> \<exists>t'. start_request r t = (fst r, t') \<and> timers_ok t' (r # xs)"
    using start_timer_at [of t xs "fst r" "fst (snd r)"] by (cases r) (simp add: start_request_def unused_def)
  show "timers_ok t xs \<Longrightarrow> i \<in> fst ` set xs \<Longrightarrow>
      \<exists>t'. stop_timer i t = Some (Inr t') \<and> timers_ok t' (filter (\<lambda>x. fst x \<noteq> i) xs)"
    by (rule stop_timer_at)
  show "timers_ok t xs \<Longrightarrow> distinct (map fst xs)" by (simp add: timers_ok_def)
qed


section \<open>Properties\<close>

text \<open>
  C27: the linked list is a list. On a well-formed heap that holds the timers xs, starting a timer with
  an unused address and descriptor puts it in front, stopping one of them removes it, closes its
  descriptor and releases its node, and nothing else; stopping an address that holds no node reads
  released memory. So the two timers around a wait leave the list as it was.
\<close>

theorem timer_list_refines:
  assumes "timers_ok t xs" "unused r t" "i \<in> fst ` set xs" "d \<noteq> 0" "d \<notin> fst ` set xs"
  shows "(\<exists>t'. start_request r t = (fst r, t') \<and> timers_ok t' (r # xs) \<and>
      (\<forall>b. unused b t' \<longrightarrow> (\<exists>t2 t3 t4. start_request b t' = (fst b, t2) \<and> stop_timer (fst b) t2 = Some (Inr t3) \<and>
        stop_timer (fst r) t3 = Some (Inr t4) \<and> timers_ok t4 xs))) \<and>
    (\<exists>t'. stop_timer i t = Some (Inr t') \<and> timers_ok t' (filter (\<lambda>x. fst x \<noteq> i) xs)) \<and>
    stop_timer d t = Some (Inl UseAfterFree)"
proof (intro conjI)
  obtain t' where t': "start_request r t = (fst r, t')" "timers_ok t' (r # xs)"
    using tm.start_law [OF assms(1,2)] by auto
  have "\<exists>t2 t3 t4. start_request b t' = (fst b, t2) \<and> stop_timer (fst b) t2 = Some (Inr t3) \<and>
      stop_timer (fst r) t3 = Some (Inr t4) \<and> timers_ok t4 xs" if "unused b t'" for b
    using tm.wait_balanced [OF assms(1,2), of b] t'(1) that by auto
  with t' show "\<exists>t'. start_request r t = (fst r, t') \<and> timers_ok t' (r # xs) \<and>
      (\<forall>b. unused b t' \<longrightarrow> (\<exists>t2 t3 t4. start_request b t' = (fst b, t2) \<and> stop_timer (fst b) t2 = Some (Inr t3) \<and>
        stop_timer (fst r) t3 = Some (Inr t4) \<and> timers_ok t4 xs))" by blast
  show "\<exists>t'. stop_timer i t = Some (Inr t') \<and> timers_ok t' (filter (\<lambda>x. fst x \<noteq> i) xs)"
    by (rule stop_timer_at [OF assms(1,3)])
  have "tm_heap t d = None" using assms(1,5) by (auto simp: timers_ok_def)
  then show "stop_timer d t = Some (Inl UseAfterFree)" using assms(4) by (simp add: stop_timer_def)
qed

text \<open>A list of two timers for the witnesses.\<close>

definition no_timers :: "string timers" where
  "no_timers = \<lparr>tm_heap = (\<lambda>a. None), g_head = 0, tm_open = (\<lambda>fd. None)\<rparr>"

definition poll_request :: "string timer_request" where
  "poll_request = (64, 5, Some ''poll'', 1500, TIMER_PERIODIC)"

definition timeout_request :: "string timer_request" where
  "timeout_request = (128, 6, Some ''timeout'', 60000, TIMER_SINGLE_SHOT)"

definition two_timers :: "string timers" where
  "two_timers = snd (start_request timeout_request (snd (start_request poll_request no_timers)))"

lemma two_timers_ok: "timers_ok two_timers [timeout_request, poll_request]"
proof -
  have "timers_ok no_timers []" by (simp add: timers_ok_def no_timers_def)
  then obtain t1 where t1: "start_request poll_request no_timers = (64, t1)" "timers_ok t1 [poll_request]"
    using tm.start_law [of no_timers "[]" poll_request]
    by (auto simp: unused_def no_timers_def poll_request_def)
  have "unused timeout_request t1"
    using t1(1) by (auto simp: unused_def timeout_request_def start_request_def poll_request_def start_timer_def
        no_timers_def Let_def)
  then obtain t2 where "start_request timeout_request t1 = (128, t2)" "timers_ok t2 [timeout_request, poll_request]"
    using tm.start_law [OF t1(2), of timeout_request] by (auto simp: timeout_request_def)
  then show ?thesis by (simp add: two_timers_def t1(1))
qed

theorem timer_list_refines_witness:
  "(\<exists>t'. stop_timer 64 two_timers = Some (Inr t') \<and> timers_ok t' [timeout_request]) \<and>
   stop_timer 192 two_timers = Some (Inl UseAfterFree)"
proof -
  have "dom (tm_heap two_timers) = {128, 64}" "tm_open two_timers 7 = None"
    using two_timers_ok by (auto simp: timers_ok_def timeout_request_def poll_request_def descriptor_def)
  then have "tm_heap two_timers 256 = None \<and> tm_open two_timers 7 = None"
    using domIff [of 256 "tm_heap two_timers"] by simp
  then have "unused (256, 7, None, 100, TIMER_SINGLE_SHOT) two_timers" by (simp add: unused_def)
  from timer_list_refines [OF two_timers_ok this, of 64 192] show ?thesis
    by (auto simp: timeout_request_def poll_request_def)
qed

text \<open>
  Finalising ends. Whatever timers the list holds, the loop returns, with an empty list, no node
  allocated and no descriptor open.
\<close>

theorem finalize_returns:
  assumes "timers_ok t xs"
  shows "\<exists>t'. finalize_timer t = Some (Inr t') \<and> g_head t' = 0 \<and> (\<forall>a. tm_heap t' a = None) \<and> (\<forall>fd. tm_open t' fd = None)"
proof -
  obtain t' where "finalize_timer t = Some (Inr t')" "timers_ok t' []" using finalize_timer_at [OF assms] by blast
  then show ?thesis by (auto simp: timers_ok_def)
qed

theorem finalize_returns_witness:
  "\<exists>t'. finalize_timer two_timers = Some (Inr t') \<and> g_head t' = 0"
  using finalize_returns [OF two_timers_ok] by blast

text \<open>
  A round of the timer thread. With at most 1000 timers, exactly the callbacks of the timers whose
  descriptors are ready are called, each once, the newest timer first; one timer more and the array of
  descriptors is written behind its end. The timers stay in the list, those for a single shot, too.
\<close>

theorem timer_round_spec:
  assumes "timers_ok t xs"
  shows "timer_round ready t =
    Some (if length xs \<le> MAX_TIMER_COUNT then Inr (callbacks ready xs) else Inl OutOfBounds)"
proof -
  have l: "nodes_at (tm_heap t) (g_head t) xs" "distinct (map (\<lambda>x. fst (snd x)) xs)"
    using assms by (simp_all add: timers_ok_def)
  show ?thesis
    using poll_set_at [OF l(1), of "[]"] fire_ready_at [OF l, of xs ready] by (simp add: timer_round_def)
qed

theorem timer_round_spec_witness:
  "timer_round (\<lambda>fd. fd = 5) two_timers = Some (Inr [''poll''])"
  using timer_round_spec [OF two_timers_ok, of "\<lambda>fd. fd = 5"]
  by (simp add: callbacks_def timeout_request_def poll_request_def)

end
