(* ===== verification/Interleave.thy ===== *)
theory Interleave
  imports Route Iptables "HOL-Library.Multiset"
begin

text \<open>
  No code of its own: the operations that read a setting file, extend its list and write it back, run by
  several threads at once. Each handler is started in a thread (\<open>Dispatch\<close>), and \<open>file.c\<close> locks a read and a
  write one by one, so other threads run between them. A thread is its next atomic action and what
  follows; a schedule says whose turn it is.
\<close>

section \<open>Threads\<close>

datatype 's thread = Done | Step "'s \<Rightarrow> (fault + 's thread) \<times> 's"

definition atomic :: "('s, 'a) io \<Rightarrow> ('a \<Rightarrow> 's thread) \<Rightarrow> 's thread" where
  "atomic m k = Step (\<lambda>s. case m s of (Inl f, t) \<Rightarrow> (Inl f, t) | (Inr x, t) \<Rightarrow> (Inr (k x), t))"

primrec atomic_fold :: "('b \<Rightarrow> 'a \<Rightarrow> ('s, 'b) io) \<Rightarrow> 'b \<Rightarrow> 'a list \<Rightarrow> ('b \<Rightarrow> 's thread) \<Rightarrow> 's thread" where
  "atomic_fold f b [] k = k b"
| "atomic_fold f b (x # xs) k = atomic (f b x) (\<lambda>b'. atomic_fold f b' xs k)"

text \<open>A thread that is alone.\<close>

primrec solo :: "'s thread \<Rightarrow> ('s, unit) io" where
  "solo Done = io_ret ()"
| "solo (Step f) = (\<lambda>s. case map_prod (map_sum (\<lambda>e. e) solo) (\<lambda>t. t) (f s) of (Inl e, t) \<Rightarrow> (Inl e, t) | (Inr m, t) \<Rightarrow> m t)"

text \<open>Several threads: an entry of the schedule is the number of the one that makes its next action.\<close>

fun run_schedule :: "nat list \<Rightarrow> 's thread list \<Rightarrow> ('s, 's thread list) io" where
  "run_schedule [] ts s = (Inr ts, s)"
| "run_schedule (i # is) ts s =
     (if i < length ts
      then (case ts ! i of
              Done \<Rightarrow> run_schedule is ts s
            | Step f \<Rightarrow> (case f s of (Inl e, t) \<Rightarrow> (Inl e, t) | (Inr u, t) \<Rightarrow> run_schedule is (ts[i := u]) t))
      else run_schedule is ts s)"

lemma solo_atomic: "solo (atomic m k) = io_bind m (\<lambda>x. solo (k x))"
  by (rule ext) (simp add: atomic_def io_bind_app split: prod.split sum.split)

lemma solo_fold: "solo (atomic_fold f b xs k) = io_bind (io_fold f b xs) (\<lambda>b'. solo (k b'))"
  by (induction xs arbitrary: b) (auto simp: solo_atomic io_simps io_bind_app split: prod.split sum.split intro!: ext)


section \<open>Operations that extend a stored list\<close>

text \<open>
  Read the list, give the new elements identifiers one by one, write the longer list, and do what follows a
  write. Every one of these is an action of its own.
\<close>

record ('s, 'x) creator =
  cr_read :: "('s, c_int \<times> 'x list) io"
  cr_one :: "'x list \<Rightarrow> 'x \<Rightarrow> ('s, 'x list) io"
  cr_save :: "'x list \<Rightarrow> ('s, c_int) io"
  cr_after :: "('s, c_int) io"

definition create_thread :: "('s, 'x) creator \<Rightarrow> 'x list \<Rightarrow> 's thread" where
  "create_thread C new =
     atomic (cr_read C) (\<lambda>(err, setting).
     if err \<noteq> ERR_SUCCESS then Done
     else atomic_fold (cr_one C) setting new (\<lambda>setting'.
       atomic (cr_save C setting') (\<lambda>err.
       if err \<noteq> ERR_SUCCESS then Done else atomic (cr_after C) (\<lambda>err. Done))))"

text \<open>
  Where such a thread is: before the read; with the list it has read, the elements it has made and those it
  has not; after the write of its elements; at its end.
\<close>

datatype 'x phase = Start | Work "'x list" "'x list" "'x list" | Wrote "'x list" | Ended "'x list"

fun thread_at :: "('s, 'x) creator \<Rightarrow> 'x list \<Rightarrow> 'x phase \<Rightarrow> 's thread" where
  "thread_at C new Start = create_thread C new"
| "thread_at C new (Work base acc rest) = atomic_fold (cr_one C) (base @ acc) rest (\<lambda>setting'.
     atomic (cr_save C setting') (\<lambda>err. if err \<noteq> ERR_SUCCESS then Done else atomic (cr_after C) (\<lambda>err. Done)))"
| "thread_at C new (Wrote acc) = atomic (cr_after C) (\<lambda>err. Done)"
| "thread_at C new (Ended acc) = Done"

fun written :: "'x phase \<Rightarrow> 'x list option" where
  "written (Wrote acc) = Some acc"
| "written (Ended acc) = Some acc"
| "written p = None"

fun to_make :: "'x list \<Rightarrow> 'x phase \<Rightarrow> 'x list" where
  "to_make new Start = new"
| "to_make new (Work base acc rest) = rest"
| "to_make new p = []"

text \<open>
  The contract: \<open>stored\<close> says what the file holds, \<open>same\<close> that two elements differ only in their identifiers,
  \<open>effects\<close> are the effects outside the file, and \<open>adds\<close> those of making an element.
\<close>

locale list_creator =
  fixes C :: "('s, 'x) creator"
    and stored :: "'s \<Rightarrow> 'x list \<Rightarrow> bool"
    and ok :: "'x \<Rightarrow> bool"
    and sound :: "'x \<Rightarrow> bool"
    and same :: "'x \<Rightarrow> 'x \<Rightarrow> bool"
    and effects :: "'s \<Rightarrow> 'e multiset"
    and adds :: "'x \<Rightarrow> 'e multiset"
  assumes same_sound: "same x y \<Longrightarrow> ok x \<Longrightarrow> sound y"
    and stored_sound: "stored s xs \<Longrightarrow> x \<in> set xs \<Longrightarrow> sound x"
    and read_law: "stored s xs \<Longrightarrow> cr_read C s = (Inr (ERR_SUCCESS, xs), s)"
    and one_law: "stored s xs \<Longrightarrow> ok x \<Longrightarrow> \<exists>y t. cr_one C acc x s = (Inr (acc @ [y]), t) \<and> same x y \<and> stored t xs \<and>
      effects t = effects s + adds x"
    and save_law: "stored s xs \<Longrightarrow> \<forall>y \<in> set ys. sound y \<Longrightarrow>
      \<exists>t. cr_save C ys s = (Inr ERR_SUCCESS, t) \<and> stored t ys \<and> effects t = effects s"
    and after_law: "stored s xs \<Longrightarrow> \<exists>e t. cr_after C s = (Inr e, t) \<and> stored t xs \<and> effects t = effects s"
begin

text \<open>
  The invariant of several threads: the file holds the old list followed by what some of the threads that
  have written wrote, each once, and every thread at work has read such a list.
\<close>

definition chain :: "'x list \<Rightarrow> 'x phase list \<Rightarrow> 'x list \<Rightarrow> bool" where
  "chain old ps xs \<longleftrightarrow> (\<exists>ws. distinct ws \<and> (\<forall>i \<in> set ws. i < length ps \<and> written (ps ! i) \<noteq> None) \<and>
     xs = old @ concat (map (\<lambda>i. the (written (ps ! i))) ws))"

fun phase_ok :: "'x list \<Rightarrow> 'x phase list \<Rightarrow> 'x list \<Rightarrow> 'x phase \<Rightarrow> bool" where
  "phase_ok old ps new Start \<longleftrightarrow> True"
| "phase_ok old ps new (Work base acc rest) \<longleftrightarrow>
     chain old ps base \<and> (\<forall>x \<in> set base. sound x) \<and> (\<exists>pre. new = pre @ rest \<and> list_all2 same pre acc)"
| "phase_ok old ps new (Wrote acc) \<longleftrightarrow> list_all2 same new acc"
| "phase_ok old ps new (Ended acc) \<longleftrightarrow> list_all2 same new acc"

definition pending :: "'x list list \<Rightarrow> 'x phase list \<Rightarrow> 'e multiset" where
  "pending reqs ps = (\<Sum>i<length reqs. sum_list (map adds (to_make (reqs ! i) (ps ! i))))"

definition ends_written :: "'x phase list \<Rightarrow> 'x list \<Rightarrow> bool" where
  "ends_written ps xs \<longleftrightarrow> (\<forall>p \<in> set ps. written p = None) \<or>
     (\<exists>i < length ps. \<exists>acc. written (ps ! i) = Some acc \<and> suffix acc xs)"

definition threads_inv :: "'x list \<Rightarrow> 'x list list \<Rightarrow> 'e multiset \<Rightarrow> 's \<Rightarrow> 'x phase list \<Rightarrow> bool" where
  "threads_inv old reqs tot s ps \<longleftrightarrow>
     length ps = length reqs \<and>
     (\<exists>xs. stored s xs \<and> chain old ps xs \<and> ends_written ps xs) \<and>
     (\<forall>i < length ps. phase_ok old ps (reqs ! i) (ps ! i)) \<and>
     effects s + pending reqs ps = tot"

lemma chain_update:
  assumes "chain old ps xs" "i < length ps" "written (ps ! i) = None \<or> written (ps ! i) = written p"
  shows "chain old (ps[i := p]) xs"
proof -
  obtain ws where ws: "distinct ws" "\<forall>k \<in> set ws. k < length ps \<and> written (ps ! k) \<noteq> None"
    "xs = old @ concat (map (\<lambda>k. the (written (ps ! k))) ws)"
    using assms(1) by (auto simp: chain_def)
  have eq: "written (ps[i := p] ! k) = written (ps ! k)" if "k \<in> set ws" for k
    using ws(2) that assms(2,3) by (cases "k = i") auto
  show ?thesis unfolding chain_def
    by (intro exI [of _ ws] conjI) (use ws eq in \<open>simp_all cong: map_cong\<close>)
qed

lemma chain_extend:
  assumes "chain old ps base" "i < length ps" "written (ps ! i) = None"
  shows "chain old (ps[i := Wrote acc]) (base @ acc)"
proof -
  obtain ws where ws: "distinct ws" "\<forall>k \<in> set ws. k < length ps \<and> written (ps ! k) \<noteq> None"
    "base = old @ concat (map (\<lambda>k. the (written (ps ! k))) ws)"
    using assms(1) by (auto simp: chain_def)
  have i: "i \<notin> set ws" using ws(2) assms(3) by auto
  then have eq: "written (ps[i := Wrote acc] ! k) = written (ps ! k)" if "k \<in> set ws" for k
    using that by (metis nth_list_update_neq)
  show ?thesis unfolding chain_def
    by (intro exI [of _ "ws @ [i]"] conjI) (use ws eq i assms(2) in \<open>simp_all cong: map_cong\<close>)
qed

lemma phase_ok_update:
  assumes "phase_ok old ps new q" "i < length ps" "written (ps ! i) = None \<or> written (ps ! i) = written p"
  shows "phase_ok old (ps[i := p]) new q"
  using assms chain_update [OF _ assms(2,3)] by (cases q) auto

lemma pending_update:
  assumes "i < length reqs" "length ps = length reqs"
  shows "pending reqs (ps[i := p]) + sum_list (map adds (to_make (reqs ! i) (ps ! i))) =
    pending reqs ps + sum_list (map adds (to_make (reqs ! i) p))"
proof -
  let ?f = "\<lambda>ps k. sum_list (map adds (to_make (reqs ! k) (ps ! k)))"
  have r: "sum (?f qs) {..<length reqs} = ?f qs i + sum (?f qs) ({..<length reqs} - {i})" for qs
    using assms(1) by (simp add: sum.remove)
  have "sum (?f (ps[i := p])) ({..<length reqs} - {i}) = sum (?f ps) ({..<length reqs} - {i})"
    by (rule sum.cong) auto
  then show ?thesis using r [of ps] r [of "ps[i := p]"] assms by (simp add: pending_def ac_simps)
qed

lemma ends_written_keep:
  assumes "ends_written ps xs" "i < length ps" "written (ps ! i) = written p"
  shows "ends_written (ps[i := p]) xs"
proof -
  have same: "written (ps[i := p] ! k) = written (ps ! k)" if "k < length ps" for k
    using that assms(2,3) by (cases "k = i") simp_all
  show ?thesis
    using assms(1) unfolding ends_written_def all_set_conv_all_nth by (auto simp: same)
qed

lemma exchange:
  fixes e f :: "'e multiset"
  assumes "p' + a = p + b" "f + b = e + a"
  shows "f + p' = e + p"
proof -
  have "f + (p' + a) = (f + b) + p" unfolding assms(1) by (simp only: ac_simps)
  also have "\<dots> = (e + p) + a" unfolding assms(2) by (simp only: ac_simps)
  finally have "(f + p') + a = (e + p) + a" by (simp only: ac_simps)
  then show ?thesis by simp
qed

text \<open>One action of one thread.\<close>

lemma threads_step:
  assumes inv: "threads_inv old reqs tot s ps" and i: "i < length reqs" and ok: "\<forall>x \<in> set (reqs ! i). ok x"
    and not_ended: "\<forall>acc. ps ! i \<noteq> Ended acc"
  shows "\<exists>f p t. thread_at C (reqs ! i) (ps ! i) = Step f \<and> f s = (Inr (thread_at C (reqs ! i) p), t) \<and>
    threads_inv old reqs tot t (ps[i := p])"
proof -
  obtain xs where xs: "stored s xs" "chain old ps xs" "ends_written ps xs"
    and len: "length ps = length reqs" and ph: "\<forall>k < length ps. phase_ok old ps (reqs ! k) (ps ! k)"
    and eff: "effects s + pending reqs ps = tot"
    using inv by (auto simp: threads_inv_def)
  have il: "i < length ps" using i len by simp
  note pend = pending_update [OF i len]
  have keep: "threads_inv old reqs tot t (ps[i := p])"
    if "stored t ys" "chain old (ps[i := p]) ys" "ends_written (ps[i := p]) ys" "phase_ok old (ps[i := p]) (reqs ! i) p"
      "written (ps ! i) = None \<or> written (ps ! i) = written p"
      "effects t + sum_list (map adds (to_make (reqs ! i) p)) = effects s + sum_list (map adds (to_make (reqs ! i) (ps ! i)))"
    for t ys p
  proof -
    have "\<forall>k < length ps. phase_ok old (ps[i := p]) (reqs ! k) (ps[i := p] ! k)"
      using ph that(4,5) phase_ok_update [OF _ il that(5)] il by (metis nth_list_update)
    moreover have "effects t + pending reqs (ps[i := p]) = tot"
      using exchange [OF pend [of p] that(6)] eff by simp
    ultimately show ?thesis using that(1-3) len by (auto simp: threads_inv_def)
  qed
  show ?thesis
  proof (cases "ps ! i")
    case Start
    let ?p = "Work xs [] (reqs ! i)"
    have "threads_inv old reqs tot s (ps[i := ?p])"
      by (rule keep [OF xs(1)])
        (use Start xs il chain_update ends_written_keep stored_sound in auto)
    then show ?thesis using Start read_law [OF xs(1)]
      by (auto simp: create_thread_def atomic_def intro!: exI [of _ ?p])
  next
    case (Work base acc rest)
    from ph il Work obtain pre where w: "chain old ps base" "\<forall>x \<in> set base. sound x" "reqs ! i = pre @ rest" "list_all2 same pre acc"
      by fastforce
    show ?thesis
    proof (cases rest)
      case Nil
      have "\<forall>y \<in> set acc. sound y"
        using w(3,4) ok same_sound Nil by (fastforce simp: list_all2_conv_all_nth in_set_conv_nth)
      then obtain t where t: "cr_save C (base @ acc) s = (Inr ERR_SUCCESS, t)" "stored t (base @ acc)" "effects t = effects s"
        using save_law [OF xs(1), of "base @ acc"] w(2) by auto
      let ?p = "Wrote acc"
      have "threads_inv old reqs tot t (ps[i := ?p])"
      proof (rule keep [OF t(2)])
        show "chain old (ps[i := ?p]) (base @ acc)" by (rule chain_extend [OF w(1) il]) (simp add: Work)
        show "ends_written (ps[i := ?p]) (base @ acc)"
          unfolding ends_written_def using il by (intro disjI2 exI [of _ i]) (simp add: suffix_def)
      qed (use Work Nil w t il in auto)
      then show ?thesis using Work Nil t(1) by (auto simp: atomic_def intro!: exI [of _ ?p])
    next
      case (Cons x rest')
      have "ok x" using ok w(3) Cons by auto
      from one_law [OF xs(1) this, of "base @ acc"] obtain y t where
        t: "cr_one C (base @ acc) x s = (Inr (base @ acc @ [y]), t)" "same x y" "stored t xs" "effects t = effects s + adds x"
        by auto
      let ?p = "Work base (acc @ [y]) rest'"
      have "threads_inv old reqs tot t (ps[i := ?p])"
      proof (rule keep [OF t(3)])
        have "chain old (ps[i := ?p]) base" by (rule chain_update [OF w(1) il]) (simp add: Work)
        then show "phase_ok old (ps[i := ?p]) (reqs ! i) ?p"
          using w(2-4) Cons t(2) by (auto intro: exI [of _ "pre @ [x]"] list_all2_appendI)
      qed (use Work Cons t il xs chain_update ends_written_keep in \<open>auto simp: ac_simps\<close>)
      then show ?thesis using Work Cons t(1) by (auto simp: atomic_def intro!: exI [of _ ?p])
    qed
  next
    case (Wrote acc)
    obtain e t where t: "cr_after C s = (Inr e, t)" "stored t xs" "effects t = effects s" using after_law [OF xs(1)] by blast
    let ?p = "Ended acc"
    have "threads_inv old reqs tot t (ps[i := ?p])"
      by (rule keep [OF t(2)])
        (use Wrote t xs il ph chain_update ends_written_keep in \<open>auto dest: spec [of _ i]\<close>)
    then show ?thesis using Wrote t(1) by (auto simp: atomic_def intro!: exI [of _ ?p])
  next
    case (Ended acc)
    then show ?thesis using not_ended by blast
  qed
qed

lemma threads_run:
  assumes "\<forall>new \<in> set reqs. \<forall>x \<in> set new. ok x"
  shows "threads_inv old reqs tot s ps \<Longrightarrow>
    \<exists>ps' t. run_schedule sch (map2 (thread_at C) reqs ps) s = (Inr (map2 (thread_at C) reqs ps'), t) \<and> threads_inv old reqs tot t ps'"
proof (induction sch arbitrary: s ps)
  case Nil
  then show ?case by auto
next
  case (Cons i sch)
  have len: "length ps = length reqs" using Cons.prems by (simp add: threads_inv_def)
  show ?case
  proof (cases "i < length reqs")
    case False
    then show ?thesis using Cons.IH [OF Cons.prems] len by simp
  next
    case i: True
    have nth: "map2 (thread_at C) reqs ps ! i = thread_at C (reqs ! i) (ps ! i)" using i len by simp
    show ?thesis
    proof (cases "\<exists>acc. ps ! i = Ended acc")
      case True
      then have "thread_at C (reqs ! i) (ps ! i) = Done" by auto
      then show ?thesis using Cons.IH [OF Cons.prems] i len nth by simp
    next
      case False
      have "\<forall>x \<in> set (reqs ! i). ok x" using assms i nth_mem by blast
      from threads_step [OF Cons.prems i this] False obtain f p t where
        f: "thread_at C (reqs ! i) (ps ! i) = Step f" "f s = (Inr (thread_at C (reqs ! i) p), t)"
        "threads_inv old reqs tot t (ps[i := p])" by blast
      have "(map2 (thread_at C) reqs ps)[i := thread_at C (reqs ! i) p] = map2 (thread_at C) reqs (ps[i := p])"
        using i len by (intro nth_equalityI) (auto simp: nth_list_update)
      then show ?thesis using Cons.IH [OF f(3)] f(1,2) i len nth by simp
    qed
  qed
qed

lemma thread_done: "thread_at C new p = Done \<longleftrightarrow> (\<exists>acc. p = Ended acc)"
proof (cases p)
  case (Work base acc rest)
  then show ?thesis by (cases rest) (simp_all add: atomic_def)
qed (simp_all add: create_thread_def atomic_def)

text \<open>Any number of threads, under any schedule.\<close>

lemma simultaneous:
  assumes "stored s old" "\<forall>new \<in> set reqs. \<forall>x \<in> set new. ok x"
  shows "\<exists>ts t ws news. run_schedule sch (map (create_thread C) reqs) s = (Inr ts, t) \<and> length ts = length reqs \<and>
    distinct ws \<and> (\<forall>i \<in> set ws. i < length reqs \<and> list_all2 same (reqs ! i) (news i)) \<and>
    stored t (old @ concat (map news ws)) \<and>
    ((\<forall>u \<in> set ts. u = Done) \<longrightarrow>
      effects t = effects s + sum_list (map adds (concat reqs)) \<and>
      (reqs \<noteq> [] \<longrightarrow> (\<exists>i < length reqs. list_all2 same (reqs ! i) (news i) \<and> suffix (news i) (old @ concat (map news ws)))))"
proof -
  define ps :: "'x phase list" where "ps = replicate (length reqs) Start"
  define tot where "tot = effects s + sum_list (map adds (concat reqs))"
  have "pending reqs ps = sum_list (map adds (concat reqs))"
  proof -
    have "pending reqs ps = (\<Sum>i<length reqs. sum_list (map adds (reqs ! i)))"
      unfolding pending_def ps_def by (rule sum.cong) simp_all
    also have "\<dots> = sum_list (map (\<lambda>new. sum_list (map adds new)) reqs)"
      by (simp add: sum_list_sum_nth atLeast0LessThan)
    also have "\<dots> = sum_list (map adds (concat reqs))" by (induction reqs) simp_all
    finally show ?thesis .
  qed
  moreover have "chain old ps old" unfolding chain_def by (intro exI [of _ "[]"]) simp
  moreover have "ends_written ps old" by (simp add: ends_written_def ps_def)
  ultimately have inv: "threads_inv old reqs tot s ps"
    using assms(1) unfolding threads_inv_def tot_def by (auto simp: ps_def)
  have "map2 (thread_at C) reqs ps = map (create_thread C) reqs"
    unfolding ps_def by (intro nth_equalityI) simp_all
  with threads_run [OF assms(2) inv, of sch] obtain qs t where run:
    "run_schedule sch (map (create_thread C) reqs) s = (Inr (map2 (thread_at C) reqs qs), t)" "threads_inv old reqs tot t qs"
    by auto
  from run(2) obtain xs where xs: "stored t xs" "chain old qs xs" "ends_written qs xs" "length qs = length reqs"
    "\<forall>k < length qs. phase_ok old qs (reqs ! k) (qs ! k)" "effects t + pending reqs qs = tot"
    by (auto simp: threads_inv_def)
  have wrote: "list_all2 same (reqs ! k) acc" if "k < length qs" "written (qs ! k) = Some acc" for k acc
    using xs(5) that by (cases "qs ! k") auto
  define news where "news k = the (written (qs ! k))" for k
  obtain ws where ws: "distinct ws" "\<forall>i \<in> set ws. i < length qs \<and> written (qs ! i) \<noteq> None" "xs = old @ concat (map news ws)"
    using xs(2) unfolding chain_def news_def [symmetric] by blast
  have done_: "effects t = tot \<and> (reqs \<noteq> [] \<longrightarrow> (\<exists>i < length reqs. list_all2 same (reqs ! i) (news i) \<and> suffix (news i) xs))"
    if all: "\<forall>u \<in> set (map2 (thread_at C) reqs qs). u = Done"
  proof -
    have ended: "\<exists>acc. qs ! k = Ended acc" if "k < length reqs" for k
    proof -
      have "thread_at C (reqs ! k) (qs ! k) \<in> set (map2 (thread_at C) reqs qs)"
        using that xs(4) by (auto simp: set_zip intro!: image_eqI [of _ _ "(reqs ! k, qs ! k)"])
      then show ?thesis using all thread_done by blast
    qed
    then have "pending reqs qs = 0" unfolding pending_def by (intro sum.neutral) fastforce
    moreover have "\<exists>i < length reqs. list_all2 same (reqs ! i) (news i) \<and> suffix (news i) xs" if "reqs \<noteq> []"
    proof -
      have "written (qs ! 0) \<noteq> None" "0 < length qs" using ended [of 0] that xs(4) by auto
      then have "\<exists>p \<in> set qs. written p \<noteq> None" by (metis nth_mem)
      then obtain i acc where "i < length qs" "written (qs ! i) = Some acc" "suffix acc xs"
        using xs(3) unfolding ends_written_def by auto
      then show ?thesis using wrote xs(4) by (auto simp: news_def)
    qed
    ultimately show ?thesis using xs(6) by simp
  qed
  have "\<forall>i \<in> set ws. i < length reqs \<and> list_all2 same (reqs ! i) (news i)"
    using ws(2) wrote xs(4) by (auto simp: news_def)
  then show ?thesis
    using run(1) ws(1,3) xs(1,4) done_ unfolding tot_def
    by (intro exI [of _ "map2 (thread_at C) reqs qs"] exI [of _ t] exI [of _ ws] exI [of _ news]) auto
qed

text \<open>A thread that goes on alone from its work to its end.\<close>

lemma finish_alone:
  "stored s xs \<Longrightarrow> \<forall>x \<in> set rest. ok x \<Longrightarrow> \<forall>y \<in> set (base @ acc). sound y \<Longrightarrow> j < length ts \<Longrightarrow>
   \<exists>acc' t. run_schedule (replicate (length rest + 2) j @ sch) (ts[j := thread_at C new (Work base acc rest)]) s =
      run_schedule sch (ts[j := Done]) t \<and> stored t (base @ acc @ acc') \<and> list_all2 same rest acc'"
proof (induction rest arbitrary: acc s)
  case Nil
  obtain t where t: "cr_save C (base @ acc) s = (Inr ERR_SUCCESS, t)" "stored t (base @ acc)"
    using save_law [OF Nil(1,3)] by blast
  obtain e u where u: "cr_after C t = (Inr e, u)" "stored u (base @ acc)" using after_law [OF t(2)] by blast
  show ?case using Nil(4) t(1) u by (auto simp: atomic_def numeral_2_eq_2)
next
  case (Cons x rest)
  from one_law [OF Cons.prems(1), of x "base @ acc"] Cons.prems(2) obtain y t where
    t: "cr_one C (base @ acc) x s = (Inr (base @ acc @ [y]), t)" "same x y" "stored t xs" by auto
  have "sound y" using same_sound [OF t(2)] Cons.prems(2) by simp
  with Cons.IH [OF t(3), of "acc @ [y]"] Cons.prems(2-4) obtain acc' u where
    u: "run_schedule (replicate (length rest + 2) j @ sch) (ts[j := thread_at C new (Work base (acc @ [y]) rest)]) t =
      run_schedule sch (ts[j := Done]) u" "stored u (base @ (acc @ [y]) @ acc')" "list_all2 same rest acc'" by auto
  show ?case
    using Cons.prems(4) t(1,2) u by (intro exI [of _ "y # acc'"] exI [of _ u]) (auto simp: atomic_def)
qed

text \<open>Two threads that both read before one of them writes: what the first to write wrote is lost.\<close>

lemma lost_update:
  assumes "stored s old" "\<forall>x \<in> set a. ok x" "\<forall>x \<in> set b. ok x"
  shows "\<exists>sch t a'. run_schedule sch [create_thread C a, create_thread C b] s = (Inr [Done, Done], t) \<and>
    list_all2 same a a' \<and> stored t (old @ a')"
proof -
  have sound: "\<forall>y \<in> set (old @ []). sound y" using stored_sound [OF assms(1)] by simp
  have read: "run_schedule (j # sch) (ts[j := create_thread C new]) s =
      run_schedule sch (ts[j := thread_at C new (Work old [] new)]) s" if "j < length ts" for j sch ts new
    using that read_law [OF assms(1)] by (simp add: create_thread_def atomic_def)
  let ?sch1 = "replicate (length a + 2) 0" and ?sch2 = "replicate (length b + 2) 1"
  let ?wa = "thread_at C a (Work old [] a)"
  obtain b' t where 2: "run_schedule (?sch2 @ ?sch1) ([?wa, create_thread C b][1 := thread_at C b (Work old [] b)]) s =
      run_schedule ?sch1 ([?wa, create_thread C b][1 := Done]) t" "stored t (old @ [] @ b')"
    using finish_alone [OF assms(1,3) sound, of 1 "[?wa, create_thread C b]" ?sch1] by auto
  obtain a' u where 1: "run_schedule (?sch1 @ []) ([?wa, Done][0 := ?wa]) t = run_schedule [] ([?wa, Done][0 := Done]) u"
    "stored u (old @ [] @ a')" "list_all2 same a a'"
    using finish_alone [OF 2(2) assms(2) sound, of 0 "[?wa, Done]" "[]"] by auto
  have "run_schedule (0 # 1 # ?sch2 @ ?sch1) [create_thread C a, create_thread C b] s = (Inr [Done, Done], u)"
    using read [of 0 "[create_thread C a, create_thread C b]" "1 # ?sch2 @ ?sch1" a]
      read [of 1 "[?wa, create_thread C b]" "?sch2 @ ?sch1" b] 2(1) 1(1) by simp
  moreover have "stored u (old @ a')" using 1(2) by simp
  ultimately show ?thesis using 1(3) by blast
qed

end


section \<open>Creating routes and forwarding profiles\<close>

definition route_creator :: "'j env \<Rightarrow> ('j world, route_t) creator" where
  "route_creator E = \<lparr>cr_read = route_request_from_setting_file E, cr_one = route_create_one E,
     cr_save = route_save_to_setting_file E, cr_after = io_ret ERR_SUCCESS\<rparr>"

definition forwarding_creator :: "'j env \<Rightarrow> ('j world, iptable_t) creator" where
  "forwarding_creator E = \<lparr>cr_read = iptables_dnat_forwarding_request E,
     cr_one = (\<lambda>acc t. io_bind (uuid_gen E (Some ''iptable'')) (\<lambda>new_id. io_ret (acc @ [t\<lparr>ipt_id := new_id\<rparr>]))),
     cr_save = iptables_dnat_forwarding_save_to_setting_file E, cr_after = iptables_refresh E\<rparr>"

text \<open>Alone, such a thread is the operation.\<close>

lemma route_thread_alone: "solo (create_thread (route_creator E) new) s = io_void (route_create E new) s"
  by (auto simp: create_thread_def route_creator_def solo_atomic solo_fold route_create_def io_bind_app io_void_app io_ret_app
      split: prod.split sum.split)

lemma forwarding_thread_alone:
  "solo (create_thread (forwarding_creator E) new) s = io_void (iptables_dnat_forwarding_create E new) s"
  by (auto simp: create_thread_def forwarding_creator_def solo_atomic solo_fold iptables_dnat_forwarding_create_def
      save_and_refresh_def io_bind_app io_void_app io_ret_app split: prod.split sum.split)

definition same_route :: "route_t \<Rightarrow> route_t \<Rightarrow> bool" where
  "same_route x y \<longleftrightarrow> (\<exists>i. y = x\<lparr>route_id := i\<rparr>)"

definition same_profile :: "iptable_t \<Rightarrow> iptable_t \<Rightarrow> bool" where
  "same_profile x y \<longleftrightarrow> (\<exists>i. y = x\<lparr>ipt_id := i\<rparr>)"

definition routes_in_file :: "'j env \<Rightarrow> 'j world \<Rightarrow> route_t list \<Rightarrow> bool" where
  "routes_in_file E s rs \<longleftrightarrow> cjson_ok (cj E) \<and> uuids_fit E \<and> stored_routes E s rs"

definition profiles_in_file :: "'j env \<Rightarrow> iptable_t \<Rightarrow> iptable_nova_service_t list \<Rightarrow> 'j world \<Rightarrow> iptable_t list \<Rightarrow> bool" where
  "profiles_in_file E dmz nova s ts \<longleftrightarrow> cjson_ok (cj E) \<and> uuids_fit E \<and> fw_config E \<and> fw_files E s dmz ts nova \<and> fw_complete dmz ts nova"

definition profile_fits :: "iptable_t \<Rightarrow> bool" where
  "profile_fits t \<longleftrightarrow> length (rule_text t) < 200"

interpretation rc: list_creator "route_creator E" "routes_in_file E" route_complete "\<lambda>_. True" same_route
  "\<lambda>s. mset (w_trace s)" "\<lambda>r. {#Exec (route_text ''add'' r)#}" for E
proof
  fix s xs
  assume st: "routes_in_file E s xs"
  then have E: "cjson_ok (cj E)" "uuids_fit E" "stored_routes E s xs" by (simp_all add: routes_in_file_def)
  show "cr_read (route_creator E) s = (Inr (ERR_SUCCESS, xs), s)"
    by (simp add: route_creator_def stored_routes_request [OF E(3)])
  show "\<exists>e t. cr_after (route_creator E) s = (Inr e, t) \<and> routes_in_file E t xs \<and> mset (w_trace t) = mset (w_trace s)"
    using st by (simp add: route_creator_def io_ret_app)
  show "\<exists>t. cr_save (route_creator E) ys s = (Inr ERR_SUCCESS, t) \<and> routes_in_file E t ys \<and> mset (w_trace t) = mset (w_trace s)" for ys
    using stored_routes_save [OF E(1,3), of ys] E(1,2) by (auto simp: route_creator_def routes_in_file_def)
  show "\<exists>y t. cr_one (route_creator E) acc x s = (Inr (acc @ [y]), t) \<and> same_route x y \<and> routes_in_file E t xs \<and>
      mset (w_trace t) = mset (w_trace s) + {#Exec (route_text ''add'' x)#}" if c: "route_complete x" for acc x
  proof -
    let ?y = "x\<lparr>route_id := Some (''route_'' @ uuid_unparse E (w_uuids s))\<rparr>"
    obtain t where t: "io_fold (route_create_one E) acc [x] s = (Inr (acc @ [?y]), t)"
      "w_trace t = w_trace s @ [Exec (route_text ''add'' x)]" "w_lock t = w_lock s"
      "\<forall>p. sh_keeps E p \<longrightarrow> w_files t p = w_files s p"
      using create_loop [OF E(2), of "[x]" acc s] c by auto
    have "route_create_one E acc x s = (Inr (acc @ [?y]), t)"
      using t(1) by (auto simp: io_simps split: prod.splits sum.splits)
    moreover have "routes_in_file E t xs"
      using E t(3,4) by (auto simp: routes_in_file_def stored_routes_def)
    ultimately show ?thesis using t(2) by (auto simp: route_creator_def same_route_def)
  qed
qed simp_all

interpretation fc: list_creator "forwarding_creator E" "profiles_in_file E dmz nova" profile_fits profile_fits same_profile
  "\<lambda>_. ({#} :: event multiset)" "\<lambda>_. {#}" for E dmz nova
proof
  fix s xs
  show "profile_fits y" if "same_profile x y" "profile_fits x" for x y
    using that by (auto simp: same_profile_def profile_fits_def rule_text_def)
  assume st: "profiles_in_file E dmz nova s xs"
  then have E: "cjson_ok (cj E)" "uuids_fit E" "fw_config E" "fw_files E s dmz xs nova" "fw_complete dmz xs nova"
    by (simp_all add: profiles_in_file_def)
  show "profile_fits x" if "x \<in> set xs" for x
    using E(5) that by (simp add: fw_complete_def rules_fit_def profile_fits_def)
  show "cr_read (forwarding_creator E) s = (Inr (ERR_SUCCESS, xs), s)"
    by (simp add: forwarding_creator_def iptables_dnat_forwarding_request_def fw_files_request(2) [OF E(4)])
  show "\<exists>e t. cr_after (forwarding_creator E) s = (Inr e, t) \<and> profiles_in_file E dmz nova t xs \<and> ({#} :: event multiset) = {#}"
    using refresh_ok [OF E(4,5)] fw_files_cong [OF E(4)] E by (fastforce simp: forwarding_creator_def profiles_in_file_def)
  show "\<exists>t. cr_save (forwarding_creator E) ys s = (Inr ERR_SUCCESS, t) \<and> profiles_in_file E dmz nova t ys \<and>
      ({#} :: event multiset) = {#}" if fit: "\<forall>y \<in> set ys. profile_fits y" for ys
  proof -
    obtain q where q: "iptables_dnat_forwarding_setting_file (get_config E) = Some q" "writable E q"
      "iptables_dnat_dmz_setting_file (get_config E) \<noteq> Some q"
      "iptables_nova_setting_file (get_config E) \<noteq> Some q"
      using E(3) by (auto simp: fw_config_def)
    obtain t where t: "iptables_dnat_forwarding_save_to_setting_file E ys s = (Inr ERR_SUCCESS, t)" "fw_files E t dmz ys nova"
      using forwarding_saved [OF E(1,4) q] by blast
    have "fw_complete dmz ys nova" using E(5) fit by (simp add: fw_complete_def rules_fit_def profile_fits_def)
    then show ?thesis using t E by (simp add: forwarding_creator_def profiles_in_file_def)
  qed
  show "\<exists>y t. cr_one (forwarding_creator E) acc x s = (Inr (acc @ [y]), t) \<and> same_profile x y \<and>
      profiles_in_file E dmz nova t xs \<and> ({#} :: event multiset) = {#} + {#}" for acc x
    using E by (auto simp: forwarding_creator_def io_simps uuid_gen_fit [OF E(2)] same_profile_def profiles_in_file_def fw_files_def)
qed


section \<open>Properties\<close>

lemma adds_events: "sum_list (map (\<lambda>x. {#f x#}) xs) = mset (map f xs)"
  by (induction xs) simp_all

text \<open>
  C25: creations of routes in several threads. Alone, a thread does what \<open>route_create\<close> does. Together, under
  any schedule, none of them faults, and the file always holds the old routes followed by the new ones of some
  of the requests, each whole and with fresh identifiers; at the end the kernel has got the routes of all. But of two
  requests one may be lost: there is a schedule after which both have ended, and the file holds the routes of one only.
\<close>

theorem route_threads:
  assumes "cjson_ok (cj E)" "uuids_fit E" "stored_routes E s old" "\<forall>new \<in> set reqs. \<forall>r \<in> set new. route_complete r"
  shows "solo (create_thread (route_creator E) one) s = io_void (route_create E one) s \<and>
    (\<exists>ts t ws news. run_schedule sch (map (create_thread (route_creator E)) reqs) s = (Inr ts, t) \<and> distinct ws \<and>
      (\<forall>i \<in> set ws. i < length reqs \<and> list_all2 same_route (reqs ! i) (news i)) \<and>
      stored_routes E t (old @ concat (map news ws)) \<and>
      ((\<forall>u \<in> set ts. u = Done) \<longrightarrow>
        mset (w_trace t) = mset (w_trace s) + mset (map (\<lambda>r. Exec (route_text ''add'' r)) (concat reqs)))) \<and>
    (\<forall>a \<in> set reqs. \<forall>b \<in> set reqs. \<exists>sch t a'.
      run_schedule sch [create_thread (route_creator E) a, create_thread (route_creator E) b] s = (Inr [Done, Done], t) \<and>
      list_all2 same_route a a' \<and> stored_routes E t (old @ a'))"
proof -
  have st: "routes_in_file E s old" using assms(1-3) by (simp add: routes_in_file_def)
  have out: "stored_routes E t xs" if "routes_in_file E t xs" for t xs using that by (simp add: routes_in_file_def)
  have "\<exists>sch t a'. run_schedule sch [create_thread (route_creator E) a, create_thread (route_creator E) b] s = (Inr [Done, Done], t) \<and>
      list_all2 same_route a a' \<and> stored_routes E t (old @ a')" if "a \<in> set reqs" "b \<in> set reqs" for a b
    using rc.lost_update [OF st, of a b] assms(4) that out by blast
  with rc.simultaneous [OF st assms(4), of sch] show ?thesis
    unfolding adds_events using route_thread_alone out by blast
qed

theorem route_threads_witness:
  "\<exists>sch t a'. run_schedule sch [create_thread (route_creator quiet_env) [demo_route ''x'' ''10.1.0.0/16''],
      create_thread (route_creator quiet_env) [demo_route ''y'' ''10.2.0.0/16'']] (route_world []) = (Inr [Done, Done], t) \<and>
    list_all2 same_route [demo_route ''x'' ''10.1.0.0/16''] a' \<and> stored_routes quiet_env t a'"
proof -
  let ?a = "[demo_route ''x'' ''10.1.0.0/16'']" and ?b = "[demo_route ''y'' ''10.2.0.0/16'']"
  have "\<forall>new \<in> set [?a, ?b]. \<forall>r \<in> set new. route_complete r" by (simp add: demo_route_complete)
  note t = route_threads [OF quiet_env_ok route_world_stored [of "[]"] this, of ?a "[]", THEN conjunct2, THEN conjunct2]
  show ?thesis using t [THEN bspec [of _ _ ?a], THEN bspec [of _ _ ?b]] by (simp only: list.set insert_iff append_Nil simp_thms)
qed

text \<open>
  The same for profiles of the port forwarding, whose threads also rebuild the packet filter after they have
  written. None faults, the file always holds the old profiles and those of some of the requests, and one of two
  requests may be lost.
\<close>

theorem forwarding_threads:
  assumes "cjson_ok (cj E)" "uuids_fit E" "fw_config E" "fw_files E s dmz old nova" "fw_complete dmz old nova"
    "\<forall>new \<in> set reqs. rules_fit new"
  shows "solo (create_thread (forwarding_creator E) one) s = io_void (iptables_dnat_forwarding_create E one) s \<and>
    (\<exists>ts t ws news. run_schedule sch (map (create_thread (forwarding_creator E)) reqs) s = (Inr ts, t) \<and> distinct ws \<and>
      (\<forall>i \<in> set ws. i < length reqs \<and> list_all2 same_profile (reqs ! i) (news i)) \<and>
      fw_files E t dmz (old @ concat (map news ws)) nova) \<and>
    (\<forall>a \<in> set reqs. \<forall>b \<in> set reqs. \<exists>sch t a'.
      run_schedule sch [create_thread (forwarding_creator E) a, create_thread (forwarding_creator E) b] s = (Inr [Done, Done], t) \<and>
      list_all2 same_profile a a' \<and> fw_files E t dmz (old @ a') nova)"
proof -
  have st: "profiles_in_file E dmz nova s old" using assms(1-5) by (simp add: profiles_in_file_def)
  have out: "fw_files E t dmz xs nova" if "profiles_in_file E dmz nova t xs" for t xs using that by (simp add: profiles_in_file_def)
  have fit: "\<forall>new \<in> set reqs. \<forall>r \<in> set new. profile_fits r" using assms(6) by (simp add: rules_fit_def profile_fits_def)
  have "\<exists>sch t a'. run_schedule sch [create_thread (forwarding_creator E) a, create_thread (forwarding_creator E) b] s = (Inr [Done, Done], t) \<and>
      list_all2 same_profile a a' \<and> fw_files E t dmz (old @ a') nova" if "a \<in> set reqs" "b \<in> set reqs" for a b
    using fc.lost_update [OF st, of a b] fit that out by blast
  with fc.simultaneous [OF st fit, of sch] show ?thesis
    using forwarding_thread_alone out by blast
qed

theorem forwarding_threads_witness:
  "\<exists>sch t a'. run_schedule sch [create_thread (forwarding_creator quiet_env) [demo_profile ''x'' ''80''],
      create_thread (forwarding_creator quiet_env) [demo_profile ''y'' ''81'']] (fw_world []) = (Inr [Done, Done], t) \<and>
    list_all2 same_profile [demo_profile ''x'' ''80''] a' \<and> fw_files quiet_env t iptable_zero a' []"
proof -
  let ?a = "[demo_profile ''x'' ''80'']" and ?b = "[demo_profile ''y'' ''81'']"
  have "\<forall>new \<in> set [?a, ?b]. rules_fit new" by (simp add: rules_fit_def)
  moreover have "fw_complete iptable_zero [] []" by (simp add: fw_complete_def rules_fit_def)
  moreover note t = forwarding_threads [OF quiet_env_ok quiet_fw_config fw_world_files [of "[]"] calculation(2,1), of ?a "[]",
      THEN conjunct2, THEN conjunct2]
  show ?thesis using t [THEN bspec [of _ _ ?a], THEN bspec [of _ _ ?b]] by (simp only: list.set insert_iff append_Nil simp_thms)
qed

end
