(* ===== verification/TimerThread.thy ===== *)
theory TimerThread
  imports Timer Interleave
begin

text \<open>
  The thread of \<open>utils/timer/timer.c\<close> next to the threads that start and stop timers. Nothing locks the list: the thread
  walks it node by node, and the others change it between two of its reads. The state is that of \<open>Timer\<close>, with
  the callbacks that were called.
\<close>

section \<open>The thread\<close>

type_synonym 'h timer_state = "'h timers \<times> 'h list"

definition node_at :: "nat \<Rightarrow> ('h timer_state, 'h timer_node) io" where
  "node_at a = (\<lambda>s. case tm_heap (fst s) a of None \<Rightarrow> (Inl UseAfterFree, s) | Some n \<Rightarrow> (Inr n, s))"

text \<open>
  \<open>while (tmp) ...\<close>: a turn reads a node and writes its descriptor into the array, of which \<open>room\<close> elements are left.
\<close>

primrec collect :: "nat \<Rightarrow> c_int list \<Rightarrow> nat \<Rightarrow> (c_int list \<Rightarrow> 'h timer_state thread) \<Rightarrow> 'h timer_state thread" where
  "collect 0 ufds tmp k = (if tmp = 0 then k ufds else atomic (io_then (node_at tmp) (io_fail OutOfBounds)) (\<lambda>u :: unit. Done))"
| "collect (Suc room) ufds tmp k =
     (if tmp = 0 then k ufds else atomic (node_at tmp) (\<lambda>n. collect room (ufds @ [tn_fd n]) (tn_next n) k))"

text \<open>A descriptor that is ready is looked up again, and its callback is called; here this is one action.\<close>

definition fire :: "c_int \<Rightarrow> ('h timer_state, unit) io" where
  "fire fd = (\<lambda>(t, fired). case get_timer_from_fd (tm_heap t) fd (g_head t) of
     None \<Rightarrow> (Inl OutOfFuel, t, fired)
   | Some (Inl f) \<Rightarrow> (Inl f, t, fired)
   | Some (Inr found) \<Rightarrow>
       (Inr (), t, fired @ (case found of None \<Rightarrow> [] | Some n \<Rightarrow> (case tn_callback n of None \<Rightarrow> [] | Some h \<Rightarrow> [h]))))"

primrec fire_all :: "c_int list \<Rightarrow> 'h timer_state thread \<Rightarrow> 'h timer_state thread" where
  "fire_all [] k = k"
| "fire_all (fd # fds) k = atomic (fire fd) (\<lambda>_. fire_all fds k)"

text \<open>One round after the other: for each the descriptors that are ready; a round in which the thread is cancelled is the last.\<close>

primrec timer_thread :: "(c_int \<Rightarrow> bool) list \<Rightarrow> 'h timer_state thread" where
  "timer_thread [] = Done"
| "timer_thread (ready # rounds) =
     atomic (io_get (\<lambda>s. g_head (fst s))) (\<lambda>tmp.
     collect MAX_TIMER_COUNT [] tmp (\<lambda>ufds. fire_all (filter ready ufds) (timer_thread rounds)))"

definition initialize_timer :: "bool \<Rightarrow> (c_int \<Rightarrow> bool) list \<Rightarrow> c_int \<times> 'h timer_state thread list" where
  "initialize_timer created rounds = (if \<not> created then (0, []) else (1, [timer_thread rounds]))"

text \<open>Stopping a timer from another thread, as one action.\<close>

definition stop_thread :: "nat \<Rightarrow> 'h timer_state thread" where
  "stop_thread a = atomic (\<lambda>(t, fired). case stop_timer a t of
     None \<Rightarrow> (Inl OutOfFuel, t, fired) | Some (Inl f) \<Rightarrow> (Inl f, t, fired) | Some (Inr t') \<Rightarrow> (Inr (), t', fired)) (\<lambda>u. Done)"


section \<open>Alone\<close>

lemma node_at_in: "tm_heap (fst s) a = Some n \<Longrightarrow> node_at a s = (Inr n, s)"
  by (simp add: node_at_def)

lemma solo_collect:
  "nodes_at (tm_heap (fst s)) a xs \<Longrightarrow> solo (collect room ufds a k) s =
     (if length xs \<le> room then solo (k (ufds @ map (\<lambda>x. fst (snd x)) xs)) s else (Inl OutOfBounds, s))"
proof (induction xs arbitrary: a ufds room)
  case Nil
  then show ?case by (cases room) simp_all
next
  case (Cons x xs)
  obtain y i where x: "x = (y, i)" by (cases x)
  with Cons.prems obtain n where n: "a = y" "y \<noteq> 0" "tm_heap (fst s) y = Some n" "info n = i" "nodes_at (tm_heap (fst s)) (tn_next n) xs"
    by auto
  have "fst i = tn_fd n" using n(4) by (auto simp: info_def)
  then show ?case
    using Cons.IH [OF n(5), of _ "ufds @ [tn_fd n]"] n(1-3) x
    by (cases room) (simp_all add: solo_atomic io_bind_app io_then_app io_fail_app node_at_in)
qed

lemma solo_fire:
  assumes "timers_ok t xs" "set ys \<subseteq> set xs"
  shows "solo (fire_all (filter ready (map (\<lambda>x. fst (snd x)) ys)) k) (t, fired) = solo k (t, fired @ callbacks ready ys)"
  using assms(2)
proof (induction ys arbitrary: fired)
  case (Cons y ys)
  obtain a fd cb r where y: "y = (a, fd, cb, r)" by (cases y)
  have l: "nodes_at (tm_heap t) (g_head t) xs" "distinct (map (\<lambda>x. fst (snd x)) xs)"
    using assms(1) by (simp_all add: timers_ok_def)
  have one: "fire_ready t (filter (\<lambda>f. True) (map (\<lambda>x. fst (snd x)) [y])) = Some (Inr (callbacks (\<lambda>f. True) [y]))"
    by (rule fire_ready_at [OF l]) (use Cons.prems in simp)
  obtain n where n: "get_timer_from_fd (tm_heap t) fd (g_head t) = Some (Inr n)" using get_timer_at [OF l(1), of fd] by blast
  with one have "(case n of None \<Rightarrow> [] | Some n \<Rightarrow> (case tn_callback n of None \<Rightarrow> [] | Some h \<Rightarrow> [h])) = (case cb of None \<Rightarrow> [] | Some h \<Rightarrow> [h])"
    by (simp add: y Timer.callbacks_def)
  then have "fire fd (t, fired) = (Inr (), t, fired @ (case cb of None \<Rightarrow> [] | Some h \<Rightarrow> [h]))" for fired
    using n by (simp add: fire_def)
  then show ?case using Cons.IH Cons.prems by (simp add: y Timer.callbacks_def solo_atomic io_bind_app)
qed (simp add: Timer.callbacks_def)

lemma solo_round:
  assumes "timers_ok t xs"
  shows "solo (timer_thread (ready # rounds)) (t, fired) =
    (if length xs \<le> MAX_TIMER_COUNT then solo (timer_thread rounds) (t, fired @ callbacks ready xs) else (Inl OutOfBounds, t, fired))"
proof -
  have "nodes_at (tm_heap (fst (t, fired))) (g_head t) xs" using assms by (simp add: timers_ok_def)
  from solo_collect [OF this] solo_fire [OF assms subset_refl] show ?thesis
    by (simp add: solo_atomic io_bind_app io_get_app)
qed


section \<open>Together\<close>

text \<open>
  C28: the thread and the threads that stop timers. Alone, the thread calls in every round exactly the callbacks of the ready
  timers, as often as there are rounds, and stops leave the others. But the list is not locked: whatever
  timers there are, if one thread stops the newest of them between the two moments at which the thread reads
  the head of the list and the node, the thread reads memory that was released; a stop before or after the round does no harm.
\<close>

theorem timer_thread_race:
  assumes "timers_ok t ((a, i) # xs)" "length xs < MAX_TIMER_COUNT"
  shows "solo (timer_thread rounds) (t, fired) =
      (Inr (), t, fired @ concat (map (\<lambda>ready. callbacks ready ((a, i) # xs)) rounds)) \<and>
    (\<exists>s. run_schedule [0, 1, 0] [timer_thread (ready # rounds), stop_thread a] (t, fired) = (Inl UseAfterFree, s)) \<and>
    (\<exists>t'. timers_ok t' xs \<and> solo (stop_thread a) (t, fired) = (Inr (), t', fired) \<and>
      solo (timer_thread rounds) (t', fired) = (Inr (), t', fired @ concat (map (\<lambda>ready. callbacks ready xs) rounds)))"
proof -
  have all: "solo (timer_thread rounds) (u, f) = (Inr (), u, f @ concat (map (\<lambda>ready. callbacks ready ys) rounds))"
    if "timers_ok u ys" "length ys \<le> MAX_TIMER_COUNT" for u ys f rounds
    by (induction rounds arbitrary: f) (use that solo_round [OF that(1)] in \<open>simp_all add: io_ret_app\<close>)
  obtain t' where t': "stop_timer a t = Some (Inr t')" "timers_ok t' (filter (\<lambda>x. fst x \<noteq> a) ((a, i) # xs))"
    using stop_timer_at [OF assms(1), of a] by auto
  have rest: "filter (\<lambda>x. fst x \<noteq> a) ((a, i) # xs) = xs"
    using filter_first [of "(a, i)" xs] assms(1) by (simp add: timers_ok_def)
  have at: "g_head t = a" "a \<noteq> 0" using assms(1) by (auto simp: timers_ok_def)
  have "a \<notin> fst ` set xs" using assms(1) by (auto simp: timers_ok_def)
  then have gone: "tm_heap t' a = None" using t'(2) unfolding rest by (auto simp: timers_ok_def)
  have stop: "solo (stop_thread a) (t, fired) = (Inr (), t', fired)"
    by (simp add: stop_thread_def solo_atomic io_bind_app t'(1) io_ret_app)
  have max: "MAX_TIMER_COUNT = Suc 999" by simp
  have race: "\<exists>s. run_schedule [0, 1, 0] [timer_thread (ready # rounds), stop_thread a] (t, fired) = (Inl UseAfterFree, s)"
    unfolding timer_thread.simps max collect.simps
    by (simp add: atomic_def io_get_app at stop_thread_def t'(1) node_at_def gone)
  show ?thesis
    using all [OF assms(1)] all [of t' xs] t'(2) assms(2) stop race unfolding rest by (intro conjI exI [of _ t']) simp_all
qed

theorem timer_thread_race_witness:
  "\<exists>s. run_schedule [0, 1, 0] [timer_thread [\<lambda>fd. True], stop_thread 128] (two_timers, []) = (Inl UseAfterFree, s)"
proof -
  have "timers_ok two_timers [(128, snd timeout_request), poll_request]" using two_timers_ok by (simp add: timeout_request_def)
  from timer_thread_race [OF this, of "[]" "[]" "\<lambda>fd. True"] show ?thesis by simp
qed

end
