(* ===== verification/Responder.thy ===== *)
theory Responder
  imports Discovery
begin

text \<open>
  \<open>lib/mdns/mdns.c\<close>, the service: the names and records it makes of a host name and a service name, the callback
  that answers questions, the loop around \<open>select\<close>, and the packets at its begin and end. What the system calls
  return is an argument, and what is handed to \<open>sendto\<close> a result. The client of that file is
  that of \<open>Discovery\<close> with a callback that prints.
\<close>

section \<open>The service\<close>

abbreviation MDNS_RECORDTYPE_ANY :: "16 word" where "MDNS_RECORDTYPE_ANY \<equiv> 255"

text \<open>The addresses are \<open>None\<close> when the family of the structure is not set.\<close>

record service_t =
  sv_service :: string
  sv_hostname :: string
  sv_service_instance :: string
  sv_hostname_qualified :: string
  sv_address_ipv4 :: "string option"
  sv_address_ipv6 :: "string option"
  sv_port :: c_int
  sv_record_ptr :: mdns_record_t
  sv_record_srv :: mdns_record_t
  sv_record_a :: mdns_record_t
  sv_record_aaaa :: mdns_record_t
  sv_txt_record :: "mdns_record_t list"

definition mk_record :: "string \<Rightarrow> 16 word \<Rightarrow> mdns_record_data \<Rightarrow> mdns_record_t" where
  "mk_record name type data = \<lparr>rec_name = name, rec_type = type, rec_data = data, rec_rclass = 0, rec_ttl = 0\<rparr>"

text \<open>The first address of each family, of the interfaces that the client would open a socket for.\<close>

fun service_addresses :: "ifaddrs list \<Rightarrow> string option \<Rightarrow> string option \<Rightarrow> string option \<times> string option" where
  "service_addresses [] ipv4 ipv6 = (ipv4, ipv6)"
| "service_addresses (i # is) ipv4 ipv6 =
     (if \<not> usable_interface i then service_addresses is ipv4 ipv6
      else case ifa_addr i of
        Address4 a \<Rightarrow> service_addresses is (if ipv4 = None then Some a else ipv4) ipv6
      | Address6 a _ \<Rightarrow> service_addresses is ipv4 (if ipv6 = None then Some a else ipv6)
      | _ \<Rightarrow> service_addresses is ipv4 ipv6)"

text \<open>The sockets on the port of mDNS, one for each family. The limit is 32.\<close>

definition open_service_sockets :: "socket_calls \<Rightarrow> socket_calls \<Rightarrow> mdns_socket list" where
  "open_service_sockets calls4 calls6 =
     (case mdns_socket_open calls4 of None \<Rightarrow> [] | Some s \<Rightarrow> [s]) @
     (case mdns_socket_open calls6 of None \<Rightarrow> [] | Some s \<Rightarrow> [s])"

text \<open>The names are cut by \<open>snprintf\<close> into 254 characters and the terminator.\<close>

definition make_service ::
  "string \<Rightarrow> string \<Rightarrow> c_int \<Rightarrow> string option \<Rightarrow> string option \<Rightarrow> service_t" where
  "make_service hostname service port ipv4 ipv6 =
     (let inst = take 254 (hostname @ ''.'' @ service);
          qualified = take 254 (hostname @ ''.local.'')
      in \<lparr>sv_service = service, sv_hostname = hostname, sv_service_instance = inst,
          sv_hostname_qualified = qualified, sv_address_ipv4 = ipv4, sv_address_ipv6 = ipv6, sv_port = port,
          sv_record_ptr = mk_record service MDNS_RECORDTYPE_PTR (PtrData inst),
          sv_record_srv = mk_record inst MDNS_RECORDTYPE_SRV (SrvData 0 0 (ucast port) qualified),
          sv_record_a = mk_record qualified MDNS_RECORDTYPE_A
            (AData (case ipv4 of None \<Rightarrow> replicate 4 (CHR 0x00) | Some a \<Rightarrow> a)),
          sv_record_aaaa = mk_record qualified MDNS_RECORDTYPE_AAAA
            (AaaaData (case ipv6 of None \<Rightarrow> replicate 16 (CHR 0x00) | Some a \<Rightarrow> a)),
          sv_txt_record = [mk_record inst MDNS_RECORDTYPE_TXT (TxtData ''test'' ''1''),
                           mk_record inst MDNS_RECORDTYPE_TXT (TxtData ''other'' ''value'')]\<rparr>)"

definition full_service_name :: "string \<Rightarrow> string" where
  "full_service_name name = (if last name \<noteq> CHR ''.'' then name @ ''.'' else name)"


section \<open>The callback\<close>

text \<open>Two texts of the same length are compared with \<open>strncmp\<close>, which ends at a terminator.\<close>

definition same_name :: "string \<Rightarrow> string \<Rightarrow> bool" where
  "same_name name s \<longleftrightarrow> length name = length s \<and>
     takeWhile (\<lambda>c. c \<noteq> CHR 0x00) name = takeWhile (\<lambda>c. c \<noteq> CHR 0x00) s"

definition dns_sd :: string where
  "dns_sd = ''_services._dns-sd._udp.local.''"

text \<open>The array of the additional records has five places.\<close>

definition additional_array :: "mdns_record_t list \<Rightarrow> fault + mdns_record_t list" where
  "additional_array rs = (if 5 < length rs then Inl OutOfBounds else Inr rs)"

definition add_a :: "service_t \<Rightarrow> mdns_record_t list" where
  "add_a s = (if sv_address_ipv4 s \<noteq> None then [sv_record_a s] else [])"

definition add_aaaa :: "service_t \<Rightarrow> mdns_record_t list" where
  "add_aaaa s = (if sv_address_ipv6 s \<noteq> None then [sv_record_aaaa s] else [])"

text \<open>The answer to a name and a type, and the additional records.\<close>

definition choose_answer :: "service_t \<Rightarrow> string \<Rightarrow> 16 word \<Rightarrow> (mdns_record_t \<times> mdns_record_t list) option" where
  "choose_answer s name rtype =
     (if same_name name dns_sd then
        (if rtype = MDNS_RECORDTYPE_PTR \<or> rtype = MDNS_RECORDTYPE_ANY
         then Some (mk_record name MDNS_RECORDTYPE_PTR (PtrData (sv_service s)), []) else None)
      else if same_name name (sv_service s) then
        (if rtype = MDNS_RECORDTYPE_PTR \<or> rtype = MDNS_RECORDTYPE_ANY
         then Some (sv_record_ptr s, sv_record_srv s # add_a s @ add_aaaa s @ sv_txt_record s) else None)
      else if same_name name (sv_service_instance s) then
        (if rtype = MDNS_RECORDTYPE_SRV \<or> rtype = MDNS_RECORDTYPE_ANY
         then Some (sv_record_srv s, add_a s @ add_aaaa s @ sv_txt_record s) else None)
      else if same_name name (sv_hostname_qualified s) then
        (if (rtype = MDNS_RECORDTYPE_A \<or> rtype = MDNS_RECORDTYPE_ANY) \<and> sv_address_ipv4 s \<noteq> None
         then Some (sv_record_a s, add_aaaa s @ sv_txt_record s)
         else if (rtype = MDNS_RECORDTYPE_AAAA \<or> rtype = MDNS_RECORDTYPE_ANY) \<and> sv_address_ipv6 s \<noteq> None
         then Some (sv_record_aaaa s, add_a s @ sv_txt_record s) else None)
      else None)"

text \<open>
  What a callback works on: the service that its argument points to, the static block of 1024 bytes, and what was sent.
\<close>

type_synonym responder = "service_t \<times> string \<times> datagram list"

definition service_callback :: "mdns_socket \<Rightarrow> string \<Rightarrow> responder callback" where
  "service_callback sock from e = (\<lambda>(s, sendbuffer, sent).
     if cb_entry e \<noteq> MDNS_ENTRYTYPE_QUESTION then Inr (False, s, sendbuffer, sent)
     else
       or_fault (mdns_string_extract (cb_data e) (cb_size e) (cb_name_offset e) 256) (\<lambda>r.
         let name = extracted r; rtype = cb_rtype e
         in if rtype \<notin> {MDNS_RECORDTYPE_PTR, MDNS_RECORDTYPE_SRV, MDNS_RECORDTYPE_A, MDNS_RECORDTYPE_AAAA,
               MDNS_RECORDTYPE_TXT, MDNS_RECORDTYPE_ANY}
            then Inr (False, s, sendbuffer, sent)
            else case choose_answer s name rtype of
              None \<Rightarrow> Inr (False, s, sendbuffer, sent)
            | Some (answer, rs) \<Rightarrow>
                or_fault (additional_array rs) (\<lambda>additional.
                or_fault
                  (if cb_rclass e AND MDNS_UNICAST_RESPONSE \<noteq> 0
                   then mdns_query_answer_unicast sock from sendbuffer 1024 (cb_query_id e) rtype name (length name)
                     answer [] additional
                   else mdns_query_answer_multicast sock sendbuffer 1024 answer [] additional)
                  (\<lambda>(_, sendbuffer, out). Inr (False, s, sendbuffer, sent @ out)))))"

definition dump_callback :: "'u callback" where
  "dump_callback e u =
     or_fault (mdns_string_extract (cb_data e) (cb_size e) (cb_name_offset e) 256) (\<lambda>_. Inr (False, u))"


section \<open>The loop\<close>

text \<open>
  One return of \<open>select\<close>: for every socket, what \<open>recvfrom\<close> returns there if it is ready, an address and a datagram.
\<close>

fun listen_ready ::
  "(mdns_socket \<times> (string \<times> string option) option) list \<Rightarrow> (mdns_socket \<Rightarrow> string \<Rightarrow> 'u callback) \<Rightarrow> string \<Rightarrow> 'u
   \<Rightarrow> fault + string \<times> 'u" where
  "listen_ready [] callback buffer u = Inr (buffer, u)"
| "listen_ready ((sock, ready) # rs) callback buffer u =
     (case ready of
        None \<Rightarrow> listen_ready rs callback buffer u
      | Some (from, datagram) \<Rightarrow>
          or_fault (mdns_socket_listen datagram buffer 2048 (Some (callback sock from)) u) (\<lambda>(_, buffer, u).
            listen_ready rs callback buffer u))"

text \<open>The rounds until \<open>running\<close> is cleared or \<open>select\<close> fails.\<close>

fun listen_rounds ::
  "mdns_socket list \<Rightarrow> (string \<times> string option) option list list \<Rightarrow> (mdns_socket \<Rightarrow> string \<Rightarrow> 'u callback) \<Rightarrow> string \<Rightarrow> 'u
   \<Rightarrow> fault + string \<times> 'u" where
  "listen_rounds sockets [] callback buffer u = Inr (buffer, u)"
| "listen_rounds sockets (r # rs) callback buffer u =
     or_fault (listen_ready (zip sockets r) callback buffer u) (\<lambda>(buffer, u). listen_rounds sockets rs callback buffer u)"

text \<open>The announcement and the goodbye, on every socket.\<close>

fun on_sockets ::
  "(mdns_socket \<Rightarrow> string \<Rightarrow> fault + int \<times> string \<times> datagram list) \<Rightarrow> mdns_socket list \<Rightarrow> string
   \<Rightarrow> fault + string \<times> datagram list" where
  "on_sockets send [] buffer = Inr (buffer, [])"
| "on_sockets send (s # ss) buffer =
     or_fault (send s buffer) (\<lambda>(_, buffer, out).
     or_fault (on_sockets send ss buffer) (\<lambda>(buffer, outs). Inr (buffer, out @ outs)))"

definition announced :: "service_t \<Rightarrow> mdns_record_t list" where
  "announced s = sv_record_srv s # add_a s @ add_aaaa s @ sv_txt_record s"

text \<open>\<open>buffer\<close> is the block as \<open>malloc\<close> returns it, \<open>sendbuffer\<close> the static one.\<close>

definition service_mdns ::
  "ifaddrs list \<Rightarrow> socket_calls \<Rightarrow> socket_calls \<Rightarrow> string \<Rightarrow> string \<Rightarrow> c_int \<Rightarrow> (string \<times> string option) option list list
   \<Rightarrow> string \<Rightarrow> string \<Rightarrow> fault + int \<times> datagram list" where
  "service_mdns interfaces calls4 calls6 hostname service_name port rounds buffer sendbuffer =
     (let sockets = open_service_sockets calls4 calls6
      in if sockets = [] then Inr (- 1, [])
         else if service_name = [] then Inr (- 1, [])
         else
           let (ipv4, ipv6) = service_addresses interfaces None None;
               s = make_service hostname (full_service_name service_name) port ipv4 ipv6
           in
             or_fault (additional_array (announced s)) (\<lambda>additional.
             or_fault (on_sockets (\<lambda>sock b. mdns_announce_multicast sock b 2048 (sv_record_ptr s) [] additional) sockets buffer)
               (\<lambda>(buffer, out).
             or_fault (listen_rounds sockets rounds service_callback buffer (s, sendbuffer, out)) (\<lambda>(buffer, _, _, out).
             or_fault (on_sockets (\<lambda>sock b. mdns_goodbye_multicast sock b 2048 (sv_record_ptr s) [] additional) sockets buffer)
               (\<lambda>(buffer, bye). Inr (0, out @ bye))))))"

definition dump_mdns :: "socket_calls \<Rightarrow> socket_calls \<Rightarrow> (string \<times> string option) option list list \<Rightarrow> string \<Rightarrow> fault + int" where
  "dump_mdns calls4 calls6 rounds buffer =
     (let sockets = open_service_sockets calls4 calls6
      in if sockets = [] then Inr (- 1)
         else or_fault (listen_rounds sockets rounds (\<lambda>_ _. dump_callback) buffer ()) (\<lambda>_. Inr 0))"


section \<open>Listening\<close>

lemma name_at_end: "name_at k buf sz off ls e \<Longrightarrow> e \<le> sz"
  by (induction rule: name_at.induct) auto

lemma services_query_safe:
  assumes "sz \<le> length buf"
  shows "\<exists>d. is_services_query buf sz off = Inr d \<and> (\<forall>e. d = Some e \<longrightarrow> e \<le> sz)"
  using equal_spec [OF assms le_refl [of "length mdns_services_query"], of off 12]
  by (fastforce simp: is_services_query_def dest: name_at_end)

text \<open>
  The contract of a callback that looks only at the size of the packet, and not at the place of the record: it works for
  questions, which have no record, and for records that end behind the packet. With four bytes behind
  what was received, listening returns on every datagram, and with ten the reader of the answers to the discovery question.
\<close>

locale packet_client =
  fixes cb :: "'u callback" and fits :: "string \<Rightarrow> nat \<Rightarrow> bool" and keeps :: "'u \<Rightarrow> bool"
  assumes asked: "cb_size e \<le> length (cb_data e) \<Longrightarrow> fits (cb_data e) (cb_size e) \<Longrightarrow> keeps u \<Longrightarrow>
    \<exists>stop u'. cb e u = Inr (stop, u') \<and> keeps u'"

sublocale packet_client \<subseteq> record_client cb fits keeps
  by unfold_locales (auto simp: entry_inside_def intro: asked)

context packet_client
begin

lemma questions_safe:
  assumes "sz + 4 \<le> length buf" "fits buf sz"
  shows "keeps u \<Longrightarrow> \<exists>m r u'. mdns_listen_questions (Some cb) buf sz h n k off u = Inr (m, r, u') \<and> keeps u'"
proof (induction n arbitrary: k off u)
  case (Suc n)
  have sz: "sz \<le> length buf" using assms(1) by simp
  obtain d where d: "is_services_query buf sz off = Inr d" "\<And>e. d = Some e \<Longrightarrow> e \<le> sz"
    using services_query_safe [OF sz, of off] by blast
  obtain r where r: "(case d of None \<Rightarrow> mdns_string_skip buf sz off | Some e \<Rightarrow> Inr (Some e)) = Inr r" "\<And>e. r = Some e \<Longrightarrow> e \<le> sz"
    using d(2) skip_safe [OF sz, of off] by (cases d) auto
  show ?case
  proof (cases r)
    case None
    then show ?thesis using d(1) r(1) Suc.prems by simp
  next
    case (Some e)
    then have e: "e + 4 \<le> length buf" using r(2) assms(1) by fastforce
    then obtain t c where f: "mdns_ntohs buf e = Inr t" "mdns_ntohs buf (e + 2) = Inr c"
      using ntohs_ok [of e buf] ntohs_ok [of "e + 2" buf] by auto
    define q where "q = \<lparr>cb_entry = MDNS_ENTRYTYPE_QUESTION, cb_query_id = hdr_query_id h, cb_rtype = t, cb_rclass = c, cb_ttl = 0,
      cb_data = buf, cb_size = sz, cb_name_offset = off, cb_name_length = e - off, cb_record_offset = off, cb_record_length = e - off\<rparr>"
    obtain stop u' where u': "cb q u = Inr (stop, u')" "keeps u'"
      using asked [of q u] sz assms(2) Suc.prems by (auto simp: q_def)
    show ?thesis
      using d(1) r(1) Some f u' Suc.IH [OF Suc.prems, of k "e + 4"] Suc.IH [OF u'(2), of "k + 1" "e + 4"] Suc.prems
      by (cases stop) (simp_all add: call_back_def q_def [symmetric] Let_def)
  qed
qed simp

lemma listen_safe:
  assumes "capacity \<le> length buffer" "12 \<le> length buffer" "keeps u" "\<And>b n. receive datagram buffer capacity = Some (b, n) \<Longrightarrow> fits b n"
    "\<And>p. datagram = Some p \<Longrightarrow> length p + 4 \<le> length buffer"
  shows "\<exists>m b u'. mdns_socket_listen datagram buffer capacity (Some cb) u = Inr (m, b, u') \<and>
    length b = length buffer \<and> keeps u'"
proof (cases "receive datagram buffer capacity")
  case None
  then show ?thesis using assms(3) by (simp add: mdns_socket_listen_def)
next
  case (Some x)
  obtain b n where x: "receive datagram buffer capacity = Some (b, n)" using Some by (cases x) simp
  note b = receive_Some [OF x assms(1)]
  have sz: "n + 4 \<le> length b" "n \<le> length b" using b(1,4) assms(5) by auto
  obtain h where h: "mdns_header b = Inr h"
    using ntohs_ok [of 0 b] ntohs_ok [of 2 b] ntohs_ok [of 4 b] ntohs_ok [of 6 b] ntohs_ok [of 8 b] ntohs_ok [of 10 b] b assms(2)
    by (auto simp: mdns_header_def)
  obtain m r u1 where q: "mdns_listen_questions (Some cb) b n h (hdr_questions h) 0 12 u = Inr (m, r, u1)" "keeps u1"
    using questions_safe [OF sz(1) assms(4) [OF x] assms(3)] by blast
  have recs: "\<exists>m off' u'. mdns_records_parse (Some cb) b n ty qid k 0 off v = Inr (m, off', u') \<and> keeps u'" if "keeps v" for ty qid k off v
    using records_parse_safe [OF sz(2) assms(4) [OF x] that, of 0 0] by fastforce
  show ?thesis
  proof (cases r)
    case None
    then show ?thesis using x h q b(1) by (simp add: mdns_socket_listen_def)
  next
    case (Some off)
    obtain m1 o1 u2 where r1: "mdns_records_parse (Some cb) b n MDNS_ENTRYTYPE_ANSWER (hdr_query_id h) (hdr_answer_rrs h) 0 off u1 =
      Inr (m1, o1, u2)" "keeps u2" using recs [OF q(2)] by blast
    obtain m2 o2 u3 where r2: "mdns_records_parse (Some cb) b n MDNS_ENTRYTYPE_AUTHORITY (hdr_query_id h) (hdr_authority_rrs h) 0 o1 u2 =
      Inr (m2, o2, u3)" "keeps u3" using recs [OF r1(2)] by blast
    obtain m3 o3 u4 where r3: "mdns_records_parse (Some cb) b n MDNS_ENTRYTYPE_ADDITIONAL (hdr_query_id h) (hdr_additional_rrs h) 0 o2 u3 =
      Inr (m3, o3, u4)" "keeps u4" using recs [OF r2(2)] by blast
    show ?thesis using x h q r1 r2 r3 b(1) Some by (simp add: mdns_socket_listen_def Let_def)
  qed
qed

end

lemma dump_safe: "cb_size e \<le> length (cb_data e) \<Longrightarrow> dump_callback e u = Inr (False, u)"
  using extract_spec [of "cb_size e" "cb_data e" "cb_name_offset e" 256] by (auto simp: dump_callback_def)

interpretation dumper: packet_client dump_callback "\<lambda>_ _. True" "\<lambda>_. True"
  by unfold_locales (auto simp: dump_safe)


section \<open>Answering\<close>

text \<open>A service whose records are of their types, with names that are not empty, and two texts.\<close>

definition service_ok :: "service_t \<Rightarrow> bool" where
  "service_ok s \<longleftrightarrow> sv_service s \<noteq> [] \<and> sv_service_instance s \<noteq> [] \<and> sv_hostname_qualified s \<noteq> [] \<and> length (sv_txt_record s) = 2 \<and>
     (\<forall>r \<in> set (sv_record_ptr s # sv_record_srv s # sv_record_a s # sv_record_aaaa s # sv_txt_record s). record_typed r)"

lemma make_service_ok: "service \<noteq> [] \<Longrightarrow> service_ok (make_service hostname service port ipv4 ipv6)"
  by (simp add: make_service_def service_ok_def Let_def mk_record_def record_typed_def)

lemma same_name_nonempty: "same_name name s \<Longrightarrow> s \<noteq> [] \<Longrightarrow> name \<noteq> []"
  by (auto simp: same_name_def)

lemma choose_answer_cases:
  assumes "choose_answer s name rtype = Some (a, rs)"
  shows "(\<exists>t \<in> {dns_sd, sv_service s, sv_service_instance s, sv_hostname_qualified s}. same_name name t) \<and>
    (a, rs) \<in> {(mk_record name MDNS_RECORDTYPE_PTR (PtrData (sv_service s)), []),
      (sv_record_ptr s, sv_record_srv s # add_a s @ add_aaaa s @ sv_txt_record s),
      (sv_record_srv s, add_a s @ add_aaaa s @ sv_txt_record s),
      (sv_record_a s, add_aaaa s @ sv_txt_record s), (sv_record_aaaa s, add_a s @ sv_txt_record s)}"
  using assms unfolding choose_answer_def by (simp split: if_splits)

lemma choose_answer_ok:
  assumes "service_ok s" "choose_answer s name rtype = Some (a, rs)"
  shows "\<forall>r \<in> set (a # rs). record_typed r" "length rs \<le> 5" "name \<noteq> []"
proof -
  note c = choose_answer_cases [OF assms(2)]
  have ok: "sv_service s \<noteq> []" "sv_service_instance s \<noteq> []" "sv_hostname_qualified s \<noteq> []" "length (sv_txt_record s) = 2"
    "\<forall>r \<in> set (sv_record_ptr s # sv_record_srv s # sv_record_a s # sv_record_aaaa s # sv_txt_record s). record_typed r"
    using assms(1) by (simp_all add: service_ok_def)
  show n: "name \<noteq> []" using c ok by (auto dest: same_name_nonempty simp: dns_sd_def)
  have one: "record_typed (mk_record name MDNS_RECORDTYPE_PTR (PtrData (sv_service s)))" using n ok by (simp add: record_typed_def mk_record_def)
  have add: "set (add_a s) \<subseteq> {sv_record_a s}" "set (add_aaaa s) \<subseteq> {sv_record_aaaa s}" "length (add_a s) \<le> 1" "length (add_aaaa s) \<le> 1"
    by (auto simp: add_a_def add_aaaa_def)
  show "\<forall>r \<in> set (a # rs). record_typed r" using c ok(5) one add by auto
  show "length rs \<le> 5" using c ok(4) add by auto
qed

definition answering :: "responder \<Rightarrow> bool" where
  "answering = (\<lambda>(s, sendbuffer, sent). service_ok s \<and> length sendbuffer = 1024 \<and> (\<forall>(dest, p) \<in> set sent. length p \<le> 2048))"

lemma service_safe:
  assumes "cb_size e \<le> length (cb_data e)" "answering u"
  shows "\<exists>stop u'. service_callback sock from e u = Inr (stop, u') \<and> answering u'"
proof -
  obtain s sb sent where u: "u = (s, sb, sent)" by (cases u)
  have ok: "service_ok s" "length sb = 1024" using assms(2) by (simp_all add: u answering_def)
  obtain r where r: "mdns_string_extract (cb_data e) (cb_size e) (cb_name_offset e) 256 = Inr r" using extract_spec [OF assms(1)] by blast
  show ?thesis
  proof (cases "choose_answer s (extracted r) (cb_rtype e)")
    case None
    then show ?thesis using assms(2) r by (auto simp: service_callback_def u Let_def)
  next
    case (Some x)
    obtain a rs where x: "choose_answer s (extracted r) (cb_rtype e) = Some (a, rs)" using Some by (cases x) simp
    note c = choose_answer_ok [OF ok(1) x]
    let ?send = "if cb_rclass e AND MDNS_UNICAST_RESPONSE \<noteq> 0
      then mdns_query_answer_unicast sock from sb 1024 (cb_query_id e) (cb_rtype e) (extracted r) (length (extracted r)) a [] rs
      else mdns_query_answer_multicast sock sb 1024 a [] rs"
    have "\<exists>res b out. ?send = Inr (res, b, out) \<and> length b = 1024 \<and> (\<forall>(dest, p) \<in> set out. length p \<le> 1024)"
      using unicast_answer_safe [of a "[]" rs sb 1024 "extracted r"] multicast_answer_safe [of a "[]" rs sb 1024] c ok(2)
      by (simp add: mdns_query_answer_multicast_def)
    then obtain res b out where send: "?send = Inr (res, b, out)" "length b = 1024" "\<forall>(dest, p) \<in> set out. length p \<le> 1024" by blast
    have arr: "additional_array rs = Inr rs" using c(2) by (simp add: additional_array_def)
    have "service_callback sock from e u \<in> {Inr (False, u), Inr (False, s, b, sent @ out)}"
      using r x send(1) arr by (simp add: service_callback_def u Let_def)
    moreover have "answering (s, b, sent @ out)" using assms(2) send(2,3) by (fastforce simp: u answering_def)
    ultimately show ?thesis using assms(2) by blast
  qed
qed

interpretation responder: packet_client "service_callback sock peer" "\<lambda>_ _. True" answering for sock peer
  by unfold_locales (rule service_safe)


section \<open>The whole service\<close>

text \<open>What \<open>recvfrom\<close> returns in a round: datagrams that leave four bytes of the block.\<close>

definition round_fits :: "(string \<times> string option) option list \<Rightarrow> bool" where
  "round_fits r \<longleftrightarrow> (\<forall>peer p. Some (peer, Some p) \<in> set r \<longrightarrow> length p \<le> 2044)"

lemma listen_ready_safe:
  assumes "\<And>sock peer. packet_client (cb sock peer) (\<lambda>_ _. True) keeps"
  shows "\<forall>peer p. Some (peer, Some p) \<in> snd ` set rs \<longrightarrow> length p \<le> 2044 \<Longrightarrow> length buffer = 2048 \<Longrightarrow> keeps u \<Longrightarrow>
    \<exists>b u'. listen_ready rs cb buffer u = Inr (b, u') \<and> length b = 2048 \<and> keeps u'"
proof (induction rs arbitrary: buffer u)
  case (Cons x rs)
  obtain sock ready where x: "x = (sock, ready)" by (cases x)
  note IH = Cons.IH [OF _ _ _]
  show ?case
  proof (cases ready)
    case None
    then show ?thesis using Cons by (auto simp: x)
  next
    case (Some y)
    obtain peer d where y: "y = (peer, d)" by (cases y)
    have "\<And>p. d = Some p \<Longrightarrow> length p + 4 \<le> length buffer" using Cons.prems(1,2) by (fastforce simp: x Some y)
    then obtain m b u' where l: "mdns_socket_listen d buffer 2048 (Some (cb sock peer)) u = Inr (m, b, u')" "length b = 2048" "keeps u'"
      using packet_client.listen_safe [OF assms, of 2048 buffer u d sock peer] Cons.prems by auto
    obtain b2 u2 where "listen_ready rs cb b u' = Inr (b2, u2)" "length b2 = 2048" "keeps u2"
      using Cons.IH [OF _ l(2,3)] Cons.prems(1) by auto
    then show ?thesis using l(1) by (simp add: x Some y)
  qed
qed simp

lemma listen_rounds_safe:
  assumes "\<And>sock peer. packet_client (cb sock peer) (\<lambda>_ _. True) keeps"
  shows "\<forall>r \<in> set rounds. round_fits r \<Longrightarrow> length buffer = 2048 \<Longrightarrow> keeps u \<Longrightarrow>
    \<exists>b u'. listen_rounds sockets rounds cb buffer u = Inr (b, u') \<and> length b = 2048 \<and> keeps u'"
proof (induction rounds arbitrary: buffer u)
  case (Cons r rounds)
  have "\<forall>peer p. Some (peer, Some p) \<in> snd ` set (zip sockets r) \<longrightarrow> length p \<le> 2044"
    using Cons.prems(1) by (force simp: round_fits_def dest: set_zip_rightD)
  from listen_ready_safe [where cb = cb, OF assms this Cons.prems(2,3)] obtain b u' where
    r: "listen_ready (zip sockets r) cb buffer u = Inr (b, u')" "length b = 2048" "keeps u'" by blast
  from Cons.IH [OF _ r(2,3)] Cons.prems(1) r(1) show ?case by auto
qed simp

lemma on_sockets_safe:
  assumes "\<And>sock b. length b = 2048 \<Longrightarrow> \<exists>res b' out. send sock b = Inr (res, b', out) \<and> length b' = 2048 \<and> (\<forall>(dest, p) \<in> set out. length p \<le> 2048)"
  shows "length buffer = 2048 \<Longrightarrow>
    \<exists>b out. on_sockets send ss buffer = Inr (b, out) \<and> length b = 2048 \<and> (\<forall>(dest, p) \<in> set out. length p \<le> 2048)"
proof (induction ss arbitrary: buffer)
  case (Cons s ss)
  obtain res b out where s: "send s buffer = Inr (res, b, out)" "length b = 2048" "\<forall>(dest, p) \<in> set out. length p \<le> 2048"
    using assms [OF Cons.prems] by blast
  obtain b2 out2 where "on_sockets send ss b = Inr (b2, out2)" "length b2 = 2048" "\<forall>(dest, p) \<in> set out2. length p \<le> 2048"
    using Cons.IH [OF s(2)] by blast
  then show ?case using s by auto
qed simp

lemma service_returns:
  assumes "\<forall>r \<in> set rounds. round_fits r" "length buffer = 2048" "length sendbuffer = 1024"
  shows "\<exists>res out. service_mdns interfaces calls4 calls6 hostname service_name port rounds buffer sendbuffer = Inr (res, out) \<and>
    (\<forall>(dest, p) \<in> set out. length p \<le> 2048) \<and>
    (if open_service_sockets calls4 calls6 = [] \<or> service_name = [] then res = - 1 \<and> out = [] else res = 0) \<and>
    (\<exists>res. dump_mdns calls4 calls6 rounds buffer = Inr res)"
proof -
  let ?socks = "open_service_sockets calls4 calls6"
  obtain b1 where dump: "listen_rounds ?socks rounds (\<lambda>_ _. dump_callback) buffer () = Inr (b1, ())"
    using listen_rounds_safe [of "\<lambda>_ _. dump_callback" "\<lambda>_. True" rounds buffer "()" ?socks] dumper.packet_client_axioms assms(1,2) by auto
  then have d: "\<exists>res. dump_mdns calls4 calls6 rounds buffer = Inr res" by (simp add: dump_mdns_def Let_def)
  show ?thesis
  proof (cases "?socks = [] \<or> service_name = []")
    case True
    then show ?thesis using d by (auto simp: service_mdns_def Let_def)
  next
    case False
    obtain ipv4 ipv6 where a: "service_addresses interfaces None None = (ipv4, ipv6)" by fastforce
    define s where "s = make_service hostname (full_service_name service_name) port ipv4 ipv6"
    have ok: "service_ok s" unfolding s_def by (rule make_service_ok) (use False in \<open>simp add: full_service_name_def\<close>)
    have typed: "\<forall>r \<in> set (sv_record_ptr s # [] @ announced s). record_typed r"
      using ok by (auto simp: service_ok_def announced_def add_a_def add_aaaa_def)
    have arr: "additional_array (announced s) = Inr (announced s)"
      using ok by (simp add: service_ok_def additional_array_def announced_def add_a_def add_aaaa_def)
    obtain b out where hello: "on_sockets (\<lambda>sock b. mdns_announce_multicast sock b 2048 (sv_record_ptr s) [] (announced s)) ?socks buffer = Inr (b, out)"
      "length b = 2048" "\<forall>(dest, p) \<in> set out. length p \<le> 2048"
      using on_sockets_safe [of "\<lambda>sock b. mdns_announce_multicast sock b 2048 (sv_record_ptr s) [] (announced s)" buffer ?socks]
        multicast_answer_safe [OF typed] assms(2) by (auto simp: mdns_announce_multicast_def)
    have "answering (s, sendbuffer, out)" using ok assms(3) hello(3) by (simp add: answering_def)
    then obtain b' s' sb out' where l: "listen_rounds ?socks rounds service_callback b (s, sendbuffer, out) = Inr (b', s', sb, out')"
      "length b' = 2048" "\<forall>(dest, p) \<in> set out'. length p \<le> 2048"
      using listen_rounds_safe [where cb = service_callback, OF responder.packet_client_axioms assms(1) hello(2), of "(s, sendbuffer, out)" ?socks]
      by (auto simp: answering_def)
    obtain b2 out2 where bye: "on_sockets (\<lambda>sock b. mdns_goodbye_multicast sock b 2048 (sv_record_ptr s) [] (announced s)) ?socks b' = Inr (b2, out2)"
      "\<forall>(dest, p) \<in> set out2. length p \<le> 2048"
      using on_sockets_safe [of "\<lambda>sock b. mdns_goodbye_multicast sock b 2048 (sv_record_ptr s) [] (announced s)" b' ?socks]
        multicast_answer_safe [OF typed] l(2) by (auto simp: mdns_goodbye_multicast_def)
    show ?thesis
      using False a arr hello(1) l(1,3) bye d by (auto simp: service_mdns_def Let_def s_def [symmetric])
  qed
qed

text \<open>
  C33: the service on any traffic. Whatever datagrams of at most 2044 bytes arrive, in any rounds on its sockets,
  the service announces itself, answers and says goodbye without a read or write outside its blocks, and hands out no
  datagram of more than 2048 bytes; the additional records fit into their five places. It fails, and sends nothing, exactly when no socket
  could be opened or the name of the service is empty. The program that only prints what arrives is as safe.
\<close>

theorem service_on_any_traffic:
  assumes "\<forall>r \<in> set rounds. round_fits r" "length buffer = 2048" "length sendbuffer = 1024"
  shows "\<exists>res out. service_mdns interfaces calls4 calls6 hostname service_name port rounds buffer sendbuffer = Inr (res, out) \<and>
    (\<forall>(dest, p) \<in> set out. length p \<le> 2048) \<and>
    (if open_service_sockets calls4 calls6 = [] \<or> service_name = [] then res = - 1 \<and> out = [] else res = 0) \<and>
    (\<exists>res. dump_mdns calls4 calls6 rounds buffer = Inr res)"
  by (rule service_returns [OF assms])

theorem service_on_any_traffic_witness:
  "\<exists>res out. service_mdns [] \<lparr>sys_socket = None, sys_join = True, sys_bind = True\<rparr> \<lparr>sys_socket = Some demo_sock, sys_join = True, sys_bind = True\<rparr>
      ''hub'' ''_ezm._tcp.local'' 1883 [[Some (''10.0.0.9'', Some (replicate 40 CHR 0xC0))]] (replicate 2048 CHR 0x00) (replicate 1024 CHR 0x00) =
      Inr (res, out) \<and> (\<forall>(dest, p) \<in> set out. length p \<le> 2048) \<and> res = 0"
  using service_on_any_traffic [of "[[Some (''10.0.0.9'', Some (replicate 40 CHR 0xC0))]]" "replicate 2048 CHR 0x00" "replicate 1024 CHR 0x00"
    "[]" "\<lparr>sys_socket = None, sys_join = True, sys_bind = True\<rparr>" "\<lparr>sys_socket = Some demo_sock, sys_join = True, sys_bind = True\<rparr>"
    "''hub''" "''_ezm._tcp.local''" 1883]
  by (auto simp: round_fits_def open_service_sockets_def mdns_socket_open_def mdns_socket_setup_def)


section \<open>The answer to a question\<close>

text \<open>
  The records of the service from the top down, and the answer to a name and a type: the first record that fits, other than a
  text, with those of the others that are not above it. The list of services stands alone.
\<close>

definition own_records :: "service_t \<Rightarrow> mdns_record_t list" where
  "own_records s = sv_record_ptr s # sv_record_srv s # add_a s @ add_aaaa s @ sv_txt_record s"

definition level :: "mdns_record_t \<Rightarrow> nat" where
  "level r = (if rec_name r = dns_sd then 3 else if rec_type r = MDNS_RECORDTYPE_PTR then 0 else if rec_type r = MDNS_RECORDTYPE_SRV then 1 else 2)"

definition asked_for :: "string \<Rightarrow> 16 word \<Rightarrow> mdns_record_t \<Rightarrow> bool" where
  "asked_for name rtype r \<longleftrightarrow> rec_name r = name \<and> (rtype = rec_type r \<or> rtype = MDNS_RECORDTYPE_ANY) \<and> rec_type r \<noteq> MDNS_RECORDTYPE_TXT"

definition zone_answer :: "service_t \<Rightarrow> string \<Rightarrow> 16 word \<Rightarrow> (mdns_record_t \<times> mdns_record_t list) option" where
  "zone_answer s name rtype = map_option (\<lambda>r. (r, filter (\<lambda>x. x \<noteq> r \<and> level r \<le> level x) (own_records s)))
     (find (asked_for name rtype) (mk_record dns_sd MDNS_RECORDTYPE_PTR (PtrData (sv_service s)) # own_records s))"

definition names_ok :: "service_t \<Rightarrow> bool" where
  "names_ok s \<longleftrightarrow> distinct [dns_sd, sv_service s, sv_service_instance s, sv_hostname_qualified s] \<and>
     (\<forall>n \<in> {sv_service s, sv_service_instance s, sv_hostname_qualified s}. CHR 0x00 \<notin> set n)"

lemma same_name_iff:
  assumes "CHR 0x00 \<notin> set s"
  shows "same_name name s \<longleftrightarrow> name = s"
proof -
  have s: "takeWhile (\<lambda>c. c \<noteq> CHR 0x00) s = s" using assms by (auto simp: takeWhile_eq_all_conv)
  have eq: "name = s" if "length name = length s" "takeWhile (\<lambda>c. c \<noteq> CHR 0x00) name = s"
  proof -
    have "take (length s) name = s" using takeWhile_eq_take [of "\<lambda>c. c \<noteq> CHR 0x00" name] that(2) by metis
    then show ?thesis using that(1) by simp
  qed
  show ?thesis unfolding same_name_def s by (rule iffI) (use eq in blast, simp only: s simp_thms)
qed

lemma choose_is_zone_answer:
  assumes "s = make_service hostname service port ipv4 ipv6" "names_ok s"
  shows "choose_answer s name rtype = zone_answer s name rtype"
proof -
  let ?inst = "sv_service_instance s" let ?host = "sv_hostname_qualified s"
  have nul: "CHR 0x00 \<notin> set dns_sd" by (simp add: dns_sd_def)
  have d: "distinct [dns_sd, sv_service s, ?inst, ?host]" "CHR 0x00 \<notin> set (sv_service s)" "CHR 0x00 \<notin> set ?inst" "CHR 0x00 \<notin> set ?host"
    using assms(2) by (auto simp: names_ok_def)
  have r: "sv_record_ptr s = mk_record (sv_service s) MDNS_RECORDTYPE_PTR (PtrData ?inst)"
    "sv_record_srv s = mk_record ?inst MDNS_RECORDTYPE_SRV (SrvData 0 0 (ucast port) ?host)"
    "\<exists>b. sv_record_a s = mk_record ?host MDNS_RECORDTYPE_A (AData b)"
    "\<exists>b. sv_record_aaaa s = mk_record ?host MDNS_RECORDTYPE_AAAA (AaaaData b)"
    "\<exists>x y. sv_txt_record s = [mk_record ?inst MDNS_RECORDTYPE_TXT x, mk_record ?inst MDNS_RECORDTYPE_TXT y]"
    by (auto simp: assms(1) make_service_def Let_def)
  have ne: "dns_sd \<noteq> sv_service s" "sv_service s \<noteq> dns_sd" "dns_sd \<noteq> ?inst" "?inst \<noteq> dns_sd" "dns_sd \<noteq> ?host" "?host \<noteq> dns_sd"
    "sv_service s \<noteq> ?inst" "?inst \<noteq> sv_service s" "sv_service s \<noteq> ?host" "?host \<noteq> sv_service s" "?inst \<noteq> ?host" "?host \<noteq> ?inst"
    using d(1) by auto
  obtain b4 b6 x y where rr: "sv_record_a s = mk_record ?host MDNS_RECORDTYPE_A (AData b4)"
    "sv_record_aaaa s = mk_record ?host MDNS_RECORDTYPE_AAAA (AaaaData b6)"
    "sv_txt_record s = [mk_record ?inst MDNS_RECORDTYPE_TXT x, mk_record ?inst MDNS_RECORDTYPE_TXT y]" using r(3-5) by blast
  have mk: "rec_name (mk_record n t v) = n" "rec_type (mk_record n t v) = t"
    "mk_record n t v = mk_record n' t' v' \<longleftrightarrow> n = n' \<and> t = t' \<and> v = v'" for n t v n' t' v'
    by (auto simp: mk_record_def)
  consider "name = dns_sd" | "name = sv_service s" | "name = ?inst" | "name = ?host" |
    "name \<notin> {dns_sd, sv_service s, ?inst, ?host}" by blast
  then show ?thesis
  proof cases
    case 1
    then show ?thesis using nul ne by (simp add: choose_answer_def zone_answer_def own_records_def asked_for_def level_def add_a_def add_aaaa_def same_name_iff r(1,2) rr mk)
  next
    case 2
    then show ?thesis using nul ne d
      by (cases "sv_address_ipv4 s"; cases "sv_address_ipv6 s")
        (simp_all add: choose_answer_def zone_answer_def own_records_def asked_for_def level_def add_a_def add_aaaa_def same_name_iff r(1,2) rr mk)
  next
    case 3
    then show ?thesis using nul ne d
      by (cases "sv_address_ipv4 s"; cases "sv_address_ipv6 s")
        (simp_all add: choose_answer_def zone_answer_def own_records_def asked_for_def level_def add_a_def add_aaaa_def same_name_iff r(1,2) rr mk)
  next
    case 4
    then show ?thesis using nul ne d
      by (cases "sv_address_ipv4 s"; cases "sv_address_ipv6 s")
        (simp_all add: choose_answer_def zone_answer_def own_records_def asked_for_def level_def add_a_def add_aaaa_def same_name_iff r(1,2) rr mk)
  next
    case 5
    then have "dns_sd \<noteq> name" "sv_service s \<noteq> name" "?inst \<noteq> name" "?host \<noteq> name" by auto
    then show ?thesis using nul d
      by (simp add: choose_answer_def zone_answer_def own_records_def asked_for_def add_a_def add_aaaa_def same_name_iff r(1,2) rr mk)
  qed
qed

text \<open>A packet that asks one question.\<close>

definition question_packet :: "16 word \<Rightarrow> string list \<Rightarrow> 16 word \<Rightarrow> 16 word \<Rightarrow> packet" where
  "question_packet qid ls rtype rclass =
     \<lparr>pk_id = qid, pk_flags = 0, pk_questions = [(ls, rtype, rclass)], pk_answers = [], pk_authority = [], pk_additional = []\<rparr>"

lemma length_dotted_wire: "length (dotted ls) + 1 = length (wire ls)"
  by (simp add: length_dotted length_wire)

lemma services_query_end:
  assumes "sz \<le> length buf" "name_at 16 buf sz off ls e" "is_services_query buf sz off = Inr (Some e')"
  shows "e' = e"
proof -
  obtain r where r: "mdns_string_equal buf sz off mdns_services_query (length mdns_services_query) 12 = Inr r"
    "\<And>u v. r = Some (u, v) \<Longrightarrow> \<exists>ls. name_at 16 buf sz off ls u"
    using equal_spec [OF assms(1) le_refl [of "length mdns_services_query"], of off 12] by fastforce
  have "map_option fst r = Some e'" using assms(3) unfolding is_services_query_def r(1) by simp
  then obtain v where "r = Some (e', v)" by (cases r) auto
  from r(2) [OF this] obtain ls' where "name_at 16 buf sz off ls' e'" by blast
  from name_at_deterministic [OF assms(2) this] show ?thesis by simp
qed

lemma listen_question:
  assumes "labels_ok ls" "length (wire ls) \<le> 255" "rclass AND NOT MDNS_CACHE_FLUSH \<in> {MDNS_CLASS_IN, MDNS_CLASS_ANY}" "length buffer = 2048"
  shows "\<exists>b e. mdns_socket_listen (Some (packet_wire (question_packet qid ls rtype rclass))) buffer 2048 (Some cb) u =
      or_fault (cb e u) (\<lambda>(stop, u). Inr (1, b, u)) \<and>
    mdns_string_extract (cb_data e) (cb_size e) (cb_name_offset e) 256 = Inr (Some (cb_name_offset e + length (wire ls), dotted ls)) \<and>
    cb_entry e = MDNS_ENTRYTYPE_QUESTION \<and> cb_query_id e = qid \<and> cb_rtype e = rtype \<and> cb_rclass e = rclass"
proof -
  let ?w = "packet_wire (question_packet qid ls rtype rclass)"
  let ?h = "header_bytes qid 0 1 0 0 0"
  have w: "?w = ?h @ wire ls @ net16 rtype @ net16 rclass" by (simp add: packet_wire_def question_packet_def question_wire_def)
  have h: "length ?h = 12" by (simp add: header_bytes_def)
  have n: "length ?w = 16 + length (wire ls)" by (simp add: w h)
  define n where "n = length ?w"
  define b where "b = ?w @ drop n buffer"
  have b: "n \<le> length b" "length b = 2048" using assms(2,4) n by (simp_all add: b_def n_def)
  have rec: "receive (Some ?w) buffer 2048 = Some (b, n)" using assms(2) n by (simp add: receive_def Let_def b_def n_def)
  have hdr: "mdns_header b = Inr \<lparr>hdr_query_id = qid, hdr_flags = 0, hdr_questions = 1, hdr_answer_rrs = 0, hdr_authority_rrs = 0,
      hdr_additional_rrs = 0\<rparr>" using header_read [of qid 0 1 0 0 0 "wire ls @ net16 rtype @ net16 rclass @ drop n buffer"] by (simp add: b_def w)
  have at: "name_at 16 b n 12 ls (12 + length (wire ls))"
    using wire_name [of ls ?h n 16 "net16 rtype @ net16 rclass @ drop n buffer"] assms(1) n by (fastforce simp: b_def w h labels_ok_def n_def)
  have short: "length (dotted ls) \<le> 256" using assms(2) length_dotted_wire [of ls] by simp
  obtain r where "mdns_string_extract b n 12 256 = Inr r"
    "\<And>e t. r = Some (e, t) \<longleftrightarrow> (\<exists>ls. name_at 16 b n 12 ls e \<and> length ls \<le> 64 \<and> t = take 256 (dotted ls))"
    using extract_spec [OF b(1), of 12 256] by blast
  then have ext: "mdns_string_extract b n 12 256 = Inr (Some (12 + length (wire ls), dotted ls))"
    using at short assms(1) by (auto simp: labels_ok_def)
  have skip: "mdns_string_skip b n 12 = Inr (Some (12 + length (wire ls)))"
    by (rule skip_wire [OF assms(1), where pre = ?h and post = "net16 rtype @ net16 rclass @ drop n buffer", of b n 12, unfolded h])
      (use n b(1) in \<open>simp_all add: b_def w n_def h\<close>)
  obtain d where d: "is_services_query b n 12 = Inr d" using services_query_safe [OF b(1)] by blast
  have at_end: "(case d of None \<Rightarrow> mdns_string_skip b n 12 | Some e \<Rightarrow> Inr (Some e)) = Inr (Some (12 + length (wire ls)))"
    using skip services_query_end [OF b(1) at] d by (cases d) auto
  have f: "mdns_ntohs b (12 + length (wire ls)) = Inr rtype" "mdns_ntohs b (12 + length (wire ls) + 2) = Inr rclass"
    by (rule ntohs_here [where pre = "?h @ wire ls" and post = "net16 rclass @ drop n buffer"]
        ntohs_here [where pre = "?h @ wire ls @ net16 rtype" and post = "drop n buffer"]; simp add: b_def w h)+
  define e where "e = \<lparr>cb_entry = MDNS_ENTRYTYPE_QUESTION, cb_query_id = qid, cb_rtype = rtype, cb_rclass = rclass, cb_ttl = 0,
    cb_data = b, cb_size = n, cb_name_offset = 12, cb_name_length = length (wire ls), cb_record_offset = 12, cb_record_length = length (wire ls)\<rparr>"
  have "mdns_listen_questions (Some cb) b n \<lparr>hdr_query_id = qid, hdr_flags = 0, hdr_questions = 1, hdr_answer_rrs = 0, hdr_authority_rrs = 0,
      hdr_additional_rrs = 0\<rparr> (Suc 0) 0 12 u =
    or_fault (cb e u) (\<lambda>(stop, u). Inr (1, if stop then None else Some (16 + length (wire ls)), u))"
    using d at_end f assms(3) by (cases "cb e u") (auto simp: Let_def call_back_def e_def)
  then have "mdns_socket_listen (Some ?w) buffer 2048 (Some cb) u = or_fault (cb e u) (\<lambda>(stop, u). Inr (1, b, u))"
    using rec hdr by (cases "cb e u") (auto simp: mdns_socket_listen_def Let_def)
  moreover have "cb_data e = b" "cb_size e = n" "cb_name_offset e = 12" "cb_entry e = MDNS_ENTRYTYPE_QUESTION" "cb_query_id e = qid"
    "cb_rtype e = rtype" "cb_rclass e = rclass" by (simp_all add: e_def)
  ultimately show ?thesis using ext by metis
qed

text \<open>
  C32: a question is answered from the records of the service. A packet with one question for a name of at most
  255 bytes on the wire, of a type the service knows and the class of the internet, is answered by the first record of
  that name and type with those below it, to the sender if the question asks for it, and otherwise to the group; when there is no such record, nothing
  is sent. This holds for names that differ and are compared with their case; a question for a text is never answered, although its type is accepted.
\<close>

theorem question_answered:
  assumes "s = make_service hostname service port ipv4 ipv6" "names_ok s" "service \<noteq> []" "labels_ok ls" "length (wire ls) \<le> 255"
    "rtype \<in> {MDNS_RECORDTYPE_PTR, MDNS_RECORDTYPE_SRV, MDNS_RECORDTYPE_A, MDNS_RECORDTYPE_AAAA, MDNS_RECORDTYPE_TXT, MDNS_RECORDTYPE_ANY}"
    "rclass AND NOT MDNS_CACHE_FLUSH \<in> {MDNS_CLASS_IN, MDNS_CLASS_ANY}" "length buffer = 2048" "length sendbuffer = 1024"
  shows "\<exists>b sb sent. mdns_socket_listen (Some (packet_wire (question_packet qid ls rtype rclass))) buffer 2048
      (Some (service_callback sock peer)) (s, sendbuffer, []) = Inr (1, b, s, sb, sent) \<and>
    (case zone_answer s (dotted ls) rtype of
       None \<Rightarrow> sent = []
     | Some (answer, additional) \<Rightarrow> \<exists>res.
         (if rclass AND MDNS_UNICAST_RESPONSE \<noteq> 0
          then mdns_query_answer_unicast sock peer sendbuffer 1024 qid rtype (dotted ls) (length (dotted ls)) answer [] additional
          else mdns_query_answer_multicast sock sendbuffer 1024 answer [] additional) = Inr (res, sb, sent)) \<and>
    zone_answer s (dotted ls) MDNS_RECORDTYPE_TXT = None"
proof -
  let ?cb = "service_callback sock peer"
  obtain b e where e: "mdns_socket_listen (Some (packet_wire (question_packet qid ls rtype rclass))) buffer 2048 (Some ?cb) (s, sendbuffer, []) =
      or_fault (?cb e (s, sendbuffer, [])) (\<lambda>(stop, u). Inr (1, b, u))"
    "mdns_string_extract (cb_data e) (cb_size e) (cb_name_offset e) 256 = Inr (Some (cb_name_offset e + length (wire ls), dotted ls))"
    "cb_entry e = MDNS_ENTRYTYPE_QUESTION" "cb_query_id e = qid" "cb_rtype e = rtype" "cb_rclass e = rclass"
    using listen_question [OF assms(4,5,7,8), of qid rtype ?cb "(s, sendbuffer, [])"] by blast
  have ok: "service_ok s" unfolding assms(1) by (rule make_service_ok [OF assms(3)])
  have zone: "zone_answer s (dotted ls) rtype = choose_answer s (dotted ls) rtype" by (rule choose_is_zone_answer [OF assms(1,2), symmetric])
  have no_text: "zone_answer s (dotted ls) MDNS_RECORDTYPE_TXT = None"
    unfolding choose_is_zone_answer [OF assms(1,2), symmetric] by (simp add: choose_answer_def)
  have here: "extracted (Some (k, t)) = t" for k t by (simp add: extracted_def)
  show ?thesis
  proof (cases "choose_answer s (dotted ls) rtype")
    case None
    then have "?cb e (s, sendbuffer, []) = Inr (False, s, sendbuffer, [])"
      using e(2-6) assms(6) by (auto simp: service_callback_def here Let_def)
    then show ?thesis using e(1) None no_text unfolding zone by simp
  next
    case (Some x)
    obtain a rs where x: "choose_answer s (dotted ls) rtype = Some (a, rs)" using Some by (cases x) simp
    note c = choose_answer_ok [OF ok x]
    let ?send = "if rclass AND MDNS_UNICAST_RESPONSE \<noteq> 0
      then mdns_query_answer_unicast sock peer sendbuffer 1024 qid rtype (dotted ls) (length (dotted ls)) a [] rs
      else mdns_query_answer_multicast sock sendbuffer 1024 a [] rs"
    have "\<exists>res sb sent. ?send = Inr (res, sb, sent)"
      using unicast_answer_safe [of a "[]" rs sendbuffer 1024 "dotted ls"] multicast_answer_safe [of a "[]" rs sendbuffer 1024] c assms(9)
      by (fastforce simp: mdns_query_answer_multicast_def)
    then obtain res sb sent where send: "?send = Inr (res, sb, sent)" by blast
    have "?cb e (s, sendbuffer, []) = Inr (False, s, sb, sent)"
      using e(2-6) assms(6) x c(2) send
      by (cases "rclass AND MDNS_UNICAST_RESPONSE = 0") (auto simp: service_callback_def here Let_def additional_array_def)
    then show ?thesis using e(1) x no_text send unfolding zone by simp
  qed
qed

definition demo_responder :: service_t where
  "demo_responder = make_service ''hub'' ''_ezm._tcp.local.'' 1883 (Some [CHR 0x0A, CHR 0x00, CHR 0x00, CHR 0x01]) None"

definition silent_sock :: mdns_socket where
  "silent_sock = \<lparr>sock_name = Some (AF_INET, 5353), sock_sends = True\<rparr>"

theorem question_answered_witness:
  "zone_answer demo_responder ''_ezm._tcp.local.'' MDNS_RECORDTYPE_PTR = Some (sv_record_ptr demo_responder,
     [sv_record_srv demo_responder, sv_record_a demo_responder] @ sv_txt_record demo_responder) \<and>
   (\<exists>b sb sent res. mdns_socket_listen (Some (packet_wire (question_packet 7 demo_service MDNS_RECORDTYPE_PTR MDNS_CLASS_IN)))
       (replicate 2048 CHR 0x00) 2048 (Some (service_callback silent_sock ''10.0.0.9'')) (demo_responder, replicate 1024 CHR 0x00, []) =
       Inr (1, b, demo_responder, sb, sent) \<and>
     mdns_query_answer_multicast silent_sock (replicate 1024 CHR 0x00) 1024 (sv_record_ptr demo_responder) []
       ([sv_record_srv demo_responder, sv_record_a demo_responder] @ sv_txt_record demo_responder) = Inr (res, sb, sent))"
proof -
  have z: "zone_answer demo_responder ''_ezm._tcp.local.'' MDNS_RECORDTYPE_PTR = Some (sv_record_ptr demo_responder,
     [sv_record_srv demo_responder, sv_record_a demo_responder] @ sv_txt_record demo_responder)"
    by (simp add: zone_answer_def own_records_def asked_for_def level_def dns_sd_def mk_record_def add_a_def add_aaaa_def
        demo_responder_def make_service_def Let_def)
  have d: "dotted demo_service = ''_ezm._tcp.local.''" by (simp add: demo_service_def)
  have n: "names_ok demo_responder" by (simp add: names_ok_def demo_responder_def make_service_def Let_def dns_sd_def)
  have l: "labels_ok demo_service" "length (wire demo_service) \<le> 255" by (simp_all add: labels_ok_def demo_service_def length_wire)
  have c: "(MDNS_CLASS_IN AND NOT MDNS_CACHE_FLUSH) \<in> {MDNS_CLASS_IN, MDNS_CLASS_ANY}" "\<not> (MDNS_CLASS_IN AND MDNS_UNICAST_RESPONSE \<noteq> 0)"
    by simp_all
  from question_answered [OF demo_responder_def n _ l _ c(1), of MDNS_RECORDTYPE_PTR "replicate 2048 CHR 0x00" "replicate 1024 CHR 0x00" 7
      silent_sock "''10.0.0.9''"]
  show ?thesis unfolding d z by (auto simp: c(2))
qed

end
