(* ===== verification/Browse.thy ===== *)
theory Browse
  imports Responder
begin

text \<open>
  \<open>lib/mdns/mdns.c\<close>, the rest: the callback that prints what is received, the two clients that browse for services
  and for names, and the command line. What is printed is a list of lines; the address of the sender in front of a line is
  left out.
\<close>

section \<open>Printing\<close>

datatype printed =
    PrintPtr cptr
  | PrintSrv mdns_record_srv_t
  | PrintA string
  | PrintAaaa string
  | PrintTxt cptr "cptr option"
  | PrintOther "16 word" "16 word" "32 word" nat

type_synonym line = "mdns_entry_type_t \<times> string \<times> printed"

text \<open>\<open>%.*s\<close> reads the given number of characters, or up to the terminator. A text without a value is printed without one.\<close>

fun print_texts :: "mdns_record_txt_t list \<Rightarrow> fault + printed list" where
  "print_texts [] = Inr []"
| "print_texts (t # ts) =
     or_fault (packet_strndup (txt_key t) (txt_key_length t)) (\<lambda>key.
     or_fault (if txt_value_length t \<noteq> 0 then map_sum id Some (packet_strndup (txt_value t) (txt_value_length t)) else Inr None) (\<lambda>val.
     or_fault (print_texts ts) (\<lambda>ps. Inr (PrintTxt key val # ps))))"

definition print_callback :: "line list callback" where
  "print_callback e lines =
     or_fault (mdns_string_extract (cb_data e) (cb_size e) (cb_name_offset e) 256) (\<lambda>entrystr.
       let data = cb_data e; sz = cb_size e; off = cb_record_offset e; len = cb_record_length e;
           lines' = (\<lambda>ps. Inr (False, lines @ map (\<lambda>p. (cb_entry e, extracted entrystr, p)) ps))
       in if cb_rtype e = MDNS_RECORDTYPE_PTR then
            or_fault (mdns_record_parse_ptr data sz off len 256) (\<lambda>name. lines' [PrintPtr name])
          else if cb_rtype e = MDNS_RECORDTYPE_SRV then
            or_fault (mdns_record_parse_srv data sz off len 256) (\<lambda>srv. lines' [PrintSrv srv])
          else if cb_rtype e = MDNS_RECORDTYPE_A then
            or_fault (mdns_record_parse_a data sz off len) (\<lambda>a. lines' [PrintA a])
          else if cb_rtype e = MDNS_RECORDTYPE_AAAA then
            or_fault (mdns_record_parse_aaaa data sz off len) (\<lambda>a. lines' [PrintAaaa a])
          else if cb_rtype e = MDNS_RECORDTYPE_TXT then
            or_fault (mdns_record_parse_txt data sz off len 128) (\<lambda>ts. or_fault (print_texts ts) lines')
          else lines' [PrintOther (cb_rtype e) (cb_rclass e) (cb_ttl e) len])"


section \<open>The clients\<close>

text \<open>For every socket the call that receives there, whether it is ready, and what \<open>recvfrom\<close> returns.\<close>

type_synonym 'u receiver = "string option \<Rightarrow> string \<Rightarrow> 'u \<Rightarrow> fault + nat \<times> string \<times> 'u"

fun recv_ready :: "('u receiver \<times> string option option) list \<Rightarrow> string \<Rightarrow> 'u \<Rightarrow> fault + string \<times> 'u" where
  "recv_ready [] buffer u = Inr (buffer, u)"
| "recv_ready ((recv, ready) # rs) buffer u =
     (case ready of
        None \<Rightarrow> recv_ready rs buffer u
      | Some datagram \<Rightarrow> or_fault (recv datagram buffer u) (\<lambda>(_, buffer, u). recv_ready rs buffer u))"

fun recv_rounds :: "'u receiver list \<Rightarrow> string option option list list \<Rightarrow> string \<Rightarrow> 'u \<Rightarrow> fault + 'u" where
  "recv_rounds recvs [] buffer u = Inr u"
| "recv_rounds recvs (r # rs) buffer u =
     or_fault (recv_ready (zip recvs r) buffer u) (\<lambda>(buffer, u). recv_rounds recvs rs buffer u)"

fun send_discovery :: "mdns_socket list \<Rightarrow> fault + datagram list" where
  "send_discovery [] = Inr []"
| "send_discovery (s # ss) =
     or_fault (mdns_discovery_send s) (\<lambda>(_, out). or_fault (send_discovery ss) (\<lambda>outs. Inr (out @ outs)))"

text \<open>The result, what was sent and what was printed; the rounds are the returns of \<open>select\<close> before it times out.\<close>

definition send_dns_sd ::
  "ifaddrs list \<Rightarrow> string option option list list \<Rightarrow> string \<Rightarrow> fault + int \<times> datagram list \<times> line list" where
  "send_dns_sd interfaces rounds buffer =
     (let sockets = open_client_sockets 32 interfaces []
      in if sockets = [] then Inr (- 1, [], [])
         else
           or_fault (send_discovery sockets) (\<lambda>out.
           or_fault (recv_rounds (map (\<lambda>_ d b. mdns_discovery_recv d b 2048 (Some print_callback)) sockets) rounds buffer []) (\<lambda>lines.
             Inr (0, out, lines))))"

text \<open>Types other than three become the type of a pointer.\<close>

definition query_asked :: "mdns_query_t \<Rightarrow> mdns_query_t" where
  "query_asked q =
     (if query_type q \<in> {MDNS_RECORDTYPE_SRV, MDNS_RECORDTYPE_A, MDNS_RECORDTYPE_AAAA} then q
      else q\<lparr>query_type := MDNS_RECORDTYPE_PTR\<rparr>)"

fun send_multi :: "mdns_socket list \<Rightarrow> mdns_query_t list \<Rightarrow> string \<Rightarrow> fault + int list \<times> string \<times> datagram list" where
  "send_multi [] query buffer = Inr ([], buffer, [])"
| "send_multi (s # ss) query buffer =
     or_fault (mdns_multiquery_send s query buffer 2048 0) (\<lambda>(i, buffer, out).
     or_fault (send_multi ss query buffer) (\<lambda>(ids, buffer, outs). Inr (i # ids, buffer, out @ outs)))"

definition send_mdns_query ::
  "ifaddrs list \<Rightarrow> mdns_query_t list \<Rightarrow> string option option list list \<Rightarrow> string \<Rightarrow> fault + int \<times> datagram list \<times> line list" where
  "send_mdns_query interfaces query rounds buffer =
     (let sockets = open_client_sockets 32 interfaces []
      in if sockets = [] then Inr (- 1, [], [])
         else
           or_fault (send_multi sockets (map query_asked query) buffer) (\<lambda>(ids, buffer, out).
           or_fault (recv_rounds (map (\<lambda>i d b u. mdns_query_recv d b 2048 (Some print_callback) u i) ids) rounds buffer []) (\<lambda>lines.
             Inr (0, out, lines))))"


section \<open>The command line\<close>

datatype tool_mode = Discovery_mode | Query_mode | Service_mode | Dump_mode

record tool_options =
  to_mode :: tool_mode
  to_service :: string
  to_hostname :: string
  to_port :: c_int
  to_query :: "mdns_query_t list"

definition default_options :: "string option \<Rightarrow> tool_options" where
  "default_options gethostname =
     \<lparr>to_mode = Discovery_mode, to_service = ''_test-mdns._tcp.local.'',
      to_hostname = (case gethostname of None \<Rightarrow> ''dummy-host'' | Some h \<Rightarrow> h), to_port = 42424, to_query = []\<rparr>"

definition type_named :: "string \<Rightarrow> 16 word option" where
  "type_named arg =
     (if arg = ''PTR'' then Some MDNS_RECORDTYPE_PTR else if arg = ''SRV'' then Some MDNS_RECORDTYPE_SRV
      else if arg = ''A'' then Some MDNS_RECORDTYPE_A else if arg = ''AAAA'' then Some MDNS_RECORDTYPE_AAAA else None)"

definition mk_query :: "16 word \<Rightarrow> string \<Rightarrow> mdns_query_t" where
  "mk_query type name = \<lparr>query_type = type, query_name = name, query_length = length name\<rparr>"

text \<open>The arguments of a query: names, each with or without a type before it, up to 16 of them; and the arguments that are left.\<close>

fun take_queries :: "string list \<Rightarrow> mdns_query_t list \<Rightarrow> mdns_query_t list \<times> string list" where
  "take_queries [] query = (query, [])"
| "take_queries [arg] query = (if 16 \<le> length query then (query, [arg]) else (query @ [mk_query MDNS_RECORDTYPE_PTR arg], []))"
| "take_queries (arg # name # args) query =
     (if 16 \<le> length query then (query, arg # name # args)
      else case type_named arg of
        Some type \<Rightarrow> take_queries args (query @ [mk_query type name])
      | None \<Rightarrow> take_queries (name # args) (query @ [mk_query MDNS_RECORDTYPE_PTR arg]))"

lemma take_queries_shorter: "length (snd (take_queries args query)) \<le> length args"
  by (induction args query rule: take_queries.induct) (auto split: option.splits)

lemma take_queries_drop: "length (snd (take_queries args query)) - Suc 0 \<le> length args"
  using take_queries_shorter [of args query] by linarith

text \<open>After the queries the loop skips an argument.\<close>

function tool_args :: "string list \<Rightarrow> tool_options \<Rightarrow> tool_options" where
  "tool_args [] x = x"
| "tool_args (arg # args) x =
     (if arg = ''--discovery'' then tool_args args (x\<lparr>to_mode := Discovery_mode\<rparr>)
      else if arg = ''--query'' then
        tool_args (drop 1 (snd (take_queries args (to_query x))))
          (x\<lparr>to_mode := Query_mode, to_query := fst (take_queries args (to_query x))\<rparr>)
      else if arg = ''--service'' then
        tool_args (drop 1 args) (x\<lparr>to_mode := Service_mode, to_service := (case args of [] \<Rightarrow> to_service x | s # _ \<Rightarrow> s)\<rparr>)
      else if arg = ''--dump'' then tool_args args (x\<lparr>to_mode := Dump_mode\<rparr>)
      else if arg = ''--hostname'' then
        tool_args (drop 1 args) (x\<lparr>to_hostname := (case args of [] \<Rightarrow> to_hostname x | s # _ \<Rightarrow> s)\<rparr>)
      else if arg = ''--port'' then
        tool_args (drop 1 args) (x\<lparr>to_port := (case args of [] \<Rightarrow> to_port x | s # _ \<Rightarrow> atoi s)\<rparr>)
      else tool_args args x)"
  by pat_completeness auto

termination tool_args
  by (relation "measure (\<lambda>(args, x). length args)") (auto simp: less_Suc_eq_le take_queries_drop)

declare tool_args.simps [simp del]

text \<open>
  The program: what was sent and what was printed. It ends with 0 whatever its modes return. The service runs for the rounds
  until it is interrupted, and takes the names and the block as arguments.
\<close>

definition mdns_main ::
  "string list \<Rightarrow> string option \<Rightarrow> ifaddrs list \<Rightarrow> socket_calls \<Rightarrow> socket_calls \<Rightarrow> (string \<times> string option) option list list
   \<Rightarrow> string \<Rightarrow> string \<Rightarrow> fault + datagram list \<times> line list" where
  "mdns_main argv gethostname interfaces calls4 calls6 rounds buffer sendbuffer =
     (let x = tool_args argv (default_options gethostname);
          answers = map (map (map_option snd)) rounds
      in case to_mode x of
           Discovery_mode \<Rightarrow> map_sum id (\<lambda>(_, out, lines). (out, lines)) (send_dns_sd interfaces answers buffer)
         | Query_mode \<Rightarrow> map_sum id (\<lambda>(_, out, lines). (out, lines)) (send_mdns_query interfaces (to_query x) answers buffer)
         | Service_mode \<Rightarrow> map_sum id (\<lambda>(_, out). (out, []))
             (service_mdns interfaces calls4 calls6 (to_hostname x) (to_service x) (to_port x) rounds buffer sendbuffer)
         | Dump_mode \<Rightarrow> map_sum id (\<lambda>_. ([], [])) (dump_mdns calls4 calls6 rounds buffer))"


section \<open>Browsing\<close>

context packet_client
begin

lemma discovery_answers_safe:
  assumes "sz \<le> length buf" "fits buf sz"
  shows "keeps u \<Longrightarrow> \<exists>m r u'. mdns_discovery_answers (Some cb) buf sz qid n k off u = Inr (m, r, u') \<and> keeps u'"
proof (induction n arbitrary: k off u)
  case (Suc n)
  obtain d where d: "is_services_query buf sz off = Inr d" using services_query_safe [OF assms(1)] by blast
  obtain r where r: "(case d of None \<Rightarrow> mdns_string_skip buf sz off | Some e \<Rightarrow> Inr (Some e)) = Inr r"
    using skip_safe [OF assms(1), of off] by (cases d) auto
  show ?case
  proof (cases r)
    case None
    then show ?thesis using d r Suc.prems by simp
  next
    case (Some o1)
    show ?thesis
    proof (cases "sz < o1 + 10")
      case True
      then show ?thesis using d r Some Suc.prems by simp
    next
      case False
      then obtain t c l le2 where f: "mdns_ntohs buf o1 = Inr t" "mdns_ntohs buf (o1 + 2) = Inr c"
        "mdns_ntohl buf (o1 + 4) = Inr l" "mdns_ntohs buf (o1 + 8) = Inr le2"
        using ntohs_ok [of o1 buf] ntohs_ok [of "o1 + 2" buf] ntohl_ok [of "o1 + 4" buf] ntohs_ok [of "o1 + 8" buf] assms(1)
        by fastforce
      define e where "e = \<lparr>cb_entry = MDNS_ENTRYTYPE_ANSWER, cb_query_id = qid, cb_rtype = t, cb_rclass = c, cb_ttl = l, cb_data = buf,
        cb_size = sz, cb_name_offset = off, cb_name_length = o1 - off, cb_record_offset = o1 + 10, cb_record_length = unat le2\<rparr>"
      obtain stop u' where u': "cb e u = Inr (stop, u')" "keeps u'"
        using asked [of e u] assms Suc.prems by (auto simp: e_def)
      show ?thesis
        using d r Some False f u' Suc.IH [OF Suc.prems, of k "o1 + 10 + unat le2"] Suc.IH [OF u'(2), of "k + 1" "o1 + 10 + unat le2"]
          Suc.prems
        by (cases "d = None"; cases stop) (simp_all add: call_back_def e_def [symmetric])
    qed
  qed
qed simp

lemma verify_questions_safe: "sz + 4 \<le> length buf \<Longrightarrow> \<exists>r. mdns_verify_questions buf sz n off = Inr r"
proof (induction n arbitrary: off)
  case (Suc n)
  obtain d where d: "is_services_query buf sz off = Inr d" "\<And>e. d = Some e \<Longrightarrow> e \<le> sz"
    using services_query_safe [of sz buf off] Suc.prems by auto
  show ?case
  proof (cases d)
    case (Some e)
    then have "e + 4 \<le> length buf" using d(2) Suc.prems by fastforce
    then show ?thesis using d(1) Some ntohs_ok [of e buf] ntohs_ok [of "e + 2" buf] Suc by fastforce
  qed (use d(1) in simp)
qed simp

lemma discovery_recv_safe:
  assumes "capacity \<le> length buffer" "12 \<le> length buffer" "keeps u" "\<And>b n. receive datagram buffer capacity = Some (b, n) \<Longrightarrow> fits b n"
    "\<And>p. datagram = Some p \<Longrightarrow> length p + 4 \<le> length buffer"
  shows "\<exists>m b u'. mdns_discovery_recv datagram buffer capacity (Some cb) u = Inr (m, b, u') \<and>
    length b = length buffer \<and> keeps u'"
proof (cases "receive datagram buffer capacity")
  case None
  then show ?thesis using assms(3) by (simp add: mdns_discovery_recv_def)
next
  case (Some x)
  obtain b n where x: "receive datagram buffer capacity = Some (b, n)" using Some by (cases x) simp
  note b = receive_Some [OF x assms(1)]
  have sz: "n + 4 \<le> length b" "n \<le> length b" using b(1,4) assms(5) by auto
  obtain h where h: "mdns_header b = Inr h"
    using ntohs_ok [of 0 b] ntohs_ok [of 2 b] ntohs_ok [of 4 b] ntohs_ok [of 6 b] ntohs_ok [of 8 b] ntohs_ok [of 10 b] b assms(2)
    by (auto simp: mdns_header_def)
  obtain q where q: "mdns_verify_questions b n (hdr_questions h) 12 = Inr q" using verify_questions_safe [OF sz(1)] by blast
  show ?thesis
  proof (cases "hdr_query_id h \<noteq> 0 \<or> hdr_flags h \<noteq> 0x8400 \<or> q = None")
    case True
    then show ?thesis using x h q assms(3) b(1) by (auto simp: mdns_discovery_recv_def)
  next
    case False
    then obtain off where off: "q = Some off" by auto
    obtain m r u1 where a: "mdns_discovery_answers (Some cb) b n (hdr_query_id h) (hdr_answer_rrs h) 0 off u = Inr (m, r, u1)" "keeps u1"
      using discovery_answers_safe [OF sz(2) assms(4) [OF x] assms(3)] by blast
    show ?thesis
    proof (cases r)
      case None
      then show ?thesis using x h q off a b(1) False by (simp add: mdns_discovery_recv_def)
    next
      case (Some o1)
      obtain m2 u2 where "mdns_sections (Some cb) b n (hdr_query_id h) [(MDNS_ENTRYTYPE_AUTHORITY, hdr_authority_rrs h),
          (MDNS_ENTRYTYPE_ADDITIONAL, hdr_additional_rrs h)] m o1 u1 = Inr (m2, u2)" "keeps u2"
        using sections_safe [OF sz(2) assms(4) [OF x] a(2)] by blast
      then show ?thesis using x h q off a b(1) False Some by (simp add: mdns_discovery_recv_def del: mdns_sections.simps)
    qed
  qed
qed

end

lemma print_texts_inside: "\<forall>t \<in> set ts. text_inside t \<Longrightarrow> \<exists>ps. print_texts ts = Inr ps"
proof (induction ts)
  case (Cons t ts)
  then have "\<exists>v. packet_strndup (txt_key t) (txt_key_length t) = Inr v" "\<exists>v. packet_strndup (txt_value t) (txt_value_length t) = Inr v"
    by (simp_all add: text_inside_def packet_strndup_def)
  then show ?case using Cons by (auto split: if_splits)
qed simp

lemma print_safe:
  assumes "cb_size e \<le> length (cb_data e)" "block_fits (cb_data e) (cb_size e)"
  shows "\<exists>lines'. print_callback e lines = Inr (False, lines')"
proof -
  have ex: "\<exists>r. mdns_string_extract (cb_data e) (cb_size e) off 256 = Inr r" for off using extract_spec [OF assms(1)] by blast
  obtain n where n: "mdns_string_extract (cb_data e) (cb_size e) (cb_name_offset e) 256 = Inr n" using ex by blast
  have ptr: "\<exists>r. mdns_record_parse_ptr (cb_data e) (cb_size e) (cb_record_offset e) (cb_record_length e) 256 = Inr r"
    using ex [of "cb_record_offset e"] by (auto simp: mdns_record_parse_ptr_def)
  have a: "\<exists>r. mdns_record_parse_a (cb_data e) (cb_size e) (cb_record_offset e) (cb_record_length e) = Inr r"
    "\<exists>r. mdns_record_parse_aaaa (cb_data e) (cb_size e) (cb_record_offset e) (cb_record_length e) = Inr r"
    using assms(1) by (auto simp: mdns_record_parse_a_def mdns_record_parse_aaaa_def bytes_at_def)
  have srv: "\<exists>r. mdns_record_parse_srv (cb_data e) (cb_size e) (cb_record_offset e) (cb_record_length e) 256 = Inr r"
  proof (cases "cb_record_offset e + cb_record_length e \<le> cb_size e \<and> 8 \<le> cb_record_length e")
    case True
    then have room: "cb_record_offset e + 2 \<le> length (cb_data e)" "cb_record_offset e + 2 + 2 \<le> length (cb_data e)"
      "cb_record_offset e + 4 + 2 \<le> length (cb_data e)" using assms(1) by linarith+
    obtain p w po where "mdns_ntohs (cb_data e) (cb_record_offset e) = Inr p"
      "mdns_ntohs (cb_data e) (cb_record_offset e + 2) = Inr w" "mdns_ntohs (cb_data e) (cb_record_offset e + 4) = Inr po"
      using ntohs_ok [OF room(1)] ntohs_ok [OF room(2)] ntohs_ok [OF room(3)] by blast
    then show ?thesis using ex [of "cb_record_offset e + 6"] by (auto simp: mdns_record_parse_srv_def)
  qed (auto simp: mdns_record_parse_srv_def)
  let ?endp = "if cb_size e < cb_record_offset e + cb_record_length e then cb_size e else cb_record_offset e + cb_record_length e"
  have "?endp \<le> cb_size e" "cb_size e + 265 \<le> length (cb_data e)" using assms(2) by (simp_all add: block_fits_def)
  from parse_inside [OF this, of "[]" 128 "cb_record_offset e"] obtain ts where
    ts: "mdns_record_parse_txt (cb_data e) (cb_size e) (cb_record_offset e) (cb_record_length e) 128 = Inr ts"
    "\<forall>t \<in> set ts. text_inside t"
    by (auto simp: mdns_record_parse_txt_def Let_def)
  obtain ps where "print_texts ts = Inr ps" using print_texts_inside [OF ts(2)] by blast
  then show ?thesis using n ptr a srv ts(1) by (auto simp: print_callback_def Let_def)
qed

interpretation printer: packet_client print_callback block_fits "\<lambda>_. True"
  by unfold_locales (use print_safe in blast)


section \<open>Whole runs\<close>

text \<open>A receiver that returns on every datagram of at most 1783 bytes, which leaves 265 bytes of the block.\<close>

definition receives :: "line list receiver \<Rightarrow> bool" where
  "receives recv \<longleftrightarrow> (\<forall>d buffer u. length buffer = 2048 \<longrightarrow> (\<forall>p. d = Some p \<longrightarrow> length p \<le> 1783) \<longrightarrow>
     (\<exists>m b u'. recv d buffer u = Inr (m, b, u') \<and> length b = 2048))"

lemma received_fits:
  assumes "length buffer = 2048" "\<forall>p. d = Some p \<longrightarrow> length p \<le> 1783" "receive d buffer 2048 = Some (b, n)"
  shows "block_fits b n"
  using receive_Some [OF assms(3)] assms(1,2) by (auto simp: block_fits_def)

lemma receivers:
  "receives (\<lambda>d b. mdns_discovery_recv d b 2048 (Some print_callback))"
  "receives (\<lambda>d b u. mdns_query_recv d b 2048 (Some print_callback) u i)"
proof -
  have "\<exists>m b u'. mdns_discovery_recv d buffer 2048 (Some print_callback) u = Inr (m, b, u') \<and> length b = 2048"
    "\<exists>m b u'. mdns_query_recv d buffer 2048 (Some print_callback) u i = Inr (m, b, u') \<and> length b = 2048"
    if "length buffer = 2048" "\<forall>p. d = Some p \<longrightarrow> length p \<le> 1783" for d buffer u
    using printer.discovery_recv_safe [where capacity = 2048 and buffer = buffer and u = u and datagram = d]
      printer.query_recv_safe [where capacity = 2048 and buffer = buffer and u = u and datagram = d and qid = i] received_fits [OF that] that
    by fastforce+
  then show "receives (\<lambda>d b. mdns_discovery_recv d b 2048 (Some print_callback))"
    "receives (\<lambda>d b u. mdns_query_recv d b 2048 (Some print_callback) u i)" by (auto simp: receives_def)
qed

definition answers_fit :: "string option option list \<Rightarrow> bool" where
  "answers_fit r \<longleftrightarrow> (\<forall>p. Some (Some p) \<in> set r \<longrightarrow> length p \<le> 1783)"

lemma recv_ready_safe:
  "\<forall>(recv, d) \<in> set rs. receives recv \<and> (\<forall>p. d = Some (Some p) \<longrightarrow> length p \<le> 1783) \<Longrightarrow> length buffer = 2048 \<Longrightarrow>
   \<exists>b u'. recv_ready rs buffer u = Inr (b, u') \<and> length b = 2048"
proof (induction rs arbitrary: buffer u)
  case (Cons x rs)
  obtain recv ready where x: "x = (recv, ready)" by (cases x)
  show ?case
  proof (cases ready)
    case None
    then show ?thesis using Cons by (auto simp: x)
  next
    case (Some d)
    have "receives recv" "\<forall>p. d = Some p \<longrightarrow> length p \<le> 1783" using Cons.prems(1) by (simp_all add: x Some)
    then obtain m b u' where "recv d buffer u = Inr (m, b, u')" "length b = 2048"
      using Cons.prems(2) unfolding receives_def by blast
    then show ?thesis using Cons.IH [of b u'] Cons.prems(1) by (simp add: x Some)
  qed
qed simp

lemma recv_rounds_safe:
  assumes "\<forall>recv \<in> set recvs. receives recv"
  shows "\<forall>r \<in> set rounds. answers_fit r \<Longrightarrow> length buffer = 2048 \<Longrightarrow> \<exists>u'. recv_rounds recvs rounds buffer u = Inr u'"
proof (induction rounds arbitrary: buffer u)
  case (Cons r rounds)
  have "\<forall>(recv, d) \<in> set (zip recvs r). receives recv \<and> (\<forall>p. d = Some (Some p) \<longrightarrow> length p \<le> 1783)"
    using assms Cons.prems(1) by (force simp: answers_fit_def dest: set_zip_leftD set_zip_rightD)
  from recv_ready_safe [OF this Cons.prems(2)] obtain b u' where "recv_ready (zip recvs r) buffer u = Inr (b, u')" "length b = 2048" by blast
  then show ?case using Cons.IH [of b u'] Cons.prems(1) by simp
qed simp

lemma send_discovery_total: "\<exists>out. send_discovery ss = Inr out"
proof (induction ss)
  case (Cons s ss)
  have "\<exists>ok out. mdns_discovery_send s = Inr (ok, out)"
    by (auto simp: mdns_discovery_send_def mdns_multicast_send_def bytes_at_ok split: option.splits)
  then show ?case using Cons by auto
qed simp

lemma send_dns_sd_returns:
  assumes "\<forall>r \<in> set rounds. answers_fit r" "length buffer = 2048"
  shows "\<exists>x. send_dns_sd interfaces rounds buffer = Inr x"
proof -
  let ?socks = "open_client_sockets 32 interfaces []"
  obtain out where out: "send_discovery ?socks = Inr out" using send_discovery_total by blast
  obtain lines where "recv_rounds (map (\<lambda>_ d b. mdns_discovery_recv d b 2048 (Some print_callback)) ?socks) rounds buffer [] = Inr lines"
    using recv_rounds_safe [OF _ assms, of "map (\<lambda>_ d b. mdns_discovery_recv d b 2048 (Some print_callback)) ?socks" "[]"] receivers(1) by auto
  then show ?thesis using out by (simp add: send_dns_sd_def Let_def)
qed

text \<open>A query whose names and their fixed parts fit into the block.\<close>

definition name_fits :: "mdns_query_t \<Rightarrow> bool" where
  "name_fits q \<longleftrightarrow> query_length q = length (query_name q) \<and> (\<exists>ls. labels_ok ls \<and> (query_name q = plain ls \<or> query_name q = dotted ls))"

definition query_room :: "mdns_query_t list \<Rightarrow> nat" where
  "query_room qs = sum_list (map (\<lambda>q. length (query_name q) + 6) qs)"

lemma questions_total:
  "\<forall>q \<in> set qs. name_fits q \<Longrightarrow> data + query_room qs \<le> capacity \<Longrightarrow> length b = capacity \<Longrightarrow>
   \<exists>b' d. mdns_questions b capacity rclass qs data = Inr (b', Some d) \<and> length b' = capacity \<and> d \<le> capacity"
proof (induction qs arbitrary: b data)
  case (Cons q qs)
  obtain ls where ls: "labels_ok ls" "query_name q = plain ls \<or> query_name q = dotted ls" "query_length q = length (query_name q)"
    using Cons.prems(1) by (auto simp: name_fits_def)
  have w: "length (wire ls) \<le> length (query_name q) + 2"
    using ls(1,2) length_dotted_wire [of ls] dotted_plain [of ls] by (auto simp: labels_ok_def)
  define d where "d = data + length (wire ls)"
  have room: "data \<le> capacity" "d + 4 + query_room qs \<le> capacity"
    using Cons.prems(2) w by (simp_all add: query_room_def d_def)
  have ex: "\<exists>b2. mdns_string_make b capacity data (query_name q) (query_length q) None = Inr (b2, Some d, None) \<and> length b2 = capacity"
    using make_wire [OF ls(1,2), of capacity b data] room Cons.prems(3) by (auto simp: d_def ls(3))
  then obtain b2 where m: "mdns_string_make b capacity data (query_name q) (query_length q) None = Inr (b2, Some d, None)"
    "length b2 = capacity" by blast
  have put: "\<exists>c'. mdns_htons c i v = Inr (c', i + 2) \<and> length c' = capacity" if "length c = capacity" "i + 2 \<le> capacity" for c i and v :: "16 word"
    using poke_ok [of i "net16 v" c] that by (auto simp: mdns_htons_def)
  obtain b3 where p1: "mdns_htons b2 d (query_type q) = Inr (b3, d + 2)" "length b3 = capacity" using put [OF m(2), of d] room(2) by auto
  obtain b4 where p2: "mdns_htons b3 (d + 2) rclass = Inr (b4, d + 4)" "length b4 = capacity"
    using put [OF p1(2), of "d + 2" rclass] room(2) by auto
  show ?case using m(1) p1(1) p2(1) Cons.IH [OF _ _ p2(2), of "d + 4"] Cons.prems(1) room(2) by simp
qed (simp add: query_room_def)

lemma multi_total:
  assumes "\<forall>q \<in> set qs. name_fits q" "12 + query_room qs \<le> 2048" "length buffer = 2048"
  shows "\<exists>i b out. mdns_multiquery_send s qs buffer 2048 0 = Inr (i, b, out) \<and> length b = 2048"
proof (cases "qs = [] \<or> 2048 < 12 + 6 * length qs")
  case True
  then show ?thesis using assms(3) by (auto simp: mdns_multiquery_send_def)
next
  case False
  obtain b1 where b1: "poke buffer 0 (header_bytes 0 0 (word_of_nat (length qs)) 0 0 0) = Inr b1" "length b1 = 2048"
    using poke_header [of buffer 0 0 "word_of_nat (length qs)" 0 0 0] assms(3) by auto
  obtain b2 d where b2: "mdns_questions b1 2048 (query_rclass s) qs 12 = Inr (b2, Some d)" "length b2 = 2048" "d \<le> 2048"
    using questions_total [OF assms(1,2) b1(2)] by blast
  have "\<exists>ok out. mdns_multicast_send s b2 d = Inr (ok, out)"
    using b2(2,3) by (auto simp: mdns_multicast_send_def bytes_at_ok split: option.splits)
  then show ?thesis using False b1(1) b2 by (auto simp: mdns_multiquery_send_def)
qed

lemma send_multi_total:
  assumes "\<forall>q \<in> set qs. name_fits q" "12 + query_room qs \<le> 2048"
  shows "length buffer = 2048 \<Longrightarrow> \<exists>ids b out. send_multi ss qs buffer = Inr (ids, b, out) \<and> length b = 2048"
proof (induction ss arbitrary: buffer)
  case (Cons s ss)
  obtain i b out where "mdns_multiquery_send s qs buffer 2048 0 = Inr (i, b, out)" "length b = 2048"
    using multi_total [OF assms Cons.prems] by blast
  then show ?case using Cons.IH [of b] by auto
qed simp

lemma query_asked_fits: "\<forall>q \<in> set qs. name_fits q \<Longrightarrow> \<forall>q \<in> set (map query_asked qs). name_fits q" "query_room (map query_asked qs) = query_room qs"
proof -
  have q: "query_name (query_asked q) = query_name q" "query_length (query_asked q) = query_length q" for q by (simp_all add: query_asked_def)
  show "\<forall>q \<in> set qs. name_fits q \<Longrightarrow> \<forall>q \<in> set (map query_asked qs). name_fits q" by (simp add: name_fits_def q)
  show "query_room (map query_asked qs) = query_room qs" by (simp add: query_room_def q comp_def)
qed

lemma send_mdns_query_returns:
  assumes "\<forall>q \<in> set qs. name_fits q" "12 + query_room qs \<le> 2048" "\<forall>r \<in> set rounds. answers_fit r" "length buffer = 2048"
  shows "\<exists>x. send_mdns_query interfaces qs rounds buffer = Inr x"
proof -
  let ?socks = "open_client_sockets 32 interfaces []"
  obtain ids b out where s: "send_multi ?socks (map query_asked qs) buffer = Inr (ids, b, out)" "length b = 2048"
    using send_multi_total [OF query_asked_fits(1) [OF assms(1)], of buffer ?socks] assms(2,4) by (auto simp: query_asked_fits(2))
  obtain lines where "recv_rounds (map (\<lambda>i d b u. mdns_query_recv d b 2048 (Some print_callback) u i) ids) rounds b [] = Inr lines"
    using recv_rounds_safe [OF _ assms(3) s(2), of "map (\<lambda>i d b u. mdns_query_recv d b 2048 (Some print_callback) u i) ids" "[]"] receivers(2)
    by auto
  then show ?thesis using s(1) by (simp add: send_mdns_query_def Let_def)
qed

text \<open>The options: at most 16 queries, and a query for every type and name that is given.\<close>

lemma take_queries_bound: "length query \<le> 16 \<Longrightarrow> length (fst (take_queries args query)) \<le> 16"
  by (induction args query rule: take_queries.induct) (auto split: option.splits)

lemma tool_args_bound: "length (to_query x) \<le> 16 \<Longrightarrow> length (to_query (tool_args args x)) \<le> 16"
proof (induction args x rule: tool_args.induct)
  case (2 arg args x)
  then show ?case
    by (subst tool_args.simps) (use take_queries_bound [OF "2.prems", of args] in \<open>simp split: list.splits\<close>)
qed (simp add: tool_args.simps)

definition query_words :: "(string \<times> string) list \<Rightarrow> string list" where
  "query_words qs = concat (map (\<lambda>(t, name). [t, name]) qs)"

lemma take_query_words:
  "\<forall>(t, name) \<in> set qs. type_named t \<noteq> None \<Longrightarrow> length query + length qs \<le> 16 \<Longrightarrow>
   take_queries (query_words qs) query = (query @ map (\<lambda>(t, name). mk_query (the (type_named t)) name) qs, [])"
  by (induction qs arbitrary: query) (auto simp: query_words_def)

theorem queries_of_the_command_line:
  assumes "\<forall>(t, name) \<in> set qs. type_named t \<noteq> None" "length qs \<le> 16"
  shows "tool_args (''mdns'' # ''--query'' # query_words qs) (default_options h) =
    (default_options h)\<lparr>to_mode := Query_mode, to_query := map (\<lambda>(t, name). mk_query (the (type_named t)) name) qs\<rparr>"
  using take_query_words [OF assms(1), of "[]"] assms(2) by (simp add: tool_args.simps default_options_def)

theorem queries_of_the_command_line_witness:
  "to_query (tool_args [''mdns'', ''--query'', ''SRV'', ''hub._ezm._tcp.local.'', ''A'', ''PTR''] (default_options None)) =
     [mk_query MDNS_RECORDTYPE_SRV ''hub._ezm._tcp.local.'', mk_query MDNS_RECORDTYPE_A ''PTR'']"
  using queries_of_the_command_line [of "[(''SRV'', ''hub._ezm._tcp.local.''), (''A'', ''PTR'')]" None]
  by (simp add: type_named_def query_words_def)

text \<open>
  The program in every mode. Whatever arguments it is given, it asks for at most 16 names; and whatever datagrams of at most 1783
  bytes arrive, it returns without a read or write outside its blocks, if, when it asks, the names are valid and fit into the block.
\<close>

theorem tool_on_any_traffic:
  assumes "x = tool_args argv (default_options gethostname)"
    "to_mode x = Query_mode \<longrightarrow> (\<forall>q \<in> set (to_query x). name_fits q) \<and> 12 + query_room (to_query x) \<le> 2048"
    "\<forall>r \<in> set rounds. \<forall>peer p. Some (peer, Some p) \<in> set r \<longrightarrow> length p \<le> 1783"
    "length buffer = 2048" "length sendbuffer = 1024"
  shows "length (to_query x) \<le> 16 \<and>
    (\<exists>out lines. mdns_main argv gethostname interfaces calls4 calls6 rounds buffer sendbuffer = Inr (out, lines))"
proof (intro conjI)
  show "length (to_query x) \<le> 16" unfolding assms(1) by (rule tool_args_bound) (simp add: default_options_def)
  have fit: "\<forall>r \<in> set (map (map (map_option snd)) rounds). answers_fit r"
    using assms(3) by (auto simp: answers_fit_def map_option_case split: option.splits prod.splits)
  have rounds: "\<forall>r \<in> set rounds. round_fits r" using assms(3) by (force simp: round_fits_def)
  obtain a where a: "send_dns_sd interfaces (map (map (map_option snd)) rounds) buffer = Inr a"
    using send_dns_sd_returns [OF fit assms(4)] by blast
  have q: "to_mode x = Query_mode \<Longrightarrow> \<exists>b. send_mdns_query interfaces (to_query x) (map (map (map_option snd)) rounds) buffer = Inr b"
    using send_mdns_query_returns [OF _ _ fit assms(4), of "to_query x"] assms(2) by auto
  obtain res out d where s: "service_mdns interfaces calls4 calls6 (to_hostname x) (to_service x) (to_port x) rounds buffer sendbuffer = Inr (res, out)"
    "dump_mdns calls4 calls6 rounds buffer = Inr d" using service_returns [OF rounds assms(4,5)] by metis
  show "\<exists>out lines. mdns_main argv gethostname interfaces calls4 calls6 rounds buffer sendbuffer = Inr (out, lines)"
    using a q s by (cases "to_mode x") (auto simp: mdns_main_def assms(1) [symmetric] Let_def)
qed

theorem tool_on_any_traffic_witness:
  "\<exists>out lines. mdns_main [''mdns'', ''--query'', ''PTR'', ''_ezm._tcp.local''] None [] \<lparr>sys_socket = None, sys_join = True, sys_bind = True\<rparr>
     \<lparr>sys_socket = None, sys_join = True, sys_bind = True\<rparr> [] (replicate 2048 CHR 0x00) (replicate 1024 CHR 0x00) = Inr (out, lines)"
proof -
  let ?q = "mk_query MDNS_RECORDTYPE_PTR ''_ezm._tcp.local''"
  let ?x = "tool_args [''mdns'', ''--query'', ''PTR'', ''_ezm._tcp.local''] (default_options None)"
  have x: "to_query ?x = [?q]" by (simp add: tool_args.simps type_named_def default_options_def)
  have "labels_ok [''_ezm'', ''_tcp'', ''local'']" "query_name ?q = plain [''_ezm'', ''_tcp'', ''local'']"
    by (simp_all add: labels_ok_def mk_query_def)
  then have "name_fits ?q" unfolding name_fits_def by (intro conjI exI [of _ "[''_ezm'', ''_tcp'', ''local'']"]) (simp_all add: mk_query_def)
  then have "to_mode ?x = Query_mode \<longrightarrow> (\<forall>q \<in> set (to_query ?x). name_fits q) \<and> 12 + query_room (to_query ?x) \<le> 2048"
    unfolding x by (simp add: query_room_def mk_query_def)
  from tool_on_any_traffic [OF refl this] show ?thesis by simp
qed

end
