(* ===== verification/Authen.thy ===== *)
theory Authen
  imports CStrings
begin

text \<open>
  \<open>lib/security-provider/auth\<close>: the six requests to an authentication service and the callback that collects
  the answer. The transfer library is a parameter: what it hands to the callback, whether it can be set up,
  and its result. The memory of the answer is a list of cells, \<open>None\<close> a cell that was never written.
\<close>

section \<open>The transfer library\<close>

text \<open>What the options of a transfer say; a body is a pointer and a size.\<close>

record http_request =
  hr_url :: string
  hr_headers :: "string list"
  hr_post :: "(cptr \<times> 64 word) option"
  hr_verify_peer :: bool
  hr_verify_host :: bool
  hr_timeout :: nat

text \<open>
  A call of the callback has the contents, their size and number, and, as a part of the surroundings, whether
  the \<open>realloc\<close> in it succeeds. \<open>curl_perform\<close> gives the calls, whether the transfer ends well, and the status of the answer.
\<close>

type_synonym delivery = "bool \<times> string \<times> 64 word \<times> 64 word"

record curl_lib =
  curl_easy_init_ok :: bool
  curl_slist_append_ok :: bool
  malloc_ok :: bool
  curl_perform :: "http_request \<Rightarrow> delivery list \<times> bool \<times> 64 word"

text \<open>The documentation: the contents have \<open>size * nmemb\<close> bytes. An answer does not exhaust the addresses.\<close>

definition curl_ok :: "curl_lib \<Rightarrow> bool" where
  "curl_ok C \<longleftrightarrow> (\<forall>req. let ds = fst (curl_perform C req) in
     (\<forall>(ok, contents, sz, nmemb) \<in> set ds. length contents = unat (sz * nmemb)) \<and>
     sum_list (map (\<lambda>(ok, contents, sz, nmemb). length contents) ds) + 1 < 2 ^ 64)"


section \<open>The callback\<close>

type_synonym cells = "char option list"

record data_struct =
  memory :: "cells option"
  memory_size :: "64 word"

definition nul :: char where "nul = CHR 0x00"

definition realloc_cells :: "cells option \<Rightarrow> nat \<Rightarrow> cells" where
  "realloc_cells p n = (let old = (case p of None \<Rightarrow> [] | Some xs \<Rightarrow> xs) in take n (old @ replicate n None))"

definition data_callback ::
  "bool \<Rightarrow> string \<Rightarrow> 64 word \<Rightarrow> 64 word \<Rightarrow> data_struct \<Rightarrow> fault + 64 word \<times> data_struct" where
  "data_callback realloc_ok contents sz nmemb mem =
     (let real_size = sz * nmemb;
          ptr = realloc_cells (memory mem) (unat (memory_size mem + real_size + 1));
          from = unat (memory_size mem);
          n = unat real_size;
          stop = unat (memory_size mem + real_size)
      in if \<not> realloc_ok then Inr (real_size, mem)
         else if length contents < n \<or> length ptr < from + n \<or> length ptr \<le> stop then Inl OutOfBounds
         else Inr (real_size,
           mem\<lparr>memory := Some ((take from ptr @ map Some (take n contents) @ drop (from + n) ptr)[stop := Some nul]),
               memory_size := memory_size mem + real_size\<rparr>))"

text \<open>The library goes on as long as the callback reports that it has taken everything.\<close>

fun deliver :: "delivery list \<Rightarrow> data_struct \<Rightarrow> fault + bool \<times> data_struct" where
  "deliver [] mem = Inr (True, mem)"
| "deliver ((ok, contents, sz, nmemb) # ds) mem =
     (case data_callback ok contents sz nmemb mem of
        Inl f \<Rightarrow> Inl f
      | Inr (taken, mem') \<Rightarrow> if taken = sz * nmemb then deliver ds mem' else Inr (False, mem'))"


section \<open>Requests\<close>

text \<open>The caller's variable for the answer: not set, NULL, or a block.\<close>

datatype response = NotSet | Null | Block cells

definition as_response :: "cells option \<Rightarrow> response" where
  "as_response p = (case p of None \<Rightarrow> Null | Some xs \<Rightarrow> Block xs)"

text \<open>What \<open>curl_easy_perform\<close> does: the request goes out, and the callback is called.\<close>

definition perform :: "curl_lib \<Rightarrow> http_request \<Rightarrow> (http_request list, 64 word \<times> response) io" where
  "perform C req =
     io_then (io_modify (\<lambda>sent. sent @ [req]))
     (let (ds, well, code) = curl_perform C req;
          chunk = \<lparr>memory = (if malloc_ok C then Some [None] else None), memory_size = 0\<rparr>
      in case deliver ds chunk of
           Inl f \<Rightarrow> io_fail f
         | Inr (complete, chunk') \<Rightarrow>
             (let status = (if well \<and> complete then code else 0) in io_ret (status, as_response (memory chunk'))))"

definition send_post_request ::
  "curl_lib \<Rightarrow> string \<Rightarrow> cptr \<Rightarrow> 64 word \<Rightarrow> response \<Rightarrow> (http_request list, 64 word \<times> response) io" where
  "send_post_request C url data data_len resp =
     (if curl_easy_init_ok C
      then perform C \<lparr>hr_url = url, hr_headers = [], hr_post = Some (data, data_len),
                      hr_verify_peer = False, hr_verify_host = False, hr_timeout = 30\<rparr>
      else io_ret (0, resp))"

text \<open>A formatted text cut to its array, whose size is that of the text.\<close>

definition snprintf_buf :: "nat \<Rightarrow> string \<Rightarrow> string" where
  "snprintf_buf n s = take (n - 1) s"

definition send_get_request :: "curl_lib \<Rightarrow> string \<Rightarrow> cptr \<Rightarrow> response \<Rightarrow> (http_request list, 64 word \<times> response) io" where
  "send_get_request C url token resp =
     (if curl_easy_init_ok C
      then io_bind (fmt_s token) (\<lambda>token.
           let access_token_len = length (''AccessToken: '' @ token) + 1;
               access_token = snprintf_buf access_token_len (''AccessToken: '' @ token);
               p_headers = (if curl_slist_append_ok C then [access_token] else [])
           in perform C \<lparr>hr_url = url, hr_headers = p_headers, hr_post = None,
                         hr_verify_peer = False, hr_verify_host = False, hr_timeout = 30\<rparr>)
      else io_ret (0, resp))"

text \<open>The address of a service, as each of the six functions formats it.\<close>

definition service_url :: "cptr \<Rightarrow> c_int \<Rightarrow> string \<Rightarrow> ('s, string) io" where
  "service_url host port path =
     io_bind (fmt_s host) (\<lambda>host.
     let url = ''https://'' @ host @ '':'' @ show_int port @ path; url_len = length url + 1
     in io_ret (snprintf_buf url_len url))"

definition register_client ::
  "curl_lib \<Rightarrow> cptr \<Rightarrow> c_int \<Rightarrow> cptr \<Rightarrow> 64 word \<Rightarrow> response \<Rightarrow> (http_request list, 64 word \<times> response) io" where
  "register_client C host port data data_len resp =
     io_bind (service_url host port ''/register'') (\<lambda>url. send_post_request C url data data_len resp)"

definition login_client ::
  "curl_lib \<Rightarrow> cptr \<Rightarrow> c_int \<Rightarrow> cptr \<Rightarrow> 64 word \<Rightarrow> response \<Rightarrow> (http_request list, 64 word \<times> response) io" where
  "login_client C host port data data_len resp =
     io_bind (service_url host port ''/login'') (\<lambda>url. send_post_request C url data data_len resp)"

definition authorize_client ::
  "curl_lib \<Rightarrow> cptr \<Rightarrow> c_int \<Rightarrow> cptr \<Rightarrow> 64 word \<Rightarrow> response \<Rightarrow> (http_request list, 64 word \<times> response) io" where
  "authorize_client C host port data data_len resp =
     io_bind (service_url host port ''/authorize'') (\<lambda>url. send_post_request C url data data_len resp)"

definition validate_client ::
  "curl_lib \<Rightarrow> cptr \<Rightarrow> c_int \<Rightarrow> cptr \<Rightarrow> 64 word \<Rightarrow> response \<Rightarrow> (http_request list, 64 word \<times> response) io" where
  "validate_client C host port data data_len resp =
     io_bind (service_url host port ''/validate'') (\<lambda>url. send_post_request C url data data_len resp)"

definition recover_client ::
  "curl_lib \<Rightarrow> cptr \<Rightarrow> c_int \<Rightarrow> cptr \<Rightarrow> 64 word \<Rightarrow> response \<Rightarrow> (http_request list, 64 word \<times> response) io" where
  "recover_client C host port data data_len resp =
     io_bind (service_url host port ''/recover'') (\<lambda>url. send_post_request C url data data_len resp)"

definition request_broker_info ::
  "curl_lib \<Rightarrow> cptr \<Rightarrow> c_int \<Rightarrow> cptr \<Rightarrow> response \<Rightarrow> (http_request list, 64 word \<times> response) io" where
  "request_broker_info C host port token resp =
     io_bind (service_url host port ''/auth/broker'') (\<lambda>url. send_get_request C url token resp)"


section \<open>Reading the answer\<close>

text \<open>The callers read the answer as a string, up to its terminator.\<close>

fun read_cells :: "cells \<Rightarrow> fault + string" where
  "read_cells [] = Inl OutOfBounds"
| "read_cells (None # cs) = Inl Uninitialised"
| "read_cells (Some c # cs) = (if c = nul then Inr [] else map_sum (\<lambda>f. f) ((#) c) (read_cells cs))"

fun response_text :: "response \<Rightarrow> fault + string" where
  "response_text NotSet = Inl Uninitialised"
| "response_text Null = Inl NullDeref"
| "response_text (Block cs) = read_cells cs"

text \<open>The reference: what came in while there was memory, up to the first zero byte.\<close>

definition received :: "delivery list \<Rightarrow> string" where
  "received ds = concat (map (fst \<circ> snd) (filter fst ds))"

definition answer_text :: "curl_lib \<Rightarrow> delivery list \<Rightarrow> fault + string" where
  "answer_text C ds =
     (if \<exists>d \<in> set ds. fst d then Inr (takeWhile (\<lambda>c. c \<noteq> nul) (received ds))
      else Inl (if malloc_ok C then Uninitialised else NullDeref))"

text \<open>The collected memory: what was received and a terminator, or nothing yet.\<close>

fun holds :: "curl_lib \<Rightarrow> delivery list \<Rightarrow> data_struct \<Rightarrow> bool" where
  "holds C ds mem \<longleftrightarrow>
     memory_size mem = of_nat (length (received ds)) \<and>
     memory mem = (if \<exists>d \<in> set ds. fst d then Some (map Some (received ds) @ [Some nul])
                   else if malloc_ok C then Some [None] else None)"

lemma received_snoc: "received (ds @ [d]) = received ds @ (if fst d then fst (snd d) else [])"
  by (simp add: received_def)

lemma unat64: "n < 2 ^ 64 \<Longrightarrow> unat (of_nat n :: 64 word) = n"
  by (simp add: unat_of_nat take_bit_nat_eq_self)

lemma callback_holds:
  assumes "holds C ds mem" "length contents = unat (sz * nmemb)" "length (received ds) + length contents + 1 < 2 ^ 64"
  shows "\<exists>mem'. data_callback ok contents sz nmemb mem = Inr (sz * nmemb, mem') \<and> holds C (ds @ [(ok, contents, sz, nmemb)]) mem'"
proof (cases ok)
  case False
  then show ?thesis using assms(1) by (simp add: data_callback_def Let_def received_snoc)
next
  case True
  let ?k = "length (received ds)" and ?n = "length contents"
  have size: "sz * nmemb = of_nat ?n" using assms(2) by simp
  have u: "unat (of_nat ?k :: 64 word) = ?k" "unat (of_nat ?n :: 64 word) = ?n"
    "unat (of_nat ?k + of_nat ?n :: 64 word) = ?k + ?n" "unat (of_nat ?k + of_nat ?n + 1 :: 64 word) = ?k + ?n + 1"
    using assms(3) unat64 [of ?k] unat64 [of ?n] unat64 [of "?k + ?n"] unat64 [of "?k + ?n + 1"] by (simp_all add: ac_simps)
  obtain old where old: "realloc_cells (memory mem) (?k + ?n + 1) = map Some (received ds) @ old" "length old = ?n + 1"
  proof (cases "\<exists>d \<in> set ds. fst d")
    case t: True
    then have "realloc_cells (memory mem) (?k + ?n + 1) = map Some (received ds) @ Some nul # replicate ?n None"
      using assms(1) by (simp add: realloc_cells_def replicate_Suc [symmetric] del: replicate_Suc)
    then show ?thesis using that [of "Some nul # replicate ?n None"] by simp
  next
    case False
    then have "received ds = []" by (simp add: received_def)
    then show ?thesis using that [of "realloc_cells (memory mem) (?n + 1)"] assms(1) False
      by (simp add: realloc_cells_def)
  qed
  have "length (drop ?n old) = 1" using old(2) by simp
  then obtain c where "drop ?n old = [c]" by (auto simp: length_Suc_conv simp del: length_drop)
  then show ?thesis
    using assms(1) True old u size
    by (simp add: data_callback_def Let_def received_snoc list_update_append)
qed

lemma deliver_holds:
  assumes "\<forall>(ok, contents, sz, nmemb) \<in> set ds. length contents = unat (sz * nmemb)"
    "length (received pre) + sum_list (map (\<lambda>(ok, contents, sz, nmemb). length contents) ds) + 1 < 2 ^ 64"
    "holds C pre mem"
  shows "\<exists>mem'. deliver ds mem = Inr (True, mem') \<and> holds C (pre @ ds) mem'"
  using assms
proof (induction ds arbitrary: pre mem)
  case (Cons d ds)
  obtain ok contents sz nmemb where d: "d = (ok, contents, sz, nmemb)" by (cases d)
  have len: "length contents = unat (sz * nmemb)" "length (received pre) + length contents + 1 < 2 ^ 64"
    using Cons.prems(1,2) by (simp_all add: d)
  obtain mem' where m: "data_callback ok contents sz nmemb mem = Inr (sz * nmemb, mem')" "holds C (pre @ [d]) mem'"
    using callback_holds [OF Cons.prems(3) len] unfolding d by blast
  have "\<exists>mem''. deliver ds mem' = Inr (True, mem'') \<and> holds C ((pre @ [d]) @ ds) mem''"
    by (rule Cons.IH [OF _ _ m(2)]) (use Cons.prems in \<open>auto simp: d received_snoc\<close>)
  then show ?case using m(1) by (simp add: d)
qed simp

lemma read_cells_string: "read_cells (map Some s @ [Some nul]) = Inr (takeWhile (\<lambda>c. c \<noteq> nul) s)"
  by (induction s) simp_all

lemma holds_text: "holds C ds mem \<Longrightarrow> response_text (as_response (memory mem)) = answer_text C ds"
  by (simp add: answer_text_def as_response_def read_cells_string)

lemma perform_answer:
  assumes "curl_ok C" "curl_perform C req = (ds, well, code)"
  shows "\<exists>r. perform C req sent = (Inr (if well then code else 0, r), sent @ [req]) \<and> response_text r = answer_text C ds"
proof -
  let ?chunk = "\<lparr>memory = (if malloc_ok C then Some [None] else None), memory_size = 0\<rparr>"
  have ok: "\<forall>(ok, contents, sz, nmemb) \<in> set ds. length contents = unat (sz * nmemb)"
    "sum_list (map (\<lambda>(ok, contents, sz, nmemb). length contents) ds) + 1 < 2 ^ 64"
    using assms unfolding curl_ok_def Let_def by (metis fst_conv)+
  have "holds C [] ?chunk" by (simp add: received_def)
  then obtain mem where "deliver ds ?chunk = Inr (True, mem)" "holds C ds mem"
    using deliver_holds [OF ok(1), of "[]" C ?chunk] ok(2) by (auto simp: received_def)
  then show ?thesis using assms(2) holds_text by (auto simp: perform_def io_simps)
qed

lemma snprintf_whole [simp]: "snprintf_buf (Suc (length s)) s = s"
  by (simp add: snprintf_buf_def)

lemma service_url_app [io_simps]:
  "service_url (Some host) port path s = (Inr (''https://'' @ host @ '':'' @ show_int port @ path), s)"
  using snprintf_whole [of "''https://'' @ host @ '':'' @ show_int port @ path"]
  by (simp only: service_url_def io_bind_app fmt_s_Some io_ret_app Let_def sum.case prod.case Suc_eq_plus1)

section \<open>The exchanges\<close>

text \<open>
  The reference for a request that could be set up: it goes out as it is, the status is that of a transfer that
  ended well, and the text the caller reads is \<open>answer_text\<close>.
\<close>

definition answered :: "curl_lib \<Rightarrow> http_request \<Rightarrow> http_request list \<Rightarrow> (fault + 64 word \<times> response) \<times> http_request list \<Rightarrow> bool" where
  "answered C req sent res \<longleftrightarrow>
     (case curl_perform C req of (ds, well, code) \<Rightarrow>
        \<exists>r. res = (Inr (if well then code else 0, r), sent @ [req]) \<and> response_text r = answer_text C ds)"

definition post_to :: "string \<Rightarrow> c_int \<Rightarrow> string \<Rightarrow> cptr \<Rightarrow> 64 word \<Rightarrow> http_request" where
  "post_to host port path data data_len =
     \<lparr>hr_url = ''https://'' @ host @ '':'' @ show_int port @ path, hr_headers = [], hr_post = Some (data, data_len),
      hr_verify_peer = False, hr_verify_host = False, hr_timeout = 30\<rparr>"

definition get_from :: "string \<Rightarrow> c_int \<Rightarrow> string \<Rightarrow> string list \<Rightarrow> http_request" where
  "get_from host port path headers =
     \<lparr>hr_url = ''https://'' @ host @ '':'' @ show_int port @ path, hr_headers = headers, hr_post = None,
      hr_verify_peer = False, hr_verify_host = False, hr_timeout = 30\<rparr>"

lemma perform_answered: "curl_ok C \<Longrightarrow> answered C req sent (perform C req sent)"
  by (cases "curl_perform C req") (simp add: answered_def perform_answer)

lemma post_answered:
  "curl_ok C \<Longrightarrow> curl_easy_init_ok C \<Longrightarrow>
   answered C (post_to host port path data data_len) sent
     (send_post_request C (''https://'' @ host @ '':'' @ show_int port @ path) data data_len resp sent)"
  unfolding post_to_def send_post_request_def by (simp only: perform_answered simp_thms if_True)

lemma get_answered:
  "curl_ok C \<Longrightarrow> curl_easy_init_ok C \<Longrightarrow>
   answered C (get_from host port path (if curl_slist_append_ok C then [''AccessToken: '' @ token] else [])) sent
     (send_get_request C (''https://'' @ host @ '':'' @ show_int port @ path) (Some token) resp sent)"
  using perform_answered snprintf_whole [of "''AccessToken: '' @ token"]
  unfolding get_from_def send_get_request_def io_bind_app fmt_s_Some
  by (simp only: Let_def simp_thms if_True prod.case sum.case Suc_eq_plus1)

lemmas client_defs = register_client_def login_client_def authorize_client_def validate_client_def recover_client_def
  request_broker_info_def

definition demo_curl :: "bool \<Rightarrow> curl_lib" where
  "demo_curl memory_left = \<lparr>curl_easy_init_ok = True, curl_slist_append_ok = True, malloc_ok = True,
     curl_perform = (\<lambda>req. ([(memory_left, ''{}'', 1, 2)], True, 200))\<rparr>"

lemma demo_curl_ok: "curl_ok (demo_curl b)"
  by (simp add: curl_ok_def demo_curl_def)

text \<open>
  C36: a request to an authentication service goes to the address of its kind, with the data or with the token as
  a header, and with the checks of the certificate and of the name switched off. The status is that of the answer, or 0 when the transfer
  fails, and what the caller reads is the text that came in, up to the first zero byte, without the parts for which there
  was no memory, although they count as taken; if nothing came in, the caller reads memory that was never
  written. When the library cannot be set up, nothing is sent and the caller's variable stays as it was. When
  the header cannot be made, the request for the broker goes out without the token.
\<close>

theorem authen_exchanges:
  assumes "curl_ok C"
  shows "if curl_easy_init_ok C then
      answered C (post_to host port ''/register'' data len) sent (register_client C (Some host) port data len resp sent) \<and>
      answered C (post_to host port ''/login'' data len) sent (login_client C (Some host) port data len resp sent) \<and>
      answered C (post_to host port ''/authorize'' data len) sent (authorize_client C (Some host) port data len resp sent) \<and>
      answered C (post_to host port ''/validate'' data len) sent (validate_client C (Some host) port data len resp sent) \<and>
      answered C (post_to host port ''/recover'' data len) sent (recover_client C (Some host) port data len resp sent) \<and>
      answered C (get_from host port ''/auth/broker'' (if curl_slist_append_ok C then [''AccessToken: '' @ token] else [])) sent
        (request_broker_info C (Some host) port (Some token) resp sent)
    else register_client C (Some host) port data len resp sent = (Inr (0, resp), sent) \<and>
      login_client C (Some host) port data len resp sent = (Inr (0, resp), sent) \<and>
      authorize_client C (Some host) port data len resp sent = (Inr (0, resp), sent) \<and>
      validate_client C (Some host) port data len resp sent = (Inr (0, resp), sent) \<and>
      recover_client C (Some host) port data len resp sent = (Inr (0, resp), sent) \<and>
      request_broker_info C (Some host) port (Some token) resp sent = (Inr (0, resp), sent)"
proof (cases "curl_easy_init_ok C")
  case True
  show ?thesis
    unfolding if_P [OF True] client_defs io_bind_app service_url_app prod.case sum.case
    by (intro conjI post_answered get_answered assms True)
next
  case False
  then show ?thesis
    unfolding client_defs io_bind_app service_url_app prod.case sum.case
    by (simp add: send_post_request_def send_get_request_def io_simps)
qed

theorem authen_exchanges_witness:
  "(\<exists>r. login_client (demo_curl True) (Some ''h'') 8 (Some ''{}'') 2 NotSet [] =
      (Inr (200, r), [post_to ''h'' 8 ''/login'' (Some ''{}'') 2]) \<and> response_text r = Inr ''{}'') \<and>
   (\<exists>r. login_client (demo_curl False) (Some ''h'') 8 (Some ''{}'') 2 NotSet [] =
      (Inr (200, r), [post_to ''h'' 8 ''/login'' (Some ''{}'') 2]) \<and> response_text r = Inl Uninitialised)"
proof -
  have init: "curl_easy_init_ok (demo_curl b)" for b by (simp add: demo_curl_def)
  have "answered (demo_curl b) (post_to ''h'' 8 ''/login'' (Some ''{}'') 2) []
      (login_client (demo_curl b) (Some ''h'') 8 (Some ''{}'') 2 NotSet [])" for b
    using authen_exchanges [OF demo_curl_ok [of b], of "''h''" 8 "Some ''{}''" 2 "[]" NotSet "''t''"] init [of b]
    by (simp only: if_True simp_thms)
  from this [of True] this [of False] show ?thesis
    by (simp add: answered_def demo_curl_def answer_text_def received_def nul_def)
qed

end
