(* ===== verification/KeyPair.thy ===== *)
theory KeyPair
  imports CStrings
begin

text \<open>
  \<open>lib/security-provider/rsa\<close>: pairs of keys, certificates and requests for certificates, written to files and
  loaded from them. The objects of OpenSSL live in a heap, so that a release that is missing or one too many
  shows. What a call of the library returns is given by the number of the call: one that allocates
  gives NULL, and one that reports a status fails, when the given outcome is not positive.
\<close>

section \<open>Objects, files and the library\<close>

text \<open>The material of a key is a number; a certificate and a request are what was put into them.\<close>

type_synonym names = "(string \<times> string) list"

record x509 =
  xc_serial :: int
  xc_not_before :: "64 word"
  xc_not_after :: "64 word"
  xc_pubkey :: "nat option"
  xc_subject :: names
  xc_issuer :: names
  xc_signed_by :: "nat option"

record x509_req =
  xr_pubkey :: "nat option"
  xr_subject :: names
  xr_signed_by :: "nat option"

definition empty_cert :: x509 where
  "empty_cert = \<lparr>xc_serial = 0, xc_not_before = 0, xc_not_after = 0, xc_pubkey = None, xc_subject = [], xc_issuer = [], xc_signed_by = None\<rparr>"

definition empty_req :: x509_req where
  "empty_req = \<lparr>xr_pubkey = None, xr_subject = [], xr_signed_by = None\<rparr>"

text \<open>A key owns the numbers that were assigned to it, and releases them.\<close>

datatype obj = Rsa "nat option" | BigNum | Pkey "nat option" | Cert x509 | Req x509_req

text \<open>A file that was opened for writing holds nothing, or a part, until something is written as a whole.\<close>

datatype pem = PrivateKey nat | PublicKey nat | Certificate x509 | Truncated

record ossl =
  os_calls :: nat
  os_next :: nat
  os_objs :: "nat \<Rightarrow> obj option"
  os_files :: "string \<Rightarrow> pem option"
  os_open :: nat

record ossl_lib =
  outcome :: "nat \<Rightarrow> c_int"
  fresh_key :: "nat \<Rightarrow> nat"

definition positive :: "c_int \<Rightarrow> bool" where "positive r \<longleftrightarrow> 0 < sint r"

definition call :: "ossl_lib \<Rightarrow> (ossl, c_int) io" where
  "call L = io_bind (io_get os_calls) (\<lambda>n.
     io_then (io_modify (\<lambda>s. s\<lparr>os_calls := n + 1\<rparr>)) (io_ret (outcome L n)))"

definition heap_new :: "obj \<Rightarrow> (ossl, nat) io" where
  "heap_new ob = io_bind (io_get os_next) (\<lambda>a.
     io_then (io_modify (\<lambda>s. s\<lparr>os_next := a + 1, os_objs := (os_objs s)(a \<mapsto> ob)\<rparr>)) (io_ret a))"

definition heap_get :: "nat \<Rightarrow> (ossl, obj) io" where
  "heap_get a = io_bind (io_get (\<lambda>s. os_objs s a)) (\<lambda>p. case p of None \<Rightarrow> io_fail UseAfterFree | Some ob \<Rightarrow> io_ret ob)"

definition heap_put :: "nat \<Rightarrow> obj \<Rightarrow> (ossl, unit) io" where
  "heap_put a ob = io_modify (\<lambda>s. s\<lparr>os_objs := (os_objs s)(a \<mapsto> ob)\<rparr>)"

definition heap_free :: "nat \<Rightarrow> (ossl, unit) io" where
  "heap_free a = io_bind (io_get (\<lambda>s. os_objs s a)) (\<lambda>p.
     case p of None \<Rightarrow> io_fail InvalidFree | Some ob \<Rightarrow> io_modify (\<lambda>s. s\<lparr>os_objs := (os_objs s)(a := None)\<rparr>))"

definition new :: "ossl_lib \<Rightarrow> obj \<Rightarrow> (ossl, nat option) io" where
  "new L ob = io_bind (call L) (\<lambda>r.
     if positive r then io_bind (heap_new ob) (\<lambda>a. io_ret (Some a)) else io_ret None)"

definition RSA_new :: "ossl_lib \<Rightarrow> (ossl, nat option) io" where "RSA_new L = new L (Rsa None)"
definition BN_new :: "ossl_lib \<Rightarrow> (ossl, nat option) io" where "BN_new L = new L BigNum"
definition EVP_PKEY_new :: "ossl_lib \<Rightarrow> (ossl, nat option) io" where "EVP_PKEY_new L = new L (Pkey None)"
definition X509_new :: "ossl_lib \<Rightarrow> (ossl, nat option) io" where "X509_new L = new L (Cert empty_cert)"
definition X509_REQ_new :: "ossl_lib \<Rightarrow> (ossl, nat option) io" where "X509_REQ_new L = new L (Req empty_req)"

definition EVP_PKEY_free :: "nat \<Rightarrow> (ossl, unit) io" where
  "EVP_PKEY_free a = io_bind (heap_get a) (\<lambda>ob. case ob of
     Pkey None \<Rightarrow> heap_free a | Pkey (Some r) \<Rightarrow> io_then (heap_free r) (heap_free a) | _ \<Rightarrow> io_fail WrongMember)"

text \<open>Making the numbers of a key, and handing them to the key.\<close>

definition RSA_generate_key_ex :: "ossl_lib \<Rightarrow> nat \<Rightarrow> c_int \<Rightarrow> nat \<Rightarrow> (ossl, c_int) io" where
  "RSA_generate_key_ex L rsa bits bn =
     io_then (heap_get bn) (io_then (heap_get rsa) (io_bind (io_get os_calls) (\<lambda>n. io_bind (call L) (\<lambda>r.
     if positive r then io_then (heap_put rsa (Rsa (Some (fresh_key L n)))) (io_ret r) else io_ret r))))"

definition EVP_PKEY_assign_RSA :: "ossl_lib \<Rightarrow> nat \<Rightarrow> nat \<Rightarrow> (ossl, c_int) io" where
  "EVP_PKEY_assign_RSA L key rsa =
     io_then (heap_get key) (io_then (heap_get rsa) (io_bind (call L) (\<lambda>r.
     if positive r then io_then (heap_put key (Pkey (Some rsa))) (io_ret r) else io_ret r)))"

text \<open>The material of a key; one without numbers has none.\<close>

definition key_of :: "nat \<Rightarrow> (ossl, nat option) io" where
  "key_of a = io_bind (heap_get a) (\<lambda>ob. case ob of
     Pkey None \<Rightarrow> io_ret None
   | Pkey (Some r) \<Rightarrow> io_bind (heap_get r) (\<lambda>ob. case ob of Rsa k \<Rightarrow> io_ret k | _ \<Rightarrow> io_fail WrongMember)
   | _ \<Rightarrow> io_fail WrongMember)"

text \<open>A call that changes a certificate or a request, and reports whether it did.\<close>

definition get_cert :: "nat \<Rightarrow> (ossl, x509) io" where
  "get_cert a = io_bind (heap_get a) (\<lambda>ob. case ob of Cert c \<Rightarrow> io_ret c | _ \<Rightarrow> io_fail WrongMember)"

definition get_req :: "nat \<Rightarrow> (ossl, x509_req) io" where
  "get_req a = io_bind (heap_get a) (\<lambda>ob. case ob of Req c \<Rightarrow> io_ret c | _ \<Rightarrow> io_fail WrongMember)"

definition change_cert :: "ossl_lib \<Rightarrow> nat \<Rightarrow> (x509 \<Rightarrow> x509) \<Rightarrow> (ossl, c_int) io" where
  "change_cert L a f = io_bind (get_cert a) (\<lambda>c. io_bind (call L) (\<lambda>r.
     if positive r then io_then (heap_put a (Cert (f c))) (io_ret r) else io_ret r))"

definition change_req :: "ossl_lib \<Rightarrow> nat \<Rightarrow> (x509_req \<Rightarrow> x509_req) \<Rightarrow> (ossl, c_int) io" where
  "change_req L a f = io_bind (get_req a) (\<lambda>c. io_bind (call L) (\<lambda>r.
     if positive r then io_then (heap_put a (Req (f c))) (io_ret r) else io_ret r))"

text \<open>The same with the material of a key, which must have some.\<close>

definition with_key :: "nat \<Rightarrow> (nat \<Rightarrow> (ossl, c_int) io) \<Rightarrow> (ossl, c_int) io" where
  "with_key key f = io_bind (key_of key) (\<lambda>k. case k of None \<Rightarrow> io_ret 0 | Some k \<Rightarrow> f k)"

definition X509_set_serial :: "ossl_lib \<Rightarrow> nat \<Rightarrow> int \<Rightarrow> (ossl, c_int) io" where
  "X509_set_serial L cert n = change_cert L cert (\<lambda>c. c\<lparr>xc_serial := n\<rparr>)"

definition X509_set_notBefore :: "ossl_lib \<Rightarrow> nat \<Rightarrow> 64 word \<Rightarrow> (ossl, c_int) io" where
  "X509_set_notBefore L cert n = change_cert L cert (\<lambda>c. c\<lparr>xc_not_before := n\<rparr>)"

definition X509_set_notAfter :: "ossl_lib \<Rightarrow> nat \<Rightarrow> 64 word \<Rightarrow> (ossl, c_int) io" where
  "X509_set_notAfter L cert n = change_cert L cert (\<lambda>c. c\<lparr>xc_not_after := n\<rparr>)"

definition X509_set_pubkey :: "ossl_lib \<Rightarrow> nat \<Rightarrow> nat \<Rightarrow> (ossl, c_int) io" where
  "X509_set_pubkey L cert key = with_key key (\<lambda>k. change_cert L cert (\<lambda>c. c\<lparr>xc_pubkey := Some k\<rparr>))"

definition X509_add_entry :: "ossl_lib \<Rightarrow> nat \<Rightarrow> string \<Rightarrow> string \<Rightarrow> (ossl, c_int) io" where
  "X509_add_entry L cert field v = change_cert L cert (\<lambda>c. c\<lparr>xc_subject := xc_subject c @ [(field, v)]\<rparr>)"

definition X509_set_subject_name :: "ossl_lib \<Rightarrow> nat \<Rightarrow> names \<Rightarrow> (ossl, c_int) io" where
  "X509_set_subject_name L cert ns = change_cert L cert (\<lambda>c. c\<lparr>xc_subject := ns\<rparr>)"

definition X509_set_issuer_name :: "ossl_lib \<Rightarrow> nat \<Rightarrow> names \<Rightarrow> (ossl, c_int) io" where
  "X509_set_issuer_name L cert ns = change_cert L cert (\<lambda>c. c\<lparr>xc_issuer := ns\<rparr>)"

definition X509_sign :: "ossl_lib \<Rightarrow> nat \<Rightarrow> nat \<Rightarrow> (ossl, c_int) io" where
  "X509_sign L cert key = with_key key (\<lambda>k. change_cert L cert (\<lambda>c. c\<lparr>xc_signed_by := Some k\<rparr>))"

definition X509_REQ_set_pubkey :: "ossl_lib \<Rightarrow> nat \<Rightarrow> nat \<Rightarrow> (ossl, c_int) io" where
  "X509_REQ_set_pubkey L req key = with_key key (\<lambda>k. change_req L req (\<lambda>c. c\<lparr>xr_pubkey := Some k\<rparr>))"

definition X509_REQ_add_entry :: "ossl_lib \<Rightarrow> nat \<Rightarrow> string \<Rightarrow> string \<Rightarrow> (ossl, c_int) io" where
  "X509_REQ_add_entry L req field v = change_req L req (\<lambda>c. c\<lparr>xr_subject := xr_subject c @ [(field, v)]\<rparr>)"

definition X509_REQ_set_subject_name :: "ossl_lib \<Rightarrow> nat \<Rightarrow> names \<Rightarrow> (ossl, c_int) io" where
  "X509_REQ_set_subject_name L req ns = change_req L req (\<lambda>c. c\<lparr>xr_subject := ns\<rparr>)"

definition X509_REQ_sign :: "ossl_lib \<Rightarrow> nat \<Rightarrow> nat \<Rightarrow> (ossl, c_int) io" where
  "X509_REQ_sign L req key = with_key key (\<lambda>k. change_req L req (\<lambda>c. c\<lparr>xr_signed_by := Some k\<rparr>))"

text \<open>Files: a path of NULL ends the process.\<close>

definition fopen_wb :: "ossl_lib \<Rightarrow> cptr \<Rightarrow> (ossl, string option) io" where
  "fopen_wb L path = io_bind (io_deref path) (\<lambda>p. io_bind (call L) (\<lambda>r.
     if positive r
     then io_then (io_modify (\<lambda>s. s\<lparr>os_files := (os_files s)(p \<mapsto> Truncated), os_open := os_open s + 1\<rparr>)) (io_ret (Some p))
     else io_ret None))"

definition fopen_rb :: "ossl_lib \<Rightarrow> cptr \<Rightarrow> (ossl, string option) io" where
  "fopen_rb L path = io_bind (io_deref path) (\<lambda>p. io_bind (io_get (\<lambda>s. os_files s p)) (\<lambda>content. io_bind (call L) (\<lambda>r.
     if positive r \<and> content \<noteq> None
     then io_then (io_modify (\<lambda>s. s\<lparr>os_open := os_open s + 1\<rparr>)) (io_ret (Some p))
     else io_ret None)))"

definition fclose :: "(ossl, unit) io" where
  "fclose = io_modify (\<lambda>s. s\<lparr>os_open := os_open s - 1\<rparr>)"

definition PEM_write :: "ossl_lib \<Rightarrow> string \<Rightarrow> pem \<Rightarrow> (ossl, c_int) io" where
  "PEM_write L p content = io_bind (call L) (\<lambda>r.
     if positive r then io_then (io_modify (\<lambda>s. s\<lparr>os_files := (os_files s)(p \<mapsto> content)\<rparr>)) (io_ret r) else io_ret r)"

definition PEM_read_PrivateKey :: "ossl_lib \<Rightarrow> string \<Rightarrow> (ossl, nat option) io" where
  "PEM_read_PrivateKey L p = io_bind (call L) (\<lambda>r. io_bind (io_get (\<lambda>s. os_files s p)) (\<lambda>content. case content of
     Some (PrivateKey k) \<Rightarrow>
       if positive r then io_bind (heap_new (Rsa (Some k))) (\<lambda>rsa. io_bind (heap_new (Pkey (Some rsa))) (\<lambda>a. io_ret (Some a)))
       else io_ret None
   | _ \<Rightarrow> io_ret None))"

definition PEM_read_X509 :: "ossl_lib \<Rightarrow> string \<Rightarrow> (ossl, nat option) io" where
  "PEM_read_X509 L p = io_bind (call L) (\<lambda>r. io_bind (io_get (\<lambda>s. os_files s p)) (\<lambda>content. case content of
     Some (Certificate c) \<Rightarrow> if positive r then io_bind (heap_new (Cert c)) (\<lambda>a. io_ret (Some a)) else io_ret None
   | _ \<Rightarrow> io_ret None))"

section \<open>key\_pair\_internal.h\<close>

text \<open>The three checks look only whether the file is there.\<close>

definition access_ok :: "cptr \<Rightarrow> (ossl, bool) io" where
  "access_ok path = io_get (\<lambda>s. case path of None \<Rightarrow> False | Some p \<Rightarrow> os_files s p \<noteq> None)"

definition validate_rsa_private_key :: "cptr \<Rightarrow> (ossl, c_int) io" where
  "validate_rsa_private_key key_path = io_bind (access_ok key_path) (\<lambda>ok. io_ret (if ok then 1 else 0))"

definition validate_rsa_public_key :: "cptr \<Rightarrow> (ossl, c_int) io" where
  "validate_rsa_public_key key_path = io_bind (access_ok key_path) (\<lambda>ok. io_ret (if ok then 1 else 0))"

definition validate_x509_certificate_file :: "cptr \<Rightarrow> (ossl, c_int) io" where
  "validate_x509_certificate_file certificate_path = io_bind (access_ok certificate_path) (\<lambda>ok. io_ret (if ok then 1 else 0))"

definition load_rsa_private_key :: "ossl_lib \<Rightarrow> cptr \<Rightarrow> (ossl, nat option) io" where
  "load_rsa_private_key L key_path = io_bind (fopen_rb L key_path) (\<lambda>p_file. case p_file of
     None \<Rightarrow> io_ret None
   | Some p \<Rightarrow> io_bind (PEM_read_PrivateKey L p) (\<lambda>p_key. io_then fclose (io_ret p_key)))"

definition load_x509_certificate :: "ossl_lib \<Rightarrow> cptr \<Rightarrow> (ossl, nat option) io" where
  "load_x509_certificate L cert_path = io_bind (fopen_rb L cert_path) (\<lambda>p_file. case p_file of
     None \<Rightarrow> io_ret None
   | Some p \<Rightarrow> io_bind (PEM_read_X509 L p) (\<lambda>p_cert. io_then fclose (io_ret p_cert)))"

definition write_x509_certificate :: "ossl_lib \<Rightarrow> nat \<Rightarrow> cptr \<Rightarrow> (ossl, c_int) io" where
  "write_x509_certificate L cert certificate_path = io_bind (fopen_wb L certificate_path) (\<lambda>cert_file. case cert_file of
     None \<Rightarrow> io_ret 0
   | Some p \<Rightarrow> io_bind (get_cert cert) (\<lambda>c. io_bind (PEM_write L p (Certificate c)) (\<lambda>status.
       io_then fclose (io_ret status))))"

definition write_rsa_key_pair :: "ossl_lib \<Rightarrow> nat option \<Rightarrow> cptr \<Rightarrow> cptr \<Rightarrow> (ossl, c_int) io" where
  "write_rsa_key_pair L key private_key_path public_key_path =
     (if key \<noteq> None \<and> private_key_path \<noteq> None \<and> public_key_path \<noteq> None
      then io_bind (fopen_wb L private_key_path) (\<lambda>private_key_file.
        io_bind (case private_key_file of
            None \<Rightarrow> io_ret 0
          | Some p \<Rightarrow> io_bind (with_key (the key) (\<lambda>k. PEM_write L p (PrivateKey k))) (\<lambda>status. io_then fclose (io_ret status))) (\<lambda>status.
        if positive status
        then io_bind (fopen_wb L public_key_path) (\<lambda>public_key_file. case public_key_file of
            None \<Rightarrow> io_ret status
          | Some p \<Rightarrow> io_bind (with_key (the key) (\<lambda>k. PEM_write L p (PublicKey k))) (\<lambda>status. io_then fclose (io_ret status)))
        else io_ret status))
      else io_ret 0)"

definition generate_key :: "ossl_lib \<Rightarrow> c_int \<Rightarrow> (ossl, nat option) io" where
  "generate_key L key_size =
     (if positive key_size
      then io_bind (RSA_new L) (\<lambda>p_rsa. io_bind (BN_new L) (\<lambda>p_big_num. io_bind (EVP_PKEY_new L) (\<lambda>p_key.
        case (p_key, p_rsa, p_big_num) of
          (Some key, Some rsa, Some big_num) \<Rightarrow>
            io_then (call L)
            (io_bind (RSA_generate_key_ex L rsa key_size big_num) (\<lambda>status.
             io_bind (if positive status then EVP_PKEY_assign_RSA L key rsa else io_ret status) (\<lambda>status.
             io_then (heap_free big_num) (io_ret p_key))))
        | _ \<Rightarrow> io_ret p_key)))
      else io_ret None)"

definition generate_x509_certificate ::
  "ossl_lib \<Rightarrow> nat option \<Rightarrow> nat option \<Rightarrow> 64 word \<Rightarrow> cptr \<Rightarrow> cptr \<Rightarrow> cptr \<Rightarrow> cptr \<Rightarrow> (ossl, c_int) io" where
  "generate_x509_certificate L cert key expire_time country state organization common_name =
     (case (cert, key, country, state, organization, common_name) of
        (Some cert, Some key, Some country, Some state, Some organization, Some common_name) \<Rightarrow>
          if 0 < sint expire_time
          then io_then (X509_set_serial L cert 1)
            (io_then (X509_set_notBefore L cert 0)
            (io_then (X509_set_notAfter L cert expire_time)
            (io_then (X509_set_pubkey L cert key)
            (io_then (X509_add_entry L cert ''C'' country)
            (io_then (X509_add_entry L cert ''ST'' state)
            (io_then (X509_add_entry L cert ''O'' organization)
            (io_then (X509_add_entry L cert ''CN'' common_name)
            (io_bind (get_cert cert) (\<lambda>p_name.
             io_then (X509_set_issuer_name L cert (xc_subject p_name))
            (X509_sign L cert key))))))))))
          else io_ret 0
      | _ \<Rightarrow> io_ret 0)"

definition generate_x509_certificate_request ::
  "ossl_lib \<Rightarrow> nat option \<Rightarrow> nat option \<Rightarrow> cptr \<Rightarrow> cptr \<Rightarrow> cptr \<Rightarrow> cptr \<Rightarrow> (ossl, c_int) io" where
  "generate_x509_certificate_request L cert_request key country state organization common_name =
     (case (cert_request, key, country, state, organization, common_name) of
        (Some req, Some key, Some country, Some state, Some organization, Some common_name) \<Rightarrow>
          io_bind (X509_REQ_set_pubkey L req key) (\<lambda>ret.
          if positive ret
          then io_then (X509_REQ_add_entry L req ''C'' country)
            (io_then (X509_REQ_add_entry L req ''ST'' state)
            (io_then (X509_REQ_add_entry L req ''O'' organization)
            (io_then (X509_REQ_add_entry L req ''CN'' common_name)
            (io_bind (get_req req) (\<lambda>p_name.
             io_then (X509_REQ_set_subject_name L req (xr_subject p_name))
            (X509_REQ_sign L req key))))))
          else io_ret ret)
      | _ \<Rightarrow> io_ret 0)"

definition generate_x509_certificate_with_request ::
  "ossl_lib \<Rightarrow> nat option \<Rightarrow> nat option \<Rightarrow> nat option \<Rightarrow> nat option \<Rightarrow> nat option \<Rightarrow> 64 word \<Rightarrow> (ossl, c_int) io" where
  "generate_x509_certificate_with_request L key cert cert_request ca_key ca_cert expire_time =
     (case (key, cert, cert_request, ca_key, ca_cert) of
        (Some key, Some cert, Some req, Some ca_key, Some ca_cert) \<Rightarrow>
          if 0 < sint expire_time
          then io_then (X509_set_serial L cert 1)
            (io_bind (get_req req) (\<lambda>rq.
             io_then (X509_set_issuer_name L cert (xr_subject rq))
            (io_then (X509_set_subject_name L cert (xr_subject rq))
            (io_then (X509_set_notBefore L cert 0)
            (io_then (X509_set_notAfter L cert expire_time)
            (io_bind (X509_set_pubkey L cert key) (\<lambda>ret.
             if positive ret
             then io_bind (get_cert ca_cert) (\<lambda>ca.
               io_then (X509_set_issuer_name L cert (xc_subject ca))
               (X509_sign L cert ca_key))
             else io_ret ret)))))))
          else io_ret 0
      | _ \<Rightarrow> io_ret 0)"


section \<open>key\_pair.h\<close>

definition generate_rsa_key_pair :: "ossl_lib \<Rightarrow> c_int \<Rightarrow> cptr \<Rightarrow> cptr \<Rightarrow> (ossl, c_int) io" where
  "generate_rsa_key_pair L key_size private_key_path public_key_path =
     io_bind (generate_key L key_size) (\<lambda>p_key. case p_key of
       None \<Rightarrow> io_ret 0
     | Some key \<Rightarrow>
         io_bind (write_rsa_key_pair L p_key private_key_path public_key_path) (\<lambda>status.
         io_then (EVP_PKEY_free key) (io_ret status)))"

definition generate_rsa_key_pair_with_cert ::
  "ossl_lib \<Rightarrow> cptr \<Rightarrow> cptr \<Rightarrow> cptr \<Rightarrow> c_int \<Rightarrow> 64 word \<Rightarrow> cptr \<Rightarrow> cptr \<Rightarrow> cptr \<Rightarrow> cptr \<Rightarrow> (ossl, c_int) io" where
  "generate_rsa_key_pair_with_cert L cert_path private_key_path public_key_path key_size expire_time country state org common_name =
     io_bind (generate_key L key_size) (\<lambda>p_key. case p_key of
       None \<Rightarrow> io_ret 0
     | Some key \<Rightarrow>
         io_bind (write_rsa_key_pair L p_key private_key_path public_key_path) (\<lambda>ret.
         io_bind
           (if positive ret
            then io_bind (X509_new L) (\<lambda>p_cert. case p_cert of
                None \<Rightarrow> io_ret ret
              | Some cert \<Rightarrow>
                  io_bind (generate_x509_certificate L p_cert p_key expire_time country state org common_name) (\<lambda>ret.
                  io_bind (if positive ret then write_x509_certificate L cert cert_path else io_ret ret) (\<lambda>ret.
                  io_then (heap_free cert) (io_ret ret))))
            else io_ret ret) (\<lambda>ret.
         io_then (EVP_PKEY_free key) (io_ret ret))))"

definition generate_rsa_key_pair_and_cert_with_ca_sign ::
  "ossl_lib \<Rightarrow> cptr \<Rightarrow> cptr \<Rightarrow> cptr \<Rightarrow> cptr \<Rightarrow> cptr \<Rightarrow> c_int \<Rightarrow> 64 word \<Rightarrow> cptr \<Rightarrow> cptr \<Rightarrow> cptr \<Rightarrow> cptr \<Rightarrow> (ossl, c_int) io" where
  "generate_rsa_key_pair_and_cert_with_ca_sign L ca_private_key_path ca_cert_path private_key_path public_key_path cert_path
      key_size expire_time country state org common_name =
     io_bind (load_rsa_private_key L ca_private_key_path) (\<lambda>p_ca_key.
     io_bind (load_x509_certificate L ca_cert_path) (\<lambda>p_ca_cert.
     io_bind
       (if p_ca_key \<noteq> None \<and> p_ca_cert \<noteq> None
        then io_bind (generate_key L key_size) (\<lambda>p_key. case p_key of
            None \<Rightarrow> io_ret 0
          | Some key \<Rightarrow>
              io_bind (write_rsa_key_pair L p_key private_key_path public_key_path) (\<lambda>ret.
              io_bind
                (if positive ret
                 then io_bind (X509_REQ_new L) (\<lambda>p_cert_request. case p_cert_request of
                     None \<Rightarrow> io_ret ret
                   | Some req \<Rightarrow>
                       io_bind (generate_x509_certificate_request L p_cert_request p_key country state org common_name) (\<lambda>ret.
                       io_bind
                         (if positive ret
                          then io_bind (X509_new L) (\<lambda>p_cert. case p_cert of
                              None \<Rightarrow> io_ret ret
                            | Some cert \<Rightarrow>
                                io_bind (generate_x509_certificate_with_request L p_key p_cert p_cert_request p_ca_key p_ca_cert expire_time) (\<lambda>ret.
                                io_bind (if positive ret then write_x509_certificate L cert cert_path else io_ret ret) (\<lambda>ret.
                                io_then (heap_free cert) (io_ret ret))))
                          else io_ret ret) (\<lambda>ret.
                       io_then (heap_free req) (io_ret ret))))
                 else io_ret ret) (\<lambda>ret.
              io_then (EVP_PKEY_free key) (io_ret ret))))
        else io_ret 0) (\<lambda>ret.
     io_then (case p_ca_cert of None \<Rightarrow> io_ret () | Some c \<Rightarrow> heap_free c)
     (io_then (case p_ca_key of None \<Rightarrow> io_ret () | Some k \<Rightarrow> EVP_PKEY_free k) (io_ret ret)))))"

definition validate_rsa_key_pair :: "cptr \<Rightarrow> cptr \<Rightarrow> (ossl, c_int) io" where
  "validate_rsa_key_pair private_key_path public_key_path =
     io_bind (validate_rsa_private_key private_key_path) (\<lambda>ret.
     if positive ret then validate_rsa_public_key public_key_path else io_ret ret)"

definition validate_x509_certificate :: "cptr \<Rightarrow> (ossl, c_int) io" where
  "validate_x509_certificate certificate_path = validate_x509_certificate_file certificate_path"

section \<open>Runs\<close>

text \<open>A run returns, and its value and state have the property.\<close>

definition wp :: "('s, 'a) io \<Rightarrow> ('a \<Rightarrow> 's \<Rightarrow> bool) \<Rightarrow> 's \<Rightarrow> bool" where
  "wp m Q s \<longleftrightarrow> (case m s of (Inl f, t) \<Rightarrow> False | (Inr x, t) \<Rightarrow> Q x t)"

lemma wp_bind: "wp m (\<lambda>x. wp (k x) Q) s \<Longrightarrow> wp (io_bind m k) Q s"
  by (auto simp: wp_def io_bind_app split: prod.splits sum.splits)

lemma wp_then: "wp m (\<lambda>x. wp k Q) s \<Longrightarrow> wp (io_then m k) Q s"
  by (auto simp: wp_def io_then_app split: prod.splits sum.splits)

lemma wp_ret: "Q x s \<Longrightarrow> wp (io_ret x) Q s"
  by (simp add: wp_def io_ret_app)

lemma wp_deref: "Q x s \<Longrightarrow> wp (io_deref (Some x)) Q s"
  by (simp add: wp_def io_deref_Some)

lemma wp_get: "Q (f s) s \<Longrightarrow> wp (io_get f) Q s"
  by (simp add: wp_def io_get_app)

lemma wp_mono: "wp m Q s \<Longrightarrow> (\<And>x t. Q x t \<Longrightarrow> R x t) \<Longrightarrow> wp m R s"
  by (auto simp: wp_def split: prod.splits sum.splits)

lemma wp_run: "wp m Q s \<Longrightarrow> \<exists>x t. m s = (Inr x, t) \<and> Q x t"
  by (auto simp: wp_def split: prod.splits sum.splits)

definition all_ok :: "ossl_lib \<Rightarrow> bool" where
  "all_ok L \<longleftrightarrow> (\<forall>n. positive (outcome L n))"

text \<open>
  What a run has made since the state \<open>s\<close>: the objects it holds, the files, and the files it has open.
  Older objects are as they were, and what it no longer holds is released, or is a number or key material that a failing call left behind.
\<close>

definition cell_ok :: "ossl_lib \<Rightarrow> ossl \<Rightarrow> (nat \<Rightarrow> obj option) \<Rightarrow> ossl \<Rightarrow> nat \<Rightarrow> bool" where
  "cell_ok L s H t a \<longleftrightarrow> (case H a of
     Some ob \<Rightarrow> os_next s \<le> a \<and> a < os_next t \<and> os_objs t a = Some ob
   | None \<Rightarrow> if a < os_next s then os_objs t a = os_objs s a
       else os_objs t a = None \<or>
         a < os_next t \<and> \<not> all_ok L \<and> (os_objs t a = Some BigNum \<or> (\<exists>k. os_objs t a = Some (Rsa k))))"

definition holding :: "ossl_lib \<Rightarrow> ossl \<Rightarrow> (nat \<Rightarrow> obj option) \<Rightarrow> (string \<Rightarrow> pem option) \<Rightarrow> nat \<Rightarrow> ossl \<Rightarrow> bool" where
  "holding L s H F n t \<longleftrightarrow> os_next s \<le> os_next t \<and> os_files t = F \<and> os_open t = os_open s + n \<and> (\<forall>a. cell_ok L s H t a)"

definition keyed :: "(nat \<Rightarrow> obj option) \<Rightarrow> nat \<Rightarrow> nat \<Rightarrow> bool" where
  "keyed H a k \<longleftrightarrow> (\<exists>r. H a = Some (Pkey (Some r)) \<and> H r = Some (Rsa (Some k)))"

lemma holding_at: "holding L s H F n t \<Longrightarrow> H a = Some ob \<Longrightarrow> os_next s \<le> a \<and> a < os_next t \<and> os_objs t a = Some ob"
  by (drule holding_def [THEN iffD1]) (clarsimp simp: cell_ok_def [of L s H t a] dest!: spec [of _ a])

lemma holding_same:
  assumes "holding L s H F n t" "os_next t' = os_next t" "os_objs t' = os_objs t" "os_files t' = F'" "os_open t' = os_open s + n'"
  shows "holding L s H F' n' t'"
proof -
  have "cell_ok L s H t' = cell_ok L s H t" unfolding cell_ok_def assms(2,3) by (rule refl)
  then show ?thesis using assms by (simp add: holding_def)
qed

text \<open>A change of one cell.\<close>

lemma holding_upd:
  assumes "holding L s H F n t" "\<forall>b. b \<noteq> a \<longrightarrow> H' b = H b \<and> os_objs t' b = os_objs t b"
    "os_next t \<le> os_next t'" "os_files t' = os_files t" "os_open t' = os_open t" "cell_ok L s H' t' a"
  shows "holding L s H' F n t'"
proof -
  have "cell_ok L s H' t' b" for b
  proof (cases "b = a")
    case False
    then have "cell_ok L s H t b" "H' b = H b" "os_objs t' b = os_objs t b" using assms(1,2) by (simp_all add: holding_def)
    then show ?thesis using assms(3) unfolding cell_ok_def by (cases "H b") (simp_all, fastforce)
  qed (simp add: assms(6))
  then show ?thesis using assms(1,3-5) by (simp add: holding_def)
qed

lemma keyed_upd:
  assumes "keyed H a k" "H c = None"
  shows "keyed (H(c \<mapsto> ob)) a k"
proof -
  obtain r where r: "H a = Some (Pkey (Some r))" "H r = Some (Rsa (Some k))" using assms(1) by (auto simp: keyed_def)
  then have "a \<noteq> c" "r \<noteq> c" using assms(2) by auto
  then show ?thesis using r by (simp add: keyed_def)
qed

lemma wp_call:
  assumes "holding L s H F n t" "\<And>r t'. (all_ok L \<longrightarrow> positive r) \<Longrightarrow> holding L s H F n t' \<Longrightarrow> Q r t'"
  shows "wp (call L) Q t"
proof -
  have "holding L s H F n (t\<lparr>os_calls := os_calls t + 1\<rparr>)" using assms(1)
    by (rule holding_same) (use assms(1) in \<open>simp_all add: holding_def\<close>)
  then have "Q (outcome L (os_calls t)) (t\<lparr>os_calls := os_calls t + 1\<rparr>)" by (intro assms(2)) (simp_all add: all_ok_def)
  then show ?thesis by (simp add: wp_def call_def io_simps)
qed

lemma holding_new:
  assumes "holding L s H F n t"
  shows "H (os_next t) = None \<and> holding L s (H(os_next t \<mapsto> ob)) F n (t\<lparr>os_next := os_next t + 1, os_objs := (os_objs t)(os_next t \<mapsto> ob)\<rparr>)"
proof -
  have "H (os_next t) = None" using holding_at [OF assms, of "os_next t"] by (cases "H (os_next t)") auto
  moreover have "os_next s \<le> os_next t" using assms by (simp add: holding_def)
  ultimately show ?thesis by (auto simp: cell_ok_def intro!: holding_upd [OF assms, of "os_next t"])
qed

lemma wp_heap_new:
  assumes "holding L s H F n t" "\<And>a t'. H a = None \<Longrightarrow> holding L s (H(a \<mapsto> ob)) F n t' \<Longrightarrow> Q a t'"
  shows "wp (heap_new ob) Q t"
  using assms(2) holding_new [OF assms(1), of ob] by (simp add: wp_def heap_new_def io_simps)

lemma wp_new:
  assumes "holding L s H F n t"
    "\<And>t'. \<not> all_ok L \<Longrightarrow> holding L s H F n t' \<Longrightarrow> Q None t'"
    "\<And>a t'. H a = None \<Longrightarrow> holding L s (H(a \<mapsto> ob)) F n t' \<Longrightarrow> Q (Some a) t'"
  shows "wp (new L ob) Q t"
  unfolding new_def
  by (intro wp_bind wp_call [OF assms(1)]) (auto intro!: wp_bind wp_ret wp_heap_new assms(2,3))

lemma wp_heap_get:
  assumes "holding L s H F n t" "H a = Some ob" "Q ob t"
  shows "wp (heap_get a) Q t"
  using holding_at [OF assms(1,2)] assms(3) by (simp add: wp_def heap_get_def io_simps)

lemma wp_heap_put:
  assumes "holding L s H F n t" "H a = Some ob0" "\<And>t'. holding L s (H(a \<mapsto> ob)) F n t' \<Longrightarrow> Q () t'"
  shows "wp (heap_put a ob) Q t"
proof -
  have "holding L s (H(a \<mapsto> ob)) F n (t\<lparr>os_objs := (os_objs t)(a \<mapsto> ob)\<rparr>)"
    by (rule holding_upd [OF assms(1), of a]) (use holding_at [OF assms(1,2)] in \<open>auto simp: cell_ok_def\<close>)
  then show ?thesis by (simp add: wp_def heap_put_def io_simps assms(3))
qed

lemma wp_heap_free:
  assumes "holding L s H F n t" "H a = Some ob" "\<And>t'. holding L s (H(a := None)) F n t' \<Longrightarrow> Q () t'"
  shows "wp (heap_free a) Q t"
proof -
  have "holding L s (H(a := None)) F n (t\<lparr>os_objs := (os_objs t)(a := None)\<rparr>)"
    by (rule holding_upd [OF assms(1), of a]) (use holding_at [OF assms(1,2)] in \<open>auto simp: cell_ok_def\<close>)
  then show ?thesis using holding_at [OF assms(1,2)] by (simp add: wp_def heap_free_def io_simps assms(3))
qed

text \<open>What a failing call leaves behind.\<close>

lemma left_behind:
  assumes "holding L s (H(a \<mapsto> ob)) F n t" "H a = None" "\<not> all_ok L" "ob = BigNum \<or> (\<exists>k. ob = Rsa k)"
  shows "holding L s H F n t"
  using holding_at [OF assms(1), of a ob]
  by (intro holding_upd [OF assms(1), of a]) (use assms(2-4) in \<open>auto simp: cell_ok_def\<close>)

lemma wp_get_cert:
  assumes "holding L s H F n t" "H c = Some (Cert x)" "Q x t"
  shows "wp (get_cert c) Q t"
  using holding_at [OF assms(1,2)] assms(3) by (simp add: wp_def get_cert_def heap_get_def io_simps)

lemma wp_change_cert:
  assumes "holding L s (H(c \<mapsto> Cert x)) F n t"
    "\<And>r t'. (all_ok L \<longrightarrow> positive r) \<Longrightarrow> holding L s (H(c \<mapsto> Cert (if positive r then f x else x))) F n t' \<Longrightarrow> Q r t'"
  shows "wp (change_cert L c f) Q t"
proof -
  have put: "wp (if positive r then io_then (heap_put c (Cert (f x))) (io_ret r) else io_ret r) Q t'"
    if r: "all_ok L \<longrightarrow> positive r" and t': "holding L s (H(c \<mapsto> Cert x)) F n t'" for r t'
    using assms(2) [OF r] t'
    by (cases "positive r") (auto intro!: wp_then wp_ret wp_heap_put [OF t', of c "Cert x" "Cert (f x)", simplified])
  show ?thesis unfolding change_cert_def
    by (rule wp_bind, rule wp_get_cert [OF assms(1)], rule fun_upd_same, rule wp_bind, rule wp_call [OF assms(1)], rule put)
qed

lemma wp_get_req:
  assumes "holding L s H F n t" "H c = Some (Req x)" "Q x t"
  shows "wp (get_req c) Q t"
  using holding_at [OF assms(1,2)] assms(3) by (simp add: wp_def get_req_def heap_get_def io_simps)

lemma wp_change_req:
  assumes "holding L s (H(c \<mapsto> Req x)) F n t"
    "\<And>r t'. (all_ok L \<longrightarrow> positive r) \<Longrightarrow> holding L s (H(c \<mapsto> Req (if positive r then f x else x))) F n t' \<Longrightarrow> Q r t'"
  shows "wp (change_req L c f) Q t"
proof -
  have put: "wp (if positive r then io_then (heap_put c (Req (f x))) (io_ret r) else io_ret r) Q t'"
    if r: "all_ok L \<longrightarrow> positive r" and t': "holding L s (H(c \<mapsto> Req x)) F n t'" for r t'
    using assms(2) [OF r] t'
    by (cases "positive r") (auto intro!: wp_then wp_ret wp_heap_put [OF t', of c "Req x" "Req (f x)", simplified])
  show ?thesis unfolding change_req_def
    by (rule wp_bind, rule wp_get_req [OF assms(1)], rule fun_upd_same, rule wp_bind, rule wp_call [OF assms(1)], rule put)
qed

lemma wp_with_key:
  assumes "holding L s H F n t" "keyed H a k" "wp (f k) Q t"
  shows "wp (with_key a f) Q t"
proof -
  from assms(2) obtain r where "os_objs t a = Some (Pkey (Some r))" "os_objs t r = Some (Rsa (Some k))"
    using holding_at [OF assms(1)] by (metis keyed_def)
  then show ?thesis using assms(3) by (simp add: with_key_def key_of_def heap_get_def wp_def io_simps)
qed

lemma wp_without_key:
  assumes "holding L s H F n t" "H a = Some (Pkey None)" "Q 0 t"
  shows "wp (with_key a f) Q t"
  using holding_at [OF assms(1,2)] assms(3) by (simp add: with_key_def key_of_def heap_get_def wp_def io_simps)

lemma wp_fclose: "holding L s H F (Suc n) t \<Longrightarrow> (\<And>t'. holding L s H F n t' \<Longrightarrow> Q () t') \<Longrightarrow> wp fclose Q t"
proof -
  assume h: "holding L s H F (Suc n) t" and Q: "\<And>t'. holding L s H F n t' \<Longrightarrow> Q () t'"
  have "holding L s H F n (t\<lparr>os_open := os_open t - 1\<rparr>)"
    by (rule holding_same [OF h]) (use h in \<open>simp_all add: holding_def\<close>)
  then show ?thesis by (simp add: wp_def fclose_def io_simps Q)
qed

lemma wp_fopen_wb:
  assumes "holding L s H F n t" "\<And>t'. \<not> all_ok L \<Longrightarrow> holding L s H F n t' \<Longrightarrow> Q None t'"
    "\<And>t'. holding L s H (F(p \<mapsto> Truncated)) (Suc n) t' \<Longrightarrow> Q (Some p) t'"
  shows "wp (fopen_wb L (Some p)) Q t"
proof -
  have "holding L s H (F(p \<mapsto> Truncated)) (Suc n) (u\<lparr>os_files := (os_files u)(p \<mapsto> Truncated), os_open := os_open u + 1\<rparr>)"
    if "holding L s H F n u" for u
    by (rule holding_same [OF that]) (use that in \<open>simp_all add: holding_def\<close>)
  then have run: "wp (if positive r
      then io_then (io_modify (\<lambda>s. s\<lparr>os_files := (os_files s)(p \<mapsto> Truncated), os_open := os_open s + 1\<rparr>)) (io_ret (Some p))
      else io_ret None) Q u" if "all_ok L \<longrightarrow> positive r" "holding L s H F n u" for r u
    using that assms(2,3) by (auto simp: wp_def io_simps)
  show ?thesis unfolding fopen_wb_def
    by (rule wp_bind, rule wp_deref, rule wp_bind, rule wp_call [OF assms(1)], rule run)
qed

lemma wp_PEM_write:
  assumes "holding L s H F n t"
    "\<And>r t'. (all_ok L \<longrightarrow> positive r) \<Longrightarrow> holding L s H (if positive r then F(p \<mapsto> x) else F) n t' \<Longrightarrow> Q r t'"
  shows "wp (PEM_write L p x) Q t"
proof -
  have "holding L s H (F(p \<mapsto> x)) n (u\<lparr>os_files := (os_files u)(p \<mapsto> x)\<rparr>)" if "holding L s H F n u" for u
    by (rule holding_same [OF that]) (use that in \<open>simp_all add: holding_def\<close>)
  then have "wp (if positive r then io_then (io_modify (\<lambda>s. s\<lparr>os_files := (os_files s)(p \<mapsto> x)\<rparr>)) (io_ret r) else io_ret r) Q u"
    if "all_ok L \<longrightarrow> positive r" "holding L s H F n u" for r u
    using that assms(2) [OF that(1)] by (auto simp: wp_def io_simps)
  then show ?thesis unfolding PEM_write_def by (intro wp_bind wp_call [OF assms(1)])
qed

text \<open>What a failing call leaves behind may be forgotten.\<close>

definition leaky :: "obj option \<Rightarrow> bool" where
  "leaky p \<longleftrightarrow> p = Some BigNum \<or> (\<exists>k. p = Some (Rsa k))"

lemma holding_forget:
  assumes "holding L s H' F n t" "\<not> all_ok L" "\<And>b. H' b = H b \<or> H b = None \<and> leaky (H' b)"
  shows "holding L s H F n t"
proof -
  have "cell_ok L s H t b" for b
  proof (cases "H' b = H b")
    case True
    have "cell_ok L s H' t b" using assms(1) by (simp add: holding_def)
    then show ?thesis unfolding cell_ok_def True .
  next
    case False
    with assms(3) [of b] obtain ob where "H b = None" "H' b = Some ob" "leaky (Some ob)" by (cases "H' b") auto
    then show ?thesis using holding_at [OF assms(1), of b ob] assms(2) by (auto simp: cell_ok_def leaky_def)
  qed
  then show ?thesis using assms(1) by (simp add: holding_def)
qed

lemma wp_free_top:
  assumes "holding L s (H(c \<mapsto> ob)) F n t" "H c = None" "\<And>t'. holding L s H F n t' \<Longrightarrow> Q () t'"
  shows "wp (heap_free c) Q t"
proof -
  have "(H(c \<mapsto> ob))(c := None) = H" using assms(2) by (intro ext) simp
  then show ?thesis using wp_heap_free [OF assms(1), of c ob Q] assms(3) by simp
qed

text \<open>A key with or without its numbers, on top of what was held before.\<close>

definition has_key :: "(nat \<Rightarrow> obj option) \<Rightarrow> nat \<Rightarrow> nat option \<Rightarrow> (nat \<Rightarrow> obj option) \<Rightarrow> bool" where
  "has_key H a ko H' \<longleftrightarrow> H a = None \<and> (case ko of
     None \<Rightarrow> H' = H(a \<mapsto> Pkey None)
   | Some k \<Rightarrow> (\<exists>r. H r = None \<and> r \<noteq> a \<and> H' = H(r \<mapsto> Rsa (Some k), a \<mapsto> Pkey (Some r))))"

lemma has_key_keyed: "has_key H a (Some k) H' \<Longrightarrow> keyed H' a k"
  by (auto simp: has_key_def keyed_def)

lemma has_key_above: "has_key H a ko H' \<Longrightarrow> H' c = None \<Longrightarrow> H c = None"
  by (auto simp: has_key_def split: option.splits if_splits)

lemma has_key_keeps: "has_key H a ko H' \<Longrightarrow> H c = Some ob \<Longrightarrow> H' c = Some ob"
  by (auto simp: has_key_def split: option.splits)

lemma keyed_keeps: "has_key H a ko H' \<Longrightarrow> keyed H b k \<Longrightarrow> keyed H' b k"
  unfolding keyed_def using has_key_keeps by blast

lemma wp_key_free:
  assumes "has_key H a ko H'" "holding L s H' F n t" "\<And>t'. holding L s H F n t' \<Longrightarrow> Q () t'"
  shows "wp (EVP_PKEY_free a) Q t"
proof (cases ko)
  case None
  then have H': "H a = None" "H' = H(a \<mapsto> Pkey None)" using assms(1) by (simp_all add: has_key_def)
  then have free: "wp (heap_free a) Q t" using assms(2,3) wp_free_top by metis
  show ?thesis unfolding EVP_PKEY_free_def
    by (rule wp_bind, rule wp_heap_get [OF assms(2), of a "Pkey None"]) (simp_all add: H' free)
next
  case (Some k)
  then obtain r where r: "H a = None" "H r = None" "r \<noteq> a" "H' = H(r \<mapsto> Rsa (Some k), a \<mapsto> Pkey (Some r))"
    using assms(1) by (auto simp: has_key_def)
  have eq: "H'(r := None) = H(a \<mapsto> Pkey (Some r))" using r by (intro ext) simp
  have free: "wp (io_then (heap_free r) (heap_free a)) Q t"
  proof (rule wp_then, rule wp_heap_free [OF assms(2), of r "Rsa (Some k)"])
    show "H' r = Some (Rsa (Some k))" using r by simp
    show "wp (heap_free a) Q t'" if "holding L s (H'(r := None)) F n t'" for t'
      by (rule wp_free_top [where H = H and ob = "Pkey (Some r)"]) (use that eq r(1) assms(3) in simp_all)
  qed
  show ?thesis unfolding EVP_PKEY_free_def
    by (rule wp_bind, rule wp_heap_get [OF assms(2), of a "Pkey (Some r)"]) (use r free in simp_all)
qed

section \<open>Loading and writing\<close>

lemma wp_fopen_rb:
  assumes "holding L s H F n t" "\<And>t'. \<not> (all_ok L \<and> F p \<noteq> None) \<Longrightarrow> holding L s H F n t' \<Longrightarrow> Q None t'"
    "\<And>t'. holding L s H F (Suc n) t' \<Longrightarrow> Q (Some p) t'"
  shows "wp (fopen_rb L (Some p)) Q t"
proof -
  have F: "os_files t = F" using assms(1) by (simp add: holding_def)
  have "holding L s H F (Suc n) (u\<lparr>os_open := os_open u + 1\<rparr>)" if "holding L s H F n u" for u
    by (rule holding_same [OF that]) (use that in \<open>simp_all add: holding_def\<close>)
  then have run: "wp (if positive r \<and> os_files t p \<noteq> None
      then io_then (io_modify (\<lambda>s. s\<lparr>os_open := os_open s + 1\<rparr>)) (io_ret (Some p)) else io_ret None) Q u"
    if "all_ok L \<longrightarrow> positive r" "holding L s H F n u" for r u
    using that assms(2,3) by (auto simp: wp_def io_simps F)
  show ?thesis unfolding fopen_rb_def
    by (rule wp_bind, rule wp_deref, rule wp_bind, rule wp_get, rule wp_bind, rule wp_call [OF assms(1)], rule run)
qed

lemma wp_PEM_read_key:
  assumes "holding L s H F n t"
    "\<And>t'. \<not> (all_ok L \<and> (\<exists>k. F p = Some (PrivateKey k))) \<Longrightarrow> holding L s H F n t' \<Longrightarrow> Q None t'"
    "\<And>a k H' t'. F p = Some (PrivateKey k) \<Longrightarrow> has_key H a (Some k) H' \<Longrightarrow> holding L s H' F n t' \<Longrightarrow> Q (Some a) t'"
  shows "wp (PEM_read_PrivateKey L p) Q t"
proof -
  have made: "Q (Some a) x" if "F p = Some (PrivateKey k)" "H rsa = None" "(H(rsa \<mapsto> Rsa (Some k))) a = None"
    "holding L s (H(rsa \<mapsto> Rsa (Some k), a \<mapsto> Pkey (Some rsa))) F n x" for k rsa a x
    by (rule assms(3) [OF that(1) _ that(4)]) (use that(2,3) in \<open>auto simp: has_key_def split: if_splits\<close>)
  have "wp (case F p of
     Some (PrivateKey k) \<Rightarrow>
       if positive r then io_bind (heap_new (Rsa (Some k))) (\<lambda>rsa. io_bind (heap_new (Pkey (Some rsa))) (\<lambda>a. io_ret (Some a)))
       else io_ret None
   | _ \<Rightarrow> io_ret None) Q u" if "all_ok L \<longrightarrow> positive r" "holding L s H F n u" for r u
  proof (cases "\<exists>k. F p = Some (PrivateKey k) \<and> positive r")
    case True
    then obtain k where k: "F p = Some (PrivateKey k)" "positive r" by blast
    have "wp (io_bind (heap_new (Rsa (Some k))) (\<lambda>rsa. io_bind (heap_new (Pkey (Some rsa))) (\<lambda>a. io_ret (Some a)))) Q u"
      by (rule wp_bind, rule wp_heap_new [OF that(2)], rule wp_bind, rule wp_heap_new, assumption, rule wp_ret, rule made [OF k(1)])
    then show ?thesis using k by simp
  next
    case False
    then have "Q None u" using that by (intro assms(2)) auto
    then show ?thesis using False by (auto split: option.split pem.split intro!: wp_ret)
  qed
  then have run: "wp (io_bind (io_get (\<lambda>s. os_files s p)) (\<lambda>content. case content of
     Some (PrivateKey k) \<Rightarrow>
       if positive r then io_bind (heap_new (Rsa (Some k))) (\<lambda>rsa. io_bind (heap_new (Pkey (Some rsa))) (\<lambda>a. io_ret (Some a)))
       else io_ret None
   | _ \<Rightarrow> io_ret None)) Q u" if "all_ok L \<longrightarrow> positive r" "holding L s H F n u" for r u
    using that by (intro wp_bind wp_get) (simp add: holding_def)
  show ?thesis unfolding PEM_read_PrivateKey_def by (rule wp_bind, rule wp_call [OF assms(1)], rule run)
qed

lemma wp_PEM_read_cert:
  assumes "holding L s H F n t"
    "\<And>t'. \<not> (all_ok L \<and> (\<exists>c. F p = Some (Certificate c))) \<Longrightarrow> holding L s H F n t' \<Longrightarrow> Q None t'"
    "\<And>a c t'. F p = Some (Certificate c) \<Longrightarrow> H a = None \<Longrightarrow> holding L s (H(a \<mapsto> Cert c)) F n t' \<Longrightarrow> Q (Some a) t'"
  shows "wp (PEM_read_X509 L p) Q t"
proof -
  have "wp (case F p of
     Some (Certificate c) \<Rightarrow> if positive r then io_bind (heap_new (Cert c)) (\<lambda>a. io_ret (Some a)) else io_ret None
   | _ \<Rightarrow> io_ret None) Q u" if "all_ok L \<longrightarrow> positive r" "holding L s H F n u" for r u
  proof (cases "\<exists>c. F p = Some (Certificate c) \<and> positive r")
    case True
    then obtain c where c: "F p = Some (Certificate c)" "positive r" by blast
    have "wp (io_bind (heap_new (Cert c)) (\<lambda>a. io_ret (Some a))) Q u"
      by (rule wp_bind, rule wp_heap_new [OF that(2)], rule wp_ret, rule assms(3) [OF c(1)])
    then show ?thesis using c by simp
  next
    case False
    then have "Q None u" using that by (intro assms(2)) auto
    then show ?thesis using False by (auto split: option.split pem.split intro!: wp_ret)
  qed
  then have run: "wp (io_bind (io_get (\<lambda>s. os_files s p)) (\<lambda>content. case content of
     Some (Certificate c) \<Rightarrow> if positive r then io_bind (heap_new (Cert c)) (\<lambda>a. io_ret (Some a)) else io_ret None
   | _ \<Rightarrow> io_ret None)) Q u" if "all_ok L \<longrightarrow> positive r" "holding L s H F n u" for r u
    using that by (intro wp_bind wp_get) (simp add: holding_def)
  show ?thesis unfolding PEM_read_X509_def by (rule wp_bind, rule wp_call [OF assms(1)], rule run)
qed

lemma wp_load_key:
  assumes "holding L s H F n t"
    "\<And>t'. \<not> (all_ok L \<and> (\<exists>k. F p = Some (PrivateKey k))) \<Longrightarrow> holding L s H F n t' \<Longrightarrow> Q None t'"
    "\<And>a k H' t'. F p = Some (PrivateKey k) \<Longrightarrow> has_key H a (Some k) H' \<Longrightarrow> holding L s H' F n t' \<Longrightarrow> Q (Some a) t'"
  shows "wp (load_rsa_private_key L (Some p)) Q t"
  unfolding load_rsa_private_key_def
proof (rule wp_bind, rule wp_fopen_rb [OF assms(1)], goal_cases)
  case (1 t')
  then show ?case using assms(2) by (auto intro!: wp_ret)
next
  case (2 t')
  show ?case unfolding option.case
    by (rule wp_bind, rule wp_PEM_read_key [OF 2]; rule wp_then, erule wp_fclose, rule wp_ret) (auto intro: assms(2,3))
qed

lemma wp_load_cert:
  assumes "holding L s H F n t"
    "\<And>t'. \<not> (all_ok L \<and> (\<exists>c. F p = Some (Certificate c))) \<Longrightarrow> holding L s H F n t' \<Longrightarrow> Q None t'"
    "\<And>a c t'. F p = Some (Certificate c) \<Longrightarrow> H a = None \<Longrightarrow> holding L s (H(a \<mapsto> Cert c)) F n t' \<Longrightarrow> Q (Some a) t'"
  shows "wp (load_x509_certificate L (Some p)) Q t"
  unfolding load_x509_certificate_def
proof (rule wp_bind, rule wp_fopen_rb [OF assms(1)], goal_cases)
  case (1 t')
  then show ?case using assms(2) by (auto intro!: wp_ret)
next
  case (2 t')
  show ?case unfolding option.case
    by (rule wp_bind, rule wp_PEM_read_cert [OF 2]; rule wp_then, erule wp_fclose, rule wp_ret) (auto intro: assms(2,3))
qed

lemma wp_write_cert:
  assumes "holding L s H F n t" "H c = Some (Cert x)"
    "\<And>r F' t'. holding L s H F' n t' \<Longrightarrow> (positive r \<longrightarrow> F' = F(p \<mapsto> Certificate x)) \<Longrightarrow> (all_ok L \<longrightarrow> positive r) \<Longrightarrow>
      (\<forall>q. q \<noteq> p \<longrightarrow> F' q = F q) \<Longrightarrow> Q r t'"
  shows "wp (write_x509_certificate L c (Some p)) Q t"
  unfolding write_x509_certificate_def
proof (rule wp_bind, rule wp_fopen_wb [OF assms(1)], goal_cases)
  case (1 t')
  then show ?case using assms(3) [of F t' 0] by (auto simp: positive_def intro!: wp_ret)
next
  case (2 t')
  show ?case unfolding option.case
    by (rule wp_bind, rule wp_get_cert [where x = x, OF 2 assms(2)], rule wp_bind, rule wp_PEM_write [OF 2], rule wp_then,
      erule wp_fclose, rule wp_ret, rule assms(3)) auto
qed

text \<open>The two files of a pair. Without the second one the status is that of the first.\<close>

definition pair_written ::
  "nat option \<Rightarrow> string \<Rightarrow> string \<Rightarrow> (string \<Rightarrow> pem option) \<Rightarrow> c_int \<Rightarrow> (string \<Rightarrow> pem option) \<Rightarrow> bool" where
  "pair_written ko p q F r F' \<longleftrightarrow> (\<forall>x. x \<noteq> p \<longrightarrow> x \<noteq> q \<longrightarrow> F' x = F x) \<and>
     (positive r \<longrightarrow> (\<exists>k. ko = Some k \<and> (F' = F(p \<mapsto> PrivateKey k, q \<mapsto> PublicKey k) \<or> F' = F(p \<mapsto> PrivateKey k))))"

lemma wp_write_pair:
  assumes "has_key H0 a ko H" "holding L s H F n t"
    "\<And>r F' t'. holding L s H F' n t' \<Longrightarrow> pair_written ko p q F r F' \<Longrightarrow>
      (\<forall>k. ko = Some k \<longrightarrow> all_ok L \<longrightarrow> positive r \<and> F' = F(p \<mapsto> PrivateKey k, q \<mapsto> PublicKey k)) \<Longrightarrow> Q r t'"
  shows "wp (write_rsa_key_pair L (Some a) (Some p) (Some q)) Q t"
proof (cases ko)
  case None
  then have a: "H a = Some (Pkey None)" using assms(1) by (simp add: has_key_def)
  have zero: "Q 0 t'" if "holding L s H F' n t'" "\<forall>x. x \<noteq> p \<longrightarrow> F' x = F x" for F' t'
    using assms(3) [OF that(1), of 0] that(2) None by (simp add: pair_written_def positive_def)
  have "Q 0 t'" if "holding L s H F n t'" for t' by (rule zero [OF that]) simp
  moreover have "Q 0 t'" if "holding L s H (F(p \<mapsto> Truncated)) n t'" for t' by (rule zero [OF that]) simp
  ultimately show ?thesis unfolding write_rsa_key_pair_def
    by (auto simp: positive_def a intro!: wp_bind wp_then wp_ret wp_fopen_wb [OF assms(2)] wp_without_key [where H = H and a = a] wp_fclose)
next
  case (Some k)
  then have a: "keyed H a k" using assms(1) has_key_keyed by simp
  have stop: "Q r t'" if "holding L s H F' n t'" "\<forall>x. x \<noteq> p \<longrightarrow> x \<noteq> q \<longrightarrow> F' x = F x" "\<not> positive r" "\<not> all_ok L" for F' r t'
    using assms(3) [OF that(1), of r] that(2-4) by (simp add: pair_written_def)
  have first: "Q r t'" if "holding L s H (F(p \<mapsto> PrivateKey k)) n t'" "\<not> all_ok L" for r t'
    using assms(3) [OF that(1), of r] that(2) Some by (simp add: pair_written_def)
  have both: "Q r t'" if "holding L s H (F(p \<mapsto> PrivateKey k, q \<mapsto> PublicKey k)) n t'" "positive r" for r t'
    using assms(3) [OF that(1), of r] that(2) Some by (simp add: pair_written_def)
  have second: "wp (if positive st
      then io_bind (fopen_wb L (Some q)) (\<lambda>public_key_file. case public_key_file of
          None \<Rightarrow> io_ret st
        | Some p \<Rightarrow> io_bind (with_key a (\<lambda>k. PEM_write L p (PublicKey k))) (\<lambda>status. io_then fclose (io_ret status)))
      else io_ret st) Q u"
    if u: "holding L s H F1 n u" and F1: "if positive st then F1 = F(p \<mapsto> PrivateKey k) else \<not> all_ok L \<and> (\<forall>x. x \<noteq> p \<longrightarrow> F1 x = F x)" for st F1 u
  proof (cases "positive st")
    case False
    then show ?thesis using stop [OF u] F1 by (auto intro!: wp_ret)
  next
    case True
    have "wp (fopen_wb L (Some q)) (\<lambda>public_key_file. wp (case public_key_file of
          None \<Rightarrow> io_ret st
        | Some p \<Rightarrow> io_bind (with_key a (\<lambda>k. PEM_write L p (PublicKey k))) (\<lambda>status. io_then fclose (io_ret status))) Q) u"
    proof (rule wp_fopen_wb [OF u], goal_cases)
      case (1 t')
      then show ?case using first True F1 by (auto intro!: wp_ret)
    next
      case (2 t')
      show ?case unfolding option.case
      proof (rule wp_bind, rule wp_with_key [OF 2 a], rule wp_PEM_write [OF 2], rule wp_then, erule wp_fclose, rule wp_ret, goal_cases)
        case (1 r t'' t''')
        show ?case
        proof (cases "positive r")
          case pos: True
          then show ?thesis using 1 True F1 by (intro both) simp_all
        next
          case False
          then show ?thesis by (intro stop [OF 1(2)]) (use 1 True F1 in auto)
        qed
      qed
    qed
    then show ?thesis using True by (simp add: wp_bind)
  qed
  have "wp (io_bind (fopen_wb L (Some p)) (\<lambda>private_key_file.
        io_bind (case private_key_file of
            None \<Rightarrow> io_ret 0
          | Some p \<Rightarrow> io_bind (with_key a (\<lambda>k. PEM_write L p (PrivateKey k))) (\<lambda>status. io_then fclose (io_ret status))) (\<lambda>status.
        if positive status
        then io_bind (fopen_wb L (Some q)) (\<lambda>public_key_file. case public_key_file of
            None \<Rightarrow> io_ret status
          | Some p \<Rightarrow> io_bind (with_key a (\<lambda>k. PEM_write L p (PublicKey k))) (\<lambda>status. io_then fclose (io_ret status)))
        else io_ret status))) Q t"
  proof (rule wp_bind, rule wp_fopen_wb [OF assms(2)], goal_cases)
    case (1 t')
    show ?case unfolding option.case by (rule wp_bind, rule wp_ret, rule second [OF 1(2)]) (use 1 in \<open>simp add: positive_def\<close>)
  next
    case (2 t')
    show ?case unfolding option.case
      by (rule wp_bind, rule wp_bind, rule wp_with_key [OF 2 a], rule wp_PEM_write [OF 2], rule wp_then, erule wp_fclose, rule wp_ret,
          rule second, assumption) auto
  qed
  then show ?thesis unfolding write_rsa_key_pair_def option.sel by simp
qed

section \<open>Making keys and certificates\<close>

lemma wp_RSA_generate:
  assumes "holding L s G F n t" "G r = Some (Rsa x)" "G b = Some BigNum"
    "\<And>st k t'. (all_ok L \<longrightarrow> positive st) \<Longrightarrow> holding L s (if positive st then G(r \<mapsto> Rsa (Some k)) else G) F n t' \<Longrightarrow> Q st t'"
  shows "wp (RSA_generate_key_ex L r bits b) Q t"
proof -
  have "wp (if positive st then io_then (heap_put r (Rsa (Some k))) (io_ret st) else io_ret st) Q u"
    if "all_ok L \<longrightarrow> positive st" "holding L s G F n u" for st k u
  proof (cases "positive st")
    case True
    have "wp (io_then (heap_put r (Rsa (Some k))) (io_ret st)) Q u"
      by (rule wp_then, rule wp_heap_put [OF that(2) assms(2)], rule wp_ret, rule assms(4) [OF that(1), of k]) (simp add: True)
    then show ?thesis using True by simp
  next
    case False
    then show ?thesis using assms(4) [OF that(1), of undefined u] that(2) by (simp add: wp_ret)
  qed
  then show ?thesis unfolding RSA_generate_key_ex_def
    by (intro wp_then wp_heap_get [OF assms(1,3)] wp_heap_get [OF assms(1,2)] wp_bind wp_get wp_call [OF assms(1)])
qed

lemma wp_assign_RSA:
  assumes "holding L s G F n t" "G a = Some x" "G r = Some y"
    "\<And>st t'. (all_ok L \<longrightarrow> positive st) \<Longrightarrow> holding L s (if positive st then G(a \<mapsto> Pkey (Some r)) else G) F n t' \<Longrightarrow> Q st t'"
  shows "wp (EVP_PKEY_assign_RSA L a r) Q t"
proof -
  have run: "wp (if positive st then io_then (heap_put a (Pkey (Some r))) (io_ret st) else io_ret st) Q u"
    if "all_ok L \<longrightarrow> positive st" "holding L s G F n u" for st u
  proof (cases "positive st")
    case True
    have "wp (io_then (heap_put a (Pkey (Some r))) (io_ret st)) Q u"
      by (rule wp_then, rule wp_heap_put [OF that(2) assms(2)], rule wp_ret, rule assms(4) [OF that(1)]) (simp add: True)
    then show ?thesis using True by simp
  next
    case False
    then show ?thesis using assms(4) [OF that(1), of u] that(2) by (simp add: wp_ret)
  qed
  show ?thesis unfolding EVP_PKEY_assign_RSA_def
    by (rule wp_then, rule wp_heap_get [OF assms(1,2)], rule wp_then, rule wp_heap_get [OF assms(1,3)], rule wp_bind,
      rule wp_call [OF assms(1)], rule run)
qed

lemma wp_generate_key:
  assumes h: "holding L s H F n t"
    and none: "\<And>t'. \<not> (positive key_size \<and> all_ok L) \<Longrightarrow> holding L s H F n t' \<Longrightarrow> Q None t'"
    and some: "\<And>a ko H' t'. has_key H a ko H' \<Longrightarrow> (all_ok L \<longrightarrow> ko \<noteq> None) \<Longrightarrow> holding L s H' F n t' \<Longrightarrow> Q (Some a) t'"
  shows "wp (generate_key L key_size) Q t"
proof (cases "positive key_size")
  case False
  then show ?thesis using h none by (simp add: generate_key_def wp_ret)
next
  case True
  have lost: "Q None u" if "holding L s G F n u" "\<not> all_ok L" "\<And>b. G b = H b \<or> H b = None \<and> leaky (G b)" for G u
    using none holding_forget [OF that] that(2) by blast
  have keyless: "Q (Some a) u"
    if "holding L s G F n u" "\<not> all_ok L" "H a = None" "\<And>b. G b = (H(a \<mapsto> Pkey None)) b \<or> (H(a \<mapsto> Pkey None)) b = None \<and> leaky (G b)" for G a u
  proof -
    have "holding L s (H(a \<mapsto> Pkey None)) F n u" by (rule holding_forget [OF that(1,2,4)])
    then show ?thesis using that(2,3) by (intro some [of a None]) (simp_all add: has_key_def)
  qed
  have full: "wp (io_then (call L)
            (io_bind (RSA_generate_key_ex L rsa key_size bn) (\<lambda>status.
             io_bind (if positive status then EVP_PKEY_assign_RSA L key rsa else io_ret status) (\<lambda>status.
             io_then (heap_free bn) (io_ret (Some key)))))) Q u"
    if u: "holding L s (H(rsa \<mapsto> Rsa None, bn \<mapsto> BigNum, key \<mapsto> Pkey None)) F n u"
      and new: "H rsa = None" "(H(rsa \<mapsto> Rsa None)) bn = None" "(H(rsa \<mapsto> Rsa None, bn \<mapsto> BigNum)) key = None" for rsa bn key u
  proof -
    let ?G = "H(rsa \<mapsto> Rsa None, bn \<mapsto> BigNum, key \<mapsto> Pkey None)"
    have d: "rsa \<noteq> bn" "rsa \<noteq> key" "bn \<noteq> key" "H rsa = None" "H bn = None" "H key = None"
      using new by (auto split: if_splits)
    have finish: "wp (io_then (heap_free bn) (io_ret (Some key))) Q v"
      if v: "holding L s G F n v" and G: "G bn = Some BigNum" "\<And>w. holding L s (G(bn := None)) F n w \<Longrightarrow> Q (Some key) w" for G v
      by (rule wp_then, rule wp_heap_free [OF v G(1)], rule wp_ret, rule G(2))
    have left: "Q (Some key) w" if "holding L s (G(bn := None)) F n w" "\<not> all_ok L"
        "G = ?G \<or> (\<exists>k. G = ?G(rsa \<mapsto> Rsa (Some k)))" for G w
      by (rule keyless [OF that(1,2) d(6)]) (use that(3) d in \<open>auto simp: leaky_def split: if_splits\<close>)
    have done_: "Q (Some key) w" if "holding L s ((?G(rsa \<mapsto> Rsa (Some k), key \<mapsto> Pkey (Some rsa)))(bn := None)) F n w" for k w
    proof -
      have "(?G(rsa \<mapsto> Rsa (Some k), key \<mapsto> Pkey (Some rsa)))(bn := None) = H(rsa \<mapsto> Rsa (Some k), key \<mapsto> Pkey (Some rsa))"
        using d by (intro ext) auto
      then have "holding L s (H(rsa \<mapsto> Rsa (Some k), key \<mapsto> Pkey (Some rsa))) F n w" using that by simp
      moreover have "has_key H key (Some k) (H(rsa \<mapsto> Rsa (Some k), key \<mapsto> Pkey (Some rsa)))"
        using d by (auto simp: has_key_def)
      ultimately show ?thesis using some by blast
    qed
    have assign: "wp (io_bind (if positive st then EVP_PKEY_assign_RSA L key rsa else io_ret st) (\<lambda>status.
        io_then (heap_free bn) (io_ret (Some key)))) Q v"
      if v: "holding L s (if positive st then ?G(rsa \<mapsto> Rsa (Some k)) else ?G) F n v" "all_ok L \<longrightarrow> positive st" for st k v
    proof (cases "positive st")
      case True
      let ?G1 = "?G(rsa \<mapsto> Rsa (Some k))"
      have v1: "holding L s ?G1 F n v" using v(1) True by simp
      have key: "?G1 key = Some (Pkey None)" and rsa: "?G1 rsa = Some (Rsa (Some k))" using d by simp_all
      have "wp (EVP_PKEY_assign_RSA L key rsa) (\<lambda>x. wp (io_then (heap_free bn) (io_ret (Some key))) Q) v"
      proof (rule wp_assign_RSA [OF v1 key rsa], goal_cases)
        case (1 st' w)
        show ?case
        proof (cases "positive st'")
          case True
          then have w: "holding L s (?G(rsa \<mapsto> Rsa (Some k), key \<mapsto> Pkey (Some rsa))) F n w" using 1(2) by (simp only: if_True)
          show ?thesis
          proof (rule finish [OF w])
            show "(?G(rsa \<mapsto> Rsa (Some k), key \<mapsto> Pkey (Some rsa))) bn = Some BigNum" using d by simp
          qed (rule done_)
        next
          case False
          then have w: "holding L s ?G1 F n w" "\<not> all_ok L" using 1 by (simp_all only: if_False) blast
          show ?thesis
          proof (rule finish [OF w(1)])
            show "?G1 bn = Some BigNum" using d by simp
            show "Q (Some key) x" if "holding L s (?G1(bn := None)) F n x" for x by (rule left [OF that w(2)]) blast
          qed
        qed
      qed
      then show ?thesis using True by (simp add: wp_bind)
    next
      case False
      then have "wp (io_then (heap_free bn) (io_ret (Some key))) Q v"
        using left [of ?G] v d by (auto intro!: finish)
      then show ?thesis using False by (simp add: wp_bind wp_ret)
    qed
    show ?thesis
      by (rule wp_then, rule wp_call [OF u], rule wp_bind, rule wp_RSA_generate [of L s ?G F n _ rsa None bn])
        (use d assign in auto)
  qed
  have incomplete: "wp (io_bind (new L (Pkey None)) (\<lambda>p_key. case (p_key, ro, bo) of
        (Some key, Some rsa, Some big_num) \<Rightarrow>
            io_then (call L)
            (io_bind (RSA_generate_key_ex L rsa key_size big_num) (\<lambda>status.
             io_bind (if positive status then EVP_PKEY_assign_RSA L key rsa else io_ret status) (\<lambda>status.
             io_then (heap_free big_num) (io_ret p_key))))
        | _ \<Rightarrow> io_ret p_key)) Q u"
    if u: "holding L s G F n u" and part: "ro = None \<or> bo = None" "\<not> all_ok L" "\<And>b. G b = H b \<or> H b = None \<and> leaky (G b)" for ro bo G u
  proof (rule wp_bind, rule wp_new [OF u], goal_cases)
    case (1 v)
    then show ?case using lost [OF 1(2) part(2,3)] by (simp add: wp_ret)
  next
    case (2 a v)
    have "H a = None" using part(3) [of a] 2(1) by (auto simp: leaky_def)
    then have "Q (Some a) v" by (rule keyless [OF 2(2) part(2)]) (use part(3) in auto)
    then show ?case using part(1) by (cases ro; cases bo) (auto intro: wp_ret)
  qed
  show ?thesis
    unfolding generate_key_def RSA_new_def BN_new_def EVP_PKEY_new_def if_P [OF True]
  proof (rule wp_bind, rule wp_new [OF h], goal_cases)
    case (1 u)
    show ?case
    proof (rule wp_bind, rule wp_new [OF 1(2)], goal_cases)
      case (1 v)
      show ?case by (rule incomplete [OF 1(2)]) (use 1 in simp_all)
    next
      case (2 bn v)
      show ?case by (rule incomplete [OF 2(2)]) (use 1 2 in \<open>auto simp: leaky_def split: if_splits\<close>)
    qed
  next
    case (2 rsa u)
    note rsa = 2
    show ?case
    proof (rule wp_bind, rule wp_new [OF 2(2)], goal_cases)
      case (1 v)
      show ?case by (rule incomplete [OF 1(2)]) (use rsa 1 in \<open>auto simp: leaky_def split: if_splits\<close>)
    next
      case (2 bn v)
      note bn = 2
      show ?case
      proof (rule wp_bind, rule wp_new [OF 2(2)], goal_cases)
        case (1 w)
        have "Q None w" by (rule lost [OF 1(2,1)]) (use rsa bn in \<open>auto simp: leaky_def split: if_splits\<close>)
        then show ?case by (simp add: wp_ret)
      next
        case (2 key w)
        show ?case unfolding option.case prod.case by (rule full [OF 2(2) rsa(1) bn(1) 2(1)])
      qed
    qed
  qed
qed

lemma wp_key_cert:
  assumes "holding L s (H(c \<mapsto> Cert x)) F n t" "keyed H a k" "H c = None"
    "\<And>r t'. (all_ok L \<longrightarrow> positive r) \<Longrightarrow> holding L s (H(c \<mapsto> Cert (if positive r then f k x else x))) F n t' \<Longrightarrow> Q r t'"
  shows "wp (with_key a (\<lambda>k. change_cert L c (f k))) Q t"
  by (rule wp_with_key [OF assms(1) keyed_upd [OF assms(2,3)]], rule wp_change_cert [OF assms(1)], rule assms(4))

lemma wp_key_req:
  assumes "holding L s (H(c \<mapsto> Req x)) F n t" "keyed H a k" "H c = None"
    "\<And>r t'. (all_ok L \<longrightarrow> positive r) \<Longrightarrow> holding L s (H(c \<mapsto> Req (if positive r then f k x else x))) F n t' \<Longrightarrow> Q r t'"
  shows "wp (with_key a (\<lambda>k. change_req L c (f k))) Q t"
  by (rule wp_with_key [OF assms(1) keyed_upd [OF assms(2,3)]], rule wp_change_req [OF assms(1)], rule assms(4))

lemma wp_peek_cert:
  assumes "holding L s G F n t" "G c = Some (Cert x)" "holding L s G F n t \<Longrightarrow> Q x t"
  shows "wp (get_cert c) Q t"
  using assms(3) [OF assms(1)] by (rule wp_get_cert [where Q = Q, OF assms(1,2)])

lemma wp_peek_req:
  assumes "holding L s G F n t" "G c = Some (Req x)" "holding L s G F n t \<Longrightarrow> Q x t"
  shows "wp (get_req c) Q t"
  using assms(3) [OF assms(1)] by (rule wp_get_req [where Q = Q, OF assms(1,2)])

lemmas cert_calls = X509_set_serial_def X509_set_notBefore_def X509_set_notAfter_def X509_set_pubkey_def X509_add_entry_def
  X509_set_subject_name_def X509_set_issuer_name_def X509_sign_def
  X509_REQ_set_pubkey_def X509_REQ_add_entry_def X509_REQ_set_subject_name_def X509_REQ_sign_def

text \<open>The reference: a name of four parts, and certificates with everything in them.\<close>

definition name_of :: "cptr \<Rightarrow> cptr \<Rightarrow> cptr \<Rightarrow> cptr \<Rightarrow> names option" where
  "name_of country state org common_name = (case (country, state, org, common_name) of
     (Some c, Some st, Some ou, Some cn) \<Rightarrow> Some [(''C'', c), (''ST'', st), (''O'', ou), (''CN'', cn)] | _ \<Rightarrow> None)"

definition certificate_for :: "nat \<Rightarrow> names \<Rightarrow> nat \<Rightarrow> names \<Rightarrow> 64 word \<Rightarrow> x509" where
  "certificate_for k subject ca_k issuer expire_time =
     \<lparr>xc_serial = 1, xc_not_before = 0, xc_not_after = expire_time, xc_pubkey = Some k, xc_subject = subject,
      xc_issuer = issuer, xc_signed_by = Some ca_k\<rparr>"

lemma wp_generate_cert:
  assumes h: "holding L s (H(c \<mapsto> Cert empty_cert)) F n t" and c: "H c = None" and key: "keyed H a k"
    and Q: "\<And>r x t'. holding L s (H(c \<mapsto> Cert x)) F n t' \<Longrightarrow> (positive r \<longrightarrow> xc_signed_by x = Some k) \<Longrightarrow>
      (\<forall>ns. all_ok L \<longrightarrow> 0 < sint e \<longrightarrow> name_of co st org cn = Some ns \<longrightarrow> positive r \<and> x = certificate_for k ns k ns e) \<Longrightarrow> Q r t'"
  shows "wp (generate_x509_certificate L (Some c) (Some a) e co st org cn) Q t"
proof (cases "0 < sint e \<and> (\<exists>ns. name_of co st org cn = Some ns)")
  case False
  have "Q 0 t" by (rule Q [OF h]) (use False in \<open>auto simp: positive_def\<close>)
  moreover have "generate_x509_certificate L (Some c) (Some a) e co st org cn = io_ret 0"
    using False by (auto simp: generate_x509_certificate_def name_of_def split: option.splits)
  ultimately show ?thesis by (simp add: wp_ret)
next
  case True
  then obtain co' st' org' cn' where some: "co = Some co'" "st = Some st'" "org = Some org'" "cn = Some cn'" "0 < sint e"
    by (auto simp: name_of_def split: option.splits)
  show ?thesis
    unfolding generate_x509_certificate_def some option.case prod.case if_P [OF some(5)] cert_calls
    by (insert h c key, rule wp_then, erule wp_change_cert, rule wp_then, erule wp_change_cert, rule wp_then, erule wp_change_cert,
        rule wp_then, erule wp_key_cert, assumption, assumption, rule wp_then, erule wp_change_cert,
        rule wp_then, erule wp_change_cert, rule wp_then, erule wp_change_cert, rule wp_then, erule wp_change_cert,
        rule wp_bind, erule wp_peek_cert, rule fun_upd_same, rule wp_then, erule wp_change_cert,
        erule wp_key_cert, assumption, assumption, erule Q)
      (simp_all add: some name_of_def certificate_for_def empty_cert_def)
qed

lemma wp_generate_request:
  assumes h: "holding L s (H(c \<mapsto> Req empty_req)) F n t" and c: "H c = None" and key: "keyed H a k"
    and Q: "\<And>r x t'. holding L s (H(c \<mapsto> Req x)) F n t' \<Longrightarrow>
      (\<forall>ns. all_ok L \<longrightarrow> name_of co st org cn = Some ns \<longrightarrow> positive r \<and> xr_subject x = ns) \<Longrightarrow> Q r t'"
  shows "wp (generate_x509_certificate_request L (Some c) (Some a) co st org cn) Q t"
proof (cases "\<exists>ns. name_of co st org cn = Some ns")
  case False
  have "Q 0 t" by (rule Q [OF h]) (use False in auto)
  moreover have "generate_x509_certificate_request L (Some c) (Some a) co st org cn = io_ret 0"
    using False by (auto simp: generate_x509_certificate_request_def name_of_def split: option.splits)
  ultimately show ?thesis by (simp add: wp_ret)
next
  case True
  then obtain co' st' org' cn' where some: "co = Some co'" "st = Some st'" "org = Some org'" "cn = Some cn'"
    by (auto simp: name_of_def split: option.splits)
  let ?rest = "io_then (change_req L c (\<lambda>x. x\<lparr>xr_subject := xr_subject x @ [(''C'', co')]\<rparr>))
            (io_then (change_req L c (\<lambda>x. x\<lparr>xr_subject := xr_subject x @ [(''ST'', st')]\<rparr>))
            (io_then (change_req L c (\<lambda>x. x\<lparr>xr_subject := xr_subject x @ [(''O'', org')]\<rparr>))
            (io_then (change_req L c (\<lambda>x. x\<lparr>xr_subject := xr_subject x @ [(''CN'', cn')]\<rparr>))
            (io_bind (get_req c) (\<lambda>p_name.
             io_then (change_req L c (\<lambda>x. x\<lparr>xr_subject := xr_subject p_name\<rparr>))
            (with_key a (\<lambda>k. change_req L c (\<lambda>x. x\<lparr>xr_signed_by := Some k\<rparr>))))))))"
  have rest: "wp ?rest Q u" if "holding L s (H(c \<mapsto> Req x)) F n u" "xr_subject x = []" for x u
    by (insert that c key, rule wp_then, erule wp_change_req, rule wp_then, erule wp_change_req, rule wp_then, erule wp_change_req,
        rule wp_then, erule wp_change_req, rule wp_bind, erule wp_peek_req, rule fun_upd_same, rule wp_then, erule wp_change_req,
        erule wp_key_req, assumption, assumption, erule Q)
      (simp_all add: some name_of_def)
  have "wp (if positive r then ?rest else io_ret r) Q u"
    if "all_ok L \<longrightarrow> positive r" "holding L s (H(c \<mapsto> Req (if positive r then empty_req\<lparr>xr_pubkey := Some k\<rparr> else empty_req))) F n u" for r u
  proof (cases "positive r")
    case True
    then have "wp ?rest Q u" using that by (intro rest) (auto simp: empty_req_def)
    then show ?thesis using True by simp
  next
    case False
    then have "Q r u" using that by (intro Q [of empty_req]) auto
    then show ?thesis using False by (simp add: wp_ret)
  qed
  then show ?thesis
    unfolding generate_x509_certificate_request_def some option.case prod.case cert_calls
    by (intro wp_bind wp_key_req [OF h key c])
qed

lemma wp_generate_signed:
  assumes h: "holding L s (H(c \<mapsto> Cert empty_cert)) F n t" and c: "H c = None" and key: "keyed H a k" and ca: "keyed H ca_a ca_k"
    and req: "H q = Some (Req rq)" and ca_cert: "H ca_c = Some (Cert cc)"
    and Q: "\<And>r x t'. holding L s (H(c \<mapsto> Cert x)) F n t' \<Longrightarrow>
      (positive r \<longrightarrow> xc_signed_by x = Some ca_k \<and> xc_pubkey x = Some k) \<Longrightarrow>
      (all_ok L \<longrightarrow> 0 < sint e \<longrightarrow> positive r \<and> x = certificate_for k (xr_subject rq) ca_k (xc_subject cc) e) \<Longrightarrow> Q r t'"
  shows "wp (generate_x509_certificate_with_request L (Some a) (Some c) (Some q) (Some ca_a) (Some ca_c) e) Q t"
proof (cases "0 < sint e")
  case False
  have "Q 0 t" by (rule Q [OF h]) (use False in \<open>auto simp: positive_def\<close>)
  then show ?thesis using False by (simp add: generate_x509_certificate_with_request_def wp_ret)
next
  case True
  have q: "(H(c \<mapsto> Cert x)) q = Some (Req rq)" and cc: "(H(c \<mapsto> Cert x)) ca_c = Some (Cert cc)" for x using c req ca_cert by auto
  let ?rest = "io_bind (get_cert ca_c) (\<lambda>ca. io_then (change_cert L c (\<lambda>x. x\<lparr>xc_issuer := xc_subject ca\<rparr>))
      (with_key ca_a (\<lambda>k. change_cert L c (\<lambda>x. x\<lparr>xc_signed_by := Some k\<rparr>))))"
  have rest: "wp ?rest Q u"
    if "holding L s (H(c \<mapsto> Cert x)) F n u" "xc_pubkey x = Some k"
      "all_ok L \<longrightarrow> x = \<lparr>xc_serial = 1, xc_not_before = 0, xc_not_after = e, xc_pubkey = Some k, xc_subject = xr_subject rq,
        xc_issuer = xr_subject rq, xc_signed_by = None\<rparr>" for x u
    by (insert that c ca, rule wp_bind, erule wp_peek_cert, rule cc, rule wp_then, erule wp_change_cert,
        erule wp_key_cert, assumption, assumption, erule Q)
      (auto simp: certificate_for_def)
  have step: "wp (if positive r then ?rest else io_ret r) Q u"
    if "all_ok L \<longrightarrow> positive r" "holding L s (H(c \<mapsto> Cert (if positive r then x\<lparr>xc_pubkey := Some k\<rparr> else x))) F n u"
      "all_ok L \<longrightarrow> x = \<lparr>xc_serial = 1, xc_not_before = 0, xc_not_after = e, xc_pubkey = None, xc_subject = xr_subject rq,
        xc_issuer = xr_subject rq, xc_signed_by = None\<rparr>" for r x u
  proof (cases "positive r")
    case True
    then have "wp ?rest Q u" using that by (intro rest) auto
    then show ?thesis using True by simp
  next
    case False
    then have "Q r u" using that by (intro Q [of x]) auto
    then show ?thesis using False by (simp add: wp_ret)
  qed
  show ?thesis
    unfolding generate_x509_certificate_with_request_def option.case prod.case if_P [OF True] cert_calls
    by (insert h c key, rule wp_then, erule wp_change_cert, rule wp_bind, erule wp_peek_req, rule q,
        rule wp_then, erule wp_change_cert, rule wp_then, erule wp_change_cert, rule wp_then, erule wp_change_cert,
        rule wp_then, erule wp_change_cert, rule wp_bind, erule wp_key_cert, assumption, assumption, erule step [rotated])
      (simp_all add: empty_cert_def)
qed

section \<open>The three operations\<close>

text \<open>
  What the files may hold afterwards. A status of success says that the private key was written, and only that:
  the public key and the certificate may be missing. A certificate that was written is signed by the right key.
\<close>

definition files_after ::
  "(string \<Rightarrow> pem option) \<Rightarrow> string \<Rightarrow> string \<Rightarrow> string \<Rightarrow> (nat \<Rightarrow> nat) \<Rightarrow> c_int \<Rightarrow> (string \<Rightarrow> pem option) \<Rightarrow> bool" where
  "files_after F p q c signer r F' \<longleftrightarrow>
     (\<forall>x. x \<notin> {p, q, c} \<longrightarrow> F' x = F x) \<and>
     (positive r \<longrightarrow> (\<exists>k F1. (F1 = F(p \<mapsto> PrivateKey k, q \<mapsto> PublicKey k) \<or> F1 = F(p \<mapsto> PrivateKey k)) \<and>
        (F' = F1 \<or> (\<exists>x. xc_signed_by x = Some (signer k) \<and> F' = F1(c \<mapsto> Certificate x)))))"

lemma files_after_pair: "pair_written ko p q F r F' \<Longrightarrow> files_after F p q c sg r F'"
  by (auto simp: pair_written_def files_after_def)

text \<open>A certificate is made, filled, written and released; without memory for it the status so far stays.\<close>

definition certified ::
  "ossl_lib \<Rightarrow> (string \<Rightarrow> pem option) \<Rightarrow> string \<Rightarrow> nat \<Rightarrow> x509 option \<Rightarrow> c_int \<Rightarrow> (string \<Rightarrow> pem option) \<Rightarrow> bool" where
  "certified L F c signer whole r F' \<longleftrightarrow>
     (\<forall>y. y \<noteq> c \<longrightarrow> F' y = F y) \<and>
     (positive r \<longrightarrow> F' = F \<or> (\<exists>x. xc_signed_by x = Some signer \<and> F' = F(c \<mapsto> Certificate x))) \<and>
     (\<forall>x. all_ok L \<longrightarrow> whole = Some x \<longrightarrow> positive r \<and> F' = F(c \<mapsto> Certificate x))"

lemma wp_certify:
  assumes h: "holding L s H F n t"
    and g: "\<And>b w R. H b = None \<Longrightarrow> holding L s (H(b \<mapsto> Cert empty_cert)) F n w \<Longrightarrow>
      (\<And>r1 x w1. holding L s (H(b \<mapsto> Cert x)) F n w1 \<Longrightarrow> (positive r1 \<longrightarrow> xc_signed_by x = Some signer) \<Longrightarrow>
        (\<forall>x'. all_ok L \<longrightarrow> whole = Some x' \<longrightarrow> positive r1 \<and> x = x') \<Longrightarrow> R r1 w1) \<Longrightarrow> wp (g (Some b)) R w"
    and Q: "\<And>r' F' w. holding L s H F' n w \<Longrightarrow> certified L F c signer whole r' F' \<Longrightarrow> Q r' w"
  shows "wp (io_bind (X509_new L) (\<lambda>p_cert. case p_cert of
      None \<Rightarrow> io_ret r
    | Some cert \<Rightarrow> io_bind (g p_cert) (\<lambda>ret.
        io_bind (if positive ret then write_x509_certificate L cert (Some c) else io_ret ret) (\<lambda>ret.
        io_then (heap_free cert) (io_ret ret))))) Q t"
  unfolding X509_new_def
proof (rule wp_bind, rule wp_new [OF h], goal_cases)
  case (1 w)
  then show ?case using Q [OF 1(2), of r] by (simp add: certified_def wp_ret)
next
  case (2 b w)
  note cert = 2
  show ?case unfolding option.case
  proof (rule wp_bind, rule g [OF 2], rule wp_bind, goal_cases)
    case (1 r1 x w1)
    note made = 1
    have close: "wp (io_then (heap_free b) (io_ret r')) Q w'"
      if w': "holding L s (H(b \<mapsto> Cert x)) F' n w'" "certified L F c signer whole r' F'" for r' F' w'
      by (rule wp_then, rule wp_free_top [OF w'(1) cert(1)], rule wp_ret, erule Q [OF _ w'(2)])
    show ?case
    proof (cases "positive r1")
      case True
      have "wp (write_x509_certificate L b (Some c)) (\<lambda>ret. wp (io_then (heap_free b) (io_ret ret)) Q) w1"
        by (rule wp_write_cert [OF made(1) fun_upd_same], erule close) (use True made(2,3) in \<open>auto simp: certified_def\<close>)
      then show ?thesis using True by simp
    next
      case False
      then have "certified L F c signer whole r1 F" using made(3) by (auto simp: certified_def)
      then show ?thesis using close [OF made(1)] False by (simp add: wp_ret)
    qed
  qed
qed

lemma files_after_cert:
  assumes "pair_written (Some k) p q F r F1" "positive r" "certified L F1 c (sg k) whole r' F2"
  shows "files_after F p q c sg r' F2"
proof -
  from assms(1,2) have F1: "F1 = F(p \<mapsto> PrivateKey k, q \<mapsto> PublicKey k) \<or> F1 = F(p \<mapsto> PrivateKey k)"
    by (auto simp: pair_written_def)
  moreover have "\<forall>x. x \<notin> {p, q, c} \<longrightarrow> F2 x = F x"
    using F1 assms(3) unfolding certified_def by auto
  ultimately show ?thesis using assms(3) unfolding certified_def files_after_def by blast
qed

lemma wp_key_pair:
  assumes h: "holding L s H F n t"
    and Q: "\<And>r F' t'. holding L s H F' n t' \<Longrightarrow> files_after F p q p (\<lambda>k. k) r F' \<Longrightarrow>
      (all_ok L \<longrightarrow> positive bits \<longrightarrow> positive r \<and> (\<exists>k. F' = F(p \<mapsto> PrivateKey k, q \<mapsto> PublicKey k))) \<Longrightarrow> Q r t'"
  shows "wp (generate_rsa_key_pair L bits (Some p) (Some q)) Q t"
  unfolding generate_rsa_key_pair_def
proof (rule wp_bind, rule wp_generate_key [OF h], goal_cases)
  case (1 u)
  have "Q 0 u" by (rule Q [OF 1(2)]) (use 1(1) in \<open>auto simp: files_after_def positive_def\<close>)
  then show ?case by (simp add: wp_ret)
next
  case (2 a ko H' u)
  show ?case unfolding option.case
    by (rule wp_bind, rule wp_write_pair [OF 2(1,3)], rule wp_then, erule wp_key_free [OF 2(1)], rule wp_ret, erule Q)
      (use 2(2) in \<open>auto intro: files_after_pair\<close>)
qed

lemma wp_with_cert:
  assumes h: "holding L s H F n t"
    and Q: "\<And>r F' t'. holding L s H F' n t' \<Longrightarrow> files_after F p q c (\<lambda>k. k) r F' \<Longrightarrow>
      (\<forall>ns. all_ok L \<longrightarrow> positive bits \<longrightarrow> 0 < sint e \<longrightarrow> name_of co st org cn = Some ns \<longrightarrow> positive r \<and>
         (\<exists>k. F' = F(p \<mapsto> PrivateKey k, q \<mapsto> PublicKey k, c \<mapsto> Certificate (certificate_for k ns k ns e)))) \<Longrightarrow> Q r t'"
  shows "wp (generate_rsa_key_pair_with_cert L (Some c) (Some p) (Some q) bits e co st org cn) Q t"
  unfolding generate_rsa_key_pair_with_cert_def
proof (rule wp_bind, rule wp_generate_key [OF h], goal_cases)
  case (1 u)
  have "Q 0 u" by (rule Q [OF 1(2)]) (use 1(1) in \<open>auto simp: files_after_def positive_def\<close>)
  then show ?case by (simp add: wp_ret)
next
  case (2 a ko H' u)
  note key = 2
  show ?case unfolding option.case
  proof (rule wp_bind, rule wp_write_pair [OF 2(1,3)], rule wp_bind, goal_cases)
    case (1 r F1 v)
    note pair = 1
    have fin: "wp (io_then (EVP_PKEY_free a) (io_ret r')) Q w"
      if w: "holding L s H' F2 n w" "files_after F p q c (\<lambda>k. k) r' F2"
        "\<forall>ns. all_ok L \<longrightarrow> positive bits \<longrightarrow> 0 < sint e \<longrightarrow> name_of co st org cn = Some ns \<longrightarrow> positive r' \<and>
         (\<exists>k. F2 = F(p \<mapsto> PrivateKey k, q \<mapsto> PublicKey k, c \<mapsto> Certificate (certificate_for k ns k ns e)))" for r' F2 w
      by (rule wp_then, rule wp_key_free [OF key(1) w(1)], rule wp_ret, erule Q [OF _ w(2,3)])
    show ?case
    proof (cases "positive r")
      case False
      then have "\<not> all_ok L" using key(2) pair(3) by auto
      then show ?thesis using fin [OF pair(1) files_after_pair [OF pair(2)]] False by (simp add: wp_ret)
    next
      case True
      obtain k where k: "ko = Some k" using pair(2) True by (auto simp: pair_written_def)
      have keyed: "keyed H' a k" using key(1) k has_key_keyed by simp
      define whole where "whole = (if 0 < sint e then map_option (\<lambda>ns. certificate_for k ns k ns e) (name_of co st org cn) else None)"
      have "wp (io_bind (X509_new L) (\<lambda>p_cert. case p_cert of
          None \<Rightarrow> io_ret r
        | Some cert \<Rightarrow> io_bind (generate_x509_certificate L p_cert (Some a) e co st org cn) (\<lambda>ret.
            io_bind (if positive ret then write_x509_certificate L cert (Some c) else io_ret ret) (\<lambda>ret.
            io_then (heap_free cert) (io_ret ret))))) (\<lambda>ret. wp (io_then (EVP_PKEY_free a) (io_ret ret)) Q) v"
      proof (rule wp_certify [where signer = k and whole = whole, OF pair(1)], goal_cases)
        case (1 b w R)
        show ?case by (rule wp_generate_cert [OF 1(2,1) keyed], rule 1(3)) (auto simp: whole_def split: if_splits)
      next
        case (2 r' F2 w)
        show ?case
        proof (rule fin [OF 2(1) files_after_cert [where sg = "\<lambda>k. k", OF pair(2) [unfolded k] True 2(2)]], goal_cases)
          case 1
          then show ?case using 2(2) pair(3) k by (auto simp: certified_def whole_def)
        qed
      qed
      then show ?thesis using True by simp
    qed
  qed
qed

definition whole_cert :: "nat \<Rightarrow> nat \<Rightarrow> names \<Rightarrow> 64 word \<Rightarrow> names option \<Rightarrow> x509 option" where
  "whole_cert k ca_k issuer e subject = (if 0 < sint e then map_option (\<lambda>ns. certificate_for k ns ca_k issuer e) subject else None)"

text \<open>The request and the certificate made from it.\<close>

lemma wp_request:
  assumes h: "holding L s H F n t" and key: "keyed H a k" and ca: "keyed H ca_a ck" and ca_cert: "H ca_c = Some (Cert cc)"
    and Q: "\<And>r' F' w. holding L s H F' n w \<Longrightarrow>
      certified L F c ck (whole_cert k ck (xc_subject cc) e (name_of co st org cn)) r' F' \<Longrightarrow> Q r' w"
  shows "wp (io_bind (X509_REQ_new L) (\<lambda>p_cert_request. case p_cert_request of
       None \<Rightarrow> io_ret r
     | Some req \<Rightarrow>
         io_bind (generate_x509_certificate_request L p_cert_request (Some a) co st org cn) (\<lambda>ret.
         io_bind
           (if positive ret
            then io_bind (X509_new L) (\<lambda>p_cert. case p_cert of
                None \<Rightarrow> io_ret ret
              | Some cert \<Rightarrow>
                  io_bind (generate_x509_certificate_with_request L (Some a) p_cert p_cert_request (Some ca_a) (Some ca_c) e) (\<lambda>ret.
                  io_bind (if positive ret then write_x509_certificate L cert (Some c) else io_ret ret) (\<lambda>ret.
                  io_then (heap_free cert) (io_ret ret))))
            else io_ret ret) (\<lambda>ret.
         io_then (heap_free req) (io_ret ret))))) Q t"
  unfolding X509_REQ_new_def
proof (rule wp_bind, rule wp_new [OF h], goal_cases)
  case (1 w)
  then show ?case using Q [OF 1(2), of r] by (simp add: certified_def wp_ret)
next
  case (2 q w)
  note req = 2
  show ?case unfolding option.case
  proof (rule wp_bind, rule wp_generate_request [OF 2(2,1) key], rule wp_bind, goal_cases)
    case (1 r1 x w1)
    note made = 1
    let ?H = "H(q \<mapsto> Req x)" and ?whole = "whole_cert k ck (xc_subject cc) e (name_of co st org cn)"
    have close: "wp (io_then (heap_free q) (io_ret r')) Q w'"
      if w': "holding L s ?H F' n w'" "certified L F c ck ?whole r' F'" for r' F' w'
      by (rule wp_then, rule wp_free_top [OF w'(1) req(1)], rule wp_ret, erule Q [OF _ w'(2)])
    have kept: "keyed ?H a k" "keyed ?H ca_a ck" "?H q = Some (Req x)" "?H ca_c = Some (Cert cc)"
      using key ca ca_cert req(1) by (auto intro: keyed_upd)
    show ?case
    proof (cases "positive r1")
      case True
      have "wp (io_bind (X509_new L) (\<lambda>p_cert. case p_cert of
                None \<Rightarrow> io_ret r1
              | Some cert \<Rightarrow>
                  io_bind (generate_x509_certificate_with_request L (Some a) p_cert (Some q) (Some ca_a) (Some ca_c) e) (\<lambda>ret.
                  io_bind (if positive ret then write_x509_certificate L cert (Some c) else io_ret ret) (\<lambda>ret.
                  io_then (heap_free cert) (io_ret ret))))) (\<lambda>ret. wp (io_then (heap_free q) (io_ret ret)) Q) w1"
      proof (rule wp_certify [where signer = ck and whole = ?whole, OF made(1)], goal_cases)
        case (1 b w R)
        show ?case by (rule wp_generate_signed [where H = ?H, OF 1(2,1) kept], erule 1(3)) (use made(2) in \<open>auto simp: whole_cert_def split: if_splits\<close>)
      next
        case (2 r' F2 w)
        then show ?case by (rule close)
      qed
      then show ?thesis using True by simp
    next
      case False
      then have "certified L F c ck ?whole r1 F" using made(2) by (auto simp: certified_def whole_cert_def split: if_splits)
      then show ?thesis using close [OF made(1)] False by (simp add: wp_ret)
    qed
  qed
qed

text \<open>Everything between the loading of the keys of the authority and their release.\<close>

lemma wp_signed_pair:
  assumes h: "holding L s H F n t" and ca: "keyed H ca_a ck" and ca_cert: "H ca_c = Some (Cert cc)"
    and Q: "\<And>r F' t'. holding L s H F' n t' \<Longrightarrow> files_after F p q c (\<lambda>k. ck) r F' \<Longrightarrow>
      (\<forall>ns. all_ok L \<longrightarrow> positive bits \<longrightarrow> 0 < sint e \<longrightarrow> name_of co st org cn = Some ns \<longrightarrow> positive r \<and>
         (\<exists>k. F' = F(p \<mapsto> PrivateKey k, q \<mapsto> PublicKey k, c \<mapsto> Certificate (certificate_for k ns ck (xc_subject cc) e)))) \<Longrightarrow> Q r t'"
  shows "wp (io_bind (generate_key L bits) (\<lambda>p_key. case p_key of
            None \<Rightarrow> io_ret 0
          | Some key \<Rightarrow>
              io_bind (write_rsa_key_pair L p_key (Some p) (Some q)) (\<lambda>ret.
              io_bind
                (if positive ret
                 then io_bind (X509_REQ_new L) (\<lambda>p_cert_request. case p_cert_request of
                     None \<Rightarrow> io_ret ret
                   | Some req \<Rightarrow>
                       io_bind (generate_x509_certificate_request L p_cert_request p_key co st org cn) (\<lambda>ret.
                       io_bind
                         (if positive ret
                          then io_bind (X509_new L) (\<lambda>p_cert. case p_cert of
                              None \<Rightarrow> io_ret ret
                            | Some cert \<Rightarrow>
                                io_bind (generate_x509_certificate_with_request L p_key p_cert p_cert_request (Some ca_a) (Some ca_c) e) (\<lambda>ret.
                                io_bind (if positive ret then write_x509_certificate L cert (Some c) else io_ret ret) (\<lambda>ret.
                                io_then (heap_free cert) (io_ret ret))))
                          else io_ret ret) (\<lambda>ret.
                       io_then (heap_free req) (io_ret ret))))
                 else io_ret ret) (\<lambda>ret.
              io_then (EVP_PKEY_free key) (io_ret ret))))) Q t"
proof (rule wp_bind, rule wp_generate_key [OF h], goal_cases)
  case (1 u)
  have "Q 0 u" by (rule Q [OF 1(2)]) (use 1(1) in \<open>auto simp: files_after_def positive_def\<close>)
  then show ?case by (simp add: wp_ret)
next
  case (2 a ko H' u)
  note key = 2
  show ?case unfolding option.case
  proof (rule wp_bind, rule wp_write_pair [OF 2(1,3)], rule wp_bind, goal_cases)
    case (1 r F1 v)
    note pair = 1
    have fin: "wp (io_then (EVP_PKEY_free a) (io_ret r')) Q w"
      if w: "holding L s H' F2 n w" "files_after F p q c (\<lambda>k. ck) r' F2"
        "\<forall>ns. all_ok L \<longrightarrow> positive bits \<longrightarrow> 0 < sint e \<longrightarrow> name_of co st org cn = Some ns \<longrightarrow> positive r' \<and>
         (\<exists>k. F2 = F(p \<mapsto> PrivateKey k, q \<mapsto> PublicKey k, c \<mapsto> Certificate (certificate_for k ns ck (xc_subject cc) e)))" for r' F2 w
      by (rule wp_then, rule wp_key_free [OF key(1) w(1)], rule wp_ret, erule Q [OF _ w(2,3)])
    show ?case
    proof (cases "positive r")
      case False
      then have "\<not> all_ok L" using key(2) pair(3) by auto
      then show ?thesis using fin [OF pair(1) files_after_pair [OF pair(2)]] False by (simp add: wp_ret)
    next
      case True
      obtain k where k: "ko = Some k" using pair(2) True by (auto simp: pair_written_def)
      have kept: "keyed H' a k" "keyed H' ca_a ck" "H' ca_c = Some (Cert cc)"
        using key(1) k ca ca_cert has_key_keyed keyed_keeps has_key_keeps by blast+
      show ?thesis unfolding if_P [OF True]
      proof (rule wp_request [OF pair(1) kept], goal_cases)
        case (1 r' F2 w)
        show ?case
        proof (rule fin [OF 1(1) files_after_cert [where sg = "\<lambda>k. ck", OF pair(2) [unfolded k] True 1(2)]], goal_cases)
          case 1
          then show ?case using \<open>certified L F1 c ck _ r' F2\<close> pair(3) k by (auto simp: certified_def whole_cert_def)
        qed
      qed
    qed
  qed
qed

lemma wp_ca_sign:
  assumes h: "holding L s H F n t"
    and Q: "\<And>r F' t'. holding L s H F' n t' \<Longrightarrow> (\<forall>x. x \<notin> {p, q, c} \<longrightarrow> F' x = F x) \<Longrightarrow>
      (positive r \<longrightarrow> (\<exists>ck. F cap = Some (PrivateKey ck) \<and> files_after F p q c (\<lambda>k. ck) r F')) \<Longrightarrow>
      (\<forall>ns ck cc. all_ok L \<longrightarrow> positive bits \<longrightarrow> 0 < sint e \<longrightarrow> name_of co st org cn = Some ns \<longrightarrow>
         F cap = Some (PrivateKey ck) \<longrightarrow> F cac = Some (Certificate cc) \<longrightarrow> positive r \<and>
         (\<exists>k. F' = F(p \<mapsto> PrivateKey k, q \<mapsto> PublicKey k, c \<mapsto> Certificate (certificate_for k ns ck (xc_subject cc) e)))) \<Longrightarrow> Q r t'"
  shows "wp (generate_rsa_key_pair_and_cert_with_ca_sign L (Some cap) (Some cac) (Some p) (Some q) (Some c) bits e co st org cn) Q t"
  unfolding generate_rsa_key_pair_and_cert_with_ca_sign_def
proof (rule wp_bind, rule wp_load_key [OF h], goal_cases)
  case (1 u)
  have stop: "Q 0 w" if "holding L s H F n w" for w
    by (rule Q [OF that]) (use 1(1) in \<open>auto simp: positive_def\<close>)
  show ?case
  proof (rule wp_bind, rule wp_load_cert [OF 1(2)], goal_cases)
    case (1 v)
    then show ?case using stop by (simp add: wp_bind wp_then wp_ret)
  next
    case (2 d cc v)
    have "wp (heap_free d) (\<lambda>_. wp (io_then (io_ret ()) (io_ret 0)) Q) v"
      by (rule wp_free_top [OF 2(3,2)]) (simp add: wp_then wp_ret stop)
    then show ?case by (simp add: wp_bind wp_then wp_ret)
  qed
next
  case (2 ca ck H1 u)
  note key = 2
  show ?case
  proof (rule wp_bind, rule wp_load_cert [OF 2(3)], goal_cases)
    case (1 v)
    have "wp (EVP_PKEY_free ca) (\<lambda>_. wp (io_ret 0) Q) v"
      by (rule wp_key_free [OF key(2) 1(2)], rule wp_ret, erule Q) (use 1(1) in \<open>auto simp: positive_def\<close>)
    then show ?case by (simp add: wp_bind wp_then wp_ret)
  next
    case (2 d cc v)
    note cert = 2
    have keyed: "keyed (H1(d \<mapsto> Cert cc)) ca ck" by (rule keyed_upd [OF has_key_keyed [OF key(2)] cert(2)])
    have conds: "(Some ca \<noteq> None \<and> Some d \<noteq> None) = True" by simp
    show ?case unfolding conds if_True option.case
    proof (rule wp_bind, rule wp_signed_pair [OF cert(3) keyed fun_upd_same], goal_cases)
      case (1 r F' w)
      show ?case
        by (rule wp_then, rule wp_free_top [OF 1(1) cert(2)], rule wp_then, erule wp_key_free [OF key(2)], rule wp_ret, erule Q)
          (use 1(2,3) key(1) cert(1) in \<open>auto simp: files_after_def\<close>)
    qed
  qed
qed

section \<open>Properties\<close>

definition fresh_above :: "ossl \<Rightarrow> bool" where
  "fresh_above s \<longleftrightarrow> (\<forall>a. os_next s \<le> a \<longrightarrow> os_objs s a = None)"

text \<open>The state of the objects and open files after a run: as before, or with what a failing call has left behind.\<close>

definition left_over :: "ossl_lib \<Rightarrow> ossl \<Rightarrow> ossl \<Rightarrow> bool" where
  "left_over L s t \<longleftrightarrow> os_open t = os_open s \<and>
     (\<forall>a. os_objs t a = os_objs s a \<or> \<not> all_ok L \<and> os_objs s a = None \<and> leaky (os_objs t a))"

lemma holding_start: "fresh_above s \<Longrightarrow> holding L s Map.empty (os_files s) 0 s"
  by (simp add: holding_def cell_ok_def fresh_above_def)

lemma holding_end:
  assumes "fresh_above s" "holding L s Map.empty F 0 t"
  shows "left_over L s t"
proof -
  have "os_objs t a = os_objs s a \<or> \<not> all_ok L \<and> os_objs s a = None \<and> leaky (os_objs t a)" for a
  proof -
    have "cell_ok L s Map.empty t a" using assms(2) by (simp add: holding_def)
    then show ?thesis using assms(1) by (auto simp: cell_ok_def fresh_above_def leaky_def split: if_splits)
  qed
  then show ?thesis using assms(2) by (simp add: left_over_def holding_def)
qed

lemma holding_files: "holding L s H F n t \<Longrightarrow> os_files t = F"
  by (simp add: holding_def)

text \<open>A library that never fails, and makes the key 7.\<close>

definition demo_ossl :: ossl_lib where
  "demo_ossl = \<lparr>outcome = (\<lambda>n. 1), fresh_key = (\<lambda>n. 7)\<rparr>"

definition demo_disk :: "(string \<Rightarrow> pem option) \<Rightarrow> ossl" where
  "demo_disk F = \<lparr>os_calls = 0, os_next = 0, os_objs = Map.empty, os_files = F, os_open = 0\<rparr>"

lemma demo_ossl_ok: "all_ok demo_ossl" "fresh_above (demo_disk F)" "os_files (demo_disk F) = F" "positive 2048"
  by (simp_all add: all_ok_def demo_ossl_def positive_def fresh_above_def demo_disk_def)

text \<open>
  C37: whatever the library returns, making a pair of keys, with a certificate of its own or of an authority,
  returns without a second release, a use of released memory or a release of something else. Afterwards
  the files are closed and the objects are those of before: only when a call has failed may a big number or the
  material of a key be left behind.
\<close>

theorem key_pair_objects:
  assumes "fresh_above s"
  shows "(\<exists>r t. generate_rsa_key_pair L bits (Some p) (Some q) s = (Inr r, t) \<and> left_over L s t) \<and>
    (\<exists>r t. generate_rsa_key_pair_with_cert L (Some c) (Some p) (Some q) bits e co st org cn s = (Inr r, t) \<and> left_over L s t) \<and>
    (\<exists>r t. generate_rsa_key_pair_and_cert_with_ca_sign L (Some cap) (Some cac) (Some p) (Some q) (Some c) bits e co st org cn s =
       (Inr r, t) \<and> left_over L s t)"
proof (intro conjI wp_run)
  note start = holding_start [OF assms] and out = holding_end [OF assms]
  show "wp (generate_rsa_key_pair L bits (Some p) (Some q)) (\<lambda>r. left_over L s) s"
    by (rule wp_key_pair [OF start], erule out)
  show "wp (generate_rsa_key_pair_with_cert L (Some c) (Some p) (Some q) bits e co st org cn) (\<lambda>r. left_over L s) s"
    by (rule wp_with_cert [OF start], erule out)
  show "wp (generate_rsa_key_pair_and_cert_with_ca_sign L (Some cap) (Some cac) (Some p) (Some q) (Some c) bits e co st org cn)
      (\<lambda>r. left_over L s) s"
    by (rule wp_ca_sign [OF start], erule out)
qed

theorem key_pair_objects_witness:
  "\<exists>r t. generate_rsa_key_pair demo_ossl 2048 (Some ''k'') (Some ''p'') (demo_disk Map.empty) = (Inr r, t) \<and> os_objs t = Map.empty"
proof -
  obtain r t where "generate_rsa_key_pair demo_ossl 2048 (Some ''k'') (Some ''p'') (demo_disk Map.empty) = (Inr r, t)"
      "left_over demo_ossl (demo_disk Map.empty) t"
    using key_pair_objects [OF demo_ossl_ok(2), of demo_ossl 2048 "''k''" "''p''" Map.empty] by blast
  moreover from this(2) have "os_objs t = Map.empty" by (intro ext) (simp add: left_over_def demo_ossl_ok demo_disk_def)
  ultimately show ?thesis by blast
qed

text \<open>
  C38: when no call fails, the files hold the private and the public part of one key and the certificate for it, with
  the given name, the expiry, the serial number 1, issuer and signature of the key itself or of the authority,
  and the checks accept them. Whatever fails, other files stay, a certificate that is written is signed by
  the right key, and a status of success says that the private key was written.
\<close>

theorem key_pair_files:
  assumes "fresh_above s" "name_of co st org cn = Some ns" "positive bits" "0 < sint e"
  shows "(\<exists>r t. generate_rsa_key_pair_with_cert L (Some c) (Some p) (Some q) bits e co st org cn s = (Inr r, t) \<and>
      files_after (os_files s) p q c (\<lambda>k. k) r (os_files t) \<and>
      (all_ok L \<longrightarrow> positive r \<and> (\<exists>k. os_files t =
         (os_files s)(p \<mapsto> PrivateKey k, q \<mapsto> PublicKey k, c \<mapsto> Certificate (certificate_for k ns k ns e))) \<and>
         validate_rsa_key_pair (Some p) (Some q) t = (Inr 1, t) \<and> validate_x509_certificate (Some c) t = (Inr 1, t))) \<and>
    (os_files s cap = Some (PrivateKey ck) \<longrightarrow> os_files s cac = Some (Certificate cc) \<longrightarrow>
     (\<exists>r t. generate_rsa_key_pair_and_cert_with_ca_sign L (Some cap) (Some cac) (Some p) (Some q) (Some c) bits e co st org cn s =
         (Inr r, t) \<and>
       (positive r \<longrightarrow> files_after (os_files s) p q c (\<lambda>k. ck) r (os_files t)) \<and>
       (all_ok L \<longrightarrow> positive r \<and> (\<exists>k. os_files t =
         (os_files s)(p \<mapsto> PrivateKey k, q \<mapsto> PublicKey k, c \<mapsto> Certificate (certificate_for k ns ck (xc_subject cc) e))))))"
proof (intro conjI impI wp_run)
  note start = holding_start [OF assms(1)]
  have valid: "validate_rsa_key_pair (Some p) (Some q) t = (Inr 1, t)" "validate_x509_certificate (Some c) t = (Inr 1, t)"
    if "os_files t = F(p \<mapsto> x, q \<mapsto> y, c \<mapsto> z)" for t F x y z
    using that by (simp_all add: validate_rsa_key_pair_def validate_rsa_private_key_def validate_rsa_public_key_def
        validate_x509_certificate_def validate_x509_certificate_file_def access_ok_def io_simps positive_def)
  show "wp (generate_rsa_key_pair_with_cert L (Some c) (Some p) (Some q) bits e co st org cn) (\<lambda>r t.
      files_after (os_files s) p q c (\<lambda>k. k) r (os_files t) \<and>
      (all_ok L \<longrightarrow> positive r \<and> (\<exists>k. os_files t =
         (os_files s)(p \<mapsto> PrivateKey k, q \<mapsto> PublicKey k, c \<mapsto> Certificate (certificate_for k ns k ns e))) \<and>
         validate_rsa_key_pair (Some p) (Some q) t = (Inr 1, t) \<and> validate_x509_certificate (Some c) t = (Inr 1, t))) s"
    by (rule wp_with_cert [OF start], frule holding_files) (use assms(2-4) valid in blast)
  assume ca: "os_files s cap = Some (PrivateKey ck)" "os_files s cac = Some (Certificate cc)"
  show "wp (generate_rsa_key_pair_and_cert_with_ca_sign L (Some cap) (Some cac) (Some p) (Some q) (Some c) bits e co st org cn)
      (\<lambda>r t. (positive r \<longrightarrow> files_after (os_files s) p q c (\<lambda>k. ck) r (os_files t)) \<and>
       (all_ok L \<longrightarrow> positive r \<and> (\<exists>k. os_files t =
         (os_files s)(p \<mapsto> PrivateKey k, q \<mapsto> PublicKey k, c \<mapsto> Certificate (certificate_for k ns ck (xc_subject cc) e))))) s"
    by (rule wp_ca_sign [OF start], frule holding_files) (use assms(2-4) ca in auto)
qed

theorem key_pair_files_witness:
  "\<exists>r t k. generate_rsa_key_pair_with_cert demo_ossl (Some ''c'') (Some ''k'') (Some ''p'') 2048 300
      (Some ''VN'') (Some ''HCM'') (Some ''Nova'') (Some ''x'') (demo_disk Map.empty) = (Inr r, t) \<and>
    os_files t ''k'' = Some (PrivateKey k) \<and>
    os_files t ''c'' = Some (Certificate (certificate_for k [(''C'', ''VN''), (''ST'', ''HCM''), (''O'', ''Nova''), (''CN'', ''x'')] k
      [(''C'', ''VN''), (''ST'', ''HCM''), (''O'', ''Nova''), (''CN'', ''x'')] 300))"
proof -
  let ?ns = "[(''C'', ''VN''), (''ST'', ''HCM''), (''O'', ''Nova''), (''CN'', ''x'')]"
  have n: "name_of (Some ''VN'') (Some ''HCM'') (Some ''Nova'') (Some ''x'') = Some ?ns" by (simp add: name_of_def)
  have e: "0 < sint (300 :: 64 word)" by simp
  obtain r t k where "generate_rsa_key_pair_with_cert demo_ossl (Some ''c'') (Some ''k'') (Some ''p'') 2048 300
      (Some ''VN'') (Some ''HCM'') (Some ''Nova'') (Some ''x'') (demo_disk Map.empty) = (Inr r, t)"
      "os_files t = (os_files (demo_disk Map.empty))(''k'' \<mapsto> PrivateKey k, ''p'' \<mapsto> PublicKey k, ''c'' \<mapsto> Certificate (certificate_for k ?ns k ?ns 300))"
    using key_pair_files [OF demo_ossl_ok(2) n demo_ossl_ok(4) e, of demo_ossl "''c''" "''k''" "''p''"] demo_ossl_ok(1) by blast
  then show ?thesis by auto
qed

text \<open>The library in which exactly one call fails.\<close>

definition failing_at :: "nat \<Rightarrow> ossl_lib" where
  "failing_at n = \<lparr>outcome = (\<lambda>i. if i = n then 0 else 1), fresh_key = (\<lambda>i. i)\<rparr>"

lemma outcome_failing: "positive (outcome (failing_at n) i) \<longleftrightarrow> i \<noteq> n"
  by (simp add: failing_at_def positive_def)

lemmas ossl_eval = io_simps generate_rsa_key_pair_def generate_key_def RSA_new_def BN_new_def EVP_PKEY_new_def new_def call_def
  heap_new_def heap_get_def heap_put_def heap_free_def RSA_generate_key_ex_def EVP_PKEY_assign_RSA_def write_rsa_key_pair_def
  fopen_wb_def with_key_def key_of_def PEM_write_def fclose_def EVP_PKEY_free_def outcome_failing

text \<open>
  What a single failing call does to the files. When the material of the key cannot be made, the key is
  written all the same: the run fails, but the private key that was there before is gone, and the check of the
  pair still accepts the empty file. When the file of the public key cannot be opened, or there is no memory for the certificate,
  the run reports success, although it has not written them.
\<close>

theorem key_pair_misleading:
  assumes "positive bits" "p \<noteq> q"
  shows "(\<exists>t. generate_rsa_key_pair (failing_at (os_calls s + 4)) bits (Some p) (Some q) s = (Inr 0, t) \<and>
      os_files t = (os_files s)(p \<mapsto> Truncated) \<and>
      (os_files s q \<noteq> None \<longrightarrow> validate_rsa_key_pair (Some p) (Some q) t = (Inr 1, t))) \<and>
    (\<exists>r k t. generate_rsa_key_pair (failing_at (os_calls s + 8)) bits (Some p) (Some q) s = (Inr r, t) \<and> positive r \<and>
      os_files t = (os_files s)(p \<mapsto> PrivateKey k)) \<and>
    (\<exists>r k t. generate_rsa_key_pair_with_cert (failing_at (os_calls s + 10)) c (Some p) (Some q) bits e co st org cn s = (Inr r, t) \<and>
      positive r \<and> os_files t = (os_files s)(p \<mapsto> PrivateKey k, q \<mapsto> PublicKey k))"
proof (intro conjI)
  have signs: "\<not> positive 0" "positive 1" by (simp_all add: positive_def)
  show "\<exists>t. generate_rsa_key_pair (failing_at (os_calls s + 4)) bits (Some p) (Some q) s = (Inr 0, t) \<and>
      os_files t = (os_files s)(p \<mapsto> Truncated) \<and>
      (os_files s q \<noteq> None \<longrightarrow> validate_rsa_key_pair (Some p) (Some q) t = (Inr 1, t))"
    using assms by (simp add: ossl_eval signs validate_rsa_key_pair_def validate_rsa_private_key_def validate_rsa_public_key_def access_ok_def)
  show "\<exists>r k t. generate_rsa_key_pair (failing_at (os_calls s + 8)) bits (Some p) (Some q) s = (Inr r, t) \<and> positive r \<and>
      os_files t = (os_files s)(p \<mapsto> PrivateKey k)"
    using assms by (auto simp: ossl_eval signs)
  show "\<exists>r k t. generate_rsa_key_pair_with_cert (failing_at (os_calls s + 10)) c (Some p) (Some q) bits e co st org cn s = (Inr r, t) \<and>
      positive r \<and> os_files t = (os_files s)(p \<mapsto> PrivateKey k, q \<mapsto> PublicKey k)"
    using assms by (auto simp: ossl_eval signs generate_rsa_key_pair_with_cert_def X509_new_def)
qed

theorem key_pair_misleading_witness:
  "\<exists>r k t. generate_rsa_key_pair (failing_at 8) 2048 (Some ''k'') (Some ''p'') (demo_disk Map.empty) = (Inr r, t) \<and> positive r \<and>
     os_files t = [''k'' \<mapsto> PrivateKey k]"
  using key_pair_misleading [OF demo_ossl_ok(4), of "''k''" "''p''" "demo_disk Map.empty"] by (simp add: demo_disk_def)

end
