(* ===== verification/EmtWire.thy ===== *)
theory EmtWire
  imports Prelude CStrings
begin

text \<open>
  The exchange with the mesh daemon in \<open>src/core/mesh/core/emt.c\<close>, call by call: a connection, an empty line whose
  answer is dropped, the command, one receive. \<open>Emt\<close> takes the text that the callers find at the result as given;
  here it is computed from the bytes on the wire. The transfer library is a parameter.
\<close>

section \<open>Static variables and the library\<close>

text \<open>
  \<open>data_recv\<close> has 51200 bytes. \<open>recv_size\<close> is an \<open>int\<close>, but the library stores a \<open>size_t\<close> at its address, and likewise
  at that of \<open>send_size\<close>: the upper half lands behind it.
\<close>

definition BUF_SIZE :: nat where "BUF_SIZE = 51200"

definition nul_char :: char where "nul_char = CHR 0x00"

record wire =
  wr_data_recv :: string
  wr_recv_size :: c_int
  wr_sent :: "string list"

text \<open>A receive that fails may store a size or leave it.\<close>

datatype recv_result = Received string | Failed "nat option"

text \<open>
  What a receive gives after the texts sent so far, whether the connection could be set up, whether \<open>recv_size\<close> lies behind
  \<open>send_size\<close>, and the lowest byte of the address of the string that is stored as a terminator.
\<close>

record wire_lib =
  wl_init_ok :: bool
  wl_recv :: "string list \<Rightarrow> recv_result"
  wl_size_behind :: bool
  wl_stray :: char

definition wire_lib_ok :: "wire_lib \<Rightarrow> bool" where
  "wire_lib_ok L \<longleftrightarrow> (\<forall>h. case wl_recv L h of Received d \<Rightarrow> length d \<le> BUF_SIZE | Failed n \<Rightarrow> n = None \<or> n = Some 0)"

definition wire_send :: "wire_lib \<Rightarrow> cptr \<Rightarrow> (wire, unit) io" where
  "wire_send L text = io_bind (io_deref text) (\<lambda>d.
     if length d < BUF_SIZE
     then io_modify (\<lambda>w. w\<lparr>wr_sent := wr_sent w @ [d], wr_recv_size := (if wl_size_behind L then 0 else wr_recv_size w)\<rparr>)
     else io_fail BufferOverflow)"

definition wire_recv :: "wire_lib \<Rightarrow> (wire, unit) io" where
  "wire_recv L = io_modify (\<lambda>w. case wl_recv L (wr_sent w) of
     Received d \<Rightarrow> w\<lparr>wr_data_recv := d @ drop (length d) (wr_data_recv w), wr_recv_size := of_nat (length d)\<rparr>
   | Failed (Some n) \<Rightarrow> w\<lparr>wr_recv_size := of_nat n\<rparr>
   | Failed None \<Rightarrow> w)"

definition wire_clear :: "(wire, unit) io" where
  "wire_clear = io_modify (\<lambda>w. w\<lparr>wr_data_recv := replicate BUF_SIZE nul_char\<rparr>)"

text \<open>
  The block that is returned: the received bytes, and one more that is assigned the address of a string, not
  a zero byte.
\<close>

definition emt_exchange :: "wire_lib \<Rightarrow> cptr \<Rightarrow> (wire, string) io" where
  "emt_exchange L cmd =
     io_then
       (if wl_init_ok L
        then io_then (wire_send L (Some ''\<newline>''))
          (io_then (wire_recv L)
          (io_then wire_clear
          (io_then (wire_send L cmd)
          (wire_recv L))))
        else io_ret ())
     (io_bind (io_get (\<lambda>w. w)) (\<lambda>w.
      if sint (wr_recv_size w) < 0 \<or> length (wr_data_recv w) < nat (sint (wr_recv_size w)) then io_fail OutOfBounds
      else io_then wire_clear (io_ret (take (nat (sint (wr_recv_size w))) (wr_data_recv w) @ [wl_stray L]))))"

text \<open>\<open>strlen\<close> on the block and the functions of the parser: the text up to the first zero byte, which must be inside the block.\<close>

fun block_text :: "string \<Rightarrow> fault + string" where
  "block_text [] = Inl OutOfBounds"
| "block_text (c # cs) = (if c = nul_char then Inr [] else map_sum (\<lambda>f. f) ((#) c) (block_text cs))"

text \<open>Whether the daemon runs: without a connection object the answer is that it does.\<close>

definition daemon_running :: "bool \<Rightarrow> bool \<Rightarrow> c_int" where
  "daemon_running init_ok connected = (if init_ok then (if connected then 0 else -1) else 0)"


section \<open>One exchange\<close>

text \<open>Between two exchanges the buffer is cleared, and the size is that of the last answer.\<close>

definition wire_ok :: "wire \<Rightarrow> bool" where
  "wire_ok w \<longleftrightarrow> wr_data_recv w = replicate BUF_SIZE nul_char \<and> 0 \<le> sint (wr_recv_size w) \<and> sint (wr_recv_size w) \<le> int BUF_SIZE"

text \<open>The reference for the bytes of the block before the stray one.\<close>

definition answer_bytes :: "wire_lib \<Rightarrow> wire \<Rightarrow> string \<Rightarrow> string" where
  "answer_bytes L w c =
     (if \<not> wl_init_ok L then replicate (nat (sint (wr_recv_size w))) nul_char
      else case wl_recv L (wr_sent w @ [''\<newline>'', c]) of
        Received d \<Rightarrow> d
      | Failed (Some n) \<Rightarrow> []
      | Failed None \<Rightarrow>
          (if wl_size_behind L then []
           else case wl_recv L (wr_sent w @ [''\<newline>'']) of
             Received d \<Rightarrow> replicate (length d) nul_char
           | Failed (Some n) \<Rightarrow> []
           | Failed None \<Rightarrow> replicate (nat (sint (wr_recv_size w))) nul_char))"

lemma buf_pos: "0 < BUF_SIZE" "1 < BUF_SIZE" "BUF_SIZE < 2 ^ 31"
  by (simp_all add: BUF_SIZE_def)

lemma sint_size: "n \<le> BUF_SIZE \<Longrightarrow> sint (of_nat n :: c_int) = int n"
  by (simp add: sint_sbintrunc' [of "int n", where 'a = 32, simplified] signed_take_bit_int_eq_self BUF_SIZE_def)

lemma block_text_append:
  "block_text (d @ [c]) = (if nul_char \<in> set d then Inr (takeWhile (\<lambda>x. x \<noteq> nul_char) d)
     else if c = nul_char then Inr d else Inl OutOfBounds)"
  by (induction d) auto

text \<open>The state before the answer is copied: the bytes of the answer, then zeros.\<close>

definition holds_answer :: "string \<Rightarrow> wire \<Rightarrow> bool" where
  "holds_answer d w \<longleftrightarrow> length d \<le> BUF_SIZE \<and> wr_data_recv w = d @ replicate (BUF_SIZE - length d) nul_char \<and>
     sint (wr_recv_size w) = int (length d)"

lemma holds_zeros: "wire_ok w \<Longrightarrow> holds_answer (replicate (nat (sint (wr_recv_size w))) nul_char) w"
  by (auto simp: wire_ok_def holds_answer_def simp flip: replicate_add)

lemma copy_answer:
  assumes "holds_answer d v"
  shows "\<exists>w'. io_bind (io_get (\<lambda>w. w)) (\<lambda>w.
      if sint (wr_recv_size w) < 0 \<or> length (wr_data_recv w) < nat (sint (wr_recv_size w)) then io_fail OutOfBounds
      else io_then wire_clear (io_ret (take (nat (sint (wr_recv_size w))) (wr_data_recv w) @ [wl_stray L]))) v =
      (Inr (d @ [wl_stray L]), w') \<and> wire_ok w' \<and> wr_sent w' = wr_sent v"
  using assms by (auto simp: holds_answer_def wire_clear_def wire_ok_def io_simps)

text \<open>The part with the connection, from the state after the first answer was dropped.\<close>

lemma second_recv:
  assumes "wire_ok w" "wire_lib_ok L"
  shows "\<exists>v. wire_recv L w = (Inr (), v) \<and> wr_sent v = wr_sent w \<and>
    holds_answer (case wl_recv L (wr_sent w) of Received d \<Rightarrow> d | Failed (Some n) \<Rightarrow> []
      | Failed None \<Rightarrow> replicate (nat (sint (wr_recv_size w))) nul_char) v"
proof -
  have lib: "case wl_recv L (wr_sent w) of Received d \<Rightarrow> length d \<le> BUF_SIZE | Failed n \<Rightarrow> n = None \<or> n = Some 0"
    using assms(2) by (simp add: wire_lib_ok_def)
  show ?thesis
  proof (cases "wl_recv L (wr_sent w)")
    case (Received d)
    then show ?thesis using lib assms(1) by (simp add: wire_recv_def io_simps holds_answer_def wire_ok_def sint_size)
  next
    case (Failed n)
    then show ?thesis
      using lib assms(1) holds_zeros [OF assms(1)]
      by (cases n) (auto simp: wire_recv_def io_simps holds_answer_def wire_ok_def)
  qed
qed

lemma first_part:
  assumes "wire_ok w" "wire_lib_ok L" "length c < BUF_SIZE"
  shows "\<exists>u. io_then (wire_send L (Some ''\<newline>'')) (io_then (wire_recv L) (io_then wire_clear (wire_send L (Some c)))) w = (Inr (), u) \<and>
    wire_ok u \<and> wr_sent u = wr_sent w @ [''\<newline>'', c] \<and>
    wr_recv_size u = (if wl_size_behind L then 0 else case wl_recv L (wr_sent w @ [''\<newline>'']) of
      Received d \<Rightarrow> of_nat (length d) | Failed (Some n) \<Rightarrow> 0 | Failed None \<Rightarrow> wr_recv_size w)"
proof -
  have lib: "case wl_recv L (wr_sent w @ [''\<newline>'']) of Received d \<Rightarrow> length d \<le> BUF_SIZE | Failed n \<Rightarrow> n = None \<or> n = Some 0"
    using assms(2) by (simp add: wire_lib_ok_def)
  show ?thesis
    using lib assms(1,3) buf_pos
    by (auto simp: wire_send_def wire_recv_def wire_clear_def io_simps wire_ok_def sint_size split: recv_result.splits option.splits)
qed

lemma exchange_run:
  assumes w: "wire_ok w" and L: "wire_lib_ok L" and c: "length c < BUF_SIZE"
  shows "\<exists>w'. emt_exchange L (Some c) w = (Inr (answer_bytes L w c @ [wl_stray L]), w') \<and> wire_ok w' \<and>
    wr_sent w' = wr_sent w @ (if wl_init_ok L then [''\<newline>'', c] else [])"
proof (cases "wl_init_ok L")
  case False
  then show ?thesis
    using copy_answer [OF holds_zeros [OF w], of L] by (auto simp: emt_exchange_def answer_bytes_def io_then_app io_ret_app)
next
  case True
  obtain u where u: "io_then (wire_send L (Some ''\<newline>'')) (io_then (wire_recv L) (io_then wire_clear (wire_send L (Some c)))) w = (Inr (), u)"
    "wire_ok u" "wr_sent u = wr_sent w @ [''\<newline>'', c]"
    "wr_recv_size u = (if wl_size_behind L then 0 else case wl_recv L (wr_sent w @ [''\<newline>'']) of
      Received d \<Rightarrow> of_nat (length d) | Failed (Some n) \<Rightarrow> 0 | Failed None \<Rightarrow> wr_recv_size w)"
    using first_part [OF w L c] by blast
  obtain v where v: "wire_recv L u = (Inr (), v)" "wr_sent v = wr_sent u"
    "holds_answer (case wl_recv L (wr_sent u) of Received d \<Rightarrow> d | Failed (Some n) \<Rightarrow> []
      | Failed None \<Rightarrow> replicate (nat (sint (wr_recv_size u))) nul_char) v"
    using second_recv [OF u(2) L] by blast
  have lib: "case wl_recv L (wr_sent w @ [''\<newline>'']) of Received d \<Rightarrow> length d \<le> BUF_SIZE | Failed n \<Rightarrow> n = None \<or> n = Some 0"
    using L by (simp add: wire_lib_ok_def)
  have "holds_answer (answer_bytes L w c) v"
    using v(3) u(3,4) True lib unfolding answer_bytes_def
    by (auto simp: sint_size split: recv_result.splits option.splits if_splits)
  then obtain w' where w': "io_bind (io_get (\<lambda>w. w)) (\<lambda>w.
      if sint (wr_recv_size w) < 0 \<or> length (wr_data_recv w) < nat (sint (wr_recv_size w)) then io_fail OutOfBounds
      else io_then wire_clear (io_ret (take (nat (sint (wr_recv_size w))) (wr_data_recv w) @ [wl_stray L]))) v =
      (Inr (answer_bytes L w c @ [wl_stray L]), w')" "wire_ok w'" "wr_sent w' = wr_sent v"
    using copy_answer by blast
  have "io_then (wire_send L (Some ''\<newline>'')) (io_then (wire_recv L) (io_then wire_clear (io_then (wire_send L (Some c)) (wire_recv L)))) w = (Inr (), v)"
    using u(1) v(1) by (auto simp: io_then_app split: prod.splits sum.splits)
  then have "emt_exchange L (Some c) w = (Inr (answer_bytes L w c @ [wl_stray L]), w')"
    using w'(1) True by (simp add: emt_exchange_def io_then_app)
  then show ?thesis using w'(2,3) v(2) u(3) True by auto
qed

text \<open>A daemon that answers every command with two letters, and an address that ends in a byte of 64.\<close>

definition demo_wire_lib :: "char \<Rightarrow> wire_lib" where
  "demo_wire_lib stray = \<lparr>wl_init_ok = True, wl_recv = (\<lambda>h. Received ''ok''), wl_size_behind = True, wl_stray = stray\<rparr>"

definition demo_wire :: wire where
  "demo_wire = \<lparr>wr_data_recv = replicate BUF_SIZE nul_char, wr_recv_size = 0, wr_sent = []\<rparr>"

lemma demo_wire_facts: "wire_ok demo_wire" "wire_lib_ok (demo_wire_lib b)"
  by (simp_all add: wire_ok_def demo_wire_def wire_lib_ok_def demo_wire_lib_def BUF_SIZE_def)



end
