(* ===== verification/EmtEnum.thy ===== *)
theory EmtEnum
  imports Emt
begin

text \<open>
  The enumerations of \<open>emt_cmd.h\<close>, with their values, and the tables of \<open>emt_cmd.c\<close> with both columns. \<open>Emt\<close> reads the
  tables by index, as \<open>create_cmd\<close> does; here the index is compared with the enumerator beside the word.
\<close>

section \<open>Enumerations\<close>

text \<open>The value of an enumerator is its place.\<close>

definition place :: "'a list \<Rightarrow> 'a \<Rightarrow> nat" where
  "place xs x = length (takeWhile (\<lambda>y. y \<noteq> x) xs)"

datatype section_t =
    SECTION_DEBUG | SECTION_MD | SECTION_EV_LOOP | SECTION_IEEE1905 | SECTION_HY_MANAGER |
    SECTION_WLAN_MANAGER | SECTION_MC_MANAGER | SECTION_MULTI_AP | SECTION_SERVICE_PRIORITY |
    SECTION_TOPOLOGY | SECTION_DISPATCH_SERVICE | SECTION_DBG_SERVICE | SECTION_STADB | SECTION_MAP_CTRL |
    SECTION_PC_SERVICE | SECTION_STEER_EXEC | SECTION_BAND_MON | SECTION_ESTIMATOR | SECTION_STEER_ALG |
    SECTION_MAX

definition sections :: "section_t list" where
  "sections = [
    SECTION_DEBUG, SECTION_MD, SECTION_EV_LOOP, SECTION_IEEE1905, SECTION_HY_MANAGER, SECTION_WLAN_MANAGER,
    SECTION_MC_MANAGER, SECTION_MULTI_AP, SECTION_SERVICE_PRIORITY, SECTION_TOPOLOGY,
    SECTION_DISPATCH_SERVICE, SECTION_DBG_SERVICE, SECTION_STADB, SECTION_MAP_CTRL, SECTION_PC_SERVICE,
    SECTION_STEER_EXEC, SECTION_BAND_MON, SECTION_ESTIMATOR, SECTION_STEER_ALG, SECTION_MAX]"

datatype debug_action_t =
    DEBUG_LEVEL | DEBUG_HERE | DEBUG_MAX

definition debug_actions :: "debug_action_t list" where
  "debug_actions = [
    DEBUG_LEVEL, DEBUG_HERE, DEBUG_MAX]"

datatype md_action_t =
    MD_PRINT | MD_SET | MD_MAX

definition md_actions :: "md_action_t list" where
  "md_actions = [
    MD_PRINT, MD_SET, MD_MAX]"

datatype evloop_action_t =
    EV_LOOP_PRINT | EV_LOOP_MAX

definition evloop_actions :: "evloop_action_t list" where
  "evloop_actions = [
    EV_LOOP_PRINT, EV_LOOP_MAX]"

datatype ieee1905_action_t =
    IEEE1905_PRINT | IEEE1905_SET | IEEE1905_MAX

definition ieee1905_actions :: "ieee1905_action_t list" where
  "ieee1905_actions = [
    IEEE1905_PRINT, IEEE1905_SET, IEEE1905_MAX]"

datatype hy_manager_action_t =
    HY_MANAGER_PRIND_HD | HY_MANAGER_PRIND_HA | HY_MANAGER_FLUSH_HA | HY_MANAGER_FLUSH_HD | HY_MANAGER_MAX

definition hy_manager_actions :: "hy_manager_action_t list" where
  "hy_manager_actions = [
    HY_MANAGER_PRIND_HD, HY_MANAGER_PRIND_HA, HY_MANAGER_FLUSH_HA, HY_MANAGER_FLUSH_HD, HY_MANAGER_MAX]"

datatype wlan_manager_action_t =
    WLAN_MANAGER_FREQ | WLAN_MANAGER_PRINT | WLAN_MANAGER_MAX

definition wlan_manager_actions :: "wlan_manager_action_t list" where
  "wlan_manager_actions = [
    WLAN_MANAGER_FREQ, WLAN_MANAGER_PRINT, WLAN_MANAGER_MAX]"

datatype mc_manager_action_t =
    MC_MANAGER_PRINT_ENCAP | MC_MANAGER_PRINT_FLOOD_TABLE | MC_MANAGER_PRINT_INTERFACE | MC_MANAGER_MAX

definition mc_manager_actions :: "mc_manager_action_t list" where
  "mc_manager_actions = [
    MC_MANAGER_PRINT_ENCAP, MC_MANAGER_PRINT_FLOOD_TABLE, MC_MANAGER_PRINT_INTERFACE, MC_MANAGER_MAX]"

datatype multi_ap_action_t =
    MULTI_AP_DISPLAY_STATUS | MULTI_AP_UNASSOCMETQUERY | MULTI_AP_BKSCAN | MULTI_AP_SCANREPORT |
    MULTI_AP_HOMECHANRANK | MULTI_AP_CHANPREFQUERY | MULTI_AP_CHANPREFDUMP | MULTI_AP_TRIGGERCHANSEL |
    MULTI_AP_BSTAMET | MULTI_AP_BHS | MULTI_AP_SCANREQ | MULTI_AP_NEIGHREPORT | MULTI_AP_CACREQ |
    MULTI_AP_CACTERMINATE | MULTI_AP_MAX

definition multi_ap_actions :: "multi_ap_action_t list" where
  "multi_ap_actions = [
    MULTI_AP_DISPLAY_STATUS, MULTI_AP_UNASSOCMETQUERY, MULTI_AP_BKSCAN, MULTI_AP_SCANREPORT,
    MULTI_AP_HOMECHANRANK, MULTI_AP_CHANPREFQUERY, MULTI_AP_CHANPREFDUMP, MULTI_AP_TRIGGERCHANSEL,
    MULTI_AP_BSTAMET, MULTI_AP_BHS, MULTI_AP_SCANREQ, MULTI_AP_NEIGHREPORT, MULTI_AP_CACREQ,
    MULTI_AP_CACTERMINATE, MULTI_AP_MAX]"

datatype service_priority_action_t =
    SERVICE_PRIORITY_DISPLAY_SERVICE | SERVICE_PRIORITY_BSP | SERVICE_PRIORITY_ESP | SERVICE_PRIORITY_QSP |
    SERVICE_PRIORITY_RM_SERVICE_PRIORITY | SERVICE_PRIORITY_PUSH_ALL_RULE_TO_AGENT | SERVICE_PRIORITY_MAX

definition service_priority_actions :: "service_priority_action_t list" where
  "service_priority_actions = [
    SERVICE_PRIORITY_DISPLAY_SERVICE, SERVICE_PRIORITY_BSP, SERVICE_PRIORITY_ESP, SERVICE_PRIORITY_QSP,
    SERVICE_PRIORITY_RM_SERVICE_PRIORITY, SERVICE_PRIORITY_PUSH_ALL_RULE_TO_AGENT, SERVICE_PRIORITY_MAX]"

datatype topology_action_t =
    TOPOLOGY_S | TOPOLOGY_S1 | TOPOLOGY_S2 | TOPOLOGY_PARAM_ACCESS_CMD | TOPOLOGY_ADD_ENTRY_TO_TOPO |
    TOPOLOGY_AB | TOPOLOGY_AI | TOPOLOGY_F | TOPOLOGY_T1 | TOPOLOGY_T2 | TOPOLOGY_D | TOPOLOGY_G |
    TOPOLOGY_ME | TOPOLOGY_DIS | TOPOLOGY_DISCOVERY | TOPOLOGY_NOTIFY | TOPOLOGY_RADIOCAP | TOPOLOGY_RMID |
    TOPOLOGY_SMID | TOPOLOGY_MAX

definition topology_actions :: "topology_action_t list" where
  "topology_actions = [
    TOPOLOGY_S, TOPOLOGY_S1, TOPOLOGY_S2, TOPOLOGY_PARAM_ACCESS_CMD, TOPOLOGY_ADD_ENTRY_TO_TOPO,
    TOPOLOGY_AB, TOPOLOGY_AI, TOPOLOGY_F, TOPOLOGY_T1, TOPOLOGY_T2, TOPOLOGY_D, TOPOLOGY_G, TOPOLOGY_ME,
    TOPOLOGY_DIS, TOPOLOGY_DISCOVERY, TOPOLOGY_NOTIFY, TOPOLOGY_RADIOCAP, TOPOLOGY_RMID, TOPOLOGY_SMID,
    TOPOLOGY_MAX]"

datatype dispatch_service_action_t =
    DISPATCH_SERVICE_PRINT | DISPATCH_SERVICE_MAX

definition dispatch_service_actions :: "dispatch_service_action_t list" where
  "dispatch_service_actions = [
    DISPATCH_SERVICE_PRINT, DISPATCH_SERVICE_MAX]"

datatype dbg_service_action_t =
    DBG_SERVICE_LIST_ALL_EVENTS | DBG_SERVICE_CREATE_EVENT | DBG_SERVICE_MAX

definition dbg_service_actions :: "dbg_service_action_t list" where
  "dbg_service_actions = [
    DBG_SERVICE_LIST_ALL_EVENTS, DBG_SERVICE_CREATE_EVENT, DBG_SERVICE_MAX]"

datatype stadb_action_t =
    STADB_PRINT | STADB_ENA_DIS | STADB_RSSI | STADB_ACT | STADB_NOSTEER | STADB_NOSTEER_LIST_RELOAD |
    STADB_NOSTEER_LIST_SHOW | STADB_DIALOG | STADB_MAX

definition stadb_actions :: "stadb_action_t list" where
  "stadb_actions = [
    STADB_PRINT, STADB_ENA_DIS, STADB_RSSI, STADB_ACT, STADB_NOSTEER, STADB_NOSTEER_LIST_RELOAD,
    STADB_NOSTEER_LIST_SHOW, STADB_DIALOG, STADB_MAX]"

datatype mapctrl_action_t =
    MAP_CTRL_PRINT_SUMMARY | MAP_CTRL_PRINT_NEIGH_REPORT | MAP_CTRL_MAX

definition mapctrl_actions :: "mapctrl_action_t list" where
  "mapctrl_actions = [
    MAP_CTRL_PRINT_SUMMARY, MAP_CTRL_PRINT_NEIGH_REPORT, MAP_CTRL_MAX]"

datatype pc_service_action_t =
    PC_SERVICE_PRINT | PC_SERVICE_PARAM_ACCESS | PC_SERVICE_TRIGGER_STAT | PC_SERVICE_SET_DEBUG |
    PC_SERVICE_SET_MEDIUM_ULTILIZATION | PC_SERVICE_SET_LINK_CAPACITY | PC_SERVICE_PRINT_MODULE_METRIC |
    PC_SERVICE_MAX

definition pc_service_actions :: "pc_service_action_t list" where
  "pc_service_actions = [
    PC_SERVICE_PRINT, PC_SERVICE_PARAM_ACCESS, PC_SERVICE_TRIGGER_STAT, PC_SERVICE_SET_DEBUG,
    PC_SERVICE_SET_MEDIUM_ULTILIZATION, PC_SERVICE_SET_LINK_CAPACITY, PC_SERVICE_PRINT_MODULE_METRIC,
    PC_SERVICE_MAX]"

datatype steer_exec_action_t =
    STEER_EXEC_PRINT | STEER_EXEC_STEER | STEER_EXEC_ALLOW_ASSOC | STEER_EXEC_ABORT | STEER_EXEC_DIALOG |
    STEER_EXEC_MAX

definition steer_exec_actions :: "steer_exec_action_t list" where
  "steer_exec_actions = [
    STEER_EXEC_PRINT, STEER_EXEC_STEER, STEER_EXEC_ALLOW_ASSOC, STEER_EXEC_ABORT, STEER_EXEC_DIALOG,
    STEER_EXEC_MAX]"

datatype band_mon_action_t =
    BAND_MON_PRINT | BAND_MON_ENA_DIS_MONITOR | BAND_MON_UTIL | BAND_MON_MAX

definition band_mon_actions :: "band_mon_action_t list" where
  "band_mon_actions = [
    BAND_MON_PRINT, BAND_MON_ENA_DIS_MONITOR, BAND_MON_UTIL, BAND_MON_MAX]"

datatype estimator_action_t =
    ESTIMATOR_PRINT | ESTIMATOR_RATE | ESTIMATOR_AIRTIME | ESTIMATOR_ENA_DIS | ESTIMATOR_DETECT |
    ESTIMATOR_STATS | ESTIMATOR_DIALOG | ESTIMATOR_MAX

definition estimator_actions :: "estimator_action_t list" where
  "estimator_actions = [
    ESTIMATOR_PRINT, ESTIMATOR_RATE, ESTIMATOR_AIRTIME, ESTIMATOR_ENA_DIS, ESTIMATOR_DETECT,
    ESTIMATOR_STATS, ESTIMATOR_DIALOG, ESTIMATOR_MAX]"

datatype steeralg_action_t =
    STEER_ALG_PRINT_ALG | STEER_ALG_PRINT_PATH_CAPACITY | STEER_ALG_MAX

definition steeralg_actions :: "steeralg_action_t list" where
  "steeralg_actions = [
    STEER_ALG_PRINT_ALG, STEER_ALG_PRINT_PATH_CAPACITY, STEER_ALG_MAX]"

section \<open>Tables\<close>

definition section_mapping_table :: "(section_t \<times> string) list" where
  "section_mapping_table = [
    (SECTION_DEBUG, ''dbg''), (SECTION_MD, ''md''), (SECTION_EV_LOOP, ''evloop''),
    (SECTION_IEEE1905, ''ieee1905''), (SECTION_HY_MANAGER, ''hy''), (SECTION_WLAN_MANAGER, ''wlan''),
    (SECTION_MC_MANAGER, ''mc''), (SECTION_MULTI_AP, ''map''), (SECTION_SERVICE_PRIORITY, ''sp''),
    (SECTION_TOPOLOGY, ''td''), (SECTION_DISPATCH_SERVICE, ''dispatchService''),
    (SECTION_DBG_SERVICE, ''dbgService''), (SECTION_STADB, ''stadb''), (SECTION_MAP_CTRL, ''mapctrl''),
    (SECTION_PC_SERVICE, ''pc''), (SECTION_STEER_EXEC, ''steerexec''), (SECTION_BAND_MON, ''bandmon''),
    (SECTION_ESTIMATOR, ''estimator''), (SECTION_STEER_ALG, ''steeralg'')]"

definition debug_action_table :: "(debug_action_t \<times> string) list" where
  "debug_action_table = [
    (DEBUG_LEVEL, ''level''), (DEBUG_LEVEL, ''here'')]"

definition md_action_table :: "(md_action_t \<times> string) list" where
  "md_action_table = [
    (MD_PRINT, ''p''), (MD_SET, ''s'')]"

definition evloop_action_table :: "(evloop_action_t \<times> string) list" where
  "evloop_action_table = [
    (EV_LOOP_PRINT, ''s'')]"

definition ieee1905_action_table :: "(ieee1905_action_t \<times> string) list" where
  "ieee1905_action_table = [
    (IEEE1905_PRINT, ''p''), (IEEE1905_SET, ''s'')]"

definition hy_manager_action_table :: "(hy_manager_action_t \<times> string) list" where
  "hy_manager_action_table = [
    (HY_MANAGER_PRIND_HD, ''hd''), (HY_MANAGER_PRIND_HA, ''ha''), (HY_MANAGER_FLUSH_HA, ''fa''),
    (HY_MANAGER_FLUSH_HD, ''fd'')]"

definition wlan_manager_action_table :: "(wlan_manager_action_t \<times> string) list" where
  "wlan_manager_action_table = [
    (WLAN_MANAGER_FREQ, ''freq''), (WLAN_MANAGER_PRINT, ''p'')]"

definition mc_manager_action_table :: "(mc_manager_action_t \<times> string) list" where
  "mc_manager_action_table = [
    (MC_MANAGER_PRINT_ENCAP, ''encap''), (MC_MANAGER_PRINT_FLOOD_TABLE, ''flood''),
    (MC_MANAGER_PRINT_INTERFACE, ''iffwd'')]"

definition multi_ap_action_table :: "(multi_ap_action_t \<times> string) list" where
  "multi_ap_action_table = [
    (MULTI_AP_DISPLAY_STATUS, ''s''), (MULTI_AP_UNASSOCMETQUERY, ''unassocmetquery''),
    (MULTI_AP_BKSCAN, ''bkscan''), (MULTI_AP_SCANREPORT, ''scanreport''),
    (MULTI_AP_HOMECHANRANK, ''homechanrank''), (MULTI_AP_CHANPREFQUERY, ''chanprefquery''),
    (MULTI_AP_CHANPREFDUMP, ''chanprefdump''), (MULTI_AP_TRIGGERCHANSEL, ''triggerchansel''),
    (MULTI_AP_BSTAMET, ''bstamet''), (MULTI_AP_BHS, ''bhs''), (MULTI_AP_SCANREQ, ''scanReq''),
    (MULTI_AP_NEIGHREPORT, ''neighReport''), (MULTI_AP_CACREQ, ''cacreq''),
    (MULTI_AP_CACTERMINATE, ''cacterminate'')]"

definition service_priority_action_table :: "(service_priority_action_t \<times> string) list" where
  "service_priority_action_table = [
    (SERVICE_PRIORITY_DISPLAY_SERVICE, ''s''), (SERVICE_PRIORITY_BSP, ''bsp''),
    (SERVICE_PRIORITY_ESP, ''esp''), (SERVICE_PRIORITY_QSP, ''qsp''),
    (SERVICE_PRIORITY_RM_SERVICE_PRIORITY, ''rmsprule''),
    (SERVICE_PRIORITY_PUSH_ALL_RULE_TO_AGENT, ''pusall'')]"

definition topology_action_table :: "(topology_action_t \<times> string) list" where
  "topology_action_table = [
    (TOPOLOGY_S, ''s''), (TOPOLOGY_S1, ''s1''), (TOPOLOGY_S2, ''s2''), (TOPOLOGY_PARAM_ACCESS_CMD, ''p''),
    (TOPOLOGY_ADD_ENTRY_TO_TOPO, ''a''), (TOPOLOGY_AB, ''ab''), (TOPOLOGY_AI, ''ai''), (TOPOLOGY_F, ''f''),
    (TOPOLOGY_T1, ''t1''), (TOPOLOGY_T2, ''t2''), (TOPOLOGY_D, ''d''), (TOPOLOGY_G, ''g''),
    (TOPOLOGY_ME, ''me''), (TOPOLOGY_DIS, ''dis''), (TOPOLOGY_DISCOVERY, ''dicovery''),
    (TOPOLOGY_NOTIFY, ''notify''), (TOPOLOGY_RADIOCAP, ''radiocap''), (TOPOLOGY_RMID, ''rmid''),
    (TOPOLOGY_SMID, ''smid'')]"

definition dispatch_service_action_table :: "(dispatch_service_action_t \<times> string) list" where
  "dispatch_service_action_table = [
    (DISPATCH_SERVICE_PRINT, ''s'')]"

definition dbg_service_action_table :: "(dbg_service_action_t \<times> string) list" where
  "dbg_service_action_table = [
    (DBG_SERVICE_LIST_ALL_EVENTS, ''s''), (DBG_SERVICE_CREATE_EVENT, ''c'')]"

definition stadb_action_table :: "(stadb_action_t \<times> string) list" where
  "stadb_action_table = [
    (STADB_PRINT, ''s''), (STADB_ENA_DIS, ''d''), (STADB_RSSI, ''rssi''), (STADB_ACT, ''act''),
    (STADB_NOSTEER, ''nosteer''), (STADB_NOSTEER_LIST_RELOAD, ''nosteerlistreload''),
    (STADB_NOSTEER_LIST_SHOW, ''nosteerlistshow''), (STADB_DIALOG, ''diaglog'')]"

definition mapctrl_action_table :: "(mapctrl_action_t \<times> string) list" where
  "mapctrl_action_table = [
    (MAP_CTRL_PRINT_SUMMARY, ''s''), (MAP_CTRL_PRINT_NEIGH_REPORT, ''d'')]"

definition pc_service_action_table :: "(pc_service_action_t \<times> string) list" where
  "pc_service_action_table = [
    (PC_SERVICE_PRINT, ''s''), (PC_SERVICE_PARAM_ACCESS, ''p''), (PC_SERVICE_TRIGGER_STAT, ''t''),
    (PC_SERVICE_SET_DEBUG, ''d''), (PC_SERVICE_SET_MEDIUM_ULTILIZATION, ''m''),
    (PC_SERVICE_SET_LINK_CAPACITY, ''lc''), (PC_SERVICE_PRINT_MODULE_METRIC, ''pm'')]"

definition steer_exec_action_table :: "(steer_exec_action_t \<times> string) list" where
  "steer_exec_action_table = [
    (STEER_EXEC_PRINT, ''s''), (STEER_EXEC_STEER, ''steer''), (STEER_EXEC_ALLOW_ASSOC, ''allow_assoc''),
    (STEER_EXEC_ABORT, ''abort''), (STEER_EXEC_DIALOG, ''diaglog'')]"

definition band_mon_action_table :: "(band_mon_action_t \<times> string) list" where
  "band_mon_action_table = [
    (BAND_MON_PRINT, ''s''), (BAND_MON_ENA_DIS_MONITOR, ''d''), (BAND_MON_UTIL, ''util'')]"

definition estimator_action_table :: "(estimator_action_t \<times> string) list" where
  "estimator_action_table = [
    (ESTIMATOR_PRINT, ''s''), (ESTIMATOR_RATE, ''rate''), (ESTIMATOR_AIRTIME, ''airtime''),
    (ESTIMATOR_ENA_DIS, ''d''), (ESTIMATOR_DETECT, ''detect''), (ESTIMATOR_STATS, ''stats''),
    (ESTIMATOR_DIALOG, ''diaglog'')]"

definition steeralg_action_table :: "(steeralg_action_t \<times> string) list" where
  "steeralg_action_table = [
    (STEER_ALG_PRINT_ALG, ''s''), (STEER_ALG_PRINT_PATH_CAPACITY, ''pc'')]"

section \<open>Commands by enumerator\<close>

text \<open>The reference: both words are those that stand beside the enumerators; an enumerator that is in no row has no command.\<close>

definition by_name :: "section_t \<Rightarrow> ('a \<times> string) list \<Rightarrow> 'a \<Rightarrow> cptr \<Rightarrow> cptr" where
  "by_name sec table a args = (case (map_of section_mapping_table sec, map_of table a) of
     (Some s, Some w) \<Rightarrow> Some (s @ '' '' @ w @ (case args of None \<Rightarrow> [] | Some x \<Rightarrow> '' '' @ x) @ ''\<newline>'') | _ \<Rightarrow> None)"

definition short_args :: "cptr \<Rightarrow> bool" where
  "short_args args \<longleftrightarrow> (case args of None \<Rightarrow> True | Some x \<Rightarrow> length x \<le> 160)"

text \<open>A table that follows its enumeration, whose last value is the bound.\<close>

definition in_order :: "section_t \<Rightarrow> 'a list \<Rightarrow> ('a \<times> string) list \<Rightarrow> bool" where
  "in_order sec es table \<longleftrightarrow> map fst table = butlast es \<and> distinct es \<and> length es = Suc (length table) \<and> length es < 100 \<and>
     place sections sec < 19 \<and> map_of section_mapping_table sec = Some (section_mapping_cmd ! place sections sec) \<and>
     fst (section_actions ! place sections sec) = map snd table \<and> snd (section_actions ! place sections sec) = int (length table) \<and>
     place sections sec \<noteq> 8"

lemma place_nth: "distinct xs \<Longrightarrow> i < length xs \<Longrightarrow> place xs (xs ! i) = i"
  unfolding place_def by (induction xs arbitrary: i) (auto simp: nth_Cons split: nat.split)

lemma sint_small: "n < 100 \<Longrightarrow> sint (of_nat n :: c_int) = int n"
  by (simp add: sint_sbintrunc' [of "int n", where 'a = 32, simplified] signed_take_bit_int_eq_self)

lemma command_by_name:
  assumes "in_order sec es table" "a \<in> set es" "short_args args"
  shows "create_cmd (place sections sec) (of_nat (place es a)) args s = (Inr (by_name sec table a args), s)"
proof -
  obtain i where i: "i < length es" "a = es ! i" using assms(2) by (auto simp: in_set_conv_nth)
  have o: "map fst table = butlast es" "distinct es" "length es = Suc (length table)" "length es < 100"
    using assms(1) by (simp_all add: in_order_def)
  have p: "place es a = i" "sint (of_nat i :: c_int) = int i" using place_nth [OF o(2) i(1)] sint_small [of i] i o(4) by auto
  have keys: "map_of table a = (if i < length table then Some (snd (table ! i)) else None)"
  proof (cases "i < length table")
    case True
    then have "es ! i = fst (table ! i)" using o by (metis nth_butlast length_map nth_map)
    moreover have "distinct (map fst table)" using o(1,2) distinct_butlast by metis
    ultimately show ?thesis using True i(2) by (simp add: map_of_is_SomeI)
  next
    case False
    then have "a = last es" using i o(3) by (metis Suc_lessI last_conv_nth length_greater_0_conv less_Suc_eq diff_Suc_1 not_less_eq zero_less_Suc)
    moreover have "es \<noteq> []" using o(3) by auto
    ultimately have "a \<notin> set (map fst table)"
      using o(1,2) by (metis append_butlast_last_id distinct_append disjoint_iff list.set_intros(1))
    then show ?thesis using False by (auto simp: map_of_eq_None_iff)
  qed
  show ?thesis
    using create_cmd_spec [of "place sections sec" args "of_nat i" s] assms(1,3) keys p
    by (auto simp: in_order_def by_name_def short_args_def)
qed

lemmas enum_defs = in_order_def place_def section_mapping_table_def sections_def

lemma md_in_order: "in_order SECTION_MD md_actions md_action_table" "a \<in> set md_actions"
  by code_simp (cases a; simp add: md_actions_def)

lemma evloop_in_order: "in_order SECTION_EV_LOOP evloop_actions evloop_action_table" "a \<in> set evloop_actions"
  by code_simp (cases a; simp add: evloop_actions_def)

lemma ieee1905_in_order: "in_order SECTION_IEEE1905 ieee1905_actions ieee1905_action_table" "a \<in> set ieee1905_actions"
  by code_simp (cases a; simp add: ieee1905_actions_def)

lemma hy_manager_in_order: "in_order SECTION_HY_MANAGER hy_manager_actions hy_manager_action_table" "a \<in> set hy_manager_actions"
  by code_simp (cases a; simp add: hy_manager_actions_def)

lemma wlan_manager_in_order: "in_order SECTION_WLAN_MANAGER wlan_manager_actions wlan_manager_action_table" "a \<in> set wlan_manager_actions"
  by code_simp (cases a; simp add: wlan_manager_actions_def)

lemma mc_manager_in_order: "in_order SECTION_MC_MANAGER mc_manager_actions mc_manager_action_table" "a \<in> set mc_manager_actions"
  by code_simp (cases a; simp add: mc_manager_actions_def)

lemma multi_ap_in_order: "in_order SECTION_MULTI_AP multi_ap_actions multi_ap_action_table" "a \<in> set multi_ap_actions"
  by code_simp (cases a; simp add: multi_ap_actions_def)

lemma topology_in_order: "in_order SECTION_TOPOLOGY topology_actions topology_action_table" "a \<in> set topology_actions"
  by code_simp (cases a; simp add: topology_actions_def)

lemma dispatch_service_in_order: "in_order SECTION_DISPATCH_SERVICE dispatch_service_actions dispatch_service_action_table" "a \<in> set dispatch_service_actions"
  by code_simp (cases a; simp add: dispatch_service_actions_def)

lemma dbg_service_in_order: "in_order SECTION_DBG_SERVICE dbg_service_actions dbg_service_action_table" "a \<in> set dbg_service_actions"
  by code_simp (cases a; simp add: dbg_service_actions_def)

lemma stadb_in_order: "in_order SECTION_STADB stadb_actions stadb_action_table" "a \<in> set stadb_actions"
  by code_simp (cases a; simp add: stadb_actions_def)

lemma mapctrl_in_order: "in_order SECTION_MAP_CTRL mapctrl_actions mapctrl_action_table" "a \<in> set mapctrl_actions"
  by code_simp (cases a; simp add: mapctrl_actions_def)

lemma pc_service_in_order: "in_order SECTION_PC_SERVICE pc_service_actions pc_service_action_table" "a \<in> set pc_service_actions"
  by code_simp (cases a; simp add: pc_service_actions_def)

lemma steer_exec_in_order: "in_order SECTION_STEER_EXEC steer_exec_actions steer_exec_action_table" "a \<in> set steer_exec_actions"
  by code_simp (cases a; simp add: steer_exec_actions_def)

lemma band_mon_in_order: "in_order SECTION_BAND_MON band_mon_actions band_mon_action_table" "a \<in> set band_mon_actions"
  by code_simp (cases a; simp add: band_mon_actions_def)

lemma estimator_in_order: "in_order SECTION_ESTIMATOR estimator_actions estimator_action_table" "a \<in> set estimator_actions"
  by code_simp (cases a; simp add: estimator_actions_def)

lemma steeralg_in_order: "in_order SECTION_STEER_ALG steeralg_actions steeralg_action_table" "a \<in> set steeralg_actions"
  by code_simp (cases a; simp add: steeralg_actions_def)


lemma service_priority_words:
  assumes "short_args args"
  shows "create_cmd (place sections SECTION_SERVICE_PRIORITY) (of_nat (place service_priority_actions a)) args s =
    (if a = SERVICE_PRIORITY_MAX then (Inl OutOfBounds, s)
     else (Inr (by_name SECTION_SERVICE_PRIORITY service_priority_action_table a args), s))"
proof -
  have t: "place sections SECTION_SERVICE_PRIORITY = 8" "section_mapping_cmd ! 8 = ''sp''" "section_actions ! 8 = (service_priority_action_cmd, 19)"
    "map_of section_mapping_table SECTION_SERVICE_PRIORITY = Some ''sp''"
    by code_simp+
  show ?thesis unfolding t(1)
    using create_cmd_spec [of 8 args "of_nat (place service_priority_actions a)" s] assms
    by (cases a) (simp_all add: t short_args_def by_name_def place_def service_priority_actions_def service_priority_action_table_def
        service_priority_action_cmd_def)
qed

lemma debug_words:
  assumes "short_args args"
  shows "create_cmd (place sections SECTION_DEBUG) (of_nat (place debug_actions DEBUG_HERE)) args s =
      (Inr (Some (''dbg here'' @ (case args of None \<Rightarrow> [] | Some x \<Rightarrow> '' '' @ x) @ ''\<newline>'')), s)"
    "by_name SECTION_DEBUG debug_action_table DEBUG_HERE args = None"
    "a \<noteq> DEBUG_HERE \<Longrightarrow> create_cmd (place sections SECTION_DEBUG) (of_nat (place debug_actions a)) args s =
      (Inr (by_name SECTION_DEBUG debug_action_table a args), s)"
proof -
  have t: "place sections SECTION_DEBUG = 0" "section_mapping_cmd ! 0 = ''dbg''" "section_actions ! 0 = (debug_action_cmd, 2)"
    "map_of section_mapping_table SECTION_DEBUG = Some ''dbg''"
    by code_simp+
  note d = t short_args_def by_name_def place_def debug_actions_def debug_action_table_def debug_action_cmd_def
  show "create_cmd (place sections SECTION_DEBUG) (of_nat (place debug_actions DEBUG_HERE)) args s =
      (Inr (Some (''dbg here'' @ (case args of None \<Rightarrow> [] | Some x \<Rightarrow> '' '' @ x) @ ''\<newline>'')), s)"
    unfolding t(1) using create_cmd_spec [of 0 args 1 s] assms by (simp add: d)
  show "by_name SECTION_DEBUG debug_action_table DEBUG_HERE args = None" by (simp add: d)
  show "a \<noteq> DEBUG_HERE \<Longrightarrow> create_cmd (place sections SECTION_DEBUG) (of_nat (place debug_actions a)) args s =
      (Inr (by_name SECTION_DEBUG debug_action_table a args), s)"
    unfolding t(1) using create_cmd_spec [of 0 args "of_nat (place debug_actions a)" s] assms by (cases a) (simp_all add: d)
qed

text \<open>
  The lookup by index is the lookup by enumerator. In 17 of the 19 sections every enumerator gives the line with
  the words that stand beside it, and the last one, which is only the bound, gives NULL. The service
  priorities differ in their bound, which is that of the sections, so that the last one reads behind
  the table; the debug section differs in its table, whose second row names the first enumerator again.
\<close>

theorem enumerators_name_commands:
  assumes "short_args args"
  shows "create_cmd (place sections SECTION_MD) (of_nat (place md_actions md)) args s = (Inr (by_name SECTION_MD md_action_table md args), s) \<and>
    create_cmd (place sections SECTION_EV_LOOP) (of_nat (place evloop_actions ev)) args s = (Inr (by_name SECTION_EV_LOOP evloop_action_table ev args), s) \<and>
    create_cmd (place sections SECTION_IEEE1905) (of_nat (place ieee1905_actions ie)) args s = (Inr (by_name SECTION_IEEE1905 ieee1905_action_table ie args), s) \<and>
    create_cmd (place sections SECTION_HY_MANAGER) (of_nat (place hy_manager_actions hy)) args s = (Inr (by_name SECTION_HY_MANAGER hy_manager_action_table hy args), s) \<and>
    create_cmd (place sections SECTION_WLAN_MANAGER) (of_nat (place wlan_manager_actions wl)) args s = (Inr (by_name SECTION_WLAN_MANAGER wlan_manager_action_table wl args), s) \<and>
    create_cmd (place sections SECTION_MC_MANAGER) (of_nat (place mc_manager_actions mc)) args s = (Inr (by_name SECTION_MC_MANAGER mc_manager_action_table mc args), s) \<and>
    create_cmd (place sections SECTION_MULTI_AP) (of_nat (place multi_ap_actions ma)) args s = (Inr (by_name SECTION_MULTI_AP multi_ap_action_table ma args), s) \<and>
    create_cmd (place sections SECTION_TOPOLOGY) (of_nat (place topology_actions td)) args s = (Inr (by_name SECTION_TOPOLOGY topology_action_table td args), s) \<and>
    create_cmd (place sections SECTION_DISPATCH_SERVICE) (of_nat (place dispatch_service_actions di)) args s = (Inr (by_name SECTION_DISPATCH_SERVICE dispatch_service_action_table di args), s) \<and>
    create_cmd (place sections SECTION_DBG_SERVICE) (of_nat (place dbg_service_actions db)) args s = (Inr (by_name SECTION_DBG_SERVICE dbg_service_action_table db args), s) \<and>
    create_cmd (place sections SECTION_STADB) (of_nat (place stadb_actions st)) args s = (Inr (by_name SECTION_STADB stadb_action_table st args), s) \<and>
    create_cmd (place sections SECTION_MAP_CTRL) (of_nat (place mapctrl_actions ct)) args s = (Inr (by_name SECTION_MAP_CTRL mapctrl_action_table ct args), s) \<and>
    create_cmd (place sections SECTION_PC_SERVICE) (of_nat (place pc_service_actions pc)) args s = (Inr (by_name SECTION_PC_SERVICE pc_service_action_table pc args), s) \<and>
    create_cmd (place sections SECTION_STEER_EXEC) (of_nat (place steer_exec_actions se)) args s = (Inr (by_name SECTION_STEER_EXEC steer_exec_action_table se args), s) \<and>
    create_cmd (place sections SECTION_BAND_MON) (of_nat (place band_mon_actions bm)) args s = (Inr (by_name SECTION_BAND_MON band_mon_action_table bm args), s) \<and>
    create_cmd (place sections SECTION_ESTIMATOR) (of_nat (place estimator_actions et)) args s = (Inr (by_name SECTION_ESTIMATOR estimator_action_table et args), s) \<and>
    create_cmd (place sections SECTION_STEER_ALG) (of_nat (place steeralg_actions al)) args s = (Inr (by_name SECTION_STEER_ALG steeralg_action_table al args), s) \<and>
    create_cmd (place sections SECTION_SERVICE_PRIORITY) (of_nat (place service_priority_actions sp)) args s =
      (if sp = SERVICE_PRIORITY_MAX then (Inl OutOfBounds, s)
       else (Inr (by_name SECTION_SERVICE_PRIORITY service_priority_action_table sp args), s)) \<and>
    create_cmd (place sections SECTION_DEBUG) (of_nat (place debug_actions DEBUG_HERE)) args s =
      (Inr (Some (''dbg here'' @ (case args of None \<Rightarrow> [] | Some x \<Rightarrow> '' '' @ x) @ ''\<newline>'')), s) \<and>
    by_name SECTION_DEBUG debug_action_table DEBUG_HERE args = None"
  using assms
  by (intro conjI service_priority_words debug_words command_by_name
      md_in_order
      evloop_in_order
      ieee1905_in_order
      hy_manager_in_order
      wlan_manager_in_order
      mc_manager_in_order
      multi_ap_in_order
      topology_in_order
      dispatch_service_in_order
      dbg_service_in_order
      stadb_in_order
      mapctrl_in_order
      pc_service_in_order
      steer_exec_in_order
      band_mon_in_order
      estimator_in_order
      steeralg_in_order)

theorem enumerators_name_commands_witness:
  "create_cmd (place sections SECTION_TOPOLOGY) (of_nat (place topology_actions TOPOLOGY_DISCOVERY)) None () = (Inr (Some ''td dicovery\<newline>''), ()) \<and>
   create_cmd (place sections SECTION_SERVICE_PRIORITY) (of_nat (place service_priority_actions SERVICE_PRIORITY_MAX)) None () = (Inl OutOfBounds, ())"
proof -
  have short: "short_args None" by (simp add: short_args_def)
  have "by_name SECTION_TOPOLOGY topology_action_table TOPOLOGY_DISCOVERY None = Some ''td dicovery\<newline>''" by code_simp
  then show ?thesis
    using enumerators_name_commands [OF short, where td = TOPOLOGY_DISCOVERY and sp = SERVICE_PRIORITY_MAX and s = "()"]
    by (simp only: if_True simp_thms)
qed

end
