(* ===== verification/Spec2Isabelle.thy ===== *)
theory Spec2Isabelle
  imports MqttBridge MainProgram Logging TimerThread Browse Authen KeyPair EmtWire EmtEnum
begin

text \<open>
  A model of the EZM daemon, which manages a mesh of access points: it takes requests in JSON from a
  message broker, changes settings files and the configuration of the system by shell commands, talks
  to the daemon of the mesh, and publishes responses. Paths are below \<open>src/src\<close> of the repository.

  \<^bold>\<open>How the parts interact.\<close> A message arrives in the callback of \<open>message_handler.c\<close> (\<open>Dispatch\<close>), which
  finds its handler in a table and starts it in a thread. A handler (\<open>NetHandlers\<close>, \<open>MeshHandlers\<close>)
  reads the request (\<open>Message\<close>), calls the operation of its component, and publishes the response
  (\<open>Mqtt\<close>). The operations keep their settings as JSON files (\<open>World\<close>, \<open>CJson\<close>) and run \<open>uci\<close>, \<open>ip\<close>,
  \<open>iptables\<close> and init scripts. Pairing and removal of devices wait on timers (\<open>Timer\<close>) that ask the
  mesh daemon (\<open>Emt\<close>, over the exchange of \<open>EmtWire\<close>), and devices that can be paired are found by service discovery (\<open>Discovery\<close>).

  \<^bold>\<open>Effects and errors.\<close> A C function with effects is a function in the monad \<open>io\<close> of \<open>Prelude\<close>: it takes
  the state and gives a value or a fault, and the state. A fault is what C leaves undefined or what
  ends the process: reading NULL, out of bounds, a buffer that overflows, an invalid or second
  release, an uninitialised or released value, a missing return, a lock taken twice, an exit. \<open>OutOfFuel\<close>
  is the model's only. Integers are words of their width (\<open>c_int\<close>). The state \<open>world\<close> of \<open>World\<close> holds the
  files, the lock of \<open>file.c\<close>, the error tables, identities and topics, the static flags of the
  topology parser, a counter of identifiers, and a trace of commands, messages and waits. The
  record \<open>env\<close> holds what is not in the repository: the JSON library, what a shell command prints and
  changes, the answers of the mesh daemon and of authentication services, which files can be written,
  and what the missing return statements of three functions happen to give.

  \<^bold>\<open>Theories and sources.\<close>

  \<^item> \<open>Prelude\<close>: faults, the monad, lemmas on lists and words.
  \<^item> \<open>CStrings\<close>: \<open>utils/string\<close>, \<open>utils/split\<close>. A pointer to a string is an option.
  \<^item> \<open>CQueue\<close>: \<open>utils/queue\<close> on bytes with 16-bit indices; the contents as a list; interface
    \<open>overwriting_fifo\<close>, interpreted on the queue.
  \<^item> \<open>CJson\<close>, \<open>JsonTree\<close>: the interface of cJSON as the record \<open>cjson_lib\<close> with the laws \<open>cjson_ok\<close> of its
    documentation; a tree satisfies them.
  \<^item> \<open>World\<close>: \<open>utils/file\<close>, \<open>utils/cmd\<close>, \<open>utils/uci\<close>, \<open>utils/uuid\<close>, \<open>config/service_controller\<close>.
  \<^item> \<open>ErrorCode\<close>: \<open>api/error_code\<close>. \<open>Config\<close>: \<open>utils/dotenv\<close>, \<open>config.c\<close>.
  \<^item> \<open>Lan\<close>, \<open>Route\<close>, \<open>Iptables\<close>, \<open>Dhcp\<close>, \<open>Wlan\<close>: \<open>core/network\<close> and \<open>config/service_info\<close>.
  \<^item> \<open>Device\<close>, \<open>Topology\<close>: the device database and the parser of the daemon's topology text.
    \<open>Emt\<close>: the commands of the mesh daemon and \<open>wps.c\<close>. \<open>EmtEnum\<close>: the generated enumerations and tables of
    \<open>emt_cmd.h\<close> and \<open>emt_cmd.c\<close>. \<open>EmtWire\<close>: the sockets and the buffer of \<open>emt.c\<close>.
  \<^item> \<open>MqttBridge\<close>: \<open>config/mqtt_bridge\<close>, the configuration file of the broker line by line.
  \<^item> \<open>Quality\<close>, \<open>MeshSetting\<close>: \<open>core/mesh/quality\<close>, \<open>core/mesh/setting\<close>, \<open>core/network/network.c\<close>, and the
    publisher of \<open>utils/app_mdns\<close>. The three work modes are scripts: lists of configuration commands.
  \<^item> \<open>Message\<close>: \<open>api/message/message_struct.c\<close>. The union of the data is a datatype, and reading the wrong
    member is the fault \<open>WrongMember\<close>.
  \<^item> \<open>Frame\<close>: no code; what every operation keeps, by the interface \<open>run_relation\<close>, interpreted for equality
    and for \<open>evolves\<close>.
  \<^item> \<open>Mqtt\<close>, \<open>Broker\<close>: \<open>api/mqtt/mqtt_handler.c\<close>; what is published and the exchange of credentials, and the
    session with the broker as a step relation.
  \<^item> \<open>Authen\<close>, \<open>KeyPair\<close>: \<open>lib/security-provider\<close>, its HTTP requests and its keys and certificates, over the
    interfaces of libcurl and OpenSSL.
  \<^item> \<open>NetHandlers\<close>: the 19 handlers of \<open>api/network\<close>; interfaces \<open>query_handler\<close> (a request that reads) and
    \<open>change_handler\<close> (a request that changes), interpreted on 8 and 10 of them.
  \<^item> \<open>MeshHandlers\<close>: the 12 handlers of \<open>api/mesh\<close>.
  \<^item> \<open>Dispatch\<close>: \<open>api/message/message_handler.c\<close> and the thread queue of \<open>main.c\<close>, as a step relation.
  \<^item> \<open>MainProgram\<close>: \<open>main.c\<close>, its options, the order of the start and what the process is after it.
  \<^item> \<open>Interleave\<close>: threads whose actions are interleaved, on the creations of routes and forwarding profiles.
  \<^item> \<open>Timer\<close>, \<open>TimerThread\<close>: \<open>utils/timer\<close>, a linked list on a heap; interface \<open>timer_service\<close>, interpreted on it;
    the thread next to those that stop timers.
  \<^item> \<open>Logging\<close>: \<open>utils/log\<close>, the registry of callbacks and what an event writes.
  \<^item> \<open>DnsName\<close>, \<open>Mdns\<close>: \<open>lib/mdns/mdns.h\<close> on bytes: names with compression against the inductive \<open>name_at\<close>, and
    packets; interface \<open>record_client\<close> between the receivers and a callback.
  \<^item> \<open>Discovery\<close>: the query of \<open>utils/app_mdns\<close>: sockets, question, loop, and the callback, on which
    \<open>record_client\<close> is interpreted.
  \<^item> \<open>Responder\<close>, \<open>Browse\<close>: the program \<open>lib/mdns/mdns.c\<close>: the service that answers questions, its two clients and the
    command line; interface \<open>packet_client\<close>, interpreted on its three callbacks, which gives \<open>record_client\<close>.

  \<^bold>\<open>What the lemmas show.\<close> The conversions to and from JSON are inverse to each other, component by
  component and then for whole requests and responses. Each operation of the network components has
  a lemma on what it stores, runs and returns on every branch, including those where the code does
  not do what it means to: these are stated as the code is. The queue refines a list, the linked
  list of timers a list, the topology parser the report it reads, and the threads of the dispatcher
  refine serving one message after the other. \<open>evolves\<close> is proved for every function and handler and
  gives the invariant of the process by induction over its steps, from the command line on. The files and the
  objects of the library of keys are followed through every failure. Creations of routes that run at once
  are explored action by action: nothing crashes, the file holds whole requests, but one can be lost.
  Whatever datagrams arrive, the clients and the service of the discovery library stay inside their blocks, and the service answers from
  its records.
  The session with the broker has an invariant, and states from which it is never made again. The loops end: the wait for the
  daemon and the agent mode exactly when the daemon comes up, the waits of pairing and removal by the
  round of the timeout, finalising the timers always, the collector of threads after one call for
  each handle.

  \<^bold>\<open>Fuel and bounds.\<close> \<open>wait_daemon\<close> and \<open>delete_hosts\<close> have the number of their turns as fuel. The first
  returns with the number of the first attempt that succeeds plus one, and with no fuel if none
  does; the second with the number of host entries plus one. A handler that starts a work
  mode or sets the address service takes the fuel as its argument \<open>n\<close>. The waits of pairing take the
  list of their rounds, and more rounds than up to the timeout make no difference. The loops of
  \<open>Timer\<close> are partial functions, the others are total. The bounds of the code are its own: 1000 handles,
  1000 timers, 128 texts, 65 parts of a name, 16 pointers in a row, 200 characters of a response's name, and the sizes of the buffers of
  \<open>sprintf\<close>.

  \<^bold>\<open>Not modelled.\<close> Structures are values: two pointers to one block are two copies, so
  a string that is released through one of them and used through the other shows only where the
  model says so (\<open>InvalidFree\<close>, \<open>UseAfterFree\<close>), and memory that is never released shows only in
  \<open>EmtWire\<close>, \<open>Authen\<close> and \<open>KeyPair\<close>. A handler is one step of its thread in \<open>Dispatch\<close>; its file operations, which
  the lock of \<open>file.c\<close> protects one by one, are interleaved only for the creations in \<open>Interleave\<close>. A callback of
  a timer is one action of the thread in \<open>TimerThread\<close>. Libmosquitto, libcurl, OpenSSL, cJSON, the sockets and
  the system calls are parameters of the model. Left out are the
  printed texts of \<open>main.c\<close> and its endless sleep, log lines whose format string is text from the network, the
  branches for Windows, and the tests beside \<open>lib/security-provider\<close>, which call the library with fixed arguments.
\<close>

end
